(* ===== verification/Aleo_Prelude.thy ===== *)
theory Aleo_Prelude
  imports Main "HOL-Library.AList" "HOL-Library.Multiset"
begin

text \<open>
  Shared ground of the development: the types that stand for Rust's integers, times and
  collections, the combinators for \<^verbatim>\<open>Result\<close>-returning methods on
  \<^verbatim>\<open>&mut self\<close>, the interface of a keyed store (\<^verbatim>\<open>HashMap\<close>,
  \<^verbatim>\<open>BTreeMap\<close>) with its interpretation on association lists, and the interface of
  a transition system with an invariant.
\<close>

section \<open>Types of the model\<close>

text \<open>
  \<^verbatim>\<open>u64\<close>, \<^verbatim>\<open>usize\<close> and the narrower unsigned integers are natural
  numbers; where the code could leave the range of the machine type, the wrap-around is
  written out or the operation is modelled on words and related to the natural numbers.
  \<^verbatim>\<open>OffsetDateTime\<close> and \<^verbatim>\<open>Duration\<close> count nanoseconds.
\<close>

type_synonym u8 = nat
type_synonym u16 = nat
type_synonym u64 = nat
type_synonym usize = nat
type_synonym OffsetDateTime = int
type_synonym Duration = int

text \<open>
  A method on \<^verbatim>\<open>&mut self\<close> that returns a \<^verbatim>\<open>Result\<close> maps the state to the
  result and the state it leaves behind: also an \<^verbatim>\<open>Err\<close> leaves a state, and the
  model keeps what was changed before the error.
\<close>

type_synonym ('e, 'a, 's) outcome = "('e + 'a) \<times> 's"

text \<open>The \<^verbatim>\<open>?\<close> operator on such a method call.\<close>

definition and_then ::
  "('e, 'a, 's) outcome \<Rightarrow> ('a \<Rightarrow> 's \<Rightarrow> ('e, 'b, 's) outcome) \<Rightarrow> ('e, 'b, 's) outcome" where
  "and_then m f = (case m of (Inl e, s) \<Rightarrow> (Inl e, s) | (Inr a, s) \<Rightarrow> f a s)"

text \<open>The \<^verbatim>\<open>?\<close> operator on a plain \<^verbatim>\<open>Result\<close>.\<close>

definition result_bind :: "'e + 'a \<Rightarrow> ('a \<Rightarrow> 'e + 'b) \<Rightarrow> 'e + 'b" where
  "result_bind r f = (case r of Inl e \<Rightarrow> Inl e | Inr a \<Rightarrow> f a)"

definition is_ok :: "'e + 'a \<Rightarrow> bool" where
  "is_ok r = (case r of Inl _ \<Rightarrow> False | Inr _ \<Rightarrow> True)"

text \<open>\<^verbatim>\<open>iter().map(f).collect::<Result<Vec<_>, _>>()\<close>: the first error wins.\<close>

fun collect_results :: "('a \<Rightarrow> 'e + 'b) \<Rightarrow> 'a list \<Rightarrow> 'e + 'b list" where
  "collect_results f [] = Inr []"
| "collect_results f (x # xs) =
     (case f x of
        Inl e \<Rightarrow> Inl e
      | Inr y \<Rightarrow> (case collect_results f xs of Inl e \<Rightarrow> Inl e | Inr ys \<Rightarrow> Inr (y # ys)))"

text \<open>
  \<^verbatim>\<open>HashMap\<close> and \<^verbatim>\<open>BTreeMap\<close>: association lists with distinct keys. The order
  of the list is the order in which the map is iterated; Rust leaves it open for a
  \<^verbatim>\<open>HashMap\<close>, and the theorems hold for every order. \<^verbatim>\<open>HashSet\<close>: lists
  without duplicates.
\<close>

type_synonym ('k, 'v) hashmap = "('k \<times> 'v) list"
type_synonym 'a hashset = "'a list"

abbreviation hm_get :: "('k, 'v) hashmap \<Rightarrow> 'k \<Rightarrow> 'v option" where
  "hm_get m k \<equiv> map_of m k"

abbreviation hm_insert :: "'k \<Rightarrow> 'v \<Rightarrow> ('k, 'v) hashmap \<Rightarrow> ('k, 'v) hashmap" where
  "hm_insert \<equiv> AList.update"

abbreviation hm_remove :: "'k \<Rightarrow> ('k, 'v) hashmap \<Rightarrow> ('k, 'v) hashmap" where
  "hm_remove \<equiv> AList.delete"

abbreviation hm_modify :: "'k \<Rightarrow> ('v \<Rightarrow> 'v) \<Rightarrow> ('k, 'v) hashmap \<Rightarrow> ('k, 'v) hashmap" where
  "hm_modify \<equiv> AList.map_entry"

abbreviation hm_keys :: "('k, 'v) hashmap \<Rightarrow> 'k list" where
  "hm_keys m \<equiv> map fst m"

abbreviation hm_contains :: "('k, 'v) hashmap \<Rightarrow> 'k \<Rightarrow> bool" where
  "hm_contains m k \<equiv> k \<in> set (map fst m)"

abbreviation hm_wf :: "('k, 'v) hashmap \<Rightarrow> bool" where
  "hm_wf m \<equiv> distinct (map fst m)"

text \<open>\<^verbatim>\<open>values_mut\<close>: the function is applied to every value, in iteration order.\<close>

abbreviation hm_map_values :: "('v \<Rightarrow> 'w) \<Rightarrow> ('k, 'v) hashmap \<Rightarrow> ('k, 'w) hashmap" where
  "hm_map_values f \<equiv> map (\<lambda>(k, v). (k, f v))"

text \<open>\<^verbatim>\<open>extend\<close> and \<^verbatim>\<open>collect\<close> into a map: later entries replace earlier ones.\<close>

definition hm_extend :: "('k \<times> 'v) list \<Rightarrow> ('k, 'v) hashmap \<Rightarrow> ('k, 'v) hashmap" where
  "hm_extend kvs m = fold (\<lambda>(k, v). hm_insert k v) kvs m"

abbreviation hm_collect :: "('k \<times> 'v) list \<Rightarrow> ('k, 'v) hashmap" where
  "hm_collect kvs \<equiv> hm_extend kvs []"

section \<open>Collections of facts\<close>

named_theorems outcome_defs \<open>definitions of the fallible operations of a component\<close>
named_theorems outcome_splits \<open>case splits for results and outcomes\<close>

lemma and_then_simps [simp]:
  "and_then (Inl e, s) f = (Inl e, s)"
  "and_then (Inr a, s) f = f a s"
  by (simp_all add: and_then_def)

lemma and_then_split:
  "P (and_then m f) \<longleftrightarrow>
     (\<forall>e s. m = (Inl e, s) \<longrightarrow> P (Inl e, s)) \<and> (\<forall>a s. m = (Inr a, s) \<longrightarrow> P (f a s))"
  by (auto simp: and_then_def split: prod.splits sum.splits)

lemma and_then_split_asm:
  "P (and_then m f) \<longleftrightarrow>
     \<not> ((\<exists>e s. m = (Inl e, s) \<and> \<not> P (Inl e, s)) \<or> (\<exists>a s. m = (Inr a, s) \<and> \<not> P (f a s)))"
  by (auto simp: and_then_def split: prod.splits sum.splits)

lemmas and_then_splits [outcome_splits] = and_then_split and_then_split_asm

lemma and_then_ok_iff:
  "and_then m f = (Inr b, t) \<longleftrightarrow> (\<exists>a s. m = (Inr a, s) \<and> f a s = (Inr b, t))"
  by (auto simp: and_then_def split: prod.splits sum.splits)

lemma result_bind_simps [simp]:
  "result_bind (Inl e) f = Inl e"
  "result_bind (Inr a) f = f a"
  by (simp_all add: result_bind_def)

lemma result_bind_ok_iff: "result_bind r f = Inr b \<longleftrightarrow> (\<exists>a. r = Inr a \<and> f a = Inr b)"
  by (auto simp: result_bind_def split: sum.splits)

lemma is_ok_simps [simp]: "is_ok (Inr a)" "\<not> is_ok (Inl e)"
  by (simp_all add: is_ok_def)

lemma is_ok_iff: "is_ok r \<longleftrightarrow> (\<exists>a. r = Inr a)"
  by (cases r) simp_all

lemma collect_results_ok_iff:
  "collect_results f xs = Inr ys \<longleftrightarrow> list_all2 (\<lambda>x y. f x = Inr y) xs ys"
proof (induction xs arbitrary: ys)
  case Nil
  show ?case by auto
next
  case (Cons x xs)
  show ?case
    by (cases "f x"; cases "collect_results f xs")
      (auto simp: list_all2_Cons1 Cons.IH [symmetric])
qed

lemma collect_results_okI:
  "(\<And>x. x \<in> set xs \<Longrightarrow> f x = Inr (g x)) \<Longrightarrow> collect_results f xs = Inr (map g xs)"
  by (induction xs) auto

section \<open>The interface of a keyed store\<close>

text \<open>
  What the coordinator relies on in its maps: what a lookup returns after an insertion, a
  removal or an in-place change, and that the keys stay distinct.
\<close>

locale keyed_store =
  fixes get :: "'m \<Rightarrow> 'k \<Rightarrow> 'v option"
    and ins :: "'k \<Rightarrow> 'v \<Rightarrow> 'm \<Rightarrow> 'm"
    and rem :: "'k \<Rightarrow> 'm \<Rightarrow> 'm"
    and upd :: "'k \<Rightarrow> ('v \<Rightarrow> 'v) \<Rightarrow> 'm \<Rightarrow> 'm"
    and inv :: "'m \<Rightarrow> bool"
  assumes get_ins: "get (ins k v m) = (get m)(k \<mapsto> v)"
    and get_rem: "get (rem k m) = (get m)(k := None)"
    and get_upd: "get (upd k f m) = (get m)(k := map_option f (get m k))"
    and inv_ins: "inv m \<Longrightarrow> inv (ins k v m)"
    and inv_rem: "inv m \<Longrightarrow> inv (rem k m)"
    and inv_upd: "inv m \<Longrightarrow> inv (upd k f m)"
begin

lemma get_ins_same: "get (ins k v m) k = Some v"
  by (simp add: get_ins)

lemma get_ins_other: "k \<noteq> k' \<Longrightarrow> get (ins k v m) k' = get m k'"
  by (simp add: get_ins)

lemma get_rem_same: "get (rem k m) k = None"
  by (simp add: get_rem)

lemma dom_ins: "dom (get (ins k v m)) = insert k (dom (get m))"
  by (simp add: get_ins)

lemma dom_rem: "dom (get (rem k m)) = dom (get m) - {k}"
  by (simp add: get_rem)

lemma dom_upd: "dom (get (upd k f m)) = dom (get m)"
  by (auto simp: get_upd split: if_splits)

lemma upd_absent: "get m k = None \<Longrightarrow> get (upd k f m) = get m"
  by (auto simp: get_upd)

lemma upd_is_ins: "get m k = Some v \<Longrightarrow> get (upd k f m) = get (ins k (f v) m)"
  by (simp add: get_upd get_ins)

lemma rem_after_ins: "get m k = None \<Longrightarrow> get (rem k (ins k v m)) = get m"
  by (auto simp: get_rem get_ins)

lemma get_ins_all: "get (fold (\<lambda>(k, v). ins k v) kvs m) = get m ++ map_of (rev kvs)"
  by (induction kvs arbitrary: m) (auto simp: get_ins map_add_def split: option.splits)

lemma inv_ins_all: "inv m \<Longrightarrow> inv (fold (\<lambda>(k, v). ins k v) kvs m)"
  by (induction kvs arbitrary: m) (auto simp: inv_ins)

end

interpretation hm: keyed_store
  "\<lambda>m. map_of m" AList.update AList.delete AList.map_entry "\<lambda>m. distinct (map fst m)"
  by unfold_locales
    (auto simp: update_conv' delete_conv' map_of_map_entry fun_eq_iff distinct_update
      distinct_delete distinct_map_entry split: option.splits)

section \<open>Sizes of maps and of filtered lists\<close>

lemma update_new: "k \<notin> set (map fst m) \<Longrightarrow> AList.update k v m = m @ [(k, v)]"
  by (induction m) auto

lemma length_update: "length (AList.update k v m) = (if k \<in> set (map fst m) then length m else Suc (length m))"
  by (induction m) auto

lemma keys_update: "set (map fst (AList.update k v m)) = insert k (set (map fst m))"
  using dom_update [of k v m] by auto

lemma keys_delete: "set (map fst (AList.delete k m)) = set (map fst m) - {k}"
  using delete_keys [of k m] by auto

lemma keys_map_entry: "map fst (AList.map_entry k f m) = map fst m"
  by (induction m) auto

lemma keys_map_values: "map fst (map (\<lambda>(k, v). (k, f v)) m) = map fst m"
  by (induction m) auto

lemma map_of_map_values: "map_of (map (\<lambda>(k, v). (k, f v)) m) k = map_option f (map_of m k)"
  by (induction m) auto

lemma map_of_Some_in_keys: "map_of m k = Some v \<Longrightarrow> k \<in> set (map fst m)"
  by (metis map_of_SomeD list.set_map fst_conv image_eqI)

lemma in_keys_map_of: "k \<in> set (map fst m) \<longleftrightarrow> (\<exists>v. map_of m k = Some v)"
  by (metis list.set_map map_of_eq_None_iff option.exhaust option.distinct(1))

lemma length_filter_full: "length (filter P xs) = length xs \<longleftrightarrow> (\<forall>x\<in>set xs. P x)"
  by (metis filter_True length_filter_less less_irrefl)

lemma length_filter_pos: "0 < length (filter P xs) \<longleftrightarrow> (\<exists>x\<in>set xs. P x)"
  by (induction xs) auto

lemmas keyed_sizes = update_new length_update keys_update keys_delete keys_map_entry

section \<open>The interface of a transition system with an invariant\<close>

text \<open>
  Chunks, participants and the coordinator state are all driven by sequences of operations.
  An invariant that the initial states satisfy and every step keeps holds after every
  sequence of steps; a measure that no step decreases never decreases.
\<close>

locale invariant_system =
  fixes init :: "'s \<Rightarrow> bool"
    and step :: "'s \<Rightarrow> 's \<Rightarrow> bool"
    and inv :: "'s \<Rightarrow> bool"
  assumes inv_init: "init s \<Longrightarrow> inv s"
    and inv_step: "inv s \<Longrightarrow> step s t \<Longrightarrow> inv t"
begin

lemma inv_steps: "step\<^sup>*\<^sup>* s t \<Longrightarrow> inv s \<Longrightarrow> inv t"
  by (induction rule: rtranclp_induct) (auto intro: inv_step)

lemma inv_reachable: "init s \<Longrightarrow> step\<^sup>*\<^sup>* s t \<Longrightarrow> inv t"
  by (blast intro: inv_steps inv_init)

lemma mono_steps:
  fixes f :: "'s \<Rightarrow> nat"
  assumes "step\<^sup>*\<^sup>* s t" and "inv s" and "\<And>u v. inv u \<Longrightarrow> step u v \<Longrightarrow> f u \<le> f v"
  shows "f s \<le> f t"
  using assms(1)
proof (induction rule: rtranclp_induct)
  case base
  show ?case by simp
next
  case (step u v)
  from step.hyps(1) assms(2) have "inv u" by (rule inv_steps)
  with assms(3) step.hyps(2) have "f u \<le> f v" by blast
  with step.IH show ?case by simp
qed

lemma frame_steps:
  fixes f :: "'s \<Rightarrow> 'b"
  assumes "step\<^sup>*\<^sup>* s t" and "inv s" and "\<And>u v. inv u \<Longrightarrow> step u v \<Longrightarrow> f v = f u"
  shows "f t = f s"
  using assms(1)
proof (induction rule: rtranclp_induct)
  case base
  show ?case by simp
next
  case (step u v)
  from step.hyps(1) assms(2) have "inv u" by (rule inv_steps)
  with assms(3) step.hyps(2) have "f v = f u" by blast
  with step.IH show ?case by simp
qed

end

end
