(* ===== verification/Rust_Strings.thy ===== *)
theory Rust_Strings
  imports Aleo_Prelude
begin

text \<open>
  The string operations of Rust's standard library that the serialisers of the coordinator
  use: \<^verbatim>\<open>str::split\<close>, \<^verbatim>\<open>str::splitn(2, _)\<close>, the decimal \<^verbatim>\<open>Display\<close> of
  an unsigned integer and \<^verbatim>\<open>u64::from_str\<close>. Strings are byte lists; the separators
  and digits are ASCII, so splitting UTF-8 bytes is splitting characters.
\<close>

datatype ParseIntError = EmptyString | InvalidDigit | PosOverflow

text \<open>\<^verbatim>\<open>s.splitn(2, sep)\<close>: at most one cut, at the first separator.\<close>

definition splitn2 :: "char \<Rightarrow> string \<Rightarrow> string list" where
  "splitn2 sep s =
     (if sep \<in> set s
      then [takeWhile (\<lambda>c. c \<noteq> sep) s, tl (dropWhile (\<lambda>c. c \<noteq> sep) s)]
      else [s])"

text \<open>\<^verbatim>\<open>s.split(sep)\<close>: a cut at every separator; the empty string has one part.\<close>

fun split_on :: "char \<Rightarrow> string \<Rightarrow> string list" where
  "split_on sep [] = [[]]"
| "split_on sep (c # cs) =
     (if c = sep then [] # split_on sep cs
      else (case split_on sep cs of [] \<Rightarrow> [[c]] | p # ps \<Rightarrow> (c # p) # ps))"

definition digit_char :: "nat \<Rightarrow> char" where
  "digit_char d = char_of (48 + d)"

definition digit_val :: "char \<Rightarrow> nat option" where
  "digit_val c = (let v = of_char c :: nat in if 48 \<le> v \<and> v \<le> 57 then Some (v - 48) else None)"

fun show_u64 :: "u64 \<Rightarrow> string" where
  "show_u64 n = (if n < 10 then [digit_char n] else show_u64 (n div 10) @ [digit_char (n mod 10)])"

declare show_u64.simps [simp del]

text \<open>The loop of \<^verbatim>\<open>from_str_radix\<close>: the digit is read before overflow is checked.\<close>

fun parse_digits :: "nat \<Rightarrow> string \<Rightarrow> ParseIntError + u64" where
  "parse_digits acc [] = Inr acc"
| "parse_digits acc (c # cs) =
     (case digit_val c of
        None \<Rightarrow> Inl InvalidDigit
      | Some d \<Rightarrow>
          if 2 ^ 64 \<le> acc * 10 then Inl PosOverflow
          else if 2 ^ 64 \<le> acc * 10 + d then Inl PosOverflow
          else parse_digits (acc * 10 + d) cs)"

definition u64_from_str :: "string \<Rightarrow> ParseIntError + u64" where
  "u64_from_str s =
     (case s of
        [] \<Rightarrow> Inl EmptyString
      | c # cs \<Rightarrow>
          if c = CHR ''+'' then (if cs = [] then Inl InvalidDigit else parse_digits 0 cs)
          else parse_digits 0 s)"

section \<open>Splitting\<close>

lemma splitn2_append:
  assumes "sep \<notin> set xs"
  shows "splitn2 sep (xs @ sep # ys) = [xs, ys]"
proof -
  have "takeWhile (\<lambda>c. c \<noteq> sep) (xs @ sep # ys) = xs"
    and "dropWhile (\<lambda>c. c \<noteq> sep) (xs @ sep # ys) = sep # ys"
    using assms by (induction xs) auto
  then show ?thesis by (simp add: splitn2_def)
qed

lemma split_on_id: "sep \<notin> set s \<Longrightarrow> split_on sep s = [s]"
  by (induction s) auto

lemma split_on_append:
  "sep \<notin> set xs \<Longrightarrow> split_on sep (xs @ sep # ys) = xs # split_on sep ys"
  by (induction xs) auto

section \<open>Decimal numbers\<close>

lemma of_char_digit_char: "d < 10 \<Longrightarrow> of_char (digit_char d) = 48 + d"
  by (simp add: digit_char_def)

lemma digit_val_digit_char [simp]: "d < 10 \<Longrightarrow> digit_val (digit_char d) = Some d"
  by (simp add: digit_val_def of_char_digit_char Let_def)

lemma digit_char_neq:
  assumes "d < 10" and "(of_char c :: nat) < 48"
  shows "digit_char d \<noteq> c"
  using assms of_char_digit_char [OF assms(1)] by auto

lemma show_u64_no_sep:
  assumes "(of_char c :: nat) < 48"
  shows "c \<notin> set (show_u64 n)"
proof (induction n rule: show_u64.induct)
  case (1 n)
  show ?case
  proof (cases "n < 10")
    case True
    with assms show ?thesis
      by (subst show_u64.simps) (auto dest: digit_char_neq)
  next
    case False
    have "digit_char (n mod 10) \<noteq> c" by (rule digit_char_neq) (auto simp: assms)
    with False 1 show ?thesis
      by (subst show_u64.simps) auto
  qed
qed

lemma show_u64_nonempty: "show_u64 n \<noteq> []"
  by (subst show_u64.simps) simp

lemma parse_digits_append:
  "parse_digits acc (xs @ ys) = result_bind (parse_digits acc xs) (\<lambda>a. parse_digits a ys)"
  by (induction xs arbitrary: acc) (auto split: option.splits)

lemma parse_digits_show: "n < 2 ^ 64 \<Longrightarrow> parse_digits 0 (show_u64 n) = Inr n"
proof (induction n rule: show_u64.induct)
  case (1 n)
  show ?case
  proof (cases "n < 10")
    case True
    then show ?thesis by (subst show_u64.simps) simp
  next
    case False
    with 1 have "parse_digits 0 (show_u64 (n div 10)) = Inr (n div 10)" by simp
    moreover have "n div 10 * 10 + n mod 10 = n" by simp
    moreover have "n div 10 * 10 < 2 ^ 64" using "1.prems" by linarith
    ultimately show ?thesis
      using False "1.prems" by (subst show_u64.simps) (simp add: parse_digits_append)
  qed
qed

lemma u64_from_str_show:
  assumes "n < 2 ^ 64"
  shows "u64_from_str (show_u64 n) = Inr n"
proof -
  have "CHR ''+'' \<notin> set (show_u64 n)" by (rule show_u64_no_sep) simp
  then show ?thesis
    using assms parse_digits_show [OF assms] show_u64_nonempty [of n]
    by (auto simp: u64_from_str_def split: list.splits)
qed

lemma parse_digits_bound: "parse_digits acc s = Inr n \<Longrightarrow> acc < 2 ^ 64 \<Longrightarrow> n < 2 ^ 64"
  by (induction s arbitrary: acc) (auto split: option.splits if_splits)

lemma u64_from_str_bound: "u64_from_str s = Inr n \<Longrightarrow> n < 2 ^ 64"
  using parse_digits_bound [of 0]
  by (auto simp del: parse_digits.simps simp: u64_from_str_def split: list.splits if_splits)

end
