(* ===== verification/Tasks.thy ===== *)
theory Tasks
  imports Rust_Strings
begin

text \<open>
  \<^verbatim>\<open>phase1-coordinator/src/objects/task.rs\<close>: a task is a chunk and the position of a
  contribution in that chunk. \<open>initialize_tasks\<close> gives each contributor of a round the
  order in which it visits the chunks, and the contribution it makes at each visit. The
  interface \<open>task_scheduler\<close> collects what a round needs of such an assignment: everybody
  visits every chunk once, nobody makes a contribution twice, and the contributions of a
  chunk are numbered without a gap.
\<close>

record Task =
  chunk_id :: u64
  contribution_id :: u64

definition new_task :: "u64 \<Rightarrow> u64 \<Rightarrow> Task" where
  "new_task c i = \<lparr>chunk_id = c, contribution_id = i\<rparr>"

definition task_contains :: "Task \<Rightarrow> u64 \<Rightarrow> bool" where
  "task_contains t c = (chunk_id t = c)"

definition to_tuple :: "Task \<Rightarrow> u64 \<times> u64" where
  "to_tuple t = (chunk_id t, contribution_id t)"

definition serialize_task :: "Task \<Rightarrow> string" where
  "serialize_task t = show_u64 (chunk_id t) @ ''/'' @ show_u64 (contribution_id t)"

datatype TaskDeserializeError =
    InvalidChunkId
  | InvalidContributionId
  | InvalidInteger ParseIntError

definition deserialize_task :: "string \<Rightarrow> TaskDeserializeError + Task" where
  "deserialize_task s =
     (case split_on (CHR ''/'') s of
        [] \<Rightarrow> Inl InvalidChunkId
      | [_] \<Rightarrow> Inl InvalidContributionId
      | c # i # _ \<Rightarrow>
          (case u64_from_str c of
             Inl e \<Rightarrow> Inl (InvalidInteger e)
           | Inr chunk \<Rightarrow>
               (case u64_from_str i of
                  Inl e \<Rightarrow> Inl (InvalidInteger e)
                | Inr contribution \<Rightarrow> Inr (new_task chunk contribution))))"

datatype TaskInitializationError =
    StartingBucketIdOutOfRange u64 u64
  | NotEnoughChunks u64 u64

text \<open>
  The \<^verbatim>\<open>for current_index in start + 1..end\<close> loop, with the two step counters as
  its state. \<open>k\<close> contributors, \<open>n\<close> chunks, \<open>s\<close> chunks in a bucket; at most \<open>ni\<close>
  initial and \<open>nf\<close> final steps.
\<close>

fun initialize_tasks_loop ::
  "u64 \<Rightarrow> u64 \<Rightarrow> u64 \<Rightarrow> u64 \<Rightarrow> u64 \<Rightarrow> u64 list \<Rightarrow> u64 \<Rightarrow> u64 \<Rightarrow> Task list" where
  "initialize_tasks_loop k n s ni nf [] initial_steps final_steps = []"
| "initialize_tasks_loop k n s ni nf (current_index # rest) initial_steps final_steps =
     (let chunk = current_index mod n;
          is_new_bucket = (chunk mod s = 0);
          initial_steps' =
            (if is_new_bucket \<and> initial_steps < ni then initial_steps + 1 else initial_steps);
          final_steps' =
            (if is_new_bucket \<and> n \<le> current_index
             then (if final_steps < nf then final_steps + 1 else final_steps)
             else final_steps);
          steps = (initial_steps' + final_steps') mod k
      in new_task chunk (steps + 1) #
         initialize_tasks_loop k n s ni nf rest initial_steps' final_steps')"

definition initialize_tasks :: "u64 \<Rightarrow> u64 \<Rightarrow> u64 \<Rightarrow> TaskInitializationError + Task list" where
  "initialize_tasks starting_bucket_id number_of_chunks number_of_contributors =
     (if number_of_contributors = 0 then Inr []
      else if number_of_contributors \<le> starting_bucket_id
      then Inl (StartingBucketIdOutOfRange starting_bucket_id number_of_contributors)
      else if number_of_chunks < number_of_contributors
      then Inl (NotEnoughChunks number_of_chunks number_of_contributors)
      else
        (let bucket_size = number_of_chunks div number_of_contributors;
             number_of_initial_steps = (number_of_contributors - 1) - starting_bucket_id;
             number_of_final_steps = starting_bucket_id;
             start = starting_bucket_id * bucket_size;
             end_index = start + number_of_chunks
         in Inr (new_task (start mod number_of_chunks) 1 #
                 initialize_tasks_loop number_of_contributors number_of_chunks bucket_size
                   number_of_initial_steps number_of_final_steps [start + 1..<end_index] 0 0)))"

text \<open>
  The reference: chunk \<open>c\<close> lies in bucket \<open>bucket_of n k c\<close> (the chunks left over by the
  division belong to the last bucket), and the contributor that starts in bucket \<open>b\<close> makes
  the contribution whose number is the cyclic distance from \<open>b\<close> to that bucket, plus one.
\<close>

definition bucket_of :: "nat \<Rightarrow> nat \<Rightarrow> nat \<Rightarrow> nat" where
  "bucket_of n k c = min (k - 1) (c div (n div k))"

definition task_slot :: "nat \<Rightarrow> nat \<Rightarrow> nat \<Rightarrow> nat \<Rightarrow> nat" where
  "task_slot b n k c = (bucket_of n k c + k - b) mod k + 1"

definition reference_tasks :: "nat \<Rightarrow> nat \<Rightarrow> nat \<Rightarrow> Task list" where
  "reference_tasks b n k =
     map (\<lambda>x. new_task (x mod n) (task_slot b n k (x mod n)))
       [b * (n div k)..<b * (n div k) + n]"

text \<open>The tasks of a contributor, when they can be assigned.\<close>

definition tasks_for :: "nat \<Rightarrow> nat \<Rightarrow> nat \<Rightarrow> Task list" where
  "tasks_for b n k = (case initialize_tasks b n k of Inl _ \<Rightarrow> [] | Inr ts \<Rightarrow> ts)"

section \<open>Tasks and their printed form\<close>

lemma new_task_simps [simp]:
  "chunk_id (new_task c i) = c"
  "contribution_id (new_task c i) = i"
  "task_contains (new_task c i) d \<longleftrightarrow> c = d"
  "to_tuple (new_task c i) = (c, i)"
  by (simp_all add: new_task_def task_contains_def to_tuple_def)

lemma new_task_eq_iff [simp]: "new_task c i = new_task d j \<longleftrightarrow> c = d \<and> i = j"
  by (simp add: new_task_def)

lemma new_task_surj [simp]: "new_task (chunk_id t) (contribution_id t) = t"
  by (cases t) (simp add: new_task_def)

lemma Task_eqI: "chunk_id t = chunk_id u \<Longrightarrow> contribution_id t = contribution_id u \<Longrightarrow> t = (u :: Task)"
  by simp

lemma split_serialized_task:
  "split_on (CHR ''/'') (serialize_task t) =
     [show_u64 (chunk_id t), show_u64 (contribution_id t)]"
proof -
  have sep: "CHR ''/'' \<notin> set (show_u64 m)" for m by (rule show_u64_no_sep) simp
  show ?thesis
    using split_on_append [OF sep] split_on_id [OF sep] by (simp add: serialize_task_def)
qed

section \<open>The loop computes the reference assignment\<close>

text \<open>The values of the two counters once index \<open>x\<close> has been processed.\<close>

definition initial_at :: "nat \<Rightarrow> nat \<Rightarrow> nat \<Rightarrow> nat \<Rightarrow> nat" where
  "initial_at b n k x = (if x < n then min (k - 1 - b) (x div (n div k) - b) else k - 1 - b)"

definition final_at :: "nat \<Rightarrow> nat \<Rightarrow> nat \<Rightarrow> nat \<Rightarrow> nat" where
  "final_at b n k x = (if x < n then 0 else min b ((x - n) div (n div k) + 1))"

lemma div_Suc_cases:
  fixes s :: nat
  assumes "0 < s"
  shows "Suc x div s = (if Suc x mod s = 0 then Suc (x div s) else x div s)"
  using assms by (simp add: div_Suc mod_Suc)

lemma cyclic_mod:
  fixes q b k :: nat
  assumes "b \<le> q"
  shows "(q + k - b) mod k = (q - b) mod k"
proof -
  from assms have "q + k - b = (q - b) + k" by (rule Nat.diff_add_assoc2)
  then show ?thesis by (simp only: mod_add_self2)
qed

lemma buckets_fit:
  fixes n k :: nat
  assumes "b < k" "k \<le> n"
  shows "0 < n div k" "b * (n div k) < n" "k - 1 \<le> (n - 1) div (n div k)"
proof -
  from assms show s: "0 < n div k" by (simp add: div_greater_zero_iff)
  have kn: "k * (n div k) \<le> n" by simp
  have "b * (n div k) < k * (n div k)" using assms s by simp
  with kn show "b * (n div k) < n" by linarith
  have "(k - 1) * (n div k) \<le> k * (n div k) - 1" using s assms(1)
    by (cases k) (auto simp: algebra_simps)
  with kn have "(k - 1) * (n div k) \<le> n - 1" by linarith
  then have "(k - 1) * (n div k) div (n div k) \<le> (n - 1) div (n div k)" by (rule div_le_mono)
  with s show "k - 1 \<le> (n - 1) div (n div k)" by simp
qed

lemma initial_at_Suc:
  assumes "b < k" "k \<le> n" "b * (n div k) \<le> x" "Suc x < b * (n div k) + n"
  shows "initial_at b n k (Suc x) =
    (if Suc x mod n mod (n div k) = 0 \<and> initial_at b n k x < k - 1 - b
     then initial_at b n k x + 1 else initial_at b n k x)"
proof (cases "Suc x < n")
  case True
  have "b \<le> x div (n div k)"
    using assms(3) buckets_fit(1) [OF assms(1,2)] by (simp add: less_eq_div_iff_mult_less_eq)
  with True buckets_fit(1) [OF assms(1,2)] show ?thesis
    by (auto simp: initial_at_def div_Suc_cases)
next
  case False
  with buckets_fit(3) [OF assms(1,2)] have "initial_at b n k x = k - 1 - b"
    by (cases "x < n") (auto simp: initial_at_def le_less_Suc_eq dest: not_less_less_Suc_eq)
  with False show ?thesis by (simp add: initial_at_def)
qed

lemma final_at_Suc:
  assumes "b < k" "k \<le> n" "Suc x < b * (n div k) + n"
  shows "final_at b n k (Suc x) =
    (if Suc x mod n mod (n div k) = 0 \<and> n \<le> Suc x
     then (if final_at b n k x < b then final_at b n k x + 1 else final_at b n k x)
     else final_at b n k x)"
proof (cases "Suc x < n")
  case True
  then show ?thesis by (simp add: final_at_def)
next
  case False
  define c where "c = Suc x - n"
  from False have x: "Suc x = n + c" by (simp add: c_def)
  with assms(3) buckets_fit(2) [OF assms(1,2)] have "c < n" by linarith
  then have cm: "Suc x mod n = c" by (simp add: x)
  show ?thesis
  proof (cases c)
    case 0
    with x cm show ?thesis by (auto simp: final_at_def)
  next
    case (Suc c')
    with x have xc: "x = n + c'" by simp
    show ?thesis
      using cm xc Suc div_Suc_cases [OF buckets_fit(1) [OF assms(1,2)], of c']
      by (auto simp: final_at_def)
  qed
qed

lemma steps_eq_slot:
  assumes "b < k" "k \<le> n" "b * (n div k) \<le> x" "x < b * (n div k) + n"
  shows "(initial_at b n k x + final_at b n k x) mod k + 1 = task_slot b n k (x mod n)"
proof (cases "x < n")
  case True
  have "b \<le> x div (n div k)"
    using assms(3) buckets_fit(1) [OF assms(1,2)] by (simp add: less_eq_div_iff_mult_less_eq)
  then have "b \<le> bucket_of n k x" and "initial_at b n k x = bucket_of n k x - b"
    using assms(1) True by (auto simp: bucket_of_def initial_at_def)
  with True show ?thesis by (simp add: task_slot_def final_at_def cyclic_mod)
next
  case False
  define c where "c = x - n"
  with False assms(4) have x: "x = n + c" and c: "c < b * (n div k)" by auto
  then have "c div (n div k) < b" by (simp add: less_mult_imp_div_less)
  moreover from c buckets_fit(2) [OF assms(1,2)] have "c mod n = c" by simp
  ultimately show ?thesis
    using x assms(1) by (simp add: initial_at_def final_at_def task_slot_def bucket_of_def)
qed

lemma initialize_tasks_loop_eq:
  assumes "b < k" "k \<le> n" "b * (n div k) \<le> x" "x + d < b * (n div k) + n"
  shows "initialize_tasks_loop k n (n div k) (k - 1 - b) b [Suc x..<Suc (x + d)]
      (initial_at b n k x) (final_at b n k x) =
    map (\<lambda>y. new_task (y mod n) (task_slot b n k (y mod n))) [Suc x..<Suc (x + d)]"
  using assms(3,4)
proof (induction d arbitrary: x)
  case 0
  then show ?case by simp
next
  case (Suc d)
  from Suc.prems have lt: "Suc x < b * (n div k) + n" by simp
  note I = initial_at_Suc [OF assms(1,2) Suc.prems(1) lt]
  note F = final_at_Suc [OF assms(1,2) lt]
  from Suc.prems lt have "(initial_at b n k (Suc x) + final_at b n k (Suc x)) mod k + 1 =
      task_slot b n k (Suc x mod n)"
    by (intro steps_eq_slot [OF assms(1,2)]) auto
  moreover have "initialize_tasks_loop k n (n div k) (k - 1 - b) b
      [Suc (Suc x)..<Suc (Suc x + d)] (initial_at b n k (Suc x)) (final_at b n k (Suc x)) =
    map (\<lambda>y. new_task (y mod n) (task_slot b n k (y mod n))) [Suc (Suc x)..<Suc (Suc x + d)]"
    using Suc.prems by (intro Suc.IH) auto
  moreover have "[Suc x..<Suc (x + Suc d)] = Suc x # [Suc (Suc x)..<Suc (Suc x + d)]"
    by (simp add: upt_rec)
  ultimately show ?case
    by (simp only: initialize_tasks_loop.simps Let_def list.map I [symmetric] F [symmetric])
qed

lemma initialize_tasks_eq_reference:
  assumes "0 < k" "b < k" "k \<le> n"
  shows "initialize_tasks b n k = Inr (reference_tasks b n k)"
proof -
  let ?start = "b * (n div k)"
  note fit = buckets_fit [OF assms(2,3)]
  have at_start: "initial_at b n k ?start = 0" "final_at b n k ?start = 0"
    using fit by (simp_all add: initial_at_def final_at_def)
  have "task_slot b n k (?start mod n) = 1"
    using steps_eq_slot [OF assms(2,3), of ?start] fit assms(1) at_start by simp
  moreover have "[?start..<?start + n] = ?start # [Suc ?start..<Suc (?start + (n - 1))]"
    using assms by (simp add: upt_rec)
  moreover have "Suc (?start + (n - 1)) = ?start + n" using assms by simp
  ultimately show ?thesis
    using initialize_tasks_loop_eq [OF assms(2,3), of ?start "n - 1"] assms at_start
    by (simp add: initialize_tasks_def reference_tasks_def Let_def)
qed

lemma tasks_for_eq_reference:
  "0 < k \<Longrightarrow> b < k \<Longrightarrow> k \<le> n \<Longrightarrow> tasks_for b n k = reference_tasks b n k"
  by (simp add: tasks_for_def initialize_tasks_eq_reference)

section \<open>The interface of an assignment of tasks\<close>

text \<open>
  The laws are for a round with \<open>k\<close> contributors and \<open>n\<close> chunks, \<open>0 < k \<le> n\<close>;
  \<open>ts b n k\<close> are the tasks of the contributor that starts in bucket \<open>b\<close>.
\<close>

locale task_scheduler =
  fixes ts :: "nat \<Rightarrow> nat \<Rightarrow> nat \<Rightarrow> Task list"
  assumes chunks_once:
      "0 < k \<Longrightarrow> b < k \<Longrightarrow> k \<le> n \<Longrightarrow> mset (map chunk_id (ts b n k)) = mset [0..<n]"
    and slot_range:
      "0 < k \<Longrightarrow> b < k \<Longrightarrow> k \<le> n \<Longrightarrow> t \<in> set (ts b n k) \<Longrightarrow>
         1 \<le> contribution_id t \<and> contribution_id t \<le> k"
    and disjoint_tasks:
      "0 < k \<Longrightarrow> b < k \<Longrightarrow> b' < k \<Longrightarrow> k \<le> n \<Longrightarrow> b \<noteq> b' \<Longrightarrow>
         set (ts b n k) \<inter> set (ts b' n k) = {}"
begin

lemma distinct_chunks:
  assumes "0 < k" "b < k" "k \<le> n"
  shows "distinct (map chunk_id (ts b n k))"
  using chunks_once [OF assms] by (metis distinct_upt mset_eq_imp_distinct_iff)

lemma distinct_tasks: "0 < k \<Longrightarrow> b < k \<Longrightarrow> k \<le> n \<Longrightarrow> distinct (ts b n k)"
  using distinct_chunks by (metis distinct_map)

lemma visits_all_chunks: "0 < k \<Longrightarrow> b < k \<Longrightarrow> k \<le> n \<Longrightarrow> chunk_id ` set (ts b n k) = {0..<n}"
  using chunks_once [of k b n] by (metis list.set_map mset_eq_setD set_upt)

lemma length_tasks: "0 < k \<Longrightarrow> b < k \<Longrightarrow> k \<le> n \<Longrightarrow> length (ts b n k) = n"
  using chunks_once [of k b n] by (metis diff_zero length_map length_upt mset_eq_length)

lemma tasks_in_grid:
  "0 < k \<Longrightarrow> b < k \<Longrightarrow> k \<le> n \<Longrightarrow> to_tuple ` set (ts b n k) \<subseteq> {0..<n} \<times> {1..k}"
  using visits_all_chunks [of k b n] slot_range [of k b n] by (auto simp: to_tuple_def)

text \<open>Together the contributors make every contribution of every chunk.\<close>

lemma all_contributions:
  assumes "0 < k" "k \<le> n"
  shows "to_tuple ` (\<Union>b<k. set (ts b n k)) = {0..<n} \<times> {1..k}" (is "to_tuple ` ?U = ?grid")
proof (rule card_subset_eq)
  show "finite ?grid" by simp
  show "to_tuple ` ?U \<subseteq> ?grid" using tasks_in_grid assms by blast
  have inj: "inj_on to_tuple ?U" by (auto simp: inj_on_def to_tuple_def)
  have "card ?U = (\<Sum>b<k. card (set (ts b n k)))"
    using disjoint_tasks [OF assms(1) _ _ assms(2)] by (subst card_UN_disjoint) auto
  also have "\<dots> = (\<Sum>b<k. n)"
    using assms by (intro sum.cong) (auto simp: distinct_card distinct_tasks length_tasks)
  finally show "card (to_tuple ` ?U) = card ?grid"
    by (simp add: card_image [OF inj] card_cartesian_product)
qed

text \<open>Each contribution of a chunk belongs to exactly one contributor.\<close>

lemma unique_owner:
  assumes "0 < k" "k \<le> n" "c < n" "1 \<le> i" "i \<le> k"
  shows "\<exists>!b. b < k \<and> new_task c i \<in> set (ts b n k)"
proof -
  have "(c, i) \<in> to_tuple ` (\<Union>b<k. set (ts b n k))"
    unfolding all_contributions [OF assms(1,2)] using assms by simp
  then obtain b t where "b < k" and t: "t \<in> set (ts b n k)" "to_tuple t = (c, i)" by auto
  moreover from t(2) have "t = new_task c i" by (auto simp: to_tuple_def)
  ultimately have b: "b < k" "new_task c i \<in> set (ts b n k)" by simp_all
  moreover have "b' = b" if "b' < k" "new_task c i \<in> set (ts b' n k)" for b'
    using disjoint_tasks [OF assms(1) that(1) b(1) assms(2)] that(2) b(2) by blast
  ultimately show ?thesis by blast
qed

end

section \<open>The reference assignment satisfies the interface\<close>

lemma task_slot_bounds: "0 < k \<Longrightarrow> 1 \<le> task_slot b n k c \<and> task_slot b n k c \<le> k"
  by (simp add: task_slot_def Suc_le_eq)

lemma bucket_of_less: "0 < k \<Longrightarrow> bucket_of n k c < k"
  by (auto simp: bucket_of_def)

lemma cyclic_distance_cases:
  fixes q b k :: nat
  assumes "q < k" "b < k"
  shows "(q + k - b) mod k = (if b \<le> q then q - b else q + k - b)"
  using assms by (cases "b \<le> q") (simp_all add: cyclic_mod)

lemma task_slot_cases:
  "0 < k \<Longrightarrow> b < k \<Longrightarrow> task_slot b n k c =
    (if b \<le> bucket_of n k c then bucket_of n k c - b + 1 else bucket_of n k c + k - b + 1)"
  by (simp add: task_slot_def cyclic_distance_cases bucket_of_less)

lemma task_slot_inj:
  assumes "0 < k" "b < k" "b' < k" "task_slot b n k c = task_slot b' n k c"
  shows "b = b'"
  using assms bucket_of_less [OF assms(1), of n c]
  by (auto simp: task_slot_cases split: if_splits)

text \<open>Reading \<open>n\<close> consecutive indices modulo \<open>n\<close> is a rotation of the chunks.\<close>

lemma map_mod_upt:
  fixes a n :: nat
  assumes "a \<le> n"
  shows "map (\<lambda>x. x mod n) [a..<a + n] = [a..<n] @ [0..<a]"
proof -
  have "[a..<a + n] = [a..<n] @ [n..<n + a]"
    using upt_add_eq_append [OF assms, of a] by (simp add: add.commute)
  moreover have "map (\<lambda>x. x mod n) [a..<n] = [a..<n]" by (rule map_idI) simp
  moreover have "map (\<lambda>x. x mod n) [n..<n + a] = [0..<a]"
    using assms by (cases "a = n") (auto simp: list_eq_iff_nth_eq)
  ultimately show ?thesis by simp
qed

lemma chunk_ids_reference:
  assumes "0 < k" "b < k" "k \<le> n"
  shows "map chunk_id (reference_tasks b n k) = [b * (n div k)..<n] @ [0..<b * (n div k)]"
  using map_mod_upt [of "b * (n div k)" n] buckets_fit(2) [OF assms(2,3)]
  by (simp add: reference_tasks_def comp_def)

lemma in_reference_tasks:
  assumes "0 < k" "b < k" "k \<le> n"
  shows "t \<in> set (reference_tasks b n k) \<longleftrightarrow>
    chunk_id t < n \<and> contribution_id t = task_slot b n k (chunk_id t)"
proof
  assume "t \<in> set (reference_tasks b n k)"
  with assms show "chunk_id t < n \<and> contribution_id t = task_slot b n k (chunk_id t)"
    by (auto simp: reference_tasks_def)
next
  assume t: "chunk_id t < n \<and> contribution_id t = task_slot b n k (chunk_id t)"
  have "set (map chunk_id (reference_tasks b n k)) = {0..<n}"
    using buckets_fit(2) [OF assms(2,3)] by (auto simp: chunk_ids_reference [OF assms])
  with t have "chunk_id t \<in> chunk_id ` set (reference_tasks b n k)" by simp
  then obtain u where u: "u \<in> set (reference_tasks b n k)" "chunk_id u = chunk_id t" by force
  then have "contribution_id u = task_slot b n k (chunk_id u)" by (auto simp: reference_tasks_def)
  with t u have "u = t" by simp
  with u show "t \<in> set (reference_tasks b n k)" by simp
qed

interpretation sched: task_scheduler tasks_for
proof
  fix k b n :: nat
  assume a: "0 < k" "b < k" "k \<le> n"
  have "[0..<n] = [0..<b * (n div k)] @ [b * (n div k)..<n]"
    using upt_add_eq_append [of 0 "b * (n div k)" "n - b * (n div k)"] buckets_fit(2) [OF a(2,3)]
    by simp
  then show "mset (map chunk_id (tasks_for b n k)) = mset [0..<n]"
    unfolding tasks_for_eq_reference [OF a] chunk_ids_reference [OF a] by simp
  fix t
  assume "t \<in> set (tasks_for b n k)"
  then show "1 \<le> contribution_id t \<and> contribution_id t \<le> k"
    using task_slot_bounds [OF a(1)]
    by (simp add: tasks_for_eq_reference [OF a] in_reference_tasks [OF a])
next
  fix k b b' n :: nat
  assume a: "0 < k" "b < k" "b' < k" "k \<le> n" "b \<noteq> b'"
  then show "set (tasks_for b n k) \<inter> set (tasks_for b' n k) = {}"
    using task_slot_inj [OF a(1-3)]
    by (fastforce simp: tasks_for_eq_reference in_reference_tasks)
qed

section \<open>The order of the assignment\<close>

text \<open>
  A contribution other than the first is based on the one before it. That one belongs to the
  next contributor in the cycle, at an earlier position of its list.
\<close>

lemma task_slot_pred:
  assumes "0 < k" "b < k" "1 < task_slot b n k c"
  shows "task_slot (Suc b mod k) n k c = task_slot b n k c - 1"
proof (cases "Suc b = k")
  case True
  with assms bucket_of_less [OF assms(1), of n c] show ?thesis
    by (auto simp: task_slot_cases split: if_splits)
next
  case False
  with assms bucket_of_less [OF assms(1), of n c] show ?thesis
    by (auto simp: task_slot_cases split: if_splits)
qed

lemma nth_reference:
  "j < n \<Longrightarrow> reference_tasks b n k ! j =
    new_task ((b * (n div k) + j) mod n) (task_slot b n k ((b * (n div k) + j) mod n))"
  by (simp add: reference_tasks_def)

lemma slot_in_own_bucket:
  assumes "0 < k" "b < k" "k \<le> n" "b \<le> c div (n div k)" "c < n" "Suc b = k \<or> c div (n div k) = b"
  shows "task_slot b n k c = 1"
proof -
  from assms have "bucket_of n k c = b" by (auto simp: bucket_of_def)
  with assms show ?thesis by (simp add: task_slot_cases)
qed

lemma late_position_next:
  assumes "0 < k" "b < k" "k \<le> n" "j < n" "Suc b < k"
    and later: "1 < task_slot b n k ((b * (n div k) + j) mod n)"
  shows "n div k \<le> j"
proof (rule ccontr)
  assume "\<not> n div k \<le> j"
  then have j: "j < n div k" by simp
  let ?x = "b * (n div k) + j"
  have "?x < Suc b * (n div k)" using j by simp
  also have "\<dots> < n" by (rule buckets_fit(2) [OF assms(5,3)])
  finally have lt: "?x < n" .
  have "?x div (n div k) = b" using j by simp
  then have "task_slot b n k ?x = 1"
    using assms lt by (intro slot_in_own_bucket) auto
  with later lt show False by simp
qed

lemma wrapped_position:
  assumes "0 < k" "b < k" "k \<le> n" "j < n" "Suc b = k"
    and later: "1 < task_slot b n k ((b * (n div k) + j) mod n)"
  shows "(b * (n div k) + j) mod n < j"
proof -
  let ?x = "b * (n div k) + j"
  note fit = buckets_fit [OF assms(2,3)]
  have "n \<le> ?x"
  proof (rule ccontr)
    assume "\<not> n \<le> ?x"
    then have lt: "?x < n" by simp
    have "b \<le> ?x div (n div k)" using fit(1) by (simp add: less_eq_div_iff_mult_less_eq)
    then have "task_slot b n k ?x = 1" using assms lt by (intro slot_in_own_bucket) auto
    with later lt show False by simp
  qed
  moreover have "?x < n + n" using fit(2) assms(4) by simp
  ultimately have "?x mod n = ?x - n" by (simp add: le_mod_geq)
  with fit(2) \<open>n \<le> ?x\<close> show ?thesis by simp
qed

lemma predecessor_earlier:
  assumes "0 < k" "b < k" "k \<le> n" "j < n" "1 < contribution_id (tasks_for b n k ! j)"
  shows "\<exists>b' j'. b' < k \<and> j' < j \<and> tasks_for b' n k ! j' =
    new_task (chunk_id (tasks_for b n k ! j)) (contribution_id (tasks_for b n k ! j) - 1)"
proof -
  let ?x = "b * (n div k) + j"
  let ?b = "Suc b mod k"
  note ref = tasks_for_eq_reference [OF assms(1)]
  from assms have later: "1 < task_slot b n k (?x mod n)" by (simp add: ref nth_reference)
  have pred: "task_slot ?b n k (?x mod n) = task_slot b n k (?x mod n) - 1"
    by (rule task_slot_pred [OF assms(1,2) later])
  obtain j' where j': "j' < j" "(?b * (n div k) + j') mod n = ?x mod n"
  proof (cases "Suc b < k")
    case True
    from late_position_next [OF assms(1-4) True later] have "n div k \<le> j" .
    with True that [of "j - n div k"] buckets_fit(1) [OF assms(2,3)] show ?thesis by simp
  next
    case False
    with assms(2) have "Suc b = k" by simp
    with wrapped_position [OF assms(1-4) _ later] that [of "?x mod n"] show ?thesis by simp
  qed
  moreover have "?b < k" using assms(1) by simp
  moreover have "tasks_for ?b n k ! j' = new_task (?x mod n) (task_slot b n k (?x mod n) - 1)"
    using j' assms pred by (simp add: ref nth_reference)
  moreover have "tasks_for b n k ! j = new_task (?x mod n) (task_slot b n k (?x mod n))"
    using assms by (simp add: ref nth_reference)
  ultimately show ?thesis by (intro exI [of _ ?b] exI [of _ j']) simp
qed

text \<open>A contributor with the least progress is never blocked.\<close>

lemma least_progress_enabled:
  assumes "0 < k" "k \<le> n" "b < k" "p b < n" "\<And>b'. b' < k \<Longrightarrow> p b \<le> p b'"
  shows "contribution_id (tasks_for b n k ! p b) = 1 \<or>
    (\<exists>b'<k. new_task (chunk_id (tasks_for b n k ! p b)) (contribution_id (tasks_for b n k ! p b) - 1)
       \<in> set (take (p b') (tasks_for b' n k)))"
proof (cases "contribution_id (tasks_for b n k ! p b) = 1")
  case False
  note len = sched.length_tasks [OF assms(1) _ assms(2)]
  have "tasks_for b n k ! p b \<in> set (tasks_for b n k)" using assms len by simp
  with False sched.slot_range [OF assms(1,3,2)] have "1 < contribution_id (tasks_for b n k ! p b)"
    by (metis le_neq_implies_less)
  from predecessor_earlier [OF assms(1,3,2,4) this] obtain b' j' where b': "b' < k" "j' < p b"
    and eq: "tasks_for b' n k ! j' =
      new_task (chunk_id (tasks_for b n k ! p b)) (contribution_id (tasks_for b n k ! p b) - 1)"
    by blast
  have "j' < p b'" "j' < length (tasks_for b' n k)"
    using b' assms(4) assms(5) [OF b'(1)] len [OF b'(1)] by simp_all
  then have "tasks_for b' n k ! j' \<in> set (take (p b') (tasks_for b' n k))"
    by (metis in_set_conv_nth length_take min_less_iff_conj nth_take)
  with b' eq show ?thesis by auto
qed simp

section \<open>Properties\<close>

text \<open>
  \<open>initialize_tasks\<close> on every input: no contributors give no tasks; a bucket or a number
  of chunks out of range is the error the code names; otherwise the counting loop computes the
  closed form in which the contributor that starts in bucket \<open>b\<close> visits the chunks from
  \<open>b * (n div k)\<close> on, cyclically, and makes at each the contribution given by the cyclic
  distance of the buckets.
\<close>

theorem initialize_tasks_functional:
  "initialize_tasks b n k =
     (if k = 0 then Inr []
      else if k \<le> b then Inl (StartingBucketIdOutOfRange b k)
      else if n < k then Inl (NotEnoughChunks n k)
      else Inr (reference_tasks b n k))"
proof (cases "k = 0 \<or> k \<le> b \<or> n < k")
  case True
  then show ?thesis by (auto simp: initialize_tasks_def)
next
  case False
  then show ?thesis by (simp add: initialize_tasks_eq_reference)
qed

text \<open>
  C24. In a round with \<open>k\<close> contributors, the assignments of \<open>initialize_tasks\<close> partition the
  work: every contribution \<open>1..k\<close> of every chunk is assigned to exactly one contributor.
\<close>

theorem tasks_partition_contributions:
  assumes "0 < k" "k \<le> n" "c < n" "1 \<le> i" "i \<le> k"
  shows "\<exists>!b. b < k \<and> (\<exists>ts. initialize_tasks b n k = Inr ts \<and> new_task c i \<in> set ts)"
proof -
  have "(\<exists>ts. initialize_tasks b n k = Inr ts \<and> t \<in> set ts) \<longleftrightarrow> t \<in> set (tasks_for b n k)" for b t
    by (cases "initialize_tasks b n k") (auto simp: tasks_for_def)
  with sched.unique_owner [OF assms] show ?thesis by simp
qed

theorem tasks_partition_contributions_witness:
  "\<exists>!b. b < 2 \<and> (\<exists>ts. initialize_tasks b 3 2 = Inr ts \<and> new_task 2 1 \<in> set ts)"
  by (rule tasks_partition_contributions) simp_all

text \<open>
  C28. The assignment cannot deadlock: whatever number \<open>p b\<close> of its tasks each contributor has
  finished, as long as some contributor has tasks left, one of them has a next task whose
  preceding contribution is finished (or that is the first of its chunk).
\<close>

theorem schedule_deadlock_free:
  assumes "0 < k" "k \<le> n" "\<exists>b<k. p b < n"
  shows "\<exists>b<k. p b < n \<and>
    (contribution_id (tasks_for b n k ! p b) = 1 \<or>
     (\<exists>b'<k. new_task (chunk_id (tasks_for b n k ! p b)) (contribution_id (tasks_for b n k ! p b) - 1)
        \<in> set (take (p b') (tasks_for b' n k))))"
proof -
  have "finite {..<k}" "{..<k} \<noteq> {}" using assms(1) by auto
  then obtain b where b: "b \<in> {..<k}" "p b = Min (p ` {..<k})"
    by (metis (no_types, lifting) Min_in finite_imageI image_iff image_is_empty)
  then have least: "\<And>b'. b' < k \<Longrightarrow> p b \<le> p b'" by simp
  with assms(3) have "p b < n" by (meson le_less_trans)
  with b least_progress_enabled [of k n b p, OF assms(1,2)] show ?thesis by auto
qed

theorem schedule_deadlock_free_witness:
  "\<exists>b<2. (if b = 0 then 1 else 0) < (2::nat) \<and>
    (contribution_id (tasks_for b 2 2 ! (if b = 0 then 1 else 0)) = 1 \<or>
     (\<exists>b'<2. new_task (chunk_id (tasks_for b 2 2 ! (if b = 0 then 1 else 0)))
         (contribution_id (tasks_for b 2 2 ! (if b = 0 then 1 else 0)) - 1)
        \<in> set (take (if b' = 0 then 1 else 0) (tasks_for b' 2 2))))"
  by (rule schedule_deadlock_free [of 2 2 "\<lambda>b. if b = 0 then 1 else 0"]) auto

text \<open>
  A task whose fields are \<^verbatim>\<open>u64\<close> values is read back from its serialised form.
\<close>

theorem task_roundtrip:
  assumes "chunk_id t < 2 ^ 64" "contribution_id t < 2 ^ 64"
  shows "deserialize_task (serialize_task t) = Inr t"
  using assms by (simp add: deserialize_task_def split_serialized_task u64_from_str_show)

theorem task_roundtrip_witness:
  "deserialize_task (serialize_task (new_task 17 2)) = Inr (new_task 17 2)"
  by (rule task_roundtrip) simp_all

end
