(* ===== verification/Tasks_U64.thy ===== *)
theory Tasks_U64
  imports Tasks "HOL-Library.Word"
begin

text \<open>
  The arithmetic of \<open>initialize_tasks\<close> (\<^verbatim>\<open>objects/task.rs\<close>) on 64-bit words, where
  addition and multiplication wrap around, and its agreement with the version over the
  natural numbers for every number of chunks below \<open>2 ^ 63\<close>.
\<close>

type_synonym w64 = "64 word"

text \<open>\<^verbatim>\<open>Range<u64>\<close>: empty when the upper bound wrapped below the lower one.\<close>

definition range_u64 :: "w64 \<Rightarrow> w64 \<Rightarrow> w64 list" where
  "range_u64 a b = map word_of_nat [unat a..<unat b]"

fun initialize_tasks_loop_u64 ::
  "w64 \<Rightarrow> w64 \<Rightarrow> w64 \<Rightarrow> w64 \<Rightarrow> w64 \<Rightarrow> w64 list \<Rightarrow> w64 \<Rightarrow> w64 \<Rightarrow> (w64 \<times> w64) list" where
  "initialize_tasks_loop_u64 k n s ni nf [] initial_steps final_steps = []"
| "initialize_tasks_loop_u64 k n s ni nf (current_index # rest) initial_steps final_steps =
     (let chunk = current_index mod n;
          is_new_bucket = (chunk mod s = 0);
          initial_steps' =
            (if is_new_bucket \<and> initial_steps < ni then initial_steps + 1 else initial_steps);
          final_steps' =
            (if is_new_bucket \<and> n \<le> current_index
             then (if final_steps < nf then final_steps + 1 else final_steps)
             else final_steps);
          steps = (initial_steps' + final_steps') mod k
      in (chunk, steps + 1) #
         initialize_tasks_loop_u64 k n s ni nf rest initial_steps' final_steps')"

text \<open>\<open>None\<close> is the panic of the closing \<^verbatim>\<open>assert!\<close> on the number of tasks.\<close>

definition initialize_tasks_u64 ::
  "w64 \<Rightarrow> w64 \<Rightarrow> w64 \<Rightarrow> (TaskInitializationError + (w64 \<times> w64) list) option" where
  "initialize_tasks_u64 starting_bucket_id number_of_chunks number_of_contributors =
     (if number_of_contributors = 0 then Some (Inr [])
      else if number_of_contributors \<le> starting_bucket_id
      then Some (Inl (StartingBucketIdOutOfRange (unat starting_bucket_id)
             (unat number_of_contributors)))
      else if number_of_chunks < number_of_contributors
      then Some (Inl (NotEnoughChunks (unat number_of_chunks) (unat number_of_contributors)))
      else
        (let bucket_size = number_of_chunks div number_of_contributors;
             number_of_initial_steps = (number_of_contributors - 1) - starting_bucket_id;
             number_of_final_steps = starting_bucket_id;
             start = starting_bucket_id * bucket_size;
             end_index = start + number_of_chunks;
             tasks = (start mod number_of_chunks, 1) #
               initialize_tasks_loop_u64 number_of_contributors number_of_chunks bucket_size
                 number_of_initial_steps number_of_final_steps
                 (range_u64 (start + 1) end_index) 0 0
         in if length tasks = unat number_of_chunks then Some (Inr tasks) else None))"

definition task_of_words :: "w64 \<times> w64 \<Rightarrow> Task" where
  "task_of_words p = new_task (unat (fst p)) (unat (snd p))"

section \<open>No step of the computation wraps\<close>

lemma unat_bound_u64: "unat (x :: w64) < 2 ^ 64"
  using unsigned_less [of x] by simp

lemma unat_add_of_bound:
  assumes "unat x + unat y < 2 ^ 64"
  shows "unat (x + y :: w64) = unat x + unat y"
  using assms by (simp add: unat_word_ariths)

lemma unat_Suc_of_less:
  assumes "x < (y :: w64)"
  shows "unat (x + 1) = unat x + 1"
  using assms unat_bound_u64 [of y] unat_add_of_bound [of x 1] by (simp add: word_less_nat_alt)

lemma unat_word_of_index: "x < 2 ^ 64 \<Longrightarrow> unat (word_of_nat x :: w64) = x"
  by (simp add: unat_of_nat)

lemma loop_u64_refines:
  assumes "\<forall>x\<in>set xs. x < 2 ^ 64" "i \<le> ni" "f \<le> nf" "unat ni + unat nf < unat k"
  shows "map task_of_words (initialize_tasks_loop_u64 k n s ni nf (map word_of_nat xs) i f) =
    initialize_tasks_loop (unat k) (unat n) (unat s) (unat ni) (unat nf) xs (unat i) (unat f)"
  using assms
proof (induction xs arbitrary: i f)
  case Nil
  then show ?case by simp
next
  case (Cons x xs)
  define w where "w = (word_of_nat x :: w64)"
  define new where "new = (w mod n mod s = 0)"
  define i' where "i' = (if new \<and> i < ni then i + 1 else i)"
  define f' where "f' = (if new \<and> n \<le> w then (if f < nf then f + 1 else f) else f)"
  have w: "unat w = x" using Cons.prems(1) by (simp add: w_def unat_word_of_index)
  have i': "i' \<le> ni" "unat i' = (if new \<and> unat i < unat ni then unat i + 1 else unat i)"
    using Cons.prems(2) by (auto simp: i'_def word_less_nat_alt unat_Suc_of_less inc_le)
  have f': "f' \<le> nf" "unat f' = (if new \<and> unat n \<le> x
      then (if unat f < unat nf then unat f + 1 else unat f) else unat f)"
    using Cons.prems(3) w
    by (auto simp: f'_def word_less_nat_alt word_le_nat_alt unat_Suc_of_less inc_le)
  have new: "new \<longleftrightarrow> x mod unat n mod unat s = 0"
    by (simp add: new_def w [symmetric] flip: unat_mod_distrib unat_eq_zero)
  have le: "unat i' + unat f' \<le> unat ni + unat nf"
    using i'(1) f'(1) by (simp add: add_mono word_le_nat_alt)
  have k: "unat k < 2 ^ 64" by (rule unat_bound_u64)
  have sum: "unat (i' + f') = unat i' + unat f'"
    by (rule unat_add_of_bound) (use le Cons.prems(4) k in linarith)
  have "(i' + f') mod k < k"
    using Cons.prems(4) by (simp add: word_less_nat_alt unat_mod_distrib)
  then have "unat ((i' + f') mod k + 1) = (unat i' + unat f') mod unat k + 1"
    by (simp add: unat_Suc_of_less unat_mod_distrib sum)
  moreover have "map task_of_words
      (initialize_tasks_loop_u64 k n s ni nf (map word_of_nat xs) i' f') =
    initialize_tasks_loop (unat k) (unat n) (unat s) (unat ni) (unat nf) xs (unat i') (unat f')"
    using Cons.prems i' f' by (intro Cons.IH) auto
  ultimately show ?case
    unfolding list.map initialize_tasks_loop_u64.simps initialize_tasks_loop.simps Let_def
      w_def [symmetric] new_def [symmetric] i'_def [symmetric] f'_def [symmetric]
      i'(2) [symmetric, unfolded new] f'(2) [symmetric, unfolded new]
    by (simp add: task_of_words_def unat_mod_distrib w)
qed

lemma start_u64:
  assumes "unat b < unat k" "unat k \<le> unat n" "unat n < 2 ^ 63"
  shows "unat (b * (n div k) :: w64) = unat b * (unat n div unat k)"
    and "unat (b * (n div k) + n :: w64) = unat b * (unat n div unat k) + unat n"
    and "unat (b * (n div k) + 1 :: w64) = unat b * (unat n div unat k) + 1"
proof -
  have lt: "unat b * (unat n div unat k) < unat n" by (rule buckets_fit(2) [OF assms(1,2)])
  then show start: "unat (b * (n div k) :: w64) = unat b * (unat n div unat k)"
    using unat_bound_u64 [of n] by (simp add: unat_word_ariths(2) unat_div_distrib)
  show "unat (b * (n div k) + n :: w64) = unat b * (unat n div unat k) + unat n"
    using lt assms(3) start by (subst unat_add_of_bound) auto
  show "unat (b * (n div k) + 1 :: w64) = unat b * (unat n div unat k) + 1"
    using lt assms(3) start by (subst unat_add_of_bound) auto
qed

lemma initial_steps_u64:
  assumes "unat b < unat (k :: w64)"
  shows "unat (k - 1 - b) = unat k - 1 - unat b"
proof -
  from assms have k: "unat (k - 1) = unat k - 1" by (subst unat_sub) (auto simp: word_le_nat_alt)
  with assms show ?thesis by (subst unat_sub) (auto simp: word_le_nat_alt)
qed

lemma tasks_u64_refine:
  assumes "unat b < unat k" "unat k \<le> unat n" "unat n < 2 ^ 63"
  shows "map task_of_words ((b * (n div k) mod n, 1) #
      initialize_tasks_loop_u64 k n (n div k) (k - 1 - b) b
        (range_u64 (b * (n div k) + 1) (b * (n div k) + n)) 0 0) =
    new_task (unat b * (unat n div unat k) mod unat n) 1 #
      initialize_tasks_loop (unat k) (unat n) (unat n div unat k) (unat k - 1 - unat b) (unat b)
        [unat b * (unat n div unat k) + 1..<unat b * (unat n div unat k) + unat n] 0 0"
proof -
  let ?idx = "[unat b * (unat n div unat k) + 1..<unat b * (unat n div unat k) + unat n]"
  have "\<forall>x\<in>set ?idx. x < 2 ^ 64"
    using buckets_fit(2) [OF assms(1,2)] assms(3) by auto
  moreover have "unat (k - 1 - b) + unat b < unat k"
    using assms(1) by (simp add: initial_steps_u64)
  ultimately have "map task_of_words (initialize_tasks_loop_u64 k n (n div k) (k - 1 - b) b
      (map word_of_nat ?idx) 0 0) =
    initialize_tasks_loop (unat k) (unat n) (unat (n div k)) (unat (k - 1 - b)) (unat b) ?idx
      (unat (0::w64)) (unat (0::w64))"
    by (intro loop_u64_refines) auto
  then show ?thesis
    using start_u64 [OF assms] initial_steps_u64 [OF assms(1)]
    by (simp add: range_u64_def task_of_words_def unat_div_distrib unat_mod_distrib)
qed

text \<open>
  C37. On 64-bit words, with fewer than \<open>2 ^ 63\<close> chunks, \<open>initialize_tasks\<close> neither wraps nor
  fails its closing assertion: it returns exactly what the version over the natural numbers
  returns, errors included.
\<close>

theorem initialize_tasks_u64_refines:
  assumes "unat n < 2 ^ 63"
  shows "map_option (map_sum id (map task_of_words)) (initialize_tasks_u64 b n k) =
    Some (initialize_tasks (unat b) (unat n) (unat k))"
proof (cases "k = 0 \<or> k \<le> b \<or> n < k")
  case True
  then show ?thesis
    by (auto simp: initialize_tasks_u64_def initialize_tasks_def word_le_nat_alt word_less_nat_alt
        unat_eq_zero)
next
  case False
  then have b: "unat b < unat k" "unat k \<le> unat n" "0 < unat k"
    by (auto simp: word_le_nat_alt word_less_nat_alt unat_gt_0)
  note refine = tasks_u64_refine [OF b(1,2) assms]
  from b have nat: "initialize_tasks (unat b) (unat n) (unat k) = Inr (map task_of_words
      ((b * (n div k) mod n, 1) # initialize_tasks_loop_u64 k n (n div k) (k - 1 - b) b
        (range_u64 (b * (n div k) + 1) (b * (n div k) + n)) 0 0))"
    unfolding refine by (simp add: initialize_tasks_def Let_def)
  moreover have "length (tasks_for (unat b) (unat n) (unat k)) = unat n"
    using b by (intro sched.length_tasks) auto
  ultimately have "length ((b * (n div k) mod n, 1 :: w64) #
      initialize_tasks_loop_u64 k n (n div k) (k - 1 - b) b
        (range_u64 (b * (n div k) + 1) (b * (n div k) + n)) 0 0) = unat n"
    by (simp add: tasks_for_def)
  with False nat show ?thesis by (simp add: initialize_tasks_u64_def Let_def)
qed

theorem initialize_tasks_u64_refines_witness:
  "map_option (map_sum id (map task_of_words)) (initialize_tasks_u64 1 3 2) =
    Some (initialize_tasks (unat (1::w64)) (unat (3::w64)) (unat (2::w64)))"
  by (rule initialize_tasks_u64_refines) simp

end
