(* ===== verification/Participants.thy ===== *)
theory Participants
  imports Rust_Strings
begin

text \<open>
  \<^verbatim>\<open>phase1-coordinator/src/objects/participant.rs\<close>: contributors and verifiers, their
  printed form, and the serialiser and deserialiser that store them in the coordinator's
  JSON files.
\<close>

type_synonym ContributorId = string
type_synonym VerifierId = string

datatype Participant = Contributor ContributorId | Verifier VerifierId

definition new_contributor_participant :: "string \<Rightarrow> Participant" where
  "new_contributor_participant s = Contributor s"

definition new_verifier_participant :: "string \<Rightarrow> Participant" where
  "new_verifier_participant s = Verifier s"

fun is_contributor :: "Participant \<Rightarrow> bool" where
  "is_contributor (Contributor _) = True"
| "is_contributor (Verifier _) = False"

definition is_verifier :: "Participant \<Rightarrow> bool" where
  "is_verifier p = (\<not> is_contributor p)"

fun address :: "Participant \<Rightarrow> string" where
  "address (Contributor a) = a"
| "address (Verifier a) = a"

text \<open>\<^verbatim>\<open>fmt::Display\<close>; \<^verbatim>\<open>Debug\<close> and \<^verbatim>\<open>Serialize\<close> write the same string.\<close>

fun participant_to_string :: "Participant \<Rightarrow> string" where
  "participant_to_string (Contributor i) = i @ ''.contributor''"
| "participant_to_string (Verifier i) = i @ ''.verifier''"

fun serialize_participant :: "Participant \<Rightarrow> string" where
  "serialize_participant (Contributor i) = i @ ''.contributor''"
| "serialize_participant (Verifier i) = i @ ''.verifier''"

definition deserialize_participant :: "string \<Rightarrow> string + Participant" where
  "deserialize_participant s =
     (case splitn2 (CHR ''.'') s of
        [i, participant_type] \<Rightarrow>
          if participant_type = ''contributor'' then Inr (Contributor i)
          else if participant_type = ''verifier'' then Inr (Verifier i)
          else Inl ''unknown participant type''
      | _ \<Rightarrow> Inl ''unknown participant type'')"

section \<open>Roles\<close>

declare is_verifier_def [simp]

lemma is_contributor_iff: "is_contributor p \<longleftrightarrow> (\<exists>c. p = Contributor c)"
  by (cases p) simp_all

lemma is_verifier_iff: "is_verifier p \<longleftrightarrow> (\<exists>v. p = Verifier v)"
  by (cases p) simp_all

section \<open>Printed forms\<close>

lemma serialize_participant_eq: "serialize_participant p = participant_to_string p"
  by (cases p) simp_all

lemma suffixes_differ: "i @ ''.contributor'' \<noteq> j @ ''.verifier''"
proof
  assume "i @ ''.contributor'' = j @ ''.verifier''"
  then have "rev (i @ ''.contributor'') = rev (j @ ''.verifier'')" by (rule arg_cong)
  then show False by simp
qed

lemma participant_to_string_inject: "participant_to_string p = participant_to_string q \<longleftrightarrow> p = q"
  by (cases p; cases q) (auto simp: suffixes_differ suffixes_differ [symmetric])

lemma splitn2_serialized:
  assumes "CHR ''.'' \<notin> set (address p)"
  shows "splitn2 (CHR ''.'') (serialize_participant p) =
    [address p, if is_contributor p then ''contributor'' else ''verifier'']"
  using assms splitn2_append [of "CHR ''.''" "address p"] by (cases p) simp_all

text \<open>With a dot in the address, the part after the first dot is never a participant type.\<close>

lemma append_dot_neq:
  assumes "CHR ''.'' \<notin> set t"
  shows "ys @ CHR ''.'' # zs \<noteq> t"
  using assms by auto

lemma splitn2_dotted:
  assumes "CHR ''.'' \<in> set s"
  obtains i rest where "splitn2 (CHR ''.'') (s @ t) = [i, rest @ t]"
proof -
  from split_list_first [OF assms] obtain ys zs
    where s: "s = ys @ CHR ''.'' # zs" and "CHR ''.'' \<notin> set ys" by blast
  then have "splitn2 (CHR ''.'') (s @ t) = [ys, zs @ t]" by (simp add: splitn2_append)
  then show ?thesis using that by blast
qed

lemma deserialize_dotted:
  assumes "CHR ''.'' \<in> set (address p)"
  shows "deserialize_participant (serialize_participant p) = Inl ''unknown participant type''"
proof -
  obtain t where ser: "serialize_participant p = address p @ CHR ''.'' # t"
    by (cases p) simp_all
  from splitn2_dotted [OF assms] obtain i rest
    where sp: "splitn2 (CHR ''.'') (serialize_participant p) = [i, rest @ CHR ''.'' # t]"
    by (metis ser)
  have "rest @ CHR ''.'' # t \<noteq> ''contributor''" and "rest @ CHR ''.'' # t \<noteq> ''verifier''"
    by (rule append_dot_neq, simp)+
  with sp show ?thesis by (simp add: deserialize_participant_def)
qed

lemma deserialize_undotted:
  assumes "CHR ''.'' \<notin> set (address p)"
  shows "deserialize_participant (serialize_participant p) = Inr p"
  using splitn2_serialized [OF assms]
  by (cases p) (simp_all add: deserialize_participant_def)

text \<open>
  A participant that was written to the coordinator's JSON is read back as the same
  participant exactly when its address has no dot; with a dot, reading it back is an error.
\<close>

theorem participant_roundtrip_iff:
  "deserialize_participant (serialize_participant p) = Inr p \<longleftrightarrow> CHR ''.'' \<notin> set (address p)"
  by (cases "CHR ''.'' \<in> set (address p)") (simp_all add: deserialize_dotted deserialize_undotted)

end
