(* ===== verification/Coordinator_Error.thy ===== *)
theory Coordinator_Error
  imports Participants Tasks
begin

text \<open>
  \<^verbatim>\<open>phase1-coordinator/src/coordinator.rs\<close>, \<^verbatim>\<open>enum CoordinatorError\<close>: the errors of
  the coordinator and its objects, in the order of the source. The variants that no modelled
  operation returns are left out; the wrappers around errors of other crates (\<^verbatim>\<open>Error\<close>,
  \<^verbatim>\<open>Hex\<close>, \<^verbatim>\<open>IOError\<close>, \<^verbatim>\<open>JsonError\<close>) do not carry the wrapped error.
\<close>

datatype (plugins only: size) CoordinatorError =
    ChallengeHashSizeInvalid
  | ChunkAlreadyComplete
  | ChunkAlreadyVerified
  | ChunkIdAlreadyAdded
  | ChunkIdInvalid
  | ChunkIdMismatch
  | ChunkIdMissing
  | ChunkLockAlreadyAcquired
  | ChunkLockLimitReached
  | ChunkMissing
  | ChunkMissingVerification
  | ChunkCannotLockZeroContributions u64
  | ChunkNotLockedOrByWrongParticipant
  | ComputationFailed
  | CompressedContributionHashingUnsupported
  | ContributorPendingTasksCannotBeEmpty Participant
  | ContributionAlreadyAssignedVerifiedLocator
  | ContributionAlreadyAssignedVerifier
  | ContributionAlreadyVerified
  | ContributionFailed
  | ContributionFileSignatureLocatorAlreadyExists
  | ContributionFileSizeMismatch
  | ContributionHashMismatch
  | ContributionIdIsNonzero
  | ContributionIdMismatch
  | ContributionIdMustBeNonzero
  | ContributionLocatorAlreadyExists
  | ContributionLocatorIncorrect
  | ContributionLocatorMissing
  | ContributionMissing
  | ContributionMissingVerification
  | ContributionMissingVerifiedLocator
  | ContributionMissingVerifier
  | ContributionShouldNotExist
  | ContributionSignatureFileSizeMismatch
  | ContributionSignatureSizeMismatch
  | ContributionsComplete
  | ContributorAlreadyContributed
  | ContributorSignatureInvalid
  | ContributorsMissing
  | CoordinatorContributorMissing
  | CoordinatorStateNotInitialized
  | CurrentRoundAggregating
  | CurrentRoundAggregated
  | CurrentRoundFinished
  | CurrentRoundNotAggregated
  | CurrentRoundNotFinished
  | ExpectedContributor
  | ExpectedVerifier
  | Error
  | InitializationFailed
  | InitializationTranscriptsDiffer
  | Integer ParseIntError
  | IOError
  | Hex
  | JsonError
  | JustificationInvalid
  | NextChallengeHashAlreadyExists
  | NextChallengeHashSizeInvalid
  | NextChallengeHashMissing
  | NextRoundAlreadyInPrecommit
  | NextRoundShouldBeEmpty
  | NumberOfChunksInvalid
  | NumberOfContributionsDiffer
  | ParticipantAlreadyAdded
  | ParticipantAlreadyAddedChunk
  | ParticipantAlreadyBanned
  | ParticipantAlreadyDropped
  | ParticipantAlreadyFinished
  | ParticipantAlreadyFinishedChunk u64
  | ParticipantAlreadyFinishedTask Task
  | ParticipantAlreadyHasLockedChunk
  | ParticipantAlreadyHasLockedChunks
  | ParticipantAlreadyPrecommitted
  | ParticipantAlreadyStarted
  | ParticipantAlreadyWorkingOnChunk u64
  | ParticipantBanned
  | ParticipantDidNotDoWork
  | ParticipantDidntLockChunkId
  | ParticipantHasAssignedTasks
  | ParticipantHasLockedMaximumChunks
  | ParticipantHasNotStarted
  | ParticipantHasNoRemainingTasks
  | ParticipantHasRemainingTasks
  | ParticipantInCurrentRoundCannotJoinQueue
  | ParticipantLockedChunkWithManyContributions
  | ParticipantMissing
  | ParticipantMissingDisposingTask
  | ParticipantMissingPendingTask Task
  | ParticipantNotFound Participant
  | ParticipantNotReady
  | ParticipantRoundHeightInvalid
  | ParticipantStillHasLocks
  | ParticipantStillHasTaskAsAssigned
  | ParticipantUnauthorized
  | ParticipantUnauthorizedForChunkId u64
  | ParticipantWasDropped
  | PendingTasksMustContainResponseTask Task
  | Phase1Setup
  | QueueIsEmpty
  | QueueWaitTimeIncomplete
  | ResponseHashSizeInvalid
  | RoundAggregationFailed
  | RoundAlreadyInitialized
  | RoundAlreadyAggregated
  | RoundCommitFailedOrCorrupted
  | RoundContributorMissing
  | RoundContributorsMissing
  | RoundContributorsNotUnique
  | RoundDoesNotExist
  | RoundFileMissing
  | RoundFileSizeMismatch
  | RoundHeightIsZero
  | RoundHeightMismatch
  | RoundHeightNotSet
  | RoundLocatorAlreadyExists
  | RoundNotAggregated
  | RoundNotComplete
  | RoundNotReady
  | RoundNumberOfContributorsUnauthorized
  | RoundShouldNotExist
  | RoundStateMissing
  | RoundUpdateCorruptedStateOfContributors
  | SignatureSchemeIsInsecure
  | StorageFailed
  | StorageLocatorAlreadyExists
  | StorageLocatorFormatIncorrect
  | StorageLocatorMissing
  | StorageReaderFailed
  | StorageUpdateFailed
  | TaskInitializationFailed TaskInitializationError
  | PreviousContributionMissing Task
  | UnauthorizedChunkContributor
  | UnauthorizedChunkVerifier
  | VerificationFailed
  | VerificationOnContributionIdZero
  | VerifierMissing
  | VerifierSignatureInvalid

text \<open>\<^verbatim>\<open>impl From<TaskInitializationError> for CoordinatorError\<close>, applied by \<^verbatim>\<open>?\<close>.\<close>

definition from_task_error :: "TaskInitializationError + 'a \<Rightarrow> CoordinatorError + 'a" where
  "from_task_error r = (case r of Inl e \<Rightarrow> Inl (TaskInitializationFailed e) | Inr a \<Rightarrow> Inr a)"

type_synonym ('a, 's) fallible = "(CoordinatorError, 'a, 's) outcome"

lemma from_task_error_simps [simp]:
  "from_task_error (Inl e) = Inl (TaskInitializationFailed e)"
  "from_task_error (Inr a) = Inr a"
  by (simp_all add: from_task_error_def)

lemma from_task_error_ok_iff [simp]: "from_task_error r = Inr a \<longleftrightarrow> r = Inr a"
  by (cases r) simp_all

end
