(* ===== verification/Contributions.thy ===== *)
theory Contributions
  imports Coordinator_Error
begin

text \<open>
  \<^verbatim>\<open>phase1-coordinator/src/objects/contribution.rs\<close>: one contribution to a chunk, with
  the participant that made it, the verifier that checked it, and where the files are. The
  initial contribution of a chunk has a verifier only.
\<close>

type_synonym LocatorPath = string

record Contribution =
  contributor_id :: "Participant option"
  contributed_locator :: "LocatorPath option"
  contributed_signature_locator :: "LocatorPath option"
  verifier_id :: "Participant option"
  verified_locator :: "LocatorPath option"
  verified_signature_locator :: "LocatorPath option"
  verified :: bool

definition is_verified :: "Contribution \<Rightarrow> bool" where
  "is_verified self = verified self"

definition get_contributor :: "Contribution \<Rightarrow> Participant option" where
  "get_contributor self = contributor_id self"

definition get_contributed_location :: "Contribution \<Rightarrow> LocatorPath option" where
  "get_contributed_location self = contributed_locator self"

definition get_contributed_signature_location :: "Contribution \<Rightarrow> LocatorPath option" where
  "get_contributed_signature_location self = contributed_signature_locator self"

definition get_verifier :: "Contribution \<Rightarrow> Participant option" where
  "get_verifier self = verifier_id self"

definition get_verified_location :: "Contribution \<Rightarrow> LocatorPath option" where
  "get_verified_location self = verified_locator self"

definition get_verified_signature_location :: "Contribution \<Rightarrow> LocatorPath option" where
  "get_verified_signature_location self = verified_signature_locator self"

definition contribution_new_contributor ::
  "Participant \<Rightarrow> LocatorPath \<Rightarrow> LocatorPath \<Rightarrow> CoordinatorError + Contribution" where
  "contribution_new_contributor participant locator signature_locator =
     (if \<not> is_contributor participant then Inl ExpectedContributor
      else Inr \<lparr>contributor_id = Some participant,
                contributed_locator = Some locator,
                contributed_signature_locator = Some signature_locator,
                verifier_id = None,
                verified_locator = None,
                verified_signature_locator = None,
                verified = False\<rparr>)"

definition contribution_new_verifier ::
  "u64 \<Rightarrow> Participant \<Rightarrow> LocatorPath \<Rightarrow> LocatorPath \<Rightarrow> CoordinatorError + Contribution" where
  "contribution_new_verifier contribution participant locator signature_locator =
     (if \<not> is_verifier participant then Inl ExpectedVerifier
      else if contribution \<noteq> 0 then Inl ContributionIdIsNonzero
      else Inr \<lparr>contributor_id = None,
                contributed_locator = None,
                contributed_signature_locator = None,
                verifier_id = Some participant,
                verified_locator = Some locator,
                verified_signature_locator = Some signature_locator,
                verified = True\<rparr>)"

definition assign_verifier ::
  "Contribution \<Rightarrow> Participant \<Rightarrow> LocatorPath \<Rightarrow> LocatorPath \<Rightarrow> (unit, Contribution) fallible" where
  "assign_verifier self participant locator signature_locator =
     (if \<not> is_verifier participant then (Inl ExpectedVerifier, self)
      else if verifier_id self \<noteq> None then (Inl ContributionAlreadyAssignedVerifier, self)
      else if verified_locator self \<noteq> None
      then (Inl ContributionAlreadyAssignedVerifiedLocator, self)
      else if verified self then (Inl ContributionAlreadyVerified, self)
      else (Inr (), self\<lparr>verifier_id := Some participant,
                         verified_locator := Some locator,
                         verified_signature_locator := Some signature_locator\<rparr>))"

definition set_verified :: "Contribution \<Rightarrow> Participant \<Rightarrow> (unit, Contribution) fallible" where
  "set_verified self participant =
     (if \<not> is_verifier participant then (Inl ExpectedVerifier, self)
      else
        (case verifier_id self of
           None \<Rightarrow> (Inl ContributionMissingVerifier, self)
         | Some v \<Rightarrow>
             if v \<noteq> participant then (Inl UnauthorizedChunkVerifier, self)
             else if verified_locator self = None
             then (Inl ContributionMissingVerifiedLocator, self)
             else if verified self then (Inl ContributionAlreadyVerified, self)
             else (Inr (), self\<lparr>verified := True\<rparr>)))"

definition get_locators :: "Contribution \<Rightarrow> LocatorPath list" where
  "get_locators self =
     (case get_contributed_location self of None \<Rightarrow> [] | Some path \<Rightarrow> [path]) @
     (case get_contributed_signature_location self of None \<Rightarrow> [] | Some path \<Rightarrow> [path]) @
     (case get_verified_location self of None \<Rightarrow> [] | Some path \<Rightarrow> [path]) @
     (case get_verified_signature_location self of None \<Rightarrow> [] | Some path \<Rightarrow> [path])"

text \<open>
  What the operations above keep: a contribution has a contributor exactly when it has a
  contributed file; it is verified only with a verifier and a verified file; the roles are
  the right ones.
\<close>

definition contribution_wf :: "Contribution \<Rightarrow> bool" where
  "contribution_wf self \<longleftrightarrow>
     (case contributor_id self of None \<Rightarrow> verified self | Some p \<Rightarrow> is_contributor p) \<and>
     (contributor_id self = None \<longleftrightarrow> contributed_locator self = None) \<and>
     (contributor_id self = None \<longleftrightarrow> contributed_signature_locator self = None) \<and>
     (case verifier_id self of None \<Rightarrow> \<not> verified self | Some v \<Rightarrow> is_verifier v) \<and>
     (verifier_id self = None \<longleftrightarrow> verified_locator self = None) \<and>
     (verifier_id self = None \<longleftrightarrow> verified_signature_locator self = None)"

lemmas contribution_accessors [simp] =
  is_verified_def get_contributor_def get_contributed_location_def
  get_contributed_signature_location_def get_verifier_def get_verified_location_def
  get_verified_signature_location_def

lemma contribution_wf_new_contributor:
  "contribution_new_contributor p l s = Inr c \<Longrightarrow>
     contribution_wf c \<and> contributor_id c = Some p \<and> \<not> verified c \<and> verifier_id c = None"
  by (auto simp: contribution_new_contributor_def contribution_wf_def split: if_splits)

lemma contribution_wf_new_verifier:
  "contribution_new_verifier i p l s = Inr c \<Longrightarrow>
     contribution_wf c \<and> contributor_id c = None \<and> verified c"
  by (auto simp: contribution_new_verifier_def contribution_wf_def split: if_splits)

text \<open>Assigning a verifier and setting the flag, the two halves of a verification.\<close>

lemma assign_then_set_verified:
  assumes "contribution_wf c" "\<not> verified c" "verifier_id c = None" "is_verifier v"
  shows "and_then (assign_verifier c v l s) (\<lambda>_ c'. set_verified c' v) =
    (Inr (), c\<lparr>verifier_id := Some v, verified_locator := Some l,
              verified_signature_locator := Some s, verified := True\<rparr>)"
  using assms by (auto simp: assign_verifier_def set_verified_def contribution_wf_def)

lemma assign_verifier_ok_iff:
  "contribution_wf c \<Longrightarrow> (\<exists>c'. assign_verifier c v l s = (Inr (), c')) \<longleftrightarrow>
     is_verifier v \<and> verifier_id c = None"
  by (auto simp: assign_verifier_def contribution_wf_def)

lemma assign_verifier_error: "assign_verifier c v l s = (Inl e, c') \<Longrightarrow> c' = c"
  by (auto simp: assign_verifier_def split: if_splits)

lemma contribution_wf_verified:
  "contribution_wf c \<Longrightarrow> contributor_id c \<noteq> None \<Longrightarrow> is_verifier v \<Longrightarrow>
    contribution_wf (c\<lparr>verifier_id := Some v, verified_locator := Some l,
              verified_signature_locator := Some s, verified := True\<rparr>)"
  by (auto simp: contribution_wf_def split: option.splits)

lemma length_get_locators:
  "contribution_wf c \<Longrightarrow> length (get_locators c) =
     (if contributor_id c = None then 0 else 2) + (if verifier_id c = None then 0 else 2)"
  by (auto simp: get_locators_def contribution_wf_def split: option.splits)

end
