(* ===== verification/Chunks.thy ===== *)
theory Chunks
  imports Contributions
begin

text \<open>
  \<^verbatim>\<open>phase1-coordinator/src/objects/chunk.rs\<close>: a chunk of a round, the lock on it and its
  contributions. The chunk is a small protocol: a contributor takes the lock, adds the next
  contribution (which releases the lock), and a verifier marks it verified before the next
  contributor can take the lock. The theory states that protocol abstractly
  (\<open>chunk_spec\<close>), proves that the operations implement it on every branch, and that every
  reachable chunk satisfies \<open>chunk_wf\<close>.
\<close>

record Chunk =
  chunk_chunk_id :: u64
  lock_holder :: "Participant option"
  contributions :: "(u64, Contribution) hashmap"

definition chunk_new ::
  "u64 \<Rightarrow> Participant \<Rightarrow> LocatorPath \<Rightarrow> LocatorPath \<Rightarrow> CoordinatorError + Chunk" where
  "chunk_new i participant verifier_locator verifier_signature_locator =
     (if is_verifier participant then
        (case contribution_new_verifier 0 participant verifier_locator verifier_signature_locator of
           Inl e \<Rightarrow> Inl e
         | Inr c \<Rightarrow> Inr \<lparr>chunk_chunk_id = i, lock_holder = None, contributions = [(0, c)]\<rparr>)
      else Inl ExpectedVerifier)"

definition is_locked :: "Chunk \<Rightarrow> bool" where
  "is_locked self = (lock_holder self \<noteq> None)"

definition is_unlocked :: "Chunk \<Rightarrow> bool" where
  "is_unlocked self = (\<not> is_locked self)"

definition is_locked_by :: "Chunk \<Rightarrow> Participant \<Rightarrow> bool" where
  "is_locked_by self participant =
     (if is_unlocked self then False
      else (case lock_holder self of Some holder \<Rightarrow> holder = participant | None \<Rightarrow> False))"

text \<open>\<^verbatim>\<open>(len() - 1) as u64\<close>: on an empty map the subtraction wraps around.\<close>

definition current_contribution_id :: "Chunk \<Rightarrow> u64" where
  "current_contribution_id self =
     (if contributions self = [] then 2 ^ 64 - 1 else length (contributions self) - 1)"

definition get_contribution :: "Chunk \<Rightarrow> u64 \<Rightarrow> CoordinatorError + Contribution" where
  "get_contribution self i =
     (case hm_get (contributions self) i of Some c \<Rightarrow> Inr c | None \<Rightarrow> Inl ContributionMissing)"

definition current_contribution :: "Chunk \<Rightarrow> CoordinatorError + Contribution" where
  "current_contribution self = get_contribution self (current_contribution_id self)"

definition only_contributions_complete :: "Chunk \<Rightarrow> u64 \<Rightarrow> bool" where
  "only_contributions_complete self expected_contributions =
     (length (contributions self) = expected_contributions)"

definition chunk_is_complete :: "Chunk \<Rightarrow> u64 \<Rightarrow> bool" where
  "chunk_is_complete self expected_contributions =
     (if is_locked self then False
      else
        (let contributions_complete = only_contributions_complete self expected_contributions;
             verifications_complete =
               (length (filter (\<lambda>(_, c). is_verified c) (contributions self)) =
                expected_contributions)
         in contributions_complete \<and> verifications_complete))"

definition is_next_contribution_id :: "Chunk \<Rightarrow> u64 \<Rightarrow> u64 \<Rightarrow> bool" where
  "is_next_contribution_id self next_contribution expected_contributions =
     (if current_contribution_id self + 1 \<noteq> next_contribution then False
      else if only_contributions_complete self expected_contributions then False
      else if chunk_is_complete self expected_contributions then False
      else True)"

definition next_contribution_id :: "Chunk \<Rightarrow> u64 \<Rightarrow> CoordinatorError + u64" where
  "next_contribution_id self expected_contributions =
     result_bind (current_contribution self) (\<lambda>current.
       if \<not> is_verified current then Inl ContributionMissingVerification
       else if \<not> only_contributions_complete self expected_contributions
       then Inr (current_contribution_id self + 1)
       else Inl ContributionsComplete)"

definition set_lock_holder :: "Chunk \<Rightarrow> Participant option \<Rightarrow> Chunk" where
  "set_lock_holder self holder = self\<lparr>lock_holder := holder\<rparr>"

definition set_lock_holder_unsafe :: "Chunk \<Rightarrow> Participant option \<Rightarrow> Chunk" where
  "set_lock_holder_unsafe self holder = set_lock_holder self holder"

definition remove_contribution_unsafe :: "Chunk \<Rightarrow> u64 \<Rightarrow> Chunk" where
  "remove_contribution_unsafe self i = self\<lparr>contributions := hm_remove i (contributions self)\<rparr>"

definition acquire_lock :: "Chunk \<Rightarrow> Participant \<Rightarrow> u64 \<Rightarrow> (unit, Chunk) fallible" where
  "acquire_lock self participant expected_num_contributions =
     (if is_locked self then (Inl ChunkLockAlreadyAcquired, self)
      else if chunk_is_complete self expected_num_contributions
      then (Inl ChunkAlreadyComplete, self)
      else if is_contributor participant then
        (if filter (\<lambda>(_, c). get_contributor c = Some participant) (contributions self) \<noteq> []
         then (Inl ContributorAlreadyContributed, self)
         else
           (case current_contribution self of
              Inl e \<Rightarrow> (Inl e, self)
            | Inr contribution \<Rightarrow>
                if is_locked_by self participant \<and> get_contributor contribution = Some participant
                   \<and> get_contributed_location contribution = None \<and> \<not> is_verified contribution
                then (Inr (), self)
                else if \<not> is_verified contribution then (Inl ChunkMissingVerification, self)
                else (Inr (), set_lock_holder self (Some participant))))
      else
        (case current_contribution self of
           Inl e \<Rightarrow> (Inl e, self)
         | Inr contribution \<Rightarrow>
             if is_verified contribution then (Inl ChunkAlreadyVerified, self)
             else (Inr (), set_lock_holder self (Some participant))))"

definition add_contribution ::
  "Chunk \<Rightarrow> u64 \<Rightarrow> Participant \<Rightarrow> LocatorPath \<Rightarrow> LocatorPath \<Rightarrow> (unit, Chunk) fallible" where
  "add_contribution self i contributor locator signature_locator =
     (if \<not> is_contributor contributor then (Inl ExpectedContributor, self)
      else if \<not> is_locked_by self contributor
      then (Inl ChunkNotLockedOrByWrongParticipant, self)
      else
        (case contribution_new_contributor contributor locator signature_locator of
           Inl e \<Rightarrow> (Inl e, self)
         | Inr c \<Rightarrow>
             (Inr (), set_lock_holder
                (self\<lparr>contributions := hm_insert i c (contributions self)\<rparr>) None)))"

text \<open>\<^verbatim>\<open>contributions.get_mut(&id)\<close> gives a place in the map: each change is written back.\<close>

definition verify_contribution ::
  "Chunk \<Rightarrow> u64 \<Rightarrow> Participant \<Rightarrow> LocatorPath \<Rightarrow> LocatorPath \<Rightarrow> (unit, Chunk) fallible" where
  "verify_contribution self i verifier locator signature_locator =
     (if \<not> is_verifier verifier then (Inl ExpectedVerifier, self)
      else
        (case hm_get (contributions self) i of
           None \<Rightarrow> (Inl ContributionMissing, self)
         | Some contribution \<Rightarrow>
             (let write = (\<lambda>c. self\<lparr>contributions := hm_insert i c (contributions self)\<rparr>) in
              case assign_verifier contribution verifier locator signature_locator of
                (Inl e, c) \<Rightarrow> (Inl e, write c)
              | (Inr _, c) \<Rightarrow>
                  if is_verified c then (Inl ContributionAlreadyVerified, write c)
                  else
                    (case set_verified c verifier of
                       (Inl e, c') \<Rightarrow> (Inl e, write c')
                     | (Inr _, c') \<Rightarrow> (Inr (), set_lock_holder (write c') None)))))"

text \<open>
  \<^verbatim>\<open>Round::remove_chunk_contributions_unsafe\<close> removes a contribution and all later ones.
\<close>

definition remove_contributions_from :: "Chunk \<Rightarrow> u64 \<Rightarrow> Chunk" where
  "remove_contributions_from self i =
     fold (\<lambda>j chunk. remove_contribution_unsafe chunk j) [i..<length (contributions self)] self"

section \<open>The protocol of a chunk\<close>

record chunk_spec =
  spec_contributors :: "Participant list"
  spec_unverified :: bool
  spec_holder :: "Participant option"

definition spec_lock :: "u64 \<Rightarrow> Participant \<Rightarrow> chunk_spec \<Rightarrow> chunk_spec option" where
  "spec_lock e p s =
     (if spec_holder s = None \<and> \<not> spec_unverified s \<and> p \<notin> set (spec_contributors s) \<and>
         Suc (length (spec_contributors s)) < e
      then Some (s\<lparr>spec_holder := Some p\<rparr>) else None)"

definition spec_contribute :: "Participant \<Rightarrow> chunk_spec \<Rightarrow> chunk_spec option" where
  "spec_contribute p s =
     (if spec_holder s = Some p
      then Some (s\<lparr>spec_contributors := spec_contributors s @ [p], spec_unverified := True,
                   spec_holder := None\<rparr>) else None)"

definition spec_verify :: "chunk_spec \<Rightarrow> chunk_spec option" where
  "spec_verify s =
     (if spec_unverified s then Some (s\<lparr>spec_unverified := False, spec_holder := None\<rparr>) else None)"

definition contributor_at :: "Chunk \<Rightarrow> u64 \<Rightarrow> Participant option" where
  "contributor_at c i = Option.bind (hm_get (contributions c) i) contributor_id"

definition verified_at :: "Chunk \<Rightarrow> u64 \<Rightarrow> bool" where
  "verified_at c i = (case hm_get (contributions c) i of None \<Rightarrow> False | Some k \<Rightarrow> verified k)"

definition chunk_abs :: "Chunk \<Rightarrow> chunk_spec" where
  "chunk_abs c =
     \<lparr>spec_contributors = map (\<lambda>i. the (contributor_at c i)) [1..<length (contributions c)],
      spec_unverified = (\<not> verified_at c (length (contributions c) - 1)),
      spec_holder = lock_holder c\<rparr>"

text \<open>
  The invariant, for a round that expects \<open>e\<close> contributions per chunk: the contributions are
  numbered without a gap from the initial one, at most the last is unverified, nobody
  contributes twice, and a contributor holds the lock only while the next contribution is
  its to make.
\<close>

definition contributions_wf :: "u64 \<Rightarrow> (u64, Contribution) hashmap \<Rightarrow> bool" where
  "contributions_wf e m \<longleftrightarrow>
     m \<noteq> [] \<and> length m \<le> e \<and> distinct (map fst m) \<and> set (map fst m) = {0..<length m} \<and>
     (\<forall>i c. map_of m i = Some c \<longrightarrow>
        contribution_wf c \<and> (contributor_id c = None \<longleftrightarrow> i = 0) \<and>
        (verified c \<longleftrightarrow> verifier_id c \<noteq> None) \<and> (Suc i < length m \<longrightarrow> verified c)) \<and>
     (\<forall>i j c d p. map_of m i = Some c \<longrightarrow> map_of m j = Some d \<longrightarrow>
        contributor_id c = Some p \<longrightarrow> contributor_id d = Some p \<longrightarrow> i = j)"

definition chunk_wf :: "u64 \<Rightarrow> Chunk \<Rightarrow> bool" where
  "chunk_wf e c \<longleftrightarrow>
     contributions_wf e (contributions c) \<and>
     (\<forall>p. lock_holder c = Some p \<longrightarrow> is_contributor p \<longrightarrow>
        verified_at c (length (contributions c) - 1) \<and> length (contributions c) < e \<and>
        (\<forall>i k. map_of (contributions c) i = Some k \<longrightarrow> contributor_id k \<noteq> Some p))"

text \<open>
  The steps the coordinator takes on a chunk of a round that expects \<open>e\<close> contributions:
  \<^verbatim>\<open>Round::try_lock_chunk\<close>, \<^verbatim>\<open>Coordinator::add_contribution\<close> (at the next
  contribution ID), \<^verbatim>\<open>Coordinator::verify_contribution\<close> (at the current contribution ID),
  the release of a lock and the removal of the contributions of a dropped contributor.
\<close>

inductive chunk_step :: "u64 \<Rightarrow> Chunk \<Rightarrow> Chunk \<Rightarrow> bool" for e where
  lock: "acquire_lock c p e = (Inr (), c') \<Longrightarrow> chunk_step e c c'"
| contribute: "next_contribution_id c e = Inr i \<Longrightarrow> is_next_contribution_id c i e \<Longrightarrow>
     add_contribution c i p l s = (Inr (), c') \<Longrightarrow> chunk_step e c c'"
| verify: "verify_contribution c (current_contribution_id c) v l s = (Inr (), c') \<Longrightarrow>
     chunk_step e c c'"
| unlock: "chunk_step e c (set_lock_holder_unsafe c None)"
| truncate: "1 \<le> i \<Longrightarrow> chunk_step e c (remove_contributions_from c i)"

definition chunk_init :: "u64 \<Rightarrow> Chunk \<Rightarrow> bool" where
  "chunk_init e c \<longleftrightarrow> 1 \<le> e \<and> (\<exists>i p l s. chunk_new i p l s = Inr c)"

lemmas chunk_queries [simp] = is_locked_def is_unlocked_def is_locked_by_def
  only_contributions_complete_def set_lock_holder_def set_lock_holder_unsafe_def

section \<open>Well-formed contributions\<close>

lemma contributions_wf_lookup:
  "contributions_wf e m \<Longrightarrow> (\<exists>c. map_of m i = Some c) \<longleftrightarrow> i < length m"
  using in_keys_map_of [of i m] by (simp add: contributions_wf_def)

lemma contributions_wf_entry:
  assumes "contributions_wf e m" "map_of m i = Some c"
  shows "contribution_wf c" "contributor_id c = None \<longleftrightarrow> i = 0"
    "verified c \<longleftrightarrow> verifier_id c \<noteq> None" "Suc i < length m \<Longrightarrow> verified c"
  using assms unfolding contributions_wf_def by blast+

lemma contributions_wf_once:
  assumes "contributions_wf e m" "map_of m i = Some c" "map_of m j = Some d"
    "contributor_id c = Some p" "contributor_id d = Some p"
  shows "i = j"
proof -
  from assms(1) have "\<forall>i j c d p. map_of m i = Some c \<longrightarrow> map_of m j = Some d \<longrightarrow>
      contributor_id c = Some p \<longrightarrow> contributor_id d = Some p \<longrightarrow> i = j"
    unfolding contributions_wf_def by (elim conjE)
  from this [rule_format, OF assms(2-5)] show ?thesis .
qed

lemma contributions_wf_shape:
  assumes "contributions_wf e m"
  shows "m \<noteq> []" "0 < length m" "length m \<le> e" "distinct (map fst m)"
    "set (map fst m) = {0..<length m}" "length m \<notin> set (map fst m)"
  using assms by (auto simp: contributions_wf_def)

text \<open>The last contribution is the current one.\<close>

lemma current_entry:
  assumes "contributions_wf e (contributions c)"
  obtains k where "map_of (contributions c) (length (contributions c) - 1) = Some k"
    "current_contribution c = Inr k" "verified_at c (length (contributions c) - 1) \<longleftrightarrow> verified k"
proof -
  note sh = contributions_wf_shape [OF assms]
  then obtain k where k: "map_of (contributions c) (length (contributions c) - 1) = Some k"
    using contributions_wf_lookup [OF assms] by (metis diff_less zero_less_one)
  moreover from k have "current_contribution c = Inr k"
    using sh by (simp add: current_contribution_def current_contribution_id_def get_contribution_def)
  ultimately show ?thesis using that by (simp add: verified_at_def)
qed

lemma all_verified_iff_last:
  assumes "contributions_wf e (contributions c)"
  shows "(\<forall>(i, k)\<in>set (contributions c). verified k) \<longleftrightarrow>
    verified_at c (length (contributions c) - 1)"
proof -
  from assms have d: "distinct (map fst (contributions c))" by (rule contributions_wf_shape(4))
  obtain k where k: "map_of (contributions c) (length (contributions c) - 1) = Some k"
    "verified_at c (length (contributions c) - 1) \<longleftrightarrow> verified k"
    using current_entry [OF assms] .
  have "verified j" if "verified k" "(i, j) \<in> set (contributions c)" for i j
  proof (cases "Suc i < length (contributions c)")
    case True
    with that assms d show ?thesis
      by (auto intro: contributions_wf_entry(4))
  next
    case False
    have "i < length (contributions c)"
      using contributions_wf_lookup [OF assms, of i] d that(2) by auto
    with False have "i = length (contributions c) - 1" by simp
    moreover from that(2) d have "map_of (contributions c) i = Some j" by (rule map_of_is_SomeI [rotated])
    ultimately have "j = k" using k(1) by (metis option.inject)
    with that show ?thesis by simp
  qed
  with k show ?thesis by (auto dest: map_of_SomeD)
qed

lemma complete_iff:
  assumes "contributions_wf e (contributions c)"
  shows "chunk_is_complete c e \<longleftrightarrow>
    lock_holder c = None \<and> length (contributions c) = e \<and>
    verified_at c (length (contributions c) - 1)"
  using length_filter_full [of "\<lambda>(_, k). verified k" "contributions c"]
    all_verified_iff_last [OF assms]
  by (auto simp: chunk_is_complete_def Let_def)

lemma contributed_filter_iff:
  assumes "contributions_wf e m"
  shows "filter (\<lambda>(_, k). contributor_id k = Some p) m = [] \<longleftrightarrow>
    (\<forall>i k. map_of m i = Some k \<longrightarrow> contributor_id k \<noteq> Some p)"
proof -
  from assms have "distinct (map fst m)" by (rule contributions_wf_shape(4))
  then have "map_of m i = Some k \<longleftrightarrow> (i, k) \<in> set m" for i k by (rule map_of_eq_Some_iff)
  then show ?thesis by (auto simp: filter_empty_conv)
qed

section \<open>The operations keep the invariant\<close>

lemma chunk_wf_new:
  assumes "chunk_new i p l s = Inr c" "1 \<le> e"
  shows "chunk_wf e c"
  using assms
  by (auto simp: chunk_new_def chunk_wf_def contributions_wf_def contribution_new_verifier_def
      contribution_wf_def split: if_splits)

lemma acquire_lock_wf:
  assumes "chunk_wf e c" "acquire_lock c p e = (Inr (), c')"
  shows "chunk_wf e c'"
proof -
  from assms(1) have wf: "contributions_wf e (contributions c)" by (simp add: chunk_wf_def)
  obtain k where k: "current_contribution c = Inr k"
    "verified_at c (length (contributions c) - 1) \<longleftrightarrow> verified k"
    using current_entry [OF wf] .
  show ?thesis
  proof (cases "is_contributor p")
    case True
    with assms(2) k have c': "c' = c\<lparr>lock_holder := Some p\<rparr>" and v: "verified k"
      and u: "lock_holder c = None" "\<not> chunk_is_complete c e"
      and p: "filter (\<lambda>(_, k). contributor_id k = Some p) (contributions c) = []"
      by (auto simp: acquire_lock_def split: if_splits)
    have "length (contributions c) < e"
      using u v k contributions_wf_shape(3) [OF wf] complete_iff [OF wf] by auto
    with wf k v p c' contributed_filter_iff [OF wf] show ?thesis
      by (auto simp: chunk_wf_def verified_at_def)
  next
    case False
    with assms(2) k have "c' = c\<lparr>lock_holder := Some p\<rparr>"
      by (auto simp: acquire_lock_def split: if_splits)
    with False wf show ?thesis by (auto simp: chunk_wf_def)
  qed
qed

lemma next_id_eq:
  assumes "contributions_wf e (contributions c)" "next_contribution_id c e = Inr i"
  shows "i = length (contributions c)" "length (contributions c) < e"
    "verified_at c (length (contributions c) - 1)"
proof -
  obtain k where k: "current_contribution c = Inr k"
    "verified_at c (length (contributions c) - 1) \<longleftrightarrow> verified k"
    using current_entry [OF assms(1)] .
  note sh = contributions_wf_shape [OF assms(1)]
  from assms(2) k sh show "i = length (contributions c)" "length (contributions c) < e"
    "verified_at c (length (contributions c) - 1)"
    by (auto simp: next_contribution_id_def current_contribution_id_def split: if_splits)
qed

lemma contributions_wf_append:
  assumes wf: "contributions_wf e m" and lt: "length m < e"
    and c: "contribution_wf k" "contributor_id k = Some p" "\<not> verified k" "verifier_id k = None"
    and fresh: "\<And>i d. map_of m i = Some d \<Longrightarrow> contributor_id d \<noteq> Some p"
    and last: "\<And>d. map_of m (length m - 1) = Some d \<Longrightarrow> verified d"
  shows "contributions_wf e (AList.update (length m) k m)"
proof -
  note sh = contributions_wf_shape [OF wf]
  have eq: "AList.update (length m) k m = m @ [(length m, k)]" by (rule update_new) (rule sh(6))
  have look: "map_of (m @ [(length m, k)]) i = (if i = length m then Some k else map_of m i)" for i
    using sh(6) map_of_Some_in_keys [of m "length m"]
    by (auto simp: map_add_def split: option.splits)
  have "verified d" if "map_of m i = Some d" "Suc i < Suc (length m)" for i d
  proof (cases "Suc i < length m")
    case True
    with that contributions_wf_entry(4) [OF wf] show ?thesis by blast
  next
    case False
    with that sh(2) have "i = length m - 1" by simp
    with that last show ?thesis by blast
  qed
  moreover have "set (map fst (m @ [(length m, k)])) = {0..<length (m @ [(length m, k)])}"
    using sh(5) by auto
  moreover have "distinct (map fst (m @ [(length m, k)]))" using sh(4,6) by auto
  ultimately show ?thesis
    unfolding eq contributions_wf_def look
    using lt c fresh sh(1) contributions_wf_entry [OF wf] contributions_wf_once [OF wf]
    by (auto split: if_splits)
qed

lemma add_contribution_eq:
  assumes "add_contribution c i p l s = (Inr (), c')"
  obtains k where "contribution_new_contributor p l s = Inr k" "is_contributor p"
    "lock_holder c = Some p"
    "c' = c\<lparr>contributions := AList.update i k (contributions c), lock_holder := None\<rparr>"
  using assms
  by (auto simp: add_contribution_def split: if_splits sum.splits option.splits)

lemma add_contribution_wf:
  assumes "chunk_wf e c" "next_contribution_id c e = Inr i" "add_contribution c i p l s = (Inr (), c')"
  shows "chunk_wf e c'"
proof -
  from assms(1) have wf: "contributions_wf e (contributions c)" by (simp add: chunk_wf_def)
  obtain k where k: "contribution_new_contributor p l s = Inr k" "is_contributor p"
    and holder: "lock_holder c = Some p"
    and c': "c' = c\<lparr>contributions := AList.update i k (contributions c), lock_holder := None\<rparr>"
    using add_contribution_eq [OF assms(3)] .
  note nxt = next_id_eq [OF wf assms(2)]
  have "contributions_wf e (AList.update (length (contributions c)) k (contributions c))"
  proof (rule contributions_wf_append [OF wf])
    show "contributor_id d \<noteq> Some p" if "map_of (contributions c) j = Some d" for j d
      using assms(1) holder k(2) that by (auto simp: chunk_wf_def)
    show "verified d" if "map_of (contributions c) (length (contributions c) - 1) = Some d" for d
      using nxt(3) that by (simp add: verified_at_def)
  qed (use nxt(2) contribution_wf_new_contributor [OF k(1)] in auto)
  with nxt(1) c' show ?thesis by (simp add: chunk_wf_def)
qed

definition verified_by :: "Contribution \<Rightarrow> Participant \<Rightarrow> LocatorPath \<Rightarrow> LocatorPath \<Rightarrow> Contribution" where
  "verified_by k v l s = k\<lparr>verifier_id := Some v, verified_locator := Some l,
     verified_signature_locator := Some s, verified := True\<rparr>"

lemma verified_by_simps [simp]:
  "contributor_id (verified_by k v l s) = contributor_id k" "verified (verified_by k v l s)"
  "verifier_id (verified_by k v l s) = Some v"
  by (simp_all add: verified_by_def)

text \<open>The outcome of a verification of a contribution that is in the chunk.\<close>

lemma verify_contribution_eq:
  assumes "contributions_wf e (contributions c)" "map_of (contributions c) i = Some k" "is_verifier v"
  shows "verify_contribution c i v l s =
    (if verified k then (Inl ContributionAlreadyAssignedVerifier, c)
     else (Inr (), c\<lparr>contributions := AList.update i (verified_by k v l s) (contributions c),
                     lock_holder := None\<rparr>))"
proof (cases "verified k")
  case True
  with assms contributions_wf_entry(3) [OF assms(1,2)]
  have "assign_verifier k v l s = (Inl ContributionAlreadyAssignedVerifier, k)"
    by (simp add: assign_verifier_def)
  with True assms show ?thesis
    by (simp add: verify_contribution_def update_triv)
next
  case False
  with assms contributions_wf_entry [OF assms(1,2)]
  have "assign_verifier k v l s = (Inr (), k\<lparr>verifier_id := Some v, verified_locator := Some l,
      verified_signature_locator := Some s\<rparr>)"
    by (auto simp: assign_verifier_def contribution_wf_def)
  with False assms show ?thesis
    by (simp add: verify_contribution_def set_verified_def verified_by_def)
qed

lemma contributions_wf_verify:
  assumes wf: "contributions_wf e m" and k: "map_of m i = Some k" and v: "is_verifier v" "i \<noteq> 0"
  shows "contributions_wf e (AList.update i (verified_by k v l s) m)"
proof -
  note sh = contributions_wf_shape [OF wf]
  have i: "i \<in> set (map fst m)" using k by (rule map_of_Some_in_keys)
  have look: "map_of (AList.update i (verified_by k v l s) m) j =
      (if j = i then Some (verified_by k v l s) else map_of m j)" for j
    by (simp add: update_conv')
  have "contribution_wf (verified_by k v l s)"
    unfolding verified_by_def
    using contributions_wf_entry(1,2) [OF wf k] v by (intro contribution_wf_verified) auto
  moreover obtain p where "contributor_id k = Some p"
    using contributions_wf_entry(2) [OF wf k] v by auto
  moreover have "set (map fst (AList.update i (verified_by k v l s) m)) = {0..<length m}"
    unfolding keys_update using sh(5) i by auto
  moreover have "distinct (map fst (AList.update i (verified_by k v l s) m))"
    using sh(4) by (rule distinct_update)
  moreover have "length (AList.update i (verified_by k v l s) m) = length m"
    using i by (simp add: length_update)
  ultimately show ?thesis
    unfolding contributions_wf_def look
    using sh(1,3) contributions_wf_entry [OF wf] contributions_wf_once [OF wf] k v(2)
    by (auto split: if_splits)
qed

lemma current_id_eq:
  "contributions_wf e (contributions c) \<Longrightarrow>
     current_contribution_id c = length (contributions c) - 1"
  by (simp add: current_contribution_id_def contributions_wf_def)

lemma verify_contribution_wf:
  assumes "chunk_wf e c" "verify_contribution c (current_contribution_id c) v l s = (Inr (), c')"
  shows "chunk_wf e c'"
proof -
  from assms(1) have wf: "contributions_wf e (contributions c)" by (simp add: chunk_wf_def)
  let ?i = "length (contributions c) - 1"
  obtain k where k: "map_of (contributions c) ?i = Some k" using current_entry [OF wf] .
  have v: "is_verifier v"
    using assms(2) by (auto simp: verify_contribution_def split: if_splits)
  note eq = verify_contribution_eq [OF wf k v, of l s]
  from assms(2) have nv: "\<not> verified k"
    and c': "c' = c\<lparr>contributions := AList.update ?i (verified_by k v l s) (contributions c),
      lock_holder := None\<rparr>"
    unfolding current_id_eq [OF wf] eq by (auto split: if_splits)
  have "?i \<noteq> 0"
    using contributions_wf_entry [OF wf k] nv by (auto simp: contribution_wf_def)
  with contributions_wf_verify [OF wf k v] c' show ?thesis by (simp add: chunk_wf_def)
qed

text \<open>Removing a contribution and all later ones is cutting the chunk at that contribution.\<close>

lemma fold_delete: "fold AList.delete ks m = filter (\<lambda>p. fst p \<notin> set ks) m"
  by (induction ks arbitrary: m) (auto simp: AList.delete_eq intro: filter_cong)

definition cut_at :: "u64 \<Rightarrow> (u64, Contribution) hashmap \<Rightarrow> (u64, Contribution) hashmap" where
  "cut_at i m = filter (\<lambda>p. \<not> (i \<le> fst p \<and> fst p < length m)) m"

lemma remove_contributions_from_eq:
  "remove_contributions_from c i = c\<lparr>contributions := cut_at i (contributions c)\<rparr>"
proof -
  have "fold (\<lambda>j chunk. remove_contribution_unsafe chunk j) js c =
      c\<lparr>contributions := fold AList.delete js (contributions c)\<rparr>" for js
    by (induction js arbitrary: c) (auto simp: remove_contribution_unsafe_def)
  then show ?thesis by (simp add: remove_contributions_from_def fold_delete cut_at_def)
qed

lemma map_of_filter_keys:
  "map_of (filter (\<lambda>p. P (fst p)) m) j = (if P j then map_of m j else None)"
  by (induction m) auto

lemma cut_contributions:
  assumes "contributions_wf e m" "i < length m"
  shows "length (cut_at i m) = i" "distinct (map fst (cut_at i m))"
    "set (map fst (cut_at i m)) = {0..<i}"
    "\<And>j. map_of (cut_at i m) j = (if j < i then map_of m j else None)"
proof -
  note sh = contributions_wf_shape [OF assms(1)]
  have keys: "map fst (cut_at i m) = filter (\<lambda>j. \<not> (i \<le> j \<and> j < length m)) (map fst m)"
    by (simp add: filter_map comp_def cut_at_def)
  then show d: "distinct (map fst (cut_at i m))" using sh(4) by (metis distinct_filter)
  show ks: "set (map fst (cut_at i m)) = {0..<i}"
    unfolding keys set_filter sh(5) using assms(2) by auto
  have "length (map fst (cut_at i m)) = card (set (map fst (cut_at i m)))"
    using d by (simp only: distinct_card)
  with ks show "length (cut_at i m) = i" by simp
  fix j
  have "map_of m j = None" if "length m \<le> j"
    using contributions_wf_lookup [OF assms(1), of j] that by (cases "map_of m j") auto
  with assms(2) map_of_filter_keys [of "\<lambda>j. \<not> (i \<le> j \<and> j < length m)" m j]
  show "map_of (cut_at i m) j = (if j < i then map_of m j else None)"
    by (auto simp: cut_at_def)
qed

lemma contributions_wf_cut:
  assumes wf: "contributions_wf e m" and i: "1 \<le> i" "i < length m"
  shows "contributions_wf e (cut_at i m)"
proof -
  note cut = cut_contributions [OF wf i(2)]
  have "cut_at i m \<noteq> []" using cut(1) i(1) by (metis length_0_conv not_one_le_zero)
  moreover have "i \<le> e" using i(2) contributions_wf_shape(3) [OF wf] by simp
  ultimately show ?thesis
    unfolding contributions_wf_def cut
    using i(2) cut(2) contributions_wf_entry [OF wf] contributions_wf_once [OF wf]
    by (auto split: if_splits)
qed

lemma remove_contributions_from_wf:
  assumes "chunk_wf e c" "1 \<le> i"
  shows "chunk_wf e (remove_contributions_from c i)"
proof (cases "i < length (contributions c)")
  case True
  from assms(1) have wf: "contributions_wf e (contributions c)" by (simp add: chunk_wf_def)
  note cut = cut_contributions [OF wf True]
  obtain k where k: "map_of (contributions c) (i - 1) = Some k"
    using contributions_wf_lookup [OF wf, of "i - 1"] True by auto
  have "verified_at (c\<lparr>contributions := cut_at i (contributions c)\<rparr>) (i - 1)"
    using contributions_wf_entry(4) [OF wf k] True assms(2) k by (simp add: verified_at_def cut(4))
  with assms(1) contributions_wf_cut [OF wf assms(2) True] True show ?thesis
    unfolding chunk_wf_def remove_contributions_from_eq by (auto simp: cut split: if_splits)
next
  case False
  then have "remove_contributions_from c i = c"
    by (simp add: remove_contributions_from_eq cut_at_def)
  with assms(1) show ?thesis by simp
qed

lemma chunk_step_wf: "chunk_step e c c' \<Longrightarrow> chunk_wf e c \<Longrightarrow> chunk_wf e c'"
proof (induction rule: chunk_step.induct)
  case (lock c p c')
  then show ?case by (blast intro: acquire_lock_wf)
next
  case (contribute c i p l s c')
  then show ?case by (blast intro: add_contribution_wf)
next
  case (verify c v l s c')
  then show ?case by (blast intro: verify_contribution_wf)
next
  case (unlock c)
  then show ?case by (simp add: chunk_wf_def)
next
  case (truncate i c)
  then show ?case by (blast intro: remove_contributions_from_wf)
qed

interpretation chunk: invariant_system "chunk_init e" "chunk_step e" "chunk_wf e" for e
  by unfold_locales (auto simp: chunk_init_def intro: chunk_wf_new chunk_step_wf)

section \<open>The operations implement the protocol\<close>

lemma contributor_at_entry:
  "map_of (contributions c) i = Some k \<Longrightarrow> contributor_at c i = contributor_id k"
  by (simp add: contributor_at_def)

lemma abs_length:
  "contributions_wf e (contributions c) \<Longrightarrow>
     Suc (length (spec_contributors (chunk_abs c))) = length (contributions c)"
  using contributions_wf_shape(2) [of e "contributions c"] by (simp add: chunk_abs_def)

lemma abs_contributors:
  assumes "contributions_wf e (contributions c)"
  shows "p \<in> set (spec_contributors (chunk_abs c)) \<longleftrightarrow>
    (\<exists>i k. map_of (contributions c) i = Some k \<and> contributor_id k = Some p)"
proof
  assume "p \<in> set (spec_contributors (chunk_abs c))"
  then obtain i where i: "1 \<le> i" "i < length (contributions c)" "p = the (contributor_at c i)"
    by (auto simp: chunk_abs_def)
  then obtain k where k: "map_of (contributions c) i = Some k"
    using contributions_wf_lookup [OF assms] by blast
  with contributions_wf_entry(2) [OF assms k] i
  show "\<exists>i k. map_of (contributions c) i = Some k \<and> contributor_id k = Some p"
    by (auto simp: contributor_at_entry)
next
  assume "\<exists>i k. map_of (contributions c) i = Some k \<and> contributor_id k = Some p"
  then obtain i k where k: "map_of (contributions c) i = Some k" "contributor_id k = Some p" by blast
  then have "i < length (contributions c)" "i \<noteq> 0"
    using contributions_wf_lookup [OF assms, of i] contributions_wf_entry(2) [OF assms k(1)] by auto
  then have "i \<in> set [1..<length (contributions c)]" by simp
  moreover from k have "the (contributor_at c i) = p" by (simp add: contributor_at_entry)
  ultimately show "p \<in> set (spec_contributors (chunk_abs c))"
    unfolding chunk_abs_def by (auto intro: image_eqI [where x = i])
qed

lemma abs_distinct:
  assumes "contributions_wf e (contributions c)"
  shows "distinct (spec_contributors (chunk_abs c))"
proof -
  have "inj_on (\<lambda>i. the (contributor_at c i)) (set [1..<length (contributions c)])"
  proof (rule inj_onI)
    fix i j
    assume ij: "i \<in> set [1..<length (contributions c)]" "j \<in> set [1..<length (contributions c)]"
      and eq: "the (contributor_at c i) = the (contributor_at c j)"
    then obtain k d where kd: "map_of (contributions c) i = Some k" "map_of (contributions c) j = Some d"
      using contributions_wf_lookup [OF assms] by (metis atLeastLessThan_iff set_upt)
    with ij contributions_wf_entry(2) [OF assms] have "contributor_id k \<noteq> None" "contributor_id d \<noteq> None"
      by auto
    then obtain p where "contributor_id k = Some p" "contributor_id d = Some p"
      using eq kd by (auto simp: contributor_at_entry)
    with contributions_wf_once [OF assms kd] show "i = j" by blast
  qed
  then show ?thesis by (simp add: chunk_abs_def distinct_map)
qed

lemma abs_unverified:
  "spec_unverified (chunk_abs c) \<longleftrightarrow> \<not> verified_at c (length (contributions c) - 1)"
  "spec_holder (chunk_abs c) = lock_holder c"
  by (simp_all add: chunk_abs_def)

lemma abs_set_holder: "chunk_abs (c\<lparr>lock_holder := h\<rparr>) = (chunk_abs c)\<lparr>spec_holder := h\<rparr>"
  by (simp add: chunk_abs_def contributor_at_def verified_at_def)

lemma acquire_lock_refines:
  assumes "chunk_wf e c" "is_contributor p"
  shows "case acquire_lock c p e of
      (Inr _, c') \<Rightarrow> spec_lock e p (chunk_abs c) = Some (chunk_abs c')
    | (Inl _, c') \<Rightarrow> spec_lock e p (chunk_abs c) = None \<and> c' = c"
proof -
  from assms(1) have wf: "contributions_wf e (contributions c)" by (simp add: chunk_wf_def)
  obtain k where k: "current_contribution c = Inr k"
    "verified_at c (length (contributions c) - 1) \<longleftrightarrow> verified k"
    using current_entry [OF wf] .
  have fresh: "p \<in> set (spec_contributors (chunk_abs c)) \<longleftrightarrow>
      filter (\<lambda>(_, k). contributor_id k = Some p) (contributions c) \<noteq> []"
    using abs_contributors [OF wf] contributed_filter_iff [OF wf] by auto
  have len: "Suc (length (spec_contributors (chunk_abs c))) < e \<longleftrightarrow> length (contributions c) \<noteq> e"
    using abs_length [OF wf] contributions_wf_shape(3) [OF wf] by auto
  show ?thesis
    using assms(2) k fresh len complete_iff [OF wf]
    by (auto simp: acquire_lock_def spec_lock_def abs_unverified abs_set_holder)
qed

lemma add_contribution_refines:
  assumes "chunk_wf e c" "is_contributor p" "next_contribution_id c e = Inr i"
  shows "case add_contribution c i p l s of
      (Inr _, c') \<Rightarrow> spec_contribute p (chunk_abs c) = Some (chunk_abs c')
    | (Inl _, c') \<Rightarrow> spec_contribute p (chunk_abs c) = None \<and> c' = c"
proof (cases "lock_holder c = Some p")
  case True
  from assms(1) have wf: "contributions_wf e (contributions c)" by (simp add: chunk_wf_def)
  let ?n = "length (contributions c)"
  obtain k where k: "contribution_new_contributor p l s = Inr k"
    using assms(2) by (simp add: contribution_new_contributor_def)
  note k' = contribution_wf_new_contributor [OF k]
  note nxt = next_id_eq [OF wf assms(3)]
  let ?c = "c\<lparr>contributions := contributions c @ [(?n, k)], lock_holder := None\<rparr>"
  have add: "add_contribution c i p l s = (Inr (), ?c)"
    using assms(2) True k nxt(1) update_new [OF contributions_wf_shape(6) [OF wf]]
    by (simp add: add_contribution_def)
  have none: "map_of (contributions c) ?n = None"
    using contributions_wf_lookup [OF wf, of ?n] by (cases "map_of (contributions c) ?n") auto
  then have at: "contributor_at ?c j = (if j = ?n then Some p else contributor_at c j)" for j
    using k' by (auto simp: contributor_at_def map_add_def split: option.splits)
  have "\<not> verified_at ?c ?n" using none k' by (simp add: verified_at_def map_add_def)
  moreover have "[1..<Suc ?n] = [1..<?n] @ [?n]"
    using contributions_wf_shape(2) [OF wf] by (simp add: Suc_le_eq)
  ultimately show ?thesis
    using True by (simp add: add spec_contribute_def chunk_abs_def at)
next
  case False
  with assms(2) show ?thesis
    by (auto simp: add_contribution_def spec_contribute_def abs_unverified split: option.splits)
qed

lemma verify_contribution_refines:
  assumes "chunk_wf e c" "is_verifier v"
  shows "case verify_contribution c (current_contribution_id c) v l s of
      (Inr _, c') \<Rightarrow> spec_verify (chunk_abs c) = Some (chunk_abs c')
    | (Inl _, c') \<Rightarrow> spec_verify (chunk_abs c) = None \<and> c' = c"
proof -
  from assms(1) have wf: "contributions_wf e (contributions c)" by (simp add: chunk_wf_def)
  let ?i = "length (contributions c) - 1"
  obtain k where k: "map_of (contributions c) ?i = Some k" "verified_at c ?i \<longleftrightarrow> verified k"
    using current_entry [OF wf] .
  let ?c = "c\<lparr>contributions := AList.update ?i (verified_by k v l s) (contributions c),
      lock_holder := None\<rparr>"
  have len: "length (contributions ?c) = length (contributions c)"
    using map_of_Some_in_keys [OF k(1)] by (simp add: length_update)
  have at: "contributor_at ?c j = contributor_at c j" for j
    using k(1) by (simp add: contributor_at_def update_conv')
  have "verified_at ?c ?i" by (simp add: verified_at_def update_conv')
  with len have abs: "chunk_abs ?c =
      (chunk_abs c)\<lparr>spec_unverified := False, spec_holder := None\<rparr>"
    unfolding chunk_abs_def at by simp
  have "spec_unverified (chunk_abs c) \<longleftrightarrow> \<not> verified k" using k(2) by (simp add: abs_unverified)
  with verify_contribution_eq [OF wf k(1) assms(2), of l s] abs show ?thesis
    unfolding current_id_eq [OF wf] spec_verify_def by simp
qed

section \<open>Properties\<close>

definition initial_chunk :: "u64 \<Rightarrow> Chunk" where
  "initial_chunk i = \<lparr>chunk_chunk_id = i, lock_holder = None,
     contributions = [(0, \<lparr>contributor_id = None, contributed_locator = None,
       contributed_signature_locator = None, verifier_id = Some (Verifier ''v''),
       verified_locator = Some ''r'', verified_signature_locator = Some ''s'', verified = True\<rparr>)]\<rparr>"

lemma initial_chunk_init: "1 \<le> e \<Longrightarrow> chunk_init e (initial_chunk i)"
  unfolding chunk_init_def
  by (intro conjI exI [of _ i] exI [of _ "Verifier ''v''"] exI [of _ "''r''"] exI [of _ "''s''"])
    (simp_all add: chunk_new_def contribution_new_verifier_def initial_chunk_def)

lemma initial_chunk_lock:
  "acquire_lock (initial_chunk i) (Contributor a) 2 =
     (Inr (), (initial_chunk i)\<lparr>lock_holder := Some (Contributor a)\<rparr>)"
  by (simp add: acquire_lock_def chunk_is_complete_def initial_chunk_def current_contribution_def
      current_contribution_id_def get_contribution_def)

text \<open>
  Every chunk that the coordinator can reach from a new one (by locking, contributing at
  the next ID, verifying the current contribution, releasing a lock and removing contributions)
  is well-formed: contributions numbered from 0 without a gap, at most the last one unverified,
  no contributor twice, and a contributor's lock held only while the chunk is verified and open.
\<close>

theorem chunk_reachable_wf:
  assumes "chunk_init e c" "(chunk_step e)\<^sup>*\<^sup>* c c'"
  shows "chunk_wf e c'"
  using assms by (rule chunk.inv_reachable)

theorem chunk_reachable_wf_witness:
  "chunk_wf 2 ((initial_chunk 0)\<lparr>lock_holder := Some (Contributor ''a'')\<rparr>)"
proof (rule chunk_reachable_wf)
  show "chunk_init 2 (initial_chunk 0)" by (simp add: initial_chunk_init)
  have "chunk_step 2 (initial_chunk 0) ((initial_chunk 0)\<lparr>lock_holder := Some (Contributor ''a'')\<rparr>)"
    by (rule chunk_step.lock) (rule initial_chunk_lock)
  then show "(chunk_step 2)\<^sup>*\<^sup>* (initial_chunk 0)
      ((initial_chunk 0)\<lparr>lock_holder := Some (Contributor ''a'')\<rparr>)"
    by (rule r_into_rtranclp)
qed

text \<open>
  C25. On a well-formed chunk the operations implement the lock, contribute, verify protocol:
  each succeeds exactly when the protocol allows the step and then makes that step, and on an
  error the chunk is unchanged.
\<close>

theorem chunk_refines_protocol:
  assumes "chunk_wf e c" "is_contributor p" "is_verifier v"
  shows "(case acquire_lock c p e of
         (Inr _, c') \<Rightarrow> spec_lock e p (chunk_abs c) = Some (chunk_abs c')
       | (Inl _, c') \<Rightarrow> spec_lock e p (chunk_abs c) = None \<and> c' = c) \<and>
      (next_contribution_id c e = Inr i \<longrightarrow>
        (case add_contribution c i p l s of
           (Inr _, c') \<Rightarrow> spec_contribute p (chunk_abs c) = Some (chunk_abs c')
         | (Inl _, c') \<Rightarrow> spec_contribute p (chunk_abs c) = None \<and> c' = c)) \<and>
      (case verify_contribution c (current_contribution_id c) v l s of
         (Inr _, c') \<Rightarrow> spec_verify (chunk_abs c) = Some (chunk_abs c')
       | (Inl _, c') \<Rightarrow> spec_verify (chunk_abs c) = None \<and> c' = c)"
  by (intro conjI impI acquire_lock_refines [OF assms(1,2)] add_contribution_refines [OF assms(1,2)]
      verify_contribution_refines [OF assms(1,3)])

theorem chunk_refines_protocol_witness:
  "case acquire_lock (initial_chunk 0) (Contributor ''a'') 2 of
     (Inr _, c') \<Rightarrow> spec_lock 2 (Contributor ''a'') (chunk_abs (initial_chunk 0)) = Some (chunk_abs c')
   | (Inl _, c') \<Rightarrow> spec_lock 2 (Contributor ''a'') (chunk_abs (initial_chunk 0)) = None \<and>
       c' = initial_chunk 0"
proof -
  have "chunk_wf 2 (initial_chunk 0)"
    by (rule chunk.inv_init) (simp add: initial_chunk_init)
  from chunk_refines_protocol [OF this, of "Contributor ''a''" "Verifier ''v''"] show ?thesis by simp
qed

text \<open>
  A complete chunk is one whose contributions come from \<open>e - 1\<close> different contributors and
  are all verified; nobody can take its lock any more.
\<close>

theorem complete_chunk:
  assumes "chunk_wf e c" "chunk_is_complete c e"
  shows "length (spec_contributors (chunk_abs c)) = e - 1 \<and>
    distinct (spec_contributors (chunk_abs c)) \<and>
    (\<forall>i<e. verified_at c i) \<and>
    acquire_lock c p e = (Inl ChunkAlreadyComplete, c)"
proof -
  from assms(1) have wf: "contributions_wf e (contributions c)" by (simp add: chunk_wf_def)
  from assms(2) complete_iff [OF wf] have comp: "lock_holder c = None"
    "length (contributions c) = e" "verified_at c (length (contributions c) - 1)" by auto
  have "verified_at c i" if "i < e" for i
  proof -
    obtain k where k: "map_of (contributions c) i = Some k"
      using contributions_wf_lookup [OF wf, of i] comp(2) \<open>i < e\<close> by blast
    then have "(i, k) \<in> set (contributions c)" by (rule map_of_SomeD)
    with all_verified_iff_last [OF wf] comp(3) k show ?thesis by (auto simp: verified_at_def)
  qed
  with comp assms(2) abs_length [OF wf] abs_distinct [OF wf] show ?thesis
    by (auto simp: acquire_lock_def)
qed

theorem complete_chunk_witness:
  "verified_at (initial_chunk 0) 0 \<and>
   acquire_lock (initial_chunk 0) (Contributor ''a'') 1 = (Inl ChunkAlreadyComplete, initial_chunk 0)"
proof -
  have "chunk_wf 1 (initial_chunk 0)" by (rule chunk.inv_init) (simp add: initial_chunk_init)
  moreover have "chunk_is_complete (initial_chunk 0) 1"
    by (simp add: chunk_is_complete_def initial_chunk_def)
  ultimately show ?thesis using complete_chunk [of 1 "initial_chunk 0" "Contributor ''a''"] by simp
qed

end
