(* ===== verification/Participant_Info.thy ===== *)
theory Participant_Info
  imports Coordinator_Error
begin

text \<open>
  \<^verbatim>\<open>phase1-coordinator/src/coordinator_state.rs\<close>, \<^verbatim>\<open>ChunkLock\<close> and
  \<^verbatim>\<open>ParticipantInfo\<close>: what the coordinator knows of a participant of the current or the
  next round. Its tasks move from assigned to pending to completed, or back; a lock on a chunk
  is held while its task is pending. \<open>now\<close> is what the time source returns during the call.
\<close>

record ChunkLock =
  lock_chunk_id :: u64
  lock_time :: OffsetDateTime

definition chunk_lock_new :: "u64 \<Rightarrow> OffsetDateTime \<Rightarrow> ChunkLock" where
  "chunk_lock_new c now = \<lparr>lock_chunk_id = c, lock_time = now\<rparr>"

record ParticipantInfo =
  pi_id :: Participant
  round_height :: u64
  reliability :: u8
  bucket_id :: u64
  first_seen :: OffsetDateTime
  last_seen :: OffsetDateTime
  started_at :: "OffsetDateTime option"
  finished_at :: "OffsetDateTime option"
  dropped_at :: "OffsetDateTime option"
  locked_chunks :: "(u64, ChunkLock) hashmap"
  assigned_tasks :: "Task list"
  pending_tasks :: "Task list"
  completed_tasks :: "Task list"
  disposing_tasks :: "Task list"
  disposed_tasks :: "Task list"

text \<open>\<^verbatim>\<open>impl PartialEq for ParticipantInfo\<close>: equality of the printed identifiers.\<close>

definition pi_eq :: "ParticipantInfo \<Rightarrow> ParticipantInfo \<Rightarrow> bool" where
  "pi_eq self other = (participant_to_string (pi_id self) = participant_to_string (pi_id other))"

definition pi_new ::
  "Participant \<Rightarrow> u64 \<Rightarrow> u8 \<Rightarrow> u64 \<Rightarrow> OffsetDateTime \<Rightarrow> ParticipantInfo" where
  "pi_new participant height rel bucket now =
     \<lparr>pi_id = participant, round_height = height, reliability = rel, bucket_id = bucket,
      first_seen = now, last_seen = now, started_at = None, finished_at = None,
      dropped_at = None, locked_chunks = [], assigned_tasks = [], pending_tasks = [],
      completed_tasks = [], disposing_tasks = [], disposed_tasks = []\<rparr>"

definition pi_is_finished :: "ParticipantInfo \<Rightarrow> bool" where
  "pi_is_finished self =
     (if started_at self = None then False
      else if dropped_at self \<noteq> None then False
      else if locked_chunks self \<noteq> [] then False
      else if assigned_tasks self \<noteq> [] then False
      else if pending_tasks self \<noteq> [] then False
      else if disposing_tasks self \<noteq> [] then False
      else if is_contributor (pi_id self) \<and> completed_tasks self = [] then False
      else finished_at self \<noteq> None)"

definition pi_is_dropped :: "ParticipantInfo \<Rightarrow> bool" where
  "pi_is_dropped self = (if pi_is_finished self then False else dropped_at self \<noteq> None)"

definition pi_clear_tasks :: "ParticipantInfo \<Rightarrow> ParticipantInfo" where
  "pi_clear_tasks self =
     self\<lparr>pending_tasks := [], assigned_tasks := [], completed_tasks := [],
          disposing_tasks := [], disposed_tasks := []\<rparr>"

definition pi_clear_locks :: "ParticipantInfo \<Rightarrow> ParticipantInfo" where
  "pi_clear_locks self = self\<lparr>locked_chunks := []\<rparr>"

definition pi_clear_round_times :: "ParticipantInfo \<Rightarrow> ParticipantInfo" where
  "pi_clear_round_times self = self\<lparr>started_at := None, dropped_at := None, finished_at := None\<rparr>"

definition pi_start :: "ParticipantInfo \<Rightarrow> Task list \<Rightarrow> OffsetDateTime \<Rightarrow> (unit, ParticipantInfo) fallible" where
  "pi_start self tasks now =
     (if round_height self = 0 then (Inl ParticipantRoundHeightInvalid, self)
      else if started_at self \<noteq> None \<or> dropped_at self \<noteq> None \<or> finished_at self \<noteq> None
      then (Inl ParticipantAlreadyStarted, self)
      else if locked_chunks self \<noteq> [] then (Inl ParticipantAlreadyHasLockedChunks, self)
      else if assigned_tasks self \<noteq> [] then (Inl ParticipantHasAssignedTasks, self)
      else if pending_tasks self \<noteq> [] then (Inl ParticipantHasRemainingTasks, self)
      else if completed_tasks self \<noteq> [] then (Inl ParticipantAlreadyStarted, self)
      else if disposing_tasks self \<noteq> [] then (Inl ParticipantAlreadyStarted, self)
      else if disposed_tasks self \<noteq> [] then (Inl ParticipantAlreadyStarted, self)
      else (Inr (), self\<lparr>last_seen := now, started_at := Some now, assigned_tasks := tasks\<rparr>))"

definition pi_restart_tasks ::
  "ParticipantInfo \<Rightarrow> Task list \<Rightarrow> OffsetDateTime \<Rightarrow> (unit, ParticipantInfo) fallible" where
  "pi_restart_tasks self tasks now =
     pi_start (pi_clear_round_times (pi_clear_locks (pi_clear_tasks self))) tasks now"

text \<open>
  The three checks that open every operation of a running participant: it has started, and it
  was neither dropped nor has it finished.
\<close>

definition if_active ::
  "ParticipantInfo \<Rightarrow> ('a, ParticipantInfo) fallible \<Rightarrow> ('a, ParticipantInfo) fallible" where
  "if_active self body =
     (if started_at self = None then (Inl ParticipantHasNotStarted, self)
      else if dropped_at self \<noteq> None then (Inl ParticipantWasDropped, self)
      else if finished_at self \<noteq> None then (Inl ParticipantAlreadyFinished, self)
      else body)"

definition pi_push_front_task ::
  "ParticipantInfo \<Rightarrow> Task \<Rightarrow> OffsetDateTime \<Rightarrow> (unit, ParticipantInfo) fallible" where
  "pi_push_front_task self task now = if_active self
     (if is_contributor (pi_id self) \<and> hm_contains (locked_chunks self) (chunk_id task)
      then (Inl (ParticipantAlreadyWorkingOnChunk (chunk_id task)), self)
      else if task \<in> set (assigned_tasks self) then (Inl ParticipantAlreadyAddedChunk, self)
      else if task \<in> set (pending_tasks self)
      then (Inl (ParticipantAlreadyWorkingOnChunk (chunk_id task)), self)
      else if task \<in> set (completed_tasks self)
      then (Inl (ParticipantAlreadyFinishedChunk (chunk_id task)), self)
      else (Inr (), self\<lparr>last_seen := now, assigned_tasks := task # assigned_tasks self\<rparr>))"

definition pi_pop_task :: "ParticipantInfo \<Rightarrow> OffsetDateTime \<Rightarrow> (Task, ParticipantInfo) fallible" where
  "pi_pop_task self now = if_active self
     (case assigned_tasks self of
        [] \<Rightarrow> (Inl ParticipantHasNoRemainingTasks, self)
      | task # rest \<Rightarrow>
          (Inr task, self\<lparr>last_seen := now, assigned_tasks := rest,
                          pending_tasks := pending_tasks self @ [task]\<rparr>))"

definition pi_acquired_lock ::
  "ParticipantInfo \<Rightarrow> u64 \<Rightarrow> OffsetDateTime \<Rightarrow> (unit, ParticipantInfo) fallible" where
  "pi_acquired_lock self c now = if_active self
     (if hm_contains (locked_chunks self) c then (Inl ParticipantAlreadyHasLockedChunk, self)
      else if is_contributor (pi_id self) \<and>
              length (filter (\<lambda>t. task_contains t c) (pending_tasks self)) = 0
      then (Inl (ParticipantUnauthorizedForChunkId c), self)
      else if is_contributor (pi_id self) \<and>
              0 < length (filter (\<lambda>t. task_contains t c) (completed_tasks self))
      then (Inl (ParticipantAlreadyFinishedChunk c), self)
      else (Inr (), self\<lparr>last_seen := now,
                         locked_chunks := hm_insert c (chunk_lock_new c now) (locked_chunks self)\<rparr>))"

definition pi_rollback_locked_task ::
  "ParticipantInfo \<Rightarrow> Task \<Rightarrow> OffsetDateTime \<Rightarrow> (unit, ParticipantInfo) fallible" where
  "pi_rollback_locked_task self task now = if_active self
     (if \<not> hm_contains (locked_chunks self) (chunk_id task)
      then (Inl ChunkNotLockedOrByWrongParticipant, self)
      else if is_contributor (pi_id self) \<and>
              length (filter (\<lambda>t. task_contains t (chunk_id task)) (pending_tasks self)) = 0
      then (Inl (ParticipantUnauthorizedForChunkId (chunk_id task)), self)
      else if is_contributor (pi_id self) \<and>
              0 < length (filter (\<lambda>t. task_contains t (chunk_id task)) (completed_tasks self))
      then (Inl (ParticipantAlreadyFinishedChunk (chunk_id task)), self)
      else pi_push_front_task
             (self\<lparr>last_seen := now,
                   locked_chunks := hm_remove (chunk_id task) (locked_chunks self),
                   pending_tasks := filter (\<lambda>t. t \<noteq> task) (pending_tasks self)\<rparr>) task now)"

definition pi_rollback_pending_task ::
  "ParticipantInfo \<Rightarrow> Task \<Rightarrow> OffsetDateTime \<Rightarrow> (unit, ParticipantInfo) fallible" where
  "pi_rollback_pending_task self task now = if_active self
     (if hm_contains (locked_chunks self) (chunk_id task)
      then (Inl ParticipantAlreadyHasLockedChunk, self)
      else if is_contributor (pi_id self) \<and>
              length (filter (\<lambda>t. task_contains t (chunk_id task)) (pending_tasks self)) = 0
      then (Inl (ParticipantUnauthorizedForChunkId (chunk_id task)), self)
      else if is_contributor (pi_id self) \<and>
              0 < length (filter (\<lambda>t. task_contains t (chunk_id task)) (completed_tasks self))
      then (Inl (ParticipantAlreadyFinishedChunk (chunk_id task)), self)
      else pi_push_front_task
             (self\<lparr>last_seen := now,
                   pending_tasks := filter (\<lambda>t. t \<noteq> task) (pending_tasks self)\<rparr>) task now)"

definition pi_completed_task ::
  "ParticipantInfo \<Rightarrow> Task \<Rightarrow> OffsetDateTime \<Rightarrow> (unit, ParticipantInfo) fallible" where
  "pi_completed_task self task now = if_active self
     (if \<not> hm_contains (locked_chunks self) (chunk_id task)
      then (Inl ParticipantDidntLockChunkId, self)
      else if task \<in> set (assigned_tasks self) then (Inl ParticipantStillHasTaskAsAssigned, self)
      else if task \<notin> set (pending_tasks self)
      then (Inl (ParticipantMissingPendingTask task), self)
      else if task \<in> set (completed_tasks self)
      then (Inl (ParticipantAlreadyFinishedTask task), self)
      else if is_contributor (pi_id self) \<and>
              0 < length (filter (\<lambda>t. task_contains t (chunk_id task)) (completed_tasks self))
      then (Inl (ParticipantAlreadyFinishedChunk (chunk_id task)), self)
      else (Inr (), self\<lparr>last_seen := now,
                         locked_chunks := hm_remove (chunk_id task) (locked_chunks self),
                         pending_tasks := filter (\<lambda>t. t \<noteq> task) (pending_tasks self),
                         completed_tasks := completed_tasks self @ [task]\<rparr>))"

definition pi_dispose_task ::
  "ParticipantInfo \<Rightarrow> u64 \<Rightarrow> u64 \<Rightarrow> OffsetDateTime \<Rightarrow> (unit, ParticipantInfo) fallible" where
  "pi_dispose_task self c i now =
     (let task = new_task c i in if_active self
       (if \<not> hm_contains (locked_chunks self) c then (Inl ParticipantDidntLockChunkId, self)
        else if task \<notin> set (disposing_tasks self)
        then (Inl ParticipantMissingDisposingTask, self)
        else (Inr (), self\<lparr>last_seen := now,
                           locked_chunks := hm_remove c (locked_chunks self),
                           disposing_tasks := filter (\<lambda>t. t \<noteq> task) (disposing_tasks self),
                           disposed_tasks := disposed_tasks self @ [task]\<rparr>)))"

definition pi_drop :: "ParticipantInfo \<Rightarrow> OffsetDateTime \<Rightarrow> (unit, ParticipantInfo) fallible" where
  "pi_drop self now =
     (if dropped_at self \<noteq> None then (Inl ParticipantAlreadyDropped, self)
      else if finished_at self \<noteq> None then (Inl ParticipantAlreadyFinished, self)
      else (Inr (), self\<lparr>dropped_at := Some now\<rparr>))"

definition pi_finish :: "ParticipantInfo \<Rightarrow> OffsetDateTime \<Rightarrow> (unit, ParticipantInfo) fallible" where
  "pi_finish self now = if_active self
     (if locked_chunks self \<noteq> [] then (Inl ParticipantStillHasLocks, self)
      else if assigned_tasks self \<noteq> [] then (Inl ParticipantHasRemainingTasks, self)
      else if pending_tasks self \<noteq> [] then (Inl ParticipantHasRemainingTasks, self)
      else if is_contributor (pi_id self) \<and> completed_tasks self = []
      then (Inl ParticipantDidNotDoWork, self)
      else if disposing_tasks self \<noteq> [] then (Inl ParticipantHasRemainingTasks, self)
      else (Inr (), self\<lparr>last_seen := now, finished_at := Some now\<rparr>))"

definition pi_reset :: "ParticipantInfo \<Rightarrow> OffsetDateTime \<Rightarrow> ParticipantInfo" where
  "pi_reset self now = pi_new (pi_id self) (round_height self) (reliability self) 0 now"

text \<open>
  The invariant of a contributor: one task per chunk among those assigned, pending and
  completed; every lock is on the chunk of a pending task, and the map of locks is sound; a
  finished contributor has nothing left to do.
\<close>

definition open_tasks :: "ParticipantInfo \<Rightarrow> Task list" where
  "open_tasks p = assigned_tasks p @ pending_tasks p @ completed_tasks p"

definition locks_wf :: "ParticipantInfo \<Rightarrow> bool" where
  "locks_wf p \<longleftrightarrow>
     distinct (map fst (locked_chunks p)) \<and>
     (\<forall>c l. map_of (locked_chunks p) c = Some l \<longrightarrow> lock_chunk_id l = c) \<and>
     set (map fst (locked_chunks p)) \<subseteq> chunk_id ` set (pending_tasks p)"

definition info_wf :: "ParticipantInfo \<Rightarrow> bool" where
  "info_wf p \<longleftrightarrow>
     is_contributor (pi_id p) \<and>
     distinct (map chunk_id (open_tasks p)) \<and>
     locks_wf p \<and>
     (finished_at p \<noteq> None \<longrightarrow> pi_is_finished p) \<and>
     (started_at p = None \<longrightarrow> open_tasks p = [] \<and> finished_at p = None)"

text \<open>What the coordinator does with a contributor between the start and the end of its round.\<close>

inductive info_step :: "ParticipantInfo \<Rightarrow> ParticipantInfo \<Rightarrow> bool" where
  pop: "pi_pop_task p now = (Inr t, p') \<Longrightarrow> info_step p p'"
| acquire: "pi_acquired_lock p c now = (Inr (), p') \<Longrightarrow> info_step p p'"
| complete: "pi_completed_task p t now = (Inr (), p') \<Longrightarrow> info_step p p'"
| rollback_pending: "t \<in> set (pending_tasks p) \<Longrightarrow>
     pi_rollback_pending_task p t now = (Inr (), p') \<Longrightarrow> info_step p p'"
| rollback_locked: "t \<in> set (pending_tasks p) \<Longrightarrow>
     pi_rollback_locked_task p t now = (Inr (), p') \<Longrightarrow> info_step p p'"
| finish: "pi_finish p now = (Inr (), p') \<Longrightarrow> info_step p p'"
| drop: "pi_drop p now = (Inr (), p') \<Longrightarrow> info_step p p'"

definition info_init :: "Task list \<Rightarrow> ParticipantInfo \<Rightarrow> bool" where
  "info_init tasks p \<longleftrightarrow> distinct (map chunk_id tasks) \<and>
     (\<exists>q h r b t0 now. is_contributor q \<and> pi_start (pi_new q h r b t0) tasks now = (Inr (), p))"

section \<open>Outcomes of the operations\<close>

lemma if_active_ok_iff:
  "if_active self body = (Inr a, s) \<longleftrightarrow>
     started_at self \<noteq> None \<and> dropped_at self = None \<and> finished_at self = None \<and> body = (Inr a, s)"
  by (auto simp: if_active_def)

lemma count_tasks_zero [simp]:
  "filter (\<lambda>t. task_contains t c) ts = [] \<longleftrightarrow> c \<notin> chunk_id ` set ts"
  by (auto simp: filter_empty_conv task_contains_def)

lemma pi_pop_task_ok:
  assumes "pi_pop_task p now = (Inr t, p')"
  obtains rest where "assigned_tasks p = t # rest" "finished_at p = None" "started_at p \<noteq> None"
    "p' = p\<lparr>last_seen := now, assigned_tasks := rest, pending_tasks := pending_tasks p @ [t]\<rparr>"
  using assms by (auto simp: pi_pop_task_def if_active_ok_iff split: list.splits)

lemma pi_acquired_lock_ok:
  assumes "pi_acquired_lock p c now = (Inr (), p')" "is_contributor (pi_id p)"
  shows "c \<in> chunk_id ` set (pending_tasks p)" "finished_at p = None" "started_at p \<noteq> None"
    "p' = p\<lparr>last_seen := now,
       locked_chunks := AList.update c (chunk_lock_new c now) (locked_chunks p)\<rparr>"
  using assms by (auto simp: pi_acquired_lock_def if_active_ok_iff split: if_splits)

lemma pi_completed_task_ok:
  assumes "pi_completed_task p t now = (Inr (), p')"
  shows "t \<in> set (pending_tasks p)" "finished_at p = None" "started_at p \<noteq> None"
    "p' = p\<lparr>last_seen := now, locked_chunks := AList.delete (chunk_id t) (locked_chunks p),
       pending_tasks := filter (\<lambda>u. u \<noteq> t) (pending_tasks p),
       completed_tasks := completed_tasks p @ [t]\<rparr>"
  using assms by (auto simp: pi_completed_task_def if_active_ok_iff split: if_splits)

lemma pi_push_front_task_ok:
  assumes "pi_push_front_task p t now = (Inr (), p')"
  shows "finished_at p = None" "started_at p \<noteq> None"
    "p' = p\<lparr>last_seen := now, assigned_tasks := t # assigned_tasks p\<rparr>"
  using assms by (auto simp: pi_push_front_task_def if_active_ok_iff split: if_splits)

lemma pi_rollback_pending_task_ok:
  assumes "pi_rollback_pending_task p t now = (Inr (), p')"
  shows "chunk_id t \<notin> set (map fst (locked_chunks p))" "finished_at p = None" "started_at p \<noteq> None"
    "p' = p\<lparr>last_seen := now, pending_tasks := filter (\<lambda>u. u \<noteq> t) (pending_tasks p),
       assigned_tasks := t # assigned_tasks p\<rparr>"
  using assms
  by (auto simp: pi_rollback_pending_task_def if_active_ok_iff split: if_splits
      dest!: pi_push_front_task_ok)

lemma pi_rollback_locked_task_ok:
  assumes "pi_rollback_locked_task p t now = (Inr (), p')"
  shows "chunk_id t \<in> set (map fst (locked_chunks p))" "finished_at p = None" "started_at p \<noteq> None"
    "p' = p\<lparr>last_seen := now, locked_chunks := AList.delete (chunk_id t) (locked_chunks p),
       pending_tasks := filter (\<lambda>u. u \<noteq> t) (pending_tasks p),
       assigned_tasks := t # assigned_tasks p\<rparr>"
  using assms
  by (auto simp: pi_rollback_locked_task_def if_active_ok_iff split: if_splits
      dest!: pi_push_front_task_ok)

lemma pi_finish_ok:
  assumes "pi_finish p now = (Inr (), p')"
  shows "assigned_tasks p = []" "pending_tasks p = []" "locked_chunks p = []"
    "disposing_tasks p = []" "started_at p \<noteq> None" "dropped_at p = None"
    "is_contributor (pi_id p) \<Longrightarrow> completed_tasks p \<noteq> []"
    "p' = p\<lparr>last_seen := now, finished_at := Some now\<rparr>"
  using assms by (auto simp: pi_finish_def if_active_ok_iff split: if_splits)

lemma pi_drop_ok:
  assumes "pi_drop p now = (Inr (), p')"
  shows "finished_at p = None" "p' = p\<lparr>dropped_at := Some now\<rparr>"
  using assms by (auto simp: pi_drop_def split: if_splits)

lemma pi_start_ok:
  assumes "pi_start p tasks now = (Inr (), p')"
  shows "p' = p\<lparr>last_seen := now, started_at := Some now, assigned_tasks := tasks\<rparr>"
    "round_height p \<noteq> 0" "finished_at p = None" "pending_tasks p = []" "completed_tasks p = []"
    "locked_chunks p = []" "disposing_tasks p = []" "disposed_tasks p = []" "dropped_at p = None"
  using assms by (auto simp: pi_start_def split: if_splits)

lemma pi_start_new:
  "0 < h \<Longrightarrow> pi_start (pi_new q h r b t0) tasks now =
     (Inr (), (pi_new q h r b t0)\<lparr>last_seen := now, started_at := Some now, assigned_tasks := tasks\<rparr>)"
  by (simp add: pi_start_def pi_new_def)

text \<open>A call that returns an error leaves the participant as it was.\<close>

lemma pi_pop_task_err: "pi_pop_task p now = (Inl e, p') \<Longrightarrow> p' = p"
  by (auto simp: pi_pop_task_def if_active_def split: if_splits list.splits)

lemma pi_acquired_lock_err: "pi_acquired_lock p c now = (Inl e, p') \<Longrightarrow> p' = p"
  by (auto simp: pi_acquired_lock_def if_active_def split: if_splits)

lemma pi_completed_task_err: "pi_completed_task p t now = (Inl e, p') \<Longrightarrow> p' = p"
  by (auto simp: pi_completed_task_def if_active_def split: if_splits)

lemma pi_dispose_task_err: "pi_dispose_task p c i now = (Inl e, p') \<Longrightarrow> p' = p"
  by (auto simp: pi_dispose_task_def if_active_def Let_def split: if_splits)

lemma pi_dispose_task_ok:
  assumes "pi_dispose_task p c i now = (Inr (), p')"
  shows "p' = p\<lparr>last_seen := now, locked_chunks := AList.delete c (locked_chunks p),
    disposing_tasks := filter (\<lambda>t. t \<noteq> new_task c i) (disposing_tasks p),
    disposed_tasks := disposed_tasks p @ [new_task c i]\<rparr>"
  using assms by (auto simp: pi_dispose_task_def if_active_ok_iff Let_def split: if_splits)

lemma pi_rollback_pending_task_err:
  assumes "pi_rollback_pending_task p t now = (Inl e, p')" "t \<in> set (pending_tasks p)" "distinct (open_tasks p)"
  shows "p' = p"
  using assms
  by (auto simp: pi_rollback_pending_task_def pi_push_front_task_def if_active_def open_tasks_def
      split: if_splits)

lemma pi_rollback_locked_task_err:
  assumes "pi_rollback_locked_task p t now = (Inl e, p')" "t \<in> set (pending_tasks p)" "distinct (open_tasks p)"
  shows "p' = p"
  using assms
  by (auto simp: pi_rollback_locked_task_def pi_push_front_task_def if_active_def open_tasks_def
      keys_delete [simplified] split: if_splits)

section \<open>Tasks are moved, never lost or duplicated\<close>

lemma mset_filter_neq:
  assumes "distinct xs" "x \<in> set xs"
  shows "add_mset x (mset (filter (\<lambda>y. y \<noteq> x) xs)) = mset xs"
proof -
  have "filter (\<lambda>y. y \<noteq> x) xs = remove1 x xs"
    using distinct_remove1_removeAll [OF assms(1)] by (simp add: removeAll_filter_not_eq eq_commute)
  then show ?thesis using assms(2) by simp
qed

lemma info_wf_distinct:
  assumes "info_wf p"
  shows "distinct (open_tasks p)" "distinct (pending_tasks p)"
    "distinct (map chunk_id (open_tasks p))" "is_contributor (pi_id p)"
proof -
  from assms show d: "distinct (map chunk_id (open_tasks p))" and "is_contributor (pi_id p)"
    by (auto simp: info_wf_def)
  from d show "distinct (open_tasks p)" by (simp add: distinct_map)
  then show "distinct (pending_tasks p)" by (simp add: open_tasks_def)
qed

lemma info_step_moves_tasks:
  assumes "info_step p p'" "is_contributor (pi_id p)" "distinct (pending_tasks p)"
  shows "mset (open_tasks p') = mset (open_tasks p)"
  using assms(1)
proof cases
  case (pop now t)
  then obtain rest where "assigned_tasks p = t # rest"
    "p' = p\<lparr>last_seen := now, assigned_tasks := rest, pending_tasks := pending_tasks p @ [t]\<rparr>"
    by (rule pi_pop_task_ok)
  then show ?thesis by (simp add: open_tasks_def)
next
  case (acquire c now)
  from pi_acquired_lock_ok(4) [OF acquire assms(2)]
  show ?thesis by (simp add: open_tasks_def)
next
  case (complete t now)
  from pi_completed_task_ok(4) [OF complete]
    mset_filter_neq [OF assms(3) pi_completed_task_ok(1) [OF complete], symmetric]
  show ?thesis by (simp add: open_tasks_def)
next
  case (rollback_pending t now)
  from pi_rollback_pending_task_ok(4) [OF rollback_pending(2)]
    mset_filter_neq [OF assms(3) rollback_pending(1), symmetric]
  show ?thesis by (simp add: open_tasks_def)
next
  case (rollback_locked t now)
  from pi_rollback_locked_task_ok(4) [OF rollback_locked(2)]
    mset_filter_neq [OF assms(3) rollback_locked(1), symmetric]
  show ?thesis by (simp add: open_tasks_def)
next
  case (finish now)
  from pi_finish_ok(8) [OF finish] show ?thesis by (simp add: open_tasks_def)
next
  case (drop now)
  from pi_drop_ok(2) [OF drop] show ?thesis by (simp add: open_tasks_def)
qed

lemma info_step_conserves:
  assumes "info_step p p'" "info_wf p"
  shows "mset (open_tasks p') = mset (open_tasks p)"
  using info_step_moves_tasks [OF assms(1)] info_wf_distinct [OF assms(2)] by simp

lemma locks_wf_release:
  assumes "locks_wf p"
  shows "locks_wf (p\<lparr>last_seen := now, locked_chunks := AList.delete (chunk_id t) (locked_chunks p),
    pending_tasks := filter (\<lambda>u. u \<noteq> t) (pending_tasks p)\<rparr>)"
  using assms unfolding locks_wf_def
  by (auto simp: distinct_delete delete_conv' keys_delete [simplified] split: if_splits)

lemma locks_wf_keep:
  assumes "locks_wf p" "chunk_id t \<notin> set (map fst (locked_chunks p))"
  shows "locks_wf (p\<lparr>last_seen := now, pending_tasks := filter (\<lambda>u. u \<noteq> t) (pending_tasks p)\<rparr>)"
proof -
  have "chunk_id ` (set (pending_tasks p) - {t}) \<supseteq> set (map fst (locked_chunks p))"
    using assms unfolding locks_wf_def by blast
  then show ?thesis using assms(1) by (simp add: locks_wf_def set_diff_eq)
qed

lemma locks_wf_acquire:
  assumes "locks_wf p" "c \<in> chunk_id ` set (pending_tasks p)"
  shows "locks_wf (p\<lparr>last_seen := now,
    locked_chunks := AList.update c (chunk_lock_new c now) (locked_chunks p)\<rparr>)"
  using assms unfolding locks_wf_def
  by (auto simp: distinct_update update_conv' chunk_lock_new_def keys_update [simplified] split: if_splits)

lemma locks_wf_cong:
  "locked_chunks q = locked_chunks p \<Longrightarrow> set (pending_tasks p) \<subseteq> set (pending_tasks q) \<Longrightarrow>
   locks_wf p \<Longrightarrow> locks_wf q"
  unfolding locks_wf_def by (metis image_mono subset_trans)

lemma info_step_locks:
  assumes "info_step p p'" "info_wf p" "locks_wf p"
  shows "locks_wf p'"
  using assms(1)
proof cases
  case (pop now t)
  then show ?thesis
    by (rule pi_pop_task_ok) (rule locks_wf_cong [OF _ _ assms(3)], auto)
next
  case (acquire c now)
  from pi_acquired_lock_ok [OF acquire info_wf_distinct(4) [OF assms(2)]] locks_wf_acquire [OF assms(3)]
  show ?thesis by simp
next
  case (complete t now)
  show ?thesis
    by (rule locks_wf_cong [OF _ _ locks_wf_release [OF assms(3), where t = t and now = now]])
      (simp_all add: pi_completed_task_ok(4) [OF complete])
next
  case (rollback_pending t now)
  from pi_rollback_pending_task_ok(1) [OF rollback_pending(2)]
  have locks: "chunk_id t \<notin> set (map fst (locked_chunks p))" .
  show ?thesis
    by (rule locks_wf_cong [OF _ _ locks_wf_keep [OF assms(3) locks, where now = now]])
      (simp_all add: pi_rollback_pending_task_ok(4) [OF rollback_pending(2)])
next
  case (rollback_locked t now)
  show ?thesis
    by (rule locks_wf_cong [OF _ _ locks_wf_release [OF assms(3), where t = t and now = now]])
      (simp_all add: pi_rollback_locked_task_ok(4) [OF rollback_locked(2)])
next
  case (finish now)
  show ?thesis
    by (rule locks_wf_cong [OF _ _ assms(3)]) (simp_all add: pi_finish_ok(8) [OF finish])
next
  case (drop now)
  show ?thesis
    by (rule locks_wf_cong [OF _ _ assms(3)]) (simp_all add: pi_drop_ok(2) [OF drop])
qed

lemma info_step_started:
  assumes "info_step p p'" "info_wf p"
  shows "started_at p' = started_at p" "finished_at p' \<noteq> None \<longrightarrow> pi_is_finished p'"
proof -
  have "started_at p' = started_at p \<and> (finished_at p' \<noteq> None \<longrightarrow> pi_is_finished p')"
    using assms(1)
  proof cases
    case (pop now t)
    then show ?thesis by (rule pi_pop_task_ok) simp
  next
    case (acquire c now)
    from pi_acquired_lock_ok [OF acquire info_wf_distinct(4) [OF assms(2)]] show ?thesis by simp
  next
    case (complete t now)
    from pi_completed_task_ok [OF complete] show ?thesis by simp
  next
    case (rollback_pending t now)
    from pi_rollback_pending_task_ok [OF rollback_pending(2)] show ?thesis by simp
  next
    case (rollback_locked t now)
    from pi_rollback_locked_task_ok [OF rollback_locked(2)] show ?thesis by simp
  next
    case (finish now)
    from pi_finish_ok [OF finish] show ?thesis by (simp add: pi_is_finished_def)
  next
    case (drop now)
    from pi_drop_ok [OF drop] show ?thesis by simp
  qed
  then show "started_at p' = started_at p" "finished_at p' \<noteq> None \<longrightarrow> pi_is_finished p'" by simp_all
qed

lemma info_step_frame:
  assumes "info_step p p'" "is_contributor (pi_id p)"
  shows "pi_id p' = pi_id p" "bucket_id p' = bucket_id p"
proof -
  have "pi_id p' = pi_id p \<and> bucket_id p' = bucket_id p"
    using assms(1)
  proof cases
    case (pop now t)
    then show ?thesis by (rule pi_pop_task_ok) simp
  next
    case (acquire c now)
    from pi_acquired_lock_ok [OF acquire assms(2)] show ?thesis by simp
  qed (auto dest: pi_completed_task_ok(4) pi_rollback_pending_task_ok(4) pi_rollback_locked_task_ok(4)
      pi_finish_ok(8) pi_drop_ok(2))
  then show "pi_id p' = pi_id p" "bucket_id p' = bucket_id p" by simp_all
qed

lemma info_step_id:
  assumes "info_step p p'" "info_wf p"
  shows "pi_id p' = pi_id p"
  using info_step_frame(1) [OF assms(1)] assms(2) by (simp add: info_wf_def)

lemma info_step_wf:
  assumes "info_wf p" "info_step p p'"
  shows "info_wf p'"
proof -
  from info_step_conserves [OF assms(2,1)]
  have same: "mset (open_tasks p') = mset (open_tasks p)" .
  then have "mset (map chunk_id (open_tasks p')) = mset (map chunk_id (open_tasks p))" by simp
  then have "distinct (map chunk_id (open_tasks p'))"
    using info_wf_distinct(3) [OF assms(1)] mset_eq_imp_distinct_iff by blast
  moreover from same have "open_tasks p' = [] \<longleftrightarrow> open_tasks p = []"
    by (metis mset_zero_iff)
  moreover have "finished_at p' = None" if "started_at p' = None"
    using info_step_started [OF assms(2,1)] that by (auto simp: pi_is_finished_def)
  ultimately show ?thesis
    using assms(1) info_step_locks [OF assms(2,1)] info_step_started [OF assms(2,1)]
      info_step_id [OF assms(2,1)]
    by (simp add: info_wf_def)
qed

lemma info_init_wf:
  assumes "info_init tasks p"
  shows "info_wf p" "open_tasks p = tasks"
  using assms
  by (auto simp: info_init_def info_wf_def locks_wf_def open_tasks_def pi_new_def dest!: pi_start_ok(1))

interpretation info: invariant_system "info_init tasks" info_step
  "\<lambda>p. info_wf p \<and> mset (open_tasks p) = mset tasks" for tasks
  by unfold_locales (auto simp: info_init_wf info_step_wf info_step_conserves)

section \<open>A running contributor can always finish\<close>

definition info_active :: "ParticipantInfo \<Rightarrow> bool" where
  "info_active p \<longleftrightarrow> info_wf p \<and> started_at p \<noteq> None \<and> dropped_at p = None \<and> finished_at p = None \<and>
     disposing_tasks p = []"

lemma if_active_active: "info_active p \<Longrightarrow> if_active p body = body"
  by (auto simp: info_active_def if_active_def)

lemma pending_elsewhere:
  assumes "info_wf p" "t \<in> set (pending_tasks p)"
  shows "t \<notin> set (assigned_tasks p)" "chunk_id t \<notin> chunk_id ` set (assigned_tasks p)"
    "t \<notin> set (completed_tasks p)" "chunk_id t \<notin> chunk_id ` set (completed_tasks p)"
  using assms by (auto simp: info_wf_def open_tasks_def)

lemma pop_enabled:
  assumes "info_active p" "assigned_tasks p = t # rest"
  shows "pi_pop_task p now =
    (Inr t, p\<lparr>last_seen := now, assigned_tasks := rest, pending_tasks := pending_tasks p @ [t]\<rparr>)"
  using assms by (simp add: pi_pop_task_def if_active_active)

lemma acquire_enabled:
  assumes "info_active p" "t \<in> set (pending_tasks p)" "chunk_id t \<notin> set (map fst (locked_chunks p))"
  shows "pi_acquired_lock p (chunk_id t) now = (Inr (), p\<lparr>last_seen := now,
    locked_chunks := AList.update (chunk_id t) (chunk_lock_new (chunk_id t) now) (locked_chunks p)\<rparr>)"
  using assms pending_elsewhere [OF _ assms(2)]
  by (simp add: pi_acquired_lock_def if_active_active info_active_def)

lemma complete_enabled:
  assumes "info_active p" "t \<in> set (pending_tasks p)" "chunk_id t \<in> set (map fst (locked_chunks p))"
  shows "pi_completed_task p t now = (Inr (), p\<lparr>last_seen := now,
    locked_chunks := AList.delete (chunk_id t) (locked_chunks p),
    pending_tasks := filter (\<lambda>u. u \<noteq> t) (pending_tasks p),
    completed_tasks := completed_tasks p @ [t]\<rparr>)"
  using assms pending_elsewhere [OF _ assms(2)]
  by (simp add: pi_completed_task_def if_active_active info_active_def)

lemma finish_enabled:
  assumes "info_active p" "assigned_tasks p = []" "pending_tasks p = []" "open_tasks p \<noteq> []"
  shows "pi_finish p now = (Inr (), p\<lparr>last_seen := now, finished_at := Some now\<rparr>)"
proof -
  from assms have "locked_chunks p = []"
    by (simp add: info_active_def info_wf_def locks_wf_def)
  with assms show ?thesis
    by (simp add: pi_finish_def if_active_active info_active_def open_tasks_def)
qed

lemma active_step:
  assumes "info_active p" "info_step p p'" "dropped_at p' = None" "finished_at p' = None"
    "disposing_tasks p' = []"
  shows "info_active p'"
  using assms info_step_wf info_step_started(1) by (auto simp: info_active_def)

text \<open>Locking, where needed, and completing the first pending task.\<close>

lemma complete_pending:
  assumes "info_active p" "t \<in> set (pending_tasks p)"
  obtains p' where "info_step\<^sup>*\<^sup>* p p'" "info_active p'" "assigned_tasks p' = assigned_tasks p"
    "pending_tasks p' = filter (\<lambda>u. u \<noteq> t) (pending_tasks p)"
    "completed_tasks p' = completed_tasks p @ [t]"
proof -
  obtain q where q: "info_step\<^sup>*\<^sup>* p q" "info_active q" "assigned_tasks q = assigned_tasks p"
    "pending_tasks q = pending_tasks p" "completed_tasks q = completed_tasks p"
    "chunk_id t \<in> set (map fst (locked_chunks q))"
  proof (cases "chunk_id t \<in> set (map fst (locked_chunks p))")
    case True
    with assms show ?thesis using that by blast
  next
    case False
    let ?q = "p\<lparr>last_seen := 0, locked_chunks :=
      AList.update (chunk_id t) (chunk_lock_new (chunk_id t) 0) (locked_chunks p)\<rparr>"
    from acquire_enabled [OF assms False] have st: "info_step p ?q" by (rule acquire)
    then have "info_active ?q" by (rule active_step [OF assms(1)]) (use assms in \<open>auto simp: info_active_def\<close>)
    with st show ?thesis by (intro that [of ?q]) (auto simp: keys_update [simplified])
  qed
  with assms(2) have t: "t \<in> set (pending_tasks q)" by simp
  let ?p = "q\<lparr>last_seen := 0, locked_chunks := AList.delete (chunk_id t) (locked_chunks q),
    pending_tasks := filter (\<lambda>u. u \<noteq> t) (pending_tasks q),
    completed_tasks := completed_tasks q @ [t]\<rparr>"
  from complete_enabled [OF q(2) t q(6)] have st: "info_step q ?p" by (rule complete)
  then have "info_active ?p" by (rule active_step [OF q(2)]) (use q(2) in \<open>auto simp: info_active_def\<close>)
  with st q show ?thesis by (intro that [of ?p]) auto
qed

lemma active_can_finish:
  assumes "info_active p" "open_tasks p \<noteq> []"
  shows "\<exists>p'. info_step\<^sup>*\<^sup>* p p' \<and> pi_is_finished p'"
  using assms
proof (induction "2 * length (assigned_tasks p) + length (pending_tasks p)"
    arbitrary: p rule: less_induct)
  case less
  show ?case
  proof (cases "pending_tasks p")
    case (Cons t ts)
    then obtain q where q: "info_step\<^sup>*\<^sup>* p q" "info_active q" "assigned_tasks q = assigned_tasks p"
      "pending_tasks q = filter (\<lambda>u. u \<noteq> t) (pending_tasks p)"
      "completed_tasks q = completed_tasks p @ [t]"
      using complete_pending [OF less.prems(1), of t] by auto
    have "length (pending_tasks q) < length (pending_tasks p)"
      unfolding q(4) by (rule length_filter_less [of t]) (simp_all add: Cons)
    with less.hyps [of q] q have "\<exists>p'. info_step\<^sup>*\<^sup>* q p' \<and> pi_is_finished p'"
      by (simp add: open_tasks_def)
    with q(1) show ?thesis by (meson rtranclp_trans)
  next
    case nothing_pending: Nil
    show ?thesis
    proof (cases "assigned_tasks p")
      case (Cons t rest)
      let ?q = "p\<lparr>last_seen := 0, assigned_tasks := rest, pending_tasks := pending_tasks p @ [t]\<rparr>"
      from pop_enabled [OF less.prems(1) Cons] have st: "info_step p ?q" by (rule pop)
      then have "info_active ?q"
        by (rule active_step [OF less.prems(1)]) (use less.prems(1) in \<open>auto simp: info_active_def\<close>)
      with less.hyps [of ?q] Cons nothing_pending
      have "\<exists>p'. info_step\<^sup>*\<^sup>* ?q p' \<and> pi_is_finished p'" by (simp add: open_tasks_def)
      with st show ?thesis by (meson converse_rtranclp_into_rtranclp)
    next
      case Nil
      let ?q = "p\<lparr>last_seen := 0, finished_at := Some 0\<rparr>"
      from finish_enabled [OF less.prems(1) Nil nothing_pending less.prems(2)]
      have st: "info_step p ?q" by (rule finish)
      then have "pi_is_finished ?q"
        using info_step_started(2) less.prems(1) by (fastforce simp: info_active_def)
      with st show ?thesis by blast
    qed
  qed
qed

section \<open>Properties\<close>

lemma info_finished_tasks:
  assumes "info_wf p" "pi_is_finished p"
  shows "open_tasks p = completed_tasks p" "locked_chunks p = []"
  using assms by (auto simp: pi_is_finished_def open_tasks_def split: if_splits)

text \<open>A contributor with two tasks that finishes.\<close>

definition demo_info :: "ParticipantInfo" where
  "demo_info = snd (pi_start (pi_new (Contributor ''a'') 1 10 0 0)
     [new_task 0 1, new_task 1 1] 5)"

definition demo_finished :: "ParticipantInfo" where
  "demo_finished = demo_info\<lparr>last_seen := 7, assigned_tasks := [],
     completed_tasks := [new_task 0 1, new_task 1 1], finished_at := Some 7\<rparr>"

lemma demo_init: "info_init [new_task 0 1, new_task 1 1] demo_info"
  unfolding info_init_def demo_info_def
  by (intro conjI exI [of _ "Contributor ''a''"] exI [of _ 1] exI [of _ 10] exI [of _ 0] exI [of _ 5])
    (simp_all add: pi_start_new)

lemma demo_steps: "info_step\<^sup>*\<^sup>* demo_info demo_finished"
proof -
  let ?t = "new_task 0 1" and ?u = "new_task 1 1"
  have d: "demo_info = (pi_new (Contributor ''a'') 1 10 0 0)
    \<lparr>last_seen := 5, started_at := Some 5, assigned_tasks := [?t, ?u]\<rparr>"
    by (simp add: demo_info_def pi_start_new)
  let ?p1 = "demo_info\<lparr>last_seen := 6, assigned_tasks := [?u], pending_tasks := [?t]\<rparr>"
  let ?p2 = "?p1\<lparr>locked_chunks := [(0, chunk_lock_new 0 6)]\<rparr>"
  let ?p3 = "demo_info\<lparr>last_seen := 6, assigned_tasks := [?u], completed_tasks := [?t]\<rparr>"
  let ?p4 = "?p3\<lparr>assigned_tasks := [], pending_tasks := [?u]\<rparr>"
  let ?p5 = "?p4\<lparr>locked_chunks := [(1, chunk_lock_new 1 6)]\<rparr>"
  let ?p6 = "?p4\<lparr>pending_tasks := [], completed_tasks := [?t, ?u]\<rparr>"
  note defs = d pi_new_def if_active_def
  have "info_step demo_info ?p1"
    by (rule info_step.pop [where t = ?t and now = 6]) (simp add: pi_pop_task_def defs)
  moreover have "info_step ?p1 ?p2"
    by (rule info_step.acquire [where c = 0 and now = 6]) (simp add: pi_acquired_lock_def defs)
  moreover have "info_step ?p2 ?p3"
    by (rule info_step.complete [where t = ?t and now = 6]) (simp add: pi_completed_task_def defs)
  moreover have "info_step ?p3 ?p4"
    by (rule info_step.pop [where t = ?u and now = 6]) (simp add: pi_pop_task_def defs)
  moreover have "info_step ?p4 ?p5"
    by (rule info_step.acquire [where c = 1 and now = 6]) (simp add: pi_acquired_lock_def defs)
  moreover have "info_step ?p5 ?p6"
    by (rule info_step.complete [where t = ?u and now = 6]) (simp add: pi_completed_task_def defs)
  moreover have "info_step ?p6 demo_finished"
    by (rule info_step.finish [where now = 7]) (simp add: pi_finish_def defs demo_finished_def)
  ultimately show ?thesis by (meson rtranclp.rtrancl_refl rtranclp.rtrancl_into_rtrancl)
qed

lemma demo_times:
  "finished_at demo_finished = Some 7" "started_at demo_info = Some 5" "dropped_at demo_info = None"
  "disposing_tasks demo_info = []"
  by (simp_all add: demo_finished_def demo_info_def pi_start_def pi_new_def)

text \<open>
  A contributor that starts a round with tasks on pairwise different chunks and then pops,
  locks, completes and rolls back tasks in any order, never has two tasks on one chunk, holds
  locks only on chunks of its pending tasks, and neither loses nor gains a task: assigned,
  pending and completed tasks together are always those it started with.
\<close>

theorem participant_tasks_conserved:
  assumes "info_init tasks p" and "info_step\<^sup>*\<^sup>* p p'"
  shows "info_wf p' \<and> mset (assigned_tasks p' @ pending_tasks p' @ completed_tasks p') = mset tasks"
  using info.inv_reachable [OF assms] by (simp add: open_tasks_def)

theorem participant_tasks_conserved_witness:
  "info_wf demo_finished \<and> mset (assigned_tasks demo_finished @ pending_tasks demo_finished @
     completed_tasks demo_finished) = mset [new_task 0 1, new_task 1 1]"
  by (rule participant_tasks_conserved [OF demo_init demo_steps])

text \<open>
  When the round of a contributor is over and \<^verbatim>\<open>is_finished\<close> holds, it has completed
  exactly the tasks it was assigned at the start, and it holds no lock.
\<close>

theorem finished_contributor_completed_all:
  assumes "info_init tasks p" and "info_step\<^sup>*\<^sup>* p p'" and "finished_at p' \<noteq> None"
  shows "set (completed_tasks p') = set tasks \<and> length (completed_tasks p') = length tasks \<and>
    locked_chunks p' = []"
proof -
  from info.inv_reachable [OF assms(1,2)]
  have wf: "info_wf p'" and same: "mset (open_tasks p') = mset tasks" by simp_all
  from wf assms(3) have "pi_is_finished p'" by (simp add: info_wf_def)
  with wf same show ?thesis by (metis info_finished_tasks mset_eq_setD mset_eq_length)
qed

theorem finished_contributor_completed_all_witness:
  "set (completed_tasks demo_finished) = {new_task 0 1, new_task 1 1} \<and>
   locked_chunks demo_finished = []"
  using finished_contributor_completed_all [OF demo_init demo_steps] by (simp add: demo_times)

text \<open>
  A contributor is never stuck: from every state it can reach during its round without
  being dropped, it can lock and complete what is left of its tasks and finish.
\<close>

theorem contributor_can_finish:
  assumes "info_init tasks p" and "info_step\<^sup>*\<^sup>* p p'" and "tasks \<noteq> []"
    and "started_at p' \<noteq> None" and "dropped_at p' = None" and "disposing_tasks p' = []"
  shows "\<exists>q. info_step\<^sup>*\<^sup>* p' q \<and> pi_is_finished q"
proof (cases "finished_at p' = None")
  case True
  from info.inv_reachable [OF assms(1,2)]
  have "info_wf p'" and "mset (open_tasks p') = mset tasks" by simp_all
  with True assms show ?thesis by (intro active_can_finish) (auto simp: info_active_def)
next
  case False
  with info.inv_reachable [OF assms(1,2)] show ?thesis by (auto simp: info_wf_def)
qed

theorem contributor_can_finish_witness:
  "\<exists>q. info_step\<^sup>*\<^sup>* demo_info q \<and> pi_is_finished q"
  by (rule contributor_can_finish [OF demo_init]) (simp_all add: demo_times)

text \<open>
  Rolling back a task that was popped and not yet locked undoes the pop: the participant
  is as before, up to the time it was last seen.
\<close>

theorem pop_rollback_roundtrip:
  assumes "info_wf p" and "pi_pop_task p now = (Inr task, p')"
  shows "pi_rollback_pending_task p' task later = (Inr (), p\<lparr>last_seen := later\<rparr>)"
proof -
  from assms(2) obtain rest where p: "assigned_tasks p = task # rest" "finished_at p = None"
    "started_at p \<noteq> None" and p': "p' = p\<lparr>last_seen := now, assigned_tasks := rest,
      pending_tasks := pending_tasks p @ [task]\<rparr>"
    by (rule pi_pop_task_ok)
  from assms(2) have "dropped_at p = None" by (simp add: pi_pop_task_def if_active_ok_iff)
  moreover from assms(1) p(1) have "task \<notin> set (pending_tasks p)" "task \<notin> set rest"
    "chunk_id task \<notin> chunk_id ` set (pending_tasks p)" "task \<notin> set (completed_tasks p)"
    "chunk_id task \<notin> chunk_id ` set (completed_tasks p)"
    by (auto simp: info_wf_def open_tasks_def)
  moreover with assms(1) have "chunk_id task \<notin> fst ` set (locked_chunks p)"
    by (auto simp: info_wf_def locks_wf_def)
  moreover from \<open>task \<notin> set (pending_tasks p)\<close>
  have "filter (\<lambda>u. u \<noteq> task) (pending_tasks p) = pending_tasks p"
    by (metis (mono_tags, lifting) filter_True)
  moreover have "task_contains task (chunk_id task)" by (simp add: task_contains_def)
  ultimately show ?thesis using p
    by (auto simp: p' pi_rollback_pending_task_def pi_push_front_task_def if_active_def)
qed

theorem pop_rollback_roundtrip_witness:
  "pi_rollback_pending_task (snd (pi_pop_task demo_info 6)) (new_task 0 1) 9 =
     (Inr (), demo_info\<lparr>last_seen := 9\<rparr>)"
proof -
  have "pi_pop_task demo_info 6 = (Inr (new_task 0 1), snd (pi_pop_task demo_info 6))"
    by (simp add: demo_info_def pi_start_def pi_pop_task_def if_active_def pi_new_def)
  then show ?thesis by (rule pop_rollback_roundtrip [OF info_init_wf(1) [OF demo_init]])
qed

end
