(* ===== verification/Environments.thy ===== *)
theory Environments
  imports Participants Tasks
begin

text \<open>
  \<^verbatim>\<open>phase1-coordinator/src/environment.rs\<close> with the two size macros of
  \<^verbatim>\<open>phase1/src/macros.rs\<close>: the settings of the ceremony, the presets, the number of
  chunks they give, and the three deployments. A panic is \<open>None\<close>.
\<close>

datatype ContributionMode = ModeFull | Chunked

datatype ProvingSystem = Groth16 | Marlin

datatype CurveKind = Bls12_377 | BW6

datatype UseCompression = Yes | No

datatype CheckForCorrectness = CheckFull | OnlyNonZero | OnlyInGroup | CheckNo

record Settings =
  contribution_mode :: ContributionMode
  proving_system :: ProvingSystem
  curve :: CurveKind
  power :: usize
  batch_size :: usize
  chunk_size :: usize

definition settings_new ::
  "ContributionMode \<Rightarrow> ProvingSystem \<Rightarrow> CurveKind \<Rightarrow> usize \<Rightarrow> usize \<Rightarrow> usize \<Rightarrow> Settings option" where
  "settings_new mode system c p b s =
     (if b = 0 then None
      else Some \<lparr>contribution_mode = mode, proving_system = system, curve = c, power = p,
                 batch_size = b, chunk_size = s\<rparr>)"

fun total_size_in_g1 :: "ProvingSystem \<Rightarrow> usize \<Rightarrow> usize" where
  "total_size_in_g1 Groth16 p = 2 ^ (p + 1) - 1"
| "total_size_in_g1 Marlin p = 2 ^ p"

text \<open>The macro \<^verbatim>\<open>chunk_size!\<close>; it divides by the number of chunks.\<close>

definition chunk_size_for :: "usize \<Rightarrow> ProvingSystem \<Rightarrow> usize \<Rightarrow> usize option" where
  "chunk_size_for num_chunks system p =
     (if num_chunks = 0 then None
      else Some ((total_size_in_g1 system p + num_chunks - 1) div num_chunks))"

datatype Deployment = Testing | Development | Production

datatype Parameters =
    AleoInner
  | AleoOuter
  | AleoUniversal
  | Custom Settings
  | Test3Chunks
  | Test8Chunks
  | TestChunks usize
  | TestCustom usize usize usize

definition aleo_inner :: "Settings option" where
  "aleo_inner = settings_new Chunked Groth16 Bls12_377 19 2097152 32768"

definition aleo_outer :: "Settings option" where
  "aleo_outer = settings_new Chunked Groth16 BW6 20 2097152 65536"

definition aleo_universal :: "Settings option" where
  "aleo_universal = settings_new Chunked Marlin Bls12_377 28 2097152 65536"

definition test_3_chunks :: "Settings option" where
  "test_3_chunks = settings_new Chunked Groth16 Bls12_377 8 64 172"

definition test_8_chunks :: "Settings option" where
  "test_8_chunks = settings_new Chunked Groth16 Bls12_377 14 64 4096"

definition test_chunks :: "usize \<Rightarrow> Settings option" where
  "test_chunks num_chunks =
     Option.bind (chunk_size_for num_chunks Groth16 14)
       (\<lambda>s. settings_new Chunked Groth16 Bls12_377 14 128 s)"

definition test_custom :: "usize \<Rightarrow> usize \<Rightarrow> usize \<Rightarrow> Settings option" where
  "test_custom num_chunks p b =
     Option.bind (chunk_size_for num_chunks Groth16 p)
       (\<lambda>s. settings_new Chunked Groth16 Bls12_377 p b s)"

fun to_settings :: "Parameters \<Rightarrow> Settings option" where
  "to_settings AleoInner = aleo_inner"
| "to_settings AleoOuter = aleo_outer"
| "to_settings AleoUniversal = aleo_universal"
| "to_settings (Custom settings) = Some settings"
| "to_settings Test3Chunks = test_3_chunks"
| "to_settings Test8Chunks = test_8_chunks"
| "to_settings (TestChunks num_chunks) = test_chunks num_chunks"
| "to_settings (TestCustom num_chunks p b) = test_custom num_chunks p b"

record Environment =
  parameters :: Settings
  compressed_inputs :: UseCompression
  compressed_outputs :: UseCompression
  check_input_for_correctness :: CheckForCorrectness
  minimum_contributors_per_round :: usize
  maximum_contributors_per_round :: usize
  minimum_verifiers_per_round :: usize
  maximum_verifiers_per_round :: usize
  contributor_lock_chunk_limit :: usize
  verifier_lock_chunk_limit :: usize
  contributor_seen_timeout :: Duration
  verifier_seen_timeout :: Duration
  participant_lock_timeout :: Duration
  queue_seen_timeout :: Duration
  participant_ban_threshold :: u16
  allow_current_contributors_in_queue :: bool
  allow_current_verifiers_in_queue :: bool
  queue_wait_time :: u64
  coordinator_contributors :: "Participant list"
  coordinator_verifiers :: "Participant list"
  software_version :: u64
  deployment :: Deployment
  local_base_directory :: string
  disable_reliability_zeroing :: bool

text \<open>
  The division panics when the chunk size is zero, which \<^verbatim>\<open>Parameters::Custom\<close> does not
  exclude; the theorems that need the number of chunks assume that it is positive.
\<close>

definition number_of_chunks :: "Environment \<Rightarrow> u64" where
  "number_of_chunks self =
     (total_size_in_g1 (proving_system (parameters self)) (power (parameters self)) +
        chunk_size (parameters self) - 1) div chunk_size (parameters self)"

section \<open>Durations\<close>

definition duration_seconds :: "int \<Rightarrow> Duration" where
  "duration_seconds n = n * 1000000000"

definition duration_minutes :: "int \<Rightarrow> Duration" where
  "duration_minutes n = duration_seconds (n * 60)"

definition duration_days :: "int \<Rightarrow> Duration" where
  "duration_days n = duration_minutes (n * 1440)"

section \<open>The deployments\<close>

definition testing_default :: "Environment option" where
  "testing_default = map_option (\<lambda>settings.
     \<lparr>parameters = settings, compressed_inputs = No, compressed_outputs = Yes,
      check_input_for_correctness = CheckNo,
      minimum_contributors_per_round = 1, maximum_contributors_per_round = 5,
      minimum_verifiers_per_round = 1, maximum_verifiers_per_round = 5,
      contributor_lock_chunk_limit = 5, verifier_lock_chunk_limit = 5,
      contributor_seen_timeout = duration_minutes 5, verifier_seen_timeout = duration_minutes 15,
      participant_lock_timeout = duration_minutes 20, queue_seen_timeout = duration_days 10,
      participant_ban_threshold = 5,
      allow_current_contributors_in_queue = True, allow_current_verifiers_in_queue = True,
      queue_wait_time = 0,
      coordinator_contributors = [new_contributor_participant ''testing-coordinator-contributor''],
      coordinator_verifiers = [new_verifier_participant ''testing-coordinator-verifier''],
      software_version = 1, deployment = Testing,
      local_base_directory = ''./transcript/testing'', disable_reliability_zeroing = False\<rparr>)
     (to_settings Test3Chunks)"

definition development_default :: "Environment option" where
  "development_default = map_option (\<lambda>settings.
     \<lparr>parameters = settings, compressed_inputs = No, compressed_outputs = Yes,
      check_input_for_correctness = CheckNo,
      minimum_contributors_per_round = 1, maximum_contributors_per_round = 5,
      minimum_verifiers_per_round = 1, maximum_verifiers_per_round = 5,
      contributor_lock_chunk_limit = 5, verifier_lock_chunk_limit = 5,
      contributor_seen_timeout = duration_minutes 1, verifier_seen_timeout = duration_minutes 15,
      participant_lock_timeout = duration_minutes 20, queue_seen_timeout = duration_minutes 10,
      participant_ban_threshold = 5,
      allow_current_contributors_in_queue = True, allow_current_verifiers_in_queue = True,
      queue_wait_time = 60,
      coordinator_contributors =
        [new_contributor_participant ''development-coordinator-contributor''],
      coordinator_verifiers = [new_verifier_participant ''development-coordinator-verifier''],
      software_version = 1, deployment = Development,
      local_base_directory = ''./transcript/development'', disable_reliability_zeroing = False\<rparr>)
     (to_settings AleoInner)"

definition production_default :: "Environment option" where
  "production_default = map_option (\<lambda>settings.
     \<lparr>parameters = settings, compressed_inputs = No, compressed_outputs = Yes,
      check_input_for_correctness = CheckNo,
      minimum_contributors_per_round = 1, maximum_contributors_per_round = 5,
      minimum_verifiers_per_round = 1, maximum_verifiers_per_round = 5,
      contributor_lock_chunk_limit = 5, verifier_lock_chunk_limit = 5,
      contributor_seen_timeout = duration_days 7, verifier_seen_timeout = duration_days 7,
      participant_lock_timeout = duration_days 7, queue_seen_timeout = duration_days 7,
      participant_ban_threshold = 5,
      allow_current_contributors_in_queue = False, allow_current_verifiers_in_queue = True,
      queue_wait_time = 120,
      coordinator_contributors = [new_contributor_participant ''coordinator-contributor''],
      coordinator_verifiers = [new_verifier_participant ''coordinator-verifier''],
      software_version = 1, deployment = Production,
      local_base_directory = ''./transcript'', disable_reliability_zeroing = False\<rparr>)
     (to_settings AleoInner)"

text \<open>\<^verbatim>\<open>impl From<Parameters>\<close> for a deployment with the given default.\<close>

definition from_parameters :: "Environment option \<Rightarrow> Parameters \<Rightarrow> Environment option" where
  "from_parameters deployment_default ps =
     Option.bind deployment_default (\<lambda>e. map_option (\<lambda>s. e\<lparr>parameters := s\<rparr>) (to_settings ps))"

text \<open>The builders that a deployment offers; the two lists of participants are checked.\<close>

definition with_coordinator_contributors :: "Environment \<Rightarrow> Participant list \<Rightarrow> Environment option" where
  "with_coordinator_contributors self contributors =
     (if 0 < length (filter (\<lambda>p. \<not> is_contributor p) contributors) then None
      else Some (self\<lparr>coordinator_contributors := contributors\<rparr>))"

definition with_coordinator_verifiers :: "Environment \<Rightarrow> Participant list \<Rightarrow> Environment option" where
  "with_coordinator_verifiers self verifiers =
     (if 0 < length (filter (\<lambda>p. \<not> is_verifier p) verifiers) then None
      else Some (self\<lparr>coordinator_verifiers := verifiers\<rparr>))"

text \<open>
  What the coordinator relies on in its environment: a round may have contributors, and the
  participants managed by the coordinator have their declared roles.
\<close>

definition environment_wf :: "Environment \<Rightarrow> bool" where
  "environment_wf e \<longleftrightarrow>
     0 < maximum_contributors_per_round e \<and>
     (\<forall>p\<in>set (coordinator_contributors e). is_contributor p) \<and>
     (\<forall>p\<in>set (coordinator_verifiers e). is_verifier p)"

section \<open>The number of chunks\<close>

lemma ceiling_division:
  assumes "0 < (d :: nat)" "0 < t"
  shows "((t + d - 1) div d - 1) * d < t" "t \<le> (t + d - 1) div d * d"
proof -
  define q r where "q = (t + d - 1) div d" and "r = (t + d - 1) mod d"
  have eq: "q * d + r = t + d - 1" by (simp add: q_def r_def)
  have "r < d" using assms(1) by (simp add: r_def)
  with eq assms show "t \<le> (t + d - 1) div d * d" unfolding q_def [symmetric] by linarith
  from eq assms have "q \<noteq> 0" using \<open>r < d\<close> by (intro notI) simp
  then have "(q - 1) * d + d = q * d" by (cases q) simp_all
  with eq assms show "((t + d - 1) div d - 1) * d < t" unfolding q_def [symmetric] by linarith
qed

lemma ceiling_division_unique:
  assumes "(n - 1) * d < t" "t \<le> n * (d :: nat)"
  shows "(t + d - 1) div d = n"
proof -
  from assms have "0 < d" "0 < n" by (auto intro: gr0I)
  then have "(n - 1) * d + d = n * d" by (cases n) auto
  with assms have "n * d \<le> t + d - 1" "t + d - 1 < n * d + d" by linarith+
  then show ?thesis by (intro div_nat_eqI) (simp_all add: mult.commute)
qed

lemma ceiling_division_twice:
  assumes "0 < n" "n * n \<le> (t :: nat)"
  shows "let d = (t + n - 1) div n in (t + d - 1) div d = n"
proof -
  define d where "d = (t + n - 1) div n"
  from assms have "0 < t" by (metis mult_is_0 neq0_conv not_le)
  from ceiling_division [OF assms(1) this] have up: "t \<le> n * d" and low: "(d - 1) * n < t"
    by (simp_all add: d_def mult.commute)
  from assms(2) up have "n * n \<le> n * d" by (rule le_trans)
  with assms(1) have "n \<le> d" by simp
  have "(d - 1) * n + n = d * n" using \<open>n \<le> d\<close> assms(1) by (cases d) auto
  with low have "d * n < t + n" by linarith
  moreover have "(n - 1) * d + d = n * d" using assms(1) by (cases n) auto
  ultimately have "(n - 1) * d < t" using \<open>n \<le> d\<close> by (simp add: mult.commute)
  with up show ?thesis unfolding d_def [symmetric] Let_def by (intro ceiling_division_unique)
qed

lemma total_size_pos: "0 < total_size_in_g1 system p"
  using one_less_power [of "2 :: nat" "p + 1"] by (cases system) simp_all

lemma settings_new_batch: "settings_new m s c p b k = Some st \<Longrightarrow> batch_size st = b \<and> 0 < b"
  by (auto simp: settings_new_def split: if_splits)

lemmas preset_defs = from_parameters_def testing_default_def production_default_def
  development_default_def aleo_inner_def aleo_outer_def aleo_universal_def test_3_chunks_def
  test_8_chunks_def settings_new_def number_of_chunks_def

lemma preset_sizes:
  "map_option number_of_chunks (from_parameters testing_default Test8Chunks) = Some 8"
  "map_option number_of_chunks (from_parameters production_default AleoOuter) = Some 32"
  "map_option number_of_chunks (from_parameters production_default AleoUniversal) = Some 4096"
  by (simp_all add: preset_defs)

lemma default_values:
  "number_of_chunks (the testing_default) = 3"
  "maximum_contributors_per_round (the testing_default) = 5"
  "number_of_chunks (the production_default) = 32"
  "maximum_contributors_per_round (the production_default) = 5"
  "number_of_chunks (the development_default) = 32"
  "maximum_contributors_per_round (the development_default) = 5"
  by (simp_all add: preset_defs)

lemma initialize_tasks_is_ok: "is_ok (initialize_tasks b n k) \<longleftrightarrow> k = 0 \<or> b < k \<and> k \<le> n"
  by (auto simp: initialize_tasks_def Let_def)

text \<open>
  The chunks of a ceremony with a positive chunk size cover all powers of tau and none of
  them is empty: all chunks but the last are full, and the last one ends at or after the last
  power.
\<close>

theorem number_of_chunks_covers:
  assumes "0 < chunk_size (parameters e)"
  shows "(number_of_chunks e - 1) * chunk_size (parameters e) <
      total_size_in_g1 (proving_system (parameters e)) (power (parameters e)) \<and>
    total_size_in_g1 (proving_system (parameters e)) (power (parameters e)) \<le>
      number_of_chunks e * chunk_size (parameters e)"
  using ceiling_division [OF assms(1) total_size_pos] by (simp add: number_of_chunks_def)

theorem number_of_chunks_covers_witness:
  "\<exists>e. production_default = Some e \<and>
    (number_of_chunks e - 1) * chunk_size (parameters e) <
      total_size_in_g1 (proving_system (parameters e)) (power (parameters e))"
proof -
  obtain e where "production_default = Some e" "0 < chunk_size (parameters e)"
    by (simp add: production_default_def aleo_inner_def settings_new_def)
  then show ?thesis using number_of_chunks_covers [of e] by blast
qed

text \<open>
  \<^verbatim>\<open>Parameters::TestChunks\<close> yields as many chunks as were asked for, as long as the
  square of that number is at most the number of powers, 32767.
\<close>

theorem test_chunks_number:
  assumes "0 < n" and "n * n \<le> 32767"
  shows "map_option number_of_chunks (from_parameters testing_default (TestChunks n)) = Some n"
  using ceiling_division_twice [OF assms] assms
  by (simp add: from_parameters_def testing_default_def test_3_chunks_def test_chunks_def chunk_size_for_def settings_new_def
      number_of_chunks_def Let_def)

theorem test_chunks_number_witness:
  "map_option number_of_chunks (from_parameters testing_default (TestChunks 20)) = Some 20"
  by (rule test_chunks_number) simp_all

text \<open>
  With the default production and development environments, the tasks of a round can be
  initialised for every bucket and every number of contributors a round may have. With the
  default testing environment they cannot: it permits five contributors and has three chunks.
\<close>

theorem default_capacity:
  "(\<forall>e\<in>{the production_default, the development_default}.
     \<forall>k b. k \<le> maximum_contributors_per_round e \<and> b < k \<longrightarrow>
       is_ok (initialize_tasks b (number_of_chunks e) k)) \<and>
   \<not> is_ok (initialize_tasks 0 (number_of_chunks (the testing_default))
      (maximum_contributors_per_round (the testing_default)))"
  by (simp add: initialize_tasks_is_ok default_values)

theorem default_capacity_witness:
  "is_ok (initialize_tasks 2 (number_of_chunks (the production_default)) 5)"
  using default_capacity by (simp add: default_values)

end
