(* ===== verification/Coordinator_State.thy ===== *)
theory Coordinator_State
  imports Participant_Info Environments
begin

text \<open>
  \<^verbatim>\<open>phase1-coordinator/src/coordinator_state.rs\<close>, \<^verbatim>\<open>RoundMetrics\<close> and
  \<^verbatim>\<open>CoordinatorState\<close>: the state of the ceremony, its queries, and the operations on the
  queue. \<open>now\<close> is what the time source returns during the call. The association lists stand
  for the hash maps in the order in which they are iterated.
\<close>

datatype CoordinatorStatus = Initializing | Initialized | Precommit | Commit | Rollback

datatype IpAddr = V4 nat | V6 nat

record RoundMetrics =
  number_of_contributors :: u64
  number_of_verifiers :: u64
  is_round_aggregated :: bool
  task_timer :: "(Participant, (Task, int \<times> int option) hashmap) hashmap"
  seconds_per_task :: "(Participant, u64) hashmap"
  contributor_average_per_task :: "u64 option"
  verifier_average_per_task :: "u64 option"
  started_aggregation_at :: "OffsetDateTime option"
  finished_aggregation_at :: "OffsetDateTime option"
  estimated_finish_time :: "u64 option"
  estimated_aggregation_time :: "u64 option"
  estimated_wait_time :: "u64 option"
  next_round_after :: "OffsetDateTime option"

definition metrics_default :: RoundMetrics where
  "metrics_default =
     \<lparr>number_of_contributors = 0, number_of_verifiers = 0, is_round_aggregated = False,
      task_timer = [], seconds_per_task = [], contributor_average_per_task = None,
      verifier_average_per_task = None, started_aggregation_at = None,
      finished_aggregation_at = None, estimated_finish_time = None,
      estimated_aggregation_time = None, estimated_wait_time = None, next_round_after = None\<rparr>"

text \<open>Reliability, assigned round, last seen, joined.\<close>

type_synonym QueueEntry = "u8 \<times> u64 option \<times> OffsetDateTime \<times> OffsetDateTime"

record CoordinatorState =
  environment :: Environment
  status :: CoordinatorStatus
  queue :: "(Participant, QueueEntry) hashmap"
  next_participants :: "(Participant, ParticipantInfo) hashmap"
  current_metrics :: "RoundMetrics option"
  current_round_height :: "u64 option"
  current_contributors :: "(Participant, ParticipantInfo) hashmap"
  contributor_ips :: "(IpAddr, Participant hashset) hashmap"
  current_verifiers :: "(Participant, ParticipantInfo) hashmap"
  pending_verification :: "(Task, Participant) hashmap"
  finished_contributors :: "(u64, (Participant, ParticipantInfo) hashmap) hashmap"
  finished_verifiers :: "(u64, (Participant, ParticipantInfo) hashmap) hashmap"
  dropped :: "ParticipantInfo list"
  banned :: "Participant hashset"
  manual_lock :: bool

type_synonym 'a state_outcome = "('a, CoordinatorState) fallible"

definition state_new :: "Environment \<Rightarrow> CoordinatorState" where
  "state_new env =
     \<lparr>environment = env, status = Initializing, queue = [], next_participants = [],
      current_metrics = None, current_round_height = None, current_contributors = [],
      contributor_ips = [], current_verifiers = [], pending_verification = [],
      finished_contributors = [], finished_verifiers = [], dropped = [], banned = [],
      manual_lock = False\<rparr>"

definition initialize :: "CoordinatorState \<Rightarrow> u64 \<Rightarrow> CoordinatorState" where
  "initialize self height =
     self\<lparr>current_round_height :=
            (case current_round_height self of None \<Rightarrow> Some height | Some h \<Rightarrow> Some h),
          current_metrics :=
            (case current_metrics self of None \<Rightarrow> Some metrics_default | Some m \<Rightarrow> Some m),
          finished_contributors :=
            (if hm_contains (finished_contributors self) height then finished_contributors self
             else hm_insert height [] (finished_contributors self)),
          finished_verifiers :=
            (if hm_contains (finished_verifiers self) height then finished_verifiers self
             else hm_insert height [] (finished_verifiers self)),
          status := Initialized\<rparr>"

section \<open>Queries\<close>

definition is_duplicate_ip :: "CoordinatorState \<Rightarrow> IpAddr \<Rightarrow> bool" where
  "is_duplicate_ip self ip = hm_contains (contributor_ips self) ip"

definition is_queue_contributor :: "CoordinatorState \<Rightarrow> Participant \<Rightarrow> bool" where
  "is_queue_contributor self p = (is_contributor p \<and> hm_contains (queue self) p)"

definition is_authorized_contributor :: "CoordinatorState \<Rightarrow> Participant \<Rightarrow> bool" where
  "is_authorized_contributor self p = (is_contributor p \<and> p \<notin> set (banned self))"

definition is_current_contributor :: "CoordinatorState \<Rightarrow> Participant \<Rightarrow> bool" where
  "is_current_contributor self p =
     (is_authorized_contributor self p \<and> hm_contains (current_contributors self) p)"

definition is_banned_participant :: "CoordinatorState \<Rightarrow> Participant \<Rightarrow> bool" where
  "is_banned_participant self p = (p \<in> set (banned self))"

definition dropped_participants :: "CoordinatorState \<Rightarrow> ParticipantInfo list" where
  "dropped_participants self = dropped self"

definition is_dropped_participant :: "CoordinatorState \<Rightarrow> Participant \<Rightarrow> CoordinatorError + bool" where
  "is_dropped_participant self p =
     (case find (\<lambda>i. pi_id i = p) (dropped self) of
        None \<Rightarrow> Inl ParticipantMissing
      | Some info \<Rightarrow> Inr (list_ex (pi_eq info) (dropped_participants self)))"

text \<open>\<^verbatim>\<open>self.current_round_height()\<close>\<close>

definition round_height_or_zero :: "CoordinatorState \<Rightarrow> u64" where
  "round_height_or_zero self = (case current_round_height self of None \<Rightarrow> 0 | Some h \<Rightarrow> h)"

definition finished_in_round :: "CoordinatorState \<Rightarrow> u64 \<Rightarrow> (Participant, ParticipantInfo) hashmap" where
  "finished_in_round self height =
     (case hm_get (finished_contributors self) height of None \<Rightarrow> [] | Some m \<Rightarrow> m)"

definition is_finished_contributor :: "CoordinatorState \<Rightarrow> Participant \<Rightarrow> bool" where
  "is_finished_contributor self p =
     (is_contributor p \<and> hm_contains (finished_in_round self (round_height_or_zero self)) p)"

definition current_round_finished_contributors :: "CoordinatorState \<Rightarrow> string + Participant list" where
  "current_round_finished_contributors self =
     (case current_round_height self of
        None \<Rightarrow> Inl ''Current round height is None''
      | Some h \<Rightarrow>
          (case hm_get (finished_contributors self) h of
             None \<Rightarrow> Inl (''There are no finished contributors for round '' @ show_u64 h)
           | Some m \<Rightarrow> Inr (hm_keys m)))"

definition is_coordinator_contributor :: "CoordinatorState \<Rightarrow> Participant \<Rightarrow> bool" where
  "is_coordinator_contributor self p =
     (is_contributor p \<and> p \<in> set (coordinator_contributors (environment self)))"

definition is_coordinator_verifier :: "CoordinatorState \<Rightarrow> Participant \<Rightarrow> bool" where
  "is_coordinator_verifier self p =
     (is_verifier p \<and> p \<in> set (coordinator_verifiers (environment self)))"

definition queue_contributors :: "CoordinatorState \<Rightarrow> (Participant \<times> QueueEntry) list" where
  "queue_contributors self = filter (\<lambda>(p, _). is_contributor p) (queue self)"

definition number_of_queue_contributors :: "CoordinatorState \<Rightarrow> usize" where
  "number_of_queue_contributors self = length (filter (\<lambda>(p, _). is_contributor p) (queue self))"

definition queue_contributor_info :: "CoordinatorState \<Rightarrow> Participant \<Rightarrow> QueueEntry option" where
  "queue_contributor_info self p = hm_get (queue self) p"

definition current_participant_info :: "CoordinatorState \<Rightarrow> Participant \<Rightarrow> ParticipantInfo option" where
  "current_participant_info self p =
     (case p of
        Contributor _ \<Rightarrow> hm_get (current_contributors self) p
      | Verifier _ \<Rightarrow> hm_get (current_verifiers self) p)"

text \<open>Writing through the reference that \<^verbatim>\<open>current_participant_info_mut\<close> returns.\<close>

definition set_current_participant_info ::
  "CoordinatorState \<Rightarrow> Participant \<Rightarrow> ParticipantInfo \<Rightarrow> CoordinatorState" where
  "set_current_participant_info self p info =
     (case p of
        Contributor _ \<Rightarrow>
          self\<lparr>current_contributors := hm_modify p (\<lambda>_. info) (current_contributors self)\<rparr>
      | Verifier _ \<Rightarrow>
          self\<lparr>current_verifiers := hm_modify p (\<lambda>_. info) (current_verifiers self)\<rparr>)"

definition is_current_round_finished :: "CoordinatorState \<Rightarrow> bool" where
  "is_current_round_finished self =
     (pending_verification self = [] \<and> current_contributors self = [])"

definition is_current_round_aggregating :: "CoordinatorState \<Rightarrow> bool" where
  "is_current_round_aggregating self =
     (case current_metrics self of
        Some m \<Rightarrow> \<not> is_round_aggregated m \<and> started_aggregation_at m \<noteq> None \<and>
                  finished_aggregation_at m = None
      | None \<Rightarrow> False)"

definition is_current_round_aggregated :: "CoordinatorState \<Rightarrow> bool" where
  "is_current_round_aggregated self =
     (case current_metrics self of
        Some m \<Rightarrow> is_round_aggregated m \<and> started_aggregation_at m \<noteq> None \<and>
                  finished_aggregation_at m \<noteq> None
      | None \<Rightarrow> False)"

text \<open>The queued contributors assigned to the given round.\<close>

definition assigned_to_round :: "CoordinatorState \<Rightarrow> u64 \<Rightarrow> (Participant \<times> QueueEntry) list" where
  "assigned_to_round self height =
     filter (\<lambda>(p, (_, rh, _, _)).
       is_contributor p \<and> (case rh of None \<Rightarrow> 0 | Some h \<Rightarrow> h) = height) (queue self)"

definition is_precommit_next_round_ready :: "CoordinatorState \<Rightarrow> OffsetDateTime \<Rightarrow> bool" where
  "is_precommit_next_round_ready self now =
     (if status self = Initializing \<or> status self = Precommit then False
      else if queue self = [] then False
      else if current_round_height self = None then False
      else if 0 < round_height_or_zero self \<and> \<not> is_current_round_aggregated self then False
      else if (case current_metrics self of
                 Some m \<Rightarrow> (case next_round_after m of Some t \<Rightarrow> now < t | None \<Rightarrow> True)
               | None \<Rightarrow> False) then False
      else
        (let assigned = length (assigned_to_round self (round_height_or_zero self + 1)) in
         \<not> (assigned < minimum_contributors_per_round (environment self) \<or>
            maximum_contributors_per_round (environment self) < assigned)))"

section \<open>The queue\<close>

text \<open>One turn of the inner loop of \<^verbatim>\<open>zero_duplicate_ips\<close>.\<close>

definition zero_reliability :: "Participant \<Rightarrow> CoordinatorState \<Rightarrow> CoordinatorState" where
  "zero_reliability p self =
     self\<lparr>queue := hm_modify p (\<lambda>(_, rest). (0, rest)) (queue self),
          current_contributors := hm_modify p (reliability_update (\<lambda>_. 0)) (current_contributors self),
          next_participants := hm_modify p (reliability_update (\<lambda>_. 0)) (next_participants self)\<rparr>"

definition zero_duplicate_ips :: "CoordinatorState \<Rightarrow> IpAddr \<Rightarrow> CoordinatorState" where
  "zero_duplicate_ips self ip =
     (case hm_get (contributor_ips self) ip of
        None \<Rightarrow> self
      | Some participants \<Rightarrow> fold zero_reliability participants self)"

text \<open>\<^verbatim>\<open>HashSet::insert\<close>\<close>

definition hs_insert :: "'a \<Rightarrow> 'a hashset \<Rightarrow> 'a hashset" where
  "hs_insert x s = (if x \<in> set s then s else s @ [x])"

definition add_to_queue ::
  "CoordinatorState \<Rightarrow> Participant \<Rightarrow> IpAddr option \<Rightarrow> u8 \<Rightarrow> OffsetDateTime \<Rightarrow> unit state_outcome" where
  "add_to_queue self participant participant_ip reliability_score now =
     (if participant \<in> set (banned self) then (Inl ParticipantBanned, self)
      else if hm_contains (queue self) participant then (Inl ParticipantAlreadyAdded, self)
      else if hm_contains (next_participants self) participant
      then (Inl ParticipantAlreadyAdded, self)
      else
        (case participant of
           Verifier _ \<Rightarrow> (Inl ExpectedContributor, self)
         | Contributor _ \<Rightarrow>
             if \<not> is_authorized_contributor self participant
             then (Inl ParticipantUnauthorized, self)
             else if \<not> allow_current_contributors_in_queue (environment self) \<and>
                     hm_contains (current_contributors self) participant
             then (Inl ParticipantInCurrentRoundCannotJoinQueue, self)
             else
               (let (score, self') =
                  (if disable_reliability_zeroing (environment self)
                   then (reliability_score, self)
                   else
                     (case participant_ip of
                        None \<Rightarrow> (reliability_score, self)
                      | Some ip \<Rightarrow>
                          (let (score, s) =
                             (if is_duplicate_ip self ip then (0, zero_duplicate_ips self ip)
                              else (reliability_score, self));
                             known =
                             (case hm_get (contributor_ips s) ip of None \<Rightarrow> [] | Some ps \<Rightarrow> ps)
                           in (score,
                               s\<lparr>contributor_ips :=
                                   hm_insert ip (hs_insert participant known) (contributor_ips s)\<rparr>))))
                in (Inr (), self'\<lparr>queue := hm_insert participant (score, None, now, now) (queue self')\<rparr>))))"

definition remove_from_queue :: "CoordinatorState \<Rightarrow> Participant \<Rightarrow> unit state_outcome" where
  "remove_from_queue self participant =
     (if hm_contains (next_participants self) participant
      then (Inl ParticipantAlreadyPrecommitted, self)
      else if \<not> hm_contains (queue self) participant then (Inl ParticipantMissing, self)
      else (Inr (), self\<lparr>queue := hm_remove participant (queue self)\<rparr>))"

text \<open>
  \<^verbatim>\<open>slice::chunks\<close>. Rust panics for chunks of size zero, which an environment that permits
  contributors excludes.
\<close>

function slice_chunks :: "usize \<Rightarrow> 'a list \<Rightarrow> 'a list list" where
  "slice_chunks n xs =
     (if n = 0 \<or> xs = [] then [] else take n xs # slice_chunks n (drop n xs))"
  by pat_completeness auto
termination
  by (relation "measure (length \<circ> snd)") auto

declare slice_chunks.simps [simp del]

fun queued_for ::
  "u64 \<Rightarrow> Participant \<times> u8 \<times> OffsetDateTime \<times> OffsetDateTime \<Rightarrow> Participant \<times> QueueEntry" where
  "queued_for round (c, r, ls, j) = (c, (r, Some round, ls, j))"

text \<open>The two nested loops of \<^verbatim>\<open>update_queue\<close>, as the list of insertions they make.\<close>

definition assign_rounds ::
  "u64 \<Rightarrow> usize \<Rightarrow> (Participant \<times> u8 \<times> OffsetDateTime \<times> OffsetDateTime) list \<Rightarrow>
   (Participant \<times> QueueEntry) list" where
  "assign_rounds next_round maximum contributors =
     concat (map (\<lambda>(index, round).
         map (queued_for (next_round + index)) round)
       (enumerate 0 (slice_chunks maximum contributors)))"

text \<open>The contributors that wait in the queue, in the order in which they joined.\<close>

definition waiting_contributors ::
  "CoordinatorState \<Rightarrow> (Participant \<times> u8 \<times> OffsetDateTime \<times> OffsetDateTime) list" where
  "waiting_contributors self =
     filter (\<lambda>(p, _). is_contributor p \<and> p \<notin> set (banned self))
       (sort_key (\<lambda>(_, _, _, joined). joined)
         (map (\<lambda>(p, (r, _, ls, j)). (p, r, ls, j)) (queue self)))"

definition update_queue :: "CoordinatorState \<Rightarrow> unit state_outcome" where
  "update_queue self =
     (case current_round_height self of
        None \<Rightarrow> (Inl RoundHeightNotSet, self)
      | Some height \<Rightarrow>
          (Inr (), self\<lparr>queue := hm_collect (assign_rounds (height + 1)
             (maximum_contributors_per_round (environment self)) (waiting_contributors self))\<rparr>))"

text \<open>
  \<^verbatim>\<open>heartbeat\<close>. Only the first round in the iteration order of the map of finished
  contributors is searched: \<^verbatim>\<open>.next().flatten()\<close>.
\<close>

definition heartbeat ::
  "CoordinatorState \<Rightarrow> Participant \<Rightarrow> OffsetDateTime \<Rightarrow> unit state_outcome" where
  "heartbeat self participant now =
     (if hm_contains (queue self) participant
      then (Inr (), self\<lparr>queue :=
             hm_modify participant (\<lambda>(r, rh, _, j). (r, rh, now, j)) (queue self)\<rparr>)
      else if hm_contains (current_contributors self) participant
      then (Inr (), self\<lparr>current_contributors :=
             hm_modify participant (last_seen_update (\<lambda>_. now)) (current_contributors self)\<rparr>)
      else
        (case finished_contributors self of
           [] \<Rightarrow> (Inl (ParticipantNotFound participant), self)
         | (height, finished) # rest \<Rightarrow>
             if hm_contains finished participant
             then (Inr (), self\<lparr>finished_contributors :=
                    (height, hm_modify participant (last_seen_update (\<lambda>_. now)) finished) # rest\<rparr>)
             else (Inl (ParticipantNotFound participant), self)))"

definition is_manual_lock_enabled :: "CoordinatorState \<Rightarrow> bool" where
  "is_manual_lock_enabled self = manual_lock self"

definition enable_manual_lock :: "CoordinatorState \<Rightarrow> CoordinatorState" where
  "enable_manual_lock self = self\<lparr>manual_lock := True\<rparr>"

definition disable_manual_lock :: "CoordinatorState \<Rightarrow> CoordinatorState" where
  "disable_manual_lock self = self\<lparr>manual_lock := False\<rparr>"

section \<open>Round assignment\<close>

lemma hm_extend_new:
  "distinct (map fst kvs) \<Longrightarrow> set (map fst kvs) \<inter> set (map fst m) = {} \<Longrightarrow> hm_extend kvs m = m @ kvs"
proof (induction kvs arbitrary: m)
  case Nil
  show ?case by (simp add: hm_extend_def)
next
  case (Cons kv kvs)
  obtain k v where kv: "kv = (k, v)" by (cases kv)
  from Cons.prems have "k \<notin> set (map fst m)" by (simp add: kv)
  then have "hm_extend (kv # kvs) m = hm_extend kvs (m @ [(k, v)])"
    by (simp add: hm_extend_def kv update_new)
  also have "\<dots> = (m @ [(k, v)]) @ kvs" using Cons.prems by (intro Cons.IH) (auto simp: kv)
  finally show ?case by (simp add: kv)
qed

lemma hm_collect_distinct: "distinct (map fst kvs) \<Longrightarrow> hm_collect kvs = kvs"
  by (simp add: hm_extend_new)

lemma enumerate_split:
  "enumerate k xs = enumerate k (take m xs) @ enumerate (k + m) (drop m xs)"
proof (cases "m \<le> length xs")
  case True
  then show ?thesis
    using enumerate_append_eq [of k "take m xs" "drop m xs"] by simp
qed simp

lemma enumerate_fst_range: "(i, x) \<in> set (enumerate k xs) \<Longrightarrow> k \<le> i \<and> i < k + length xs"
  by (auto simp: in_set_enumerate_eq)

lemma queued_for_simps [simp]: "fst (queued_for n c) = fst c"
  by (cases c) auto

lemma assign_rounds_from:
  assumes "0 < m"
  shows "concat (map (\<lambda>(index, round). map (queued_for (n + index)) round)
      (enumerate k (slice_chunks m cs))) =
    map (\<lambda>(i, c). queued_for (n + i div m) c) (enumerate (k * m) cs)"
  using assms
proof (induction m cs arbitrary: k rule: slice_chunks.induct)
  case (1 m cs)
  show ?case
  proof (cases "cs = []")
    case True
    then show ?thesis by (simp add: slice_chunks.simps)
  next
    case False
    have first: "map (queued_for (n + k)) (take m cs) =
      map (\<lambda>(i, c). queued_for (n + i div m) c) (enumerate (k * m) (take m cs))"
    proof (rule nth_equalityI)
      fix i
      assume "i < length (map (queued_for (n + k)) (take m cs))"
      then have i: "i < m" "i < length cs" by simp_all
      then have "(k * m + i) div m = k" by simp
      with i show "map (queued_for (n + k)) (take m cs) ! i =
        map (\<lambda>(i, c). queued_for (n + i div m) c) (enumerate (k * m) (take m cs)) ! i"
        by (simp add: nth_enumerate_eq)
    qed simp
    have "slice_chunks m cs = take m cs # slice_chunks m (drop m cs)"
      using False 1(2) by (subst slice_chunks.simps) simp
    moreover have "concat (map (\<lambda>(index, round). map (queued_for (n + index)) round)
        (enumerate (Suc k) (slice_chunks m (drop m cs)))) =
      map (\<lambda>(i, c). queued_for (n + i div m) c) (enumerate (k * m + m) (drop m cs))"
      using 1(1) [of "Suc k"] False 1(2) by (simp add: add.commute)
    ultimately show ?thesis using first by (simp add: enumerate_split [of "k * m" cs m])
  qed
qed

text \<open>The contributor at position \<open>i\<close> of the waiting order takes part in round \<open>i div m\<close> from now.\<close>

lemma assign_rounds_nth:
  "0 < m \<Longrightarrow> assign_rounds n m cs = map (\<lambda>(i, c). queued_for (n + i div m) c) (enumerate 0 cs)"
  using assign_rounds_from [of m n 0 cs] by (simp add: assign_rounds_def)

lemma keys_assign_rounds: "0 < m \<Longrightarrow> map fst (assign_rounds n m cs) = map fst cs"
  by (rule nth_equalityI) (simp_all add: assign_rounds_nth nth_enumerate_eq)

lemma waiting_keys:
  "set (map fst (waiting_contributors s)) =
     {p \<in> set (map fst (queue s)). is_contributor p \<and> p \<notin> set (banned s)}"
  by (force simp: waiting_contributors_def)

lemma waiting_distinct:
  assumes "hm_wf (queue s)"
  shows "distinct (map fst (waiting_contributors s))"
proof -
  let ?q = "map (\<lambda>(p, (r, _, ls, j)). (p, r, ls, j)) (queue s)"
  let ?s = "sort_key (\<lambda>(_, _, _, joined). joined) ?q"
  have "mset (map fst ?s) = mset (map fst ?q)" by (simp only: mset_map mset_sort)
  moreover have "map fst ?q = map fst (queue s)" by (simp add: comp_def case_prod_beta)
  ultimately have "distinct (map fst ?s)"
    using assms mset_eq_imp_distinct_iff by metis
  then show ?thesis by (simp add: waiting_contributors_def distinct_map_filter)
qed

lemma waiting_in_queue:
  "(p, r, ls, j) \<in> set (waiting_contributors s) \<Longrightarrow> \<exists>rh. (p, (r, rh, ls, j)) \<in> set (queue s)"
  by (auto simp: waiting_contributors_def)

lemma waiting_sorted: "sorted (map (\<lambda>(_, _, _, j). j) (waiting_contributors s))"
  unfolding waiting_contributors_def by (rule sorted_filter) (rule sorted_sort_key)

lemma update_queue_queue:
  assumes "hm_wf (queue s)" "0 < maximum_contributors_per_round (environment s)"
    "current_round_height s = Some h"
  shows "update_queue s = (Inr (), s\<lparr>queue := map (\<lambda>(i, c).
    queued_for (h + 1 + i div maximum_contributors_per_round (environment s)) c)
      (enumerate 0 (waiting_contributors s))\<rparr>)"
proof -
  have "hm_collect (assign_rounds (h + 1) (maximum_contributors_per_round (environment s))
      (waiting_contributors s)) =
    assign_rounds (h + 1) (maximum_contributors_per_round (environment s)) (waiting_contributors s)"
    using waiting_distinct [OF assms(1)] keys_assign_rounds [OF assms(2)]
    by (intro hm_collect_distinct) simp
  with assms show ?thesis by (simp add: update_queue_def assign_rounds_nth)
qed

lemma length_filter_mono:
  "(\<And>x. x \<in> set xs \<Longrightarrow> P x \<Longrightarrow> Q x) \<Longrightarrow> length (filter P xs) \<le> length (filter Q xs)"
  by (induction xs) (auto simp: le_SucI)

lemma count_in_round:
  assumes "0 < (m :: nat)"
  shows "length (filter (\<lambda>(i, x). i div m = d) (enumerate 0 xs)) \<le> m"
proof -
  have "length (filter (\<lambda>(i, x). i div m = d) (enumerate 0 xs)) =
      length (filter (\<lambda>i. i div m = d) [0..<length xs])"
    using arg_cong [OF filter_map [of "\<lambda>i. i div m = d" fst "enumerate 0 xs"], of length]
    by (simp add: comp_def case_prod_beta')
  also have "\<dots> = card (set (filter (\<lambda>i. i div m = d) [0..<length xs]))"
    by (simp add: distinct_card [symmetric] distinct_filter)
  also have "\<dots> \<le> card {d * m..<d * m + m}"
  proof (intro card_mono subsetI)
    fix i
    assume "i \<in> set (filter (\<lambda>i. i div m = d) [0..<length xs])"
    then have "i = d * m + i mod m" by auto
    with mod_less_divisor [OF assms, of i] show "i \<in> {d * m..<d * m + m}" by simp
  qed simp
  finally show ?thesis by simp
qed


section \<open>The queue is served first come, first served\<close>

definition assigned_round :: "CoordinatorState \<Rightarrow> Participant \<Rightarrow> u64 option" where
  "assigned_round s p = Option.bind (hm_get (queue s) p) (\<lambda>(_, rh, _, _). rh)"

definition joined_at :: "CoordinatorState \<Rightarrow> Participant \<Rightarrow> OffsetDateTime option" where
  "joined_at s p = map_option (\<lambda>(_, _, _, j). j) (hm_get (queue s) p)"

text \<open>Position \<open>i\<close> of the waiting order, seen from the updated queue.\<close>

lemma updated_queue_lookup:
  assumes "hm_wf (queue s)" "0 < maximum_contributors_per_round (environment s)"
    "current_round_height s = Some h" "update_queue s = (r, s')"
  shows "hm_get (queue s') p = Some e \<longleftrightarrow>
    (\<exists>i < length (waiting_contributors s). (p, e) =
       queued_for (h + 1 + i div maximum_contributors_per_round (environment s))
         (waiting_contributors s ! i))"
proof -
  let ?m = "maximum_contributors_per_round (environment s)" and ?w = "waiting_contributors s"
  from assms(4) update_queue_queue [OF assms(1-3)]
  have q: "queue s' = map (\<lambda>(i, c). queued_for (h + 1 + i div ?m) c) (enumerate 0 ?w)" by auto
  then have "map fst (queue s') = map fst ?w"
    using keys_assign_rounds [OF assms(2), of "h + 1" ?w] by (simp add: assign_rounds_nth [OF assms(2)])
  with waiting_distinct [OF assms(1)] have "hm_wf (queue s')" by simp
  then have "hm_get (queue s') p = Some e \<longleftrightarrow> (p, e) \<in> set (queue s')" by simp
  also have "\<dots> \<longleftrightarrow> (\<exists>i < length ?w. (p, e) = queued_for (h + 1 + i div ?m) (?w ! i))"
    by (force simp: q in_set_conv_nth nth_enumerate_eq)
  finally show ?thesis .
qed

lemma updated_queue_entry:
  assumes "hm_wf (queue s)" "0 < maximum_contributors_per_round (environment s)"
    "current_round_height s = Some h" "update_queue s = (r, s')"
    and "hm_get (queue s') p = Some (rel, rh, ls, j)"
  shows "\<exists>old. hm_get (queue s) p = Some (rel, old, ls, j) \<and> (\<exists>n > h. rh = Some n)"
proof -
  let ?m = "maximum_contributors_per_round (environment s)" and ?w = "waiting_contributors s"
  from assms(5) updated_queue_lookup [OF assms(1-4)] obtain i where i: "i < length ?w"
    "(p, (rel, rh, ls, j)) = queued_for (h + 1 + i div ?m) (?w ! i)" by blast
  then have "?w ! i = (p, rel, ls, j)" "rh = Some (h + 1 + i div ?m)" by (cases "?w ! i"; simp)+
  with i(1) have "(p, rel, ls, j) \<in> set ?w" by (metis nth_mem)
  from waiting_in_queue [OF this] assms(1) \<open>rh = _\<close> show ?thesis by auto
qed

lemma updated_queue_order:
  assumes "hm_wf (queue s)" "0 < maximum_contributors_per_round (environment s)"
    "current_round_height s = Some h" "update_queue s = (r, s')"
    and j: "joined_at s' p = Some jp" "joined_at s' q = Some jq" "jp < jq"
  shows "the (assigned_round s' p) \<le> the (assigned_round s' q)"
proof -
  let ?m = "maximum_contributors_per_round (environment s)" and ?w = "waiting_contributors s"
  from j obtain e f where e: "hm_get (queue s') p = Some e" "hm_get (queue s') q = Some f"
    by (auto simp: joined_at_def)
  with updated_queue_lookup [OF assms(1-4)] obtain i k
    where i: "i < length ?w" "(p, e) = queued_for (h + 1 + i div ?m) (?w ! i)"
      and k: "k < length ?w" "(q, f) = queued_for (h + 1 + k div ?m) (?w ! k)" by blast
  have "\<not> k \<le> i"
  proof
    assume "k \<le> i"
    with sorted_nth_mono [OF waiting_sorted [of s], of k i] i(1) k(1)
    have "(\<lambda>(_, _, _, j). j) (?w ! k) \<le> (\<lambda>(_, _, _, j). j) (?w ! i)" by simp
    with i k e j show False by (cases "?w ! i"; cases "?w ! k") (auto simp: joined_at_def)
  qed
  then have "i div ?m \<le> k div ?m" by (intro div_le_mono) simp
  with i k e show ?thesis by (cases "?w ! i"; cases "?w ! k") (auto simp: assigned_round_def)
qed

lemma updated_queue_capacity:
  assumes "hm_wf (queue s)" "0 < maximum_contributors_per_round (environment s)"
    "current_round_height s = Some h" "update_queue s = (r, s')"
  shows "length (assigned_to_round s' n) \<le> maximum_contributors_per_round (environment s)"
proof -
  let ?m = "maximum_contributors_per_round (environment s)" and ?w = "waiting_contributors s"
  from assms(4) update_queue_queue [OF assms(1-3)]
  have q: "queue s' = map (\<lambda>(i, c). queued_for (h + 1 + i div ?m) c) (enumerate 0 ?w)" by auto
  have "length (assigned_to_round s' n) \<le>
      length (filter (\<lambda>(i, x). i div ?m = n - (h + 1)) (enumerate 0 ?w))"
    unfolding assigned_to_round_def q filter_map length_map
    by (rule length_filter_mono) auto
  with count_in_round [OF assms(2), of "n - (h + 1)" ?w] show ?thesis by (rule order_trans [rotated])
qed

lemma updated_queue_keys:
  assumes "hm_wf (queue s)" "0 < maximum_contributors_per_round (environment s)"
    "current_round_height s = Some h" "update_queue s = (r, s')"
  shows "map fst (queue s') = map fst (waiting_contributors s)"
  using assms(4) update_queue_queue [OF assms(1-3)] keys_assign_rounds [OF assms(2), of "h + 1"]
  by (auto simp: assign_rounds_nth [OF assms(2)])

text \<open>A small queue, to evaluate the operations on.\<close>

definition demo_environment :: Environment where
  "demo_environment =
     (the testing_default)\<lparr>maximum_contributors_per_round := 2, queue_wait_time := 0\<rparr>"

definition demo_state :: CoordinatorState where
  "demo_state = (initialize (state_new demo_environment) 0)
     \<lparr>queue := [(Contributor ''b'', (5, None, 20, 20)), (Contributor ''a'', (9, None, 10, 10)),
                (Contributor ''c'', (7, None, 30, 30))]\<rparr>"

lemma demo_state_simps [simp]:
  "hm_wf (queue demo_state)" "maximum_contributors_per_round (environment demo_state) = 2"
  "current_round_height demo_state = Some 0"
  by (simp_all add: demo_state_def initialize_def state_new_def demo_environment_def)

text \<open>
  \<^verbatim>\<open>update_queue\<close> keeps exactly the contributors that are not banned, with their
  reliability and times unchanged; everybody is assigned a future round; a contributor that
  joined earlier never has a later round; and no round gets more contributors than permitted.
\<close>

theorem update_queue_fifo:
  assumes "hm_wf (queue s)" and "0 < maximum_contributors_per_round (environment s)"
    and "current_round_height s = Some h" and "update_queue s = (r, s')"
  shows "r = Inr () \<and>
    set (hm_keys (queue s')) = {p \<in> set (hm_keys (queue s)). is_contributor p \<and> p \<notin> set (banned s)} \<and>
    (\<forall>p rel rh ls j. hm_get (queue s') p = Some (rel, rh, ls, j) \<longrightarrow>
      (\<exists>old. hm_get (queue s) p = Some (rel, old, ls, j) \<and> (\<exists>n > h. rh = Some n))) \<and>
    (\<forall>p q jp jq. joined_at s' p = Some jp \<and> joined_at s' q = Some jq \<and> jp < jq \<longrightarrow>
      the (assigned_round s' p) \<le> the (assigned_round s' q)) \<and>
    (\<forall>n. length (assigned_to_round s' n) \<le> maximum_contributors_per_round (environment s))"
proof (intro conjI allI impI)
  show "r = Inr ()" using assms(4) update_queue_queue [OF assms(1-3)] by simp
  show "set (hm_keys (queue s')) = {p \<in> set (hm_keys (queue s)). is_contributor p \<and> p \<notin> set (banned s)}"
    unfolding updated_queue_keys [OF assms] by (rule waiting_keys)
qed (use updated_queue_entry [OF assms] updated_queue_order [OF assms]
    updated_queue_capacity [OF assms] in blast)+

theorem update_queue_fifo_witness:
  "fst (update_queue demo_state) = Inr () \<and>
   set (hm_keys (queue (snd (update_queue demo_state)))) =
     {Contributor ''a'', Contributor ''b'', Contributor ''c''} \<and>
   (\<forall>n. length (assigned_to_round (snd (update_queue demo_state)) n) \<le> 2)"
proof -
  have "update_queue demo_state = (fst (update_queue demo_state), snd (update_queue demo_state))" by simp
  note facts = update_queue_fifo [OF demo_state_simps(1) _ demo_state_simps(3) this]
  have "set (hm_keys (queue demo_state)) = {Contributor ''a'', Contributor ''b'', Contributor ''c''}"
    "banned demo_state = []" by (auto simp: demo_state_def initialize_def state_new_def)
  with facts show ?thesis by auto
qed

section \<open>Contributors that share an address\<close>

lemma zero_reliability_lookup:
  "map_of (queue (zero_reliability p s)) q =
     map_option (\<lambda>e. if q = p then (0, snd e) else e) (map_of (queue s) q)"
  "map_of (current_contributors (zero_reliability p s)) q =
     map_option (\<lambda>i. if q = p then i\<lparr>reliability := 0\<rparr> else i) (map_of (current_contributors s) q)"
  "contributor_ips (zero_reliability p s) = contributor_ips s"
  by (cases "map_of (queue s) q"; cases "map_of (current_contributors s) q";
      auto simp: zero_reliability_def map_of_map_entry case_prod_beta split: option.splits)+

lemma zero_all_lookup:
  "map_of (queue (fold zero_reliability ps s)) q =
     map_option (\<lambda>e. if q \<in> set ps then (0, snd e) else e) (map_of (queue s) q)"
  "map_of (current_contributors (fold zero_reliability ps s)) q =
     map_option (\<lambda>i. if q \<in> set ps then i\<lparr>reliability := 0\<rparr> else i) (map_of (current_contributors s) q)"
  "contributor_ips (fold zero_reliability ps s) = contributor_ips s"
  by (induction ps arbitrary: s)
    (auto simp: zero_reliability_lookup option.map_comp comp_def option.map_ident
      intro!: option.map_cong)

lemma add_to_queue_duplicate:
  assumes "add_to_queue s p (Some ip) score now = (Inr (), s')"
    and "\<not> disable_reliability_zeroing (environment s)" "hm_get (contributor_ips s) ip = Some ps"
  shows "s' = (fold zero_reliability ps s)
    \<lparr>contributor_ips := hm_insert ip (hs_insert p ps) (contributor_ips s),
     queue := hm_insert p (0, None, now, now) (queue (fold zero_reliability ps s))\<rparr>"
proof -
  have "is_duplicate_ip s ip" unfolding is_duplicate_ip_def using assms(3) by (rule map_of_Some_in_keys)
  then show ?thesis
    using assms unfolding add_to_queue_def Let_def
    by (simp add: zero_duplicate_ips_def zero_all_lookup(3)
        split: if_splits Participant.splits)
qed

text \<open>
  When a contributor joins the queue from an IP that is already known, its own reliability
  and that of every queued and current contributor known from that IP become zero; the other
  participants keep theirs, and the IP is remembered for the newcomer.
\<close>

theorem duplicate_ip_zeroed:
  assumes "add_to_queue s p (Some ip) score now = (Inr (), s')"
    and "\<not> disable_reliability_zeroing (environment s)" and "hm_get (contributor_ips s) ip = Some ps"
  shows "hm_get (queue s') p = Some (0, None, now, now) \<and>
    (\<forall>q e. q \<in> set ps \<and> hm_get (queue s') q = Some e \<longrightarrow> fst e = 0) \<and>
    (\<forall>q info. q \<in> set ps \<and> hm_get (current_contributors s') q = Some info \<longrightarrow> reliability info = 0) \<and>
    (\<forall>q. q \<notin> insert p (set ps) \<longrightarrow> hm_get (queue s') q = hm_get (queue s) q \<and>
      hm_get (current_contributors s') q = hm_get (current_contributors s) q) \<and>
    p \<in> set (the (hm_get (contributor_ips s') ip))"
proof (intro conjI allI impI)
  note s' = add_to_queue_duplicate [OF assms]
  show "hm_get (queue s') p = Some (0, None, now, now)" by (simp add: s' update_conv')
  show "fst e = 0" if "q \<in> set ps \<and> hm_get (queue s') q = Some e" for q e
    using that by (cases "map_of (queue s) q") (auto simp: s' update_conv' zero_all_lookup split: if_splits)
  show "reliability info = 0" if "q \<in> set ps \<and> hm_get (current_contributors s') q = Some info" for q info
  proof -
    have "hm_get (current_contributors s') q =
        map_option (\<lambda>i. if q \<in> set ps then i\<lparr>reliability := 0\<rparr> else i) (map_of (current_contributors s) q)"
      by (simp add: s' zero_all_lookup)
    with that show ?thesis by (cases "map_of (current_contributors s) q") auto
  qed
  show "hm_get (queue s') q = hm_get (queue s) q" "hm_get (current_contributors s') q = hm_get (current_contributors s) q"
    if "q \<notin> insert p (set ps)" for q
    using that by (simp_all add: s' update_conv' zero_all_lookup option.map_ident)
  show "p \<in> set (the (hm_get (contributor_ips s') ip))" by (simp add: s' hs_insert_def update_conv')
qed

theorem duplicate_ip_zeroed_witness:
  "hm_get (queue (snd (add_to_queue (demo_state\<lparr>contributor_ips := [(V4 1, [Contributor ''a''])]\<rparr>)
     (Contributor ''d'') (Some (V4 1)) 10 50))) (Contributor ''d'') = Some (0, None, 50, 50)"
proof -
  let ?s = "demo_state\<lparr>contributor_ips := [(V4 1, [Contributor ''a''])]\<rparr>"
  have env: "\<not> disable_reliability_zeroing (environment ?s)"
    by (simp add: demo_state_def initialize_def state_new_def demo_environment_def preset_defs)
  have ok: "add_to_queue ?s (Contributor ''d'') (Some (V4 1)) 10 50 =
      (Inr (), snd (add_to_queue ?s (Contributor ''d'') (Some (V4 1)) 10 50))"
    by (simp add: add_to_queue_def Let_def demo_state_def initialize_def state_new_def
        is_authorized_contributor_def demo_environment_def preset_defs split: prod.splits)
  have "hm_get (contributor_ips ?s) (V4 1) = Some [Contributor ''a'']" by simp
  from duplicate_ip_zeroed [OF ok env this] show ?thesis by blast
qed

end
