(* ===== verification/Coordinator_Tasks.thy ===== *)
theory Coordinator_Tasks
  imports Coordinator_State
begin

text \<open>
  \<^verbatim>\<open>phase1-coordinator/src/coordinator_state.rs\<close>: the operations with which the
  participants of the current round work on their tasks, the map of contributions that wait
  for verification, the timers and metrics of the round, and its aggregation flags.
\<close>

text \<open>
  \<^verbatim>\<open>OffsetDateTime::unix_timestamp\<close>: whole seconds, rounded towards the past.
\<close>

definition unix_timestamp :: "OffsetDateTime \<Rightarrow> int" where
  "unix_timestamp t = t div 1000000000"

text \<open>
  A call on the reference to a participant of the current round: an unknown participant is an
  error, otherwise the call's result is returned and what it leaves of the participant is kept.
\<close>

definition on_participant ::
  "CoordinatorState \<Rightarrow> Participant \<Rightarrow> (ParticipantInfo \<Rightarrow> ('a, ParticipantInfo) fallible) \<Rightarrow>
   'a state_outcome" where
  "on_participant self p call =
     (case current_participant_info self p of
        None \<Rightarrow> (Inl (ParticipantNotFound p), self)
      | Some info \<Rightarrow>
          (let (r, info') = call info in (r, set_current_participant_info self p info')))"

definition start_task_timer ::
  "CoordinatorState \<Rightarrow> Participant \<Rightarrow> Task \<Rightarrow> OffsetDateTime \<Rightarrow> CoordinatorState" where
  "start_task_timer self p task now =
     (case current_metrics self of
        None \<Rightarrow> self
      | Some metrics \<Rightarrow>
          (let tasks = (case hm_get (task_timer metrics) p of Some ts \<Rightarrow> ts | None \<Rightarrow> []);
               updated = hm_insert task (unix_timestamp now, None) tasks
           in self\<lparr>current_metrics :=
                Some (metrics\<lparr>task_timer := hm_insert p updated (task_timer metrics)\<rparr>)\<rparr>))"

definition stop_task_timer ::
  "CoordinatorState \<Rightarrow> Participant \<Rightarrow> Task \<Rightarrow> OffsetDateTime \<Rightarrow> CoordinatorState" where
  "stop_task_timer self p task now =
     (case current_metrics self of
        None \<Rightarrow> self
      | Some metrics \<Rightarrow>
          (case hm_get (task_timer metrics) p of
             None \<Rightarrow> self
           | Some tasks \<Rightarrow>
               (case hm_get tasks task of
                  None \<Rightarrow> self
                | Some _ \<Rightarrow>
                    (let updated = hm_modify task
                           (\<lambda>(s, e). (s, case e of None \<Rightarrow> Some (unix_timestamp now) | Some t \<Rightarrow> Some t)) tasks
                     in self\<lparr>current_metrics :=
                          Some (metrics\<lparr>task_timer := hm_insert p updated (task_timer metrics)\<rparr>)\<rparr>))))"

definition fetch_task :: "CoordinatorState \<Rightarrow> Participant \<Rightarrow> OffsetDateTime \<Rightarrow> Task state_outcome" where
  "fetch_task self participant now =
     (case participant of
        Verifier _ \<Rightarrow> (Inl ExpectedContributor, self)
      | Contributor _ \<Rightarrow>
          (case hm_get (current_contributors self) participant of
             None \<Rightarrow> (Inl (ParticipantNotFound participant), self)
           | Some info \<Rightarrow>
               if length (locked_chunks info) < contributor_lock_chunk_limit (environment self)
               then and_then (on_participant self participant (\<lambda>i. pi_pop_task i now))
                      (\<lambda>task self. (Inr task, start_task_timer self participant task now))
               else (Inl ParticipantHasLockedMaximumChunks, self)))"

definition acquired_lock ::
  "CoordinatorState \<Rightarrow> Participant \<Rightarrow> u64 \<Rightarrow> OffsetDateTime \<Rightarrow> unit state_outcome" where
  "acquired_lock self participant c now =
     (if number_of_chunks (environment self) < c then (Inl ChunkIdInvalid, self)
      else
        (case participant of
           Verifier _ \<Rightarrow> (Inl ExpectedContributor, self)
         | Contributor _ \<Rightarrow> on_participant self participant (\<lambda>i. pi_acquired_lock i c now)))"

definition rollback_pending_task ::
  "CoordinatorState \<Rightarrow> Participant \<Rightarrow> Task \<Rightarrow> OffsetDateTime \<Rightarrow> unit state_outcome" where
  "rollback_pending_task self participant task now =
     (if number_of_chunks (environment self) < chunk_id task then (Inl ChunkIdInvalid, self)
      else on_participant self participant (\<lambda>i. pi_rollback_pending_task i task now))"

definition rollback_locked_task ::
  "CoordinatorState \<Rightarrow> Participant \<Rightarrow> Task \<Rightarrow> OffsetDateTime \<Rightarrow> unit state_outcome" where
  "rollback_locked_task self participant task now =
     (if number_of_chunks (environment self) < chunk_id task then (Inl ChunkIdInvalid, self)
      else on_participant self participant (\<lambda>i. pi_rollback_locked_task i task now))"

text \<open>
  The end of the two lookups: the tasks on the chunk, among those in the given list, when the
  participant has locked it.
\<close>

definition the_task_on_chunk ::
  "ParticipantInfo \<Rightarrow> Task list \<Rightarrow> u64 \<Rightarrow> CoordinatorError + Task option" where
  "the_task_on_chunk info tasks c =
     (if hm_contains (locked_chunks info) c
      then (case filter (\<lambda>t. task_contains t c) tasks of
              [] \<Rightarrow> Inr None
            | [t] \<Rightarrow> Inr (Some t)
            | _ \<Rightarrow> Inl ParticipantLockedChunkWithManyContributions)
      else Inl ParticipantDidntLockChunkId)"

definition lookup_pending_task ::
  "CoordinatorState \<Rightarrow> Participant \<Rightarrow> u64 \<Rightarrow> CoordinatorError + Task option" where
  "lookup_pending_task self participant c =
     (if number_of_chunks (environment self) < c then Inl ChunkIdInvalid
      else
        (case current_participant_info self participant of
           None \<Rightarrow> Inl (ParticipantNotFound participant)
         | Some info \<Rightarrow> the_task_on_chunk info (pending_tasks info) c))"

definition lookup_disposing_task ::
  "CoordinatorState \<Rightarrow> Participant \<Rightarrow> u64 \<Rightarrow> CoordinatorError + Task option" where
  "lookup_disposing_task self participant c =
     (if number_of_chunks (environment self) < c then Inl ChunkIdInvalid
      else
        (case current_participant_info self participant of
           None \<Rightarrow> Inl (ParticipantNotFound participant)
         | Some info \<Rightarrow> the_task_on_chunk info (disposing_tasks info) c))"

definition disposed_task ::
  "CoordinatorState \<Rightarrow> Participant \<Rightarrow> Task \<Rightarrow> OffsetDateTime \<Rightarrow> unit state_outcome" where
  "disposed_task self participant task now =
     (if number_of_chunks (environment self) < chunk_id task then (Inl ChunkIdInvalid, self)
      else on_participant self participant
             (\<lambda>i. pi_dispose_task i (chunk_id task) (contribution_id task) now))"

definition add_pending_verification :: "CoordinatorState \<Rightarrow> Task \<Rightarrow> unit state_outcome" where
  "add_pending_verification self task =
     (if number_of_chunks (environment self) < chunk_id task then (Inl ChunkIdInvalid, self)
      else if hm_contains (pending_verification self) task then (Inl ChunkIdAlreadyAdded, self)
      else
        (case coordinator_verifiers (environment self) of
           [] \<Rightarrow> (Inl VerifierMissing, self)
         | verifier # _ \<Rightarrow>
             (Inr (), self\<lparr>pending_verification :=
                hm_insert task verifier (pending_verification self)\<rparr>)))"

definition remove_pending_verification :: "CoordinatorState \<Rightarrow> Task \<Rightarrow> unit state_outcome" where
  "remove_pending_verification self task =
     (if number_of_chunks (environment self) < chunk_id task then (Inl ChunkIdInvalid, self)
      else if \<not> hm_contains (pending_verification self) task then (Inl ChunkIdMissing, self)
      else (Inr (), self\<lparr>pending_verification := hm_remove task (pending_verification self)\<rparr>))"

definition completed_task ::
  "CoordinatorState \<Rightarrow> Participant \<Rightarrow> Task \<Rightarrow> OffsetDateTime \<Rightarrow> unit state_outcome" where
  "completed_task self participant task now =
     (if number_of_chunks (environment self) < chunk_id task then (Inl ChunkIdInvalid, self)
      else
        (case participant of
           Contributor _ \<Rightarrow>
             and_then (on_participant self participant (\<lambda>i. pi_completed_task i task now))
               (\<lambda>_ self. add_pending_verification (stop_task_timer self participant task now) task)
         | Verifier _ \<Rightarrow> remove_pending_verification self task))"

section \<open>Finished contributors\<close>

text \<open>
  The filter closure of \<^verbatim>\<open>update_current_contributors\<close>: the contributors that stay, and the
  newly finished ones it collects on the way.
\<close>

fun finish_contributors ::
  "OffsetDateTime \<Rightarrow> (Participant \<times> ParticipantInfo) list \<Rightarrow> (Participant, ParticipantInfo) hashmap \<Rightarrow>
   (Participant \<times> ParticipantInfo) list \<times> (Participant, ParticipantInfo) hashmap" where
  "finish_contributors now [] newly_finished = ([], newly_finished)"
| "finish_contributors now ((p, info) # rest) newly_finished =
     (if pi_is_finished info then finish_contributors now rest newly_finished
      else
        (case pi_finish info now of
           (Inl _, _) \<Rightarrow>
             (let (stay, newly) = finish_contributors now rest newly_finished
              in ((p, info) # stay, newly))
         | (Inr _, finished_info) \<Rightarrow>
             finish_contributors now rest (hm_insert p finished_info newly_finished)))"

definition update_current_contributors :: "CoordinatorState \<Rightarrow> OffsetDateTime \<Rightarrow> unit state_outcome" where
  "update_current_contributors self now =
     (case current_round_height self of
        None \<Rightarrow> (Inl RoundHeightNotSet, self)
      | Some height \<Rightarrow>
          (let (stay, newly_finished) = finish_contributors now (current_contributors self) [];
               self' = self\<lparr>current_contributors := stay\<rparr>
           in if length (current_contributors self) \<noteq> length stay + length newly_finished
              then (Inl RoundUpdateCorruptedStateOfContributors, self')
              else
                (case hm_get (finished_contributors self') height of
                   None \<Rightarrow> (Inl RoundCommitFailedOrCorrupted, self')
                 | Some contributors \<Rightarrow>
                     (Inr (), self'\<lparr>finished_contributors :=
                        hm_modify height (hm_extend newly_finished) (finished_contributors self')\<rparr>))))"

section \<open>Aggregation\<close>

definition update_next_round_after :: "CoordinatorState \<Rightarrow> OffsetDateTime \<Rightarrow> CoordinatorState" where
  "update_next_round_after self now =
     (case current_metrics self of
        None \<Rightarrow> self
      | Some metrics \<Rightarrow>
          self\<lparr>current_metrics := Some (metrics\<lparr>next_round_after :=
            Some (now + duration_seconds (int (queue_wait_time (environment self))))\<rparr>)\<rparr>)"

definition aggregating_current_round :: "CoordinatorState \<Rightarrow> OffsetDateTime \<Rightarrow> unit state_outcome" where
  "aggregating_current_round self now =
     (case current_metrics self of
        None \<Rightarrow> (Inl CoordinatorStateNotInitialized, self)
      | Some metrics \<Rightarrow>
          if started_aggregation_at metrics \<noteq> None then (Inl RoundAggregationFailed, self)
          else if is_round_aggregated metrics \<or> finished_aggregation_at metrics \<noteq> None
          then (Inl RoundAlreadyAggregated, self)
          else (Inr (), self\<lparr>current_metrics := Some (metrics\<lparr>started_aggregation_at := Some now\<rparr>)\<rparr>))"

definition aggregated_current_round :: "CoordinatorState \<Rightarrow> OffsetDateTime \<Rightarrow> unit state_outcome" where
  "aggregated_current_round self now =
     (case current_metrics self of
        None \<Rightarrow> (Inl CoordinatorStateNotInitialized, self)
      | Some metrics \<Rightarrow>
          if started_aggregation_at metrics = None then (Inl RoundAggregationFailed, self)
          else if is_round_aggregated metrics \<or> finished_aggregation_at metrics \<noteq> None
          then (Inl RoundAlreadyAggregated, self)
          else
            (let metrics' = metrics\<lparr>is_round_aggregated := True, finished_aggregation_at := Some now\<rparr>;
                 self' = self\<lparr>current_metrics := Some metrics'\<rparr>
             in (Inr (), if next_round_after metrics' = None then update_next_round_after self' now
                         else self')))"

definition rollback_aggregating_current_round :: "CoordinatorState \<Rightarrow> unit state_outcome" where
  "rollback_aggregating_current_round self =
     (case current_metrics self of
        None \<Rightarrow> (Inl CoordinatorStateNotInitialized, self)
      | Some metrics \<Rightarrow>
          if is_round_aggregated metrics \<or> finished_aggregation_at metrics \<noteq> None
          then (Inl RoundAlreadyAggregated, self)
          else (Inr (), self\<lparr>current_metrics := Some (metrics\<lparr>started_aggregation_at := None\<rparr>)\<rparr>))"

section \<open>Metrics\<close>

text \<open>The timed tasks of a participant, and their average in seconds.\<close>

definition timed_tasks :: "(Task, int \<times> int option) hashmap \<Rightarrow> u64 list" where
  "timed_tasks tasks =
     List.map_filter (\<lambda>(_, (s, e)).
       case e of Some e' \<Rightarrow> (if s < e' then Some (nat (e' - s)) else None) | None \<Rightarrow> None) tasks"

record AverageTotals =
  averages :: "(Participant, u64) hashmap"
  contributor_sum :: u64
  contributor_count :: u64
  verifier_sum :: u64
  verifier_count :: u64

text \<open>One turn of the loop over the task timers.\<close>

definition add_average ::
  "Participant \<times> (Task, int \<times> int option) hashmap \<Rightarrow> AverageTotals \<Rightarrow> AverageTotals" where
  "add_average entry totals =
     (let (participant, tasks) = entry; timed = timed_tasks tasks in
      if 0 < length timed
      then
        (let average = sum_list timed div length timed;
             totals' = totals\<lparr>averages := hm_insert participant average (averages totals)\<rparr>
         in (case participant of
               Contributor _ \<Rightarrow>
                 totals'\<lparr>contributor_sum := contributor_sum totals + average,
                         contributor_count := contributor_count totals + 1\<rparr>
             | Verifier _ \<Rightarrow>
                 totals'\<lparr>verifier_sum := verifier_sum totals + average,
                         verifier_count := verifier_count totals + 1\<rparr>))
      else totals)"

definition remaining_seconds :: "(Participant, u64) hashmap \<Rightarrow> u64 \<Rightarrow> (Participant, ParticipantInfo) hashmap \<Rightarrow> u64" where
  "remaining_seconds per_task fallback contributors =
     sum_list (map (\<lambda>(p, info).
       (case hm_get per_task p of Some seconds \<Rightarrow> seconds | None \<Rightarrow> fallback) *
       (length (pending_tasks info) + length (assigned_tasks info))) contributors)"

definition update_round_metrics :: "CoordinatorState \<Rightarrow> CoordinatorState" where
  "update_round_metrics self =
     (if is_current_round_finished self then self
      else
        (case current_metrics self of
           None \<Rightarrow> self
         | Some metrics \<Rightarrow>
             (let totals = fold add_average (task_timer metrics)
                    \<lparr>averages = seconds_per_task metrics, contributor_sum = 0, contributor_count = 0,
                     verifier_sum = 0, verifier_count = 0\<rparr>;
                  has_c = 0 < contributor_count totals; has_v = 0 < verifier_count totals;
                  average_c = (if has_c then contributor_sum totals div contributor_count totals else 0);
                  average_v = (if has_v then verifier_sum totals div verifier_count totals else 0);
                  metrics1 = metrics\<lparr>seconds_per_task := averages totals,
                    contributor_average_per_task :=
                      (if has_c then Some average_c else contributor_average_per_task metrics),
                    verifier_average_per_task :=
                      (if has_v then Some average_v else verifier_average_per_task metrics)\<rparr>;
                  left = length (current_contributors self);
                  cumulative = remaining_seconds (averages totals) average_c (current_contributors self);
                  remaining =
                    (case proving_system (parameters (environment self)) of
                       Groth16 \<Rightarrow> (cumulative div left) div 2
                     | Marlin \<Rightarrow> cumulative div left);
                  aggregation = (average_c + average_v) * number_of_chunks (environment self);
                  metrics2 =
                    (if 0 < left
                     then metrics1\<lparr>estimated_finish_time := Some remaining,
                       estimated_aggregation_time := Some aggregation,
                       estimated_wait_time :=
                         Some (remaining + aggregation + queue_wait_time (environment self))\<rparr>
                     else metrics1)
              in self\<lparr>current_metrics := Some metrics2\<rparr>)))"

section \<open>Completion and verification\<close>

lemma stop_task_timer_frame [simp]:
  "environment (stop_task_timer s p t now) = environment s"
  "pending_verification (stop_task_timer s p t now) = pending_verification s"
  "current_contributors (stop_task_timer s p t now) = current_contributors s"
  by (auto simp: stop_task_timer_def Let_def split: option.splits)

lemma set_current_participant_info_frame [simp]:
  "environment (set_current_participant_info s p i) = environment s"
  "pending_verification (set_current_participant_info s p i) = pending_verification s"
  by (cases p; simp add: set_current_participant_info_def)+

lemma delete_update_new: "k \<notin> set (map fst m) \<Longrightarrow> AList.delete k (AList.update k v m) = m"
  by (induction m) auto

lemma completed_by_contributor:
  assumes "completed_task s (Contributor c) t now = (Inr (), s')"
  obtains info info' v vs where
    "map_of (current_contributors s) (Contributor c) = Some info"
    "pi_completed_task info t now = (Inr (), info')" "t \<notin> set (map fst (pending_verification s))"
    "coordinator_verifiers (environment s) = v # vs" "chunk_id t \<le> number_of_chunks (environment s)"
    "current_contributors s' = AList.map_entry (Contributor c) (\<lambda>_. info') (current_contributors s)"
    "pending_verification s' = AList.update t v (pending_verification s)"
    "environment s' = environment s"
proof -
  from assms obtain s1 where bound: "\<not> number_of_chunks (environment s) < chunk_id t"
    and part: "on_participant s (Contributor c) (\<lambda>i. pi_completed_task i t now) = (Inr (), s1)"
    and add: "add_pending_verification (stop_task_timer s1 (Contributor c) t now) t = (Inr (), s')"
    by (auto simp: completed_task_def and_then_ok_iff split: if_splits)
  from part obtain info info' where info: "map_of (current_contributors s) (Contributor c) = Some info"
    "pi_completed_task info t now = (Inr (), info')"
    "s1 = s\<lparr>current_contributors := AList.map_entry (Contributor c) (\<lambda>_. info') (current_contributors s)\<rparr>"
    by (auto simp: on_participant_def current_participant_info_def set_current_participant_info_def
        split: option.splits prod.splits)
  from add obtain v vs where "coordinator_verifiers (environment s) = v # vs"
    "t \<notin> set (map fst (pending_verification s))"
    "s' = (stop_task_timer s1 (Contributor c) t now)\<lparr>pending_verification :=
       AList.update t v (pending_verification s)\<rparr>"
    unfolding add_pending_verification_def info(3) by (auto split: if_splits list.splits)
  with that info bound show ?thesis by auto
qed

text \<open>
  When a contributor completes a task, the task leaves its pending tasks for its completed
  ones, the lock on the chunk is released, and the contribution waits for the first verifier of
  the coordinator; once a verifier completes it, it waits no longer, and what else was waiting
  still is.
\<close>

theorem completed_then_verified:
  assumes "completed_task s (Contributor c) t now = (Inr (), s')"
    and "completed_task s' (Verifier w) t later = (r, s'')"
  shows "(\<exists>info info'. hm_get (current_contributors s) (Contributor c) = Some info \<and>
      hm_get (current_contributors s') (Contributor c) = Some info' \<and>
      t \<in> set (pending_tasks info) \<and> t \<notin> set (pending_tasks info') \<and>
      completed_tasks info' = completed_tasks info @ [t] \<and>
      chunk_id t \<notin> set (hm_keys (locked_chunks info'))) \<and>
    hm_get (pending_verification s') t = Some (hd (coordinator_verifiers (environment s))) \<and>
    r = Inr () \<and> pending_verification s'' = pending_verification s"
proof -
  from assms(1) obtain info info' v vs where f: "map_of (current_contributors s) (Contributor c) = Some info"
    "pi_completed_task info t now = (Inr (), info')" "t \<notin> set (map fst (pending_verification s))"
    "coordinator_verifiers (environment s) = v # vs" "chunk_id t \<le> number_of_chunks (environment s)"
    "current_contributors s' = AList.map_entry (Contributor c) (\<lambda>_. info') (current_contributors s)"
    "pending_verification s' = AList.update t v (pending_verification s)" "environment s' = environment s"
    by (rule completed_by_contributor)
  from pi_completed_task_ok(1,4) [OF f(2)] have info': "t \<in> set (pending_tasks info)"
    "t \<notin> set (pending_tasks info')" "completed_tasks info' = completed_tasks info @ [t]"
    "chunk_id t \<notin> set (map fst (locked_chunks info'))" by (auto simp: keys_delete [simplified])
  have look: "map_of (current_contributors s') (Contributor c) = Some info'"
    using f(1) by (simp add: f(6) map_of_map_entry)
  have pv: "map_of (pending_verification s') t = Some (hd (coordinator_verifiers (environment s)))"
    by (simp add: f(4,7) update_conv')
  have "AList.delete t (AList.update t v (pending_verification s)) = pending_verification s"
    by (rule delete_update_new [OF f(3)])
  then have "r = Inr () \<and> pending_verification s'' = pending_verification s"
    using assms(2) f(3,5,7,8)
    by (auto simp: completed_task_def remove_pending_verification_def update_new)
  with f(1) look info' pv show ?thesis by blast
qed

text \<open>A contributor that has locked the chunk of its pending task.\<close>

definition demo_working :: CoordinatorState where
  "demo_working = demo_state\<lparr>current_contributors := [(Contributor ''a'',
     (pi_new (Contributor ''a'') 1 9 0 0)\<lparr>started_at := Some 0, pending_tasks := [new_task 0 1],
        assigned_tasks := [new_task 1 1], locked_chunks := [(0, chunk_lock_new 0 5)]\<rparr>)]\<rparr>"

theorem completed_then_verified_witness:
  "\<exists>s'. completed_task demo_working (Contributor ''a'') (new_task 0 1) 7 = (Inr (), s') \<and>
     hm_get (pending_verification s') (new_task 0 1) = Some (Verifier ''testing-coordinator-verifier'') \<and>
     pending_verification (snd (completed_task s' (Verifier ''v'') (new_task 0 1) 8)) = []"
proof -
  have v: "coordinator_verifiers (environment demo_working) = [Verifier ''testing-coordinator-verifier'']"
    "number_of_chunks (environment demo_working) = 3" "pending_verification demo_working = []"
    by (simp_all add: demo_working_def demo_state_def initialize_def state_new_def demo_environment_def
        preset_defs new_verifier_participant_def)
  then have "fst (completed_task demo_working (Contributor ''a'') (new_task 0 1) 7) = Inr ()"
    by (simp add: completed_task_def on_participant_def current_participant_info_def
        pi_completed_task_def if_active_def pi_new_def add_pending_verification_def demo_working_def
        set_current_participant_info_def)
  then obtain s' where ok: "completed_task demo_working (Contributor ''a'') (new_task 0 1) 7 = (Inr (), s')"
    by (metis prod.collapse)
  obtain r s'' where "completed_task s' (Verifier ''v'') (new_task 0 1) 8 = (r, s'')" by fastforce
  from completed_then_verified [OF ok this] ok this v show ?thesis by (intro exI [of _ s']) simp
qed

text \<open>
  The aggregation of a round is a protocol: it starts once, it ends only after it has
  started and only once, a start can be rolled back until then, and after the end the next
  round may start no earlier than the configured wait.
\<close>

theorem aggregation_protocol:
  assumes "current_metrics s = Some m" and "started_aggregation_at m = None"
    and "\<not> is_round_aggregated m" and "finished_aggregation_at m = None" and "next_round_after m = None"
  shows "(case aggregating_current_round s now of (r, s1) \<Rightarrow>
      r = Inr () \<and> is_current_round_aggregating s1 \<and>
      rollback_aggregating_current_round s1 = (Inr (), s) \<and>
      fst (aggregating_current_round s1 now) = Inl RoundAggregationFailed \<and>
      (case aggregated_current_round s1 later of (r', s2) \<Rightarrow>
         r' = Inr () \<and> is_current_round_aggregated s2 \<and> \<not> is_current_round_aggregating s2 \<and>
         fst (aggregated_current_round s2 later) = Inl RoundAlreadyAggregated \<and>
         fst (rollback_aggregating_current_round s2) = Inl RoundAlreadyAggregated \<and>
         map_option next_round_after (current_metrics s2) =
           Some (Some (later + duration_seconds (int (queue_wait_time (environment s))))))) \<and>
    fst (aggregated_current_round s now) = Inl RoundAggregationFailed"
  using assms
  by (simp add: aggregating_current_round_def aggregated_current_round_def update_next_round_after_def
      rollback_aggregating_current_round_def is_current_round_aggregating_def
      is_current_round_aggregated_def Let_def)

theorem aggregation_protocol_witness:
  "fst (aggregating_current_round demo_state 5) = Inr () \<and>
   is_current_round_aggregated (snd (aggregated_current_round (snd (aggregating_current_round demo_state 5)) 6))"
proof -
  have "current_metrics demo_state = Some metrics_default"
    by (simp add: demo_state_def initialize_def state_new_def)
  from aggregation_protocol [OF this, where now = 5 and later = 6]
  show ?thesis by (simp add: metrics_default_def case_prod_beta)
qed

end
