(* ===== verification/Coordinator_Rounds.thy ===== *)
theory Coordinator_Rounds
  imports Coordinator_Tasks
begin

text \<open>
  \<^verbatim>\<open>phase1-coordinator/src/coordinator_state.rs\<close>: the transition to the next round in two
  phases, precommit and commit, its rollback, and the reset of the current round.
\<close>

section \<open>Precommit\<close>

text \<open>
  The loop over the sorted contributors: bucket by bucket, each one gets its tasks, moves from
  the queue into the staging area and into the result. An error leaves the function at once.
\<close>

fun stage_contributors ::
  "u64 \<Rightarrow> u64 \<Rightarrow> u64 \<Rightarrow> u64 \<Rightarrow> OffsetDateTime \<Rightarrow>
   (nat \<times> Participant \<times> u8 \<times> u64 \<times> OffsetDateTime \<times> OffsetDateTime) list \<Rightarrow>
   (Participant, QueueEntry) hashmap \<times> (Participant, ParticipantInfo) hashmap \<times> Participant list \<Rightarrow>
   CoordinatorError +
     (Participant, QueueEntry) hashmap \<times> (Participant, ParticipantInfo) hashmap \<times> Participant list" where
  "stage_contributors next_height height n k now [] staged = Inr staged"
| "stage_contributors next_height height n k now ((bucket, p, rel, next_round, _, _) # rest) (q, nxt, out) =
     (case from_task_error (initialize_tasks bucket n k) of
        Inl e \<Rightarrow> Inl e
      | Inr tasks \<Rightarrow>
          if next_round \<noteq> next_height \<and> next_round \<noteq> height + 1 then Inl RoundHeightMismatch
          else
            (case pi_start (pi_new p next_height rel bucket now) tasks now of
               (Inl e, _) \<Rightarrow> Inl e
             | (Inr _, info) \<Rightarrow>
                 if assigned_tasks info = [] then Inl ParticipantNotReady
                 else stage_contributors next_height height n k now rest
                        (hm_remove p q, hm_insert p info nxt, out @ [p])))"

text \<open>The queued contributors of the next round, most reliable first.\<close>

definition round_contributors ::
  "CoordinatorState \<Rightarrow> u64 \<Rightarrow> (Participant \<times> u8 \<times> u64 \<times> OffsetDateTime \<times> OffsetDateTime) list" where
  "round_contributors self next_height =
     filter (\<lambda>(p, (_, rh, _, _)). is_contributor p \<and> rh = next_height)
       (map (\<lambda>(p, (r, rh, ls, j)). (p, (r, (case rh of None \<Rightarrow> 0 | Some h \<Rightarrow> h), ls, j))) (queue self))"

definition precommit_next_round ::
  "CoordinatorState \<Rightarrow> u64 \<Rightarrow> OffsetDateTime \<Rightarrow> Participant list state_outcome" where
  "precommit_next_round self next_height now =
     (if status self = Initializing then (Inl CoordinatorStateNotInitialized, self)
      else if status self = Precommit then (Inl NextRoundAlreadyInPrecommit, self)
      else
        (case current_round_height self of
           None \<Rightarrow> (Inl RoundHeightNotSet, self)
         | Some height \<Rightarrow>
             if next_height \<noteq> height + 1 then (Inl RoundHeightMismatch, self)
             else if queue self = [] then (Inl QueueIsEmpty, self)
             else if next_participants self \<noteq> [] then (Inl NextRoundShouldBeEmpty, self)
             else if \<not> is_current_round_finished self then (Inl RoundNotComplete, self)
             else if 0 < round_height_or_zero self \<and> \<not> is_current_round_aggregated self
             then (Inl RoundNotAggregated, self)
             else if (case current_metrics self of
                        None \<Rightarrow> False
                      | Some m \<Rightarrow> (case next_round_after m of None \<Rightarrow> False | Some t \<Rightarrow> now < t))
             then (Inl QueueWaitTimeIncomplete, self)
             else
               (let contributors = round_contributors self next_height;
                    k = length contributors
                in if 0 < length (filter (\<lambda>(p, _). p \<in> set (banned self)) contributors)
                   then (Inl ParticipantUnauthorized, self)
                   else if k < minimum_contributors_per_round (environment self) \<or>
                           maximum_contributors_per_round (environment self) < k
                   then (Inl RoundNumberOfContributorsUnauthorized, self)
                   else
                     (case stage_contributors next_height height
                             (number_of_chunks (environment self)) k now
                             (enumerate 0 (sort_key (\<lambda>(_, (r, _, _, _)). - int r) contributors))
                             (queue self, [], []) of
                        Inl e \<Rightarrow> (Inl e, self)
                      | Inr (q, nxt, next_contributors) \<Rightarrow>
                          (Inr next_contributors,
                           self\<lparr>queue := q, next_participants := nxt, status := Precommit\<rparr>)))))"

section \<open>Commit and rollback\<close>

text \<open>The loop that moves the staged participants into the current round.\<close>

fun commit_participants ::
  "(Participant \<times> ParticipantInfo) list \<Rightarrow>
   (Participant, ParticipantInfo) hashmap \<times> (Participant, ParticipantInfo) hashmap \<times> u64 \<times> u64 \<Rightarrow>
   (Participant, ParticipantInfo) hashmap \<times> (Participant, ParticipantInfo) hashmap \<times> u64 \<times> u64" where
  "commit_participants [] acc = acc"
| "commit_participants ((p, info) # rest) (cs, vs, nc, nv) =
     (case p of
        Contributor _ \<Rightarrow> commit_participants rest (hm_insert p info cs, vs, nc + 1, nv)
      | Verifier _ \<Rightarrow> commit_participants rest (cs, hm_insert p info vs, nc, nv + 1))"

definition commit_next_round :: "CoordinatorState \<Rightarrow> CoordinatorState" where
  "commit_next_round self =
     (if status self \<noteq> Precommit then self
      else
        (case current_round_height self of
           None \<Rightarrow> self
         | Some height \<Rightarrow>
             (let next_height = height + 1;
                  (cs, vs, nc, nv) = commit_participants (next_participants self)
                    (current_contributors self, current_verifiers self, 0, 0)
              in self\<lparr>current_round_height := Some next_height, status := Commit,
                      current_contributors := cs, current_verifiers := vs,
                      current_metrics := Some (metrics_default
                        \<lparr>number_of_contributors := nc, number_of_verifiers := nv\<rparr>),
                      finished_contributors := hm_insert next_height [] (finished_contributors self),
                      finished_verifiers := hm_insert next_height [] (finished_verifiers self),
                      next_participants := []\<rparr>)))"

text \<open>The entry with which a participant returns to the queue.\<close>

definition requeued :: "OffsetDateTime \<Rightarrow> Participant \<times> ParticipantInfo \<Rightarrow> Participant \<times> QueueEntry" where
  "requeued now entry =
     (fst entry, (reliability (snd entry), Some (round_height (snd entry)), now, now))"

definition rollback_next_round :: "CoordinatorState \<Rightarrow> OffsetDateTime \<Rightarrow> CoordinatorState" where
  "rollback_next_round self now =
     (if status self \<noteq> Precommit then self
      else self\<lparr>status := Rollback,
                queue := hm_extend (map (requeued now) (next_participants self)) (queue self),
                next_participants := []\<rparr>)"

section \<open>Reset\<close>

record ResetCurrentRoundStorageAction =
  remove_participants :: "Participant list"
  rollback :: bool

text \<open>The restarted contributors, in the order of current and then finished ones.\<close>

definition restart_contributor ::
  "u64 \<Rightarrow> u64 \<Rightarrow> OffsetDateTime \<Rightarrow> nat \<times> Participant \<times> ParticipantInfo \<Rightarrow>
   CoordinatorError + Participant \<times> ParticipantInfo" where
  "restart_contributor n k now entry =
     (let (bucket, p, info) = entry in
      case from_task_error (initialize_tasks bucket n k) of
        Inl e \<Rightarrow> Inl e
      | Inr tasks \<Rightarrow>
          (case pi_restart_tasks info tasks now of
             (Inl e, _) \<Rightarrow> Inl e
           | (Inr _, info') \<Rightarrow> Inr (p, info')))"

definition reset_current_round ::
  "CoordinatorState \<Rightarrow> bool \<Rightarrow> OffsetDateTime \<Rightarrow> ResetCurrentRoundStorageAction state_outcome" where
  "reset_current_round self force_rollback now =
     (case current_round_height self of
        None \<Rightarrow> (Inl RoundDoesNotExist, self)
      | Some height \<Rightarrow>
          if height = 0 then (Inl RoundHeightIsZero, self)
          else
            (let finished = finished_in_round self height;
                 k = length (current_contributors self) + length finished;
                 n = number_of_chunks (environment self)
             in case collect_results (restart_contributor n k now)
                       (enumerate 0 (current_contributors self @ finished)) of
                  Inl e \<Rightarrow> (Inl e, self)
                | Inr restarted \<Rightarrow>
                    if force_rollback \<or> k = 0
                    then
                      (let new_height = height - 1;
                           removed = map fst (current_contributors self @ finished);
                           metrics = metrics_default\<lparr>is_round_aggregated := True,
                             started_aggregation_at := Some now, finished_aggregation_at := Some now\<rparr>;
                           q = hm_extend (map (requeued now) (hm_collect restarted @ next_participants self))
                                 (queue self);
                           self1 = (state_new (environment self))
                             \<lparr>current_metrics := Some metrics, current_round_height := Some new_height,
                              queue := q, banned := banned self\<rparr>
                       in (Inr \<lparr>remove_participants = removed, rollback = True\<rparr>,
                           update_next_round_after (initialize self1 new_height) now))
                    else
                      (let self1 = (state_new (environment self))
                             \<lparr>current_contributors := hm_collect restarted, queue := queue self,
                              banned := banned self, dropped := dropped self\<rparr>
                       in (Inr \<lparr>remove_participants = [], rollback = False\<rparr>,
                           update_round_metrics (initialize self1 height)))))"

section \<open>What a precommit stages\<close>

definition staged_info ::
  "u64 \<Rightarrow> u64 \<Rightarrow> u64 \<Rightarrow> OffsetDateTime \<Rightarrow> nat \<times> Participant \<times> u8 \<times> 'a \<Rightarrow> Participant \<times> ParticipantInfo" where
  "staged_info next_height n k now entry =
     (let (bucket, p, rel, _) = entry in
      (p, (pi_new p next_height rel bucket now)
            \<lparr>started_at := Some now, assigned_tasks := tasks_for bucket n k\<rparr>))"

lemma staged_info_simps [simp]:
  "fst (staged_info h n k now (b, p, x)) = p"
  "snd (staged_info h n k now (b, p, x)) = (pi_new p h (fst x) b now)
     \<lparr>started_at := Some now, assigned_tasks := tasks_for b n k\<rparr>"
  by (simp_all add: staged_info_def Let_def split: prod.splits)

lemma fst_staged: "fst (staged_info h n k now (i, e)) = fst e"
  by (cases e) simp

lemma pi_start_staged:
  assumes "0 < h"
  shows "pi_start (pi_new p h rel b now) tasks now =
    (Inr (), (pi_new p h rel b now)\<lparr>started_at := Some now, assigned_tasks := tasks\<rparr>)"
  using pi_start_new [OF assms] by (simp add: pi_new_def)

lemma stage_contributors_ok:
  assumes "stage_contributors nh h n k now es (q, nxt, out) = Inr (q', nxt', out')" "0 < nh"
  shows "q' = fold (\<lambda>e. hm_remove (fst (snd e))) es q"
    "nxt' = hm_extend (map (staged_info nh n k now) es) nxt"
    "out' = out @ map (fst \<circ> snd) es"
    "\<forall>e\<in>set es. initialize_tasks (fst e) n k = Inr (tasks_for (fst e) n k)"
proof -
  have "q' = fold (\<lambda>e. hm_remove (fst (snd e))) es q \<and>
    nxt' = hm_extend (map (staged_info nh n k now) es) nxt \<and>
    out' = out @ map (fst \<circ> snd) es \<and>
    (\<forall>e\<in>set es. initialize_tasks (fst e) n k = Inr (tasks_for (fst e) n k))"
    using assms(1)
  proof (induction es arbitrary: q nxt out)
    case Nil
    then show ?case by (simp add: hm_extend_def)
  next
    case (Cons e es)
    obtain b p rel x where e: "e = (b, p, rel, x)" by (cases e)
    obtain rh ls j where x: "x = (rh, ls, j)" by (cases x)
    from Cons.prems obtain tasks where tasks: "initialize_tasks b n k = Inr tasks"
      by (cases "initialize_tasks b n k") (simp_all add: e x)
    then have for_b: "tasks_for b n k = tasks" by (simp add: tasks_for_def)
    from Cons.prems have "stage_contributors nh h n k now es (hm_remove p q,
      hm_insert p (snd (staged_info nh n k now e)) nxt, out @ [p]) = Inr (q', nxt', out')"
      by (simp add: e x tasks for_b pi_start_staged [OF assms(2)] split: if_splits)
    from Cons.IH [OF this] show ?case
      using tasks for_b by (simp add: e hm_extend_def case_prod_beta)
  qed
  then show "q' = fold (\<lambda>e. hm_remove (fst (snd e))) es q"
    "nxt' = hm_extend (map (staged_info nh n k now) es) nxt"
    "out' = out @ map (fst \<circ> snd) es"
    "\<forall>e\<in>set es. initialize_tasks (fst e) n k = Inr (tasks_for (fst e) n k)" by blast+
qed

lemma stage_contributors_succeeds:
  assumes "0 < nh" "0 < n" "k \<le> n"
    and "\<forall>e\<in>set es. fst e < k \<and> fst (snd (snd (snd e))) = nh"
  shows "is_ok (stage_contributors nh h n k now es acc)"
  using assms(4)
proof (induction es arbitrary: acc)
  case Nil
  show ?case by simp
next
  case (Cons e es)
  obtain b p rel rh ls j where e: "e = (b, p, rel, rh, ls, j)" by (metis prod.exhaust)
  obtain q nxt out where acc: "acc = (q, nxt, out)" by (metis prod.exhaust)
  from Cons.prems have b: "b < k" "rh = nh" by (auto simp: e)
  with assms(3) have "is_ok (initialize_tasks b n k)" by (simp add: initialize_tasks_is_ok)
  then obtain tasks where tasks: "initialize_tasks b n k = Inr tasks" by (auto simp: is_ok_iff)
  then have "tasks = tasks_for b n k" by (simp add: tasks_for_def)
  with b assms(3) have "length tasks = n" by (simp add: sched.length_tasks)
  with assms(2) have "tasks \<noteq> []" by auto
  with Cons show ?case
    by (simp add: e acc tasks b pi_start_staged [OF assms(1)])
qed

text \<open>The contributors of the next round in the order of their buckets.\<close>

definition bucket_order ::
  "CoordinatorState \<Rightarrow> u64 \<Rightarrow> (Participant \<times> u8 \<times> u64 \<times> OffsetDateTime \<times> OffsetDateTime) list" where
  "bucket_order s next_height =
     sort_key (\<lambda>(_, (r, _, _, _)). - int r) (round_contributors s next_height)"

lemma bucket_order_facts:
  "length (bucket_order s h) = length (round_contributors s h)"
  "set (bucket_order s h) = set (round_contributors s h)"
  "sorted (map (\<lambda>e. - int (fst (snd e))) (bucket_order s h))"
proof -
  have "(\<lambda>(_, (r, _, _, _)). - int r) = (\<lambda>e :: Participant \<times> u8 \<times> u64 \<times> OffsetDateTime \<times> OffsetDateTime.
    - int (fst (snd e)))" by (auto simp: fun_eq_iff)
  then show "sorted (map (\<lambda>e. - int (fst (snd e))) (bucket_order s h))"
    unfolding bucket_order_def by (simp only: sorted_sort_key)
qed (simp_all add: bucket_order_def)

lemma round_contributors_keys:
  "map fst (round_contributors s h) = map fst (assigned_to_round s h)"
proof -
  have "map fst (filter (\<lambda>(p, (_, rh, _, _)). is_contributor p \<and> rh = h)
      (map (\<lambda>(p, (r, rh, ls, j)). (p, (r, (case rh of None \<Rightarrow> 0 | Some h \<Rightarrow> h), ls, j))) q)) =
    map fst (filter (\<lambda>(p, (_, rh, _, _)).
      is_contributor p \<and> (case rh of None \<Rightarrow> 0 | Some h \<Rightarrow> h) = h) q)"
    for q :: "(Participant, QueueEntry) hashmap"
    by (induction q) auto
  then show ?thesis by (simp add: round_contributors_def assigned_to_round_def)
qed

lemma length_round_contributors: "length (round_contributors s h) = length (assigned_to_round s h)"
  using arg_cong [OF round_contributors_keys, of length] by simp

lemma bucket_order_distinct:
  assumes "hm_wf (queue s)"
  shows "distinct (map fst (bucket_order s h))"
proof -
  have "distinct (map fst (round_contributors s h))"
    unfolding round_contributors_keys unfolding assigned_to_round_def
    using assms by (simp add: distinct_map_filter)
  moreover have "mset (map fst (bucket_order s h)) = mset (map fst (round_contributors s h))"
    by (simp only: bucket_order_def mset_map mset_sort)
  ultimately show ?thesis by (metis mset_eq_imp_distinct_iff)
qed

lemma bucket_order_member:
  assumes "e \<in> set (bucket_order s h)"
  shows "is_contributor (fst e)" "fst (snd (snd e)) = h" "fst e \<in> set (map fst (queue s))"
  using assms unfolding bucket_order_facts(2) round_contributors_def by force+

lemma enumerate_bucket_member:
  assumes "(b, e) \<in> set (enumerate 0 (bucket_order s h))"
  shows "b < length (round_contributors s h)" "e = bucket_order s h ! b"
  using assms by (simp_all add: in_set_enumerate_eq bucket_order_facts(1))

section \<open>Outcomes of a precommit\<close>

text \<open>The conditions under which a precommit is attempted at all.\<close>

definition precommit_enabled :: "CoordinatorState \<Rightarrow> u64 \<Rightarrow> OffsetDateTime \<Rightarrow> bool" where
  "precommit_enabled s nh now \<longleftrightarrow>
     status s \<noteq> Initializing \<and> status s \<noteq> Precommit \<and> current_round_height s = Some (nh - 1) \<and> 0 < nh \<and>
     queue s \<noteq> [] \<and> next_participants s = [] \<and> is_current_round_finished s \<and>
     (1 < nh \<longrightarrow> is_current_round_aggregated s) \<and>
     (\<forall>m t. current_metrics s = Some m \<longrightarrow> next_round_after m = Some t \<longrightarrow> t \<le> now) \<and>
     (\<forall>p\<in>set (map fst (round_contributors s nh)). p \<notin> set (banned s)) \<and>
     minimum_contributors_per_round (environment s) \<le> length (round_contributors s nh) \<and>
     length (round_contributors s nh) \<le> maximum_contributors_per_round (environment s)"

lemma wait_time_iff:
  "(case current_metrics s of
      None \<Rightarrow> False
    | Some m \<Rightarrow> (case next_round_after m of None \<Rightarrow> False | Some t \<Rightarrow> now < t)) \<longleftrightarrow>
   \<not> (\<forall>m t. current_metrics s = Some m \<longrightarrow> next_round_after m = Some t \<longrightarrow> t \<le> now)"
  by (cases "current_metrics s") (auto split: option.splits)

lemma banned_count_iff:
  "0 < length (filter (\<lambda>(p, _). p \<in> set (banned s)) (round_contributors s nh)) \<longleftrightarrow>
   \<not> (\<forall>p\<in>set (map fst (round_contributors s nh)). p \<notin> set (banned s))"
  unfolding length_filter_pos by force

lemma precommit_when_enabled:
  assumes "precommit_enabled s nh now"
  shows "precommit_next_round s nh now =
    (case stage_contributors nh (nh - 1) (number_of_chunks (environment s))
             (length (round_contributors s nh)) now (enumerate 0 (bucket_order s nh)) (queue s, [], []) of
       Inl e \<Rightarrow> (Inl e, s)
     | Inr (q, nxt, out) \<Rightarrow>
         (Inr out, s\<lparr>queue := q, next_participants := nxt, status := Precommit\<rparr>))"
proof -
  from assms have g: "status s \<noteq> Initializing" "status s \<noteq> Precommit" "current_round_height s = Some (nh - 1)"
    "nh = nh - 1 + 1" "queue s \<noteq> []" "next_participants s = []" "is_current_round_finished s"
    "\<not> (0 < round_height_or_zero s \<and> \<not> is_current_round_aggregated s)"
    "\<forall>m t. current_metrics s = Some m \<longrightarrow> next_round_after m = Some t \<longrightarrow> t \<le> now"
    "\<forall>p\<in>set (map fst (round_contributors s nh)). p \<notin> set (banned s)"
    "\<not> (length (round_contributors s nh) < minimum_contributors_per_round (environment s) \<or>
        maximum_contributors_per_round (environment s) < length (round_contributors s nh))"
    by (auto simp: precommit_enabled_def round_height_or_zero_def)
  show ?thesis
    unfolding precommit_next_round_def Let_def wait_time_iff banned_count_iff bucket_order_def [symmetric]
    using g by (simp only: option.case if_False if_True simp_thms not_not)
      (rule if_not_P [THEN trans], blast, rule if_not_P, blast)
qed

lemma precommit_when_disabled:
  assumes "\<not> precommit_enabled s nh now"
  shows "\<exists>e. precommit_next_round s nh now = (Inl e, s)"
proof (cases "current_round_height s")
  case None
  then show ?thesis by (simp add: precommit_next_round_def)
next
  case (Some h)
  have enabled: "precommit_enabled s nh now" if "status s \<noteq> Initializing" "status s \<noteq> Precommit"
    "nh = h + 1" "queue s \<noteq> []" "next_participants s = []" "is_current_round_finished s"
    "\<not> (0 < round_height_or_zero s \<and> \<not> is_current_round_aggregated s)"
    "\<forall>m t. current_metrics s = Some m \<longrightarrow> next_round_after m = Some t \<longrightarrow> t \<le> now"
    "\<forall>p\<in>set (map fst (round_contributors s nh)). p \<notin> set (banned s)"
    "\<not> (length (round_contributors s nh) < minimum_contributors_per_round (environment s) \<or>
        maximum_contributors_per_round (environment s) < length (round_contributors s nh))"
    using that Some by (auto simp: precommit_enabled_def round_height_or_zero_def)
  have error: "\<exists>e. (Inl d, s) = (Inl e, s)" for d :: CoordinatorError by blast
  show ?thesis
    unfolding precommit_next_round_def Let_def wait_time_iff banned_count_iff Some option.case
    by (rule if_split [THEN iffD2], intro conjI impI, rule error)+
      (use enabled assms in blast)
qed

lemma precommit_ok_iff:
  "precommit_next_round s nh now = (Inr out, s') \<longleftrightarrow>
     precommit_enabled s nh now \<and>
     (\<exists>q nxt. stage_contributors nh (nh - 1) (number_of_chunks (environment s))
          (length (round_contributors s nh)) now (enumerate 0 (bucket_order s nh)) (queue s, [], []) =
          Inr (q, nxt, out) \<and>
        s' = s\<lparr>queue := q, next_participants := nxt, status := Precommit\<rparr>)"
proof (cases "precommit_enabled s nh now")
  case True
  then show ?thesis by (simp add: precommit_when_enabled) (auto split: sum.splits)
next
  case False
  with precommit_when_disabled [OF False] show ?thesis by auto
qed

text \<open>A precommit that returns an error leaves the state as it was.\<close>

lemma precommit_atomic: "precommit_next_round s nh now = (Inl e, s') \<Longrightarrow> s' = s"
  unfolding precommit_next_round_def Let_def
  by (simp split: if_splits option.splits sum.splits prod.splits)

lemma fold_remove_lookup:
  "map_of (fold (\<lambda>e. AList.delete (f e)) es m) p = (if p \<in> f ` set es then None else map_of m p)"
  by (induction es arbitrary: m) (auto simp: delete_conv')

lemma fold_remove_wf: "distinct (map fst m) \<Longrightarrow> distinct (map fst (fold (\<lambda>e. AList.delete (f e)) es m))"
  by (induction es arbitrary: m) (simp_all add: distinct_delete)

lemma fold_remove_keys:
  "set (map fst (fold (\<lambda>e. AList.delete (f e)) es m)) = set (map fst m) - f ` set es"
proof (induction es arbitrary: m)
  case (Cons e es)
  show ?case using Cons.IH [of "AList.delete (f e) m"] keys_delete [of "f e" m] by auto
qed simp

lemma precommit_effect:
  assumes "hm_wf (queue s)" "precommit_next_round s nh now = (Inr out, s')"
  defines "n \<equiv> number_of_chunks (environment s)" and "k \<equiv> length (round_contributors s nh)"
  shows "out = map fst (bucket_order s nh)"
    "next_participants s' = map (staged_info nh n k now) (enumerate 0 (bucket_order s nh))"
    "s' = s\<lparr>queue := fold (\<lambda>e. hm_remove (fst (snd e))) (enumerate 0 (bucket_order s nh)) (queue s),
       next_participants := next_participants s', status := Precommit\<rparr>"
    "k \<noteq> 0 \<Longrightarrow> k \<le> n" "0 < nh"
proof -
  from assms(2) precommit_ok_iff obtain q nxt where en: "precommit_enabled s nh now"
    and st: "stage_contributors nh (nh - 1) n k now (enumerate 0 (bucket_order s nh)) (queue s, [], []) =
      Inr (q, nxt, out)"
    and s': "s' = s\<lparr>queue := q, next_participants := nxt, status := Precommit\<rparr>"
    unfolding n_def k_def by metis
  from en show nh: "0 < nh" by (simp add: precommit_enabled_def)
  note ok = stage_contributors_ok [OF st nh]
  show out: "out = map fst (bucket_order s nh)"
    using ok(3) by (metis append_Nil map_map map_snd_enumerate)
  have "map fst (map (staged_info nh n k now) (enumerate 0 (bucket_order s nh))) = map fst (bucket_order s nh)"
    by (rule nth_equalityI) (simp_all add: nth_enumerate_eq staged_info_def case_prod_beta)
  with ok(2) bucket_order_distinct [OF assms(1)]
  have nxt: "nxt = map (staged_info nh n k now) (enumerate 0 (bucket_order s nh))"
    by (simp add: hm_collect_distinct)
  with s' show "next_participants s' = map (staged_info nh n k now) (enumerate 0 (bucket_order s nh))"
    by simp
  from s' ok(1) show "s' = s\<lparr>queue := fold (\<lambda>e. hm_remove (fst (snd e)))
      (enumerate 0 (bucket_order s nh)) (queue s),
    next_participants := next_participants s', status := Precommit\<rparr>" by simp
  show "k \<le> n" if "k \<noteq> 0"
  proof -
    from that have "0 < length (bucket_order s nh)" by (simp add: bucket_order_facts k_def)
    then have "(0, bucket_order s nh ! 0) \<in> set (enumerate 0 (bucket_order s nh))"
      by (simp add: in_set_enumerate_eq)
    with ok(4) have "is_ok (initialize_tasks 0 n k)" by fastforce
    with that show ?thesis by (simp add: initialize_tasks_is_ok)
  qed
qed

lemma staged_lookup:
  assumes "hm_wf (queue s)" "precommit_next_round s nh now = (Inr out, s')" "i < length out"
  shows "map_of (next_participants s') (out ! i) =
    Some (snd (staged_info nh (number_of_chunks (environment s)) (length out) now (i, bucket_order s nh ! i)))"
proof -
  note eff = precommit_effect [OF assms(1,2)]
  let ?f = "staged_info nh (number_of_chunks (environment s)) (length out) now"
  have len: "length out = length (round_contributors s nh)"
    by (simp add: eff(1) bucket_order_facts)
  have keys: "map fst (next_participants s') = out"
    by (rule nth_equalityI) (simp_all add: eff(1,2) len nth_enumerate_eq fst_staged)
  have "(out ! i, snd (?f (i, bucket_order s nh ! i))) = next_participants s' ! i"
    using assms(3) by (simp add: eff(1,2) len bucket_order_facts nth_enumerate_eq prod_eq_iff fst_staged)
  moreover have "next_participants s' ! i \<in> set (next_participants s')"
    using assms(3) keys by (metis length_map nth_mem)
  moreover have "distinct (map fst (next_participants s'))"
    unfolding keys by (simp add: eff(1) bucket_order_distinct [OF assms(1)])
  ultimately show ?thesis by (metis map_of_is_SomeI)
qed

section \<open>Properties of the round transition\<close>

lemma bucket_reliability:
  assumes "i < j" "j < length (bucket_order s nh)"
  shows "fst (snd (bucket_order s nh ! j)) \<le> fst (snd (bucket_order s nh ! i))"
  using sorted_nth_mono [OF bucket_order_facts(3) [of s nh], of i j] assms by simp

lemma ready_facts:
  assumes "is_precommit_next_round_ready s now"
  shows "status s \<noteq> Initializing" "status s \<noteq> Precommit" "queue s \<noteq> []"
    "current_round_height s = Some (round_height_or_zero s)"
    "0 < round_height_or_zero s \<longrightarrow> is_current_round_aggregated s"
    "current_metrics s = Some m \<Longrightarrow> next_round_after m = Some t \<Longrightarrow> t \<le> now"
    "minimum_contributors_per_round (environment s) \<le>
       length (assigned_to_round s (round_height_or_zero s + 1))"
    "length (assigned_to_round s (round_height_or_zero s + 1)) \<le>
       maximum_contributors_per_round (environment s)"
  using assms unfolding is_precommit_next_round_ready_def Let_def round_height_or_zero_def
  by (simp_all split: if_splits option.splits) auto

lemma precommit_if_ready:
  assumes "is_precommit_next_round_ready s now" and "is_current_round_finished s"
    and "next_participants s = []"
    and "\<forall>p\<in>set (hm_keys (assigned_to_round s (round_height_or_zero s + 1))). p \<notin> set (banned s)"
    and "0 < number_of_chunks (environment s)"
    and "maximum_contributors_per_round (environment s) \<le> number_of_chunks (environment s)"
  shows "\<exists>out s'. precommit_next_round s (round_height_or_zero s + 1) now = (Inr out, s')"
proof -
  let ?nh = "round_height_or_zero s + 1" and ?n = "number_of_chunks (environment s)"
  let ?k = "length (round_contributors s ?nh)"
  from ready_facts [OF assms(1)] assms(2-4) have en: "precommit_enabled s ?nh now"
    unfolding precommit_enabled_def length_round_contributors round_contributors_keys
    by simp
  have "\<forall>e\<in>set (enumerate 0 (bucket_order s ?nh)). fst e < ?k \<and> fst (snd (snd (snd e))) = ?nh"
  proof
    fix e
    assume "e \<in> set (enumerate 0 (bucket_order s ?nh))"
    then have "fst e < length (bucket_order s ?nh)" "snd e = bucket_order s ?nh ! fst e"
      by (simp_all add: in_set_enumerate_eq)
    with bucket_order_member(2) [OF nth_mem, of "fst e" s ?nh]
    show "fst e < ?k \<and> fst (snd (snd (snd e))) = ?nh" by (simp add: bucket_order_facts(1))
  qed
  moreover from en assms(6) have "?k \<le> ?n" by (simp add: precommit_enabled_def)
  ultimately have "is_ok (stage_contributors ?nh (?nh - 1) ?n ?k now
      (enumerate 0 (bucket_order s ?nh)) (queue s, [], []))"
    using assms(5) by (intro stage_contributors_succeeds) simp_all
  then obtain q nxt out where "stage_contributors ?nh (?nh - 1) ?n ?k now
      (enumerate 0 (bucket_order s ?nh)) (queue s, [], []) = Inr (q, nxt, out)"
    by (metis is_ok_iff prod.exhaust)
  with precommit_when_enabled [OF en] show ?thesis by simp
qed

text \<open>Two contributors that are assigned to the first round, ready to start.\<close>

definition demo_ready :: CoordinatorState where
  "demo_ready = demo_state
     \<lparr>queue := [(Contributor ''b'', (5, Some 1, 20, 20)), (Contributor ''a'', (9, Some 1, 10, 10)),
                (Contributor ''c'', (7, Some 2, 30, 30))],
      current_metrics := Some (metrics_default\<lparr>next_round_after := Some 35\<rparr>)\<rparr>"

lemma demo_ready_facts:
  "hm_wf (queue demo_ready)" "round_height_or_zero demo_ready = 0" "next_participants demo_ready = []"
  "is_current_round_finished demo_ready" "banned demo_ready = []"
  "number_of_chunks (environment demo_ready) = 3"
  "maximum_contributors_per_round (environment demo_ready) = 2"
  "is_precommit_next_round_ready demo_ready 40"
  by (simp_all add: demo_ready_def demo_state_def initialize_def state_new_def round_height_or_zero_def
      is_current_round_finished_def metrics_default_def is_precommit_next_round_ready_def
      assigned_to_round_def demo_environment_def preset_defs)

lemma demo_round_order: "map fst (bucket_order demo_ready 1) = [Contributor ''a'', Contributor ''b'']"
  by (simp add: bucket_order_def round_contributors_def demo_ready_def)

lemma demo_precommit:
  obtains s' where "precommit_next_round demo_ready 1 40 = (Inr [Contributor ''a'', Contributor ''b''], s')"
proof -
  have "\<exists>out s'. precommit_next_round demo_ready (round_height_or_zero demo_ready + 1) 40 = (Inr out, s')"
    by (rule precommit_if_ready) (simp_all add: demo_ready_facts)
  then obtain out s' where "precommit_next_round demo_ready 1 40 = (Inr out, s')"
    by (auto simp: demo_ready_facts)
  with precommit_effect(1) [OF demo_ready_facts(1) this] demo_round_order that show ?thesis by simp
qed

lemma precommit_staging:
  assumes "hm_wf (queue s)" and "precommit_next_round s nh now = (Inr out, s')"
  shows "status s' = Precommit"
    and "set out = set (hm_keys (assigned_to_round s nh))"
    and "hm_get (queue s') p = (if p \<in> set out then None else hm_get (queue s) p)"
    and "hm_keys (next_participants s') = out"
    and "i < length out \<Longrightarrow> \<exists>info. hm_get (next_participants s') (out ! i) = Some info \<and>
      pi_id info = out ! i \<and> round_height info = nh \<and> bucket_id info = i \<and> started_at info = Some now \<and>
      assigned_tasks info = tasks_for i (number_of_chunks (environment s)) (length out)"
    and "i < j \<Longrightarrow> j < length out \<Longrightarrow>
      reliability (the (hm_get (next_participants s') (out ! j))) \<le>
      reliability (the (hm_get (next_participants s') (out ! i)))"
proof -
  note eff = precommit_effect [OF assms] and look = staged_lookup [OF assms]
  show "status s' = Precommit" by (subst eff(3)) simp
  show "set out = set (hm_keys (assigned_to_round s nh))"
    using bucket_order_facts(2) [of s nh] round_contributors_keys [of s nh]
    by (metis eff(1) list.set_map)
  have "fst ` snd ` set (enumerate 0 (bucket_order s nh)) = set out"
    using eff(1) by (metis list.set_map map_snd_enumerate)
  then show "hm_get (queue s') p = (if p \<in> set out then None else hm_get (queue s) p)"
    by (subst eff(3)) (simp add: fold_remove_lookup image_image)
  show "hm_keys (next_participants s') = out"
    by (rule nth_equalityI) (simp_all add: eff(1,2) nth_enumerate_eq fst_staged)
  show "\<exists>info. hm_get (next_participants s') (out ! i) = Some info \<and>
      pi_id info = out ! i \<and> round_height info = nh \<and> bucket_id info = i \<and> started_at info = Some now \<and>
      assigned_tasks info = tasks_for i (number_of_chunks (environment s)) (length out)"
    if "i < length out" for i
    using look [OF that] that eff(1) by (cases "bucket_order s nh ! i") (simp add: pi_new_def)
  show "reliability (the (hm_get (next_participants s') (out ! j))) \<le>
      reliability (the (hm_get (next_participants s') (out ! i)))" if "i < j" "j < length out"
    using look [of i] look [of j] that bucket_reliability [of i j s nh] eff(1)
    by (cases "bucket_order s nh ! i"; cases "bucket_order s nh ! j") (simp add: pi_new_def)
qed

text \<open>
  A successful precommit stages exactly the queued contributors that are assigned to the
  next round, and nobody else: they leave the queue, the others stay. The most reliable one
  starts in bucket 0, the next one in bucket 1, and so on; each is started with the tasks of
  its bucket for that number of contributors.
\<close>

theorem precommit_stages_round:
  assumes "hm_wf (queue s)" and "precommit_next_round s nh now = (Inr out, s')"
  shows "status s' = Precommit \<and>
    set out = set (hm_keys (assigned_to_round s nh)) \<and>
    (\<forall>p. hm_get (queue s') p = (if p \<in> set out then None else hm_get (queue s) p)) \<and>
    hm_keys (next_participants s') = out \<and>
    (\<forall>i < length out. \<exists>info. hm_get (next_participants s') (out ! i) = Some info \<and>
      pi_id info = out ! i \<and> round_height info = nh \<and> bucket_id info = i \<and> started_at info = Some now \<and>
      assigned_tasks info = tasks_for i (number_of_chunks (environment s)) (length out)) \<and>
    (\<forall>i j. i < j \<and> j < length out \<longrightarrow>
      reliability (the (hm_get (next_participants s') (out ! j))) \<le>
      reliability (the (hm_get (next_participants s') (out ! i))))"
  by (intro conjI allI impI precommit_staging(1,2,3,4,5) [OF assms])
    (auto intro!: precommit_staging(6) [OF assms])

theorem precommit_stages_round_witness:
  "\<exists>s'. precommit_next_round demo_ready 1 40 = (Inr [Contributor ''a'', Contributor ''b''], s') \<and>
     status s' = Precommit \<and> hm_keys (next_participants s') = [Contributor ''a'', Contributor ''b'']"
proof -
  obtain s' where ok: "precommit_next_round demo_ready 1 40 = (Inr [Contributor ''a'', Contributor ''b''], s')"
    by (rule demo_precommit)
  note facts = precommit_stages_round [OF demo_ready_facts(1) ok]
  show ?thesis by (intro exI [of _ s'] conjI ok) (use facts in simp_all)
qed

text \<open>
  The readiness check is sound: when it holds, the current round is finished, nobody is
  staged, no contributor of the next round is banned and there are at least as many chunks as
  permitted contributors, then the precommit succeeds.
\<close>

theorem ready_precommit_succeeds:
  assumes "is_precommit_next_round_ready s now" and "is_current_round_finished s"
    and "next_participants s = []"
    and "\<forall>p\<in>set (hm_keys (assigned_to_round s (round_height_or_zero s + 1))). p \<notin> set (banned s)"
    and "0 < number_of_chunks (environment s)"
    and "maximum_contributors_per_round (environment s) \<le> number_of_chunks (environment s)"
  shows "\<exists>out s'. precommit_next_round s (round_height_or_zero s + 1) now = (Inr out, s')"
  using assms by (rule precommit_if_ready)

theorem ready_precommit_succeeds_witness:
  "\<exists>out s'. precommit_next_round demo_ready (round_height_or_zero demo_ready + 1) 40 = (Inr out, s')"
  by (rule ready_precommit_succeeds) (simp_all add: demo_ready_facts)

lemma map_of_rev_distinct: "distinct (map fst xs) \<Longrightarrow> map_of (rev xs) = map_of xs"
  by (subst map_of_inject_set) (simp_all add: rev_map [symmetric])

lemma round_contributors_assigned:
  assumes "hm_wf (queue s)" "(p, (r, nh, ls, j)) \<in> set (round_contributors s nh)" "0 < nh"
  shows "map_of (queue s) p = Some (r, Some nh, ls, j)"
proof -
  from assms(2,3) have "(p, (r, Some nh, ls, j)) \<in> set (queue s)"
    by (auto simp: round_contributors_def split: option.splits)
  with assms(1) show ?thesis by (simp add: map_of_is_SomeI)
qed

text \<open>What the participants in the queue keep across a rollback: reliability and assigned round.\<close>

definition queue_claim :: "CoordinatorState \<Rightarrow> Participant \<Rightarrow> (u8 \<times> u64 option) option" where
  "queue_claim s p = map_option (\<lambda>(r, rh, _, _). (r, rh)) (hm_get (queue s) p)"

lemma precommit_rollback_facts:
  assumes "hm_wf (queue s)" and "precommit_next_round s nh now = (Inr out, s')"
  shows "next_participants (rollback_next_round s' later) = []"
    and "status (rollback_next_round s' later) = Rollback"
    and "queue_claim (rollback_next_round s' later) p = queue_claim s p"
proof -
  note eff = precommit_effect [OF assms]
  have st: "status s' = Precommit" by (subst eff(3)) simp
  then show "next_participants (rollback_next_round s' later) = []"
    and "status (rollback_next_round s' later) = Rollback"
    by (simp_all add: rollback_next_round_def)
  have keys: "map fst (next_participants s') = out"
    by (rule nth_equalityI) (simp_all add: eff(1,2) nth_enumerate_eq fst_staged)
  have rq: "map_of (map (requeued later) m) q =
      map_option (\<lambda>i. (reliability i, Some (round_height i), later, later)) (map_of m q)" for m q
    by (induction m) (auto simp: requeued_def)
  have "distinct (map fst (map (requeued later) (next_participants s')))"
    using bucket_order_distinct [OF assms(1)] keys eff(1) by (simp add: requeued_def comp_def)
  then have ext: "map_of (queue (rollback_next_round s' later)) p =
      (case map_of (next_participants s') p of
         Some i \<Rightarrow> Some (reliability i, Some (round_height i), later, later)
       | None \<Rightarrow> map_of (queue s') p)"
    using st
    by (simp add: rollback_next_round_def hm_extend_def hm.get_ins_all map_add_def rq
        map_of_rev_distinct split: option.splits)
  show "queue_claim (rollback_next_round s' later) p = queue_claim s p"
  proof (cases "p \<in> set out")
    case False
    then have "map_of (next_participants s') p = None" using keys by (metis list.set_map map_of_eq_None_iff)
    moreover have "fst ` snd ` set (enumerate 0 (bucket_order s nh)) = set out"
      using eff(1) by (metis list.set_map map_snd_enumerate)
    then have "map_of (queue s') p = map_of (queue s) p"
      using False by (subst eff(3)) (simp add: fold_remove_lookup image_image)
    ultimately show ?thesis by (simp add: queue_claim_def ext)
  next
    case True
    then obtain i where i: "i < length out" "out ! i = p" by (auto simp: in_set_conv_nth)
    obtain r x ls j where e: "bucket_order s nh ! i = (p, (r, x, ls, j))"
      using i eff(1) by (cases "bucket_order s nh ! i") auto
    with i eff(1) have mem: "(p, (r, x, ls, j)) \<in> set (round_contributors s nh)"
      by (metis bucket_order_facts(2) length_map nth_mem)
    then have "x = nh" by (auto simp: round_contributors_def)
    with round_contributors_assigned [OF assms(1) _ eff(5)] mem
    have "map_of (queue s) p = Some (r, Some nh, ls, j)" by simp
    with staged_lookup [OF assms i(1)] i(2) e show ?thesis
      by (simp add: queue_claim_def ext pi_new_def)
  qed
qed

text \<open>
  Rolling back a precommit undoes it: nobody is staged any more, and every participant,
  staged or not, is in the queue with the reliability and the round it had before.
\<close>

theorem precommit_rollback:
  assumes "hm_wf (queue s)" and "precommit_next_round s nh now = (Inr out, s')"
  shows "next_participants (rollback_next_round s' later) = [] \<and>
    status (rollback_next_round s' later) = Rollback \<and>
    (\<forall>p. queue_claim (rollback_next_round s' later) p = queue_claim s p)"
  by (intro conjI allI precommit_rollback_facts [OF assms])

theorem precommit_rollback_witness:
  "\<exists>s'. precommit_next_round demo_ready 1 40 = (Inr [Contributor ''a'', Contributor ''b''], s') \<and>
     queue_claim (rollback_next_round s' 50) (Contributor ''a'') = Some (9, Some 1)"
proof -
  obtain s' where ok: "precommit_next_round demo_ready 1 40 = (Inr [Contributor ''a'', Contributor ''b''], s')"
    by (rule demo_precommit)
  have "queue_claim demo_ready (Contributor ''a'') = Some (9, Some 1)"
    by (simp add: queue_claim_def demo_ready_def)
  with precommit_rollback [OF demo_ready_facts(1) ok] ok show ?thesis by metis
qed

section \<open>The committed round\<close>

lemma commit_participants_contributors:
  assumes "\<forall>p\<in>set (map fst m). is_contributor p"
  shows "commit_participants m (cs, vs, nc, nv) = (hm_extend m cs, vs, nc + length m, nv)"
  using assms
proof (induction m arbitrary: cs nc)
  case Nil
  show ?case by (simp add: hm_extend_def)
next
  case (Cons e m)
  obtain c info where "e = (Contributor c, info)"
    using Cons.prems by (cases e; cases "fst e") auto
  with Cons show ?case by (simp add: hm_extend_def)
qed

lemma committed_state:
  assumes "hm_wf (queue s)" "precommit_next_round s nh now = (Inr out, s')"
  defines "s'' \<equiv> commit_next_round s'"
  shows "current_round_height s'' = Some nh" "status s'' = Commit" "next_participants s'' = []"
    "current_contributors s'' = next_participants s'"
    "current_metrics s'' = Some (metrics_default\<lparr>number_of_contributors := length out\<rparr>)"
    "map_of (finished_contributors s'') nh = Some []" "pending_verification s'' = []" "environment s'' = environment s"
proof -
  note eff = precommit_effect [OF assms(1,2)]
  from assms(2) have en: "precommit_enabled s nh now" by (simp add: precommit_ok_iff)
  have keys: "map fst (next_participants s') = out"
    by (rule nth_equalityI) (simp_all add: eff(1,2) nth_enumerate_eq fst_staged)
  have s': "status s' = Precommit" "current_round_height s' = Some (nh - 1)"
    "current_contributors s' = []" "pending_verification s' = []" "environment s' = environment s"
    using en by (subst eff(3), simp add: precommit_enabled_def is_current_round_finished_def)+
  have "\<forall>p\<in>set (map fst (next_participants s')). is_contributor p"
    unfolding keys eff(1) using bucket_order_member(1) by auto
  note commit = commit_participants_contributors [OF this, of "[]" "current_verifiers s'" 0 0]
  have "distinct (map fst (next_participants s'))"
    unfolding keys eff(1) by (rule bucket_order_distinct [OF assms(1)])
  note collect = hm_collect_distinct [OF this]
  have "length (next_participants s') = length out" using keys by (metis length_map)
  with eff(5) show "current_round_height s'' = Some nh" "status s'' = Commit" "next_participants s'' = []"
    "current_contributors s'' = next_participants s'"
    "current_metrics s'' = Some (metrics_default\<lparr>number_of_contributors := length out\<rparr>)"
    "map_of (finished_contributors s'') nh = Some []" "pending_verification s'' = []" "environment s'' = environment s"
    unfolding s''_def commit_next_round_def
    by (simp_all add: s' commit collect update_conv' metrics_default_def)
qed

text \<open>Contributors with the tasks of their position own each contribution once.\<close>

lemma indexed_unique_owner:
  assumes "distinct (map fst m)" "\<And>b. b < length m \<Longrightarrow> assigned_tasks (snd (m ! b)) = tasks_for b n (length m)"
    and grid: "length m \<le> n" "c < n" "1 \<le> i" "i \<le> length m"
  shows "\<exists>!p. \<exists>info. map_of m p = Some info \<and> new_task c i \<in> set (assigned_tasks info)"
proof -
  let ?k = "length m"
  from grid have k: "0 < ?k" by linarith
  from sched.unique_owner [OF k grid] obtain b where b: "b < ?k" "new_task c i \<in> set (tasks_for b n ?k)"
    and only: "\<And>b'. b' < ?k \<Longrightarrow> new_task c i \<in> set (tasks_for b' n ?k) \<Longrightarrow> b' = b" by blast
  have look: "map_of m (fst (m ! b)) = Some (snd (m ! b))" if "b < ?k" for b
    using that assms(1) by (metis map_of_is_SomeI nth_mem prod.collapse)
  show ?thesis
  proof (rule ex1I [of _ "fst (m ! b)"])
    show "\<exists>info. map_of m (fst (m ! b)) = Some info \<and> new_task c i \<in> set (assigned_tasks info)"
      using look [OF b(1)] assms(2) [OF b(1)] b(2) by simp
    fix p
    assume "\<exists>info. map_of m p = Some info \<and> new_task c i \<in> set (assigned_tasks info)"
    then obtain info where info: "(p, info) \<in> set m" "new_task c i \<in> set (assigned_tasks info)"
      by (metis map_of_SomeD)
    then obtain b' where "b' < ?k" "m ! b' = (p, info)" by (auto simp: in_set_conv_nth)
    with only [of b'] assms(2) [of b'] info(2) show "p = fst (m ! b)" by simp
  qed
qed

lemma committed_round:
  assumes "hm_wf (queue s)" and "precommit_next_round s nh now = (Inr out, s')"
  shows "current_round_height (commit_next_round s') = Some nh"
    and "hm_keys (current_contributors (commit_next_round s')) = out"
    and "map_option number_of_contributors (current_metrics (commit_next_round s')) = Some (length out)"
    and "c < number_of_chunks (environment s) \<Longrightarrow> 1 \<le> i \<Longrightarrow> i \<le> length out \<Longrightarrow>
      \<exists>!p. \<exists>info. hm_get (current_contributors (commit_next_round s')) p = Some info \<and>
        new_task c i \<in> set (assigned_tasks info)"
proof -
  note eff = precommit_effect [OF assms] and com = committed_state [OF assms]
  let ?n = "number_of_chunks (environment s)" and ?k = "length out"
  show "current_round_height (commit_next_round s') = Some nh" by (rule com(1))
  show keys: "hm_keys (current_contributors (commit_next_round s')) = out"
    unfolding com(4) by (rule nth_equalityI) (simp_all add: eff(1,2) nth_enumerate_eq fst_staged)
  show "map_option number_of_contributors (current_metrics (commit_next_round s')) = Some ?k"
    by (simp add: com(5))
  assume grid: "c < ?n" "1 \<le> i" "i \<le> ?k"
  have len: "length (round_contributors s nh) = ?k" by (simp add: eff(1) bucket_order_facts(1))
  moreover from grid have "0 < ?k" by linarith
  ultimately have fits: "?k \<le> ?n" using eff(4) by simp
  let ?m = "current_contributors (commit_next_round s')"
  have m: "length ?m = ?k" using keys by (metis length_map)
  show "\<exists>!p. \<exists>info. hm_get ?m p = Some info \<and> new_task c i \<in> set (assigned_tasks info)"
  proof (rule indexed_unique_owner)
    show "distinct (map fst ?m)" unfolding keys eff(1) by (rule bucket_order_distinct [OF assms(1)])
    show "assigned_tasks (snd (?m ! b)) = tasks_for b ?n (length ?m)" if "b < length ?m" for b
    proof -
      have "?m ! b = staged_info nh ?n ?k now (b, bucket_order s nh ! b)"
        using that m len by (simp add: com(4) eff(2) nth_enumerate_eq bucket_order_facts(1))
      then show ?thesis unfolding m by (cases "bucket_order s nh ! b") simp
    qed
  qed (use fits grid m in simp_all)
qed

text \<open>
  C31. Precommit and commit together start the next round: its contributors are those that were
  staged, the metrics count them, nobody is staged any more, and every contribution of every
  chunk is assigned to exactly one of them.
\<close>

theorem committed_round_partition:
  assumes "hm_wf (queue s)" and "precommit_next_round s nh now = (Inr out, s')"
  shows "current_round_height (commit_next_round s') = Some nh \<and>
    hm_keys (current_contributors (commit_next_round s')) = out \<and>
    map_option number_of_contributors (current_metrics (commit_next_round s')) = Some (length out) \<and>
    (\<forall>c i. c < number_of_chunks (environment s) \<and> 1 \<le> i \<and> i \<le> length out \<longrightarrow>
      (\<exists>!p. \<exists>info. hm_get (current_contributors (commit_next_round s')) p = Some info \<and>
        new_task c i \<in> set (assigned_tasks info)))"
  by (intro conjI allI impI committed_round [OF assms]) auto

theorem committed_round_partition_witness:
  "\<exists>s'. precommit_next_round demo_ready 1 40 = (Inr [Contributor ''a'', Contributor ''b''], s') \<and>
     (\<exists>!p. \<exists>info. hm_get (current_contributors (commit_next_round s')) p = Some info \<and>
        new_task 2 1 \<in> set (assigned_tasks info))"
proof -
  obtain s' where ok: "precommit_next_round demo_ready 1 40 = (Inr [Contributor ''a'', Contributor ''b''], s')"
    by (rule demo_precommit)
  have "(2 :: nat) < number_of_chunks (environment demo_ready) \<and> 1 \<le> (1 :: nat) \<and>
      1 \<le> length [Contributor ''a'', Contributor ''b'']" by (simp add: demo_ready_facts)
  with committed_round_partition [OF demo_ready_facts(1) ok]
  have "\<exists>!p. \<exists>info. hm_get (current_contributors (commit_next_round s')) p = Some info \<and>
        new_task 2 1 \<in> set (assigned_tasks info)" by blast
  with ok show ?thesis by blast
qed

section \<open>The reset of a round\<close>

lemma restart_contributor_ok:
  assumes "round_height info \<noteq> 0" "b < k" "k \<le> n"
  shows "restart_contributor n k now (b, p, info) =
    Inr (p, (pi_clear_round_times (pi_clear_locks (pi_clear_tasks info)))
       \<lparr>last_seen := now, started_at := Some now, assigned_tasks := tasks_for b n k\<rparr>)"
proof -
  from assms have "is_ok (initialize_tasks b n k)" by (simp add: initialize_tasks_is_ok)
  then have "initialize_tasks b n k = Inr (tasks_for b n k)" by (auto simp: is_ok_iff tasks_for_def)
  with assms(1) show ?thesis
    by (simp add: restart_contributor_def pi_restart_tasks_def pi_start_def pi_clear_tasks_def
        pi_clear_locks_def pi_clear_round_times_def)
qed

text \<open>A contributor of the round, restarted in a bucket.\<close>

definition restarted_entry ::
  "u64 \<Rightarrow> u64 \<Rightarrow> OffsetDateTime \<Rightarrow> nat \<times> Participant \<times> ParticipantInfo \<Rightarrow> Participant \<times> ParticipantInfo" where
  "restarted_entry n k now e =
     (fst (snd e), (pi_clear_round_times (pi_clear_locks (pi_clear_tasks (snd (snd e)))))
        \<lparr>last_seen := now, started_at := Some now, assigned_tasks := tasks_for (fst e) n k\<rparr>)"

lemma restart_all_ok:
  assumes "\<And>p info. (p, info) \<in> set m \<Longrightarrow> round_height info \<noteq> 0" "length m \<le> n"
  shows "collect_results (restart_contributor n (length m) now) (enumerate 0 m) =
    Inr (map (restarted_entry n (length m) now) (enumerate 0 m))"
proof (rule collect_results_okI)
  fix e
  assume e: "e \<in> set (enumerate 0 m)"
  then have "fst e < length m" "snd e \<in> set m"
    using nth_mem [of "fst e" m] by (auto simp: in_set_enumerate_eq simp del: nth_mem)
  with assms(1) [of "fst (snd e)" "snd (snd e)"] assms(2)
  show "restart_contributor n (length m) now e = Inr (restarted_entry n (length m) now e)"
    using restart_contributor_ok [of "snd (snd e)" "fst e" "length m" n now "fst (snd e)"]
    by (simp add: restarted_entry_def)
qed

lemma restarted_keys: "map fst (map (restarted_entry n k now) (enumerate 0 m)) = map fst m"
  by (rule nth_equalityI) (simp_all add: restarted_entry_def nth_enumerate_eq)

lemma hm_extend_keys: "set (map fst (hm_extend kvs m)) = set (map fst kvs) \<union> set (map fst m)"
proof (induction kvs arbitrary: m)
  case Nil
  show ?case by (simp add: hm_extend_def)
next
  case (Cons e kvs)
  obtain k v where "e = (k, v)" by (cases e)
  with Cons.IH [of "AList.update k v m"] keys_update [of k v m] show ?case by (simp add: hm_extend_def)
qed

lemma update_round_metrics_frame:
  "current_contributors (update_round_metrics s) = current_contributors s"
  "queue (update_round_metrics s) = queue s" "banned (update_round_metrics s) = banned s"
  "dropped (update_round_metrics s) = dropped s"
  "current_round_height (update_round_metrics s) = current_round_height s"
  "map_option number_of_contributors (current_metrics (update_round_metrics s)) =
     map_option number_of_contributors (current_metrics s)"
  by (simp_all add: update_round_metrics_def Let_def split: option.splits)

text \<open>What a reset is applied to: contributors of a round, each of them once.\<close>

definition resettable :: "CoordinatorState \<Rightarrow> u64 \<Rightarrow> bool" where
  "resettable s height \<longleftrightarrow>
     current_round_height s = Some height \<and> 0 < height \<and>
     distinct (map fst (current_contributors s @ finished_in_round s height)) \<and>
     length (current_contributors s @ finished_in_round s height) \<le> number_of_chunks (environment s) \<and>
     (\<forall>p info. (p, info) \<in> set (current_contributors s @ finished_in_round s height) \<longrightarrow> round_height info \<noteq> 0)"

lemma reset_outcome:
  fixes now :: OffsetDateTime
  assumes "resettable s height"
  defines "m \<equiv> current_contributors s @ finished_in_round s height"
  defines "restarted \<equiv> map (restarted_entry (number_of_chunks (environment s)) (length m) now) (enumerate 0 m)"
  shows "reset_current_round s force now =
    (if force \<or> m = []
     then (Inr \<lparr>remove_participants = map fst m, rollback = True\<rparr>,
       update_next_round_after (initialize ((state_new (environment s))
         \<lparr>current_metrics := Some (metrics_default\<lparr>is_round_aggregated := True,
            started_aggregation_at := Some now, finished_aggregation_at := Some now\<rparr>),
          current_round_height := Some (height - 1),
          queue := hm_extend (map (requeued now) (restarted @ next_participants s)) (queue s),
          banned := banned s\<rparr>) (height - 1)) now)
     else (Inr \<lparr>remove_participants = [], rollback = False\<rparr>,
       update_round_metrics (initialize ((state_new (environment s))
         \<lparr>current_contributors := restarted, queue := queue s, banned := banned s, dropped := dropped s\<rparr>) height)))"
proof -
  let ?n = "number_of_chunks (environment s)"
  from assms(1) have h: "current_round_height s = Some height" "height \<noteq> 0" "distinct (map fst m)" "length m \<le> ?n"
    and rh: "\<And>p info. (p, info) \<in> set m \<Longrightarrow> round_height info \<noteq> 0"
    unfolding resettable_def m_def by auto
  have all: "collect_results (restart_contributor ?n (length m) now) (enumerate 0 m) = Inr restarted"
    unfolding restarted_def by (rule restart_all_ok [OF rh h(4)])
  have "map fst restarted = map fst m" by (simp only: restarted_def restarted_keys)
  with h(3) have col: "hm_collect restarted = restarted" by (simp add: hm_collect_distinct)
  have len: "length (current_contributors s) + length (finished_in_round s height) = length m"
    by (simp add: m_def)
  show ?thesis
    unfolding reset_current_round_def h(1) option.case Let_def len m_def [symmetric] all sum.case col
    using h(2) by simp
qed

text \<open>A committed round, ready to be reset.\<close>

lemma committed_resettable:
  assumes "hm_wf (queue s)" "precommit_next_round s nh now = (Inr out, s')" "out \<noteq> []"
  shows "resettable (commit_next_round s') nh"
proof -
  note eff = precommit_effect [OF assms(1,2)] and com = committed_state [OF assms(1,2)]
  have C: "current_contributors (commit_next_round s') =
      map (staged_info nh (number_of_chunks (environment s)) (length (round_contributors s nh)) now)
        (enumerate 0 (bucket_order s nh))" by (simp add: com(4) eff(2))
  have fin: "finished_in_round (commit_next_round s') nh = []" by (simp add: finished_in_round_def com(6))
  have keys: "map fst (current_contributors (commit_next_round s')) = map fst (bucket_order s nh)"
    by (rule nth_equalityI) (simp_all add: C nth_enumerate_eq fst_staged)
  have "length (round_contributors s nh) \<noteq> 0" using assms(3) eff(1) bucket_order_facts(1) [of s nh] by auto
  with eff(4) have "length (bucket_order s nh) \<le> number_of_chunks (environment s)"
    by (simp add: bucket_order_facts(1))
  with com(1,8) eff(5) bucket_order_distinct [OF assms(1), of nh] show ?thesis
    unfolding resettable_def fin append_Nil2 keys
    by (auto simp: C staged_info_def pi_new_def split: prod.splits)
qed

text \<open>
  A reset with rollback ends the round and goes back to the previous one: its contributors,
  current and finished, and those staged for the next round are all back in the queue, nobody
  is left in the round, and the previous round counts as finished and aggregated, so that a new
  precommit is possible. The contributors to be removed from storage are those of the round.
\<close>

theorem reset_rollback_requeues:
  assumes "resettable s height" and "reset_current_round s True now = (r, s')"
  shows "r = Inr \<lparr>remove_participants = hm_keys (current_contributors s @ finished_in_round s height),
      rollback = True\<rparr> \<and>
    set (hm_keys (queue s')) = set (hm_keys (queue s)) \<union> set (hm_keys (current_contributors s)) \<union>
      set (hm_keys (finished_in_round s height)) \<union> set (hm_keys (next_participants s)) \<and>
    current_round_height s' = Some (height - 1) \<and> next_participants s' = [] \<and> banned s' = banned s \<and>
    is_current_round_finished s' \<and> is_current_round_aggregated s' \<and> dropped s' = []"
proof -
  let ?m = "current_contributors s @ finished_in_round s height"
  let ?r = "map (restarted_entry (number_of_chunks (environment s)) (length ?m) now) (enumerate 0 ?m)"
  have "map fst (map (requeued now) xs) = map fst xs" for xs by (simp add: requeued_def)
  then have q: "set (map fst (hm_extend (map (requeued now) (?r @ next_participants s)) (queue s))) =
      set (map fst ?m) \<union> set (map fst (next_participants s)) \<union> set (map fst (queue s))"
    unfolding hm_extend_keys by (simp only: map_append restarted_keys set_append)
  have "queue s' = hm_extend (map (requeued now) (?r @ next_participants s)) (queue s)"
    using assms(2) unfolding reset_outcome [OF assms(1)]
    by (auto simp: update_next_round_after_def initialize_def state_new_def)
  with q have "set (map fst (queue s')) =
      set (map fst ?m) \<union> set (map fst (next_participants s)) \<union> set (map fst (queue s))" by (simp only:)
  moreover have "r = Inr \<lparr>remove_participants = hm_keys ?m, rollback = True\<rparr> \<and>
    current_round_height s' = Some (height - 1) \<and> next_participants s' = [] \<and> banned s' = banned s \<and>
    is_current_round_finished s' \<and> is_current_round_aggregated s' \<and> dropped s' = []"
    using assms(2) unfolding reset_outcome [OF assms(1)]
    by (auto simp: update_next_round_after_def initialize_def state_new_def is_current_round_finished_def
        is_current_round_aggregated_def)
  ultimately show ?thesis by auto
qed

theorem reset_rollback_requeues_witness:
  "\<exists>s. resettable s 1 \<and> is_current_round_finished (snd (reset_current_round s True 60)) \<and>
     Contributor ''a'' \<in> set (hm_keys (queue (snd (reset_current_round s True 60))))"
proof -
  obtain s' where ok: "precommit_next_round demo_ready 1 40 = (Inr [Contributor ''a'', Contributor ''b''], s')"
    by (rule demo_precommit)
  let ?s = "commit_next_round s'"
  have reset: "resettable ?s 1" by (rule committed_resettable [OF demo_ready_facts(1) ok]) simp
  have "reset_current_round ?s True 60 = (fst (reset_current_round ?s True 60), snd (reset_current_round ?s True 60))"
    by simp
  note facts = reset_rollback_requeues [OF reset this]
  have "map fst (current_contributors ?s) = [Contributor ''a'', Contributor ''b'']"
    by (rule committed_round(2) [OF demo_ready_facts(1) ok])
  then have "Contributor ''a'' \<in> set (map fst (current_contributors ?s))" by simp
  with facts reset show ?thesis by blast
qed

text \<open>
  A reset without rollback restarts the round with those that are left: the contributors,
  current and finished, are the current ones again, nothing is completed or locked, and every
  contribution of every chunk is assigned to exactly one of them. The metrics of the round,
  however, count no contributors.
\<close>

theorem reset_restarts_round:
  assumes "resettable s height" and "reset_current_round s False now = (r, s')"
    and "current_contributors s @ finished_in_round s height \<noteq> []"
  shows "r = Inr \<lparr>remove_participants = [], rollback = False\<rparr> \<and>
    hm_keys (current_contributors s') = hm_keys (current_contributors s @ finished_in_round s height) \<and>
    current_round_height s' = Some height \<and> dropped s' = dropped s \<and>
    (\<forall>p info. (p, info) \<in> set (current_contributors s') \<longrightarrow> completed_tasks info = [] \<and>
      pending_tasks info = [] \<and> locked_chunks info = []) \<and>
    (\<forall>c i. c < number_of_chunks (environment s) \<and> 1 \<le> i \<and> i \<le> length (current_contributors s') \<longrightarrow>
      (\<exists>!p. \<exists>info. hm_get (current_contributors s') p = Some info \<and> new_task c i \<in> set (assigned_tasks info))) \<and>
    map_option number_of_contributors (current_metrics s') = Some 0"
proof -
  let ?m = "current_contributors s @ finished_in_round s height" and ?n = "number_of_chunks (environment s)"
  let ?r = "map (restarted_entry ?n (length ?m) now) (enumerate 0 ?m)"
  from assms(2,3) have r: "r = Inr \<lparr>remove_participants = [], rollback = False\<rparr>"
    and s': "s' = update_round_metrics (initialize ((state_new (environment s))
         \<lparr>current_contributors := ?r, queue := queue s, banned := banned s, dropped := dropped s\<rparr>) height)"
    unfolding reset_outcome [OF assms(1)] by auto
  have C: "current_contributors s' = ?r"
    by (simp add: s' update_round_metrics_frame initialize_def)
  have keys: "map fst (current_contributors s') = map fst ?m" unfolding C by (rule restarted_keys)
  from assms(1) have wf: "distinct (map fst ?m)" "length ?m \<le> ?n" by (simp_all add: resettable_def)
  have "\<exists>!p. \<exists>info. map_of ?r p = Some info \<and> new_task c i \<in> set (assigned_tasks info)"
    if "c < ?n \<and> 1 \<le> i \<and> i \<le> length ?r" for c i
    using that wf keys unfolding C
    by (intro indexed_unique_owner [where n = ?n]) (simp_all add: restarted_entry_def nth_enumerate_eq)
  moreover have "completed_tasks info = [] \<and> pending_tasks info = [] \<and> locked_chunks info = []"
    if "(p, info) \<in> set ?r" for p info
    using that by (auto simp: restarted_entry_def pi_clear_tasks_def pi_clear_locks_def pi_clear_round_times_def)
  moreover have "current_round_height s' = Some height" "dropped s' = dropped s"
    "map_option number_of_contributors (current_metrics s') = Some 0"
    by (simp_all add: s' update_round_metrics_frame initialize_def state_new_def metrics_default_def)
  ultimately show ?thesis using r keys unfolding C by blast
qed

theorem reset_restarts_round_witness:
  "\<exists>s. resettable s 1 \<and>
     hm_keys (current_contributors (snd (reset_current_round s False 60))) = [Contributor ''a'', Contributor ''b''] \<and>
     map_option number_of_contributors (current_metrics (snd (reset_current_round s False 60))) = Some 0"
proof -
  obtain s' where ok: "precommit_next_round demo_ready 1 40 = (Inr [Contributor ''a'', Contributor ''b''], s')"
    by (rule demo_precommit)
  let ?s = "commit_next_round s'"
  have reset: "resettable ?s 1" by (rule committed_resettable [OF demo_ready_facts(1) ok]) simp
  have keys: "map fst (current_contributors ?s) = [Contributor ''a'', Contributor ''b'']"
    by (rule committed_round(2) [OF demo_ready_facts(1) ok])
  have fin: "finished_in_round ?s 1 = []"
    using committed_state(6) [OF demo_ready_facts(1) ok] by (simp add: finished_in_round_def)
  have "reset_current_round ?s False 60 = (fst (reset_current_round ?s False 60), snd (reset_current_round ?s False 60))"
    by simp
  moreover have "current_contributors ?s @ finished_in_round ?s 1 \<noteq> []" using keys by auto
  ultimately have "hm_keys (current_contributors (snd (reset_current_round ?s False 60))) =
      hm_keys (current_contributors ?s @ finished_in_round ?s 1) \<and>
    map_option number_of_contributors (current_metrics (snd (reset_current_round ?s False 60))) = Some 0"
    using reset_restarts_round [OF reset] by blast
  with reset keys fin show ?thesis by (intro exI [of _ ?s]) simp
qed

end
