(* ===== verification/Coordinator_Drops.thy ===== *)
theory Coordinator_Drops
  imports Coordinator_Rounds
begin

text \<open>
  \<^verbatim>\<open>phase1-coordinator/src/coordinator_state.rs\<close>: dropping, replacing and banning
  participants. Dropping a contributor of the current round moves the affected tasks of the
  others and assigns a replacement contributor, or resets the round when there is none.
\<close>

record ReplaceContributorStorageAction =
  dropped_contributor :: Participant
  action_bucket_id :: u64
  action_locked_chunks :: "u64 list"
  action_tasks :: "Task list"
  replacement_contributor :: Participant

datatype CeremonyStorageAction =
    ResetCurrentRound ResetCurrentRoundStorageAction
  | ReplaceContributor ReplaceContributorStorageAction

datatype DropParticipant =
    DropCurrent Participant CeremonyStorageAction
  | DropQueue Participant

section \<open>Dropping from the queue\<close>

text \<open>The update of the map of IPs: one entry that mentions the participant.\<close>

definition forget_ip :: "Participant \<Rightarrow> IpAddr \<times> Participant hashset \<Rightarrow> CoordinatorState \<Rightarrow> CoordinatorState" where
  "forget_ip p entry self =
     (let (ip, participants) = entry in
      if length participants = 1
      then self\<lparr>contributor_ips := hm_remove ip (contributor_ips self)\<rparr>
      else self\<lparr>contributor_ips := hm_modify ip (removeAll p) (contributor_ips self)\<rparr>)"

definition drop_from_queue :: "CoordinatorState \<Rightarrow> Participant \<Rightarrow> OffsetDateTime \<Rightarrow> CoordinatorState" where
  "drop_from_queue self p now =
     (let self1 = (if hm_contains (queue self) p then self\<lparr>queue := hm_remove p (queue self)\<rparr> else self);
          self2 = (if hm_contains (next_participants self1) p
                   then rollback_next_round
                          (self1\<lparr>next_participants := hm_remove p (next_participants self1)\<rparr>) now
                   else self1);
          ips = filter (\<lambda>(_, participants). p \<in> set participants) (contributor_ips self2)
      in fold (forget_ip p) ips self2)"

section \<open>Dropping from the current round\<close>

text \<open>
  The body of the loop over the current contributors: pending tasks on a chunk of the dropped
  contributor are to be disposed, completed tasks that build on its contributions are disposed,
  and what is neither completed nor pending is assigned again.
\<close>

definition reassign_contributor ::
  "(u64, u64) hashmap \<Rightarrow> u64 \<Rightarrow> u64 \<Rightarrow> ParticipantInfo \<Rightarrow> (unit, ParticipantInfo) fallible" where
  "reassign_contributor tasks_by_chunk n k info =
     (let (disposing, pending) =
            partition (\<lambda>t. hm_get tasks_by_chunk (chunk_id t) \<noteq> None) (pending_tasks info);
          (disposed, completed) =
            partition (\<lambda>t. case hm_get tasks_by_chunk (chunk_id t) of
                             Some i \<Rightarrow> i < contribution_id t
                           | None \<Rightarrow> False) (completed_tasks info);
          info1 = info\<lparr>disposing_tasks := disposing, pending_tasks := pending,
                       completed_tasks := completed,
                       disposed_tasks := disposed_tasks info @ disposed\<rparr>;
          excluded = map chunk_id completed @ map chunk_id pending
      in case from_task_error (initialize_tasks (bucket_id info) n k) of
           Inl e \<Rightarrow> (Inl e, info1)
         | Inr tasks \<Rightarrow>
             (Inr (), info1\<lparr>assigned_tasks := filter (\<lambda>t. chunk_id t \<notin> set excluded) tasks\<rparr>))"

text \<open>The loop: it returns all disposed tasks, and stops at the first error.\<close>

fun reassign_contributors ::
  "(u64, u64) hashmap \<Rightarrow> u64 \<Rightarrow> u64 \<Rightarrow> (Participant \<times> ParticipantInfo) list \<Rightarrow> Task list \<Rightarrow>
   (Task list, (Participant \<times> ParticipantInfo) list) fallible" where
  "reassign_contributors tbc n k [] disposed = (Inr disposed, [])"
| "reassign_contributors tbc n k ((p, info) # rest) disposed =
     (case reassign_contributor tbc n k info of
        (Inl e, info') \<Rightarrow> (Inl e, (p, info') # rest)
      | (Inr _, info') \<Rightarrow>
          (let (r, rest') = reassign_contributors tbc n k rest (disposed @ disposed_tasks info')
           in (r, (p, info') # rest')))"

definition dispose_of_verifier :: "Task list \<Rightarrow> ParticipantInfo \<Rightarrow> ParticipantInfo" where
  "dispose_of_verifier disposed info =
     (let (disposing, pending) = partition (\<lambda>t. t \<in> set disposed) (pending_tasks info);
          (dead, completed) = partition (\<lambda>t. t \<in> set disposed) (completed_tasks info)
      in info\<lparr>pending_tasks := pending, disposing_tasks := disposing,
              completed_tasks := completed, disposed_tasks := disposed_tasks info @ dead\<rparr>)"

text \<open>\<^verbatim>\<open>Iterator::min_by_key\<close>: the first of the smallest elements.\<close>

fun min_by_key :: "('a \<Rightarrow> nat) \<Rightarrow> 'a list \<Rightarrow> 'a option" where
  "min_by_key f [] = None"
| "min_by_key f (x # xs) =
     (case min_by_key f xs of None \<Rightarrow> Some x | Some y \<Rightarrow> if f x \<le> f y then Some x else Some y)"

definition contributor_load :: "CoordinatorState \<Rightarrow> Participant \<Rightarrow> usize" where
  "contributor_load self p =
     (case hm_get (current_contributors self) p of
        Some info \<Rightarrow> length (pending_tasks info) + length (assigned_tasks info)
      | None \<Rightarrow> 0)"

definition add_replacement_contributor_unsafe ::
  "CoordinatorState \<Rightarrow> u64 \<Rightarrow> OffsetDateTime \<Rightarrow> Participant state_outcome" where
  "add_replacement_contributor_unsafe self bucket now =
     (case min_by_key (contributor_load self) (coordinator_contributors (environment self)) of
        None \<Rightarrow> (Inl CoordinatorContributorMissing, self)
      | Some contributor \<Rightarrow>
          (case current_metrics self of
             None \<Rightarrow> (Inl CoordinatorStateNotInitialized, self)
           | Some metrics \<Rightarrow>
               (case from_task_error (initialize_tasks bucket (number_of_chunks (environment self))
                       (number_of_contributors metrics)) of
                  Inl e \<Rightarrow> (Inl e, self)
                | Inr tasks \<Rightarrow>
                    (case pi_start (pi_new contributor (round_height_or_zero self) 10 bucket now) tasks now of
                       (Inl e, _) \<Rightarrow> (Inl e, self)
                     | (Inr _, info) \<Rightarrow>
                         (Inr contributor, self\<lparr>current_contributors :=
                            hm_insert contributor info (current_contributors self)\<rparr>)))))"

text \<open>The branch for a contributor: from the drop of its information to the storage action.\<close>

definition drop_current_contributor ::
  "CoordinatorState \<Rightarrow> Participant \<Rightarrow> ParticipantInfo \<Rightarrow> OffsetDateTime \<Rightarrow> CeremonyStorageAction state_outcome" where
  "drop_current_contributor self participant info now =
     (case pi_drop info now of
        (Inl e, _) \<Rightarrow> (Inl e, self)
      | (Inr _, dropped_info) \<Rightarrow>
          (case current_metrics self of
             None \<Rightarrow> (Inl CoordinatorStateNotInitialized, self)
           | Some metrics \<Rightarrow>
               (let n = number_of_chunks (environment self);
                    k = number_of_contributors metrics;
                    tasks = completed_tasks info;
                    tasks_by_chunk = hm_collect (map to_tuple tasks)
                in case reassign_contributors tasks_by_chunk n k (current_contributors self) tasks of
                     (Inl e, cs) \<Rightarrow> (Inl e, self\<lparr>current_contributors := cs\<rparr>)
                   | (Inr disposed, cs) \<Rightarrow>
                       (let self1 = self\<lparr>current_contributors := hm_remove participant cs,
                              current_verifiers :=
                                hm_map_values (dispose_of_verifier disposed) (current_verifiers self),
                              dropped := dropped self @ [dropped_info]\<rparr>
                        in if coordinator_contributors (environment self1) = []
                           then (Inr (ResetCurrentRound
                                  \<lparr>remove_participants = [participant], rollback = False\<rparr>), self1)
                           else and_then (add_replacement_contributor_unsafe self1 (bucket_id info) now)
                                  (\<lambda>replacement self. (Inr (ReplaceContributor
                                     \<lparr>dropped_contributor = participant,
                                      action_bucket_id = bucket_id info,
                                      action_locked_chunks = hm_keys (locked_chunks info),
                                      action_tasks = tasks,
                                      replacement_contributor = replacement\<rparr>), self))))))"

text \<open>The reset action, extended by what the reset of the round requires.\<close>

definition extend_reset ::
  "ResetCurrentRoundStorageAction \<Rightarrow> ResetCurrentRoundStorageAction \<Rightarrow> ResetCurrentRoundStorageAction" where
  "extend_reset action extra =
     \<lparr>remove_participants = fold hs_insert (remove_participants extra) (remove_participants action),
      rollback = (rollback action \<or> rollback extra)\<rparr>"

definition drop_participant ::
  "CoordinatorState \<Rightarrow> Participant \<Rightarrow> OffsetDateTime \<Rightarrow> DropParticipant state_outcome" where
  "drop_participant self participant now =
     (if status self = Initializing then (Inl CoordinatorStateNotInitialized, self)
      else if hm_contains (queue self) participant \<or> hm_contains (next_participants self) participant
      then (Inr (DropQueue participant), drop_from_queue self participant now)
      else
        (case current_participant_info self participant of
           None \<Rightarrow> (Inl (ParticipantNotFound participant), self)
         | Some info \<Rightarrow>
             if pi_is_dropped info then (Inl ParticipantAlreadyDropped, self)
             else if pi_is_finished info then (Inl ParticipantAlreadyFinished, self)
             else
               (case participant of
                  Verifier _ \<Rightarrow> (Inl ExpectedContributor, self)
                | Contributor _ \<Rightarrow>
                    and_then (drop_current_contributor self participant info now)
                      (\<lambda>action self.
                         case action of
                           ReplaceContributor a \<Rightarrow>
                             (Inr (DropCurrent participant (ReplaceContributor a)), self)
                         | ResetCurrentRound a \<Rightarrow>
                             and_then (reset_current_round self False now)
                               (\<lambda>extra self. (Inr (DropCurrent participant
                                  (ResetCurrentRound (extend_reset a extra))), self))))))"

section \<open>Bans\<close>

definition ban_participant ::
  "CoordinatorState \<Rightarrow> Participant \<Rightarrow> OffsetDateTime \<Rightarrow> DropParticipant state_outcome" where
  "ban_participant self participant now =
     (if participant \<in> set (banned self) then (Inl ParticipantAlreadyBanned, self)
      else and_then (drop_participant self participant now)
             (\<lambda>d self.
                case d of
                  DropCurrent p action \<Rightarrow>
                    (Inr (DropCurrent p action), self\<lparr>banned := hs_insert participant (banned self)\<rparr>)
                | DropQueue _ \<Rightarrow> (Inl JustificationInvalid, self)))"

definition unban_participant :: "CoordinatorState \<Rightarrow> Participant \<Rightarrow> CoordinatorState" where
  "unban_participant self participant =
     self\<lparr>banned := filter (\<lambda>p. p \<noteq> participant) (banned self)\<rparr>"

text \<open>One turn of the loop of \<^verbatim>\<open>update_banned_participants\<close>.\<close>

definition ban_if_dropped_often :: "ParticipantInfo \<Rightarrow> CoordinatorState \<Rightarrow> CoordinatorState" where
  "ban_if_dropped_often info self =
     (if pi_id info \<notin> set (banned self) \<and>
         participant_ban_threshold (environment self) <
           length (filter (\<lambda>d. pi_id d = pi_id info) (dropped self))
      then self\<lparr>banned := hs_insert (pi_id info) (banned self)\<rparr>
      else self)"

definition update_banned_participants :: "CoordinatorState \<Rightarrow> unit state_outcome" where
  "update_banned_participants self = (Inr (), fold ban_if_dropped_often (dropped self) self)"

section \<open>Timeouts\<close>

text \<open>
  The participants that are due are dropped one after the other; the first error ends the loop.
  Whether a participant is due depends on its information at the start of the loop and on the
  environment, which no drop changes.
\<close>

fun drop_participants ::
  "OffsetDateTime \<Rightarrow> Participant list \<Rightarrow> CoordinatorState \<Rightarrow> DropParticipant list state_outcome" where
  "drop_participants now [] self = (Inr [], self)"
| "drop_participants now (p # ps) self =
     and_then (drop_participant self p now)
       (\<lambda>d self. and_then (drop_participants now ps self) (\<lambda>ds self. (Inr (d # ds), self)))"

definition update_contributor_seen_drops ::
  "CoordinatorState \<Rightarrow> OffsetDateTime \<Rightarrow> DropParticipant list state_outcome" where
  "update_contributor_seen_drops self now =
     drop_participants now
       (map fst (filter (\<lambda>(p, info).
          contributor_seen_timeout (environment self) < now - last_seen info \<and>
          \<not> is_coordinator_contributor self p) (current_contributors self))) self"

definition update_participant_lock_drops ::
  "CoordinatorState \<Rightarrow> OffsetDateTime \<Rightarrow> DropParticipant list state_outcome" where
  "update_participant_lock_drops self now =
     drop_participants now
       (map fst (filter (\<lambda>(p, info).
          \<not> is_coordinator_contributor self p \<and>
          filter (\<lambda>(_, lock). participant_lock_timeout (environment self) < now - lock_time lock)
            (locked_chunks info) \<noteq> [])
          (current_contributors self @ current_verifiers self))) self"

definition update_dropped_participants ::
  "CoordinatorState \<Rightarrow> OffsetDateTime \<Rightarrow> DropParticipant list state_outcome" where
  "update_dropped_participants self now =
     and_then (update_contributor_seen_drops self now)
       (\<lambda>seen self. and_then (update_participant_lock_drops self now)
          (\<lambda>locks self. (Inr (seen @ locks), self)))"

definition update_dropped_queued_participants ::
  "CoordinatorState \<Rightarrow> OffsetDateTime \<Rightarrow> unit state_outcome" where
  "update_dropped_queued_participants self now =
     and_then (drop_participants now
       (map fst (filter (\<lambda>(_, (_, _, seen, _)). queue_seen_timeout (environment self) < now - seen)
          (queue self))) self)
       (\<lambda>_ self. (Inr (), self))"

section \<open>Drops from the queue\<close>

lemma forget_ip_frame:
  "queue (fold (forget_ip p) ips s) = queue s" "next_participants (fold (forget_ip p) ips s) = next_participants s"
  "banned (fold (forget_ip p) ips s) = banned s" "status (fold (forget_ip p) ips s) = status s"
  "environment (fold (forget_ip p) ips s) = environment s"
  "current_contributors (fold (forget_ip p) ips s) = current_contributors s"
  by (induction ips arbitrary: s) (auto simp: forget_ip_def split: prod.splits)

lemma drop_from_queue_waiting:
  assumes "hm_contains (queue s) p" "\<not> hm_contains (next_participants s) p"
  shows "queue (drop_from_queue s p now) = hm_remove p (queue s)"
    "next_participants (drop_from_queue s p now) = next_participants s"
    "banned (drop_from_queue s p now) = banned s" "status (drop_from_queue s p now) = status s"
    "environment (drop_from_queue s p now) = environment s"
    "current_contributors (drop_from_queue s p now) = current_contributors s"
  using assms by (simp_all add: drop_from_queue_def Let_def forget_ip_frame)

text \<open>
  Banning a participant that waits in the queue does not ban it: the participant is
  removed from the queue, the call returns an error, and the participant may join again.
\<close>

theorem ban_of_queued_participant:
  assumes "status s \<noteq> Initializing" and "hm_contains (queue s) p"
    and "\<not> hm_contains (next_participants s) p" and "p \<notin> set (banned s)"
    and "ban_participant s p now = (r, s')"
  shows "r = Inl JustificationInvalid \<and> \<not> hm_contains (queue s') p \<and> p \<notin> set (banned s')"
proof -
  from assms have "r = Inl JustificationInvalid" "s' = drop_from_queue s p now"
    by (auto simp: ban_participant_def drop_participant_def)
  with assms(4) drop_from_queue_waiting [OF assms(2,3)] show ?thesis
    by (simp add: keys_delete [simplified])
qed

lemma demo_state_drop:
  "status demo_state = Initialized" "hm_contains (queue demo_state) (Contributor ''a'')"
  "\<not> hm_contains (next_participants demo_state) (Contributor ''a'')" "banned demo_state = []"
  by (simp_all add: demo_state_def initialize_def state_new_def)

theorem ban_of_queued_participant_witness:
  "fst (ban_participant demo_state (Contributor ''a'') 50) = Inl JustificationInvalid \<and>
   Contributor ''a'' \<notin> set (banned (snd (ban_participant demo_state (Contributor ''a'') 50)))"
proof -
  have "ban_participant demo_state (Contributor ''a'') 50 =
    (fst (ban_participant demo_state (Contributor ''a'') 50), snd (ban_participant demo_state (Contributor ''a'') 50))"
    by simp
  from ban_of_queued_participant [OF _ demo_state_drop(2,3) _ this] show ?thesis
    by (simp add: demo_state_drop)
qed

lemma drop_waiting_participants:
  assumes "status s \<noteq> Initializing" "distinct ps" "set ps \<subseteq> set (map fst (queue s))"
    "set ps \<inter> set (map fst (next_participants s)) = {}"
  shows "\<exists>s'. drop_participants now ps s = (Inr (map DropQueue ps), s') \<and>
    queue s' = fold hm_remove ps (queue s) \<and> next_participants s' = next_participants s \<and>
    environment s' = environment s \<and> current_contributors s' = current_contributors s"
  using assms
proof (induction ps arbitrary: s)
  case Nil
  show ?case by simp
next
  case (Cons p ps)
  let ?s = "drop_from_queue s p now"
  from Cons.prems have p: "hm_contains (queue s) p" "\<not> hm_contains (next_participants s) p" by auto
  note eff = drop_from_queue_waiting [OF p, of now]
  have "drop_participant s p now = (Inr (DropQueue p), ?s)"
    using Cons.prems(1) p by (simp add: drop_participant_def)
  moreover have "\<exists>s'. drop_participants now ps ?s = (Inr (map DropQueue ps), s') \<and>
      queue s' = fold hm_remove ps (queue ?s) \<and> next_participants s' = next_participants ?s \<and>
      environment s' = environment ?s \<and> current_contributors s' = current_contributors ?s"
    using Cons.prems by (intro Cons.IH) (auto simp: eff keys_delete [simplified])
  ultimately show ?case using eff by auto
qed

lemma fold_remove_filter:
  "fold hm_remove ps m = filter (\<lambda>e. fst e \<notin> set ps) m"
proof (induction ps arbitrary: m)
  case (Cons p ps)
  have "AList.delete p m = filter (\<lambda>e. fst e \<noteq> p) m" by (induction m) auto
  then have "filter (\<lambda>e. fst e \<notin> set ps) (AList.delete p m) = filter (\<lambda>e. fst e \<notin> set (p # ps)) m"
    by (simp add: filter_filter)
  with Cons.IH show ?case by simp
qed simp

text \<open>
  The timeout of the queue drops exactly the participants that were last seen longer ago
  than permitted, and nobody else.
\<close>

theorem queue_timeout_exact:
  assumes "status s \<noteq> Initializing" and "hm_wf (queue s)"
    and "set (hm_keys (queue s)) \<inter> set (hm_keys (next_participants s)) = {}"
    and "update_dropped_queued_participants s now = (r, s')"
  shows "r = Inr () \<and> current_contributors s' = current_contributors s \<and>
    queue s' = filter (\<lambda>(_, (_, _, seen, _)). now - seen \<le> queue_seen_timeout (environment s)) (queue s)"
proof -
  let ?late = "\<lambda>e. case e of (_, (_, _, seen, _)) \<Rightarrow> queue_seen_timeout (environment s) < now - seen"
  let ?ps = "map fst (filter ?late (queue s))"
  have "distinct ?ps" using assms(2) by (rule distinct_map_filter)
  moreover have "set ?ps \<subseteq> set (map fst (queue s))" by auto
  ultimately obtain s1 where s1: "drop_participants now ?ps s = (Inr (map DropQueue ?ps), s1)"
    "queue s1 = fold hm_remove ?ps (queue s)" "current_contributors s1 = current_contributors s"
    using drop_waiting_participants [of s ?ps now] assms(1,3) by (auto simp: disjoint_iff)
  have "filter (\<lambda>e. fst e \<notin> set ?ps) (queue s) = filter (\<lambda>e. \<not> ?late e) (queue s)"
  proof (rule filter_cong)
    fix e
    assume e: "e \<in> set (queue s)"
    show "(fst e \<notin> set ?ps) \<longleftrightarrow> \<not> ?late e"
      using e assms(2) by (auto simp: distinct_map inj_on_def)
  qed simp
  moreover have "filter (\<lambda>e. \<not> ?late e) (queue s) =
      filter (\<lambda>(_, (_, _, seen, _)). now - seen \<le> queue_seen_timeout (environment s)) (queue s)"
    by (rule filter_cong) (auto simp: not_less)
  moreover have "r = Inr ()" "s' = s1"
    using assms(4) s1(1) by (simp_all add: update_dropped_queued_participants_def)
  ultimately show ?thesis using s1(2,3) by (simp only: fold_remove_filter)
qed

theorem queue_timeout_exact_witness:
  "queue (snd (update_dropped_queued_participants (demo_state\<lparr>environment :=
     demo_environment\<lparr>queue_seen_timeout := 15\<rparr>\<rparr>) 40)) = [(Contributor ''c'', (7, None, 30, 30))]"
proof -
  let ?s = "demo_state\<lparr>environment := demo_environment\<lparr>queue_seen_timeout := 15\<rparr>\<rparr>"
  have "update_dropped_queued_participants ?s 40 =
    (fst (update_dropped_queued_participants ?s 40), snd (update_dropped_queued_participants ?s 40))" by simp
  note facts = queue_timeout_exact [OF _ _ _ this]
  have "status ?s \<noteq> Initializing" "hm_wf (queue ?s)" "next_participants ?s = []"
    using demo_state_drop(1) demo_state_simps(1)
    by (simp_all add: demo_state_def initialize_def state_new_def)
  with facts show ?thesis by (simp add: demo_state_def)
qed

end
