(* ===== verification/Round_Invariant.thy ===== *)
theory Round_Invariant
  imports Coordinator_Drops
begin

text \<open>
  The books of a running round. From the commit of a round until its end, whatever the
  contributors do, whoever joins or leaves the queue and whoever is dropped, no two
  contributors of the round, current or finished, have the same starting bucket, and each of
  them has the tasks of its bucket, assigned, pending or completed. A dropped contributor is
  followed in its bucket by its replacement. The code does not ask whether the replacement is
  in the round already: then the round loses a participant, and the bucket of that one. As long
  as it has lost none, all buckets are occupied, and when the round is finished every
  contribution of every chunk was completed by exactly one finished contributor.
\<close>

section \<open>The invariant\<close>

definition tasks_ok :: "u64 \<Rightarrow> u64 \<Rightarrow> ParticipantInfo \<Rightarrow> bool" where
  "tasks_ok n k info \<longleftrightarrow>
     is_contributor (pi_id info) \<and> bucket_id info < k \<and>
     mset (open_tasks info) = mset (tasks_for (bucket_id info) n k)"

definition books_ok ::
  "u64 \<Rightarrow> u64 \<Rightarrow> (Participant, ParticipantInfo) hashmap \<Rightarrow> (Participant, ParticipantInfo) hashmap \<Rightarrow> bool" where
  "books_ok n k current finished \<longleftrightarrow>
     distinct (map fst current) \<and> distinct (map fst finished) \<and>
     inj_on (bucket_id \<circ> snd) (set (current @ finished)) \<and> (k \<noteq> 0 \<longrightarrow> k \<le> n) \<and>
     (\<forall>p info. (p, info) \<in> set (current @ finished) \<longrightarrow> pi_id info = p \<and> tasks_ok n k info) \<and>
     (\<forall>p info. (p, info) \<in> set current \<longrightarrow> finished_at info = None) \<and>
     (\<forall>p info. (p, info) \<in> set finished \<longrightarrow>
        finished_at info \<noteq> None \<and> assigned_tasks info = [] \<and> pending_tasks info = [])"

definition round_inv :: "CoordinatorState \<Rightarrow> bool" where
  "round_inv s \<longleftrightarrow>
     (\<exists>metrics height finished.
        current_metrics s = Some metrics \<and> current_round_height s = Some height \<and>
        height \<noteq> 0 \<and> list_all is_contributor (coordinator_contributors (environment s)) \<and>
        hm_get (finished_contributors s) height = Some finished \<and>
        books_ok (number_of_chunks (environment s)) (number_of_contributors metrics)
          (current_contributors s) finished)"

text \<open>
  The participants of the round, each once. The books are full when there are as many as the
  round has buckets.
\<close>

definition round_participants :: "CoordinatorState \<Rightarrow> Participant list" where
  "round_participants s =
     remdups (hm_keys (current_contributors s @ finished_in_round s (round_height_or_zero s)))"

definition books_full ::
  "u64 \<Rightarrow> u64 \<Rightarrow> (Participant, ParticipantInfo) hashmap \<Rightarrow> (Participant, ParticipantInfo) hashmap \<Rightarrow> bool" where
  "books_full n k current finished \<longleftrightarrow>
     books_ok n k current finished \<and> card (set (map fst (current @ finished))) = k"

lemma books_okD:
  assumes "books_ok n k C F"
  shows "distinct (map fst C)" "distinct (map fst F)" "inj_on (bucket_id \<circ> snd) (set (C @ F))"
    "(p, info) \<in> set (C @ F) \<Longrightarrow> pi_id info = p"
    "(p, info) \<in> set (C @ F) \<Longrightarrow> tasks_ok n k info"
    "(p, info) \<in> set C \<Longrightarrow> finished_at info = None"
    "(p, info) \<in> set F \<Longrightarrow> finished_at info \<noteq> None \<and> assigned_tasks info = [] \<and> pending_tasks info = []"
    "k \<noteq> 0 \<longrightarrow> k \<le> n"
  using assms unfolding books_ok_def by (blast, blast, blast, blast, blast, blast, blast, blast)

lemma books_okI:
  assumes "distinct (map fst C)" "distinct (map fst F)" "inj_on (bucket_id \<circ> snd) (set (C @ F))"
    "k \<noteq> 0 \<longrightarrow> k \<le> n"
    "\<And>p info. (p, info) \<in> set (C @ F) \<Longrightarrow> pi_id info = p \<and> tasks_ok n k info"
    "\<And>p info. (p, info) \<in> set C \<Longrightarrow> finished_at info = None"
    "\<And>p info. (p, info) \<in> set F \<Longrightarrow>
       finished_at info \<noteq> None \<and> assigned_tasks info = [] \<and> pending_tasks info = []"
  shows "books_ok n k C F"
  using assms unfolding books_ok_def by blast

lemma books_bucket_inj:
  assumes "books_ok n k C F" "(p, i) \<in> set (C @ F)" "(q, j) \<in> set (C @ F)" "bucket_id i = bucket_id j"
  shows "p = q \<and> i = j"
  using inj_onD [OF books_okD(3) [OF assms(1)] _ assms(2,3)] assms(4) by simp

text \<open>
  Entries of the current and of the finished contributors differ, so there are at most as many
  as buckets, and full books have every participant once and every bucket once.
\<close>

lemma books_ok_distinct:
  assumes "books_ok n k C F"
  shows "distinct (C @ F)" "length (C @ F) \<le> k"
proof -
  have "set C \<inter> set F = {}" using books_okD(6,7) [OF assms] by fastforce
  then show d: "distinct (C @ F)"
    using books_okD(1,2) [OF assms] by (simp add: distinct_map)
  have "(bucket_id \<circ> snd) ` set (C @ F) \<subseteq> {..<k}"
    using books_okD(5) [OF assms] by (fastforce simp: tasks_ok_def)
  from card_inj_on_le [OF books_okD(3) [OF assms] this] distinct_card [OF d]
  show "length (C @ F) \<le> k" by simp
qed

lemma books_fullD:
  assumes "books_full n k C F"
  shows "books_ok n k C F" "length (C @ F) = k" "distinct (map fst (C @ F))"
    "bucket_id ` snd ` set (C @ F) = {..<k}"
proof -
  from assms show ok: "books_ok n k C F" by (simp add: books_full_def)
  from assms have card: "card (set (map fst (C @ F))) = k" by (simp add: books_full_def)
  with books_ok_distinct(2) [OF ok] card_length [of "map fst (C @ F)"]
  show len: "length (C @ F) = k" by simp
  with card show "distinct (map fst (C @ F))" by (intro card_distinct) simp
  show "bucket_id ` snd ` set (C @ F) = {..<k}"
  proof (rule card_subset_eq)
    show "bucket_id ` snd ` set (C @ F) \<subseteq> {..<k}"
      using books_okD(5) [OF ok] by (fastforce simp: tasks_ok_def)
    have "card ((bucket_id \<circ> snd) ` set (C @ F)) = length (C @ F)"
      using card_image [OF books_okD(3) [OF ok]] distinct_card [OF books_ok_distinct(1) [OF ok]] by simp
    then show "card (bucket_id ` snd ` set (C @ F)) = card {..<k}" by (simp add: len [simplified] image_comp)
  qed simp
qed

lemma tasks_ok_distinct:
  assumes "tasks_ok n k info" "k \<noteq> 0 \<longrightarrow> k \<le> n"
  shows "distinct (map chunk_id (open_tasks info))" "distinct (open_tasks info)" "distinct (pending_tasks info)"
proof -
  from assms have "0 < k" "bucket_id info < k" "k \<le> n" by (auto simp: tasks_ok_def)
  then have "distinct (map chunk_id (tasks_for (bucket_id info) n k))" by (rule sched.distinct_chunks)
  moreover have "mset (map chunk_id (open_tasks info)) = mset (map chunk_id (tasks_for (bucket_id info) n k))"
    using assms(1) by (simp add: tasks_ok_def)
  ultimately show d: "distinct (map chunk_id (open_tasks info))" by (metis mset_eq_imp_distinct_iff)
  then show "distinct (open_tasks info)" by (simp add: distinct_map)
  then show "distinct (pending_tasks info)" by (simp add: open_tasks_def)
qed

section \<open>Evolution of the books\<close>

text \<open>
  What every operation but the end of a contributor's round and its drop does to the
  information of a participant: its tasks are moved, its identity and bucket stay, and nothing
  happens to the tasks of a finished one.
\<close>

definition info_evolves :: "ParticipantInfo \<Rightarrow> ParticipantInfo \<Rightarrow> bool" where
  "info_evolves i j \<longleftrightarrow>
     pi_id j = pi_id i \<and> bucket_id j = bucket_id i \<and> finished_at j = finished_at i \<and>
     mset (open_tasks j) = mset (open_tasks i) \<and>
     (finished_at i \<noteq> None \<longrightarrow> assigned_tasks j = assigned_tasks i \<and> pending_tasks j = pending_tasks i)"

definition map_evolves :: "('v \<Rightarrow> 'v \<Rightarrow> bool) \<Rightarrow> ('k, 'v) hashmap \<Rightarrow> ('k, 'v) hashmap \<Rightarrow> bool" where
  "map_evolves R m m' \<longleftrightarrow> list_all2 (\<lambda>x y. fst x = fst y \<and> R (snd x) (snd y)) m m'"

definition state_evolves :: "CoordinatorState \<Rightarrow> CoordinatorState \<Rightarrow> bool" where
  "state_evolves s s' \<longleftrightarrow>
     environment s' = environment s \<and> current_round_height s' = current_round_height s \<and>
     map_option number_of_contributors (current_metrics s') =
       map_option number_of_contributors (current_metrics s) \<and>
     map_evolves info_evolves (current_contributors s) (current_contributors s') \<and>
     map_evolves (map_evolves info_evolves) (finished_contributors s) (finished_contributors s')"

lemma info_evolves_refl [simp]: "info_evolves i i"
  by (simp add: info_evolves_def)

lemma map_evolves_refl: "(\<And>v. R v v) \<Longrightarrow> map_evolves R m m"
  by (simp add: map_evolves_def list_all2_same)

lemma infos_evolve_refl [simp]:
  "map_evolves info_evolves m m" "map_evolves (map_evolves info_evolves) f f"
  by (rule map_evolves_refl, rule info_evolves_refl, rule map_evolves_refl, rule map_evolves_refl,
      rule info_evolves_refl)

lemma map_evolves_keys: "map_evolves R m m' \<Longrightarrow> map fst m' = map fst m"
  unfolding map_evolves_def by (induction rule: list_all2_induct) auto

lemma map_evolves_lookup: "map_evolves R m m' \<Longrightarrow> rel_option R (map_of m k) (map_of m' k)"
  unfolding map_evolves_def by (induction rule: list_all2_induct) auto

lemma map_evolves_entry:
  "(\<And>v. map_of m k = Some v \<Longrightarrow> R v (f v)) \<Longrightarrow> (\<And>v. R v v) \<Longrightarrow> map_evolves R m (AList.map_entry k f m)"
  unfolding map_evolves_def by (induction m) (auto simp: list_all2_same)

lemma map_evolves_member:
  "map_evolves R m m' \<Longrightarrow> (k, v') \<in> set m' \<Longrightarrow> \<exists>v. (k, v) \<in> set m \<and> R v v'"
  unfolding map_evolves_def by (induction rule: list_all2_induct) auto

lemma map_evolves_buckets:
  "map_evolves info_evolves m m' \<Longrightarrow> map (bucket_id \<circ> snd) m' = map (bucket_id \<circ> snd) m"
  unfolding map_evolves_def by (induction rule: list_all2_induct) (auto simp: info_evolves_def)

lemma tasks_ok_evolves: "info_evolves i j \<Longrightarrow> tasks_ok n k i \<Longrightarrow> tasks_ok n k j"
  by (simp add: info_evolves_def tasks_ok_def)

lemma books_ok_evolves:
  assumes "books_ok n k C F" "map_evolves info_evolves C C'" "map_evolves info_evolves F F'"
  shows "books_ok n k C' F'"
proof (rule books_okI)
  note keys = map_evolves_keys [OF assms(2)] map_evolves_keys [OF assms(3)]
  note buckets = map_evolves_buckets [OF assms(2)] map_evolves_buckets [OF assms(3)]
  show "distinct (map fst C')" "distinct (map fst F')" using books_okD(1,2) [OF assms(1)] by (simp_all only: keys)
  have "distinct (map (bucket_id \<circ> snd) (C @ F))"
    unfolding distinct_map using books_ok_distinct(1) [OF assms(1)] books_okD(3) [OF assms(1)] by blast
  then have "distinct (map (bucket_id \<circ> snd) (C' @ F'))" by (simp only: map_append buckets)
  then show "inj_on (bucket_id \<circ> snd) (set (C' @ F'))" unfolding distinct_map by blast
  show "k \<noteq> 0 \<longrightarrow> k \<le> n" by (rule books_okD(8) [OF assms(1)])
  show "pi_id j = p \<and> tasks_ok n k j" if "(p, j) \<in> set (C' @ F')" for p j
  proof -
    from that have "(p, j) \<in> set C' \<or> (p, j) \<in> set F'" by simp
    then obtain i where "(p, i) \<in> set (C @ F)" "info_evolves i j"
      using map_evolves_member [OF assms(2)] map_evolves_member [OF assms(3)] by (metis Un_iff set_append)
    with books_okD(4,5) [OF assms(1)] show ?thesis
      by (metis info_evolves_def tasks_ok_evolves)
  qed
  show "finished_at j = None" if j: "(p, j) \<in> set C'" for p j
    using map_evolves_member [OF assms(2) j] books_okD(6) [OF assms(1)] by (metis info_evolves_def)
  show "finished_at j \<noteq> None \<and> assigned_tasks j = [] \<and> pending_tasks j = []" if j: "(p, j) \<in> set F'" for p j
    using map_evolves_member [OF assms(3) j] books_okD(7) [OF assms(1)] by (metis info_evolves_def)
qed

lemma round_inv_evolves:
  assumes "round_inv s" "state_evolves s s'"
  shows "round_inv s'"
proof -
  from assms(1) obtain m h F where inv: "current_metrics s = Some m" "current_round_height s = Some h"
    "hm_get (finished_contributors s) h = Some F"
    "books_ok (number_of_chunks (environment s)) (number_of_contributors m) (current_contributors s) F"
    and rest: "h \<noteq> 0" "list_all is_contributor (coordinator_contributors (environment s))"
    by (auto simp: round_inv_def)
  from assms(2) have ev: "environment s' = environment s" "current_round_height s' = current_round_height s"
    "map_option number_of_contributors (current_metrics s') = map_option number_of_contributors (current_metrics s)"
    "map_evolves info_evolves (current_contributors s) (current_contributors s')"
    "map_evolves (map_evolves info_evolves) (finished_contributors s) (finished_contributors s')"
    by (simp_all add: state_evolves_def)
  from ev(3) inv(1) obtain m' where m': "current_metrics s' = Some m'"
    "number_of_contributors m' = number_of_contributors m" by auto
  from map_evolves_lookup [OF ev(5), of h] inv(3) obtain F' where F':
    "hm_get (finished_contributors s') h = Some F'" "map_evolves info_evolves F F'"
    by (cases "hm_get (finished_contributors s') h") auto
  from books_ok_evolves [OF inv(4) ev(4) F'(2)] m' F' ev(1,2) inv(2) rest show ?thesis
    by (auto simp: round_inv_def)
qed

section \<open>The operations of the participants\<close>

lemma info_step_evolves:
  assumes "info_step i j" "is_contributor (pi_id i)" "distinct (pending_tasks i)"
    "finished_at i = None" "finished_at j = None"
  shows "info_evolves i j"
  using info_step_moves_tasks [OF assms(1-3)] info_step_frame [OF assms(1,2)] assms(4,5)
  by (simp add: info_evolves_def)

text \<open>An outcome that is an error without effect or a step of a contributor that is not finished.\<close>

lemma outcome_evolves:
  assumes "is_contributor (pi_id i)" "distinct (open_tasks i)"
    and "\<And>e j. out = (Inl e, j) \<Longrightarrow> j = i"
    and "\<And>a j. out = (Inr a, j) \<Longrightarrow> info_step i j \<and> finished_at i = None \<and> finished_at j = None"
  shows "info_evolves i (snd out)"
proof (cases out)
  case (Pair r j)
  from assms(2) have d: "distinct (pending_tasks i)" by (simp add: open_tasks_def)
  show ?thesis
  proof (cases r)
    case (Inl e)
    with Pair assms(3) show ?thesis by simp
  next
    case (Inr a)
    with Pair assms(4) have "info_step i j" "finished_at i = None" "finished_at j = None" by blast+
    with info_step_evolves [OF _ assms(1) d] Pair show ?thesis by simp
  qed
qed

lemma pop_evolves:
  assumes "is_contributor (pi_id i)" "distinct (open_tasks i)"
  shows "info_evolves i (snd (pi_pop_task i now))"
proof (rule outcome_evolves [OF assms])
  fix t j
  assume ok: "pi_pop_task i now = (Inr t, j)"
  then obtain rest where "finished_at i = None" "finished_at j = None" by (rule pi_pop_task_ok) simp
  with info_step.pop [OF ok] show "info_step i j \<and> finished_at i = None \<and> finished_at j = None" by simp
qed (rule pi_pop_task_err)

lemma acquire_evolves:
  assumes "is_contributor (pi_id i)" "distinct (open_tasks i)"
  shows "info_evolves i (snd (pi_acquired_lock i c now))"
proof (rule outcome_evolves [OF assms])
  fix a j
  assume ok: "pi_acquired_lock i c now = (Inr a, j)"
  then have ok': "pi_acquired_lock i c now = (Inr (), j)" by simp
  from pi_acquired_lock_ok(2,4) [OF ok' assms(1)] info_step.acquire [OF ok']
  show "info_step i j \<and> finished_at i = None \<and> finished_at j = None" by simp
qed (rule pi_acquired_lock_err)

lemma complete_evolves:
  assumes "is_contributor (pi_id i)" "distinct (open_tasks i)"
  shows "info_evolves i (snd (pi_completed_task i t now))"
proof (rule outcome_evolves [OF assms])
  fix a j
  assume "pi_completed_task i t now = (Inr a, j)"
  then have ok: "pi_completed_task i t now = (Inr (), j)" by simp
  from pi_completed_task_ok(2,4) [OF ok] info_step.complete [OF ok]
  show "info_step i j \<and> finished_at i = None \<and> finished_at j = None" by simp
qed (rule pi_completed_task_err)

lemma rollback_pending_evolves:
  assumes "is_contributor (pi_id i)" "distinct (open_tasks i)" "t \<in> set (pending_tasks i)"
  shows "info_evolves i (snd (pi_rollback_pending_task i t now))"
proof (rule outcome_evolves [OF assms(1,2)])
  fix a j
  assume "pi_rollback_pending_task i t now = (Inr a, j)"
  then have ok: "pi_rollback_pending_task i t now = (Inr (), j)" by simp
  from pi_rollback_pending_task_ok(2,4) [OF ok] info_step.rollback_pending [OF assms(3) ok]
  show "info_step i j \<and> finished_at i = None \<and> finished_at j = None" by simp
qed (erule pi_rollback_pending_task_err [OF _ assms(3,2)])

lemma rollback_locked_evolves:
  assumes "is_contributor (pi_id i)" "distinct (open_tasks i)" "t \<in> set (pending_tasks i)"
  shows "info_evolves i (snd (pi_rollback_locked_task i t now))"
proof (rule outcome_evolves [OF assms(1,2)])
  fix a j
  assume "pi_rollback_locked_task i t now = (Inr a, j)"
  then have ok: "pi_rollback_locked_task i t now = (Inr (), j)" by simp
  from pi_rollback_locked_task_ok(2,4) [OF ok] info_step.rollback_locked [OF assms(3) ok]
  show "info_step i j \<and> finished_at i = None \<and> finished_at j = None" by simp
qed (erule pi_rollback_locked_task_err [OF _ assms(3,2)])

lemma dispose_evolves: "info_evolves i (snd (pi_dispose_task i c t now))"
proof (cases "pi_dispose_task i c t now")
  case (Pair r j)
  show ?thesis
  proof (cases r)
    case (Inl e)
    with Pair pi_dispose_task_err [of i c t now e j] show ?thesis by simp
  next
    case (Inr u)
    with Pair pi_dispose_task_ok [of i c t now j] show ?thesis
      by (simp add: info_evolves_def open_tasks_def)
  qed
qed

section \<open>The operations of the coordinator\<close>

lemma state_evolves_refl [simp]: "state_evolves s s"
  by (simp add: state_evolves_def)

lemma info_evolves_trans: "info_evolves i j \<Longrightarrow> info_evolves j l \<Longrightarrow> info_evolves i l"
  by (auto simp: info_evolves_def)

lemma map_evolves_trans:
  assumes "\<And>u v w. R u v \<Longrightarrow> R v w \<Longrightarrow> R u w" "map_evolves R m m'" "map_evolves R m' m''"
  shows "map_evolves R m m''"
  using assms(2,3) unfolding map_evolves_def
  by (rule list_all2_trans [rotated]) (auto intro: assms(1))

lemma state_evolves_trans: "state_evolves s t \<Longrightarrow> state_evolves t u \<Longrightarrow> state_evolves s u"
  unfolding state_evolves_def
  by (auto intro: map_evolves_trans map_evolves_trans [OF map_evolves_trans] info_evolves_trans)

text \<open>The participants of the current round in a state that satisfies the invariant.\<close>

lemma round_inv_info:
  assumes "round_inv s" "map_of (current_contributors s) p = Some info"
  shows "is_contributor (pi_id info)" "distinct (open_tasks info)" "finished_at info = None" "pi_id info = p"
proof -
  from assms(1) obtain n k F where ok: "books_ok n k (current_contributors s) F"
    by (auto simp: round_inv_def)
  from assms(2) have mem: "(p, info) \<in> set (current_contributors s @ F)" by (auto dest: map_of_SomeD)
  note t = books_okD(5) [OF ok mem]
  from t show "is_contributor (pi_id info)" by (simp add: tasks_ok_def)
  from tasks_ok_distinct(2) [OF t books_okD(8) [OF ok]] show "distinct (open_tasks info)" .
  from books_okD(6) [OF ok] assms(2) show "finished_at info = None" by (auto dest: map_of_SomeD)
  from books_okD(4) [OF ok mem] show "pi_id info = p" .
qed

lemma on_participant_evolves:
  assumes "on_participant s p call = (r, s')"
    and "\<And>info. map_of (current_contributors s) p = Some info \<Longrightarrow> info_evolves info (snd (call info))"
  shows "state_evolves s s'"
proof (cases "current_participant_info s p")
  case None
  with assms(1) show ?thesis by (auto simp: on_participant_def)
next
  case (Some info)
  with assms(1) have s': "s' = set_current_participant_info s p (snd (call info))"
    by (auto simp: on_participant_def split: prod.splits)
  show ?thesis
  proof (cases p)
    case (Contributor c)
    with Some have l: "map_of (current_contributors s) p = Some info" by (simp add: current_participant_info_def)
    have "map_evolves info_evolves (current_contributors s)
        (AList.map_entry p (\<lambda>_. snd (call info)) (current_contributors s))"
      using assms(2) [OF l] l by (intro map_evolves_entry) simp_all
    with Contributor show ?thesis
      by (simp add: s' set_current_participant_info_def state_evolves_def)
  next
    case (Verifier v)
    then show ?thesis by (simp add: s' set_current_participant_info_def state_evolves_def)
  qed
qed

lemma timer_evolves:
  "state_evolves s (start_task_timer s p t now)" "state_evolves s (stop_task_timer s p t now)"
  by (simp_all add: start_task_timer_def stop_task_timer_def state_evolves_def Let_def split: option.splits)

lemma fetch_task_evolves:
  assumes "round_inv s" "fetch_task s p now = (r, s')"
  shows "state_evolves s s'"
proof -
  have step: "state_evolves s t" if "on_participant s p (\<lambda>i. pi_pop_task i now) = (q, t)" for p q t
    using that by (rule on_participant_evolves) (rule pop_evolves, (erule round_inv_info [OF assms(1)])+)
  show ?thesis
    using assms(2) unfolding fetch_task_def
    by (auto split: Participant.splits option.splits if_splits and_then_splits
        dest: step intro: state_evolves_trans timer_evolves)
qed

lemma acquired_lock_evolves:
  assumes "round_inv s" "acquired_lock s p c now = (r, s')"
  shows "state_evolves s s'"
proof -
  have step: "state_evolves s t" if "on_participant s p (\<lambda>i. pi_acquired_lock i c now) = (q, t)" for p q t
    using that by (rule on_participant_evolves) (rule acquire_evolves, (erule round_inv_info [OF assms(1)])+)
  show ?thesis
    using assms(2) unfolding acquired_lock_def by (auto split: Participant.splits if_splits dest: step)
qed

lemma add_pending_verification_evolves:
  "add_pending_verification s t = (r, s') \<Longrightarrow> state_evolves s s'"
  unfolding add_pending_verification_def
  by (auto simp: state_evolves_def split: if_splits list.splits)

lemma remove_pending_verification_evolves:
  "remove_pending_verification s t = (r, s') \<Longrightarrow> state_evolves s s'"
  unfolding remove_pending_verification_def by (auto simp: state_evolves_def split: if_splits)

lemma completed_task_evolves:
  assumes "round_inv s" "completed_task s p t now = (r, s')"
  shows "state_evolves s s'"
proof -
  have step: "state_evolves s u" if "on_participant s p (\<lambda>i. pi_completed_task i t now) = (q, u)" for p q u
    using that by (rule on_participant_evolves) (rule complete_evolves, (erule round_inv_info [OF assms(1)])+)
  have verify: "state_evolves s v"
    if "on_participant s p (\<lambda>i. pi_completed_task i t now) = (q, u)"
      "add_pending_verification (stop_task_timer u p t now) t = (q', v)" for p q q' u v
    using step [OF that(1)] timer_evolves(2) [of u p t now] add_pending_verification_evolves [OF that(2)]
    by (blast intro: state_evolves_trans)
  show ?thesis
    using assms(2) unfolding completed_task_def
    by (auto split: Participant.splits if_splits and_then_splits
        dest: step verify remove_pending_verification_evolves)
qed

lemma rollback_pending_task_evolves:
  assumes "round_inv s" "rollback_pending_task s p t now = (r, s')"
    and "\<And>info. map_of (current_contributors s) p = Some info \<Longrightarrow> t \<in> set (pending_tasks info)"
  shows "state_evolves s s'"
proof -
  have step: "state_evolves s u" if "on_participant s p (\<lambda>i. pi_rollback_pending_task i t now) = (q, u)" for q u
    using that by (rule on_participant_evolves)
      (rule rollback_pending_evolves, (erule round_inv_info [OF assms(1)])+, erule assms(3))
  show ?thesis
    using assms(2) unfolding rollback_pending_task_def by (auto split: if_splits dest: step)
qed

lemma rollback_locked_task_evolves:
  assumes "round_inv s" "rollback_locked_task s p t now = (r, s')"
    and "\<And>info. map_of (current_contributors s) p = Some info \<Longrightarrow> t \<in> set (pending_tasks info)"
  shows "state_evolves s s'"
proof -
  have step: "state_evolves s u" if "on_participant s p (\<lambda>i. pi_rollback_locked_task i t now) = (q, u)" for q u
    using that by (rule on_participant_evolves)
      (rule rollback_locked_evolves, (erule round_inv_info [OF assms(1)])+, erule assms(3))
  show ?thesis
    using assms(2) unfolding rollback_locked_task_def by (auto split: if_splits dest: step)
qed

lemma disposed_task_evolves: "disposed_task s p t now = (r, s') \<Longrightarrow> state_evolves s s'"
  unfolding disposed_task_def
  by (auto split: if_splits intro: dispose_evolves elim!: on_participant_evolves)

lemma reliability_evolves: "info_evolves i (reliability_update f i)"
  by (simp add: info_evolves_def open_tasks_def)

lemma seen_evolves: "info_evolves i (last_seen_update f i)"
  by (simp add: info_evolves_def open_tasks_def)

lemma zero_reliability_evolves: "state_evolves s (zero_reliability p s)"
  unfolding zero_reliability_def state_evolves_def
  by (simp add: map_evolves_entry reliability_evolves)

lemma zero_duplicate_ips_evolves: "state_evolves s (zero_duplicate_ips s ip)"
proof -
  have "state_evolves s (fold zero_reliability ps s)" for ps
    by (induction ps arbitrary: s)
      (auto intro: state_evolves_trans [OF zero_reliability_evolves])
  then show ?thesis by (simp add: zero_duplicate_ips_def split: option.splits)
qed

lemma queue_update_evolves: "state_evolves s t \<Longrightarrow> state_evolves s (queue_update f t)"
  by (simp add: state_evolves_def)

lemma ips_update_evolves: "state_evolves s t \<Longrightarrow> state_evolves s (contributor_ips_update f t)"
  by (simp add: state_evolves_def)

lemma add_to_queue_evolves: "add_to_queue s p ip score now = (r, s') \<Longrightarrow> state_evolves s s'"
  unfolding add_to_queue_def Let_def
  by (auto split: if_splits Participant.splits option.splits
      intro!: queue_update_evolves ips_update_evolves zero_duplicate_ips_evolves)

lemma remove_from_queue_evolves: "remove_from_queue s p = (r, s') \<Longrightarrow> state_evolves s s'"
  unfolding remove_from_queue_def by (auto split: if_splits intro!: queue_update_evolves)

lemma update_queue_evolves: "update_queue s = (r, s') \<Longrightarrow> state_evolves s s'"
  unfolding update_queue_def by (auto split: option.splits intro!: queue_update_evolves)

lemma heartbeat_evolves: "heartbeat s p now = (r, s') \<Longrightarrow> state_evolves s s'"
  unfolding heartbeat_def
  by (auto split: if_splits list.splits intro!: queue_update_evolves
      simp: state_evolves_def map_evolves_entry seen_evolves)
    (auto simp: map_evolves_def map_evolves_entry [unfolded map_evolves_def] seen_evolves list_all2_same)

lemma metrics_evolves:
  "state_evolves s (update_round_metrics s)"
  "aggregating_current_round s now = (r, s') \<Longrightarrow> state_evolves s s'"
  "aggregated_current_round s now = (r, s') \<Longrightarrow> state_evolves s s'"
  "rollback_aggregating_current_round s = (r, s') \<Longrightarrow> state_evolves s s'"
  unfolding update_round_metrics_def aggregating_current_round_def aggregated_current_round_def
    rollback_aggregating_current_round_def update_next_round_after_def Let_def
  by (auto simp: state_evolves_def split: if_splits option.splits)

section \<open>Contributors that finish\<close>

definition can_finish :: "OffsetDateTime \<Rightarrow> Participant \<times> ParticipantInfo \<Rightarrow> bool" where
  "can_finish now e \<longleftrightarrow> is_ok (fst (pi_finish (snd e) now))"

definition finished_entry :: "OffsetDateTime \<Rightarrow> Participant \<times> ParticipantInfo \<Rightarrow> Participant \<times> ParticipantInfo" where
  "finished_entry now e = (fst e, snd (pi_finish (snd e) now))"

lemma finish_contributors_eq:
  assumes "\<And>p info. (p, info) \<in> set C \<Longrightarrow> finished_at info = None"
  shows "finish_contributors now C N =
    (filter (\<lambda>e. \<not> can_finish now e) C, hm_extend (map (finished_entry now) (filter (can_finish now) C)) N)"
  using assms
proof (induction C arbitrary: N)
  case Nil
  show ?case by (simp add: hm_extend_def)
next
  case (Cons e C)
  obtain p info where e: "e = (p, info)" by (cases e)
  with Cons.prems [of p info] have "\<not> pi_is_finished info" by (simp add: pi_is_finished_def)
  moreover have IH: "finish_contributors now C N' = (filter (\<lambda>e. \<not> can_finish now e) C,
      hm_extend (map (finished_entry now) (filter (can_finish now) C)) N')" for N'
    by (rule Cons.IH, rule Cons.prems) (erule list.set_intros(2))
  moreover have "can_finish now (p, info) = is_ok (fst (pi_finish info now))"
    "finished_entry now (p, info) = (p, snd (pi_finish info now))"
    by (simp_all add: can_finish_def finished_entry_def)
  ultimately show ?case
    by (cases "pi_finish info now"; cases "fst (pi_finish info now)")
      (auto simp: e hm_extend_def)
qed

lemma can_finish_ok:
  assumes "can_finish now e"
  shows "assigned_tasks (snd e) = []" "pending_tasks (snd e) = []"
    "snd (finished_entry now e) = (snd e)\<lparr>last_seen := now, finished_at := Some now\<rparr>"
proof -
  from assms have "pi_finish (snd e) now = (Inr (), snd (pi_finish (snd e) now))"
    by (cases "pi_finish (snd e) now") (auto simp: can_finish_def is_ok_iff)
  from pi_finish_ok(1,2,8) [OF this]
  show "assigned_tasks (snd e) = []" "pending_tasks (snd e) = []"
    "snd (finished_entry now e) = (snd e)\<lparr>last_seen := now, finished_at := Some now\<rparr>"
    by (simp_all add: finished_entry_def)
qed

lemma set_update_subset: "set (AList.update k v m) \<subseteq> insert (k, v) (set m)"
  by (induction m) auto

lemma hm_extend_subset: "set (hm_extend kvs m) \<subseteq> set kvs \<union> set m"
proof (induction kvs arbitrary: m)
  case Nil
  show ?case by (simp add: hm_extend_def)
next
  case (Cons kv kvs)
  obtain k v where "kv = (k, v)" by (cases kv)
  with Cons.IH [of "AList.update k v m"] set_update_subset [of k v m] show ?case
    by (auto simp: hm_extend_def)
qed

lemma hm_extend_wf: "distinct (map fst m) \<Longrightarrow> distinct (map fst (hm_extend kvs m))"
  unfolding hm_extend_def
  by (induction kvs arbitrary: m) (auto simp: case_prod_beta distinct_update)

text \<open>The entry of the books that an entry after the update comes from.\<close>

lemma finish_origin:
  assumes "x \<in> set (filter (\<lambda>e. \<not> can_finish now e) C @ hm_extend (map (finished_entry now) (filter (can_finish now) C)) F)"
  obtains e where "e \<in> set (C @ F)" "fst x = fst e" "bucket_id (snd x) = bucket_id (snd e)"
    "x = e \<and> (e \<in> set C \<and> \<not> can_finish now e \<or> e \<in> set F) \<or>
     e \<in> set C \<and> can_finish now e \<and> x = finished_entry now e"
    "snd x = snd e \<or> snd x = (snd e)\<lparr>last_seen := now, finished_at := Some now\<rparr>"
proof -
  from assms hm_extend_subset [of "map (finished_entry now) (filter (can_finish now) C)" F]
  consider "x \<in> set C" "\<not> can_finish now x" | "x \<in> set F"
    | e where "e \<in> set C" "can_finish now e" "x = finished_entry now e" by auto
  then show ?thesis
  proof cases
    case (3 e)
    with can_finish_ok(3) [OF 3(2)] that [of e] show ?thesis by (simp add: finished_entry_def)
  qed (use that [of x] in simp_all)
qed

lemma books_ok_finish:
  assumes "books_ok n k C F"
  shows "books_ok n k (filter (\<lambda>e. \<not> can_finish now e) C)
    (hm_extend (map (finished_entry now) (filter (can_finish now) C)) F)" (is "books_ok n k ?stay ?F")
proof (rule books_okI)
  show "distinct (map fst ?stay)" using books_okD(1) [OF assms] by (rule distinct_map_filter)
  show "distinct (map fst ?F)" using books_okD(2) [OF assms] by (rule hm_extend_wf)
  show "k \<noteq> 0 \<longrightarrow> k \<le> n" by (rule books_okD(8) [OF assms])
  have apart: "e \<notin> set F" if "e \<in> set C" for e using books_okD(6,7) [OF assms] that by (cases e) blast
  show "inj_on (bucket_id \<circ> snd) (set (?stay @ ?F))"
  proof (rule inj_onI)
    fix x y
    assume xy: "x \<in> set (?stay @ ?F)" "y \<in> set (?stay @ ?F)" "(bucket_id \<circ> snd) x = (bucket_id \<circ> snd) y"
    from xy(1) obtain d where d: "d \<in> set (C @ F)" "bucket_id (snd x) = bucket_id (snd d)"
      "x = d \<and> (d \<in> set C \<and> \<not> can_finish now d \<or> d \<in> set F) \<or> d \<in> set C \<and> can_finish now d \<and> x = finished_entry now d"
      by (rule finish_origin)
    from xy(2) obtain e where e: "e \<in> set (C @ F)" "bucket_id (snd y) = bucket_id (snd e)"
      "y = e \<and> (e \<in> set C \<and> \<not> can_finish now e \<or> e \<in> set F) \<or> e \<in> set C \<and> can_finish now e \<and> y = finished_entry now e"
      by (rule finish_origin)
    have "d = e" using inj_onD [OF books_okD(3) [OF assms] _ d(1) e(1)] xy(3) d(2) e(2) by simp
    with d(3) e(3) apart show "x = y" by blast
  qed
  show "pi_id info = p \<and> tasks_ok n k info" if "(p, info) \<in> set (?stay @ ?F)" for p info
    using that
  proof (rule finish_origin)
    fix e
    assume e: "e \<in> set (C @ F)" "fst (p, info) = fst e"
      "snd (p, info) = snd e \<or> snd (p, info) = (snd e)\<lparr>last_seen := now, finished_at := Some now\<rparr>"
    from e(1,2) have "(p, snd e) \<in> set (C @ F)" by simp
    from books_okD(4,5) [OF assms this] e(3) show ?thesis by (auto simp: tasks_ok_def open_tasks_def)
  qed
  show "finished_at info = None" if "(p, info) \<in> set ?stay" for p info
    using that books_okD(6) [OF assms] by auto
  show "finished_at info \<noteq> None \<and> assigned_tasks info = [] \<and> pending_tasks info = []"
    if mem: "(p, info) \<in> set ?F" for p info
  proof (cases "(p, info) \<in> set F")
    case True
    with books_okD(7) [OF assms] show ?thesis by blast
  next
    case False
    with mem hm_extend_subset obtain e where e: "can_finish now e" "(p, info) = finished_entry now e" by fastforce
    then have "info = (snd e)\<lparr>last_seen := now, finished_at := Some now\<rparr>"
      using can_finish_ok(3) [OF e(1)] by (metis snd_conv)
    with can_finish_ok(1,2) [OF e(1)] show ?thesis by simp
  qed
qed

lemma update_current_contributors_inv:
  assumes "round_inv s" "update_current_contributors s now = (r, s')"
  shows "round_inv s'" "r = Inr ()" "set (round_participants s') = set (round_participants s)"
proof -
  from assms(1) obtain m h F where inv: "current_metrics s = Some m" "current_round_height s = Some h"
    "hm_get (finished_contributors s) h = Some F"
    "books_ok (number_of_chunks (environment s)) (number_of_contributors m) (current_contributors s) F"
    and rest: "h \<noteq> 0" "list_all is_contributor (coordinator_contributors (environment s))"
    by (auto simp: round_inv_def)
  let ?C = "current_contributors s"
  let ?stay = "filter (\<lambda>e. \<not> can_finish now e) ?C"
  let ?new = "map (finished_entry now) (filter (can_finish now) ?C)"
  have keys: "map fst ?new = map fst (filter (can_finish now) ?C)" by (simp add: finished_entry_def)
  have "distinct (map fst ?new)" unfolding keys using books_okD(1) [OF inv(4)] by (rule distinct_map_filter)
  then have ext: "hm_collect ?new = ?new" by (rule hm_collect_distinct)
  have len: "length ?C = length ?stay + length ?new"
    using sum_length_filter_compl [of "can_finish now" ?C] by simp
  have fc: "finish_contributors now ?C [] = (?stay, ?new)"
    by (subst finish_contributors_eq, erule books_okD(6) [OF inv(4)], simp only: ext)
  have s': "s' = s\<lparr>current_contributors := ?stay, finished_contributors :=
      AList.map_entry h (hm_extend ?new) (finished_contributors s)\<rparr> \<and> r = Inr ()"
    using assms(2) len unfolding update_current_contributors_def inv(2) fc
    by (simp add: inv(3) Let_def)
  then show "r = Inr ()" by blast
  from s' have F': "hm_get (finished_contributors s') h = Some (hm_extend ?new F)"
    by (simp add: map_of_map_entry inv(3))
  with s' inv rest books_ok_finish [OF inv(4), of now] show "round_inv s'"
    by (auto simp: round_inv_def)
  have "set (map fst (?stay @ hm_extend ?new F)) = set (map fst (?C @ F))"
    unfolding map_append set_append hm_extend_keys keys by auto
  with s' F' inv(2,3) show "set (round_participants s') = set (round_participants s)"
    by (simp add: round_participants_def finished_in_round_def round_height_or_zero_def)
qed

section \<open>Dropped contributors and their replacements\<close>

lemma mset_complement:
  assumes "distinct (map f ts)" "distinct kept" "set kept \<subseteq> set ts"
  shows "mset (filter (\<lambda>t. f t \<notin> f ` set kept) ts) + mset kept = mset ts"
proof -
  have inj: "inj_on f (set ts)" and "distinct ts" using assms(1) by (simp_all add: distinct_map)
  then have "distinct (filter (\<lambda>t. f t \<in> f ` set kept) ts)" by simp
  moreover have "set (filter (\<lambda>t. f t \<in> f ` set kept) ts) = set kept"
    using inj assms(3) by (auto dest: inj_onD)
  ultimately have "mset (filter (\<lambda>t. f t \<in> f ` set kept) ts) = mset kept"
    using assms(2) set_eq_iff_mset_eq_distinct by blast
  moreover have "mset (filter (\<lambda>t. f t \<notin> f ` set kept) ts) + mset (filter (\<lambda>t. f t \<in> f ` set kept) ts) = mset ts"
    by (induction ts) auto
  ultimately show ?thesis by simp
qed

text \<open>
  The reassignment of a contributor after a drop: what it keeps pending and completed are the
  tasks the drop does not affect, and with the newly assigned tasks it has its bucket's tasks
  again.
\<close>

lemma reassign_contributor_ok:
  fixes tbc :: "(u64, u64) hashmap"
  assumes "tasks_ok n k info" "k \<noteq> 0 \<longrightarrow> k \<le> n"
  defines "info' \<equiv> snd (reassign_contributor tbc n k info)"
  shows "fst (reassign_contributor tbc n k info) = Inr ()" "tasks_ok n k info'"
    "pi_id info' = pi_id info" "bucket_id info' = bucket_id info" "finished_at info' = finished_at info"
    "pending_tasks info' = filter (\<lambda>t. map_of tbc (chunk_id t) = None) (pending_tasks info)"
    "completed_tasks info' = filter (\<lambda>t. \<not> (\<exists>i. map_of tbc (chunk_id t) = Some i \<and> i < contribution_id t))
       (completed_tasks info)"
proof -
  let ?b = "bucket_id info" and ?ts = "tasks_for (bucket_id info) n k"
  let ?pend = "filter (\<lambda>t. map_of tbc (chunk_id t) = None) (pending_tasks info)"
  let ?comp = "filter (\<lambda>t. \<not> (\<exists>i. map_of tbc (chunk_id t) = Some i \<and> i < contribution_id t)) (completed_tasks info)"
  from assms(1,2) have k: "0 < k" "?b < k" "k \<le> n" by (auto simp: tasks_ok_def)
  then have "is_ok (initialize_tasks ?b n k)" by (simp add: initialize_tasks_is_ok)
  then have init: "initialize_tasks ?b n k = Inr ?ts" by (auto simp: is_ok_iff tasks_for_def)
  have disposed: "(\<lambda>t. \<not> (case map_of tbc (chunk_id t) of Some i \<Rightarrow> i < contribution_id t | None \<Rightarrow> False)) =
      (\<lambda>t. \<not> (\<exists>i. map_of tbc (chunk_id t) = Some i \<and> i < contribution_id t))"
    by (auto simp: fun_eq_iff split: option.splits)
  have eq: "reassign_contributor tbc n k info = (Inr (), info')"
    "pending_tasks info' = ?pend" "completed_tasks info' = ?comp"
    "assigned_tasks info' = filter (\<lambda>t. chunk_id t \<notin> chunk_id ` set (?pend @ ?comp)) ?ts"
    "pi_id info' = pi_id info" "bucket_id info' = bucket_id info" "finished_at info' = finished_at info"
    unfolding info'_def reassign_contributor_def
    by (simp_all add: init Let_def comp_def disposed image_Un Un_commute)
  have d: "distinct (open_tasks info)" by (rule tasks_ok_distinct(2) [OF assms(1,2)])
  have "set (open_tasks info) = set ?ts" using assms(1) by (metis mset_eq_setD tasks_ok_def)
  then have "set (?pend @ ?comp) \<subseteq> set ?ts" by (auto simp: open_tasks_def)
  moreover from d have "distinct (?pend @ ?comp)" by (auto simp: open_tasks_def)
  ultimately have "mset (open_tasks info') = mset ?ts"
    using mset_complement [OF sched.distinct_chunks [OF k], of "?pend @ ?comp"]
    by (simp add: open_tasks_def eq(2-4))
  with assms(1) show "tasks_ok n k info'" by (simp add: tasks_ok_def eq(5,6))
  from eq show "fst (reassign_contributor tbc n k info) = Inr ()"
    "pi_id info' = pi_id info" "bucket_id info' = bucket_id info" "finished_at info' = finished_at info"
    "pending_tasks info' = ?pend" "completed_tasks info' = ?comp" by simp_all
qed

lemma reassign_contributors_ok:
  assumes "\<And>p info. (p, info) \<in> set C \<Longrightarrow> tasks_ok n k info" "k \<noteq> 0 \<longrightarrow> k \<le> n"
  shows "\<exists>d'. reassign_contributors tbc n k C d =
    (Inr d', map (\<lambda>(p, info). (p, snd (reassign_contributor tbc n k info))) C)"
  using assms(1)
proof (induction C arbitrary: d)
  case Nil
  show ?case by simp
next
  case (Cons e C)
  obtain p info where e: "e = (p, info)" by (cases e)
  have IH: "\<exists>d'. reassign_contributors tbc n k C d =
      (Inr d', map (\<lambda>(p, info). (p, snd (reassign_contributor tbc n k info))) C)" for d
    by (rule Cons.IH, rule Cons.prems) (erule list.set_intros(2))
  have "fst (reassign_contributor tbc n k info) = Inr ()"
    using reassign_contributor_ok(1) [OF Cons.prems [of p info] assms(2)] by (simp add: e)
  then show ?case
    using IH [of "d @ disposed_tasks (snd (reassign_contributor tbc n k info))"]
    by (cases "reassign_contributor tbc n k info") (auto simp: e)
qed

lemma delete_append: "AList.delete p (A @ B) = AList.delete p A @ AList.delete p B"
  by (induction A) auto

lemma delete_split:
  assumes "distinct (map fst m)" "map_of m p = Some v"
  obtains A B where "m = A @ (p, v) # B" "AList.delete p m = A @ B" "p \<notin> set (map fst (A @ B))"
proof -
  from map_of_SomeD [OF assms(2)] obtain A B where m: "m = A @ (p, v) # B" by (metis split_list)
  with assms(1) have "p \<notin> set (map fst (A @ B))" by auto
  moreover have "AList.delete p (A @ (p, v) # B) = A @ B"
    using calculation by (simp add: delete_append [of p A] delete_idem)
  ultimately show ?thesis using m that by blast
qed

lemma delete_map_values:
  "AList.delete p (map (\<lambda>(k, v). (k, f v)) m) = map (\<lambda>(k, v). (k, f v)) (AList.delete p m)"
  by (induction m) auto

lemma min_by_key_some: "xs \<noteq> [] \<Longrightarrow> \<exists>x \<in> set xs. min_by_key f xs = Some x \<and> (\<forall>y \<in> set xs. f x \<le> f y)"
proof (induction xs)
  case (Cons x xs)
  show ?case
  proof (cases "xs = []")
    case False
    with Cons.IH obtain y where "y \<in> set xs" "min_by_key f xs = Some y" "\<forall>z \<in> set xs. f y \<le> f z" by blast
    then show ?thesis by (cases "f x \<le> f y") (auto intro: order_trans)
  qed simp
qed simp

lemma replacement_info:
  assumes "add_replacement_contributor_unsafe s b now = (Inr q, s')"
  obtains m where "current_metrics s = Some m"
    "s' = s\<lparr>current_contributors := AList.update q
       ((pi_new q (round_height_or_zero s) 10 b now)\<lparr>started_at := Some now,
          assigned_tasks := tasks_for b (number_of_chunks (environment s)) (number_of_contributors m)\<rparr>)
       (current_contributors s)\<rparr>"
    "q \<in> set (coordinator_contributors (environment s))"
proof -
  from assms obtain m tasks info where m: "current_metrics s = Some m"
    and min: "min_by_key (contributor_load s) (coordinator_contributors (environment s)) = Some q"
    and t: "initialize_tasks b (number_of_chunks (environment s)) (number_of_contributors m) = Inr tasks"
    and st: "pi_start (pi_new q (round_height_or_zero s) 10 b now) tasks now = (Inr (), info)"
    and s': "s' = s\<lparr>current_contributors := AList.update q info (current_contributors s)\<rparr>"
    unfolding add_replacement_contributor_unsafe_def
    by (auto split: option.splits sum.splits prod.splits)
  from pi_start_ok(1) [OF st] have "info = (pi_new q (round_height_or_zero s) 10 b now)
      \<lparr>started_at := Some now, assigned_tasks := tasks\<rparr>" by (simp add: pi_new_def)
  moreover have "q \<in> set (coordinator_contributors (environment s))"
    using min min_by_key_some [of "coordinator_contributors (environment s)" "contributor_load s"]
    by (cases "coordinator_contributors (environment s) = []") auto
  ultimately show ?thesis using m t s' that by (simp add: tasks_for_def)
qed

lemma books_ok_replace:
  assumes ok: "books_ok n k C F" and p: "map_of C p = Some info"
    and new: "pi_id j = q" "tasks_ok n k j" "bucket_id j = bucket_id info" "finished_at j = None"
    and f: "\<And>i. tasks_ok n k i \<Longrightarrow> tasks_ok n k (f i) \<and> pi_id (f i) = pi_id i \<and> bucket_id (f i) = bucket_id i \<and>
      finished_at (f i) = finished_at i"
  shows "books_ok n k (AList.update q j (map (\<lambda>(r, i). (r, f i)) (AList.delete p C))) F"
    (is "books_ok n k ?D F")
proof -
  have "distinct (map fst (map (\<lambda>(r, i). (r, f i)) (AList.delete p C)))"
    unfolding keys_map_values by (rule distinct_delete [OF books_okD(1) [OF ok]])
  then have d: "distinct (map fst ?D)" by (rule distinct_update)
  have D: "r = q \<and> x = j \<or> (\<exists>i. (r, i) \<in> set C \<and> r \<noteq> p \<and> x = f i \<and> tasks_ok n k x \<and> pi_id x = r \<and>
      bucket_id x = bucket_id i \<and> finished_at x = None)" if "(r, x) \<in> set ?D" for r x
  proof -
    from map_of_is_SomeI [OF d that] consider "r = q" "x = j"
      | i where "map_of C r = Some i" "r \<noteq> p" "x = f i"
      by (auto simp: update_conv' map_of_map_values delete_conv' split: if_splits)
    then show ?thesis
    proof cases
      case (2 i)
      then have "(r, i) \<in> set C" "(r, i) \<in> set (C @ F)" by (auto dest: map_of_SomeD)
      with 2 f [OF books_okD(5) [OF ok]] books_okD(4,6) [OF ok] show ?thesis by metis
    qed simp
  qed
  have pi: "(p, info) \<in> set C" using p by (rule map_of_SomeD)
  show ?thesis
  proof (rule books_okI)
    show "distinct (map fst ?D)" by (rule d)
    show "distinct (map fst F)" by (rule books_okD(2) [OF ok])
    show "k \<noteq> 0 \<longrightarrow> k \<le> n" by (rule books_okD(8) [OF ok])
    show "inj_on (bucket_id \<circ> snd) (set (?D @ F))"
    proof (rule inj_onI)
      fix x y
      assume xy: "x \<in> set (?D @ F)" "y \<in> set (?D @ F)" "(bucket_id \<circ> snd) x = (bucket_id \<circ> snd) y"
      have src: "\<exists>e \<in> set (C @ F). bucket_id (snd z) = bucket_id (snd e) \<and>
          (z = (q, j) \<and> e = (p, info) \<or> e \<in> set C \<and> fst e \<noteq> p \<and> z = (fst e, f (snd e)) \<or> e \<in> set F \<and> z = e)"
        if "z \<in> set (?D @ F)" for z
      proof (cases "z \<in> set F")
        case False
        with that have "(fst z, snd z) \<in> set ?D" by simp
        from D [OF this] show ?thesis using pi new(3) by (cases z) force
      qed auto
      from src [OF xy(1)] src [OF xy(2)] xy(3) obtain d e where de: "d \<in> set (C @ F)" "e \<in> set (C @ F)"
        "bucket_id (snd d) = bucket_id (snd e)"
        "x = (q, j) \<and> d = (p, info) \<or> d \<in> set C \<and> fst d \<noteq> p \<and> x = (fst d, f (snd d)) \<or> d \<in> set F \<and> x = d"
        "y = (q, j) \<and> e = (p, info) \<or> e \<in> set C \<and> fst e \<noteq> p \<and> y = (fst e, f (snd e)) \<or> e \<in> set F \<and> y = e"
        by fastforce
      from inj_onD [OF books_okD(3) [OF ok] _ de(1,2)] de(3) have "d = e" by simp
      moreover have "set C \<inter> set F = {}" using books_ok_distinct(1) [OF ok] by simp
      ultimately show "x = y" using de(4,5) pi by auto
    qed
    show "pi_id i = r \<and> tasks_ok n k i" if "(r, i) \<in> set (?D @ F)" for r i
      using that D [of r i] new(1,2) books_okD(4,5) [OF ok, of r i] by auto
    show "finished_at i = None" if "(r, i) \<in> set ?D" for r i
      using D [OF that] new(4) by auto
    show "finished_at i \<noteq> None \<and> assigned_tasks i = [] \<and> pending_tasks i = []" if "(r, i) \<in> set F" for r i
      by (rule books_okD(7) [OF ok that])
  qed
qed

lemma drop_current_effect:
  assumes "drop_participant s p now = (Inr (DropCurrent p' (ReplaceContributor a)), s')"
  obtains info m cs d self1 where "map_of (current_contributors s) p = Some info" "current_metrics s = Some m"
    "reassign_contributors (hm_collect (map to_tuple (completed_tasks info))) (number_of_chunks (environment s))
       (number_of_contributors m) (current_contributors s) (completed_tasks info) = (Inr d, cs)"
    "self1 = s\<lparr>current_contributors := AList.delete p cs,
       current_verifiers := hm_map_values (dispose_of_verifier d) (current_verifiers s),
       dropped := dropped s @ [info\<lparr>dropped_at := Some now\<rparr>]\<rparr>"
    "add_replacement_contributor_unsafe self1 (bucket_id info) now = (Inr (replacement_contributor a), s')"
    "a = \<lparr>dropped_contributor = p, action_bucket_id = bucket_id info,
       action_locked_chunks = hm_keys (locked_chunks info), action_tasks = completed_tasks info,
       replacement_contributor = replacement_contributor a\<rparr>"
proof -
  from assms obtain info c where info: "map_of (current_contributors s) p = Some info" "p = Contributor c"
    and drop: "drop_current_contributor s p info now = (Inr (ReplaceContributor a), s')"
    unfolding drop_participant_def current_participant_info_def
    by (auto split: if_splits option.splits Participant.splits and_then_splits CeremonyStorageAction.splits)
  from drop obtain dinfo m d cs where dr: "pi_drop info now = (Inr (), dinfo)" "current_metrics s = Some m"
    and re: "reassign_contributors (hm_collect (map to_tuple (completed_tasks info)))
      (number_of_chunks (environment s)) (number_of_contributors m) (current_contributors s)
      (completed_tasks info) = (Inr d, cs)"
    and add: "add_replacement_contributor_unsafe (s\<lparr>current_contributors := AList.delete p cs,
       current_verifiers := hm_map_values (dispose_of_verifier d) (current_verifiers s),
       dropped := dropped s @ [dinfo]\<rparr>) (bucket_id info) now = (Inr (replacement_contributor a), s')"
    and a: "a = \<lparr>dropped_contributor = p, action_bucket_id = bucket_id info,
       action_locked_chunks = hm_keys (locked_chunks info), action_tasks = completed_tasks info,
       replacement_contributor = replacement_contributor a\<rparr>"
    unfolding drop_current_contributor_def Let_def
    by (auto split: if_splits option.splits sum.splits prod.splits simp: and_then_ok_iff)
  from pi_drop_ok(2) [OF dr(1)] have "dinfo = info\<lparr>dropped_at := Some now\<rparr>" .
  with that [OF info(1) dr(2) re refl _ a] add show ?thesis by blast
qed

lemma drop_replaced_state:
  assumes inv: "round_inv s"
    and drop: "drop_participant s p now = (Inr (DropCurrent p' (ReplaceContributor a)), s')"
    and m: "current_metrics s = Some m"
  defines "n \<equiv> number_of_chunks (environment s)" and "k \<equiv> number_of_contributors m"
  obtains info f where "map_of (current_contributors s) p = Some info"
    "\<forall>i. tasks_ok n k i \<longrightarrow> tasks_ok n k (f i) \<and> pi_id (f i) = pi_id i \<and>
       bucket_id (f i) = bucket_id i \<and> finished_at (f i) = finished_at i"
    "current_contributors s' = AList.update (replacement_contributor a)
      ((pi_new (replacement_contributor a) (round_height_or_zero s) 10 (bucket_id info) now)
        \<lparr>started_at := Some now, assigned_tasks := tasks_for (bucket_id info) n k\<rparr>)
      (map (\<lambda>(r, i). (r, f i)) (AList.delete p (current_contributors s)))"
    "finished_contributors s' = finished_contributors s" "current_round_height s' = current_round_height s"
    "current_metrics s' = current_metrics s" "environment s' = environment s"
    "f = (\<lambda>i. snd (reassign_contributor (hm_collect (map to_tuple (completed_tasks info))) n k i))"
    "replacement_contributor a \<in> set (coordinator_contributors (environment s))"
proof -
  from inv obtain F where ok: "books_ok n k (current_contributors s) F"
    by (auto simp: round_inv_def m n_def k_def)
  from drop obtain info d cs self1 where info: "map_of (current_contributors s) p = Some info"
    and re: "reassign_contributors (hm_collect (map to_tuple (completed_tasks info))) n k
       (current_contributors s) (completed_tasks info) = (Inr d, cs)"
    and self1: "self1 = s\<lparr>current_contributors := AList.delete p cs,
       current_verifiers := hm_map_values (dispose_of_verifier d) (current_verifiers s),
       dropped := dropped s @ [info\<lparr>dropped_at := Some now\<rparr>]\<rparr>"
    and add: "add_replacement_contributor_unsafe self1 (bucket_id info) now = (Inr (replacement_contributor a), s')"
    by (rule drop_current_effect) (use m in \<open>auto simp: n_def k_def\<close>)
  define f where "f = (\<lambda>i. snd (reassign_contributor (hm_collect (map to_tuple (completed_tasks info))) n k i))"
  have "\<exists>d'. reassign_contributors (hm_collect (map to_tuple (completed_tasks info))) n k
       (current_contributors s) (completed_tasks info) = (Inr d', map (\<lambda>(p, i). (p, f i)) (current_contributors s))"
    unfolding f_def using books_okD(5,8) [OF ok] by (intro reassign_contributors_ok) auto
  with re have cs: "cs = map (\<lambda>(p, i). (p, f i)) (current_contributors s)" by simp
  have f: "\<forall>i. tasks_ok n k i \<longrightarrow> tasks_ok n k (f i) \<and> pi_id (f i) = pi_id i \<and>
      bucket_id (f i) = bucket_id i \<and> finished_at (f i) = finished_at i"
    using reassign_contributor_ok(2-5) [OF _ books_okD(8) [OF ok]] by (simp add: f_def)
  from add obtain m' :: RoundMetrics where "current_metrics self1 = Some m'"
    "s' = self1\<lparr>current_contributors := AList.update (replacement_contributor a)
       ((pi_new (replacement_contributor a) (round_height_or_zero self1) 10 (bucket_id info) now)
          \<lparr>started_at := Some now, assigned_tasks :=
             tasks_for (bucket_id info) (number_of_chunks (environment self1)) (number_of_contributors m')\<rparr>)
       (current_contributors self1)\<rparr>"
    "replacement_contributor a \<in> set (coordinator_contributors (environment self1))"
    by (rule replacement_info)
  with that [OF info f] m f_def show ?thesis
    by (simp add: self1 cs delete_map_values n_def k_def round_height_or_zero_def)
qed

lemma drop_replace_inv:
  assumes inv: "round_inv s"
    and drop: "drop_participant s p now = (Inr (DropCurrent p' (ReplaceContributor a)), s')"
  shows "round_inv s'"
    "set (round_participants s') = insert (replacement_contributor a)
       (set (hm_keys (hm_remove p (current_contributors s) @ finished_in_round s (round_height_or_zero s))))"
proof -
  let ?q = "replacement_contributor a" and ?n = "number_of_chunks (environment s)"
  from inv obtain m h F where m: "current_metrics s = Some m" and h: "current_round_height s = Some h"
    and F: "hm_get (finished_contributors s) h = Some F"
    and ok: "books_ok ?n (number_of_contributors m) (current_contributors s) F"
    and rest: "h \<noteq> 0" "list_all is_contributor (coordinator_contributors (environment s))"
    by (auto simp: round_inv_def)
  let ?k = "number_of_contributors m"
  obtain info f where info: "map_of (current_contributors s) p = Some info"
    and f: "\<forall>i. tasks_ok ?n ?k i \<longrightarrow> tasks_ok ?n ?k (f i) \<and> pi_id (f i) = pi_id i \<and>
       bucket_id (f i) = bucket_id i \<and> finished_at (f i) = finished_at i"
    and C: "current_contributors s' = AList.update ?q
      ((pi_new ?q (round_height_or_zero s) 10 (bucket_id info) now)
        \<lparr>started_at := Some now, assigned_tasks := tasks_for (bucket_id info) ?n ?k\<rparr>)
      (map (\<lambda>(r, i). (r, f i)) (AList.delete p (current_contributors s)))"
    and same: "finished_contributors s' = finished_contributors s" "current_round_height s' = current_round_height s"
      "current_metrics s' = current_metrics s" "environment s' = environment s"
    and q: "?q \<in> set (coordinator_contributors (environment s))"
    by (rule drop_replaced_state [OF inv drop m]) (rule that)
  from q rest(2) have con: "is_contributor ?q" by (simp add: list_all_iff)
  let ?new = "(pi_new ?q (round_height_or_zero s) 10 (bucket_id info) now)
    \<lparr>started_at := Some now, assigned_tasks := tasks_for (bucket_id info) ?n ?k\<rparr>"
  have "books_ok ?n ?k (AList.update ?q ?new (map (\<lambda>(r, i). (r, f i)) (AList.delete p (current_contributors s)))) F"
  proof (rule books_ok_replace [OF ok info])
    have "(p, info) \<in> set (current_contributors s @ F)" using info by (auto dest: map_of_SomeD)
    from books_okD(5) [OF ok this] con show "tasks_ok ?n ?k ?new"
      by (simp add: tasks_ok_def open_tasks_def pi_new_def)
  qed (simp_all add: pi_new_def f)
  with m h F C same rest show "round_inv s'" by (auto simp: round_inv_def)
  have "set (map fst (current_contributors s')) = insert ?q (set (map fst (AList.delete p (current_contributors s))))"
    unfolding C keys_update keys_map_values by simp
  then show "set (round_participants s') = insert ?q
      (set (hm_keys (hm_remove p (current_contributors s) @ finished_in_round s (round_height_or_zero s))))"
    using same by (simp add: round_participants_def finished_in_round_def round_height_or_zero_def)
qed

lemma drop_succeeds:
  assumes inv: "round_inv s" and st: "status s \<noteq> Initializing"
    and p: "map_of (current_contributors s) p = Some info" "dropped_at info = None"
      "\<not> hm_contains (queue s) p" "\<not> hm_contains (next_participants s) p"
    and q: "coordinator_contributors (environment s) \<noteq> []"
  shows "\<exists>a s'. drop_participant s p now = (Inr (DropCurrent p (ReplaceContributor a)), s') \<and>
    replacement_contributor a \<in> set (coordinator_contributors (environment s))"
proof -
  let ?n = "number_of_chunks (environment s)" and ?tbc = "hm_collect (map to_tuple (completed_tasks info))"
  from inv obtain m h F where m: "current_metrics s = Some m" and h: "current_round_height s = Some h"
    and h0: "h \<noteq> 0" and ok: "books_ok ?n (number_of_contributors m) (current_contributors s) F"
    by (auto simp: round_inv_def)
  let ?k = "number_of_contributors m"
  note info = round_inv_info [OF inv p(1)]
  then obtain c where c: "p = Contributor c" by (cases p) auto
  have drop: "pi_drop info now = (Inr (), info\<lparr>dropped_at := Some now\<rparr>)" using info p(2) by (simp add: pi_drop_def)
  have alive: "\<not> pi_is_dropped info" "\<not> pi_is_finished info"
    using info p(2) by (simp_all add: pi_is_dropped_def pi_is_finished_def)
  have "\<exists>d. reassign_contributors ?tbc ?n ?k (current_contributors s) (completed_tasks info) =
      (Inr d, map (\<lambda>(p, i). (p, snd (reassign_contributor ?tbc ?n ?k i))) (current_contributors s))"
    using books_okD(5,8) [OF ok] by (intro reassign_contributors_ok) auto
  then obtain d cs where re: "reassign_contributors ?tbc ?n ?k (current_contributors s) (completed_tasks info) =
      (Inr d, cs)" by blast
  let ?s1 = "s\<lparr>current_contributors := AList.delete p cs,
    current_verifiers := hm_map_values (dispose_of_verifier d) (current_verifiers s),
    dropped := dropped s @ [info\<lparr>dropped_at := Some now\<rparr>]\<rparr>"
  from min_by_key_some [OF q, of "contributor_load ?s1"] obtain r where
    r: "r \<in> set (coordinator_contributors (environment s))"
    "min_by_key (contributor_load ?s1) (coordinator_contributors (environment s)) = Some r" by blast
  have "(p, info) \<in> set (current_contributors s @ F)" using p(1) by (auto dest: map_of_SomeD)
  then have "bucket_id info < ?k" using books_okD(5) [OF ok] by (auto simp: tasks_ok_def)
  then have "is_ok (initialize_tasks (bucket_id info) ?n ?k)"
    using books_okD(8) [OF ok] by (simp add: initialize_tasks_is_ok)
  then obtain tasks where tasks: "initialize_tasks (bucket_id info) ?n ?k = Inr tasks" by (auto simp: is_ok_iff)
  have "0 < round_height_or_zero ?s1" using h h0 by (simp add: round_height_or_zero_def)
  then have "\<exists>s'. add_replacement_contributor_unsafe ?s1 (bucket_id info) now = (Inr r, s')"
    by (simp add: add_replacement_contributor_unsafe_def r m tasks pi_start_new)
  then obtain s' where "drop_current_contributor s p info now = (Inr (ReplaceContributor
      \<lparr>dropped_contributor = p, action_bucket_id = bucket_id info,
       action_locked_chunks = hm_keys (locked_chunks info), action_tasks = completed_tasks info,
       replacement_contributor = r\<rparr>), s')"
    using q by (auto simp: drop_current_contributor_def drop m re)
  with st p c alive r(1) show ?thesis
    by (auto simp: drop_participant_def current_participant_info_def)
qed

lemma books_tasks_disjoint:
  assumes "books_ok n k C F" "(p, i) \<in> set (C @ F)" "(q, j) \<in> set (C @ F)" "p \<noteq> q"
  shows "set (open_tasks i) \<inter> set (open_tasks j) = {}"
proof -
  have "bucket_id i \<noteq> bucket_id j" using books_bucket_inj [OF assms(1-3)] assms(4) by blast
  moreover have ij: "tasks_ok n k i" "tasks_ok n k j" using books_okD(5) [OF assms(1)] assms(2,3) by blast+
  ultimately have "set (tasks_for (bucket_id i) n k) \<inter> set (tasks_for (bucket_id j) n k) = {}"
    using sched.disjoint_tasks [of k "bucket_id i" "bucket_id j" n] books_okD(8) [OF assms(1)]
    by (auto simp: tasks_ok_def)
  with ij show ?thesis by (metis mset_eq_setD tasks_ok_def)
qed

text \<open>Drops from the queue and errors leave the books alone.\<close>

lemma forget_ip_evolves: "state_evolves s (fold (forget_ip p) ips s)"
proof (induction ips arbitrary: s)
  case (Cons e ips)
  have "state_evolves s (forget_ip p e s)" by (simp add: forget_ip_def state_evolves_def split: prod.splits)
  with Cons.IH [of "forget_ip p e s"] show ?case by (simp add: state_evolves_trans)
qed simp

lemma rollback_next_round_evolves: "state_evolves s (rollback_next_round s now)"
  by (simp add: rollback_next_round_def state_evolves_def)

lemma drop_from_queue_evolves: "state_evolves s (drop_from_queue s p now)"
proof -
  have q: "state_evolves s (if b then queue_update f s else s)" for b f by (simp add: state_evolves_def)
  have n: "state_evolves t (if b then rollback_next_round (next_participants_update f t) now else t)" for t b f
    by (simp add: rollback_next_round_def state_evolves_def)
  show ?thesis
    unfolding drop_from_queue_def Let_def
    by (rule state_evolves_trans [OF q], rule state_evolves_trans [OF n], rule forget_ip_evolves)
qed

text \<open>
  The outcomes of a drop while there are coordinator contributors: from the queue, with an
  error, and in favour of a replacement.
\<close>

lemma drop_outcomes:
  assumes inv: "round_inv s" and drop: "drop_participant s p now = (r, s')"
    and c: "coordinator_contributors (environment s) \<noteq> [] \<or> \<not> hm_contains (current_contributors s) p"
  obtains (evolves) "state_evolves s s'" | (replaced) a where "r = Inr (DropCurrent p (ReplaceContributor a))"
proof (cases "status s = Initializing \<or> hm_contains (queue s) p \<or> hm_contains (next_participants s) p \<or>
    current_participant_info s p = None \<or> \<not> is_contributor p")
  case True
  then have "state_evolves s s'"
    using drop drop_from_queue_evolves [of s p now]
    by (auto simp: drop_participant_def split: if_splits option.splits Participant.splits)
  then show ?thesis by (rule evolves)
next
  case False
  then obtain info where info: "map_of (current_contributors s) p = Some info" "is_contributor p"
    by (cases p) (auto simp: current_participant_info_def)
  show ?thesis
  proof (cases "dropped_at info = None")
    case True
    have "coordinator_contributors (environment s) \<noteq> []" using c map_of_Some_in_keys [OF info(1)] by blast
    from drop_succeeds [OF inv _ info(1) True _ _ this, of now] False drop replaced show ?thesis by auto
  next
    case dropped: False
    with info False have "s' = s"
      using drop by (cases p) (auto simp: drop_participant_def current_participant_info_def pi_is_dropped_def
          split: if_splits)
    then have "state_evolves s s'" by simp
    then show ?thesis by (rule evolves)
  qed
qed

section \<open>Runs of a round\<close>

text \<open>
  The steps of a running round, up to its reset or the commit of the next one: all operations
  on tasks, verifications, the queue, the metrics, the aggregation flags and the manual lock,
  the update of the finished contributors, the precommit of the next round and its rollback,
  drops and bans. Operations that return an error take part with the state they leave. Two
  rules have a condition. A contributor's task is rolled back when it is pending, as the
  coordinator does; the code compares only the chunk. A contributor is dropped when there are
  coordinator contributors, for otherwise the drop resets the round. Which of them replaces it
  is up to the code.
\<close>

inductive round_step :: "CoordinatorState \<Rightarrow> CoordinatorState \<Rightarrow> bool" where
  fetch: "fetch_task s p now = (r, s') \<Longrightarrow> round_step s s'"
| lock: "acquired_lock s p c now = (r', s') \<Longrightarrow> round_step s s'"
| complete: "completed_task s p t now = (r', s') \<Longrightarrow> round_step s s'"
| rollback_pending: "rollback_pending_task s p t now = (r', s') \<Longrightarrow>
     (\<And>info. hm_get (current_contributors s) p = Some info \<Longrightarrow> t \<in> set (pending_tasks info)) \<Longrightarrow> round_step s s'"
| rollback_locked: "rollback_locked_task s p t now = (r', s') \<Longrightarrow>
     (\<And>info. hm_get (current_contributors s) p = Some info \<Longrightarrow> t \<in> set (pending_tasks info)) \<Longrightarrow> round_step s s'"
| dispose: "disposed_task s p t now = (r', s') \<Longrightarrow> round_step s s'"
| finish: "update_current_contributors s now = (r', s') \<Longrightarrow> round_step s s'"
| join: "add_to_queue s p ip score now = (r', s') \<Longrightarrow> round_step s s'"
| leave: "remove_from_queue s p = (r', s') \<Longrightarrow> round_step s s'"
| assign: "update_queue s = (r', s') \<Longrightarrow> round_step s s'"
| seen: "heartbeat s p now = (r', s') \<Longrightarrow> round_step s s'"
| measure: "round_step s (update_round_metrics s)"
| aggregating: "aggregating_current_round s now = (r', s') \<Longrightarrow> round_step s s'"
| aggregated: "aggregated_current_round s now = (r', s') \<Longrightarrow> round_step s s'"
| not_aggregating: "rollback_aggregating_current_round s = (r', s') \<Longrightarrow> round_step s s'"
| drop: "drop_participant s p now = (d, s') \<Longrightarrow>
     coordinator_contributors (environment s) \<noteq> [] \<or> \<not> hm_contains (current_contributors s) p \<Longrightarrow> round_step s s'"
| ban: "ban_participant s p now = (d, s') \<Longrightarrow>
     coordinator_contributors (environment s) \<noteq> [] \<or> \<not> hm_contains (current_contributors s) p \<Longrightarrow> round_step s s'"
| unban: "round_step s (unban_participant s p)"
| ban_dropped: "update_banned_participants s = (r', s') \<Longrightarrow> round_step s s'"
| manual: "round_step s (enable_manual_lock s)"
| automatic: "round_step s (disable_manual_lock s)"
| precommit: "precommit_next_round s h now = (ps, s') \<Longrightarrow> round_step s s'"
| rollback_precommit: "round_step s (rollback_next_round s now)"

definition round_start :: "CoordinatorState \<Rightarrow> bool" where
  "round_start s \<longleftrightarrow> (\<exists>s0 nh now out s1. hm_wf (queue s0) \<and>
     list_all is_contributor (coordinator_contributors (environment s0)) \<and>
     precommit_next_round s0 nh now = (Inr out, s1) \<and> s = commit_next_round s1)"

lemma bans_evolve:
  "state_evolves s (unban_participant s p)" "state_evolves s (enable_manual_lock s)"
  "state_evolves s (disable_manual_lock s)" "state_evolves s (s\<lparr>banned := b\<rparr>)"
  by (simp_all add: unban_participant_def enable_manual_lock_def disable_manual_lock_def state_evolves_def)

lemma update_banned_evolves: "update_banned_participants s = (r, s') \<Longrightarrow> state_evolves s s'"
proof -
  have "state_evolves s (fold ban_if_dropped_often ds s)" for ds
  proof (induction ds arbitrary: s)
    case (Cons d ds)
    have "state_evolves s (ban_if_dropped_often d s)" by (simp add: ban_if_dropped_often_def bans_evolve)
    with Cons.IH [of "ban_if_dropped_often d s"] show ?case by (simp add: state_evolves_trans)
  qed simp
  then show "update_banned_participants s = (r, s') \<Longrightarrow> state_evolves s s'"
    by (auto simp: update_banned_participants_def)
qed

lemma precommit_evolves:
  assumes "precommit_next_round s h now = (r, s')"
  shows "state_evolves s s'"
proof (cases r)
  case (Inl e)
  with assms precommit_atomic show ?thesis by fastforce
next
  case (Inr out)
  with assms have "precommit_next_round s h now = (Inr out, s')" by simp
  then show ?thesis by (auto simp: precommit_ok_iff state_evolves_def)
qed

text \<open>What a step does to the books: it moves tasks, or finishes contributors, or replaces one.\<close>

definition step_replaces :: "CoordinatorState \<Rightarrow> Participant \<Rightarrow> Participant \<Rightarrow> CoordinatorState \<Rightarrow> bool" where
  "step_replaces s p q s' \<longleftrightarrow>
     (\<exists>now a t. drop_participant s p now = (Inr (DropCurrent p (ReplaceContributor a)), t) \<and>
        replacement_contributor a = q \<and> state_evolves t s')"

lemma drop_effect:
  assumes "round_inv s" "drop_participant s p now = (d, s')"
    "coordinator_contributors (environment s) \<noteq> [] \<or> \<not> hm_contains (current_contributors s) p"
  shows "state_evolves s s' \<or> (\<exists>q. step_replaces s p q s')"
  using assms
proof (rule drop_outcomes)
  fix a
  assume "d = Inr (DropCurrent p (ReplaceContributor a))"
  with assms(2) have "step_replaces s p (replacement_contributor a) s'"
    unfolding step_replaces_def using state_evolves_refl [of s'] by blast
  then show ?thesis by blast
qed simp

lemma ban_effect:
  assumes "round_inv s" "ban_participant s p now = (d, s')"
    "coordinator_contributors (environment s) \<noteq> [] \<or> \<not> hm_contains (current_contributors s) p"
  shows "state_evolves s s' \<or> (\<exists>q. step_replaces s p q s')"
proof (cases "p \<in> set (banned s)")
  case True
  with assms(2) show ?thesis by (simp add: ban_participant_def)
next
  case False
  obtain r t where drop: "drop_participant s p now = (r, t)" by (cases "drop_participant s p now")
  with assms(2) False have "s' = t \<or> (\<exists>b. s' = t\<lparr>banned := b\<rparr>)"
    by (auto simp: ban_participant_def split: and_then_splits DropParticipant.splits)
  then have "state_evolves t s'" by (auto intro: bans_evolve)
  with drop_effect [OF assms(1) drop assms(3)] show ?thesis
    unfolding step_replaces_def by (blast intro: state_evolves_trans)
qed

lemma round_step_effect:
  assumes "round_step s s'" "round_inv s"
  shows "state_evolves s s' \<or> (\<exists>now r. update_current_contributors s now = (r, s')) \<or> (\<exists>p q. step_replaces s p q s')"
  using assms
proof (induction rule: round_step.induct)
  case (fetch s p now r s')
  then show ?case by (blast intro: fetch_task_evolves)
next
  case (lock s p c now r' s')
  then show ?case by (blast intro: acquired_lock_evolves)
next
  case (complete s p t now r' s')
  then show ?case by (blast intro: completed_task_evolves)
next
  case (rollback_pending s p t now r' s')
  from rollback_pending_task_evolves [OF rollback_pending(3,1,2)] show ?case by blast
next
  case (rollback_locked s p t now r' s')
  from rollback_locked_task_evolves [OF rollback_locked(3,1,2)] show ?case by blast
next
  case (drop s p now d s')
  then show ?case by (blast dest: drop_effect)
next
  case (ban s p now d s')
  then show ?case by (blast dest: ban_effect)
qed (blast intro: disposed_task_evolves add_to_queue_evolves remove_from_queue_evolves update_queue_evolves
    heartbeat_evolves metrics_evolves bans_evolve update_banned_evolves precommit_evolves rollback_next_round_evolves)+

lemma round_step_inv:
  assumes "round_step s s'" "round_inv s"
  shows "round_inv s'"
  using round_step_effect [OF assms]
proof (elim disjE exE)
  fix p q
  assume "step_replaces s p q s'"
  then show ?thesis
    unfolding step_replaces_def by (blast intro: round_inv_evolves drop_replace_inv(1) [OF assms(2)])
qed (use assms(2) in \<open>blast intro: round_inv_evolves update_current_contributors_inv(1)\<close>)+

lemma round_start_inv:
  assumes "round_start s"
  shows "round_inv s"
proof -
  from assms obtain s0 nh now out s1 where wf: "hm_wf (queue s0)"
    and con: "list_all is_contributor (coordinator_contributors (environment s0))"
    and pre: "precommit_next_round s0 nh now = (Inr out, s1)" and s: "s = commit_next_round s1"
    by (auto simp: round_start_def)
  note eff = precommit_effect [OF wf pre] and com = committed_state [OF wf pre, folded s]
  let ?n = "number_of_chunks (environment s0)" and ?k = "length (round_contributors s0 nh)"
  let ?o = "bucket_order s0 nh"
  have len: "length out = ?k" by (simp add: eff(1) bucket_order_facts(1))
  have C: "current_contributors s = map (staged_info nh ?n ?k now) (enumerate 0 ?o)" by (simp add: com(4) eff(2))
  have keys: "map fst (current_contributors s) = map fst ?o"
    by (rule nth_equalityI) (simp_all add: C nth_enumerate_eq fst_staged)
  have buckets: "map (bucket_id \<circ> snd) (current_contributors s) = [0..<?k]"
  proof (rule nth_equalityI)
    fix i
    assume "i < length (map (bucket_id \<circ> snd) (current_contributors s))"
    then have "i < length ?o" by (simp add: C)
    then show "map (bucket_id \<circ> snd) (current_contributors s) ! i = [0..<?k] ! i"
      by (cases "?o ! i") (simp add: C nth_enumerate_eq pi_new_def bucket_order_facts(1))
  qed (simp add: C bucket_order_facts(1))
  have "books_ok ?n ?k (current_contributors s) []"
  proof (rule books_okI)
    show "distinct (map fst (current_contributors s))"
      using bucket_order_distinct [OF wf] by (simp add: keys)
    have "distinct (map (bucket_id \<circ> snd) (current_contributors s @ []))"
      by (simp only: append_Nil2 buckets distinct_upt)
    then show "inj_on (bucket_id \<circ> snd) (set (current_contributors s @ []))" unfolding distinct_map by blast
    show "?k \<noteq> 0 \<longrightarrow> ?k \<le> ?n" using eff(4) by blast
    show "pi_id info = p \<and> tasks_ok ?n ?k info" if "(p, info) \<in> set (current_contributors s @ [])" for p info
    proof -
      from that obtain i where i: "i < length ?o" "(p, info) = staged_info nh ?n ?k now (i, ?o ! i)"
        by (auto simp: C in_set_conv_nth nth_enumerate_eq)
      with bucket_order_member(1) [OF nth_mem [OF i(1)]] show ?thesis
        by (cases "?o ! i") (simp add: staged_info_def tasks_ok_def open_tasks_def pi_new_def bucket_order_facts(1))
    qed
    show "finished_at info = None" if "(p, info) \<in> set (current_contributors s)" for p info
      using that by (auto simp: C staged_info_def pi_new_def split: prod.splits)
  qed simp_all
  moreover have "nh \<noteq> 0" using pre by (auto simp: precommit_next_round_def Let_def split: if_splits option.splits)
  ultimately show ?thesis
    using com(1,5,6,8) con by (auto simp: round_inv_def len metrics_default_def)
qed

interpretation round_run: invariant_system round_start round_step round_inv
  by unfold_locales (blast intro: round_start_inv, blast intro: round_step_inv)

text \<open>
  No contribution is in the books of two participants, and in full books each is in the books
  of one.
\<close>

lemma books_ok_one_owner:
  assumes "books_ok n k C F" "(p, i) \<in> set (C @ F)" "t \<in> set (open_tasks i)"
    "(q, j) \<in> set (C @ F)" "t \<in> set (open_tasks j)"
  shows "p = q \<and> i = j"
proof (rule books_bucket_inj [OF assms(1,2,4)], rule ccontr)
  assume "bucket_id i \<noteq> bucket_id j"
  moreover have "tasks_ok n k i" "tasks_ok n k j" using books_okD(5) [OF assms(1)] assms(2,4) by blast+
  moreover from this assms(3,5) have "t \<in> set (tasks_for (bucket_id i) n k)" "t \<in> set (tasks_for (bucket_id j) n k)"
    by (metis mset_eq_setD tasks_ok_def)+
  ultimately show False
    using sched.disjoint_tasks [of k "bucket_id i" "bucket_id j" n] books_okD(8) [OF assms(1)]
    by (auto simp: tasks_ok_def)
qed

lemma books_full_unique_owner:
  assumes "books_full n k C F" "c < n" "1 \<le> i" "i \<le> k"
  shows "\<exists>!p. \<exists>info. map_of (C @ F) p = Some info \<and> new_task c i \<in> set (open_tasks info)"
proof -
  note ok = books_fullD(1) [OF assms(1)]
  from assms(3,4) books_okD(8) [OF ok] have k: "0 < k" "k \<le> n" by auto
  from sched.unique_owner [OF k assms(2-4)] obtain b where b: "b < k" "new_task c i \<in> set (tasks_for b n k)" by blast
  from b(1) books_fullD(4) [OF assms(1)] have "b \<in> bucket_id ` snd ` set (C @ F)" by simp
  then obtain p info where p: "(p, info) \<in> set (C @ F)" "bucket_id info = b" by force
  with b(2) books_okD(5) [OF ok p(1)] have t: "new_task c i \<in> set (open_tasks info)"
    by (metis mset_eq_setD tasks_ok_def)
  show ?thesis
  proof (rule ex1I [of _ p])
    from map_of_is_SomeI [OF books_fullD(3) [OF assms(1)] p(1)] t
    show "\<exists>info. map_of (C @ F) p = Some info \<and> new_task c i \<in> set (open_tasks info)" by blast
    show "q = p" if "\<exists>info. map_of (C @ F) q = Some info \<and> new_task c i \<in> set (open_tasks info)" for q
      using that books_ok_one_owner [OF ok p(1) t] by (metis map_of_SomeD)
  qed
qed

text \<open>The books of a finished round are full exactly when every contribution was completed.\<close>

lemma finished_open_tasks:
  "books_ok n k [] F \<Longrightarrow> map_of F p = Some info \<Longrightarrow> open_tasks info = completed_tasks info"
  using books_okD(7) [OF _ map_of_SomeD] by (simp add: open_tasks_def)

lemma finished_books_full:
  assumes "books_ok n k [] F" "length F = k" "c < n" "1 \<le> i" "i \<le> k"
  shows "\<exists>!p. \<exists>info. map_of F p = Some info \<and> new_task c i \<in> set (completed_tasks info)"
proof -
  have "books_full n k [] F"
    using assms(1,2) distinct_card [OF books_okD(2) [OF assms(1)]] by (simp add: books_full_def)
  from books_full_unique_owner [OF this assms(3-5)]
  have "\<exists>!p. \<exists>info. map_of F p = Some info \<and> new_task c i \<in> set (open_tasks info)" by simp
  moreover have "(\<exists>info. map_of F p = Some info \<and> new_task c i \<in> set (open_tasks info)) \<longleftrightarrow>
      (\<exists>info. map_of F p = Some info \<and> new_task c i \<in> set (completed_tasks info))" for p
    by (rule ex_cong1, rule conj_cong) (simp_all add: finished_open_tasks [OF assms(1)])
  ultimately show ?thesis by simp
qed

lemma finished_bucket:
  assumes "books_ok n k [] F" "b < k"
    and all: "\<And>c i. c < n \<Longrightarrow> 1 \<le> i \<Longrightarrow> i \<le> k \<Longrightarrow>
      \<exists>p info. map_of F p = Some info \<and> new_task c i \<in> set (completed_tasks info)"
  shows "b \<in> (bucket_id \<circ> snd) ` set F"
proof -
  from assms(2) have k: "0 < k" "k \<le> n" using books_okD(8) [OF assms(1)] by auto
  then have "tasks_for b n k \<noteq> []" using sched.length_tasks [OF k(1) assms(2) k(2)] by auto
  then obtain t where t: "t \<in> set (tasks_for b n k)" by (cases "tasks_for b n k") auto
  have tt: "new_task (chunk_id t) (contribution_id t) = t" by (cases t) (simp add: new_task_def)
  from sched.tasks_in_grid [OF k(1) assms(2) k(2)] t
  have grid: "chunk_id t < n" "1 \<le> contribution_id t" "contribution_id t \<le> k" by (auto simp: to_tuple_def)
  from all [OF grid] obtain p info where p: "map_of F p = Some info" "t \<in> set (completed_tasks info)"
    unfolding tt by blast
  from map_of_SomeD [OF p(1)] have mem: "(p, info) \<in> set F" .
  then have ok: "tasks_ok n k info" using books_okD(5) [OF assms(1)] by simp
  have "t \<in> set (open_tasks info)" using p(2) finished_open_tasks [OF assms(1) p(1)] by simp
  then have "t \<in> set (tasks_for (bucket_id info) n k)" using ok by (metis mset_eq_setD tasks_ok_def)
  moreover have "bucket_id info < k" using ok by (simp add: tasks_ok_def)
  ultimately have "bucket_id info = b"
    using t sched.disjoint_tasks [OF k(1) assms(2) _ k(2), of "bucket_id info"] by blast
  with mem show ?thesis by force
qed

lemma finished_books_complete:
  assumes "books_ok n k [] F"
    and all: "\<And>c i. c < n \<Longrightarrow> 1 \<le> i \<Longrightarrow> i \<le> k \<Longrightarrow>
      \<exists>p info. map_of F p = Some info \<and> new_task c i \<in> set (completed_tasks info)"
  shows "length F = k"
proof -
  have "{..<k} \<subseteq> (bucket_id \<circ> snd) ` set F" using finished_bucket [OF assms(1) _ all] by blast
  from card_mono [OF _ this] have "k \<le> card ((bucket_id \<circ> snd) ` set F)" by simp
  also have "\<dots> \<le> card (set F)" by (rule card_image_le) simp
  also have "\<dots> \<le> length F" by (rule card_length)
  finally show ?thesis using books_ok_distinct(2) [OF assms(1)] by simp
qed

section \<open>What stays the same during a round\<close>

definition round_frame :: "CoordinatorState \<Rightarrow> Environment \<times> u64 option \<times> u64 option" where
  "round_frame s = (environment s, current_round_height s,
     map_option number_of_contributors (current_metrics s))"

lemma evolves_frame: "state_evolves s s' \<Longrightarrow> round_frame s' = round_frame s"
  by (simp add: state_evolves_def round_frame_def)

lemma update_current_contributors_frame:
  assumes "update_current_contributors s now = (r, s')"
  shows "round_frame s' = round_frame s"
  using assms unfolding update_current_contributors_def Let_def
  by (auto simp: round_frame_def split: option.splits prod.splits if_splits)

lemma drop_replace_frame:
  assumes "drop_participant s p now = (Inr (DropCurrent p' (ReplaceContributor a)), s')"
  shows "round_frame s' = round_frame s"
proof -
  from assms obtain info m cs d self1 where "current_metrics s = Some m"
    and self1: "self1 = s\<lparr>current_contributors := AList.delete p cs,
       current_verifiers := hm_map_values (dispose_of_verifier d) (current_verifiers s),
       dropped := dropped s @ [info\<lparr>dropped_at := Some now\<rparr>]\<rparr>"
    and add: "add_replacement_contributor_unsafe self1 (bucket_id info) now = (Inr (replacement_contributor a), s')"
    by (rule drop_current_effect)
  from add obtain m' :: RoundMetrics where "s' = self1\<lparr>current_contributors := AList.update (replacement_contributor a)
       ((pi_new (replacement_contributor a) (round_height_or_zero self1) 10 (bucket_id info) now)
          \<lparr>started_at := Some now, assigned_tasks :=
             tasks_for (bucket_id info) (number_of_chunks (environment self1)) (number_of_contributors m')\<rparr>)
       (current_contributors self1)\<rparr>"
    by (rule replacement_info)
  with self1 show ?thesis by (simp add: round_frame_def)
qed

lemma round_step_frame:
  assumes "round_step s s'" "round_inv s"
  shows "round_frame s' = round_frame s"
  using round_step_effect [OF assms]
proof (elim disjE exE)
  fix p q
  assume "step_replaces s p q s'"
  then show ?thesis unfolding step_replaces_def using drop_replace_frame evolves_frame by metis
qed (blast intro: evolves_frame update_current_contributors_frame)+

text \<open>
  The participants of the round change with a replacement only, and are never fewer unless the
  replacement is another participant of the round.
\<close>

lemma evolves_participants:
  assumes "state_evolves s s'"
  shows "set (round_participants s') = set (round_participants s)"
proof -
  from assms have ev: "map_evolves info_evolves (current_contributors s) (current_contributors s')"
    and h: "round_height_or_zero s' = round_height_or_zero s"
    and F: "map_evolves (map_evolves info_evolves) (finished_contributors s) (finished_contributors s')"
    by (simp_all add: state_evolves_def round_height_or_zero_def)
  note C = map_evolves_keys [OF ev]
  from map_evolves_lookup [OF F, of "round_height_or_zero s"]
  have "map fst (finished_in_round s' (round_height_or_zero s)) = map fst (finished_in_round s (round_height_or_zero s))"
    by (cases "hm_get (finished_contributors s) (round_height_or_zero s)";
        cases "hm_get (finished_contributors s') (round_height_or_zero s)")
      (auto simp: finished_in_round_def dest: map_evolves_keys)
  then have "map fst (current_contributors s' @ finished_in_round s' (round_height_or_zero s')) =
      map fst (current_contributors s @ finished_in_round s (round_height_or_zero s))" by (simp add: C h)
  then show ?thesis unfolding round_participants_def by (simp only: set_remdups)
qed

lemma length_round_participants: "length (round_participants s) = card (set (round_participants s))"
  by (simp add: round_participants_def length_remdups_card_conv)

lemma replaced_participants:
  assumes "round_inv s" "drop_participant s p now = (Inr (DropCurrent p (ReplaceContributor a)), s')"
    "replacement_contributor a \<notin>
       set (hm_keys (hm_remove p (current_contributors s) @ finished_in_round s (round_height_or_zero s)))"
  shows "length (round_participants s) \<le> length (round_participants s')"
proof -
  let ?K = "set (hm_keys (hm_remove p (current_contributors s) @ finished_in_round s (round_height_or_zero s)))"
  have "set (round_participants s) \<subseteq> insert p ?K"
    by (auto simp: round_participants_def keys_delete [simplified])
  then have "card (set (round_participants s)) \<le> card (insert p ?K)" by (intro card_mono) simp_all
  also have "\<dots> \<le> Suc (card ?K)" by (rule card_insert_le_m1) simp_all
  also have "\<dots> = card (set (round_participants s'))"
    unfolding drop_replace_inv(2) [OF assms(1,2)] using assms(3) by simp
  finally show ?thesis by (simp add: length_round_participants)
qed

lemma round_step_participants:
  assumes "round_step s s'" "round_inv s"
    and free: "\<And>p q. step_replaces s p q s' \<Longrightarrow>
      q \<notin> set (hm_keys (hm_remove p (current_contributors s) @ finished_in_round s (round_height_or_zero s)))"
  shows "length (round_participants s) \<le> length (round_participants s')"
  using round_step_effect [OF assms(1,2)]
proof (elim disjE exE)
  fix p q
  assume rep: "step_replaces s p q s'"
  then obtain now a t where drop: "drop_participant s p now = (Inr (DropCurrent p (ReplaceContributor a)), t)"
    and q: "replacement_contributor a = q" and ev: "state_evolves t s'" unfolding step_replaces_def by blast
  from replaced_participants [OF assms(2) drop] free [OF rep] q evolves_participants [OF ev]
  show ?thesis by (simp add: length_round_participants)
qed (use evolves_participants update_current_contributors_inv(3) [OF assms(2)] in
    \<open>simp_all add: length_round_participants\<close>)

text \<open>The round that a precommit and a commit started, after any steps.\<close>

lemma running_round:
  assumes "hm_wf (queue s0)" "list_all is_contributor (coordinator_contributors (environment s0))"
    "precommit_next_round s0 nh now = (Inr out, s1)" "round_step\<^sup>*\<^sup>* (commit_next_round s1) s"
  obtains F where "round_inv s" "environment s = environment s0" "round_height_or_zero s = nh"
    "finished_in_round s nh = F" "books_ok (number_of_chunks (environment s0)) (length out) (current_contributors s) F"
proof -
  note com = committed_state [OF assms(1,3)]
  have start: "round_start (commit_next_round s1)" unfolding round_start_def using assms(1-3) by blast
  have "round_frame s = round_frame (commit_next_round s1)"
    by (rule round_run.frame_steps [OF assms(4) round_run.inv_init [OF start]]) (rule round_step_frame)
  then have "environment s = environment s0" "current_round_height s = Some nh"
    "map_option number_of_contributors (current_metrics s) = Some (length out)"
    using com(1,5,8) by (simp_all add: round_frame_def)
  moreover note inv = round_run.inv_reachable [OF start assms(4)]
  moreover from inv obtain m h F where "current_metrics s = Some m" "current_round_height s = Some h"
    "hm_get (finished_contributors s) h = Some F"
    "books_ok (number_of_chunks (environment s)) (number_of_contributors m) (current_contributors s) F"
    by (auto simp: round_inv_def)
  ultimately show ?thesis using that [of F] by (simp add: round_height_or_zero_def finished_in_round_def)
qed

text \<open>Runs in which every replacement was free: they keep all participants of the round.\<close>

definition free_round_step :: "CoordinatorState \<Rightarrow> CoordinatorState \<Rightarrow> bool" where
  "free_round_step s s' \<longleftrightarrow> round_step s s' \<and>
     (\<forall>p q. step_replaces s p q s' \<longrightarrow> q \<notin> set (hm_keys
        (hm_remove p (current_contributors s) @ finished_in_round s (round_height_or_zero s))))"

interpretation free_run: invariant_system round_start free_round_step round_inv
  by unfold_locales (blast intro: round_start_inv, unfold free_round_step_def, blast intro: round_step_inv)

lemma committed_participants:
  assumes "hm_wf (queue s0)" "precommit_next_round s0 nh now = (Inr out, s1)"
  shows "length (round_participants (commit_next_round s1)) = length out"
proof -
  let ?s = "commit_next_round s1" and ?o = "bucket_order s0 nh"
  note eff = precommit_effect [OF assms] and com = committed_state [OF assms]
  have keys: "map fst (current_contributors ?s) = map fst ?o"
    by (rule nth_equalityI) (simp_all add: com(4) eff(2) nth_enumerate_eq fst_staged)
  have "finished_in_round ?s (round_height_or_zero ?s) = []"
    using com(1,6) by (simp add: finished_in_round_def round_height_or_zero_def)
  then show ?thesis
    using bucket_order_distinct [OF assms(1)] keys by (simp add: round_participants_def eff(1) remdups_id_iff_distinct [THEN iffD2])
qed

lemma free_run_participants:
  assumes "hm_wf (queue s0)" "list_all is_contributor (coordinator_contributors (environment s0))"
    "precommit_next_round s0 nh now = (Inr out, s1)" "free_round_step\<^sup>*\<^sup>* (commit_next_round s1) s"
  shows "length out \<le> length (round_participants s)"
proof -
  have start: "round_start (commit_next_round s1)" unfolding round_start_def using assms(1-3) by blast
  have "length (round_participants (commit_next_round s1)) \<le> length (round_participants s)"
    by (rule free_run.mono_steps [OF assms(4) free_run.inv_init [OF start]])
      (auto simp: free_round_step_def intro: round_step_participants)
  then show ?thesis by (simp add: committed_participants [OF assms(1,3)])
qed

section \<open>A round of two contributors\<close>

text \<open>The contributors a and b in the first round, on three chunks.\<close>

definition demo_round :: CoordinatorState where
  "demo_round = commit_next_round (snd (precommit_next_round demo_ready 1 40))"

lemma demo_round_inv: "round_inv demo_round"
proof -
  obtain s' where ok: "precommit_next_round demo_ready 1 40 = (Inr [Contributor ''a'', Contributor ''b''], s')"
    by (rule demo_precommit)
  have "list_all is_contributor (coordinator_contributors (environment demo_ready))" by code_simp
  with ok demo_ready_facts(1) have "round_start demo_round"
    unfolding round_start_def demo_round_def by fastforce
  then show ?thesis by (rule round_start_inv)
qed

text \<open>A contributor fetches, locks and completes its next task, and a verifier verifies it.\<close>

definition demo_turn :: "Participant \<Rightarrow> OffsetDateTime \<Rightarrow> CoordinatorState \<Rightarrow> CoordinatorState" where
  "demo_turn p now s =
     (case fetch_task s p now of
        (Inl _, s1) \<Rightarrow> s1
      | (Inr task, s1) \<Rightarrow>
          (let s2 = snd (acquired_lock s1 p (chunk_id task) now);
               s3 = snd (completed_task s2 p task now)
           in snd (completed_task s3 (Verifier ''testing-coordinator-verifier'') task now)))"

lemma demo_turn_steps: "round_step\<^sup>*\<^sup>* s (demo_turn p now s)"
proof -
  obtain r s1 where f: "fetch_task s p now = (r, s1)" by (cases "fetch_task s p now")
  then have 1: "round_step\<^sup>*\<^sup>* s s1" by (blast intro: round_step.fetch)
  show ?thesis
  proof (cases r)
    case (Inr task)
    let ?s2 = "snd (acquired_lock s1 p (chunk_id task) now)" and ?v = "Verifier ''testing-coordinator-verifier''"
    let ?s3 = "snd (completed_task ?s2 p task now)"
    have "round_step s1 ?s2" "round_step ?s2 ?s3" "round_step ?s3 (snd (completed_task ?s3 ?v task now))"
      by (rule round_step.lock round_step.complete, rule surjective_pairing)+
    with 1 Inr f show ?thesis by (simp add: demo_turn_def Let_def)
  qed (use f 1 in \<open>simp add: demo_turn_def\<close>)
qed

text \<open>The round after three turns of each contributor.\<close>

definition demo_finished :: CoordinatorState where
  "demo_finished =
     (let a = demo_turn (Contributor ''a'') 50; b = demo_turn (Contributor ''b'') 51
      in snd (update_current_contributors (b (a (b (a (b (a demo_round)))))) 60))"

lemma demo_finished_steps: "round_step\<^sup>*\<^sup>* demo_round demo_finished"
proof -
  let ?a = "demo_turn (Contributor ''a'') 50" and ?b = "demo_turn (Contributor ''b'') 51"
  let ?s = "?b (?a (?b (?a (?b (?a demo_round)))))"
  have "round_step\<^sup>*\<^sup>* demo_round ?s"
    by (intro rtranclp_trans [OF _ demo_turn_steps] rtranclp.rtrancl_refl)
  moreover have "round_step ?s demo_finished"
    unfolding demo_finished_def Let_def by (rule round_step.finish, rule surjective_pairing)
  ultimately show ?thesis by (rule rtranclp.rtrancl_into_rtrancl)
qed

definition demo_over :: "CoordinatorState \<Rightarrow> bool" where
  "demo_over s \<longleftrightarrow> is_current_round_finished s \<and> length (finished_in_round s 1) = 2"

lemma demo_finished_over: "is_current_round_finished demo_finished" "length (finished_in_round demo_finished 1) = 2"
proof -
  have "demo_over demo_finished" by code_simp
  then show "is_current_round_finished demo_finished" "length (finished_in_round demo_finished 1) = 2"
    by (simp_all add: demo_over_def)
qed

text \<open>The round after a is dropped, and what the drop asks of the storage.\<close>

definition demo_dropped :: CoordinatorState where
  "demo_dropped = snd (drop_participant demo_round (Contributor ''a'') 50)"

definition demo_replace :: "Participant \<Rightarrow> u64 \<Rightarrow> ReplaceContributorStorageAction" where
  "demo_replace p b = \<lparr>dropped_contributor = p, action_bucket_id = b, action_locked_chunks = [],
     action_tasks = [], replacement_contributor = Contributor ''testing-coordinator-contributor''\<rparr>"

lemma demo_drop:
  "drop_participant demo_round (Contributor ''a'') 50 =
     (Inr (DropCurrent (Contributor ''a'') (ReplaceContributor (demo_replace (Contributor ''a'') 0))), demo_dropped)"
  "drop_participant demo_dropped (Contributor ''b'') 60 =
     (Inr (DropCurrent (Contributor ''b'') (ReplaceContributor (demo_replace (Contributor ''b'') 1))),
      snd (drop_participant demo_dropped (Contributor ''b'') 60))"
proof -
  have "(case fst (drop_participant demo_round (Contributor ''a'') 50) of
      Inr (DropCurrent p (ReplaceContributor a)) \<Rightarrow>
        p = Contributor ''a'' \<and> a = demo_replace (Contributor ''a'') 0 | _ \<Rightarrow> False)" by code_simp
  then show "drop_participant demo_round (Contributor ''a'') 50 =
     (Inr (DropCurrent (Contributor ''a'') (ReplaceContributor (demo_replace (Contributor ''a'') 0))), demo_dropped)"
    by (auto simp: demo_dropped_def prod_eq_iff split: sum.splits DropParticipant.splits CeremonyStorageAction.splits)
  have "(case fst (drop_participant demo_dropped (Contributor ''b'') 60) of
      Inr (DropCurrent p (ReplaceContributor a)) \<Rightarrow>
        p = Contributor ''b'' \<and> a = demo_replace (Contributor ''b'') 1 | _ \<Rightarrow> False)" by code_simp
  then show "drop_participant demo_dropped (Contributor ''b'') 60 =
     (Inr (DropCurrent (Contributor ''b'') (ReplaceContributor (demo_replace (Contributor ''b'') 1))),
      snd (drop_participant demo_dropped (Contributor ''b'') 60))"
    by (auto simp: prod_eq_iff split: sum.splits DropParticipant.splits CeremonyStorageAction.splits)
qed

lemma demo_dropped_inv: "round_inv demo_dropped"
  by (rule drop_replace_inv(1) [OF demo_round_inv demo_drop(1)])

lemma replaced_full:
  assumes inv: "round_inv s" and p: "hm_contains (current_contributors s) p"
    and drop: "drop_participant s p now = (Inr (DropCurrent p (ReplaceContributor a)), s')"
    and full: "length (round_participants s) = number_of_contributors (the (current_metrics s))"
  shows "length (round_participants s') = length (round_participants s) \<longleftrightarrow> replacement_contributor a \<notin>
    set (hm_keys (hm_remove p (current_contributors s) @ finished_in_round s (round_height_or_zero s)))"
proof -
  let ?q = "replacement_contributor a"
  from inv obtain m h F where m: "current_metrics s = Some m" and h: "current_round_height s = Some h"
    and F: "hm_get (finished_contributors s) h = Some F"
    and ok: "books_ok (number_of_chunks (environment s)) (number_of_contributors m) (current_contributors s) F"
    by (auto simp: round_inv_def)
  then have fin: "finished_in_round s (round_height_or_zero s) = F"
    by (simp add: finished_in_round_def round_height_or_zero_def)
  let ?K = "set (map fst (AList.delete p (current_contributors s) @ F))"
  from full have "books_full (number_of_chunks (environment s)) (number_of_contributors m) (current_contributors s) F"
    using ok unfolding books_full_def round_participants_def fin
    by (simp add: m length_remdups_card_conv)
  from books_fullD(3) [OF this] p have "p \<notin> set (map fst F)" by auto
  then have K: "?K = set (round_participants s) - {p}" "p \<in> set (round_participants s)"
    using p by (auto simp: round_participants_def fin keys_delete [simplified])
  then have "card (set (round_participants s)) = Suc (card ?K)"
    using card.remove [of "set (round_participants s)" p] by (simp only: finite_set)
  moreover have "set (round_participants s') = insert ?q ?K"
    using drop_replace_inv(2) [OF inv drop] by (simp add: fin)
  ultimately have "length (round_participants s') = length (round_participants s) \<longleftrightarrow> ?q \<notin> ?K"
    by (simp only: length_round_participants) (cases "?q \<in> ?K", simp_all only: insert_absorb card_insert_disjoint finite_set, simp_all)
  then show ?thesis by (simp add: fin)
qed

text \<open>
  C29. Dropping a contributor of a running round that is neither queued nor staged for the next
  one, when there are coordinator contributors: the drop succeeds. One of the coordinator
  contributors is started in the bucket of the dropped one with all tasks of that bucket, the
  dropped one leaves the round unless it is picked itself, the others keep their buckets, and
  the books stay in order. A round with all its participants keeps their number exactly when
  the one that was picked was not another participant of the round already, which the code does
  not ask.
\<close>

theorem drop_with_replacement:
  assumes "round_inv s" and "status s \<noteq> Initializing"
    and "hm_get (current_contributors s) p = Some info" and "dropped_at info = None"
    and "\<not> hm_contains (queue s) p" and "\<not> hm_contains (next_participants s) p"
    and "coordinator_contributors (environment s) \<noteq> []"
  shows "\<exists>a s'. drop_participant s p now = (Inr (DropCurrent p (ReplaceContributor a)), s') \<and>
    replacement_contributor a \<in> set (coordinator_contributors (environment s)) \<and>
    (p = replacement_contributor a \<or> \<not> hm_contains (current_contributors s') p) \<and>
    (\<exists>new. hm_get (current_contributors s') (replacement_contributor a) = Some new \<and>
      bucket_id new = bucket_id info \<and> completed_tasks new = [] \<and>
      assigned_tasks new = tasks_for (bucket_id info) (number_of_chunks (environment s))
        (number_of_contributors (the (current_metrics s)))) \<and>
    (\<forall>r. r \<noteq> p \<longrightarrow> r \<noteq> replacement_contributor a \<longrightarrow>
      map_option bucket_id (hm_get (current_contributors s') r) = map_option bucket_id (hm_get (current_contributors s) r)) \<and>
    round_inv s' \<and>
    (length (round_participants s) = number_of_contributors (the (current_metrics s)) \<longrightarrow>
      (length (round_participants s') = length (round_participants s) \<longleftrightarrow> replacement_contributor a \<notin>
        set (hm_keys (hm_remove p (current_contributors s) @ finished_in_round s (round_height_or_zero s)))))"
proof -
  from drop_succeeds [OF assms] obtain a s' where
    drop: "drop_participant s p now = (Inr (DropCurrent p (ReplaceContributor a)), s')"
    and mem: "replacement_contributor a \<in> set (coordinator_contributors (environment s))" by blast
  let ?q = "replacement_contributor a" and ?n = "number_of_chunks (environment s)"
  from assms(1) obtain m F where m: "current_metrics s = Some m"
    and ok: "books_ok ?n (number_of_contributors m) (current_contributors s) F" by (auto simp: round_inv_def)
  let ?k = "number_of_contributors m"
  obtain info' f where info': "map_of (current_contributors s) p = Some info'"
    and f: "\<forall>i. tasks_ok ?n ?k i \<longrightarrow> tasks_ok ?n ?k (f i) \<and> pi_id (f i) = pi_id i \<and>
       bucket_id (f i) = bucket_id i \<and> finished_at (f i) = finished_at i"
    and C: "current_contributors s' = AList.update ?q
      ((pi_new ?q (round_height_or_zero s) 10 (bucket_id info') now)\<lparr>started_at := Some now, assigned_tasks :=
         tasks_for (bucket_id info') ?n ?k\<rparr>)
      (map (\<lambda>(r, i). (r, f i)) (AList.delete p (current_contributors s)))"
    by (rule drop_replaced_state [OF assms(1) drop m]) (rule that)
  have "p = ?q \<or> p \<notin> set (map fst (current_contributors s'))"
    unfolding C keys_update keys_map_values keys_delete by blast
  moreover have "map_option bucket_id (hm_get (current_contributors s') r) =
      map_option bucket_id (hm_get (current_contributors s) r)" if "r \<noteq> p" "r \<noteq> ?q" for r
  proof (cases "map_of (current_contributors s) r")
    case (Some i)
    then have "(r, i) \<in> set (current_contributors s @ F)" by (auto dest: map_of_SomeD)
    with f books_okD(5) [OF ok] have "bucket_id (f i) = bucket_id i" by blast
    with Some that show ?thesis by (simp add: C update_conv' map_of_map_values delete_conv')
  qed (use that in \<open>simp add: C update_conv' map_of_map_values delete_conv'\<close>)
  moreover have "\<exists>new. hm_get (current_contributors s') ?q = Some new \<and> bucket_id new = bucket_id info \<and>
      completed_tasks new = [] \<and> assigned_tasks new = tasks_for (bucket_id info) ?n (number_of_contributors (the (current_metrics s)))"
    using info' assms(3) m by (simp add: C update_conv' pi_new_def)
  moreover note drop_replace_inv(1) [OF assms(1) drop] replaced_full [OF assms(1) map_of_Some_in_keys [OF assms(3)] drop]
  ultimately show ?thesis using drop mem by blast
qed

theorem drop_with_replacement_witness:
  "\<exists>a s'. drop_participant demo_round (Contributor ''a'') 50 =
      (Inr (DropCurrent (Contributor ''a'') (ReplaceContributor a)), s') \<and>
    (\<exists>new. hm_get (current_contributors s') (replacement_contributor a) = Some new \<and>
      completed_tasks new = [] \<and> assigned_tasks new = tasks_for 0 3 2) \<and>
    round_inv s' \<and>
    (length (round_participants s') = length (round_participants demo_round) \<longleftrightarrow> replacement_contributor a \<notin>
        set (hm_keys (hm_remove (Contributor ''a'') (current_contributors demo_round) @
          finished_in_round demo_round (round_height_or_zero demo_round))))"
proof -
  have "(case hm_get (current_contributors demo_round) (Contributor ''a'') of
      Some info \<Rightarrow> dropped_at info = None \<and> bucket_id info = 0 | None \<Rightarrow> False)" by code_simp
  then obtain info where info: "hm_get (current_contributors demo_round) (Contributor ''a'') = Some info"
    "dropped_at info = None" "bucket_id info = 0" by (auto split: option.splits)
  have st: "status demo_round \<noteq> Initializing"
    "\<not> hm_contains (queue demo_round) (Contributor ''a'')"
    "\<not> hm_contains (next_participants demo_round) (Contributor ''a'')"
    "coordinator_contributors (environment demo_round) \<noteq> []"
    by code_simp+
  have "number_of_chunks (environment demo_round) = 3" "number_of_contributors (the (current_metrics demo_round)) = 2"
    "length (round_participants demo_round) = 2" by code_simp+
  with drop_with_replacement [OF demo_round_inv st(1) info(1,2) st(2-4), of 50] info(3) show ?thesis
    by (simp only: simp_thms) blast
qed

text \<open>What the loop leaves of the tasks on a chunk of the dropped contributor.\<close>

lemma collect_tuples:
  assumes "distinct (map chunk_id ts)" "u \<in> set ts"
  shows "hm_get (hm_collect (map to_tuple ts)) (chunk_id u) = Some (contribution_id u)"
proof -
  have "map fst (map to_tuple ts) = map chunk_id ts" by (simp add: to_tuple_def)
  with assms(1) have "hm_collect (map to_tuple ts) = map to_tuple ts" "distinct (map fst (map to_tuple ts))"
    by (simp_all only: hm_collect_distinct)
  moreover have "(chunk_id u, contribution_id u) \<in> set (map to_tuple ts)"
    using assms(2) by (force simp: to_tuple_def)
  ultimately show ?thesis by (simp only: map_of_is_SomeI)
qed

lemma reassign_revokes:
  assumes "hm_get tbc (chunk_id u) = Some (contribution_id u)"
    "chunk_id t = chunk_id u" "i = snd (reassign_contributor tbc n k j)"
  shows "t \<in> set (completed_tasks i) \<Longrightarrow> t \<in> set (completed_tasks j) \<and> contribution_id t \<le> contribution_id u"
    "t \<notin> set (pending_tasks i)"
  using assms by (auto simp: reassign_contributor_def Let_def split: sum.splits)

text \<open>
  C30. Dropping a contributor in favour of a replacement takes back what the other current
  contributors of the round built on its contributions: on each chunk it had contributed to,
  the contributions they keep as completed all come before its own, and none of them works on
  the chunk. The books of the contributors that have finished are not touched: what they built
  on the dropped contributions stays completed there.
\<close>

theorem drop_revokes_dependents:
  assumes "round_inv s"
    and "drop_participant s p now = (Inr (DropCurrent p (ReplaceContributor a)), s')"
    and "hm_get (current_contributors s) p = Some info" and "u \<in> set (completed_tasks info)"
    and "hm_get (current_contributors s') r = Some i" and "chunk_id t = chunk_id u"
  shows "(t \<in> set (completed_tasks i) \<longrightarrow> contribution_id t < contribution_id u) \<and> t \<notin> set (pending_tasks i) \<and>
    finished_contributors s' = finished_contributors s"
proof -
  let ?q = "replacement_contributor a" and ?n = "number_of_chunks (environment s)"
  from assms(1) obtain m F where m: "current_metrics s = Some m"
    and ok: "books_ok ?n (number_of_contributors m) (current_contributors s) F"
    by (auto simp: round_inv_def)
  let ?k = "number_of_contributors m" and ?tbc = "hm_collect (map to_tuple (completed_tasks info))"
  obtain info' f where info': "map_of (current_contributors s) p = Some info'"
    and C: "current_contributors s' = AList.update ?q
      ((pi_new ?q (round_height_or_zero s) 10 (bucket_id info') now)
        \<lparr>started_at := Some now, assigned_tasks := tasks_for (bucket_id info') ?n ?k\<rparr>)
      (map (\<lambda>(r, i). (r, f i)) (AList.delete p (current_contributors s)))"
    and fin: "finished_contributors s' = finished_contributors s"
    and f: "f = (\<lambda>i. snd (reassign_contributor (hm_collect (map to_tuple (completed_tasks info'))) ?n ?k i))"
    by (rule drop_replaced_state [OF assms(1,2) m]) (rule that)
  have pi: "(p, info) \<in> set (current_contributors s @ F)" using assms(3) by (auto dest: map_of_SomeD)
  show ?thesis
  proof (cases "r = ?q")
    case True
    with assms(5) fin show ?thesis by (auto simp: C update_conv' pi_new_def)
  next
    case False
    with assms(5) obtain j where j: "r \<noteq> p" "map_of (current_contributors s) r = Some j" "i = f j"
      by (auto simp: C update_conv' map_of_map_values delete_conv' split: if_splits)
    have "distinct (map chunk_id (open_tasks info))"
      by (rule tasks_ok_distinct(1) [OF books_okD(5) [OF ok pi] books_okD(8) [OF ok]])
    then have "distinct (map chunk_id (completed_tasks info))" by (simp add: open_tasks_def)
    from collect_tuples [OF this assms(4)] have "hm_get ?tbc (chunk_id u) = Some (contribution_id u)" .
    note rev = reassign_revokes [OF this assms(6), of i ?n ?k j]
    have i: "i = snd (reassign_contributor ?tbc ?n ?k j)" using info' assms(3) by (simp add: j(3) f)
    have "t \<noteq> u" if "t \<in> set (completed_tasks j)"
      using books_tasks_disjoint [OF ok _ pi j(1)] j(2) that assms(4) by (auto simp: open_tasks_def dest: map_of_SomeD)
    with rev [OF i] assms(6) have "(t \<in> set (completed_tasks i) \<longrightarrow> contribution_id t < contribution_id u) \<and>
        t \<notin> set (pending_tasks i)" by (cases t; cases u) fastforce
    with fin show ?thesis by blast
  qed
qed

text \<open>The contributor a has contributed to the first chunk.\<close>

definition demo_worked :: CoordinatorState where
  "demo_worked =
     (let s1 = snd (fetch_task demo_round (Contributor ''a'') 50);
          s2 = snd (acquired_lock s1 (Contributor ''a'') 0 51)
      in snd (completed_task s2 (Contributor ''a'') (new_task 0 1) 52))"

lemma demo_worked_steps: "round_step\<^sup>*\<^sup>* demo_round demo_worked"
proof -
  let ?s1 = "snd (fetch_task demo_round (Contributor ''a'') 50)"
  let ?s2 = "snd (acquired_lock ?s1 (Contributor ''a'') 0 51)"
  have "round_step demo_round ?s1" "round_step ?s1 ?s2" "round_step ?s2 demo_worked"
    unfolding demo_worked_def Let_def
    by (rule round_step.fetch round_step.lock round_step.complete, rule surjective_pairing)+
  then show ?thesis by simp
qed

lemma demo_worked_inv: "round_inv demo_worked"
  by (rule round_run.inv_steps [OF demo_worked_steps demo_round_inv])

theorem drop_revokes_dependents_witness:
  "\<exists>i. hm_get (current_contributors (snd (drop_participant demo_worked (Contributor ''a'') 60))) (Contributor ''b'') =
     Some i \<and> new_task 0 2 \<notin> set (pending_tasks i) \<and> new_task 0 2 \<notin> set (completed_tasks i)"
proof -
  let ?d = "drop_participant demo_worked (Contributor ''a'') 60"
  have "(case fst ?d of Inr (DropCurrent p (ReplaceContributor a)) \<Rightarrow> p = Contributor ''a'' | _ \<Rightarrow> False)" by code_simp
  then obtain a where d: "?d = (Inr (DropCurrent (Contributor ''a'') (ReplaceContributor a)), snd ?d)"
    by (auto simp: prod_eq_iff split: sum.splits DropParticipant.splits CeremonyStorageAction.splits)
  have "(case hm_get (current_contributors demo_worked) (Contributor ''a'') of
      Some info \<Rightarrow> new_task 0 1 \<in> set (completed_tasks info) | None \<Rightarrow> False)" by code_simp
  then obtain info where info: "hm_get (current_contributors demo_worked) (Contributor ''a'') = Some info"
    "new_task 0 1 \<in> set (completed_tasks info)" by (auto split: option.splits)
  have "hm_get (current_contributors (snd ?d)) (Contributor ''b'') \<noteq> None" by code_simp
  then obtain i where i: "hm_get (current_contributors (snd ?d)) (Contributor ''b'') = Some i" by blast
  from drop_revokes_dependents [OF demo_worked_inv d info i, of "new_task 0 2"] i show ?thesis by auto
qed

text \<open>
  When the replacement is a coordinator contributor that already works in the round, for
  instance after a second drop with a single coordinator contributor, its own books are
  overwritten: the round has one contributor less, and the tasks of the bucket it had belong
  to nobody any more.
\<close>

theorem busy_replacement_orphans_tasks:
  assumes "round_inv s"
    and "drop_participant s p now = (Inr (DropCurrent p (ReplaceContributor a)), s')"
    and "hm_get (current_contributors s) (replacement_contributor a) = Some old"
    and "replacement_contributor a \<noteq> p"
    and "t \<in> set (tasks_for (bucket_id old) (number_of_chunks (environment s))
      (number_of_contributors (the (current_metrics s))))"
  shows "length (current_contributors s') = length (current_contributors s) - 1 \<and>
    \<not> (\<exists>r info. hm_get (current_contributors s' @ finished_in_round s' (round_height_or_zero s')) r = Some info \<and>
      t \<in> set (open_tasks info))"
proof -
  let ?q = "replacement_contributor a" and ?n = "number_of_chunks (environment s)"
  from assms(1) obtain m h F where m: "current_metrics s = Some m" and h: "current_round_height s = Some h"
    and F: "hm_get (finished_contributors s) h = Some F"
    and ok: "books_ok ?n (number_of_contributors m) (current_contributors s) F"
    by (auto simp: round_inv_def)
  let ?k = "number_of_contributors m"
  obtain info f where info: "map_of (current_contributors s) p = Some info"
    and f: "\<forall>i. tasks_ok ?n ?k i \<longrightarrow> tasks_ok ?n ?k (f i) \<and> pi_id (f i) = pi_id i \<and>
       bucket_id (f i) = bucket_id i \<and> finished_at (f i) = finished_at i"
    and C: "current_contributors s' = AList.update ?q
      ((pi_new ?q (round_height_or_zero s) 10 (bucket_id info) now)
        \<lparr>started_at := Some now, assigned_tasks := tasks_for (bucket_id info) ?n ?k\<rparr>)
      (map (\<lambda>(r, i). (r, f i)) (AList.delete p (current_contributors s)))"
    and same: "finished_contributors s' = finished_contributors s" "current_round_height s' = current_round_height s"
    by (rule drop_replaced_state [OF assms(1,2) m]) (rule that)
  have pi: "(p, info) \<in> set (current_contributors s @ F)" using info by (auto dest: map_of_SomeD)
  have qo: "(?q, old) \<in> set (current_contributors s @ F)" using assms(3) by (auto dest: map_of_SomeD)
  have elsewhere: "t \<notin> set (tasks_for b ?n ?k)" if "b < ?k" "b \<noteq> bucket_id old" for b
    using that sched.disjoint_tasks [of ?k b "bucket_id old" ?n] assms(5) books_okD(5) [OF ok qo]
      books_okD(8) [OF ok] by (auto simp: m tasks_ok_def)
  have not_in: "t \<notin> set (open_tasks i)" if "tasks_ok ?n ?k i" "bucket_id i \<noteq> bucket_id old" for i
    using that elsewhere [of "bucket_id i"] by (metis mset_eq_setD tasks_ok_def)
  have other: "bucket_id i \<noteq> bucket_id old" if "(r, i) \<in> set (current_contributors s @ F)" "r \<noteq> ?q" for r i
    using books_bucket_inj [OF ok that(1) qo] that(2) by blast
  have "?q \<in> set (map fst (AList.delete p (current_contributors s)))"
    unfolding keys_delete using map_of_Some_in_keys [OF assms(3)] assms(4) by simp
  then have "length (current_contributors s') = length (AList.delete p (current_contributors s))"
    unfolding C length_update keys_map_values by simp
  moreover obtain A B where "current_contributors s = A @ (p, info) # B" "AList.delete p (current_contributors s) = A @ B"
    by (rule delete_split [OF books_okD(1) [OF ok] info])
  ultimately have len: "length (current_contributors s') = length (current_contributors s) - 1" by simp
  have "t \<notin> set (open_tasks i)" if "map_of (current_contributors s' @ F) r = Some i" for r i
  proof (cases "r = ?q")
    case True
    with that have "i = (pi_new ?q (round_height_or_zero s) 10 (bucket_id info) now)
        \<lparr>started_at := Some now, assigned_tasks := tasks_for (bucket_id info) ?n ?k\<rparr>"
      by (simp add: C update_conv' map_add_def)
    moreover have "bucket_id info < ?k" using books_okD(5) [OF ok pi] by (simp add: tasks_ok_def)
    ultimately show ?thesis
      using elsewhere other [OF pi] assms(4) by (simp add: open_tasks_def pi_new_def)
  next
    case False
    with that have "map_of (map (\<lambda>(r, i). (r, f i)) (AList.delete p (current_contributors s))) r = Some i \<or>
        map_of F r = Some i"
      by (auto simp: C update_conv' map_add_def split: option.splits)
    then obtain j where "(r, j) \<in> set (current_contributors s @ F)" "i = f j \<or> i = j"
      by (auto simp: map_of_map_values delete_conv' split: if_splits dest: map_of_SomeD)
    with books_okD(5) [OF ok] f other [OF _ False] not_in show ?thesis by metis
  qed
  with len same F h show ?thesis
    by (simp add: finished_in_round_def round_height_or_zero_def)
qed

theorem busy_replacement_orphans_tasks_witness:
  "\<not> (\<exists>r info. hm_get (current_contributors (snd (drop_participant demo_dropped (Contributor ''b'') 60)) @
       finished_in_round (snd (drop_participant demo_dropped (Contributor ''b'') 60))
         (round_height_or_zero (snd (drop_participant demo_dropped (Contributor ''b'') 60)))) r = Some info \<and>
     new_task 0 1 \<in> set (open_tasks info))"
proof -
  let ?q = "replacement_contributor (demo_replace (Contributor ''b'') 1)"
  have "(case hm_get (current_contributors demo_dropped) ?q of
      Some old \<Rightarrow> new_task 0 1 \<in> set (tasks_for (bucket_id old) (number_of_chunks (environment demo_dropped))
        (number_of_contributors (the (current_metrics demo_dropped)))) | None \<Rightarrow> False)" by code_simp
  then obtain old where "hm_get (current_contributors demo_dropped) ?q = Some old"
    "new_task 0 1 \<in> set (tasks_for (bucket_id old) (number_of_chunks (environment demo_dropped))
        (number_of_contributors (the (current_metrics demo_dropped))))" by (auto split: option.splits)
  moreover have "?q \<noteq> Contributor ''b''" by code_simp
  ultimately show ?thesis
    using busy_replacement_orphans_tasks [OF demo_dropped_inv demo_drop(2)] by blast
qed

end
