(* ===== verification/Locators.thy ===== *)
theory Locators
  imports Contributions
begin

text \<open>
  \<^verbatim>\<open>phase1-coordinator/src/storage/storage.rs\<close> and the \<^verbatim>\<open>DiskResolver\<close> of
  \<^verbatim>\<open>storage/disk.rs\<close>: the keys of the storage, the paths of their files, and the way back
  from a path to its key. Rust's \<^verbatim>\<open>Path\<close> is modelled on its string, as far as
  \<^verbatim>\<open>starts_with\<close> and \<^verbatim>\<open>strip_prefix\<close> look at it.
\<close>

record ContributionLocator =
  cl_round_height :: u64
  cl_chunk_id :: u64
  cl_contribution_id :: u64
  cl_is_verified :: bool

record ContributionSignatureLocator =
  sl_round_height :: u64
  sl_chunk_id :: u64
  sl_contribution_id :: u64
  sl_is_verified :: bool

datatype Locator =
    CoordinatorStateFile
  | RoundHeightFile
  | RoundState u64
  | RoundFile u64
  | ContributionFile ContributionLocator
  | ContributionFileSignatureFile ContributionSignatureLocator

definition contribution_locator :: "u64 \<Rightarrow> u64 \<Rightarrow> u64 \<Rightarrow> bool \<Rightarrow> ContributionLocator" where
  "contribution_locator r c i v =
     \<lparr>cl_round_height = r, cl_chunk_id = c, cl_contribution_id = i, cl_is_verified = v\<rparr>"

definition signature_locator :: "u64 \<Rightarrow> u64 \<Rightarrow> u64 \<Rightarrow> bool \<Rightarrow> ContributionSignatureLocator" where
  "signature_locator r c i v =
     \<lparr>sl_round_height = r, sl_chunk_id = c, sl_contribution_id = i, sl_is_verified = v\<rparr>"

section \<open>Paths\<close>

datatype Component = RootDir | CurDir | ParentDir | Normal string

text \<open>
  What \<^verbatim>\<open>Path::components\<close> makes of the parts between the separators: repeated separators
  and dots are skipped, but for a dot at the start.
\<close>

definition body_label :: "string \<Rightarrow> Component option" where
  "body_label q =
     (if q = '''' \<or> q = ''.'' then None else if q = ''..'' then Some ParentDir else Some (Normal q))"

definition path_labels :: "string \<Rightarrow> (Component option \<times> string) list" where
  "path_labels s =
     (case split_on CHR ''/'' s of
        [] \<Rightarrow> []
      | p # ps \<Rightarrow>
          (if p = '''' \<and> ps \<noteq> [] then Some RootDir
           else if p = ''.'' then Some CurDir else body_label p, p) #
          map (\<lambda>q. (body_label q, q)) ps)"

definition components :: "string \<Rightarrow> Component list" where
  "components s = List.map_filter fst (path_labels s)"

text \<open>\<^verbatim>\<open>starts_with\<close> on strings and on lists of components.\<close>

fun starts_with :: "'a list \<Rightarrow> 'a list \<Rightarrow> bool" where
  "starts_with xs [] = True"
| "starts_with [] (y # ys) = False"
| "starts_with (x # xs) (y # ys) = (x = y \<and> starts_with xs ys)"

fun skip_components :: "nat \<Rightarrow> (Component option \<times> string) list \<Rightarrow> (Component option \<times> string) list" where
  "skip_components 0 xs = xs"
| "skip_components (Suc n) [] = []"
| "skip_components (Suc n) ((None, _) # xs) = skip_components (Suc n) xs"
| "skip_components (Suc n) ((Some _, _) # xs) = skip_components n xs"

definition trim_labels :: "(Component option \<times> string) list \<Rightarrow> (Component option \<times> string) list" where
  "trim_labels xs =
     rev (dropWhile (\<lambda>x. fst x = None) (rev (dropWhile (\<lambda>x. fst x = None) xs)))"

fun join_on :: "char \<Rightarrow> string list \<Rightarrow> string" where
  "join_on sep [] = []"
| "join_on sep [p] = p"
| "join_on sep (p # q # ps) = p @ sep # join_on sep (q # ps)"

text \<open>\<^verbatim>\<open>Path::strip_prefix\<close>, and the string of what is left.\<close>

definition strip_prefix_path :: "string \<Rightarrow> string \<Rightarrow> string option" where
  "strip_prefix_path path prefix =
     (if starts_with (components path) (components prefix)
      then Some (join_on CHR ''/'' (map snd
             (trim_labels (skip_components (length (components prefix)) (path_labels path)))))
      else None)"

section \<open>From locators to paths\<close>

definition round_directory :: "string \<Rightarrow> u64 \<Rightarrow> string" where
  "round_directory base h = base @ ''/round_'' @ show_u64 h"

definition chunk_directory :: "string \<Rightarrow> u64 \<Rightarrow> u64 \<Rightarrow> string" where
  "chunk_directory base h c = round_directory base h @ ''/chunk_'' @ show_u64 c"

fun to_path :: "string \<Rightarrow> Locator \<Rightarrow> LocatorPath" where
  "to_path base CoordinatorStateFile = base @ ''/coordinator.json''"
| "to_path base RoundHeightFile = base @ ''/round_height''"
| "to_path base (RoundState h) = round_directory base h @ ''/state.json''"
| "to_path base (RoundFile h) = round_directory base h @ ''/round_'' @ show_u64 h @ ''.verified''"
| "to_path base (ContributionFile l) =
     chunk_directory base (cl_round_height l) (cl_chunk_id l) @
     (if cl_is_verified l
      then ''/contribution_'' @ show_u64 (cl_contribution_id l) @ ''.verified''
      else ''/contribution_'' @ show_u64 (cl_contribution_id l) @ ''.unverified'')"
| "to_path base (ContributionFileSignatureFile l) =
     chunk_directory base (sl_round_height l) (sl_chunk_id l) @
     (if sl_is_verified l
      then ''/contribution_'' @ show_u64 (sl_contribution_id l) @ ''.verified.signature''
      else ''/contribution_'' @ show_u64 (sl_contribution_id l) @ ''.unverified.signature'')"

section \<open>From paths to locators\<close>

definition from_parse_error :: "ParseIntError + 'a \<Rightarrow> CoordinatorError + 'a" where
  "from_parse_error r = (case r of Inl e \<Rightarrow> Inl (Integer e) | Inr a \<Rightarrow> Inr a)"

text \<open>A file of a chunk directory.\<close>

definition chunk_file_locator :: "u64 \<Rightarrow> u64 \<Rightarrow> string \<Rightarrow> CoordinatorError + Locator" where
  "chunk_file_locator h c path =
     (if starts_with path ''contribution_'' then
        (case splitn2 CHR ''.'' (drop 13 path) of
           [i, extension] \<Rightarrow>
             result_bind (from_parse_error (u64_from_str i)) (\<lambda>i.
               if extension = ''unverified.signature''
               then Inr (ContributionFileSignatureFile (signature_locator h c i False))
               else if extension = ''verified.signature''
               then Inr (ContributionFileSignatureFile (signature_locator h c i True))
               else if extension = ''unverified''
               then Inr (ContributionFile (contribution_locator h c i False))
               else if extension = ''verified''
               then Inr (ContributionFile (contribution_locator h c i True))
               else Inl StorageLocatorFormatIncorrect)
         | _ \<Rightarrow> Inl StorageLocatorFormatIncorrect)
      else Inl StorageLocatorFormatIncorrect)"

text \<open>A file of a round directory.\<close>

definition round_file_locator :: "u64 \<Rightarrow> string \<Rightarrow> CoordinatorError + Locator" where
  "round_file_locator h remainder =
     (if remainder = ''state.json'' then Inr (RoundState h)
      else if remainder = ''round_'' @ show_u64 h @ ''.verified'' then Inr (RoundFile h)
      else
        (case splitn2 CHR ''/'' remainder of
           [chunk, path] \<Rightarrow>
             if starts_with chunk ''chunk_'' then
               result_bind (from_parse_error (u64_from_str (drop 6 chunk))) (\<lambda>c.
                 if chunk = ''chunk_'' @ show_u64 c then chunk_file_locator h c path
                 else Inl StorageLocatorFormatIncorrect)
             else Inl StorageLocatorFormatIncorrect
         | _ \<Rightarrow> Inl StorageLocatorFormatIncorrect))"

text \<open>A file below the base directory.\<close>

definition key_locator :: "string \<Rightarrow> CoordinatorError + Locator" where
  "key_locator key =
     (if key = ''coordinator.json'' then Inr CoordinatorStateFile
      else if key = ''round_height'' then Inr RoundHeightFile
      else
        (case splitn2 CHR ''/'' key of
           [round, remainder] \<Rightarrow>
             if starts_with round ''round_'' then
               result_bind (from_parse_error (u64_from_str (drop 6 round))) (\<lambda>h.
                 if round = ''round_'' @ show_u64 h then round_file_locator h remainder
                 else Inl StorageLocatorFormatIncorrect)
             else Inl StorageLocatorFormatIncorrect
         | _ \<Rightarrow> Inl StorageLocatorFormatIncorrect))"

definition to_locator :: "string \<Rightarrow> LocatorPath \<Rightarrow> CoordinatorError + Locator" where
  "to_locator base path0 =
     (let path = (if starts_with path0 ''./'' then path0 else ''./'' @ path0) in
      if \<not> starts_with (components path) (components base) then Inl StorageLocatorFormatIncorrect
      else
        (case strip_prefix_path path (base @ ''/'') of
           None \<Rightarrow> Inl StorageLocatorFormatIncorrect
         | Some key \<Rightarrow> key_locator key))"

section \<open>Keys\<close>

text \<open>The path of a locator relative to the base directory.\<close>

fun locator_key :: "Locator \<Rightarrow> string" where
  "locator_key CoordinatorStateFile = ''coordinator.json''"
| "locator_key RoundHeightFile = ''round_height''"
| "locator_key (RoundState h) = (''round_'' @ show_u64 h) @ CHR ''/'' # ''state.json''"
| "locator_key (RoundFile h) = (''round_'' @ show_u64 h) @ CHR ''/'' # ''round_'' @ show_u64 h @ ''.verified''"
| "locator_key (ContributionFile l) =
     (''round_'' @ show_u64 (cl_round_height l)) @ CHR ''/'' # (''chunk_'' @ show_u64 (cl_chunk_id l)) @
     CHR ''/'' # (''contribution_'' @ show_u64 (cl_contribution_id l)) @
     CHR ''.'' # (if cl_is_verified l then ''verified'' else ''unverified'')"
| "locator_key (ContributionFileSignatureFile l) =
     (''round_'' @ show_u64 (sl_round_height l)) @ CHR ''/'' # (''chunk_'' @ show_u64 (sl_chunk_id l)) @
     CHR ''/'' # (''contribution_'' @ show_u64 (sl_contribution_id l)) @
     CHR ''.'' # (if sl_is_verified l then ''verified.signature'' else ''unverified.signature'')"

lemma to_path_key: "to_path base l = base @ CHR ''/'' # locator_key l"
  by (cases l) (simp_all add: round_directory_def chunk_directory_def)

definition locator_ok :: "Locator \<Rightarrow> bool" where
  "locator_ok l =
     (case l of
        CoordinatorStateFile \<Rightarrow> True
      | RoundHeightFile \<Rightarrow> True
      | RoundState h \<Rightarrow> h < 2 ^ 64
      | RoundFile h \<Rightarrow> h < 2 ^ 64
      | ContributionFile k \<Rightarrow>
          cl_round_height k < 2 ^ 64 \<and> cl_chunk_id k < 2 ^ 64 \<and> cl_contribution_id k < 2 ^ 64
      | ContributionFileSignatureFile k \<Rightarrow>
          sl_round_height k < 2 ^ 64 \<and> sl_chunk_id k < 2 ^ 64 \<and> sl_contribution_id k < 2 ^ 64)"

lemma show_no_slash [simp]: "CHR ''/'' \<notin> set (show_u64 n)"
  and show_no_dot [simp]: "CHR ''.'' \<notin> set (show_u64 n)"
  by (rule show_u64_no_sep, simp)+

lemma starts_with_append [simp]: "starts_with (xs @ ys) xs"
  by (induction xs) auto

lemma starts_with_self [simp]: "starts_with xs xs"
  using starts_with_append [of xs "[]"] by simp

lemma from_parse_show [simp]: "n < 2 ^ 64 \<Longrightarrow> from_parse_error (u64_from_str (show_u64 n)) = Inr n"
  by (simp add: from_parse_error_def u64_from_str_show)

text \<open>The parser of the keys, one directory at a time.\<close>

lemma chunk_file_locator_parts:
  assumes "i < 2 ^ 64"
  shows "chunk_file_locator h c ((''contribution_'' @ show_u64 i) @ CHR ''.'' # extension) =
    (if extension = ''unverified.signature'' then Inr (ContributionFileSignatureFile (signature_locator h c i False))
     else if extension = ''verified.signature'' then Inr (ContributionFileSignatureFile (signature_locator h c i True))
     else if extension = ''unverified'' then Inr (ContributionFile (contribution_locator h c i False))
     else if extension = ''verified'' then Inr (ContributionFile (contribution_locator h c i True))
     else Inl StorageLocatorFormatIncorrect)"
  using assms by (simp add: chunk_file_locator_def splitn2_append)

lemma round_file_locator_parts:
  assumes "c < 2 ^ 64"
  shows "round_file_locator h ((''chunk_'' @ show_u64 c) @ CHR ''/'' # path) = chunk_file_locator h c path"
proof -
  have "splitn2 CHR ''/'' ((''chunk_'' @ show_u64 c) @ CHR ''/'' # path) = [''chunk_'' @ show_u64 c, path]"
    by (rule splitn2_append) simp
  with assms show ?thesis by (simp add: round_file_locator_def)
qed

lemma key_locator_parts:
  assumes "h < 2 ^ 64"
  shows "key_locator ((''round_'' @ show_u64 h) @ CHR ''/'' # remainder) = round_file_locator h remainder"
proof -
  let ?key = "(''round_'' @ show_u64 h) @ CHR ''/'' # remainder"
  have split: "splitn2 CHR ''/'' ?key = [''round_'' @ show_u64 h, remainder]"
    by (rule splitn2_append) simp
  have "?key \<noteq> ''round_height''"
  proof
    assume "?key = ''round_height''"
    then have "CHR ''/'' \<in> set ''round_height''" by (metis in_set_conv_decomp)
    then show False by simp
  qed
  with assms split show ?thesis by (simp add: key_locator_def)
qed

lemma key_locator_key: "locator_ok l \<Longrightarrow> key_locator (locator_key l) = Inr l"
proof (cases l)
  case (ContributionFile k)
  assume "locator_ok l"
  with ContributionFile show ?thesis
    by (simp add: locator_ok_def key_locator_parts [simplified] round_file_locator_parts [simplified]
        chunk_file_locator_parts [simplified] contribution_locator_def)
next
  case (ContributionFileSignatureFile k)
  assume "locator_ok l"
  with ContributionFileSignatureFile show ?thesis
    by (simp add: locator_ok_def key_locator_parts [simplified] round_file_locator_parts [simplified]
        chunk_file_locator_parts [simplified] signature_locator_def)
next
  case (RoundState h)
  assume "locator_ok l"
  with RoundState show ?thesis
    by (simp add: locator_ok_def key_locator_parts [simplified] round_file_locator_def)
next
  case (RoundFile h)
  assume "locator_ok l"
  with RoundFile show ?thesis
    by (simp add: locator_ok_def key_locator_parts [simplified] round_file_locator_def)
qed (simp_all add: key_locator_def)

section \<open>Paths are keys below the base\<close>

lemma split_on_nonempty: "split_on sep xs \<noteq> []"
  by (induction xs) (auto split: list.splits)

lemma split_on_join: "split_on sep (xs @ sep # ys) = split_on sep xs @ split_on sep ys"
proof (induction xs)
  case (Cons x xs)
  obtain p ps where "split_on sep xs = p # ps" using split_on_nonempty by (metis neq_Nil_conv)
  with Cons show ?case by auto
qed simp

lemma join_split [simp]: "join_on sep (split_on sep xs) = xs"
proof (induction xs)
  case (Cons x xs)
  obtain p ps where "split_on sep xs = p # ps" using split_on_nonempty by (metis neq_Nil_conv)
  with Cons show ?case by (cases ps) auto
qed simp

abbreviation plain_parts :: "string \<Rightarrow> bool" where
  "plain_parts key \<equiv> \<forall>q \<in> set (split_on CHR ''/'' key). q \<noteq> [] \<and> q \<noteq> ''.'' \<and> q \<noteq> ''..''"

lemma key_plain: "plain_parts (locator_key l)"
proof -
  have dirs: "split_on CHR ''/'' (''round_'' @ show_u64 h) = [''round_'' @ show_u64 h]"
    "split_on CHR ''/'' (''chunk_'' @ show_u64 h) = [''chunk_'' @ show_u64 h]" for h
    by (rule split_on_id, simp)+
  have leaf: "split_on CHR ''/'' ((''contribution_'' @ show_u64 i) @ CHR ''.'' # (if v then e else e')) =
      [(''contribution_'' @ show_u64 i) @ CHR ''.'' # (if v then e else e')]"
    if "CHR ''/'' \<notin> set e" "CHR ''/'' \<notin> set e'" for i v e e'
    using that by (intro split_on_id) simp
  have agg: "split_on CHR ''/'' (''round_'' @ show_u64 h @ ''.verified'') = [''round_'' @ show_u64 h @ ''.verified'']" for h
    by (rule split_on_id) simp
  show ?thesis
    by (cases l) (simp_all only: locator_key.simps split_on_join agg dirs, simp_all add: leaf [simplified])
qed

text \<open>The labels of a path below a base that starts at the current directory.\<close>

lemma labels_below:
  assumes "starts_with base ''./''"
  shows "path_labels (base @ CHR ''/'' # key) =
    path_labels base @ map (\<lambda>q. (body_label q, q)) (split_on CHR ''/'' key)"
proof -
  from assms obtain rest where base: "base = ''.'' @ CHR ''/'' # rest"
    by (cases base; cases "tl base") auto
  then have "split_on CHR ''/'' base = ''.'' # split_on CHR ''/'' rest" by simp
  then show ?thesis by (simp add: path_labels_def split_on_join)
qed

lemma skip_all:
  "\<exists>zs. (\<forall>z \<in> set zs. fst z = None) \<and> skip_components (length (List.map_filter fst xs)) (xs @ ys) = zs @ ys"
  for xs :: "(Component option \<times> string) list"
proof (induction xs)
  case (Cons x xs)
  show ?case
  proof (cases "fst x")
    case None
    then obtain s where x: "x = (None, s)" by (cases x) auto
    show ?thesis
    proof (cases "length (List.map_filter fst xs)")
      case 0
      then have "\<forall>z \<in> set (x # xs). fst z = None"
        using None by (auto simp: List.map_filter_def filter_empty_conv)
      then show ?thesis using 0 x by (intro exI [of _ "x # xs"]) (simp add: List.map_filter_def)
    next
      case (Suc m)
      with Cons.IH x show ?thesis by (simp add: List.map_filter_def)
    qed
  next
    case (Some c)
    then obtain s where "x = (Some c, s)" by (cases x) auto
    with Cons.IH show ?thesis by (simp add: List.map_filter_def)
  qed
qed (auto intro: exI [of _ "[]"])

lemma trim_leading:
  assumes "\<forall>z \<in> set zs. fst z = None" "\<forall>y \<in> set ys. fst y \<noteq> None"
  shows "trim_labels (zs @ ys) = ys"
proof -
  have "dropWhile (\<lambda>x. fst x = None) (zs @ ys) = dropWhile (\<lambda>x. fst x = None) ys"
    using assms(1) by (intro dropWhile_append2) simp
  moreover have keep: "dropWhile (\<lambda>x. fst x = None) xs = xs" if "\<forall>x \<in> set xs. fst x \<noteq> None"
    for xs :: "(Component option \<times> string) list"
    using that by (cases xs) auto
  ultimately show ?thesis using assms(2) keep [of ys] keep [of "rev ys"] by (simp add: trim_labels_def)
qed

lemma map_filter_append: "List.map_filter f (xs @ ys) = List.map_filter f xs @ List.map_filter f ys"
  by (simp add: List.map_filter_def)

lemma components_below:
  assumes "starts_with base ''./''"
  shows "components (base @ CHR ''/'' # key) =
    components base @ List.map_filter body_label (split_on CHR ''/'' key)"
  unfolding components_def labels_below [OF assms] map_filter_append
  by (simp add: List.map_filter_def filter_map comp_def)

lemma strip_below:
  assumes base: "starts_with base ''./''" and key: "plain_parts key"
  shows "starts_with (components (base @ CHR ''/'' # key)) (components base)"
    "strip_prefix_path (base @ CHR ''/'' # key) (base @ ''/'') = Some key"
proof -
  let ?ys = "map (\<lambda>q. (body_label q, q)) (split_on CHR ''/'' key)"
  show below: "starts_with (components (base @ CHR ''/'' # key)) (components base)"
    by (simp add: components_below [OF base])
  have dir: "components (base @ ''/'') = components base"
    using components_below [OF base, of "[]"] by (simp add: List.map_filter_def body_label_def)
  obtain zs where zs: "\<forall>z \<in> set zs. fst z = None"
    "skip_components (length (List.map_filter fst (path_labels base))) (path_labels base @ ?ys) = zs @ ?ys"
    using skip_all by blast
  have "\<forall>y \<in> set ?ys. fst y \<noteq> None" using key by (auto simp: body_label_def)
  with zs have "trim_labels (skip_components (length (components base)) (path_labels (base @ CHR ''/'' # key))) = ?ys"
    unfolding labels_below [OF base] components_def by (simp add: trim_leading)
  then show "strip_prefix_path (base @ CHR ''/'' # key) (base @ ''/'') = Some key"
    using below by (simp add: strip_prefix_path_def dir comp_def)
qed

lemma starts_with_trans: "starts_with xs ys \<Longrightarrow> starts_with (xs @ zs) ys"
  by (induction xs ys rule: starts_with.induct) auto

lemma locator_reads_back:
  assumes "starts_with base ''./''" and "locator_ok l"
  shows "to_locator base (to_path base l) = Inr l"
proof -
  have "starts_with (to_path base l) ''./''"
    unfolding to_path_key using assms(1) by (rule starts_with_trans)
  then show ?thesis
    using strip_below [OF assms(1) key_plain, of l] key_locator_key [OF assms(2)]
    by (simp add: to_locator_def to_path_key Let_def)
qed

text \<open>
  C38. Below a base directory that is given relative to the current one, every locator is read
  back from its path; so different locators have different files.
\<close>

theorem locator_roundtrip:
  assumes "starts_with base ''./''" and "locator_ok l"
  shows "to_locator base (to_path base l) = Inr l"
  using assms by (rule locator_reads_back)

theorem locator_roundtrip_witness:
  "to_locator ''./transcript'' ''./transcript/round_1/chunk_0/contribution_2.verified'' =
     Inr (ContributionFile (contribution_locator 1 0 2 True))"
proof -
  have path: "to_path ''./transcript'' (ContributionFile (contribution_locator 1 0 2 True)) =
      ''./transcript/round_1/chunk_0/contribution_2.verified''" by code_simp
  have "locator_ok (ContributionFile (contribution_locator 1 0 2 True))"
    by (simp add: locator_ok_def contribution_locator_def)
  then show ?thesis using locator_roundtrip [of "''./transcript''", unfolded path [symmetric]]
    unfolding path [symmetric] by (intro locator_roundtrip) simp_all
qed

section \<open>Different locators have different files\<close>

lemma show_u64_inj: "show_u64 a = show_u64 b \<Longrightarrow> a = b"
proof (induction a arbitrary: b rule: show_u64.induct)
  case (1 a)
  have last: "last (show_u64 n) = digit_char (n mod 10)" for n
    by (subst show_u64.simps) auto
  have butlast: "butlast (show_u64 n) = (if n < 10 then [] else show_u64 (n div 10))" for n
    by (subst show_u64.simps) auto
  from "1.prems" have "digit_val (digit_char (a mod 10)) = digit_val (digit_char (b mod 10))"
    using last by metis
  then have mods: "a mod 10 = b mod 10" by simp
  from "1.prems" butlast [of a] butlast [of b]
  have "(if a < 10 then [] else show_u64 (a div 10)) = (if b < 10 then [] else show_u64 (b div 10))" by simp
  with "1.IH" [of "b div 10"] have "a div 10 = b div 10"
    using show_u64_nonempty [of "a div 10"] show_u64_nonempty [of "b div 10"] by (auto split: if_splits)
  with mods show ?case by (metis div_mult_mod_eq)
qed

lemma split_eq:
  fixes sep :: char
  assumes "sep \<notin> set a" "sep \<notin> set b" "a @ sep # e = b @ sep # e'"
  shows "a = b" "e = e'"
proof -
  have "[a, e] = [b, e']"
    using splitn2_append [OF assms(1), of e] splitn2_append [OF assms(2), of e'] unfolding assms(3)
    by (rule trans [OF sym])
  then show "a = b" "e = e'" by simp_all
qed

lemma key_parts:
  "split_on CHR ''/'' (locator_key CoordinatorStateFile) = [''coordinator.json'']"
  "split_on CHR ''/'' (locator_key RoundHeightFile) = [''round_height'']"
  "split_on CHR ''/'' (locator_key (RoundState h)) = [''round_'' @ show_u64 h, ''state.json'']"
  "split_on CHR ''/'' (locator_key (RoundFile h)) =
     [''round_'' @ show_u64 h, ''round_'' @ show_u64 h @ ''.verified'']"
  "split_on CHR ''/'' (locator_key (ContributionFile l)) =
     [''round_'' @ show_u64 (cl_round_height l), ''chunk_'' @ show_u64 (cl_chunk_id l),
      (''contribution_'' @ show_u64 (cl_contribution_id l)) @
        CHR ''.'' # (if cl_is_verified l then ''verified'' else ''unverified'')]"
  "split_on CHR ''/'' (locator_key (ContributionFileSignatureFile s)) =
     [''round_'' @ show_u64 (sl_round_height s), ''chunk_'' @ show_u64 (sl_chunk_id s),
      (''contribution_'' @ show_u64 (sl_contribution_id s)) @
        CHR ''.'' # (if sl_is_verified s then ''verified.signature'' else ''unverified.signature'')]"
proof -
  have "split_on CHR ''/'' xs = [xs]" if "CHR ''/'' \<notin> set xs" for xs using that by (rule split_on_id)
  then show "split_on CHR ''/'' (locator_key CoordinatorStateFile) = [''coordinator.json'']"
    "split_on CHR ''/'' (locator_key RoundHeightFile) = [''round_height'']"
    "split_on CHR ''/'' (locator_key (RoundState h)) = [''round_'' @ show_u64 h, ''state.json'']"
    "split_on CHR ''/'' (locator_key (RoundFile h)) =
       [''round_'' @ show_u64 h, ''round_'' @ show_u64 h @ ''.verified'']"
    "split_on CHR ''/'' (locator_key (ContributionFile l)) =
       [''round_'' @ show_u64 (cl_round_height l), ''chunk_'' @ show_u64 (cl_chunk_id l),
        (''contribution_'' @ show_u64 (cl_contribution_id l)) @
          CHR ''.'' # (if cl_is_verified l then ''verified'' else ''unverified'')]"
    "split_on CHR ''/'' (locator_key (ContributionFileSignatureFile s)) =
       [''round_'' @ show_u64 (sl_round_height s), ''chunk_'' @ show_u64 (sl_chunk_id s),
        (''contribution_'' @ show_u64 (sl_contribution_id s)) @
          CHR ''.'' # (if sl_is_verified s then ''verified.signature'' else ''unverified.signature'')]"
    by (simp_all only: locator_key.simps split_on_join) simp_all
qed

lemma contribution_name_inj:
  assumes "(''contribution_'' @ show_u64 i) @ CHR ''.'' # e = (''contribution_'' @ show_u64 j) @ CHR ''.'' # e'"
  shows "i = j \<and> e = e'"
proof -
  have dots: "CHR ''.'' \<notin> set (''contribution_'' @ show_u64 k)" for k by simp
  note eq = split_eq [OF dots dots assms]
  from eq(1) have "show_u64 i = show_u64 j" by simp
  with eq(2) show ?thesis using show_u64_inj by blast
qed

lemma locator_key_inj: "locator_key l = locator_key l' \<Longrightarrow> l = l'"
proof -
  assume "locator_key l = locator_key l'"
  then have "split_on CHR ''/'' (locator_key l) = split_on CHR ''/'' (locator_key l')" by simp
  then show ?thesis
    by (cases l; cases l'; simp only: key_parts list.inject)
      (auto simp del: append_assoc dest!: contribution_name_inj show_u64_inj split: if_splits)
qed

lemma to_path_inj: "to_path base l = to_path base l' \<longleftrightarrow> l = l'"
  unfolding to_path_key using locator_key_inj by auto

end
