(* ===== verification/Phase1_Parameters.thy ===== *)
theory Phase1_Parameters
  imports Environments
begin

text \<open>
  \<^verbatim>\<open>phase1/src/objects/parameters.rs\<close> and the size macros of
  \<^verbatim>\<open>phase1-coordinator/src/macros.rs\<close>: how many group elements each chunk holds, and how
  many bytes its files have. The sizes of the group elements are constants of the curve crate
  and enter as an argument. A subtraction of \<^verbatim>\<open>usize\<close> that would go below zero wraps around,
  as in a release build.
\<close>

type_synonym bytes = "u8 list"

record CurveParameters =
  g1_size :: usize
  g2_size :: usize
  g1_compressed_size :: usize
  g2_compressed_size :: usize

record Phase1Parameters =
  p1_contribution_mode :: ContributionMode
  chunk_index :: usize
  p1_chunk_size :: usize
  p1_curve :: CurveParameters
  p1_proving_system :: ProvingSystem
  g1_chunk_size :: usize
  other_chunk_size :: usize
  powers_g1_length :: usize
  powers_length :: usize
  total_size_in_log2 :: usize
  p1_batch_size :: usize
  public_key_size :: usize
  accumulator_size :: usize
  contribution_size :: usize
  hash_size :: usize

definition usize_sub :: "usize \<Rightarrow> usize \<Rightarrow> usize" where
  "usize_sub a b = (if b \<le> a then a - b else 2 ^ 64 + a - b)"

definition chunk_sizes ::
  "ContributionMode \<Rightarrow> usize \<Rightarrow> usize \<Rightarrow> ProvingSystem \<Rightarrow> usize \<Rightarrow> usize \<times> usize" where
  "chunk_sizes mode index sz system log2 =
     (let powers = 2 ^ log2;
          powers_g1 = powers * 2 - 1;
          upper_bound = (case system of Groth16 \<Rightarrow> powers_g1 | Marlin \<Rightarrow> powers);
          (start, end') = (case mode of
             Chunked \<Rightarrow> (index * sz, (index + 1) * sz)
           | ModeFull \<Rightarrow> (0, upper_bound));
          g1 = (if upper_bound < end' then usize_sub upper_bound start else usize_sub end' start);
          other = (case system of
             Groth16 \<Rightarrow>
               if powers < end' \<and> powers \<le> start then 0
               else if powers < end' then usize_sub powers start
               else usize_sub end' start
           | Marlin \<Rightarrow> 0)
      in (g1, other))"

definition parameters_new ::
  "ContributionMode \<Rightarrow> usize \<Rightarrow> usize \<Rightarrow> CurveParameters \<Rightarrow> ProvingSystem \<Rightarrow> usize \<Rightarrow> usize \<Rightarrow>
   Phase1Parameters" where
  "parameters_new mode index sz c system log2 batch =
     (let hash = 64;
          (g1, other) = chunk_sizes mode index sz system log2;
          accumulator = (case system of
             Groth16 \<Rightarrow> g1 * g1_size c + other * (g2_size c + g1_size c * 2) + g2_size c + hash
           | Marlin \<Rightarrow> g1 * g1_size c +
               (if index = 0
                then 3 * g1_size c + 3 * log2 * g1_size c + (log2 + 2) * g2_size c else 0) + hash);
          public_key = 3 * g2_compressed_size c + 6 * g1_compressed_size c;
          contribution = (case system of
             Groth16 \<Rightarrow> g1 * g1_compressed_size c +
               other * (g2_compressed_size c + g1_compressed_size c * 2) +
               g2_compressed_size c + hash + public_key
           | Marlin \<Rightarrow> g1 * g1_compressed_size c +
               (if index = 0
                then 3 * g1_compressed_size c + 3 * log2 * g1_compressed_size c +
                  (log2 + 2) * g2_compressed_size c else 0) + hash + public_key);
          powers = 2 ^ log2
      in \<lparr>p1_contribution_mode = mode, chunk_index = index, p1_chunk_size = sz, p1_curve = c,
          p1_proving_system = system, g1_chunk_size = g1, other_chunk_size = other,
          powers_g1_length = powers * 2 - 1, powers_length = powers, total_size_in_log2 = log2,
          p1_batch_size = batch, public_key_size = public_key, accumulator_size = accumulator,
          contribution_size = contribution, hash_size = hash\<rparr>)"

definition new_full :: "CurveParameters \<Rightarrow> ProvingSystem \<Rightarrow> usize \<Rightarrow> usize \<Rightarrow> Phase1Parameters" where
  "new_full c system log2 batch = parameters_new ModeFull 0 0 c system log2 batch"

definition new_chunk ::
  "CurveParameters \<Rightarrow> ContributionMode \<Rightarrow> usize \<Rightarrow> usize \<Rightarrow> ProvingSystem \<Rightarrow> usize \<Rightarrow> usize \<Rightarrow>
   Phase1Parameters" where
  "new_chunk c mode index sz system log2 batch = parameters_new mode index sz c system log2 batch"

definition into_chunk_parameters ::
  "Phase1Parameters \<Rightarrow> ContributionMode \<Rightarrow> usize \<Rightarrow> usize \<Rightarrow> Phase1Parameters" where
  "into_chunk_parameters self mode index sz =
     parameters_new mode index sz (p1_curve self) (p1_proving_system self)
       (total_size_in_log2 self) (p1_batch_size self)"

definition get_length :: "Phase1Parameters \<Rightarrow> UseCompression \<Rightarrow> usize" where
  "get_length self compressed =
     (case compressed of
        Yes \<Rightarrow> usize_sub (contribution_size self) (public_key_size self)
      | No \<Rightarrow> accumulator_size self)"

section \<open>The size macros\<close>

definition phase1_chunked_parameters :: "CurveParameters \<Rightarrow> Settings \<Rightarrow> u64 \<Rightarrow> Phase1Parameters" where
  "phase1_chunked_parameters c settings i =
     new_chunk c (contribution_mode settings) i (chunk_size settings) (proving_system settings)
       (power settings) (batch_size settings)"

definition phase1_full_parameters :: "CurveParameters \<Rightarrow> Settings \<Rightarrow> Phase1Parameters" where
  "phase1_full_parameters c settings =
     new_full c (proving_system settings) (power settings) (batch_size settings)"

definition unverified_contribution_size ::
  "CurveParameters \<Rightarrow> Settings \<Rightarrow> u64 \<Rightarrow> UseCompression \<Rightarrow> u64" where
  "unverified_contribution_size c settings i compressed =
     (let ps = phase1_chunked_parameters c settings i in
      case compressed of
        Yes \<Rightarrow> contribution_size ps
      | No \<Rightarrow> accumulator_size ps + public_key_size ps)"

definition verified_contribution_size ::
  "CurveParameters \<Rightarrow> Settings \<Rightarrow> u64 \<Rightarrow> UseCompression \<Rightarrow> u64" where
  "verified_contribution_size c settings i compressed =
     (let ps = phase1_chunked_parameters c settings i in
      case compressed of
        Yes \<Rightarrow> usize_sub (contribution_size ps) (public_key_size ps)
      | No \<Rightarrow> accumulator_size ps)"

definition round_filesize :: "CurveParameters \<Rightarrow> Settings \<Rightarrow> UseCompression \<Rightarrow> u64" where
  "round_filesize c settings compressed = get_length (phase1_full_parameters c settings) compressed"

section \<open>The elements of a chunk\<close>

lemma usize_sub_le [simp]: "b \<le> a \<Longrightarrow> usize_sub a b = a - b"
  by (simp add: usize_sub_def)

text \<open>In a chunk that starts within the powers no subtraction wraps around.\<close>

lemma chunk_sizes_chunked:
  assumes "i * s \<le> total_size_in_g1 system log2"
  shows "chunk_sizes Chunked i s system log2 =
    (min s (total_size_in_g1 system log2 - i * s),
     case system of Groth16 \<Rightarrow> min s (2 ^ log2 - i * s) | Marlin \<Rightarrow> 0)"
proof (cases system)
  case Groth16
  with assms show ?thesis
    by (auto simp: chunk_sizes_def Let_def min_def)
next
  case Marlin
  with assms show ?thesis
    by (auto simp: chunk_sizes_def Let_def min_def)
qed

lemma sum_of_chunks: "(\<Sum>i<m. min s (t - i * s)) = min (m * s) (t :: nat)"
proof (induction m)
  case (Suc m)
  show ?case
  proof (cases "m * s \<le> t")
    case True
    then have "s \<le> t - m * s \<longleftrightarrow> s + m * s \<le> t" by linarith
    with True Suc show ?thesis by (simp add: min_def)
  next
    case False
    with Suc show ?thesis by (simp add: min_def)
  qed
qed simp

lemma chunk_start_below:
  assumes "0 < chunk_size (parameters e)" "i < number_of_chunks e"
  shows "i * chunk_size (parameters e) <
    total_size_in_g1 (proving_system (parameters e)) (power (parameters e))"
proof -
  have "i * chunk_size (parameters e) \<le> (number_of_chunks e - 1) * chunk_size (parameters e)"
    using assms(2) by (intro mult_le_mono1) simp
  moreover have "(number_of_chunks e - 1) * chunk_size (parameters e) <
      total_size_in_g1 (proving_system (parameters e)) (power (parameters e))"
    using ceiling_division(1) [OF assms(1) total_size_pos] by (simp add: number_of_chunks_def)
  ultimately show ?thesis by (rule le_less_trans)
qed

lemma chunk_elements:
  fixes c :: CurveParameters
  assumes "0 < chunk_size (parameters e)" "i < number_of_chunks e"
    and "contribution_mode (parameters e) = Chunked"
  defines "ps \<equiv> phase1_chunked_parameters c (parameters e) i"
    and "st \<equiv> parameters e"
  shows "g1_chunk_size ps = min (chunk_size st)
      (total_size_in_g1 (proving_system st) (power st) - i * chunk_size st)"
    "other_chunk_size ps =
      (case proving_system st of Groth16 \<Rightarrow> min (chunk_size st) (2 ^ power st - i * chunk_size st) | Marlin \<Rightarrow> 0)"
proof -
  have "chunk_sizes Chunked i (chunk_size st) (proving_system st) (power st) =
     (min (chunk_size st) (total_size_in_g1 (proving_system st) (power st) - i * chunk_size st),
      case proving_system st of Groth16 \<Rightarrow> min (chunk_size st) (2 ^ power st - i * chunk_size st) | Marlin \<Rightarrow> 0)"
    unfolding st_def by (rule chunk_sizes_chunked) (use chunk_start_below [OF assms(1,2)] in simp)
  then show "g1_chunk_size ps = min (chunk_size st)
      (total_size_in_g1 (proving_system st) (power st) - i * chunk_size st)"
    "other_chunk_size ps =
      (case proving_system st of Groth16 \<Rightarrow> min (chunk_size st) (2 ^ power st - i * chunk_size st) | Marlin \<Rightarrow> 0)"
    using assms(3)
    by (simp_all add: ps_def st_def phase1_chunked_parameters_def new_chunk_def parameters_new_def Let_def)
qed

text \<open>Every file of a contribution starts with a hash of 64 bytes.\<close>

lemma parameters_new_sizes:
  "64 \<le> accumulator_size (parameters_new mode i s c system log2 batch)"
  "64 + public_key_size (parameters_new mode i s c system log2 batch) \<le>
     contribution_size (parameters_new mode i s c system log2 batch)"
  by (cases system; simp add: parameters_new_def Let_def split: prod.splits)+

lemma contribution_sizes_at_least_hash:
  "64 \<le> verified_contribution_size c st i compressed"
  "64 \<le> unverified_contribution_size c st i compressed"
proof -
  let ?p = "phase1_chunked_parameters c st i"
  have "64 \<le> accumulator_size ?p" "64 + public_key_size ?p \<le> contribution_size ?p"
    unfolding phase1_chunked_parameters_def new_chunk_def by (rule parameters_new_sizes)+
  then show "64 \<le> verified_contribution_size c st i compressed"
    "64 \<le> unverified_contribution_size c st i compressed"
    by (cases compressed; simp add: verified_contribution_size_def unverified_contribution_size_def Let_def)+
qed

text \<open>
  C39. The chunks of a ceremony tile the powers of tau: every chunk holds at least one and at
  most \<^verbatim>\<open>chunk_size\<close> elements of G1, the chunks together hold exactly all powers in G1, and
  with Groth16 exactly all powers of the other kinds.
\<close>

theorem chunks_tile_powers:
  assumes "0 < chunk_size (parameters e)" and "contribution_mode (parameters e) = Chunked"
  shows "(\<Sum>i<number_of_chunks e. g1_chunk_size (phase1_chunked_parameters c (parameters e) i)) =
      total_size_in_g1 (proving_system (parameters e)) (power (parameters e)) \<and>
    (\<Sum>i<number_of_chunks e. other_chunk_size (phase1_chunked_parameters c (parameters e) i)) =
      (case proving_system (parameters e) of Groth16 \<Rightarrow> 2 ^ power (parameters e) | Marlin \<Rightarrow> 0) \<and>
    (\<forall>i. i < number_of_chunks e \<longrightarrow>
      0 < g1_chunk_size (phase1_chunked_parameters c (parameters e) i) \<and>
      g1_chunk_size (phase1_chunked_parameters c (parameters e) i) \<le> chunk_size (parameters e))"
proof -
  let ?st = "parameters e" and ?n = "number_of_chunks e"
  let ?t = "total_size_in_g1 (proving_system ?st) (power ?st)"
  note el = chunk_elements [OF assms(1) _ assms(2), of _ c]
  have cover: "?t \<le> ?n * chunk_size ?st"
    using ceiling_division(2) [OF assms(1) total_size_pos] by (simp add: number_of_chunks_def)
  have "(\<Sum>i<?n. g1_chunk_size (phase1_chunked_parameters c ?st i)) = (\<Sum>i<?n. min (chunk_size ?st) (?t - i * chunk_size ?st))"
    by (intro sum.cong refl el(1)) simp
  also have "\<dots> = ?t" unfolding sum_of_chunks using cover by simp
  finally have g1: "(\<Sum>i<?n. g1_chunk_size (phase1_chunked_parameters c ?st i)) = ?t" .
  have "(\<Sum>i<?n. other_chunk_size (phase1_chunked_parameters c ?st i)) =
      (case proving_system ?st of Groth16 \<Rightarrow> 2 ^ power ?st | Marlin \<Rightarrow> 0)"
  proof (cases "proving_system ?st")
    case Groth16
    have "(\<Sum>i<?n. other_chunk_size (phase1_chunked_parameters c ?st i)) =
        (\<Sum>i<?n. min (chunk_size ?st) (2 ^ power ?st - i * chunk_size ?st))"
      by (intro sum.cong refl) (simp add: el(2) Groth16)
    moreover have "2 ^ power ?st \<le> ?t" using Groth16 by simp
    ultimately show ?thesis using cover Groth16 by (simp add: sum_of_chunks)
  next
    case Marlin
    then show ?thesis by (simp add: el(2))
  qed
  moreover have "0 < g1_chunk_size (phase1_chunked_parameters c ?st i)" if "i < ?n" for i
    using assms(1) chunk_start_below [OF assms(1) that] that by (simp add: el(1))
  ultimately show ?thesis using g1 by (simp add: el(1))
qed

theorem chunks_tile_powers_witness:
  "(\<Sum>i<3. g1_chunk_size (phase1_chunked_parameters \<lparr>g1_size = 96, g2_size = 192,
     g1_compressed_size = 48, g2_compressed_size = 96\<rparr> (parameters (the testing_default)) i)) = 511"
proof -
  have "0 < chunk_size (parameters (the testing_default))"
    "contribution_mode (parameters (the testing_default)) = Chunked"
    "total_size_in_g1 (proving_system (parameters (the testing_default))) (power (parameters (the testing_default))) = 511"
    by (simp_all add: preset_defs)
  with chunks_tile_powers [of "the testing_default"] default_values(1) show ?thesis by simp
qed

end
