(* ===== verification/Disk_Storage.thy ===== *)
theory Disk_Storage
  imports Locators Phase1_Parameters
begin

text \<open>
  \<^verbatim>\<open>phase1-coordinator/src/storage/disk.rs\<close>, the part of \<^verbatim>\<open>Disk\<close> that works on files: a
  file system below the base directory, with its directories and the bytes of its files. The
  operations of the file system fail only for the reasons that the code can bring about: a
  missing directory, or mapping an empty file.
\<close>

record Disk =
  disk_environment :: Environment
  disk_base :: string
  disk_files :: "(string, bytes) hashmap"
  disk_dirs :: "string hashset"

definition disk_path :: "Disk \<Rightarrow> Locator \<Rightarrow> LocatorPath" where
  "disk_path self l = to_path (disk_base self) l"

definition disk_locator :: "Disk \<Rightarrow> LocatorPath \<Rightarrow> CoordinatorError + Locator" where
  "disk_locator self path = to_locator (disk_base self) path"

text \<open>The file of a locator, and how it is written and deleted.\<close>

definition file_at :: "Disk \<Rightarrow> Locator \<Rightarrow> bytes option" where
  "file_at self l = hm_get (disk_files self) (disk_path self l)"

definition put_file :: "Locator \<Rightarrow> bytes \<Rightarrow> Disk \<Rightarrow> Disk" where
  "put_file l content self = self\<lparr>disk_files := hm_insert (disk_path self l) content (disk_files self)\<rparr>"

definition delete_file :: "Locator \<Rightarrow> Disk \<Rightarrow> Disk" where
  "delete_file l self = self\<lparr>disk_files := hm_remove (disk_path self l) (disk_files self)\<rparr>"

definition change_file :: "Locator \<Rightarrow> (bytes \<Rightarrow> bytes) \<Rightarrow> Disk \<Rightarrow> Disk" where
  "change_file l f self = self\<lparr>disk_files := hm_modify (disk_path self l) f (disk_files self)\<rparr>"

section \<open>Sizes of files\<close>

type_synonym curve_sizes = "CurveKind \<Rightarrow> CurveParameters"

definition round_file_size :: "curve_sizes \<Rightarrow> Environment \<Rightarrow> u64" where
  "round_file_size sizes environment =
     (let settings = parameters environment
      in round_filesize (sizes (curve settings)) settings (compressed_inputs environment))"

definition contribution_file_size :: "curve_sizes \<Rightarrow> Environment \<Rightarrow> u64 \<Rightarrow> bool \<Rightarrow> u64" where
  "contribution_file_size sizes environment i verified_file =
     (let settings = parameters environment;
          compressed = (if verified_file then compressed_inputs environment else compressed_outputs environment)
      in if verified_file then verified_contribution_size (sizes (curve settings)) settings i compressed
         else unverified_contribution_size (sizes (curve settings)) settings i compressed)"

definition contribution_file_signature_size :: "bool \<Rightarrow> u64" where
  "contribution_file_signature_size verified_file = (if verified_file then 628 else 471)"

section \<open>Operations\<close>

definition disk_exists :: "Disk \<Rightarrow> Locator \<Rightarrow> bool" where
  "disk_exists self l = (file_at self l \<noteq> None)"

definition chunk_directory_init :: "Disk \<Rightarrow> u64 \<Rightarrow> u64 \<Rightarrow> Disk" where
  "chunk_directory_init self h c =
     self\<lparr>disk_dirs := List.insert (chunk_directory (disk_base self) h c)
       (List.insert (round_directory (disk_base self) h) (disk_dirs self))\<rparr>"

text \<open>The directory in which the file of a locator lies.\<close>

fun parent_directory :: "string \<Rightarrow> Locator \<Rightarrow> string" where
  "parent_directory base CoordinatorStateFile = base"
| "parent_directory base RoundHeightFile = base"
| "parent_directory base (RoundState h) = round_directory base h"
| "parent_directory base (RoundFile h) = round_directory base h"
| "parent_directory base (ContributionFile l) = chunk_directory base (cl_round_height l) (cl_chunk_id l)"
| "parent_directory base (ContributionFileSignatureFile l) =
     chunk_directory base (sl_round_height l) (sl_chunk_id l)"

definition disk_initialize :: "Disk \<Rightarrow> Locator \<Rightarrow> u64 \<Rightarrow> (unit, Disk) fallible" where
  "disk_initialize self l file_size =
     (if disk_exists self l then (Inl StorageLocatorAlreadyExists, self)
      else
        (let self1 = (case l of
               ContributionFile k \<Rightarrow> chunk_directory_init self (cl_round_height k) (cl_chunk_id k)
             | _ \<Rightarrow> self)
         in if parent_directory (disk_base self1) l \<notin> set (disk_dirs self1) then (Inl IOError, self1)
            else (Inr (), put_file l (replicate file_size 0) self1)))"

definition disk_remove :: "Disk \<Rightarrow> Locator \<Rightarrow> (unit, Disk) fallible" where
  "disk_remove self l =
     (if \<not> disk_exists self l then (Inl StorageLocatorMissing, self)
      else (Inr (), delete_file l self))"

text \<open>\<^verbatim>\<open>if storage.exists(&l) { storage.remove(&l)?; }\<close>\<close>

definition remove_if_exists :: "Disk \<Rightarrow> Locator \<Rightarrow> (unit, Disk) fallible" where
  "remove_if_exists self l = (if disk_exists self l then disk_remove self l else (Inr (), self))"

definition disk_size :: "Disk \<Rightarrow> Locator \<Rightarrow> CoordinatorError + u64" where
  "disk_size self l =
     (case file_at self l of None \<Rightarrow> Inl StorageLocatorMissing | Some content \<Rightarrow> Inr (length content))"

text \<open>The check of the size of a round file and of a contribution file when it is opened.\<close>

definition check_size :: "curve_sizes \<Rightarrow> Disk \<Rightarrow> Locator \<Rightarrow> bytes \<Rightarrow> CoordinatorError + bytes" where
  "check_size sizes self l content =
     (case l of
        RoundFile _ \<Rightarrow>
          if length content \<noteq> round_file_size sizes (disk_environment self)
          then Inl RoundFileSizeMismatch else Inr content
      | ContributionFile k \<Rightarrow>
          if length content \<noteq>
             contribution_file_size sizes (disk_environment self) (cl_chunk_id k) (cl_is_verified k)
          then Inl ContributionFileSizeMismatch else Inr content
      | _ \<Rightarrow> Inr content)"

definition disk_reader :: "curve_sizes \<Rightarrow> Disk \<Rightarrow> Locator \<Rightarrow> CoordinatorError + bytes" where
  "disk_reader sizes self l =
     (case file_at self l of
        None \<Rightarrow> Inl StorageLocatorMissing
      | Some content \<Rightarrow> check_size sizes self l content)"

text \<open>
  A writer maps the file into memory, which fails for an empty file; what is written to the
  map is the new content of the file.
\<close>

definition disk_writer :: "curve_sizes \<Rightarrow> Disk \<Rightarrow> Locator \<Rightarrow> CoordinatorError + bytes" where
  "disk_writer sizes self l =
     (case file_at self l of
        None \<Rightarrow> Inl StorageLocatorMissing
      | Some content \<Rightarrow> if content = [] then Inl IOError else check_size sizes self l content)"

section \<open>Clearing the files of a round\<close>

fun contains_str :: "string \<Rightarrow> string \<Rightarrow> bool" where
  "contains_str [] pat = (pat = [])"
| "contains_str (c # cs) pat = (starts_with (c # cs) pat \<or> contains_str cs pat)"

definition clear_file :: "bool \<Rightarrow> string \<Rightarrow> Disk \<Rightarrow> Disk" where
  "clear_file delete_initial_contribution file_path self =
     (if \<not> delete_initial_contribution \<and> contains_str file_path ''contribution_0'' \<or>
         contains_str file_path ''state.json''
      then self
      else
        (case disk_locator self file_path of
           Inl _ \<Rightarrow> self
         | Inr l \<Rightarrow> snd (disk_remove self l)))"

text \<open>The recursion into the directories visits all files below, in some order.\<close>

definition clear_dir_files :: "Disk \<Rightarrow> string \<Rightarrow> bool \<Rightarrow> Disk" where
  "clear_dir_files self path delete_initial_contribution =
     fold (clear_file delete_initial_contribution)
       (filter (\<lambda>p. starts_with p (path @ ''/'')) (hm_keys (disk_files self))) self"

definition clear_round_files :: "Disk \<Rightarrow> u64 \<Rightarrow> Disk" where
  "clear_round_files self h =
     clear_dir_files (clear_dir_files self (round_directory (disk_base self) (h + 1)) True)
       (round_directory (disk_base self) h) False"

section \<open>The files of the locators\<close>

text \<open>By the injectivity of the paths the files are a store that is keyed by locators.\<close>

interpretation disk: keyed_store file_at put_file delete_file change_file "\<lambda>d. hm_wf (disk_files d)"
proof unfold_locales
  fix l v m k
  show "file_at (put_file l v m) = (file_at m)(l \<mapsto> v)"
    by (simp add: fun_eq_iff file_at_def put_file_def disk_path_def update_conv' to_path_inj)
  show "file_at (delete_file l m) = (file_at m)(l := None)"
    by (simp add: fun_eq_iff file_at_def delete_file_def disk_path_def delete_conv' to_path_inj)
  show "file_at (change_file l k m) = (file_at m)(l := map_option k (file_at m l))"
    by (auto simp: fun_eq_iff file_at_def change_file_def disk_path_def map_of_map_entry to_path_inj split: option.splits)
qed (simp_all add: put_file_def delete_file_def change_file_def distinct_update distinct_delete distinct_map_entry)

lemma disk_frames [simp]:
  "disk_environment (put_file l v d) = disk_environment d" "disk_base (put_file l v d) = disk_base d"
  "disk_dirs (put_file l v d) = disk_dirs d"
  "disk_environment (delete_file l d) = disk_environment d" "disk_base (delete_file l d) = disk_base d"
  "disk_dirs (delete_file l d) = disk_dirs d"
  "disk_environment (chunk_directory_init d h c) = disk_environment d"
  "disk_base (chunk_directory_init d h c) = disk_base d"
  "disk_files (chunk_directory_init d h c) = disk_files d"
  by (simp_all add: put_file_def delete_file_def chunk_directory_init_def)

lemma file_at_dirs [simp]: "file_at (chunk_directory_init d h c) l = file_at d l"
  by (simp add: file_at_def disk_path_def)

lemma disk_exists_iff: "disk_exists d l \<longleftrightarrow> (\<exists>content. file_at d l = Some content)"
  by (auto simp: disk_exists_def)

lemma disk_exists_put [simp]: "disk_exists (put_file l v d) k \<longleftrightarrow> k = l \<or> disk_exists d k"
  by (auto simp: disk_exists_def disk.get_ins)

lemma disk_exists_delete [simp]: "disk_exists (delete_file l d) k \<longleftrightarrow> k \<noteq> l \<and> disk_exists d k"
  by (auto simp: disk_exists_def disk.get_rem)

text \<open>What a change of the storage may touch: the given files, and new directories.\<close>

definition touches :: "Locator set \<Rightarrow> Disk \<Rightarrow> Disk \<Rightarrow> bool" where
  "touches L d d' \<longleftrightarrow>
     disk_environment d' = disk_environment d \<and> disk_base d' = disk_base d \<and>
     set (disk_dirs d) \<subseteq> set (disk_dirs d') \<and> (\<forall>l. l \<notin> L \<longrightarrow> file_at d' l = file_at d l)"

lemma touches_refl [simp]: "touches L d d"
  by (simp add: touches_def)

lemma touches_trans: "touches L d d' \<Longrightarrow> touches L d' d'' \<Longrightarrow> touches L d d''"
  by (auto simp: touches_def)

lemma touches_mono: "touches L d d' \<Longrightarrow> L \<subseteq> L' \<Longrightarrow> touches L' d d'"
  by (auto simp: touches_def)

lemma touches_file: "touches L d d' \<Longrightarrow> l \<notin> L \<Longrightarrow> file_at d' l = file_at d l"
  by (simp add: touches_def)

lemma touches_put: "touches {l} d (put_file l v d)"
  by (simp add: touches_def disk.get_ins)

lemma touches_delete: "touches {l} d (delete_file l d)"
  by (simp add: touches_def disk.get_rem)

lemma disk_initialize_cases:
  obtains (exists) "disk_exists d l" "disk_initialize d l n = (Inl StorageLocatorAlreadyExists, d)"
    | (no_dir) "\<not> disk_exists d l" "parent_directory (disk_base d) l \<notin> set (disk_dirs d)"
        "\<forall>k. l \<noteq> ContributionFile k" "disk_initialize d l n = (Inl IOError, d)"
    | (ok) d1 where "\<not> disk_exists d l" "disk_initialize d l n = (Inr (), put_file l (replicate n 0) d1)"
        "touches {} d d1" "parent_directory (disk_base d) l \<in> set (disk_dirs d1)"
proof (cases "disk_exists d l")
  case True
  with exists show ?thesis by (simp add: disk_initialize_def)
next
  case False
  let ?d1 = "(case l of ContributionFile k \<Rightarrow> chunk_directory_init d (cl_round_height k) (cl_chunk_id k) | _ \<Rightarrow> d)"
  have t: "touches {} d ?d1"
    by (auto simp: touches_def chunk_directory_init_def file_at_def disk_path_def split: Locator.splits)
  then have base: "disk_base ?d1 = disk_base d" by (simp add: touches_def)
  show ?thesis
  proof (cases "parent_directory (disk_base d) l \<in> set (disk_dirs ?d1)")
    case True
    with False t base ok show ?thesis by (simp add: disk_initialize_def Let_def)
  next
    case nodir: False
    then have "\<forall>k. l \<noteq> ContributionFile k" by (auto simp: chunk_directory_init_def)
    with nodir False no_dir show ?thesis
      by (cases l) (simp_all add: disk_initialize_def)
  qed
qed

lemma disk_initialize_touches:
  assumes "disk_initialize d l n = (r, d')"
  shows "touches {l} d d'" "r = Inr () \<Longrightarrow> file_at d' l = Some (replicate n 0) \<and> \<not> disk_exists d l"
    "is_ok r \<or> d' = d"
proof -
  show "touches {l} d d'" "r = Inr () \<Longrightarrow> file_at d' l = Some (replicate n 0) \<and> \<not> disk_exists d l"
    "is_ok r \<or> d' = d"
    by (rule disk_initialize_cases [of d l n]; use assms in
      \<open>auto simp: disk.get_ins intro: touches_trans [OF touches_mono touches_put]\<close>)+
qed

lemma disk_initialize_contribution:
  "\<not> disk_exists d (ContributionFile k) \<Longrightarrow> fst (disk_initialize d (ContributionFile k) n) = Inr ()"
  by (rule disk_initialize_cases [of d "ContributionFile k" n]) auto

lemma disk_remove_touches:
  assumes "disk_remove d l = (r, d')"
  shows "touches {l} d d'" "r = Inr () \<Longrightarrow> disk_exists d l \<and> d' = delete_file l d" "is_ok r \<or> d' = d"
  using assms by (auto simp: disk_remove_def touches_delete split: if_splits)

lemma remove_if_exists_ok:
  obtains d' where "remove_if_exists d l = (Inr (), d')" "touches {l} d d'" "\<not> disk_exists d' l"
    "\<And>k. file_at d' k = (if k = l then None else file_at d k)"
proof (cases "disk_exists d l")
  case True
  then show ?thesis
    by (intro that [of "delete_file l d"])
      (auto simp: remove_if_exists_def disk_remove_def disk.get_rem touches_delete)
next
  case False
  then show ?thesis by (intro that [of d]) (auto simp: remove_if_exists_def disk_exists_def)
qed

section \<open>What clearing a round removes\<close>

lemma starts_with_set: "starts_with xs ys \<Longrightarrow> set ys \<subseteq> set xs"
  by (induction xs ys rule: starts_with.induct) auto

lemma contains_set: "contains_str s pat \<Longrightarrow> set pat \<subseteq> set s"
proof (induction s)
  case (Cons c s)
  then show ?case using starts_with_set [of "c # s" pat] by auto
qed simp

lemma starts_with_before: "sep \<notin> set pat \<Longrightarrow> starts_with (xs @ sep # ys) pat \<longleftrightarrow> starts_with xs pat"
proof (induction xs arbitrary: pat)
  case Nil
  then show ?case by (cases pat) auto
next
  case (Cons x xs)
  then show ?case by (cases pat) auto
qed

lemma contains_split:
  assumes "sep \<notin> set pat" "pat \<noteq> []"
  shows "contains_str (xs @ sep # ys) pat \<longleftrightarrow> contains_str xs pat \<or> contains_str ys pat"
proof (induction xs)
  case Nil
  with assms show ?case by (cases pat) auto
next
  case (Cons x xs)
  with assms starts_with_before [of sep pat "x # xs" ys] show ?case by auto
qed

lemma starts_with_prefix [simp]: "starts_with (xs @ ys) (xs @ zs) \<longleftrightarrow> starts_with ys zs"
  by (induction xs) auto

lemma starts_with_directory:
  "sep \<notin> set a \<Longrightarrow> sep \<notin> set b \<Longrightarrow> starts_with (a @ sep # r) (b @ [sep]) \<longleftrightarrow> a = b"
proof (induction a arbitrary: b)
  case Nil
  then show ?case by (cases b) auto
next
  case (Cons x a)
  then show ?case by (cases b) auto
qed

lemma show_u64_digits: "c \<in> set (show_u64 n) \<Longrightarrow> 48 \<le> (of_char c :: nat) \<and> (of_char c :: nat) \<le> 57"
proof (induction n rule: show_u64.induct)
  case (1 n)
  have digit: "48 \<le> (of_char (digit_char d) :: nat) \<and> (of_char (digit_char d) :: nat) \<le> 57" if "d < 10" for d
    using that by (simp add: of_char_digit_char)
  show ?case
  proof (cases "n < 10")
    case True
    with "1.prems" digit [of n] show ?thesis by (subst (asm) show_u64.simps) simp
  next
    case False
    with "1.prems" have "c \<in> set (show_u64 (n div 10)) \<or> c = digit_char (n mod 10)"
      by (subst (asm) show_u64.simps) auto
    with "1.IH" [OF False] digit [of "n mod 10"] show ?thesis by auto
  qed
qed

lemma show_u64_hd_zero: "hd (show_u64 n) = CHR ''0'' \<longleftrightarrow> n = 0"
proof (induction n rule: show_u64.induct)
  case (1 n)
  show ?case
  proof (cases "n < 10")
    case True
    then have "show_u64 n = [digit_char n]" by (subst show_u64.simps) simp
    moreover have "digit_char 0 = CHR ''0''" by code_simp
    then have "digit_char n = CHR ''0'' \<longleftrightarrow> n = 0"
      using digit_val_digit_char [OF True] digit_val_digit_char [of 0]
      by (metis option.inject zero_less_numeral)
    ultimately show ?thesis by simp
  next
    case False
    then have "hd (show_u64 n) = hd (show_u64 (n div 10))"
      using show_u64_nonempty [of "n div 10"] by (subst show_u64.simps) simp
    with False "1.IH" [OF False] show ?thesis by auto
  qed
qed

text \<open>The round in whose directory a locator lies, and the files that clearing a round removes.\<close>

fun locator_height :: "Locator \<Rightarrow> u64 option" where
  "locator_height CoordinatorStateFile = None"
| "locator_height RoundHeightFile = None"
| "locator_height (RoundState h) = Some h"
| "locator_height (RoundFile h) = Some h"
| "locator_height (ContributionFile l) = Some (cl_round_height l)"
| "locator_height (ContributionFileSignatureFile l) = Some (sl_round_height l)"

fun is_initial_contribution :: "Locator \<Rightarrow> bool" where
  "is_initial_contribution (ContributionFile l) = (cl_contribution_id l = 0)"
| "is_initial_contribution (ContributionFileSignatureFile l) = (sl_contribution_id l = 0)"
| "is_initial_contribution _ = False"

fun is_round_state :: "Locator \<Rightarrow> bool" where
  "is_round_state (RoundState _) = True"
| "is_round_state _ = False"

lemma in_round_directory:
  "starts_with (to_path base l) (round_directory base h @ ''/'') \<longleftrightarrow> locator_height l = Some h"
proof -
  have digit: "\<not> starts_with (CHR ''h'' # xs) (show_u64 h @ ys)" for xs ys
  proof -
    obtain d ds where d: "show_u64 h = d # ds" using show_u64_nonempty by (metis neq_Nil_conv)
    then have "d \<noteq> CHR ''h''" using show_u64_digits [of d h] by auto
    with d show ?thesis by simp
  qed
  have dir: "starts_with (show_u64 k @ CHR ''/'' # r) (show_u64 h @ ''/'') \<longleftrightarrow> k = h" for k r
    using starts_with_directory [of "CHR ''/''" "show_u64 k" "show_u64 h" r] show_u64_inj by auto
  show ?thesis
    by (cases l) (simp_all add: to_path_key round_directory_def digit dir)
qed

lemma letters_not_in_numbers [simp]:
  "CHR ''c'' \<notin> set (show_u64 n)" "CHR ''b'' \<notin> set (show_u64 n)" "CHR ''j'' \<notin> set (show_u64 n)"
  using show_u64_digits [of _ n] by force+

lemma contribution_zero_name:
  assumes "CHR ''c'' \<notin> set e"
  shows "contains_str ((''contribution_'' @ show_u64 i) @ CHR ''.'' # e) ''contribution_0'' \<longleftrightarrow> i = 0"
proof -
  let ?tail = "''ontribution_'' @ show_u64 i @ CHR ''.'' # e"
  have "\<not> contains_str ?tail ''contribution_0''"
    using contains_set [of ?tail "''contribution_0''"] assms by auto
  moreover have "starts_with (show_u64 i @ r) ''0'' \<longleftrightarrow> i = 0" for r
    using show_u64_hd_zero [of i] show_u64_nonempty [of i] by (cases "show_u64 i") auto
  ultimately show ?thesis by simp
qed

lemma path_contains:
  assumes "\<not> contains_str base ''contribution_0''" "\<not> contains_str base ''state.json''"
  shows "contains_str (to_path base l) ''contribution_0'' \<longleftrightarrow> is_initial_contribution l"
    "contains_str (to_path base l) ''state.json'' \<longleftrightarrow> is_round_state l"
proof -
  have parts: "\<not> contains_str (''round_'' @ show_u64 k) ''contribution_0''"
    "\<not> contains_str (''chunk_'' @ show_u64 k) ''contribution_0''"
    "\<not> contains_str (''round_'' @ show_u64 k @ ''.verified'') ''contribution_0''" for k
    using contains_set [of "''round_'' @ show_u64 k" "''contribution_0''"]
      contains_set [of "''chunk_'' @ show_u64 k" "''contribution_0''"]
      contains_set [of "''round_'' @ show_u64 k @ ''.verified''" "''contribution_0''"] by auto
  have json: "\<not> contains_str xs ''state.json''" if "CHR ''j'' \<notin> set xs" for xs
    using contains_set [of xs "''state.json''"] that by auto
  have zero: "contains_str ((''contribution_'' @ show_u64 i) @ CHR ''.'' # (if v then ''verified'' else ''unverified''))
      ''contribution_0'' \<longleftrightarrow> i = 0"
    "contains_str ((''contribution_'' @ show_u64 i) @ CHR ''.'' #
      (if v then ''verified.signature'' else ''unverified.signature'')) ''contribution_0'' \<longleftrightarrow> i = 0" for i v
    by (rule contribution_zero_name, simp)+
  note split = contains_split [of "CHR ''/''" "''contribution_0''", simplified]
    contains_split [of "CHR ''/''" "''state.json''", simplified]
  show "contains_str (to_path base l) ''contribution_0'' \<longleftrightarrow> is_initial_contribution l"
    unfolding to_path_key split
    by (cases l; simp only: locator_key.simps split) (simp_all only: zero parts assms, simp_all)
  show "contains_str (to_path base l) ''state.json'' \<longleftrightarrow> is_round_state l"
    unfolding to_path_key split
    by (cases l; simp only: locator_key.simps split) (simp_all add: json assms)
qed

definition disk_wf :: "Disk \<Rightarrow> bool" where
  "disk_wf d \<longleftrightarrow>
     hm_wf (disk_files d) \<and> starts_with (disk_base d) ''./'' \<and>
     (\<forall>p. hm_contains (disk_files d) p \<longrightarrow> (\<exists>l. locator_ok l \<and> p = disk_path d l))"

lemma clear_file_frame [simp]: "disk_base (clear_file flag p d) = disk_base d"
  by (auto simp: clear_file_def disk_remove_def split: sum.splits)

lemma clear_file_at:
  fixes flag :: bool
  assumes "starts_with (disk_base d) ''./''" "locator_ok k" "p = disk_path d k"
  defines "skip \<equiv> \<not> flag \<and> contains_str p ''contribution_0'' \<or> contains_str p ''state.json''"
  shows "file_at (clear_file flag p d) l = (if l = k \<and> \<not> skip then None else file_at d l)"
  using locator_reads_back [OF assms(1,2)]
  by (auto simp: clear_file_def skip_def disk_locator_def assms(3) disk_path_def disk_remove_def
      disk.get_rem disk_exists_def)

lemma clear_files_at:
  assumes "starts_with (disk_base d) ''./''" "\<forall>p \<in> set ps. \<exists>k. locator_ok k \<and> p = disk_path d k"
  shows "file_at (fold (clear_file flag) ps d) l =
    (if disk_path d l \<in> set ps \<and> \<not> (\<not> flag \<and> contains_str (disk_path d l) ''contribution_0'' \<or>
        contains_str (disk_path d l) ''state.json'') then None else file_at d l)"
  using assms
proof (induction ps arbitrary: d)
  case (Cons p ps)
  then obtain k where k: "locator_ok k" "p = disk_path d k" by auto
  have path: "disk_path (clear_file flag p d) = disk_path d" by (simp add: fun_eq_iff disk_path_def)
  have "file_at (fold (clear_file flag) ps (clear_file flag p d)) l =
    (if disk_path d l \<in> set ps \<and> \<not> (\<not> flag \<and> contains_str (disk_path d l) ''contribution_0'' \<or>
        contains_str (disk_path d l) ''state.json'') then None else file_at (clear_file flag p d) l)"
    using Cons.IH [of "clear_file flag p d"] Cons.prems by (simp add: path)
  moreover have "disk_path d l = p \<longleftrightarrow> l = k" by (simp add: k(2) disk_path_def to_path_inj)
  ultimately show ?case using clear_file_at [OF Cons.prems(1) k, of flag l] by auto
qed simp

text \<open>The files that clearing a round removes: all of the next round, and the contributions of this one.\<close>

definition cleared_by :: "u64 \<Rightarrow> Locator \<Rightarrow> bool" where
  "cleared_by h l \<longleftrightarrow>
     \<not> is_round_state l \<and>
     (locator_height l = Some (h + 1) \<or> locator_height l = Some h \<and> \<not> is_initial_contribution l)"

lemma clear_dir_files_at:
  assumes "disk_wf d" "\<not> contains_str (disk_base d) ''contribution_0''" "\<not> contains_str (disk_base d) ''state.json''"
  shows "file_at (clear_dir_files d (round_directory (disk_base d) h) flag) l =
    (if locator_height l = Some h \<and> \<not> (\<not> flag \<and> is_initial_contribution l \<or> is_round_state l)
     then None else file_at d l)"
proof -
  let ?ps = "filter (\<lambda>p. starts_with p (round_directory (disk_base d) h @ ''/'')) (map fst (disk_files d))"
  have "file_at d l = None" if "disk_path d l \<notin> set (map fst (disk_files d))"
    using that by (simp add: file_at_def map_of_eq_None_iff)
  moreover have "file_at (fold (clear_file flag) ?ps d) l =
    (if disk_path d l \<in> set ?ps \<and> \<not> (\<not> flag \<and> contains_str (disk_path d l) ''contribution_0'' \<or>
        contains_str (disk_path d l) ''state.json'') then None else file_at d l)"
    by (rule clear_files_at) (use assms(1) in \<open>auto simp: disk_wf_def\<close>)
  ultimately show ?thesis
    unfolding clear_dir_files_def disk_path_def path_contains [OF assms(2,3)]
    using in_round_directory [of "disk_base d" l h] by auto
qed

lemma clear_dir_files_wf:
  assumes "disk_wf d"
  shows "disk_wf (clear_dir_files d dir flag) \<and> disk_base (clear_dir_files d dir flag) = disk_base d \<and>
    disk_environment (clear_dir_files d dir flag) = disk_environment d \<and>
    disk_dirs (clear_dir_files d dir flag) = disk_dirs d"
proof -
  have "disk_wf (fold (clear_file flag) ps d) \<and> disk_base (fold (clear_file flag) ps d) = disk_base d \<and>
    disk_environment (fold (clear_file flag) ps d) = disk_environment d \<and>
    disk_dirs (fold (clear_file flag) ps d) = disk_dirs d" if "disk_wf d" for ps d
    using that
  proof (induction ps arbitrary: d)
    case (Cons p ps)
    have "disk_wf (delete_file l d)" for l
      using Cons.prems keys_delete [of "disk_path d l" "disk_files d"]
      by (auto simp: disk_wf_def delete_file_def distinct_delete disk_path_def)
    then have "disk_wf (clear_file flag p d)" "disk_base (clear_file flag p d) = disk_base d"
      "disk_environment (clear_file flag p d) = disk_environment d" "disk_dirs (clear_file flag p d) = disk_dirs d"
      using Cons.prems by (auto simp: clear_file_def disk_remove_def split: sum.splits)
    with Cons.IH [of "clear_file flag p d"] show ?case by simp
  qed simp
  with assms show ?thesis by (simp add: clear_dir_files_def)
qed

lemma clear_round_files_at:
  assumes "disk_wf d" "\<not> contains_str (disk_base d) ''contribution_0''" "\<not> contains_str (disk_base d) ''state.json''"
  shows "file_at (clear_round_files d h) l = (if cleared_by h l then None else file_at d l)"
proof -
  let ?d1 = "clear_dir_files d (round_directory (disk_base d) (h + 1)) True"
  note wf = clear_dir_files_wf [OF assms(1), of "round_directory (disk_base d) (h + 1)" True]
  have "file_at (clear_round_files d h) l =
      (if locator_height l = Some h \<and> \<not> (is_initial_contribution l \<or> is_round_state l) then None else file_at ?d1 l)"
    using clear_dir_files_at [of ?d1 h False l] wf assms(2,3) by (simp add: clear_round_files_def)
  then show ?thesis
    using clear_dir_files_at [OF assms, of "h + 1" True l] by (auto simp: cleared_by_def)
qed

lemma put_file_wf:
  assumes "disk_wf d" "disk_exists d l"
  shows "disk_wf (put_file l v d)"
proof -
  have "hm_contains (disk_files d) (disk_path d l)"
    using assms(2) by (auto simp: disk_exists_def file_at_def dest!: map_of_SomeD intro: rev_image_eqI)
  with assms(1) show ?thesis
    by (auto simp: disk_wf_def put_file_def disk_path_def distinct_update dom_update)
qed

lemma put_new_file_wf: "disk_wf d \<Longrightarrow> locator_ok l \<Longrightarrow> disk_wf (put_file l v d)"
  by (auto simp: disk_wf_def put_file_def disk_path_def distinct_update dom_update)

end
