(* ===== verification/File_Signatures.thy ===== *)
theory File_Signatures
  imports Disk_Storage
begin

text \<open>
  \<^verbatim>\<open>phase1-coordinator/src/objects/contribution_file_signature.rs\<close> and
  \<^verbatim>\<open>phase1-coordinator/src/authentication\<close>: the hashes that a participant signs, the signature
  file, and signature schemes. The crates \<^verbatim>\<open>hex\<close>, \<^verbatim>\<open>blake2\<close> and
  \<^verbatim>\<open>serde_json\<close> are not part of the repository; what the code calls of them is a field of
  \<open>Crypto\<close>, a parameter of the definitions that use it.
\<close>

record ContributionState =
  cs_challenge_hash :: string
  cs_response_hash :: string
  cs_next_challenge_hash :: "string option"

record ContributionFileSignature =
  cfs_signature :: string
  cfs_state :: ContributionState

record Crypto =
  hex_encode :: "bytes \<Rightarrow> string"
  hex_decode :: "string \<Rightarrow> bytes option"
  blake2b :: "bytes \<Rightarrow> bytes"
  state_message :: "ContributionState \<Rightarrow> string"

text \<open>
  \<^verbatim>\<open>setup_utils::calculate_hash\<close> feeds the input to the hasher in pieces of 1 GB, which hashes
  their concatenation.
\<close>

definition calculate_hash :: "Crypto \<Rightarrow> bytes \<Rightarrow> bytes" where
  "calculate_hash crypto input = blake2b crypto input"

definition contribution_state_new ::
  "Crypto \<Rightarrow> bytes \<Rightarrow> bytes \<Rightarrow> bytes option \<Rightarrow> CoordinatorError + ContributionState" where
  "contribution_state_new crypto challenge_hash response_hash next_challenge_hash =
     (if length challenge_hash \<noteq> 64 then Inl ChallengeHashSizeInvalid
      else if length response_hash \<noteq> 64 then Inl ResponseHashSizeInvalid
      else if (case next_challenge_hash of Some h \<Rightarrow> length h \<noteq> 64 | None \<Rightarrow> False)
      then Inl NextChallengeHashSizeInvalid
      else Inr \<lparr>cs_challenge_hash = hex_encode crypto challenge_hash,
                cs_response_hash = hex_encode crypto response_hash,
                cs_next_challenge_hash = map_option (hex_encode crypto) next_challenge_hash\<rparr>)"

definition signature_message :: "Crypto \<Rightarrow> ContributionState \<Rightarrow> string" where
  "signature_message crypto self = state_message crypto self"

definition contribution_file_signature_new ::
  "Crypto \<Rightarrow> string \<Rightarrow> ContributionState \<Rightarrow> CoordinatorError + ContributionFileSignature" where
  "contribution_file_signature_new crypto sig state =
     (case hex_decode crypto sig of
        None \<Rightarrow> Inl Hex
      | Some b \<Rightarrow>
          if length b \<noteq> 64 then Inl ContributionSignatureSizeMismatch
          else Inr \<lparr>cfs_signature = sig, cfs_state = state\<rparr>)"

section \<open>Signature schemes\<close>

text \<open>\<^verbatim>\<open>trait Signature\<close>: a scheme is an argument of the coordinator.\<close>

record Signature =
  is_secure :: bool
  sign :: "string \<Rightarrow> string \<Rightarrow> string option"
  verify :: "string \<Rightarrow> string \<Rightarrow> string \<Rightarrow> bool"

text \<open>\<^verbatim>\<open>message.as_bytes()\<close>\<close>

definition as_bytes :: "string \<Rightarrow> bytes" where
  "as_bytes s = map of_char s"

definition dummy_sign :: "Crypto \<Rightarrow> string \<Rightarrow> string \<Rightarrow> string option" where
  "dummy_sign crypto signing_key message = Some (hex_encode crypto (calculate_hash crypto (as_bytes message)))"

definition dummy_verify :: "Crypto \<Rightarrow> string \<Rightarrow> string \<Rightarrow> string \<Rightarrow> bool" where
  "dummy_verify crypto public_key message sig =
     (sig = hex_encode crypto (calculate_hash crypto (as_bytes message)))"

definition dummy :: "Crypto \<Rightarrow> Signature" where
  "dummy crypto = \<lparr>is_secure = False, sign = dummy_sign crypto, verify = dummy_verify crypto\<rparr>"

section \<open>Signatures and hashes that fit the files\<close>

text \<open>
  What the coordinator requires of the signature file of a contributor and of a verifier: it is
  signed over its state, and the state holds the hashes of the files.
\<close>

definition signed_by :: "Crypto \<Rightarrow> Signature \<Rightarrow> string \<Rightarrow> ContributionFileSignature \<Rightarrow> bool" where
  "signed_by crypto scheme key f \<longleftrightarrow> verify scheme key (signature_message crypto (cfs_state f)) (cfs_signature f)"

definition states_hashes :: "Crypto \<Rightarrow> ContributionFileSignature \<Rightarrow> bytes \<Rightarrow> bytes \<Rightarrow> bool" where
  "states_hashes crypto f challenge response \<longleftrightarrow>
     hex_decode crypto (cs_challenge_hash (cfs_state f)) = Some (calculate_hash crypto challenge) \<and>
     hex_decode crypto (cs_response_hash (cfs_state f)) = Some (calculate_hash crypto response)"

lemma contribution_state_new_states:
  assumes "contribution_state_new crypto h r n = Inr s"
    and "\<And>b. hex_decode crypto (hex_encode crypto b) = Some b"
  shows "hex_decode crypto (cs_challenge_hash s) = Some h" "hex_decode crypto (cs_response_hash s) = Some r"
    "length h = 64" "length r = 64"
    "Option.bind (cs_next_challenge_hash s) (hex_decode crypto) = n"
  using assms by (auto simp: contribution_state_new_def split: if_splits option.splits)

lemma dummy_sign_verify: "sign (dummy crypto) key m = Some sig \<Longrightarrow> verify (dummy crypto) public_key m sig"
  by (simp add: dummy_def dummy_sign_def dummy_verify_def)

end
