(* ===== verification/Rounds.thy ===== *)
theory Rounds
  imports Chunks Disk_Storage
begin

text \<open>
  \<^verbatim>\<open>phase1-coordinator/src/objects/round.rs\<close>: a round with its contributors and chunks. Its
  operations lock chunks and create and remove the files of contributions, so they take the
  storage along; a method on \<open>&mut self\<close> and \<open>&mut storage\<close> returns both.
\<close>

record LockedLocators =
  locked_previous :: ContributionLocator
  locked_current :: ContributionLocator
  locked_next :: ContributionLocator
  locked_next_signature :: ContributionSignatureLocator

record Round =
  r_version :: u64
  r_height :: u64
  r_started_at :: "OffsetDateTime option"
  r_finished_at :: "OffsetDateTime option"
  contributor_ids :: "Participant list"
  verifier_ids :: "Participant list"
  chunks :: "Chunk list"

text \<open>\<^verbatim>\<open>iter.all(|x| uniq.insert(x))\<close>\<close>

fun all_inserted :: "'a hashset \<Rightarrow> 'a list \<Rightarrow> bool" where
  "all_inserted uniq [] = True"
| "all_inserted uniq (x # xs) = (if x \<in> set uniq then False else all_inserted (x # uniq) xs)"

definition has_unique_elements :: "'a list \<Rightarrow> bool" where
  "has_unique_elements xs = all_inserted [] xs"

text \<open>A loop whose body may return early with an error.\<close>

fun for_each :: "('a \<Rightarrow> 's \<Rightarrow> ('e, unit, 's) outcome) \<Rightarrow> 'a list \<Rightarrow> 's \<Rightarrow> ('e, unit, 's) outcome" where
  "for_each body [] s = (Inr (), s)"
| "for_each body (x # xs) s = and_then (body x s) (\<lambda>_ s. for_each body xs s)"

definition round_new ::
  "Environment \<Rightarrow> Disk \<Rightarrow> u64 \<Rightarrow> OffsetDateTime \<Rightarrow> Participant list \<Rightarrow> CoordinatorError + Round" where
  "round_new environment storage h started_at ids =
     (if number_of_chunks environment = 0 then Inl NumberOfChunksInvalid
      else
        (case coordinator_verifiers environment of
           [] \<Rightarrow> Inl VerifierMissing
         | verifier # _ \<Rightarrow>
             if \<not> has_unique_elements ids then Inl RoundContributorsNotUnique
             else
               (let num_contributors = length (filter is_contributor ids) in
                if num_contributors \<noteq> length ids then Inl ExpectedContributor
                else if h \<noteq> 0 \<and> num_contributors = 0 then Inl RoundContributorsMissing
                else
                  result_bind
                    (collect_results
                       (\<lambda>c. chunk_new c verifier
                          (disk_path storage (ContributionFile (contribution_locator h c 0 True)))
                          (disk_path storage (ContributionFileSignatureFile (signature_locator h c 0 True))))
                       [0..<number_of_chunks environment])
                    (\<lambda>cs. Inr \<lparr>r_version = software_version environment, r_height = h,
                               r_started_at = Some started_at, r_finished_at = None,
                               contributor_ids = ids, verifier_ids = [], chunks = cs\<rparr>))))"

definition round_is_contributor :: "Round \<Rightarrow> Participant \<Rightarrow> bool" where
  "round_is_contributor self participant =
     (case participant of
        Contributor _ \<Rightarrow> participant \<in> set (contributor_ids self)
      | Verifier _ \<Rightarrow> False)"

definition round_chunk :: "Round \<Rightarrow> u64 \<Rightarrow> CoordinatorError + Chunk" where
  "round_chunk self c =
     (if c < length (chunks self)
      then (if chunk_chunk_id (chunks self ! c) = c then Inr (chunks self ! c) else Inl ChunkIdMismatch)
      else Inl ChunkMissing)"

definition expected_number_of_contributions :: "Round \<Rightarrow> u64" where
  "expected_number_of_contributions self = length (contributor_ids self) + 1"

definition is_chunk_locked_by :: "Round \<Rightarrow> u64 \<Rightarrow> Participant \<Rightarrow> bool" where
  "is_chunk_locked_by self c participant =
     (case round_chunk self c of Inr chunk \<Rightarrow> is_locked_by chunk participant | Inl _ \<Rightarrow> False)"

definition number_of_locks_held :: "Round \<Rightarrow> Participant \<Rightarrow> CoordinatorError + u64" where
  "number_of_locks_held self participant =
     (case participant of
        Contributor _ \<Rightarrow>
          if \<not> round_is_contributor self participant then Inl UnauthorizedChunkContributor
          else Inr (length (filter (\<lambda>chunk. is_locked_by chunk participant) (chunks self)))
      | Verifier _ \<Rightarrow> Inl ExpectedContributor)"

definition round_is_complete :: "Round \<Rightarrow> bool" where
  "round_is_complete self =
     (if 0 < length (filter is_locked (chunks self)) then False
      else filter (\<lambda>chunk. \<not> chunk_is_complete chunk (expected_number_of_contributions self)) (chunks self) = [])"

section \<open>Locators of contributions\<close>

definition current_contribution_locator ::
  "Round \<Rightarrow> Disk \<Rightarrow> u64 \<Rightarrow> bool \<Rightarrow> CoordinatorError + ContributionLocator" where
  "current_contribution_locator self storage c verified_file =
     result_bind (round_chunk self c) (\<lambda>chunk.
       let i = current_contribution_id chunk;
           locator = contribution_locator (r_height self) c i verified_file
       in if \<not> disk_exists storage (ContributionFile locator) then Inl ContributionLocatorMissing
          else
            result_bind (get_contribution chunk i) (\<lambda>contribution.
              if is_verified contribution then Inl ContributionAlreadyVerified else Inr locator))"

definition next_contribution_locator ::
  "Round \<Rightarrow> Disk \<Rightarrow> u64 \<Rightarrow> CoordinatorError + ContributionLocator" where
  "next_contribution_locator self storage c =
     result_bind (round_chunk self c) (\<lambda>chunk.
     result_bind (next_contribution_id chunk (expected_number_of_contributions self)) (\<lambda>i.
     result_bind (current_contribution chunk) (\<lambda>contribution.
       if \<not> is_verified contribution then Inl ContributionMissingVerification
       else
         (let locator = contribution_locator (r_height self) c i False
          in if disk_exists storage (ContributionFile locator) then Inl ContributionLocatorAlreadyExists
             else Inr locator))))"

definition next_contribution_file_signature_locator ::
  "Round \<Rightarrow> Disk \<Rightarrow> u64 \<Rightarrow> CoordinatorError + ContributionSignatureLocator" where
  "next_contribution_file_signature_locator self storage c =
     result_bind (round_chunk self c) (\<lambda>chunk.
     result_bind (next_contribution_id chunk (expected_number_of_contributions self)) (\<lambda>i.
     result_bind (current_contribution chunk) (\<lambda>contribution.
       if \<not> is_verified contribution then Inl ContributionMissingVerification
       else
         (let locator = signature_locator (r_height self) c i False
          in if disk_exists storage (ContributionFileSignatureFile locator)
             then Inl ContributionFileSignatureLocatorAlreadyExists
             else Inr locator))))"

section \<open>Locking a chunk\<close>

text \<open>\<^verbatim>\<open>self.chunk_mut(chunk_id)?\<close> and a method on the chunk; what it leaves is written back.\<close>

definition on_chunk :: "Round \<Rightarrow> u64 \<Rightarrow> (Chunk \<Rightarrow> ('a, Chunk) fallible) \<Rightarrow> ('a, Round) fallible" where
  "on_chunk self c call =
     (case round_chunk self c of
        Inl e \<Rightarrow> (Inl e, self)
      | Inr chunk \<Rightarrow>
          (let (r, chunk') = call chunk in (r, self\<lparr>chunks := (chunks self)[c := chunk']\<rparr>)))"

text \<open>The locators that a contributor gets for the contribution it is about to make.\<close>

definition contributor_locators :: "Round \<Rightarrow> Disk \<Rightarrow> u64 \<Rightarrow> CoordinatorError + LockedLocators" where
  "contributor_locators self storage c =
     result_bind (round_chunk self c) (\<lambda>chunk.
       let h = r_height self;
           i = current_contribution_id chunk;
           previous_final_id = expected_number_of_contributions self - 1;
           previous =
             (if i = 0
              then (if h = 1 then contribution_locator 0 c 0 True
                    else contribution_locator (usize_sub h 1) c previous_final_id False)
              else contribution_locator h c (i - 1) False);
           current = contribution_locator h c i True
       in result_bind (next_contribution_locator self storage c) (\<lambda>next.
          result_bind (next_contribution_file_signature_locator self storage c) (\<lambda>next_signature.
            Inr \<lparr>locked_previous = previous, locked_current = current, locked_next = next,
                 locked_next_signature = next_signature\<rparr>)))"

definition try_lock_chunk ::
  "curve_sizes \<Rightarrow> Environment \<Rightarrow> Disk \<Rightarrow> Round \<Rightarrow> u64 \<Rightarrow> Participant \<Rightarrow>
   (LockedLocators, Round \<times> Disk) fallible" where
  "try_lock_chunk sizes environment storage self c participant =
     (case number_of_locks_held self participant of
        Inl e \<Rightarrow> (Inl e, self, storage)
      | Inr held \<Rightarrow>
          (case participant of
             Verifier _ \<Rightarrow> (Inl ExpectedContributor, self, storage)
           | Contributor _ \<Rightarrow>
               if contributor_lock_chunk_limit environment \<le> held
               then (Inl ChunkLockLimitReached, self, storage)
               else if \<not> round_is_contributor self participant
               then (Inl UnauthorizedChunkContributor, self, storage)
               else
                 (case result_bind (contributor_locators self storage c) (\<lambda>locked.
                         result_bind (round_chunk self c) (\<lambda>chunk.
                         result_bind (current_contribution chunk) (\<lambda>contribution.
                           if \<not> is_verified contribution \<and>
                              is_ok (current_contribution_locator self storage c False) \<and>
                              is_contributor participant
                           then Inl UnauthorizedChunkContributor
                           else Inr locked))) of
                    Inl e \<Rightarrow> (Inl e, self, storage)
                  | Inr locked \<Rightarrow>
                      (case on_chunk self c (\<lambda>chunk.
                              acquire_lock chunk participant (expected_number_of_contributions self)) of
                         (Inl e, self) \<Rightarrow> (Inl e, self, storage)
                       | (Inr _, self) \<Rightarrow>
                           (case and_then
                                  (disk_initialize storage (ContributionFile (locked_next locked))
                                     (contribution_file_size sizes environment c False))
                                  (\<lambda>_ storage.
                                     disk_initialize storage
                                       (ContributionFileSignatureFile (locked_next_signature locked))
                                       (contribution_file_signature_size False)) of
                              (Inl e, storage) \<Rightarrow> (Inl e, self, storage)
                            | (Inr _, storage) \<Rightarrow> (Inr locked, self, storage))))))"

section \<open>Verifiers\<close>

definition initialize_verifier_response_files ::
  "curve_sizes \<Rightarrow> Environment \<Rightarrow> Disk \<Rightarrow> Participant \<Rightarrow> u64 \<Rightarrow> LockedLocators \<Rightarrow> (unit, Disk) fallible" where
  "initialize_verifier_response_files sizes environment storage participant c locators =
     (if \<not> is_verifier participant then (Inl ExpectedVerifier, storage)
      else
        and_then
          (disk_initialize storage (ContributionFile (locked_next locators))
             (contribution_file_size sizes environment c True))
          (\<lambda>_ storage. disk_initialize storage (ContributionFileSignatureFile (locked_next_signature locators))
             (contribution_file_signature_size True)))"

definition get_chunk_locators_for_verifier ::
  "Round \<Rightarrow> Disk \<Rightarrow> Participant \<Rightarrow> u64 \<Rightarrow> u64 \<Rightarrow> CoordinatorError + LockedLocators" where
  "get_chunk_locators_for_verifier self storage participant c i =
     (if \<not> is_verifier participant then Inl ExpectedVerifier
      else
        result_bind (round_chunk self c) (\<lambda>chunk.
          let h = r_height self;
              current_id = current_contribution_id chunk
          in if current_id = 0 then Inl (ChunkCannotLockZeroContributions c)
             else if current_id \<noteq> i then Inl ContributionIdMismatch
             else
               result_bind (current_contribution_locator self storage c False) (\<lambda>current.
                 let is_final = only_contributions_complete chunk (expected_number_of_contributions self)
                 in Inr
                      \<lparr>locked_previous = contribution_locator h c (current_id - 1) True,
                       locked_current = current,
                       locked_next = (if is_final then contribution_locator (h + 1) c 0 True
                                      else contribution_locator h c current_id True),
                       locked_next_signature =
                         (if is_final then signature_locator (h + 1) c 0 True
                          else signature_locator h c current_id True)\<rparr>)))"

definition try_finish :: "Round \<Rightarrow> OffsetDateTime \<Rightarrow> Round" where
  "try_finish self timestamp =
     (if round_is_complete self \<and> r_finished_at self = None
      then self\<lparr>r_finished_at := Some timestamp\<rparr> else self)"

definition round_verify_contribution ::
  "Round \<Rightarrow> u64 \<Rightarrow> u64 \<Rightarrow> Participant \<Rightarrow> LocatorPath \<Rightarrow> LocatorPath \<Rightarrow> OffsetDateTime \<Rightarrow>
   (unit, Round) fallible" where
  "round_verify_contribution self c i participant locator signature now =
     and_then (on_chunk self c (\<lambda>chunk. verify_contribution chunk i participant locator signature))
       (\<lambda>_ self. (Inr (), try_finish self now))"

section \<open>Dropping a contributor\<close>

text \<open>The body of the loop over the locked chunks, for a contributor.\<close>

definition remove_lock_unsafe ::
  "Participant \<Rightarrow> u64 \<Rightarrow> u64 \<Rightarrow> u64 \<Rightarrow> Round \<times> Disk \<Rightarrow> (unit, Round \<times> Disk) fallible" where
  "remove_lock_unsafe participant h expected c state =
     (let (self, storage) = state in
      if is_verifier participant then (Inl ExpectedContributor, state)
      else if \<not> round_is_contributor self participant then (Inl UnauthorizedChunkContributor, state)
      else
        (case round_chunk self c of
           Inl e \<Rightarrow> (Inl e, state)
         | Inr chunk \<Rightarrow>
             (case next_contribution_id chunk expected of
                Inl e \<Rightarrow> (Inl e, state)
              | Inr i \<Rightarrow>
                  (case for_each (\<lambda>l storage. remove_if_exists storage l)
                          [ContributionFile (contribution_locator h c i False),
                           ContributionFileSignatureFile (signature_locator h c i False),
                           ContributionFileSignatureFile (signature_locator h c i True)] storage of
                     (Inl e, storage) \<Rightarrow> (Inl e, self, storage)
                   | (Inr _, storage) \<Rightarrow>
                       (case current_contribution chunk of
                          Inl e \<Rightarrow> (Inl e, self, storage)
                        | Inr current \<Rightarrow>
                            (let is_final = only_contributions_complete chunk expected;
                                 contribution_file = ContributionFile
                                   (if is_final then contribution_locator (h + 1) c 0 True
                                    else contribution_locator h c (current_contribution_id chunk) True)
                             in case (if is_verified current \<and> disk_exists storage contribution_file \<and>
                                         get_contributor current \<noteq> None
                                      then disk_remove storage contribution_file
                                      else (Inr (), storage)) of
                                  (Inl e, storage) \<Rightarrow> (Inl e, self, storage)
                                | (Inr _, storage) \<Rightarrow>
                                    (Inr (), self\<lparr>chunks := (chunks self)
                                       [c := set_lock_holder_unsafe chunk None]\<rparr>, storage)))))))"

definition remove_locks_unsafe ::
  "Participant \<Rightarrow> u64 list \<Rightarrow> Round \<times> Disk \<Rightarrow> (unit, Round \<times> Disk) fallible" where
  "remove_locks_unsafe participant locked_chunks state =
     for_each (remove_lock_unsafe participant (r_height (fst state)) (expected_number_of_contributions (fst state)))
       (filter (\<lambda>c. is_chunk_locked_by (fst state) c participant) locked_chunks) state"

text \<open>The removal of the file at a path that the contribution remembers.\<close>

definition remove_location :: "LocatorPath option \<Rightarrow> Disk \<Rightarrow> (unit, Disk) fallible" where
  "remove_location location storage =
     (case location of
        None \<Rightarrow> (Inr (), storage)
      | Some path \<Rightarrow>
          (case disk_locator storage path of
             Inl e \<Rightarrow> (Inl e, storage)
           | Inr l \<Rightarrow> remove_if_exists storage l))"

text \<open>The body of the loop over the tasks.\<close>

definition remove_task_unsafe :: "Task \<Rightarrow> Round \<times> Disk \<Rightarrow> (unit, Round \<times> Disk) fallible" where
  "remove_task_unsafe task state =
     (let (self, storage) = state in
      case round_chunk self (chunk_id task) of
        Inl e \<Rightarrow> (Inl e, state)
      | Inr chunk \<Rightarrow>
          (case get_contribution chunk (contribution_id task) of
             Inl _ \<Rightarrow> (Inr (), state)
           | Inr contribution \<Rightarrow>
               (case for_each remove_location
                       [get_contributed_location contribution, get_contributed_signature_location contribution,
                        get_verified_location contribution, get_verified_signature_location contribution]
                       storage of
                  (Inl e, storage) \<Rightarrow> (Inl e, self, storage)
                | (Inr _, storage) \<Rightarrow>
                    (Inr (), self\<lparr>chunks := (chunks self)
                       [chunk_id task := remove_contributions_from chunk (contribution_id task)]\<rparr>, storage))))"

definition remove_chunk_contributions_unsafe ::
  "Participant \<Rightarrow> Task list \<Rightarrow> Round \<times> Disk \<Rightarrow> (unit, Round \<times> Disk) fallible" where
  "remove_chunk_contributions_unsafe participant tasks state =
     (if is_verifier participant then (Inr (), state)
      else if length (filter (\<lambda>p. p = participant) (contributor_ids (fst state))) \<noteq> 1
      then (Inl RoundContributorMissing, state)
      else for_each remove_task_unsafe tasks state)"

definition remove_contributor_unsafe ::
  "Participant \<Rightarrow> u64 list \<Rightarrow> Task list \<Rightarrow> Round \<times> Disk \<Rightarrow> (unit, Round \<times> Disk) fallible" where
  "remove_contributor_unsafe contributor locked_chunks tasks state =
     and_then (remove_locks_unsafe contributor locked_chunks state)
       (\<lambda>_ state. and_then (remove_chunk_contributions_unsafe contributor tasks state)
          (\<lambda>_ (self, storage).
             (Inr (), self\<lparr>contributor_ids := filter (\<lambda>p. p \<noteq> contributor) (contributor_ids self)\<rparr>, storage)))"

definition round_add_replacement_contributor_unsafe :: "Round \<Rightarrow> Participant \<Rightarrow> (unit, Round) fallible" where
  "round_add_replacement_contributor_unsafe self participant =
     (if \<not> is_contributor participant then (Inl ExpectedContributor, self)
      else (Inr (), self\<lparr>contributor_ids := contributor_ids self @ [participant]\<rparr>))"

section \<open>Reset\<close>

definition reset_chunk :: "Chunk \<Rightarrow> Chunk" where
  "reset_chunk chunk =
     fold (\<lambda>i chunk. if i \<noteq> 0 then remove_contribution_unsafe chunk i else chunk)
       (hm_keys (contributions chunk)) (set_lock_holder_unsafe chunk None)"

text \<open>The round after the reset; the storage action that is returned carries this round.\<close>

definition round_reset :: "Round \<Rightarrow> Participant list \<Rightarrow> Round" where
  "round_reset self remove_participants =
     self\<lparr>chunks := map reset_chunk (chunks self),
          contributor_ids := filter (\<lambda>c. c \<notin> set remove_participants) (contributor_ids self),
          verifier_ids := filter (\<lambda>v. v \<notin> set remove_participants) (verifier_ids self)\<rparr>"

section \<open>The invariant of a round\<close>

text \<open>Who has a part in a chunk: the holder of its lock and its contributors.\<close>

definition chunk_members :: "Chunk \<Rightarrow> Participant set" where
  "chunk_members c =
     {p. lock_holder c = Some p} \<union>
     {p. \<exists>i k. map_of (contributions c) i = Some k \<and> contributor_id k = Some p}"

definition chunk_in_round :: "u64 \<Rightarrow> Participant set \<Rightarrow> u64 \<Rightarrow> Chunk \<Rightarrow> bool" where
  "chunk_in_round e ids i c \<longleftrightarrow> chunk_chunk_id c = i \<and> chunk_wf e c \<and> chunk_members c \<subseteq> ids"

text \<open>
  A round is sound when its contributors are contributors, its chunks are numbered by their
  position, each of them well-formed for the number of contributions that the round expects, and
  only participants from a given set have a part in it. It is well-formed when moreover its
  contributors are different, and that set is the set of its contributors.
\<close>

definition round_sound :: "Participant set \<Rightarrow> Round \<Rightarrow> bool" where
  "round_sound ids r \<longleftrightarrow>
     set (contributor_ids r) \<subseteq> ids \<and> (\<forall>p\<in>set (contributor_ids r). is_contributor p) \<and>
     (\<forall>i<length (chunks r). chunk_in_round (expected_number_of_contributions r) ids i (chunks r ! i))"

definition round_wf :: "Round \<Rightarrow> bool" where
  "round_wf r \<longleftrightarrow> distinct (contributor_ids r) \<and> round_sound (set (contributor_ids r)) r"

lemma round_wf_sound: "round_wf r \<Longrightarrow> round_sound (set (contributor_ids r)) r"
  by (simp add: round_wf_def)

lemma round_wfI:
  "round_wf r \<Longrightarrow> round_sound (set (contributor_ids r)) r' \<Longrightarrow> contributor_ids r' = contributor_ids r \<Longrightarrow> round_wf r'"
  by (simp add: round_wf_def)

lemma round_sound_chunk:
  assumes "round_sound ids r" "i < length (chunks r)"
  shows "chunk_chunk_id (chunks r ! i) = i"
    "chunk_wf (expected_number_of_contributions r) (chunks r ! i)"
    "chunk_members (chunks r ! i) \<subseteq> ids"
    "contributions_wf (expected_number_of_contributions r) (contributions (chunks r ! i))"
  using assms by (auto simp: round_sound_def chunk_in_round_def chunk_wf_def)

lemmas round_wf_chunk = round_sound_chunk [OF round_wf_sound]

lemma round_chunk_sound: "round_sound ids r \<Longrightarrow>
    round_chunk r c = (if c < length (chunks r) then Inr (chunks r ! c) else Inl ChunkMissing)"
  by (simp add: round_chunk_def round_sound_chunk(1))

lemmas round_chunk_wf = round_chunk_sound [OF round_wf_sound]

lemma round_chunk_ok_iff:
  "round_chunk r c = Inr k \<longleftrightarrow> c < length (chunks r) \<and> k = chunks r ! c \<and> chunk_chunk_id k = c"
  by (auto simp: round_chunk_def)

lemma expected_frame [simp]:
  "expected_number_of_contributions (r\<lparr>chunks := cs\<rparr>) = expected_number_of_contributions r"
  "expected_number_of_contributions (r\<lparr>r_finished_at := t\<rparr>) = expected_number_of_contributions r"
  by (simp_all add: expected_number_of_contributions_def)

lemma round_sound_update:
  assumes "round_sound ids r" "chunk_in_round (expected_number_of_contributions r) ids i k"
  shows "round_sound ids (r\<lparr>chunks := (chunks r)[i := k]\<rparr>)"
  using assms by (cases "i < length (chunks r)") (auto simp: round_sound_def nth_list_update)

lemma round_sound_finished [simp]: "round_sound ids (r\<lparr>r_finished_at := t\<rparr>) \<longleftrightarrow> round_sound ids r"
  by (simp add: round_sound_def)

section \<open>A new round\<close>

lemma all_inserted_iff: "all_inserted uniq xs \<longleftrightarrow> distinct xs \<and> set xs \<inter> set uniq = {}"
  by (induction uniq xs rule: all_inserted.induct) auto

lemma has_unique_elements_iff: "has_unique_elements xs \<longleftrightarrow> distinct xs"
  by (simp add: has_unique_elements_def all_inserted_iff)

text \<open>The chunk with which a round starts: the initial contribution, verified, at its path.\<close>

definition fresh_chunk :: "Disk \<Rightarrow> u64 \<Rightarrow> Participant \<Rightarrow> u64 \<Rightarrow> Chunk" where
  "fresh_chunk storage h verifier c =
     \<lparr>chunk_chunk_id = c, lock_holder = None,
      contributions = [(0, \<lparr>contributor_id = None, contributed_locator = None,
        contributed_signature_locator = None, verifier_id = Some verifier,
        verified_locator = Some (disk_path storage (ContributionFile (contribution_locator h c 0 True))),
        verified_signature_locator =
          Some (disk_path storage (ContributionFileSignatureFile (signature_locator h c 0 True))),
        verified = True\<rparr>)]\<rparr>"

lemma round_new_ok:
  assumes "round_new environment storage h started_at ids = Inr r"
  obtains verifier where "is_verifier verifier" "distinct ids" "\<forall>p\<in>set ids. is_contributor p"
    "h = 0 \<or> ids \<noteq> []" "0 < number_of_chunks environment"
    "r = \<lparr>r_version = software_version environment, r_height = h, r_started_at = Some started_at,
      r_finished_at = None, contributor_ids = ids, verifier_ids = [],
      chunks = map (fresh_chunk storage h verifier) [0..<number_of_chunks environment]\<rparr>"
proof -
  from assms obtain v vs cs where v: "coordinator_verifiers environment = v # vs"
    and n: "number_of_chunks environment \<noteq> 0"
    and ids: "distinct ids" "length (filter is_contributor ids) = length ids"
    and h: "h \<noteq> 0 \<longrightarrow> length (filter is_contributor ids) \<noteq> 0"
    and cs: "collect_results (\<lambda>c. chunk_new c v
        (disk_path storage (ContributionFile (contribution_locator h c 0 True)))
        (disk_path storage (ContributionFileSignatureFile (signature_locator h c 0 True))))
        [0..<number_of_chunks environment] = Inr cs"
    and r: "r = \<lparr>r_version = software_version environment, r_height = h, r_started_at = Some started_at,
      r_finished_at = None, contributor_ids = ids, verifier_ids = [], chunks = cs\<rparr>"
    by (auto simp: round_new_def Let_def has_unique_elements_iff result_bind_ok_iff
        split: if_splits list.splits)
  have "\<exists>k. chunk_new 0 v (disk_path storage (ContributionFile (contribution_locator h 0 0 True)))
        (disk_path storage (ContributionFileSignatureFile (signature_locator h 0 0 True))) = Inr k"
    using cs n unfolding collect_results_ok_iff
    by (auto simp: list_all2_conv_all_nth dest: spec [of _ "0::nat"])
  then have isv: "is_verifier v" by (auto simp: chunk_new_def split: if_splits)
  have "collect_results (\<lambda>c. chunk_new c v
        (disk_path storage (ContributionFile (contribution_locator h c 0 True)))
        (disk_path storage (ContributionFileSignatureFile (signature_locator h c 0 True))))
        [0..<number_of_chunks environment] =
      Inr (map (fresh_chunk storage h v) [0..<number_of_chunks environment])"
    by (rule collect_results_okI)
      (use isv in \<open>simp add: chunk_new_def contribution_new_verifier_def fresh_chunk_def\<close>)
  with cs r isv ids h n show ?thesis
    by (intro that [of v]) (auto simp: length_filter_full)
qed

lemma fresh_chunk_in_round:
  assumes "is_verifier v" "1 \<le> e"
  shows "chunk_in_round e ids c (fresh_chunk storage h v c)"
proof -
  have "chunk_new c v (disk_path storage (ContributionFile (contribution_locator h c 0 True)))
      (disk_path storage (ContributionFileSignatureFile (signature_locator h c 0 True))) =
      Inr (fresh_chunk storage h v c)"
    using assms(1) by (simp add: chunk_new_def contribution_new_verifier_def fresh_chunk_def)
  from chunk_wf_new [OF this assms(2)] show ?thesis
    by (auto simp: chunk_in_round_def chunk_members_def fresh_chunk_def split: if_splits)
qed

lemma round_new_wf:
  assumes "round_new environment storage h started_at ids = Inr r"
  shows "round_wf r"
  using assms by (rule round_new_ok)
    (auto simp: round_wf_def round_sound_def expected_number_of_contributions_def intro!: fresh_chunk_in_round)

lemma round_is_complete_iff:
  "round_is_complete r \<longleftrightarrow>
     (\<forall>c\<in>set (chunks r). lock_holder c = None \<and> chunk_is_complete c (expected_number_of_contributions r))"
  by (auto simp: round_is_complete_def length_filter_pos filter_empty_conv simp del: length_greater_0_conv)

section \<open>A complete round\<close>

lemma complete_chunk_contributors:
  assumes "round_wf r" "round_is_complete r" "c < length (chunks r)"
  shows "mset (spec_contributors (chunk_abs (chunks r ! c))) = mset (contributor_ids r)"
    "lock_holder (chunks r ! c) = None" "length (contributions (chunks r ! c)) = Suc (length (contributor_ids r))"
    "i \<le> length (contributor_ids r) \<Longrightarrow> verified_at (chunks r ! c) i"
proof -
  let ?k = "chunks r ! c"
  note wf = round_wf_chunk [OF assms(1,3)]
  from assms(2,3) have "chunk_is_complete ?k (expected_number_of_contributions r)"
    by (simp add: round_is_complete_iff)
  with complete_iff [OF wf(4)] have free: "lock_holder ?k = None"
    and len: "length (contributions ?k) = Suc (length (contributor_ids r))"
    and v: "verified_at ?k (length (contributions ?k) - 1)"
    by (auto simp: expected_number_of_contributions_def)
  from free show "lock_holder ?k = None" .
  from len show "length (contributions ?k) = Suc (length (contributor_ids r))" .
  show "verified_at ?k i" if "i \<le> length (contributor_ids r)"
  proof -
    from that obtain e where "map_of (contributions ?k) i = Some e"
      using contributions_wf_lookup [OF wf(4), of i] len by auto
    with all_verified_iff_last [OF wf(4)] v show ?thesis by (auto simp: verified_at_def dest: map_of_SomeD)
  qed
  have d: "distinct (spec_contributors (chunk_abs ?k))" "distinct (contributor_ids r)"
    using abs_distinct [OF wf(4)] assms(1) by (auto simp: round_wf_def)
  moreover have "set (spec_contributors (chunk_abs ?k)) = set (contributor_ids r)"
  proof (rule card_subset_eq)
    show "set (spec_contributors (chunk_abs ?k)) \<subseteq> set (contributor_ids r)"
      using wf(3) by (auto simp: abs_contributors [OF wf(4)] chunk_members_def)
    show "card (set (spec_contributors (chunk_abs ?k))) = card (set (contributor_ids r))"
      using abs_length [OF wf(4)] len d by (simp add: distinct_card)
  qed simp
  ultimately show "mset (spec_contributors (chunk_abs ?k)) = mset (contributor_ids r)"
    by (simp add: set_eq_iff_mset_eq_distinct)
qed

section \<open>Locking a chunk\<close>

lemma acquire_lock_error: "acquire_lock c p e = (Inl err, c') \<Longrightarrow> c' = c"
  by (auto simp: acquire_lock_def split: if_splits sum.splits)

lemma acquire_lock_ok:
  assumes "acquire_lock c p e = (Inr (), c')" "is_contributor p"
  shows "c' = c\<lparr>lock_holder := Some p\<rparr>" "lock_holder c = None"
  using assms by (auto simp: acquire_lock_def split: if_splits sum.splits)

lemma contributor_locators_ok:
  assumes "contributor_locators r d c = Inr locked"
  obtains k i where "round_chunk r c = Inr k"
    "next_contribution_id k (expected_number_of_contributions r) = Inr i"
    "locked_next locked = contribution_locator (r_height r) c i False"
    "locked_next_signature locked = signature_locator (r_height r) c i False"
    "locked_current locked = contribution_locator (r_height r) c (current_contribution_id k) True"
    "\<not> disk_exists d (ContributionFile (contribution_locator (r_height r) c i False))"
    "\<not> disk_exists d (ContributionFileSignatureFile (signature_locator (r_height r) c i False))"
  using assms
  by (auto simp: contributor_locators_def result_bind_ok_iff Let_def next_contribution_locator_def
      next_contribution_file_signature_locator_def split: if_splits)

text \<open>
  Nothing can fail once the lock is taken: the files do not exist yet, and the directory of the
  signature is the one that was made for the contribution.
\<close>

lemma initialize_pair:
  assumes "\<not> disk_exists d (ContributionFile (contribution_locator h c i b))"
    "\<not> disk_exists d (ContributionFileSignatureFile (signature_locator h c i b))"
  obtains d' where
    "and_then (disk_initialize d (ContributionFile (contribution_locator h c i b)) n)
       (\<lambda>_ d. disk_initialize d (ContributionFileSignatureFile (signature_locator h c i b)) m) = (Inr (), d')"
    "touches {ContributionFile (contribution_locator h c i b),
       ContributionFileSignatureFile (signature_locator h c i b)} d d'"
    "file_at d' (ContributionFile (contribution_locator h c i b)) = Some (replicate n 0)"
    "file_at d' (ContributionFileSignatureFile (signature_locator h c i b)) = Some (replicate m 0)"
proof -
  let ?f = "ContributionFile (contribution_locator h c i b)"
  let ?s = "ContributionFileSignatureFile (signature_locator h c i b)"
  obtain d1 where d1: "disk_initialize d ?f n = (Inr (), put_file ?f (replicate n 0) d1)"
    "touches {} d d1" "parent_directory (disk_base d) ?f \<in> set (disk_dirs d1)"
    using assms(1) by (auto intro: disk_initialize_cases [of d ?f n])
  let ?d1 = "put_file ?f (replicate n 0) d1"
  have t1: "touches {?f, ?s} d ?d1"
    using touches_mono [OF d1(2)] touches_mono [OF touches_put] by (rule touches_trans) auto
  have ex: "\<not> disk_exists ?d1 ?s" using assms(2) d1(2) by (simp add: disk_exists_def touches_def disk.get_ins)
  have dir: "parent_directory (disk_base ?d1) ?s \<in> set (disk_dirs ?d1)"
    using d1(2,3) by (simp add: touches_def contribution_locator_def signature_locator_def)
  obtain d2 where d2: "disk_initialize ?d1 ?s m = (Inr (), put_file ?s (replicate m 0) d2)" "touches {} ?d1 d2"
    using ex dir by (auto intro: disk_initialize_cases [of ?d1 ?s m])
  have f: "file_at d2 ?f = Some (replicate n 0)"
    using touches_file [OF d2(2), of ?f] by (simp add: disk.get_ins)
  have "touches {?f, ?s} ?d1 (put_file ?s (replicate m 0) d2)"
    using touches_mono [OF d2(2)] touches_mono [OF touches_put] by (rule touches_trans) auto
  with t1 have t: "touches {?f, ?s} d (put_file ?s (replicate m 0) d2)" by (rule touches_trans)
  show ?thesis
    by (rule that [of "put_file ?s (replicate m 0) d2"])
      (simp_all only: d1(1) d2(1) and_then_simps t disk.get_ins fun_upd_same fun_upd_other f
        Locator.distinct not_False_eq_True)
qed

lemma try_lock_chunk_cases:
  obtains (error) e where "try_lock_chunk sizes environment d r c p = (Inl e, r, d)"
    | (ok) locked k i d' where
      "try_lock_chunk sizes environment d r c p =
        (Inr locked, r\<lparr>chunks := (chunks r)[c := k\<lparr>lock_holder := Some p\<rparr>]\<rparr>, d')"
      "contributor_locators r d c = Inr locked" "p \<in> set (contributor_ids r)" "is_contributor p"
      "length (filter (\<lambda>chunk. is_locked_by chunk p) (chunks r)) < contributor_lock_chunk_limit environment"
      "round_chunk r c = Inr k" "next_contribution_id k (expected_number_of_contributions r) = Inr i"
      "acquire_lock k p (expected_number_of_contributions r) = (Inr (), k\<lparr>lock_holder := Some p\<rparr>)"
      "lock_holder k = None"
      "touches {ContributionFile (contribution_locator (r_height r) c i False),
         ContributionFileSignatureFile (signature_locator (r_height r) c i False)} d d'"
      "file_at d' (ContributionFile (contribution_locator (r_height r) c i False)) =
         Some (replicate (contribution_file_size sizes environment c False) 0)"
      "file_at d' (ContributionFileSignatureFile (signature_locator (r_height r) c i False)) =
         Some (replicate (contribution_file_signature_size False) 0)"
proof -
  let ?e = "expected_number_of_contributions r"
  show ?thesis
  proof (cases "\<exists>e. try_lock_chunk sizes environment d r c p = (Inl e, r, d)")
    case True
    with error show ?thesis by blast
  next
    case False
    then obtain a held locked where p: "p = Contributor a" and h: "number_of_locks_held r p = Inr held"
      and lim: "held < contributor_lock_chunk_limit environment" and c: "round_is_contributor r p"
      and l: "contributor_locators r d c = Inr locked"
      and rest: "try_lock_chunk sizes environment d r c p =
        (case on_chunk r c (\<lambda>chunk. acquire_lock chunk p ?e) of
           (Inl e, self) \<Rightarrow> (Inl e, self, d)
         | (Inr _, self) \<Rightarrow>
            (case and_then (disk_initialize d (ContributionFile (locked_next locked))
                     (contribution_file_size sizes environment c False))
                  (\<lambda>_ storage. disk_initialize storage
                     (ContributionFileSignatureFile (locked_next_signature locked))
                     (contribution_file_signature_size False)) of
               (Inl e, storage) \<Rightarrow> (Inl e, self, storage)
             | (Inr _, storage) \<Rightarrow> (Inr locked, self, storage)))"
      by (auto simp: try_lock_chunk_def result_bind_def not_le
          split: sum.splits Participant.splits if_splits)
    from l obtain k i where k: "round_chunk r c = Inr k" and i: "next_contribution_id k ?e = Inr i"
      and locs: "locked_next locked = contribution_locator (r_height r) c i False"
        "locked_next_signature locked = signature_locator (r_height r) c i False"
      and ex: "\<not> disk_exists d (ContributionFile (contribution_locator (r_height r) c i False))"
        "\<not> disk_exists d (ContributionFileSignatureFile (signature_locator (r_height r) c i False))"
      by (rule contributor_locators_ok)
    obtain res k' where acq: "acquire_lock k p ?e = (res, k')" by fastforce
    have "chunks r ! c = k" using k by (simp add: round_chunk_ok_iff)
    then have "res = Inr ()"
      using False rest k acq acquire_lock_error [of k p ?e _ k']
      by (cases res) (auto simp: on_chunk_def)
    with acq p acquire_lock_ok [of k p ?e k'] have acq': "acquire_lock k p ?e = (Inr (), k\<lparr>lock_holder := Some p\<rparr>)"
      "lock_holder k = None" by auto
    obtain d' where d': "and_then (disk_initialize d (ContributionFile (locked_next locked))
                     (contribution_file_size sizes environment c False))
                  (\<lambda>_ storage. disk_initialize storage
                     (ContributionFileSignatureFile (locked_next_signature locked))
                     (contribution_file_signature_size False)) = (Inr (), d')"
      "touches {ContributionFile (contribution_locator (r_height r) c i False),
         ContributionFileSignatureFile (signature_locator (r_height r) c i False)} d d'"
      "file_at d' (ContributionFile (contribution_locator (r_height r) c i False)) =
         Some (replicate (contribution_file_size sizes environment c False) 0)"
      "file_at d' (ContributionFileSignatureFile (signature_locator (r_height r) c i False)) =
         Some (replicate (contribution_file_signature_size False) 0)"
      using initialize_pair [OF ex] unfolding locs .
    from rest acq' k d'(1) have "try_lock_chunk sizes environment d r c p =
        (Inr locked, r\<lparr>chunks := (chunks r)[c := k\<lparr>lock_holder := Some p\<rparr>]\<rparr>, d')"
      by (simp add: on_chunk_def)
    moreover have "p \<in> set (contributor_ids r)" using c p by (simp add: round_is_contributor_def)
    moreover have "length (filter (\<lambda>chunk. is_locked_by chunk p) (chunks r)) < contributor_lock_chunk_limit environment"
      using h lim p c by (simp add: number_of_locks_held_def)
    ultimately show ?thesis using ok [of locked k d' i] l p k i acq' d'(2-4) by auto
  qed
qed

lemma locked_chunk_in_round:
  assumes "chunk_in_round e ids i k" "acquire_lock k p e = (Inr (), k\<lparr>lock_holder := Some p\<rparr>)" "p \<in> ids"
  shows "chunk_in_round e ids i (k\<lparr>lock_holder := Some p\<rparr>)"
  using assms acquire_lock_wf [OF _ assms(2)] by (auto simp: chunk_in_round_def chunk_members_def)

lemma round_chunk_in_round:
  assumes "round_sound ids r" "round_chunk r c = Inr k"
  shows "chunk_in_round (expected_number_of_contributions r) ids c k"
  using assms by (auto simp: round_sound_def round_chunk_ok_iff)

lemma try_lock_chunk_sound:
  assumes "round_sound ids r" "try_lock_chunk sizes environment d r c p = (res, r', d')"
  shows "round_sound ids r'" "contributor_ids r' = contributor_ids r"
proof -
  have "round_sound ids r' \<and> contributor_ids r' = contributor_ids r"
  proof (cases rule: try_lock_chunk_cases [of sizes environment d r c p])
    case (error e)
    with assms show ?thesis by simp
  next
    case (ok locked k i d1)
    from assms(1) ok(3) have "p \<in> ids" by (auto simp: round_sound_def)
    from locked_chunk_in_round [OF round_chunk_in_round [OF assms(1) ok(6)] ok(8) this] assms ok(1)
    show ?thesis by (auto intro: round_sound_update)
  qed
  then show "round_sound ids r'" "contributor_ids r' = contributor_ids r" by blast+
qed

section \<open>Contributing and verifying\<close>

lemma add_contribution_members:
  "add_contribution c i p l s = (Inr (), c') \<Longrightarrow> chunk_members c' \<subseteq> insert p (chunk_members c)"
  by (auto elim!: add_contribution_eq
      simp: chunk_members_def update_conv' contribution_new_contributor_def split: if_splits)

lemma on_chunk_ok:
  assumes "on_chunk r c f = (Inr a, r')"
  obtains k k' where "round_chunk r c = Inr k" "f k = (Inr a, k')" "r' = r\<lparr>chunks := (chunks r)[c := k']\<rparr>"
  using assms by (auto simp: on_chunk_def split: sum.splits prod.splits)

lemma round_add_contribution_sound:
  assumes "round_sound ids r" "round_chunk r c = Inr k"
    "next_contribution_id k (expected_number_of_contributions r) = Inr i"
    "on_chunk r c (\<lambda>chunk. add_contribution chunk i p l s) = (Inr (), r')"
  shows "round_sound ids r'" "contributor_ids r' = contributor_ids r"
proof -
  from assms(2,4) obtain k' where add: "add_contribution k i p l s = (Inr (), k')"
    and r': "r' = r\<lparr>chunks := (chunks r)[c := k']\<rparr>" by (auto elim: on_chunk_ok)
  note k = round_chunk_in_round [OF assms(1,2)]
  have "chunk_wf (expected_number_of_contributions r) k'"
    using k assms(3) add by (auto simp: chunk_in_round_def intro: add_contribution_wf)
  moreover have "p \<in> chunk_members k" "chunk_chunk_id k' = chunk_chunk_id k"
    using add by (auto elim!: add_contribution_eq simp: chunk_members_def)
  ultimately have "chunk_in_round (expected_number_of_contributions r) ids c k'"
    using k add_contribution_members [OF add] by (auto simp: chunk_in_round_def)
  with assms(1) r' show "round_sound ids r'" "contributor_ids r' = contributor_ids r"
    by (auto intro: round_sound_update)
qed

lemma verify_members:
  assumes "contributions_wf e (contributions k)" "verify_contribution k i v l s = (Inr (), k')"
  shows "chunk_members k' \<subseteq> chunk_members k" "chunk_chunk_id k' = chunk_chunk_id k"
proof -
  from assms(2) obtain c where c: "map_of (contributions k) i = Some c" and v: "is_verifier v"
    by (auto simp: verify_contribution_def split: if_splits option.splits)
  with verify_contribution_eq [OF assms(1) c v, of l s] assms(2)
  have "k' = k\<lparr>contributions := AList.update i (verified_by c v l s) (contributions k), lock_holder := None\<rparr>"
    by (auto split: if_splits)
  with c show "chunk_members k' \<subseteq> chunk_members k" "chunk_chunk_id k' = chunk_chunk_id k"
    by (auto simp: chunk_members_def update_conv' split: if_splits)
qed

lemma round_verify_contribution_sound:
  assumes "round_sound ids r" "round_chunk r c = Inr k"
    "round_verify_contribution r c (current_contribution_id k) v l s now = (Inr (), r')"
  shows "round_sound ids r'" "contributor_ids r' = contributor_ids r"
proof -
  from assms(2,3) obtain k' where ver: "verify_contribution k (current_contribution_id k) v l s = (Inr (), k')"
    and r': "r' = try_finish (r\<lparr>chunks := (chunks r)[c := k']\<rparr>) now"
    by (auto simp: round_verify_contribution_def and_then_ok_iff elim!: on_chunk_ok)
  note k = round_chunk_in_round [OF assms(1,2)]
  then have "chunk_in_round (expected_number_of_contributions r) ids c k'"
    using verify_contribution_wf [OF _ ver] verify_members [OF _ ver]
    unfolding chunk_in_round_def chunk_wf_def [of _ k] by blast
  with assms(1) have "round_sound ids (r\<lparr>chunks := (chunks r)[c := k']\<rparr>)" by (rule round_sound_update)
  with r' show "round_sound ids r'" "contributor_ids r' = contributor_ids r" by (simp_all add: try_finish_def)
qed

section \<open>Reset\<close>

lemma reset_chunk_eq:
  "reset_chunk k = k\<lparr>lock_holder := None, contributions := filter (\<lambda>(i, _). i = 0) (contributions k)\<rparr>"
proof -
  have "fold (\<lambda>i chunk. if i \<noteq> 0 then remove_contribution_unsafe chunk i else chunk) is c =
      c\<lparr>contributions := fold AList.delete (filter (\<lambda>i. i \<noteq> 0) is) (contributions c)\<rparr>" for "is" c
    by (induction "is" arbitrary: c) (auto simp: remove_contribution_unsafe_def)
  moreover have "filter (\<lambda>p. fst p \<notin> set (filter (\<lambda>i. i \<noteq> 0) (map fst m))) m = filter (\<lambda>(i, _). i = 0) m"
    for m :: "(u64, Contribution) hashmap"
    by (rule filter_cong) force+
  ultimately show ?thesis by (simp add: reset_chunk_def fold_delete)
qed

lemma filter_key: "distinct (map fst m) \<Longrightarrow> map_of m i = Some k \<Longrightarrow> filter (\<lambda>(j, _). j = i) m = [(i, k)]"
  by (induction m) (force simp: filter_empty_conv split: if_splits)+

lemma reset_contributions:
  assumes "contributions_wf e m"
  obtains k where "filter (\<lambda>(i, _). i = 0) m = [(0, k)]" "map_of m 0 = Some k"
    "contributor_id k = None" "verified k" "contribution_wf k"
proof -
  note sh = contributions_wf_shape [OF assms]
  obtain k where k: "map_of m 0 = Some k" using contributions_wf_lookup [OF assms, of 0] sh(2) by blast
  moreover from k contributions_wf_entry(1,2) [OF assms k]
  have "contributor_id k = None" "verified k" "contribution_wf k"
    by (auto simp: contribution_wf_def)
  ultimately show ?thesis using filter_key [OF sh(4) k] by (intro that)
qed

lemma reset_chunk_in_round:
  assumes "contributions_wf e (contributions k)" "chunk_chunk_id k = i" "1 \<le> e'"
  shows "chunk_in_round e' ids i (reset_chunk k)"
proof -
  obtain c where c: "filter (\<lambda>(i, _). i = 0) (contributions k) = [(0, c)]"
    "contributor_id c = None" "verified c" "contribution_wf c"
    using reset_contributions [OF assms(1)] .
  then have "verifier_id c \<noteq> None" by (auto simp: contribution_wf_def)
  with c assms(2,3) show ?thesis
    by (auto simp: reset_chunk_eq chunk_in_round_def chunk_wf_def contributions_wf_def chunk_members_def
        split: if_splits)
qed

lemma round_reset_frames [simp]:
  "length (chunks (round_reset r ps)) = length (chunks r)"
  "contributor_ids (round_reset r ps) = filter (\<lambda>c. c \<notin> set ps) (contributor_ids r)"
  "r_height (round_reset r ps) = r_height r"
  by (simp_all add: round_reset_def)

lemma round_reset_sound:
  assumes "round_sound ids r" "set (contributor_ids r) - set ps \<subseteq> ids'"
  shows "round_sound ids' (round_reset r ps)"
proof -
  have "chunk_in_round (expected_number_of_contributions (round_reset r ps)) ids' i (chunks (round_reset r ps) ! i)"
    if "i < length (chunks r)" for i
    using reset_chunk_in_round [OF round_sound_chunk(4,1) [OF assms(1) that]] that
    by (simp add: round_reset_def expected_number_of_contributions_def)
  with assms show ?thesis by (auto simp: round_sound_def)
qed

lemma round_reset_wf: "round_wf r \<Longrightarrow> round_wf (round_reset r ps)"
  using round_reset_sound [of "set (contributor_ids r)" r ps "set (contributor_ids (round_reset r ps))"]
  by (auto simp: round_wf_def)

section \<open>Replacing a contributor\<close>

text \<open>What the removal of locks and contributions may do to a round.\<close>

definition chunk_shrinks :: "Chunk \<Rightarrow> Chunk \<Rightarrow> bool" where
  "chunk_shrinks k k' \<longleftrightarrow>
     map_of (contributions k') \<subseteq>\<^sub>m map_of (contributions k) \<and>
     (lock_holder k' = None \<or> lock_holder k' = lock_holder k)"

definition shrinks :: "Round \<Rightarrow> Round \<Rightarrow> bool" where
  "shrinks r r' \<longleftrightarrow>
     r' = r\<lparr>chunks := chunks r'\<rparr> \<and> list_all2 chunk_shrinks (chunks r) (chunks r')"

lemma chunk_shrinks_refl: "chunk_shrinks k k"
  by (simp add: chunk_shrinks_def)

lemma chunk_shrinks_trans: "chunk_shrinks a b \<Longrightarrow> chunk_shrinks b c \<Longrightarrow> chunk_shrinks a c"
  by (auto simp: chunk_shrinks_def intro: map_le_trans)

lemma shrinks_refl: "shrinks r r"
  by (simp add: shrinks_def list.rel_refl chunk_shrinks_refl)

lemma shrinks_trans:
  assumes "shrinks r r'" "shrinks r' r''"
  shows "shrinks r r''"
proof -
  have "r'' = r\<lparr>chunks := chunks r''\<rparr>" using assms by (cases r; cases r'; cases r'') (simp add: shrinks_def)
  moreover have "list_all2 chunk_shrinks (chunks r) (chunks r'')"
    using assms by (auto simp: shrinks_def intro: list_all2_trans [of chunk_shrinks chunk_shrinks] chunk_shrinks_trans)
  ultimately show ?thesis by (simp add: shrinks_def)
qed

lemma shrinks_update:
  assumes "round_chunk r c = Inr k" "chunk_shrinks k k'"
  shows "shrinks r (r\<lparr>chunks := (chunks r)[c := k']\<rparr>)"
proof -
  have "list_all2 chunk_shrinks ((chunks r)[c := k]) ((chunks r)[c := k'])"
    using assms(2) by (intro list_all2_update_cong list.rel_refl chunk_shrinks_refl)
  moreover have "(chunks r)[c := k] = chunks r" using assms(1) by (auto simp: round_chunk_ok_iff)
  ultimately show ?thesis by (simp add: shrinks_def)
qed

lemma shrinks_frames:
  assumes "shrinks r r'"
  shows "contributor_ids r' = contributor_ids r" "r_height r' = r_height r"
    "length (chunks r') = length (chunks r)"
    "expected_number_of_contributions r' = expected_number_of_contributions r"
proof -
  from assms have eq: "r' = r\<lparr>chunks := chunks r'\<rparr>" by (simp add: shrinks_def)
  show "contributor_ids r' = contributor_ids r" "r_height r' = r_height r"
    "expected_number_of_contributions r' = expected_number_of_contributions r"
    by (subst eq, simp)+
  show "length (chunks r') = length (chunks r)"
    using assms unfolding shrinks_def by (metis list_all2_lengthD)
qed

lemma shrinks_lookup:
  assumes "shrinks r r'" "i < length (chunks r)"
  shows "map_of (contributions (chunks r' ! i)) j = Some k \<Longrightarrow> map_of (contributions (chunks r ! i)) j = Some k"
    "lock_holder (chunks r' ! i) = Some p \<Longrightarrow> lock_holder (chunks r ! i) = Some p"
proof -
  from assms have "chunk_shrinks (chunks r ! i) (chunks r' ! i)"
    by (auto simp: shrinks_def list_all2_conv_all_nth)
  then show "map_of (contributions (chunks r' ! i)) j = Some k \<Longrightarrow> map_of (contributions (chunks r ! i)) j = Some k"
    "lock_holder (chunks r' ! i) = Some p \<Longrightarrow> lock_holder (chunks r ! i) = Some p"
    by (auto simp: chunk_shrinks_def map_le_def dom_def)
qed

lemma shrinks_members:
  assumes "shrinks r r'" "i < length (chunks r)"
  shows "chunk_members (chunks r' ! i) \<subseteq> chunk_members (chunks r ! i)"
  using shrinks_lookup [OF assms] unfolding chunk_members_def by blast

text \<open>A loop that ends well has done its work on every element, when later steps do not undo it.\<close>

lemma for_each_done:
  assumes "for_each body xs s = (Inr (), s')" "I s"
    and step: "\<And>x s s'. x \<in> set xs \<Longrightarrow> I s \<Longrightarrow> body x s = (Inr (), s') \<Longrightarrow>
      I s' \<and> finished x s' \<and> (\<forall>y. finished y s \<longrightarrow> finished y s')"
  shows "I s' \<and> (\<forall>x\<in>set xs. finished x s') \<and> (\<forall>y. finished y s \<longrightarrow> finished y s')"
  using assms
proof (induction xs arbitrary: s)
  case Nil
  then show ?case by simp
next
  case (Cons x xs)
  from Cons.prems(1) obtain s1 where s1: "body x s = (Inr (), s1)" "for_each body xs s1 = (Inr (), s')"
    by (auto simp: and_then_ok_iff)
  with Cons.prems(3) [of x s s1] Cons.prems(2) have "I s1" "finished x s1" "\<forall>y. finished y s \<longrightarrow> finished y s1"
    by auto
  moreover from s1(2) \<open>I s1\<close> have "I s' \<and> (\<forall>x\<in>set xs. finished x s') \<and> (\<forall>y. finished y s1 \<longrightarrow> finished y s')"
    by (rule Cons.IH) (rule Cons.prems(3); simp)
  ultimately show ?case by simp
qed

text \<open>What the two loops leave alone: the round and its chunks stay sound and only shrink.\<close>

definition dropping :: "Participant set \<Rightarrow> Round \<Rightarrow> Round \<times> Disk \<Rightarrow> bool" where
  "dropping ids r s \<longleftrightarrow> round_sound ids (fst s) \<and> shrinks r (fst s)"

lemma remove_lock_ok:
  assumes "remove_lock_unsafe p h e c (r, d) = (Inr (), r', d')"
  obtains k where "round_chunk r c = Inr k" "r' = r\<lparr>chunks := (chunks r)[c := k\<lparr>lock_holder := None\<rparr>]\<rparr>"
  using assms unfolding remove_lock_unsafe_def Let_def prod.case
  by (auto split: if_splits sum.splits prod.splits)

lemma unlocked_in_round:
  "chunk_in_round e ids i k \<Longrightarrow> chunk_in_round e ids i (k\<lparr>lock_holder := None\<rparr>)"
  by (auto simp: chunk_in_round_def chunk_wf_def chunk_members_def)

definition unlocked_by :: "Participant \<Rightarrow> u64 \<Rightarrow> Round \<times> Disk \<Rightarrow> bool" where
  "unlocked_by p c s \<longleftrightarrow> c < length (chunks (fst s)) \<longrightarrow> lock_holder (chunks (fst s) ! c) \<noteq> Some p"

lemma remove_lock_step:
  assumes "dropping ids r s" "remove_lock_unsafe p h e c s = (Inr (), s')"
  shows "dropping ids r s' \<and> unlocked_by p c s' \<and> (\<forall>y. unlocked_by p y s \<longrightarrow> unlocked_by p y s')"
proof -
  obtain r1 d1 r2 d2 where s: "s = (r1, d1)" "s' = (r2, d2)" by fastforce
  with assms(2) obtain k where k: "round_chunk r1 c = Inr k"
    "r2 = r1\<lparr>chunks := (chunks r1)[c := k\<lparr>lock_holder := None\<rparr>]\<rparr>" by (auto elim: remove_lock_ok)
  have "round_sound ids r2"
    using assms(1) s k by (auto simp: dropping_def intro: round_sound_update unlocked_in_round round_chunk_in_round)
  moreover have "shrinks r1 r2" unfolding k(2) by (rule shrinks_update [OF k(1)]) (simp add: chunk_shrinks_def)
  ultimately show ?thesis
    using assms(1) s k
    by (auto simp: dropping_def unlocked_by_def nth_list_update round_chunk_ok_iff intro: shrinks_trans)
qed

lemma remove_task_ok:
  assumes "remove_task_unsafe t (r, d) = (Inr (), r', d')"
  obtains (absent) k where "round_chunk r (chunk_id t) = Inr k" "map_of (contributions k) (contribution_id t) = None" "r' = r"
    | (present) k where "round_chunk r (chunk_id t) = Inr k"
      "r' = r\<lparr>chunks := (chunks r)[chunk_id t := remove_contributions_from k (contribution_id t)]\<rparr>"
  using assms unfolding remove_task_unsafe_def Let_def prod.case
  by (auto simp: get_contribution_def split: if_splits sum.splits prod.splits option.splits)

lemma cut_shrinks: "map_of (cut_at i m) \<subseteq>\<^sub>m map_of m"
  unfolding cut_at_def map_of_filter_keys [of "\<lambda>j. \<not> (i \<le> j \<and> j < length m)"]
  by (auto simp: map_le_def map_of_filter_keys split: if_splits)

lemma removed_chunk_in_round:
  assumes "chunk_in_round e ids c k" "1 \<le> i"
  shows "chunk_in_round e ids c (remove_contributions_from k i)"
    "chunk_shrinks k (remove_contributions_from k i)"
    "map_of (contributions (remove_contributions_from k i)) i = None"
proof -
  from assms have wf: "contributions_wf e (contributions k)" by (simp add: chunk_in_round_def chunk_wf_def)
  show sh: "chunk_shrinks k (remove_contributions_from k i)"
    by (simp add: chunk_shrinks_def remove_contributions_from_eq cut_shrinks)
  have "map_of (contributions k) j = Some v" if "map_of (cut_at i (contributions k)) j = Some v" for j v
    using cut_shrinks [of i "contributions k"] that by (auto simp: map_le_def dom_def)
  then have "chunk_members (remove_contributions_from k i) \<subseteq> chunk_members k"
    by (auto simp: chunk_members_def remove_contributions_from_eq)
  with assms remove_contributions_from_wf [of e k i] show "chunk_in_round e ids c (remove_contributions_from k i)"
    by (auto simp: chunk_in_round_def remove_contributions_from_eq)
  show "map_of (contributions (remove_contributions_from k i)) i = None"
  proof (cases "i < length (contributions k)")
    case True
    with cut_contributions(4) [OF wf True, of i] show ?thesis by (simp add: remove_contributions_from_eq)
  next
    case False
    with contributions_wf_lookup [OF wf, of i] have "map_of (contributions k) i = None" by auto
    with cut_shrinks [of i "contributions k"] show ?thesis
      by (auto simp: remove_contributions_from_eq map_le_def dom_def)
  qed
qed

definition removed_task :: "Task \<Rightarrow> Round \<times> Disk \<Rightarrow> bool" where
  "removed_task t s \<longleftrightarrow> chunk_id t < length (chunks (fst s)) \<longrightarrow>
     map_of (contributions (chunks (fst s) ! chunk_id t)) (contribution_id t) = None"

lemma removed_task_shrinks:
  assumes "removed_task t s" "shrinks (fst s) (fst s')"
  shows "removed_task t s'"
  using assms(1) shrinks_frames(3) [OF assms(2)] shrinks_lookup(1) [OF assms(2), of "chunk_id t" "contribution_id t"]
  by (cases "map_of (contributions (chunks (fst s') ! chunk_id t)) (contribution_id t)")
    (auto simp: removed_task_def)

lemma remove_task_step:
  assumes "dropping ids r s" "remove_task_unsafe t s = (Inr (), s')" "1 \<le> contribution_id t"
  shows "dropping ids r s' \<and> removed_task t s' \<and> (\<forall>y. removed_task y s \<longrightarrow> removed_task y s')"
proof -
  obtain r1 d1 r2 d2 where s: "s = (r1, d1)" "s' = (r2, d2)" by fastforce
  with assms(1) have wf: "round_sound ids r1" by (simp add: dropping_def)
  from assms(2) s have "remove_task_unsafe t (r1, d1) = (Inr (), r2, d2)" by simp
  then have "round_sound ids r2 \<and> shrinks r1 r2 \<and> removed_task t (r2, d2)"
  proof (cases rule: remove_task_ok)
    case (absent k)
    with wf shrinks_refl show ?thesis by (auto simp: removed_task_def round_chunk_ok_iff)
  next
    case (present k)
    note k = removed_chunk_in_round [OF round_chunk_in_round [OF wf present(1)] assms(3)]
    have "round_sound ids r2" unfolding present(2) by (rule round_sound_update [OF wf k(1)])
    moreover have "shrinks r1 r2" unfolding present(2) by (rule shrinks_update [OF present(1) k(2)])
    moreover have "removed_task t (r2, d2)" using k(3) present by (simp add: removed_task_def round_chunk_ok_iff)
    ultimately show ?thesis by simp
  qed
  with assms(1) s show ?thesis
    by (auto simp: dropping_def intro: shrinks_trans removed_task_shrinks)
qed

lemma nothing_left:
  assumes "shrinks r r1" "shrinks r1 r2" "c < length (chunks r)"
    and "lock_holder (chunks r ! c) = Some p \<Longrightarrow> lock_holder (chunks r1 ! c) \<noteq> Some p"
    and "\<And>i k. map_of (contributions (chunks r ! c)) i = Some k \<Longrightarrow> contributor_id k = Some p \<Longrightarrow>
      map_of (contributions (chunks r2 ! c)) i = None"
  shows "p \<notin> chunk_members (chunks r2 ! c)"
proof
  assume "p \<in> chunk_members (chunks r2 ! c)"
  moreover have "c < length (chunks r1)" using assms(3) shrinks_frames(3) [OF assms(1)] by simp
  note sh = shrinks_lookup [OF assms(2) this] shrinks_lookup [OF shrinks_trans [OF assms(1,2)] assms(3)]
  ultimately consider "lock_holder (chunks r1 ! c) = Some p" "lock_holder (chunks r ! c) = Some p"
    | i k where "map_of (contributions (chunks r2 ! c)) i = Some k"
        "map_of (contributions (chunks r ! c)) i = Some k" "contributor_id k = Some p"
    using sh unfolding chunk_members_def by blast
  then show False using assms(4,5) by cases auto
qed

text \<open>
  When the tasks name every contribution of the dropped contributor and the locked chunks all
  its locks, nothing of it is left in the round.
\<close>

definition names_all :: "Round \<Rightarrow> Participant \<Rightarrow> u64 list \<Rightarrow> Task list \<Rightarrow> bool" where
  "names_all r p locked ts \<longleftrightarrow> (\<forall>c<length (chunks r).
     (lock_holder (chunks r ! c) = Some p \<longrightarrow> c \<in> set locked) \<and>
     (\<forall>i k. map_of (contributions (chunks r ! c)) i = Some k \<longrightarrow> contributor_id k = Some p \<longrightarrow>
        \<lparr>chunk_id = c, contribution_id = i\<rparr> \<in> set ts))"

lemma remove_contributor_ok:
  assumes wf: "round_sound ids r"
    and run: "remove_contributor_unsafe p locked ts (r, d) = (Inr (), r', d')"
    and pos: "\<forall>t\<in>set ts. 1 \<le> contribution_id t"
    and p: "is_contributor p"
  obtains r1 where "round_sound ids r1" "shrinks r r1" "length (filter (\<lambda>q. q = p) (contributor_ids r)) = 1"
    "names_all r p locked ts \<longrightarrow> (\<forall>c<length (chunks r1). p \<notin> chunk_members (chunks r1 ! c))"
    "r' = r1\<lparr>contributor_ids := filter (\<lambda>q. q \<noteq> p) (contributor_ids r1)\<rparr>"
proof -
  let ?locked = "filter (\<lambda>c. is_chunk_locked_by r c p) locked"
  from run obtain s1 s2 where s1: "remove_locks_unsafe p locked (r, d) = (Inr (), s1)"
    and s2: "remove_chunk_contributions_unsafe p ts s1 = (Inr (), s2)"
    and r': "r' = (fst s2)\<lparr>contributor_ids := filter (\<lambda>q. q \<noteq> p) (contributor_ids (fst s2))\<rparr>"
    by (auto simp: remove_contributor_unsafe_def and_then_ok_iff split: prod.splits)
  have "dropping ids r (r, d)" using wf shrinks_refl by (simp add: dropping_def)
  with s1 have u: "dropping ids r s1 \<and> (\<forall>c\<in>set ?locked. unlocked_by p c s1) \<and>
      (\<forall>c. unlocked_by p c (r, d) \<longrightarrow> unlocked_by p c s1)"
    unfolding remove_locks_unsafe_def fst_conv by (rule for_each_done) (rule remove_lock_step)
  from s2 p have tsr: "for_each remove_task_unsafe ts s1 = (Inr (), s2)"
    and one: "length (filter (\<lambda>q. q = p) (contributor_ids (fst s1))) = 1"
    by (auto simp: remove_chunk_contributions_unsafe_def split: if_splits)
  have ids: "contributor_ids (fst s1) = contributor_ids r" using u shrinks_frames by (simp add: dropping_def)
  from u have sh1: "shrinks r (fst s1)" and "dropping ids (fst s1) s1" by (simp_all add: dropping_def shrinks_refl)
  have "dropping ids (fst s1) s2 \<and> (\<forall>t\<in>set ts. removed_task t s2) \<and>
      (\<forall>t. removed_task t s1 \<longrightarrow> removed_task t s2)"
    using tsr \<open>dropping ids (fst s1) s1\<close> by (rule for_each_done) (rule remove_task_step; use pos in simp)
  then have wf2: "round_sound ids (fst s2)" and sh: "shrinks (fst s1) (fst s2)"
    and rm: "\<And>t. t \<in> set ts \<Longrightarrow> removed_task t s2"
    by (auto simp: dropping_def)
  from sh1 sh have d2: "shrinks r (fst s2)" by (rule shrinks_trans)
  show ?thesis
  proof (rule that [OF wf2 d2 _ _ r'])
    show "length (filter (\<lambda>q. q = p) (contributor_ids r)) = 1" using one ids by simp
    show "names_all r p locked ts \<longrightarrow> (\<forall>c<length (chunks (fst s2)). p \<notin> chunk_members (chunks (fst s2) ! c))"
    proof (intro impI allI)
      fix c
      assume all: "names_all r p locked ts" and "c < length (chunks (fst s2))"
      from all have locks: "\<And>c. c < length (chunks r) \<Longrightarrow> lock_holder (chunks r ! c) = Some p \<Longrightarrow> c \<in> set locked"
      and tasks: "\<And>c i k. c < length (chunks r) \<Longrightarrow> map_of (contributions (chunks r ! c)) i = Some k \<Longrightarrow>
        contributor_id k = Some p \<Longrightarrow> \<lparr>chunk_id = c, contribution_id = i\<rparr> \<in> set ts"
      unfolding names_all_def by blast+
      from \<open>c < length (chunks (fst s2))\<close> shrinks_frames(3) [OF d2] shrinks_frames(3) [OF sh]
      have c: "c < length (chunks r)" "c < length (chunks (fst s1))" "c < length (chunks (fst s2))" by simp_all
      show "p \<notin> chunk_members (chunks (fst s2) ! c)"
      proof (rule nothing_left [OF sh1 sh c(1)])
        assume "lock_holder (chunks r ! c) = Some p"
        then have "c \<in> set ?locked"
          using locks [OF c(1)] c(1) round_chunk_sound [OF wf] by (simp add: is_chunk_locked_by_def)
        with u c(2) show "lock_holder (chunks (fst s1) ! c) \<noteq> Some p" by (auto simp: unlocked_by_def)
      next
        fix i k
        assume "map_of (contributions (chunks r ! c)) i = Some k" "contributor_id k = Some p"
        from rm [OF tasks [OF c(1) this]] c(3) show "map_of (contributions (chunks (fst s2) ! c)) i = None"
          by (simp add: removed_task_def)
      qed
    qed
  qed
qed

section \<open>The life of a round\<close>

text \<open>
  The steps that the coordinator takes on the current round when they succeed (after an error it
  does not save the round): \<^verbatim>\<open>try_lock_chunk\<close>, \<^verbatim>\<open>add_contribution\<close>, \<^verbatim>\<open>verify_contribution\<close>,
  the release of locks by the operator, the replacement of a dropped contributor by another one,
  with the tasks and locks that its books name, and the reset. The files on disk may change
  between them. The contribution numbers of tasks start at 1. The parameter is a condition on
  the replacements, for the theorems to choose; the code itself has none.
\<close>

inductive stored_round_step ::
  "(Round \<Rightarrow> Participant \<Rightarrow> Participant \<Rightarrow> u64 list \<Rightarrow> Task list \<Rightarrow> bool) \<Rightarrow> Round \<Rightarrow> Round \<Rightarrow> bool"
  for ok :: "Round \<Rightarrow> Participant \<Rightarrow> Participant \<Rightarrow> u64 list \<Rightarrow> Task list \<Rightarrow> bool" where
  lock: "try_lock_chunk sizes environment d r c p = (Inr locked, r', d') \<Longrightarrow> stored_round_step ok r r'"
| contribute: "round_chunk r c = Inr k \<Longrightarrow>
     next_contribution_id k (expected_number_of_contributions r) = Inr i \<Longrightarrow>
     on_chunk r c (\<lambda>chunk. add_contribution chunk i p l s) = (Inr (), r') \<Longrightarrow> stored_round_step ok r r'"
| verify: "round_chunk r c = Inr k \<Longrightarrow>
     round_verify_contribution r c (current_contribution_id k) v l s now = (Inr (), r') \<Longrightarrow> stored_round_step ok r r'"
| unlock: "remove_locks_unsafe p cs (r, d) = (Inr (), r', d') \<Longrightarrow> stored_round_step ok r r'"
| replace: "is_contributor p \<Longrightarrow> (\<forall>t\<in>set ts. 1 \<le> contribution_id t) \<Longrightarrow> ok r p q locked ts \<Longrightarrow>
     remove_contributor_unsafe p locked ts (r, d) = (Inr (), r1, d') \<Longrightarrow>
     round_add_replacement_contributor_unsafe r1 q = (Inr (), r') \<Longrightarrow> stored_round_step ok r r'"
| reset: "stored_round_step ok r (round_reset r ps)"

definition round_init :: "Round \<Rightarrow> bool" where
  "round_init r \<longleftrightarrow> (\<exists>environment d h t ids. round_new environment d h t ids = Inr r)"

text \<open>A replacement by somebody new, with complete lists of what the dropped contributor has in the round.\<close>

definition clean_replacement :: "Round \<Rightarrow> Participant \<Rightarrow> Participant \<Rightarrow> u64 list \<Rightarrow> Task list \<Rightarrow> bool" where
  "clean_replacement r p q locked ts \<longleftrightarrow> q \<notin> set (contributor_ids r) \<and> names_all r p locked ts"

lemma length_replaced:
  "length (filter (\<lambda>q. q = p) xs) = 1 \<Longrightarrow> Suc (length (filter (\<lambda>q. q \<noteq> p) xs)) = length xs"
  using sum_length_filter_compl [of "\<lambda>q. q = p" xs] by simp

lemma removed_locks_sound:
  assumes "round_sound ids r" "remove_locks_unsafe p cs (r, d) = (Inr (), r', d')"
  shows "round_sound ids r'" "contributor_ids r' = contributor_ids r"
proof -
  have "dropping ids r (r, d)" using assms(1) shrinks_refl by (simp add: dropping_def)
  with assms(2) have "dropping ids r (r', d') \<and> (\<forall>c\<in>set (filter (\<lambda>c. is_chunk_locked_by r c p) cs). unlocked_by p c (r', d')) \<and>
      (\<forall>c. unlocked_by p c (r, d) \<longrightarrow> unlocked_by p c (r', d'))"
    unfolding remove_locks_unsafe_def fst_conv by (rule for_each_done) (rule remove_lock_step)
  then show "round_sound ids r'" "contributor_ids r' = contributor_ids r"
    using shrinks_frames(1) by (auto simp: dropping_def)
qed

lemma replaced_round:
  assumes "round_sound ids r" "is_contributor p" "\<forall>t\<in>set ts. 1 \<le> contribution_id t"
    "remove_contributor_unsafe p locked ts (r, d) = (Inr (), r1, d')"
    "round_add_replacement_contributor_unsafe r1 q = (Inr (), r')"
  obtains "is_contributor q" "length (filter (\<lambda>x. x = p) (contributor_ids r)) = 1"
    "contributor_ids r' = filter (\<lambda>x. x \<noteq> p) (contributor_ids r) @ [q]" "length (chunks r') = length (chunks r)"
    "\<forall>i<length (chunks r'). chunk_in_round (expected_number_of_contributions r') ids i (chunks r' ! i)"
    "names_all r p locked ts \<longrightarrow> (\<forall>i<length (chunks r'). p \<notin> chunk_members (chunks r' ! i))"
proof -
  obtain r0 where r0: "round_sound ids r0" "shrinks r r0" "length (filter (\<lambda>q. q = p) (contributor_ids r)) = 1"
    "names_all r p locked ts \<longrightarrow> (\<forall>c<length (chunks r0). p \<notin> chunk_members (chunks r0 ! c))"
    and r1: "r1 = r0\<lparr>contributor_ids := filter (\<lambda>q. q \<noteq> p) (contributor_ids r0)\<rparr>"
    using remove_contributor_ok [OF assms(1,4,3,2)] .
  note same = shrinks_frames [OF r0(2)]
  have q: "is_contributor q" and r': "r' = r0\<lparr>contributor_ids := filter (\<lambda>x. x \<noteq> p) (contributor_ids r0) @ [q]\<rparr>"
    using assms(5) r1 by (auto simp: round_add_replacement_contributor_unsafe_def split: if_splits)
  have "expected_number_of_contributions r' = expected_number_of_contributions r0"
    using length_replaced [OF r0(3)] by (simp add: r' same expected_number_of_contributions_def)
  with r0 q r' same show ?thesis by (intro that) (simp_all add: round_sound_def)
qed

text \<open>Every step keeps the chunks of the round sound.\<close>

lemma stored_round_step_sound: "stored_round_step ok r r' \<Longrightarrow> round_sound UNIV r \<Longrightarrow> round_sound UNIV r'"
proof (induction rule: stored_round_step.induct)
  case (replace p ts r q locked d r1 d' r')
  show ?case
    using replace.prems replace.hyps(1,2,4,5)
    by (rule replaced_round) (use replace.prems in \<open>auto simp: round_sound_def\<close>)
next
  case (reset r ps)
  then show ?case by (blast intro: round_reset_sound)
qed (blast intro: try_lock_chunk_sound round_add_contribution_sound round_verify_contribution_sound removed_locks_sound)+

text \<open>With clean replacements every step keeps the round well-formed.\<close>

lemma replaced_wf:
  assumes "round_wf r" "is_contributor p" "\<forall>t\<in>set ts. 1 \<le> contribution_id t" "clean_replacement r p q locked ts"
    "remove_contributor_unsafe p locked ts (r, d) = (Inr (), r1, d')"
    "round_add_replacement_contributor_unsafe r1 q = (Inr (), r')"
  shows "round_wf r'"
  using round_wf_sound [OF assms(1)] assms(2,3,5,6)
proof (rule replaced_round)
  assume q: "is_contributor q" and ids: "contributor_ids r' = filter (\<lambda>x. x \<noteq> p) (contributor_ids r) @ [q]"
    and ch: "\<forall>i<length (chunks r'). chunk_in_round (expected_number_of_contributions r') (set (contributor_ids r)) i (chunks r' ! i)"
    and gone: "names_all r p locked ts \<longrightarrow> (\<forall>i<length (chunks r'). p \<notin> chunk_members (chunks r' ! i))"
  from gone assms(4) have "\<forall>i<length (chunks r'). p \<notin> chunk_members (chunks r' ! i)" by (simp add: clean_replacement_def)
  with ch have "\<forall>i<length (chunks r'). chunk_in_round (expected_number_of_contributions r') (set (contributor_ids r')) i (chunks r' ! i)"
    by (fastforce simp: ids chunk_in_round_def)
  with assms(1,4) q show ?thesis by (auto simp: round_wf_def round_sound_def ids clean_replacement_def)
qed

lemma stored_round_step_wf:
  assumes "stored_round_step ok r r'" "round_wf r"
    and ok: "\<And>r p q locked ts. ok r p q locked ts \<Longrightarrow> clean_replacement r p q locked ts"
  shows "round_wf r'"
  using assms(1,2)
proof (induction rule: stored_round_step.induct)
  case (lock sizes environment d r c p locked r' d')
  from try_lock_chunk_sound [OF round_wf_sound lock(1)] lock(2) show ?case by (blast intro: round_wfI)
next
  case (contribute r c k i p l s r')
  from round_add_contribution_sound [OF round_wf_sound contribute(1-3)] contribute(4) show ?case by (blast intro: round_wfI)
next
  case (verify r c k v l s now r')
  from round_verify_contribution_sound [OF round_wf_sound verify(1,2)] verify(3) show ?case by (blast intro: round_wfI)
next
  case (unlock p cs r d r' d')
  from removed_locks_sound [OF round_wf_sound unlock(1)] unlock(2) show ?case by (blast intro: round_wfI)
next
  case (replace p ts r q locked d r1 d' r')
  then show ?case by (blast intro: replaced_wf ok)
qed (rule round_reset_wf)

lemma round_wf_sound_any: "round_wf r \<Longrightarrow> round_sound UNIV r"
  by (auto simp: round_wf_def round_sound_def chunk_in_round_def)

interpretation round: invariant_system round_init "stored_round_step (\<lambda>_ _ _ _ _. True)" "round_sound UNIV"
  by unfold_locales (auto simp: round_init_def intro: round_wf_sound_any round_new_wf stored_round_step_sound)

interpretation clean_round: invariant_system round_init "stored_round_step clean_replacement" round_wf
  by unfold_locales (auto simp: round_init_def intro: round_new_wf stored_round_step_wf)

section \<open>Properties\<close>

text \<open>A disk with nothing on it, and a round of two contributors in the default testing environment.\<close>

definition empty_disk :: "Environment \<Rightarrow> Disk" where
  "empty_disk environment = \<lparr>disk_environment = environment, disk_base = local_base_directory environment,
     disk_files = [], disk_dirs = [local_base_directory environment]\<rparr>"

definition sample_sizes :: curve_sizes where
  "sample_sizes _ = \<lparr>g1_size = 4, g2_size = 8, g1_compressed_size = 2, g2_compressed_size = 4\<rparr>"

definition sample_round :: "Participant list \<Rightarrow> Round" where
  "sample_round ids = \<lparr>r_version = 1, r_height = 1, r_started_at = Some 0, r_finished_at = None,
     contributor_ids = ids, verifier_ids = [],
     chunks = map (fresh_chunk (empty_disk (the testing_default)) 1 (Verifier ''testing-coordinator-verifier'')) [0, 1, 2]\<rparr>"

lemma sample_round_new:
  "round_new (the testing_default) (empty_disk (the testing_default)) 1 0 [Contributor ''a'', Contributor ''b''] =
     Inr (sample_round [Contributor ''a'', Contributor ''b''])"
proof -
  have "case round_new (the testing_default) (empty_disk (the testing_default)) 1 0 [Contributor ''a'', Contributor ''b''] of
      Inl _ \<Rightarrow> False | Inr r \<Rightarrow> r = sample_round [Contributor ''a'', Contributor ''b'']"
    by code_simp
  then show ?thesis by (auto split: sum.splits)
qed

lemma sample_round_wf: "round_wf (sample_round [Contributor ''a'', Contributor ''b''])"
  by (rule round_new_wf [OF sample_round_new])

text \<open>A contributor locks a chunk and contributes to it, and a verifier verifies the contribution.\<close>

definition sample_contribute :: "Participant \<Rightarrow> u64 \<Rightarrow> Round \<Rightarrow> Round option" where
  "sample_contribute p c r =
     (case try_lock_chunk sample_sizes (the testing_default) (empty_disk (the testing_default)) r c p of
        (Inl _, _, _) \<Rightarrow> None
      | (Inr _, r1, _) \<Rightarrow>
          (case round_chunk r1 c of
             Inl _ \<Rightarrow> None
           | Inr k \<Rightarrow>
               (case next_contribution_id k (expected_number_of_contributions r1) of
                  Inl _ \<Rightarrow> None
                | Inr i \<Rightarrow>
                    (case on_chunk r1 c (\<lambda>chunk. add_contribution chunk i p ''response'' ''signature'') of
                       (Inl _, _) \<Rightarrow> None
                     | (Inr _, r2) \<Rightarrow>
                         (case round_chunk r2 c of
                            Inl _ \<Rightarrow> None
                          | Inr k2 \<Rightarrow>
                              (case round_verify_contribution r2 c (current_contribution_id k2) (Verifier ''v'')
                                      ''verified'' ''verified-signature'' 5 of
                                 (Inl _, _) \<Rightarrow> None
                               | (Inr _, r3) \<Rightarrow> Some r3))))))"

lemma sample_contribute_steps:
  assumes "sample_contribute p c r = Some r'"
  shows "(stored_round_step ok)\<^sup>*\<^sup>* r r'"
proof -
  from assms obtain locked r1 d1 k i r2 k2 where
    1: "try_lock_chunk sample_sizes (the testing_default) (empty_disk (the testing_default)) r c p = (Inr locked, r1, d1)"
    and 2: "round_chunk r1 c = Inr k" "next_contribution_id k (expected_number_of_contributions r1) = Inr i"
      "on_chunk r1 c (\<lambda>chunk. add_contribution chunk i p ''response'' ''signature'') = (Inr (), r2)"
    and 3: "round_chunk r2 c = Inr k2" "round_verify_contribution r2 c (current_contribution_id k2) (Verifier ''v'')
      ''verified'' ''verified-signature'' 5 = (Inr (), r')"
    by (auto simp: sample_contribute_def split: prod.splits sum.splits)
  from stored_round_step.lock [OF 1] stored_round_step.contribute [OF 2] stored_round_step.verify [OF 3]
  have "stored_round_step ok r r1" "stored_round_step ok r1 r2" "stored_round_step ok r2 r'" by blast+
  then show ?thesis by (meson converse_rtranclp_into_rtranclp rtranclp.rtrancl_refl)
qed

text \<open>Both contributors of the sample round contribute to its three chunks.\<close>

definition sample_complete :: "Round option" where
  "sample_complete = fold (\<lambda>(p, c) r. Option.bind r (sample_contribute p c))
     [(Contributor ''a'', 0), (Contributor ''b'', 0), (Contributor ''b'', 1),
      (Contributor ''a'', 1), (Contributor ''a'', 2), (Contributor ''b'', 2)]
     (Some (sample_round [Contributor ''a'', Contributor ''b'']))"

lemma sample_complete_steps:
  assumes "sample_complete = Some r"
  shows "(stored_round_step ok)\<^sup>*\<^sup>* (sample_round [Contributor ''a'', Contributor ''b'']) r"
proof -
  have "(stored_round_step ok)\<^sup>*\<^sup>* r0 r'"
    if "fold (\<lambda>(p, c) r. Option.bind r (sample_contribute p c)) ws (Some r0) = Some r'" for ws r0 r'
    using that
  proof (induction ws arbitrary: r0)
    case (Cons w ws)
    obtain p c where w: "w = (p, c)" by (cases w)
    have none: "fold (\<lambda>(p, c) r. Option.bind r (sample_contribute p c)) ws None = None" for ws
      by (induction ws) auto
    from Cons.prems w none obtain r1 where "sample_contribute p c r0 = Some r1"
      "fold (\<lambda>(p, c) r. Option.bind r (sample_contribute p c)) ws (Some r1) = Some r'"
      by (cases "sample_contribute p c r0") auto
    with Cons.IH sample_contribute_steps show ?case by (meson rtranclp_trans)
  qed simp
  with assms show ?thesis unfolding sample_complete_def by blast
qed

lemma sample_complete_ok:
  "case sample_complete of None \<Rightarrow> False
   | Some r \<Rightarrow> round_is_complete r \<and> contributor_ids r = [Contributor ''a'', Contributor ''b''] \<and> length (chunks r) = 3"
  by code_simp

lemma sample_round_init: "round_init (sample_round [Contributor ''a'', Contributor ''b''])"
  unfolding round_init_def by (intro exI) (rule sample_round_new)

text \<open>
  C27. Every round that the coordinator can reach from a new one by locking chunks, adding and
  verifying contributions, releasing locks, replacing dropped contributors and resetting is
  sound, whoever the replacements are: its contributors are contributors, its chunks are
  numbered by position, and each is well-formed for the number of contributions that the round
  expects. When every replacement was new to the round and the lists of tasks and locks that
  came with the drop named all that the dropped contributor had in it, neither of which the
  round checks, it is well-formed: its contributors are different, and only they hold locks or
  have contributions in it.
\<close>

theorem round_reachable_wf:
  assumes "round_init r" and "(stored_round_step (\<lambda>_ _ _ _ _. True))\<^sup>*\<^sup>* r r'"
  shows "round_sound UNIV r' \<and> ((stored_round_step clean_replacement)\<^sup>*\<^sup>* r r' \<longrightarrow> round_wf r')"
  using round.inv_reachable [OF assms] clean_round.inv_reachable [OF assms(1)] by blast

theorem round_reachable_wf_witness:
  "\<exists>r. sample_complete = Some r \<and> round_wf r \<and> round_sound UNIV (round_reset r [Contributor ''a''])"
proof -
  obtain r where r: "sample_complete = Some r" using sample_complete_ok by (auto split: option.splits)
  note run = sample_complete_steps [OF r]
  have "(stored_round_step (\<lambda>_ _ _ _ _. True))\<^sup>*\<^sup>* (sample_round [Contributor ''a'', Contributor ''b''])
      (round_reset r [Contributor ''a''])"
    using run stored_round_step.reset by (rule rtranclp.rtrancl_into_rtrancl)
  from round_reachable_wf [OF sample_round_init this] round_reachable_wf [OF sample_round_init run] run r
  show ?thesis by blast
qed

text \<open>
  Locking a chunk is atomic: on an error neither the round nor the files change, and on
  success the chunk was free, it is now locked by the contributor, no other chunk changes, and
  the only files that are touched are the response file of the next contribution and its
  signature, new and of the sizes that the environment prescribes.
\<close>

theorem try_lock_chunk_atomic:
  assumes "round_wf r"
  shows "case try_lock_chunk sizes environment d r c p of
      (Inl _, r', d') \<Rightarrow> r' = r \<and> d' = d
    | (Inr locked, r', d') \<Rightarrow>
        (let i = length (contributions (chunks r ! c));
             response = ContributionFile (contribution_locator (r_height r) c i False);
             sig = ContributionFileSignatureFile (signature_locator (r_height r) c i False)
         in c < length (chunks r) \<and> lock_holder (chunks r ! c) = None \<and> p \<in> set (contributor_ids r) \<and>
            r' = r\<lparr>chunks := (chunks r)[c := (chunks r ! c)\<lparr>lock_holder := Some p\<rparr>]\<rparr> \<and>
            ContributionFile (locked_next locked) = response \<and>
            ContributionFileSignatureFile (locked_next_signature locked) = sig \<and>
            touches {response, sig} d d' \<and> \<not> disk_exists d response \<and> \<not> disk_exists d sig \<and>
            file_at d' response = Some (replicate (contribution_file_size sizes environment c False) 0) \<and>
            file_at d' sig = Some (replicate 471 0))"
proof (cases rule: try_lock_chunk_cases [of sizes environment d r c p])
  case (error e)
  then show ?thesis by simp
next
  case (ok locked k i d')
  from ok(6) have k: "c < length (chunks r)" "k = chunks r ! c" by (simp_all add: round_chunk_ok_iff)
  have i: "i = length (contributions k)"
    using next_id_eq(1) [OF round_wf_chunk(4) [OF assms k(1)]] ok(7) k(2) by blast
  have "locked_next locked = contribution_locator (r_height r) c i False \<and>
      locked_next_signature locked = signature_locator (r_height r) c i False \<and>
      \<not> disk_exists d (ContributionFile (contribution_locator (r_height r) c i False)) \<and>
      \<not> disk_exists d (ContributionFileSignatureFile (signature_locator (r_height r) c i False))"
    using ok(2) by (rule contributor_locators_ok) (use ok(6,7) in auto)
  with ok i k show ?thesis by (simp add: Let_def contribution_file_signature_size_def)
qed

theorem try_lock_chunk_atomic_witness:
  "case try_lock_chunk sample_sizes (the testing_default) (empty_disk (the testing_default))
      (sample_round [Contributor ''a'', Contributor ''b'']) 2 (Contributor ''a'') of
     (Inl _, _, _) \<Rightarrow> False
   | (Inr locked, r', d') \<Rightarrow> lock_holder (chunks r' ! 2) = Some (Contributor ''a'') \<and>
       locked_next locked = contribution_locator 1 2 1 False"
proof -
  have "is_ok (fst (try_lock_chunk sample_sizes (the testing_default) (empty_disk (the testing_default))
      (sample_round [Contributor ''a'', Contributor ''b'']) 2 (Contributor ''a'')))"
    by code_simp
  moreover have "length (chunks (sample_round ids)) = 3" "r_height (sample_round ids) = 1"
    "length (contributions (chunks (sample_round ids) ! 2)) = 1" for ids
    by (simp_all add: sample_round_def fresh_chunk_def numeral_2_eq_2)
  ultimately show ?thesis
    using try_lock_chunk_atomic [OF sample_round_wf, where sizes = sample_sizes and c = 2 and p = "Contributor ''a''"
        and environment = "the testing_default" and d = "empty_disk (the testing_default)"]
    by (auto simp: Let_def split: prod.splits sum.splits)
qed

text \<open>
  C33. In a complete round every contributor of the round has made exactly one contribution to
  every chunk, nobody else has, all of them and the initial one are verified, and no chunk is
  locked.
\<close>

theorem complete_round_contributions:
  assumes "round_wf r" "round_is_complete r" "c < length (chunks r)"
  shows "mset (spec_contributors (chunk_abs (chunks r ! c))) = mset (contributor_ids r) \<and>
    length (contributions (chunks r ! c)) = Suc (length (contributor_ids r)) \<and>
    (\<forall>i\<le>length (contributor_ids r). verified_at (chunks r ! c) i) \<and> lock_holder (chunks r ! c) = None"
  using complete_chunk_contributors [OF assms] by blast

theorem complete_round_contributions_witness:
  "\<exists>r. sample_complete = Some r \<and>
     mset (spec_contributors (chunk_abs (chunks r ! 1))) = {#Contributor ''a'', Contributor ''b''#} \<and>
     verified_at (chunks r ! 1) 1 \<and> verified_at (chunks r ! 1) 2"
proof -
  obtain r where r: "sample_complete = Some r" "round_is_complete r" "1 < length (chunks r)"
    "contributor_ids r = [Contributor ''a'', Contributor ''b'']"
    using sample_complete_ok by (auto split: option.splits)
  have "round_wf r" by (rule clean_round.inv_reachable [OF sample_round_init sample_complete_steps [OF r(1)]])
  from complete_round_contributions [OF this r(2,3)] r(1,4) show ?thesis by auto
qed

text \<open>
  Resetting a round takes every chunk back to its initial verified contribution and frees
  it, and takes the given participants out of the round.
\<close>

theorem round_reset_initial:
  assumes "round_wf r" "c < length (chunks r)"
  shows "\<exists>k. map_of (contributions (chunks r ! c)) 0 = Some k \<and> verified k \<and>
    chunks (round_reset r ps) ! c = \<lparr>chunk_chunk_id = c, lock_holder = None, contributions = [(0, k)]\<rparr> \<and>
    set (contributor_ids (round_reset r ps)) = set (contributor_ids r) - set ps"
proof -
  note wf = round_wf_chunk [OF assms]
  obtain k where "filter (\<lambda>(i, _). i = 0) (contributions (chunks r ! c)) = [(0, k)]"
    "map_of (contributions (chunks r ! c)) 0 = Some k" "verified k"
    using reset_contributions [OF wf(4)] .
  with wf(1) assms(2) show ?thesis
    by (intro exI [of _ k]) (cases "chunks r ! c"; auto simp: round_reset_def reset_chunk_eq)
qed

theorem round_reset_initial_witness:
  "lock_holder (chunks (round_reset (sample_round [Contributor ''a'', Contributor ''b'']) [Contributor ''a'']) ! 0) = None \<and>
   set (contributor_ids (round_reset (sample_round [Contributor ''a'', Contributor ''b'']) [Contributor ''a''])) =
     {Contributor ''b''}"
proof -
  have "0 < length (chunks (sample_round [Contributor ''a'', Contributor ''b'']))" by (simp add: sample_round_def)
  from round_reset_initial [OF sample_round_wf this, of "[Contributor ''a'']"] show ?thesis
    by (auto simp: sample_round_def)
qed

section \<open>Files that a drop leaves or takes away\<close>

text \<open>
  Releasing the lock of a dropped contributor removes the verified file of the current
  contribution of the chunk, which is the challenge for whoever contributes next.
\<close>

lemma remove_lock_loses_challenge:
  assumes "remove_lock_unsafe p h (expected_number_of_contributions r) c (r, d) = (Inr (), r', d')"
    and "round_wf r" "round_chunk r c = Inr k" "1 < length (contributions k)"
  shows "\<not> disk_exists d' (ContributionFile (contribution_locator h c (current_contribution_id k) True))"
proof -
  let ?e = "expected_number_of_contributions r"
  have wf: "contributions_wf ?e (contributions k)"
    using assms(2,3) round_wf_chunk(4) by (auto simp: round_chunk_ok_iff)
  obtain cur where cur: "map_of (contributions k) (length (contributions k) - 1) = Some cur"
    "current_contribution k = Inr cur" using current_entry [OF wf] .
  have contrib: "contributor_id cur \<noteq> None" using contributions_wf_entry(2) [OF wf cur(1)] assms(4) by auto
  from assms(1,3) have "is_ok (next_contribution_id k ?e)"
    unfolding remove_lock_unsafe_def Let_def prod.case by (auto split: if_splits sum.splits)
  then have "verified cur" "\<not> only_contributions_complete k ?e"
    using cur(2) by (auto simp: next_contribution_id_def split: if_splits)
  with assms(1,3) cur(2) contrib show ?thesis
    unfolding remove_lock_unsafe_def Let_def prod.case
    by (auto simp: disk_remove_def split: if_splits sum.splits prod.splits)
qed

text \<open>
  The removal of a task touches only the files of that contribution; the files of the later
  contributions, which leave the chunk with it, stay on disk. A chunk whose next response file
  is on disk already cannot be locked.
\<close>

lemma remove_location_touches:
  assumes "remove_location location d = (res, d')" "\<And>path l. location = Some path \<Longrightarrow> disk_locator d path = Inr l \<Longrightarrow> l \<in> L"
  shows "touches L d d'"
proof (cases location)
  case None
  with assms(1) show ?thesis by (simp add: remove_location_def)
next
  case (Some path)
  show ?thesis
  proof (cases "disk_locator d path")
    case (Inl e)
    with assms(1) Some show ?thesis by (simp add: remove_location_def)
  next
    case (Inr l)
    obtain d1 where "remove_if_exists d l = (Inr (), d1)" "touches {l} d d1" by (rule remove_if_exists_ok)
    with assms Some Inr touches_mono [of "{l}" d d1 L] show ?thesis by (simp add: remove_location_def)
  qed
qed

lemma remove_locations_touches:
  assumes "for_each remove_location ls d = (res, d')"
    "\<And>path l. Some path \<in> set ls \<Longrightarrow> disk_locator d path = Inr l \<Longrightarrow> l \<in> L"
  shows "touches L d d'"
  using assms
proof (induction ls arbitrary: d)
  case Nil
  then show ?case by simp
next
  case (Cons a ls)
  obtain r1 d1 where d1: "remove_location a d = (r1, d1)" by fastforce
  have t: "touches L d d1" using d1 by (rule remove_location_touches) (use Cons.prems(2) in auto)
  then have loc: "disk_locator d1 path = disk_locator d path" for path
    by (simp add: disk_locator_def touches_def)
  have "touches L d1 d'" if "r1 = Inr ()"
    by (rule Cons.IH) (use Cons.prems d1 that loc in auto)
  with t Cons.prems(1) d1 show ?case by (cases r1) (auto intro: touches_trans)
qed

lemma remove_task_touches:
  assumes "remove_task_unsafe t (r, d) = (res, r', d')" "round_chunk r (chunk_id t) = Inr k"
    "get_contribution k (contribution_id t) = Inr contribution"
    "\<And>path. path \<in> set (get_locators contribution) \<Longrightarrow> disk_locator d path \<noteq> Inr l"
  shows "file_at d' l = file_at d l"
proof -
  obtain res1 d1 where d1: "for_each remove_location
      [get_contributed_location contribution, get_contributed_signature_location contribution,
       get_verified_location contribution, get_verified_signature_location contribution] d = (res1, d1)"
    by fastforce
  then have "touches (- {l}) d d1"
    by (rule remove_locations_touches) (use assms(4) in \<open>auto simp: get_locators_def\<close>)
  moreover have "d' = d1" using assms(1-3) d1 unfolding remove_task_unsafe_def Let_def prod.case
    by (auto split: sum.splits)
  ultimately show ?thesis by (simp add: touches_def)
qed

lemma next_file_blocks_lock:
  assumes "round_chunk r c = Inr k" "next_contribution_id k (expected_number_of_contributions r) = Inr i"
    "disk_exists d (ContributionFile (contribution_locator (r_height r) c i False))"
  shows "\<not> is_ok (fst (try_lock_chunk sizes environment d r c p))"
proof (cases rule: try_lock_chunk_cases [of sizes environment d r c p])
  case (ok locked k' i' d')
  from ok(2) have False by (rule contributor_locators_ok) (use assms in auto)
  then show ?thesis ..
qed simp

end
