(* ===== verification/Object_Storage.thy ===== *)
theory Object_Storage
  imports File_Signatures Rounds Coordinator_Drops
begin

text \<open>
  \<^verbatim>\<open>phase1-coordinator/src/storage/storage.rs\<close> (objects and actions) and the operations of
  \<^verbatim>\<open>phase1-coordinator/src/storage/disk.rs\<close> that read and write objects. The JSON encoder and
  decoder of \<^verbatim>\<open>serde_json\<close> are fields of \<open>Externals\<close>, a parameter of the definitions.
\<close>

datatype Object =
    CoordinatorStateObject CoordinatorState
  | RoundHeightObject u64
  | RoundStateObject Round
  | RoundFileObject bytes
  | ContributionFileObject bytes
  | ContributionFileSignatureObject ContributionFileSignature

record Externals =
  crypto :: Crypto
  sizes :: curve_sizes
  state_to_json :: "CoordinatorState \<Rightarrow> bytes"
  state_of_json :: "bytes \<Rightarrow> CoordinatorState option"
  height_to_json :: "u64 \<Rightarrow> bytes"
  height_of_json :: "bytes \<Rightarrow> u64 option"
  round_to_json :: "Round \<Rightarrow> bytes"
  round_of_json :: "bytes \<Rightarrow> Round option"
  signature_to_json :: "ContributionFileSignature \<Rightarrow> bytes"
  signature_of_json :: "bytes \<Rightarrow> ContributionFileSignature option"

fun object_to_bytes :: "Externals \<Rightarrow> Object \<Rightarrow> bytes" where
  "object_to_bytes ext (CoordinatorStateObject state) = state_to_json ext state"
| "object_to_bytes ext (RoundHeightObject h) = height_to_json ext h"
| "object_to_bytes ext (RoundStateObject r) = round_to_json ext r"
| "object_to_bytes ext (RoundFileObject content) = content"
| "object_to_bytes ext (ContributionFileObject content) = content"
| "object_to_bytes ext (ContributionFileSignatureObject sig) = signature_to_json ext sig"

fun object_size :: "Externals \<Rightarrow> Object \<Rightarrow> u64" where
  "object_size ext (RoundFileObject content) = length content"
| "object_size ext (ContributionFileObject content) = length content"
| "object_size ext obj = length (object_to_bytes ext obj)"

definition json_result :: "'a option \<Rightarrow> CoordinatorError + 'a" where
  "json_result r = (case r of None \<Rightarrow> Inl JsonError | Some a \<Rightarrow> Inr a)"

definition disk_get :: "Externals \<Rightarrow> Disk \<Rightarrow> Locator \<Rightarrow> CoordinatorError + Object" where
  "disk_get ext self l =
     (case file_at self l of
        None \<Rightarrow> Inl StorageLocatorMissing
      | Some file_bytes \<Rightarrow>
          (let found_size = length file_bytes in
           case l of
             CoordinatorStateFile \<Rightarrow>
               result_bind (json_result (state_of_json ext file_bytes)) (\<lambda>state. Inr (CoordinatorStateObject state))
           | RoundHeightFile \<Rightarrow>
               result_bind (json_result (height_of_json ext file_bytes)) (\<lambda>h. Inr (RoundHeightObject h))
           | RoundState _ \<Rightarrow>
               result_bind (json_result (round_of_json ext file_bytes)) (\<lambda>r. Inr (RoundStateObject r))
           | RoundFile _ \<Rightarrow>
               (let expected_size = round_file_size (sizes ext) (disk_environment self)
                in if found_size = 0 \<or> expected_size \<noteq> found_size then Inl RoundFileSizeMismatch
                   else Inr (RoundFileObject file_bytes))
           | ContributionFile k \<Rightarrow>
               (let expected_size = contribution_file_size (sizes ext) (disk_environment self)
                      (cl_chunk_id k) (cl_is_verified k)
                in if found_size = 0 \<or> expected_size \<noteq> found_size then Inl ContributionFileSizeMismatch
                   else Inr (ContributionFileObject file_bytes))
           | ContributionFileSignatureFile k \<Rightarrow>
               (let expected_size = contribution_file_signature_size (sl_is_verified k)
                in if found_size = 0 \<or> expected_size \<noteq> found_size
                   then Inl ContributionSignatureFileSizeMismatch
                   else result_bind (json_result (signature_of_json ext file_bytes))
                          (\<lambda>sig. Inr (ContributionFileSignatureObject sig)))))"

definition disk_update :: "Externals \<Rightarrow> Disk \<Rightarrow> Locator \<Rightarrow> Object \<Rightarrow> (unit, Disk) fallible" where
  "disk_update ext self l obj =
     (if \<not> disk_exists self l then (Inl StorageLocatorMissing, self)
      else (Inr (), put_file l (object_to_bytes ext obj) self))"

definition disk_insert :: "Externals \<Rightarrow> Disk \<Rightarrow> Locator \<Rightarrow> Object \<Rightarrow> (unit, Disk) fallible" where
  "disk_insert ext self l obj =
     (if disk_exists self l then (Inl StorageLocatorAlreadyExists, self)
      else
        and_then (disk_initialize self l (object_size ext obj))
          (\<lambda>_ self. disk_update ext self l obj))"

definition disk_copy :: "Externals \<Rightarrow> Disk \<Rightarrow> Locator \<Rightarrow> Locator \<Rightarrow> (unit, Disk) fallible" where
  "disk_copy ext self source_locator destination_locator =
     (if \<not> disk_exists self source_locator then (Inl StorageLocatorMissing, self)
      else if disk_exists self destination_locator then (Inl StorageLocatorAlreadyExists, self)
      else
        (case disk_get ext self source_locator of
           Inl e \<Rightarrow> (Inl e, self)
         | Inr source_object \<Rightarrow>
             and_then (disk_initialize self destination_locator (object_size ext source_object))
               (\<lambda>_ self. disk_update ext self destination_locator source_object)))"

section \<open>Actions\<close>

datatype LocatorOrPath = AtPath LocatorPath | AtLocator Locator

definition try_into_locator :: "Disk \<Rightarrow> LocatorOrPath \<Rightarrow> CoordinatorError + Locator" where
  "try_into_locator storage self =
     (case self of AtPath path \<Rightarrow> disk_locator storage path | AtLocator l \<Rightarrow> Inr l)"

definition try_into_path :: "Disk \<Rightarrow> LocatorOrPath \<Rightarrow> CoordinatorError + LocatorPath" where
  "try_into_path storage self =
     (case self of AtPath path \<Rightarrow> Inr path | AtLocator l \<Rightarrow> Inr (disk_path storage l))"

datatype StorageAction =
    Remove LocatorOrPath
  | Update Locator Object
  | ClearRoundFiles u64

text \<open>
  An error that passes through \<^verbatim>\<open>anyhow::Error\<close> comes back as \<^verbatim>\<open>CoordinatorError::Error\<close>.
\<close>

definition as_anyhow :: "('a, 's) fallible \<Rightarrow> ('a, 's) fallible" where
  "as_anyhow m = (case m of (Inl _, s) \<Rightarrow> (Inl Error, s) | (Inr a, s) \<Rightarrow> (Inr a, s))"

definition disk_process :: "Externals \<Rightarrow> Disk \<Rightarrow> StorageAction \<Rightarrow> (unit, Disk) fallible" where
  "disk_process ext self action = as_anyhow
     (case action of
        Remove target \<Rightarrow>
          (case try_into_locator self target of
             Inl e \<Rightarrow> (Inl e, self)
           | Inr l \<Rightarrow> disk_remove self l)
      | Update l obj \<Rightarrow> disk_update ext self l obj
      | ClearRoundFiles h \<Rightarrow> (Inr (), clear_round_files self h))"

text \<open>
  \<^verbatim>\<open>Disk::load\<close> on a file system: it makes the base directory and the file of the coordinator
  state when they are missing.
\<close>

definition disk_load ::
  "Externals \<Rightarrow> (string, bytes) hashmap \<Rightarrow> string hashset \<Rightarrow> Environment \<Rightarrow> CoordinatorError + Disk" where
  "disk_load ext files dirs env =
     (let base = local_base_directory env;
          storage = \<lparr>disk_environment = env, disk_base = base, disk_files = files,
                     disk_dirs = List.insert base dirs\<rparr>
      in if disk_exists storage CoordinatorStateFile then Inr storage
         else
           (case disk_insert ext storage CoordinatorStateFile (CoordinatorStateObject (state_new env)) of
              (Inl e, _) \<Rightarrow> Inl e
            | (Inr _, storage) \<Rightarrow> Inr storage))"

section \<open>What the operations do to the files\<close>

lemma disk_update_touches:
  assumes "disk_update ext d l obj = (res, d')"
  shows "touches {l} d d'" "res = Inr () \<Longrightarrow> disk_exists d l \<and> d' = put_file l (object_to_bytes ext obj) d"
    "is_ok res \<or> d' = d"
  using assms by (auto simp: disk_update_def touches_put split: if_splits)

lemma disk_insert_ok:
  assumes "disk_insert ext d l obj = (Inr (), d')"
  shows "\<not> disk_exists d l" "file_at d' l = Some (object_to_bytes ext obj)" "touches {l} d d'"
proof -
  from assms obtain d1 where ex: "\<not> disk_exists d l" and d1: "disk_initialize d l (object_size ext obj) = (Inr (), d1)"
    and d': "disk_update ext d1 l obj = (Inr (), d')"
    by (auto simp: disk_insert_def and_then_ok_iff split: if_splits)
  show "\<not> disk_exists d l" by (rule ex)
  show "file_at d' l = Some (object_to_bytes ext obj)"
    using disk_update_touches(2) [OF d'] by (simp add: disk.get_ins)
  show "touches {l} d d'"
    using disk_initialize_touches(1) [OF d1] disk_update_touches(1) [OF d'] by (rule touches_trans)
qed

lemma disk_insert_touches:
  assumes "disk_insert ext d l obj = (res, d')"
  shows "touches {l} d d'"
proof -
  obtain r1 d1 where d1: "disk_initialize d l (object_size ext obj) = (r1, d1)" by fastforce
  note t = disk_initialize_touches(1) [OF d1]
  show ?thesis
    using assms d1 t touches_trans [OF t disk_update_touches(1)]
    by (cases r1) (auto simp: disk_insert_def split: if_splits)
qed

lemma object_size_eq: "object_size ext obj = length (object_to_bytes ext obj)"
  by (cases obj) simp_all

text \<open>A copy has the bytes of its source, when the encoder gives back what was decoded.\<close>

lemma disk_copy_contribution:
  assumes "disk_copy ext d (ContributionFile k) (ContributionFile k') = (Inr (), d')"
  shows "file_at d' (ContributionFile k') = file_at d (ContributionFile k)" "touches {ContributionFile k'} d d'"
    "\<not> disk_exists d (ContributionFile k')"
    "\<exists>content. file_at d (ContributionFile k) = Some content \<and>
       length content = contribution_file_size (sizes ext) (disk_environment d) (cl_chunk_id k) (cl_is_verified k)"
proof -
  let ?s = "ContributionFile k" and ?t = "ContributionFile k'"
  from assms obtain content d1 where ex: "\<not> disk_exists d ?t" and c: "file_at d ?s = Some content"
    and len: "length content = contribution_file_size (sizes ext) (disk_environment d) (cl_chunk_id k) (cl_is_verified k)"
    and d1: "disk_initialize d ?t (length content) = (Inr (), d1)"
    and d': "disk_update ext d1 ?t (ContributionFileObject content) = (Inr (), d')"
    by (auto simp: disk_copy_def disk_get_def disk_exists_iff Let_def and_then_ok_iff
        split: if_splits option.splits)
  show "file_at d' ?t = file_at d ?s"
    using disk_update_touches(2) [OF d'] c by (simp add: disk.get_ins)
  show "touches {?t} d d'"
    using disk_initialize_touches(1) [OF d1] disk_update_touches(1) [OF d'] by (rule touches_trans)
  show "\<not> disk_exists d ?t" by (rule ex)
  show "\<exists>content. file_at d ?s = Some content \<and>
      length content = contribution_file_size (sizes ext) (disk_environment d) (cl_chunk_id k) (cl_is_verified k)"
    using c len by blast
qed

end
