(* ===== verification/Coordinator_Contributions.thy ===== *)
theory Coordinator_Contributions
  imports Object_Storage
begin

text \<open>
  \<^verbatim>\<open>phase1-coordinator/src/coordinator.rs\<close>, first part: the coordinator with its storage and
  its state, the handlers of the queue, and the handlers with which contributors lock chunks and
  contribute and verifiers verify. A handler works on the state, on the files and on the round
  that it loads from the files; an error keeps what was changed before it.
\<close>

record Coordinator =
  co_environment :: Environment
  co_signature :: Signature
  co_storage :: Disk
  co_state :: CoordinatorState

type_synonym 'a handler = "('a, Coordinator) fallible"

text \<open>Method calls on the fields \<^verbatim>\<open>self.state\<close> and \<^verbatim>\<open>self.storage\<close>.\<close>

definition on_state :: "Coordinator \<Rightarrow> (CoordinatorState \<Rightarrow> 'a state_outcome) \<Rightarrow> 'a handler" where
  "on_state self call = (let (r, s) = call (co_state self) in (r, self\<lparr>co_state := s\<rparr>))"

definition on_storage :: "Coordinator \<Rightarrow> (Disk \<Rightarrow> ('a, Disk) fallible) \<Rightarrow> 'a handler" where
  "on_storage self call = (let (r, d) = call (co_storage self) in (r, self\<lparr>co_storage := d\<rparr>))"

section \<open>Loading and saving\<close>

definition load_current_round_height :: "Externals \<Rightarrow> Disk \<Rightarrow> CoordinatorError + u64" where
  "load_current_round_height ext storage =
     (if disk_exists storage RoundHeightFile
      then result_bind (disk_get ext storage RoundHeightFile) (\<lambda>obj.
             case obj of RoundHeightObject h \<Rightarrow> Inr h | _ \<Rightarrow> Inl StorageFailed)
      else Inl RoundHeightNotSet)"

definition load_round :: "Externals \<Rightarrow> Disk \<Rightarrow> u64 \<Rightarrow> CoordinatorError + Round" where
  "load_round ext storage h =
     result_bind (load_current_round_height ext storage) (\<lambda>current_height.
       if h \<le> current_height
       then result_bind (disk_get ext storage (RoundState h)) (\<lambda>obj.
              case obj of RoundStateObject r \<Rightarrow> Inr r | _ \<Rightarrow> Inl StorageFailed)
       else Inl RoundDoesNotExist)"

definition load_current_round :: "Externals \<Rightarrow> Disk \<Rightarrow> CoordinatorError + Round" where
  "load_current_round ext storage =
     result_bind (load_current_round_height ext storage) (\<lambda>h. load_round ext storage h)"

definition coordinator_current_round_height :: "Externals \<Rightarrow> Coordinator \<Rightarrow> CoordinatorError + u64" where
  "coordinator_current_round_height ext self =
     result_bind (load_current_round_height ext (co_storage self)) (\<lambda>h.
       if disk_exists (co_storage self) (RoundState h) then Inr h else Inl StorageFailed)"

definition get_round :: "Externals \<Rightarrow> Coordinator \<Rightarrow> u64 \<Rightarrow> CoordinatorError + Round" where
  "get_round ext self h =
     result_bind (load_current_round_height ext (co_storage self)) (\<lambda>current_height.
       if h \<le> current_height
       then result_bind (disk_reader (sizes ext) (co_storage self) (RoundState h))
              (\<lambda>content. json_result (round_of_json ext content))
       else Inl RoundDoesNotExist)"

definition save_state :: "Externals \<Rightarrow> Coordinator \<Rightarrow> unit handler" where
  "save_state ext self =
     on_storage self (\<lambda>d. disk_update ext d CoordinatorStateFile (CoordinatorStateObject (co_state self)))"

text \<open>A change of the state followed by \<^verbatim>\<open>self.save_state()?\<close>.\<close>

definition and_save :: "Externals \<Rightarrow> 'a handler \<Rightarrow> 'a handler" where
  "and_save ext m = and_then m (\<lambda>a self. and_then (save_state ext self) (\<lambda>_ self. (Inr a, self)))"

section \<open>The queue\<close>

definition coordinator_add_to_queue ::
  "Externals \<Rightarrow> Coordinator \<Rightarrow> Participant \<Rightarrow> IpAddr option \<Rightarrow> u8 \<Rightarrow> OffsetDateTime \<Rightarrow> unit handler" where
  "coordinator_add_to_queue ext self participant participant_ip reliability_score now =
     and_save ext (on_state self (\<lambda>s. add_to_queue s participant participant_ip reliability_score now))"

definition coordinator_remove_from_queue ::
  "Externals \<Rightarrow> Coordinator \<Rightarrow> Participant \<Rightarrow> unit handler" where
  "coordinator_remove_from_queue ext self participant =
     and_save ext (on_state self (\<lambda>s. remove_from_queue s participant))"

definition coordinator_unban_participant :: "Externals \<Rightarrow> Coordinator \<Rightarrow> Participant \<Rightarrow> unit handler" where
  "coordinator_unban_participant ext self participant =
     and_save ext (on_state self (\<lambda>s. (Inr (), unban_participant s participant)))"

definition coordinator_enable_manual_lock :: "Externals \<Rightarrow> Coordinator \<Rightarrow> unit handler" where
  "coordinator_enable_manual_lock ext self =
     and_save ext (on_state self (\<lambda>s. (Inr (), enable_manual_lock s)))"

definition coordinator_disable_manual_lock :: "Externals \<Rightarrow> Coordinator \<Rightarrow> unit handler" where
  "coordinator_disable_manual_lock ext self =
     and_save ext (on_state self (\<lambda>s. (Inr (), disable_manual_lock s)))"

definition coordinator_heartbeat :: "Coordinator \<Rightarrow> Participant \<Rightarrow> OffsetDateTime \<Rightarrow> unit handler" where
  "coordinator_heartbeat self participant now = on_state self (\<lambda>s. heartbeat s participant now)"

definition contribution_locator_to_chunk_id :: "Coordinator \<Rightarrow> LocatorPath \<Rightarrow> CoordinatorError + u64" where
  "contribution_locator_to_chunk_id self path =
     result_bind (disk_locator (co_storage self) path) (\<lambda>l.
       case l of
         ContributionFile k \<Rightarrow>
           (if disk_exists (co_storage self) l then Inr (cl_chunk_id k) else Inl ContributionLocatorMissing)
       | _ \<Rightarrow> Inl ContributionLocatorIncorrect)"

definition locator_to_path :: "Coordinator \<Rightarrow> Locator \<Rightarrow> LocatorPath" where
  "locator_to_path self l = disk_path (co_storage self) l"

definition coordinator_is_current_contributor :: "Externals \<Rightarrow> Coordinator \<Rightarrow> Participant \<Rightarrow> bool" where
  "coordinator_is_current_contributor ext self participant =
     (case load_current_round ext (co_storage self) of
        Inl _ \<Rightarrow> False
      | Inr r \<Rightarrow>
          if \<not> round_is_contributor r participant then False
          else is_current_contributor (co_state self) participant)"

section \<open>Locking\<close>

definition coordinator_try_lock_chunk ::
  "Externals \<Rightarrow> Coordinator \<Rightarrow> u64 \<Rightarrow> Participant \<Rightarrow> LockedLocators handler" where
  "coordinator_try_lock_chunk ext self c participant =
     (if number_of_chunks (co_environment self) < c then (Inl ChunkIdInvalid, self)
      else
        (case result_bind (load_current_round_height ext (co_storage self)) (\<lambda>h.
                result_bind (load_current_round ext (co_storage self)) (\<lambda>r. Inr (h, r))) of
           Inl e \<Rightarrow> (Inl e, self)
         | Inr (h, r) \<Rightarrow>
             (case try_lock_chunk (sizes ext) (co_environment self) (co_storage self) r c participant of
                (Inl e, _, d) \<Rightarrow> (Inl e, self\<lparr>co_storage := d\<rparr>)
              | (Inr locked, r, d) \<Rightarrow>
                  (case disk_update ext d (RoundState h) (RoundStateObject r) of
                     (Inr _, d) \<Rightarrow> (Inr locked, self\<lparr>co_storage := d\<rparr>)
                   | (Inl _, d) \<Rightarrow> (Inl StorageUpdateFailed, self\<lparr>co_storage := d\<rparr>)))))"

text \<open>The checks that the current round is still open.\<close>

definition check_round_open :: "CoordinatorState \<Rightarrow> CoordinatorError + unit" where
  "check_round_open s =
     (if is_current_round_finished s then Inl CurrentRoundFinished
      else if is_current_round_aggregating s then Inl CurrentRoundAggregating
      else if is_current_round_aggregated s then Inl CurrentRoundAggregated
      else Inr ())"

definition try_lock ::
  "Externals \<Rightarrow> Coordinator \<Rightarrow> Participant \<Rightarrow> OffsetDateTime \<Rightarrow> (u64 \<times> LockedLocators) handler" where
  "try_lock ext self participant now =
     (if is_verifier participant then (Inl ExpectedContributor, self)
      else if \<not> is_current_contributor (co_state self) participant then (Inl ParticipantUnauthorized, self)
      else
        (case check_round_open (co_state self) of
           Inl e \<Rightarrow> (Inl e, self)
         | Inr _ \<Rightarrow>
             and_then (on_state self (\<lambda>s. fetch_task s participant now)) (\<lambda>task self.
               case result_bind (load_current_round ext (co_storage self)) (\<lambda>r. round_chunk r (chunk_id task)) of
                 Inl e \<Rightarrow> (Inl e, self)
               | Inr chunk \<Rightarrow>
                   if current_contribution_id chunk + 1 < contribution_id task
                   then
                     and_then (on_state self (\<lambda>s. rollback_pending_task s participant task now))
                       (\<lambda>_ self. (Inl (PreviousContributionMissing task), self))
                   else
                     (case coordinator_try_lock_chunk ext self (chunk_id task) participant of
                        (Inr locked, self) \<Rightarrow>
                          and_save ext
                            (and_then (on_state self (\<lambda>s. acquired_lock s participant (chunk_id task) now))
                               (\<lambda>_ self. (Inr (chunk_id task, locked), self)))
                      | (Inl e, self) \<Rightarrow>
                          and_then (and_save ext
                              (on_state self (\<lambda>s. rollback_pending_task s participant task now)))
                            (\<lambda>_ self. (Inl e, self))))))"

definition coordinator_get_chunk_locators_for_verifier ::
  "Externals \<Rightarrow> Coordinator \<Rightarrow> Participant \<Rightarrow> u64 \<Rightarrow> u64 \<Rightarrow> CoordinatorError + LockedLocators" where
  "coordinator_get_chunk_locators_for_verifier ext self participant c i =
     (if \<not> is_verifier participant then Inl ExpectedVerifier
      else
        result_bind (load_current_round ext (co_storage self)) (\<lambda>r.
          get_chunk_locators_for_verifier r (co_storage self) participant c i))"

definition coordinator_initialize_verifier_response_files ::
  "Externals \<Rightarrow> Coordinator \<Rightarrow> Participant \<Rightarrow> u64 \<Rightarrow> LockedLocators \<Rightarrow> unit handler" where
  "coordinator_initialize_verifier_response_files ext self participant c locators =
     (if \<not> is_verifier participant then (Inl ExpectedVerifier, self)
      else
        (case load_current_round ext (co_storage self) of
           Inl e \<Rightarrow> (Inl e, self)
         | Inr _ \<Rightarrow>
             on_storage self (\<lambda>d.
               initialize_verifier_response_files (sizes ext) (co_environment self) d participant c locators)))"

section \<open>Contributing\<close>

text \<open>
  The check that the response file starts with the hash of the challenge file; the hashes of both
  files are returned.
\<close>

definition check_response ::
  "Externals \<Rightarrow> Disk \<Rightarrow> Locator \<Rightarrow> Locator \<Rightarrow> CoordinatorError + bytes \<times> bytes" where
  "check_response ext storage challenge_locator response_locator =
     result_bind (disk_reader (sizes ext) storage challenge_locator) (\<lambda>challenge.
     result_bind (disk_reader (sizes ext) storage response_locator) (\<lambda>response.
       let challenge_hash = calculate_hash (crypto ext) challenge;
           response_hash = calculate_hash (crypto ext) response
       in if length response < 64 then Inl StorageReaderFailed
          else if take 64 response \<noteq> challenge_hash then Inl ContributionHashMismatch
          else Inr (challenge_hash, response_hash)))"

definition hex_result :: "bytes option \<Rightarrow> CoordinatorError + bytes" where
  "hex_result r = (case r of None \<Rightarrow> Inl Hex | Some b \<Rightarrow> Inr b)"

text \<open>\<^verbatim>\<open>participant.to_string().split(".").next()\<close>\<close>

definition signing_address :: "Participant \<Rightarrow> string" where
  "signing_address participant = hd (split_on CHR ''.'' (participant_to_string participant))"

text \<open>
  The check of the signature file: its signature by the participant, and the hashes of the
  challenge and the response that were signed.
\<close>

definition check_signature ::
  "Externals \<Rightarrow> Signature \<Rightarrow> Disk \<Rightarrow> Locator \<Rightarrow> Participant \<Rightarrow> CoordinatorError \<Rightarrow> bytes \<Rightarrow> bytes \<Rightarrow>
   CoordinatorError + ContributionFileSignature" where
  "check_signature ext scheme storage signature_file participant invalid challenge_hash response_hash =
     result_bind (disk_reader (sizes ext) storage signature_file) (\<lambda>content.
     result_bind (json_result (signature_of_json ext content)) (\<lambda>sig.
       if \<not> verify scheme (signing_address participant) (state_message (crypto ext) (cfs_state sig)) (cfs_signature sig)
       then Inl invalid
       else
         result_bind (hex_result (hex_decode (crypto ext) (cs_challenge_hash (cfs_state sig)))) (\<lambda>signed.
           if signed \<noteq> challenge_hash then Inl ContributionHashMismatch
           else
             result_bind (hex_result (hex_decode (crypto ext) (cs_response_hash (cfs_state sig)))) (\<lambda>signed.
               if signed \<noteq> response_hash then Inl ContributionHashMismatch else Inr sig))))"

text \<open>The last step of both handlers: the changed round is written back.\<close>

definition update_round :: "Externals \<Rightarrow> Coordinator \<Rightarrow> u64 \<Rightarrow> Round \<Rightarrow> 'a \<Rightarrow> 'a handler" where
  "update_round ext self h r result =
     (case disk_update ext (co_storage self) (RoundState h) (RoundStateObject r) of
        (Inr _, d) \<Rightarrow> (Inr result, self\<lparr>co_storage := d\<rparr>)
      | (Inl _, d) \<Rightarrow> (Inl StorageUpdateFailed, self\<lparr>co_storage := d\<rparr>))"

text \<open>The checks of \<^verbatim>\<open>add_contribution\<close>, which leave the coordinator unchanged, and the new round.\<close>

definition contributed_round ::
  "Externals \<Rightarrow> Coordinator \<Rightarrow> u64 \<Rightarrow> Round \<Rightarrow> u64 \<Rightarrow> Participant \<Rightarrow>
   CoordinatorError + ContributionLocator \<times> u64 \<times> Round" where
  "contributed_round ext self h r c participant =
     (if \<not> round_is_contributor r participant then Inl UnauthorizedChunkContributor
      else if \<not> is_chunk_locked_by r c participant then Inl ChunkNotLockedOrByWrongParticipant
      else
        (let expected = expected_number_of_contributions r; storage = co_storage self in
         result_bind (round_chunk r c) (\<lambda>chunk.
         result_bind (next_contribution_id chunk expected) (\<lambda>i.
           if \<not> is_next_contribution_id chunk i expected then Inl ContributionIdMismatch
           else
             (let challenge_file =
                    ContributionFile (contribution_locator h c (current_contribution_id chunk) True);
                  response = contribution_locator h c i False;
                  signature_file = ContributionFileSignatureFile (signature_locator h c i False)
              in result_bind (check_response ext storage challenge_file (ContributionFile response))
                   (\<lambda>(challenge_hash, response_hash).
                 result_bind (check_signature ext (co_signature self) storage signature_file participant
                     ContributorSignatureInvalid challenge_hash response_hash) (\<lambda>sig.
                   if cs_next_challenge_hash (cfs_state sig) \<noteq> None then Inl NextChallengeHashAlreadyExists
                   else
                     (case on_chunk r c (\<lambda>chunk. add_contribution chunk i participant
                             (disk_path storage (ContributionFile response)) (disk_path storage signature_file)) of
                        (Inl e, _) \<Rightarrow> Inl e
                      | (Inr _, r) \<Rightarrow> Inr (response, i, r)))))))))"

definition coordinator_add_contribution ::
  "Externals \<Rightarrow> Coordinator \<Rightarrow> u64 \<Rightarrow> Participant \<Rightarrow> (ContributionLocator \<times> u64) handler" where
  "coordinator_add_contribution ext self c participant =
     (case result_bind (load_current_round_height ext (co_storage self)) (\<lambda>h.
             result_bind (load_current_round ext (co_storage self)) (\<lambda>r.
               result_bind (contributed_round ext self h r c participant) (\<lambda>x. Inr (h, x)))) of
        Inl e \<Rightarrow> (Inl e, self)
      | Inr (h, response, i, r) \<Rightarrow> update_round ext self h r (response, i))"

definition try_contribute ::
  "Externals \<Rightarrow> Coordinator \<Rightarrow> Participant \<Rightarrow> u64 \<Rightarrow> OffsetDateTime \<Rightarrow> ContributionLocator handler" where
  "try_contribute ext self participant c now =
     (if \<not> is_contributor participant then (Inl ExpectedContributor, self)
      else if number_of_chunks (co_environment self) < c then (Inl ChunkIdInvalid, self)
      else if \<not> is_current_contributor (co_state self) participant then (Inl ParticipantUnauthorized, self)
      else
        (case result_bind (check_round_open (co_state self)) (\<lambda>_.
                result_bind (load_current_round_height ext (co_storage self)) (\<lambda>h.
                  result_bind (lookup_disposing_task (co_state self) participant c) (\<lambda>t. Inr (h, t)))) of
           Inl e \<Rightarrow> (Inl e, self)
         | Inr (h, Some task) \<Rightarrow>
             (let response = contribution_locator h c (contribution_id task) False in
              and_then (and_save ext
                  (and_then (on_state self (\<lambda>s. disposed_task s participant task now))
                     (\<lambda>_ self. on_storage self (\<lambda>d. disk_remove d (ContributionFile response)))))
                (\<lambda>_ self.
                   case load_current_round ext (co_storage self) of
                     Inl e \<Rightarrow> (Inl e, self)
                   | Inr r \<Rightarrow>
                       (case on_chunk r c (\<lambda>chunk. (Inr (), set_lock_holder_unsafe chunk None)) of
                          (Inl e, _) \<Rightarrow> (Inl e, self)
                        | (Inr _, r) \<Rightarrow>
                            and_then (on_storage self (\<lambda>d.
                                disk_update ext d (RoundState (r_height r)) (RoundStateObject r)))
                              (\<lambda>_ self. (Inr response, self)))))
         | Inr (h, None) \<Rightarrow>
             (case lookup_pending_task (co_state self) participant c of
                Inl e \<Rightarrow> (Inl e, self)
              | Inr None \<Rightarrow> (Inl ContributionFailed, self)
              | Inr (Some task) \<Rightarrow>
                  (case coordinator_add_contribution ext self c participant of
                     (Inr (response, i), self) \<Rightarrow>
                       and_save ext
                         (and_then (on_state self (\<lambda>s. completed_task s participant (new_task c i) now))
                            (\<lambda>_ self. (Inr response, self)))
                   | (Inl e, self) \<Rightarrow>
                       and_then (on_storage self (\<lambda>d. disk_remove d
                           (ContributionFile (contribution_locator h c (contribution_id task) False))))
                         (\<lambda>_ self. (Inl e, self))))))"

section \<open>Verifying\<close>

text \<open>The check that the next challenge starts with the hash of the response.\<close>

definition check_next_challenge ::
  "Externals \<Rightarrow> Disk \<Rightarrow> Locator \<Rightarrow> bytes \<Rightarrow> CoordinatorError + bytes" where
  "check_next_challenge ext storage next_challenge_locator response_hash =
     result_bind (disk_reader (sizes ext) storage next_challenge_locator) (\<lambda>next_challenge.
       if take 64 next_challenge \<noteq> response_hash then Inl ContributionHashMismatch
       else Inr (calculate_hash (crypto ext) next_challenge))"

text \<open>The verified contribution is stored in the next round when it is the last of its chunk.\<close>

definition next_challenge_locators ::
  "u64 \<Rightarrow> u64 \<Rightarrow> u64 \<Rightarrow> bool \<Rightarrow> ContributionLocator \<times> ContributionSignatureLocator" where
  "next_challenge_locators h c i is_final_contribution =
     (if is_final_contribution then (contribution_locator (h + 1) c 0 True, signature_locator (h + 1) c 0 True)
      else (contribution_locator h c i True, signature_locator h c i True))"

definition verified_round ::
  "Externals \<Rightarrow> Coordinator \<Rightarrow> u64 \<Rightarrow> Round \<Rightarrow> Task \<Rightarrow> Participant \<Rightarrow> OffsetDateTime \<Rightarrow>
   CoordinatorError + u64 \<times> Round" where
  "verified_round ext self h r task participant now =
     (let c = chunk_id task; storage = co_storage self in
      result_bind (round_chunk r c) (\<lambda>chunk.
        let i = current_contribution_id chunk in
        if i \<noteq> contribution_id task then Inl ContributionIdMismatch
        else
          (let (next_challenge, next_signature) =
                 next_challenge_locators h c i
                   (only_contributions_complete chunk (expected_number_of_contributions r))
           in result_bind (check_response ext storage
                  (ContributionFile (contribution_locator h c (usize_sub i 1) True))
                  (ContributionFile (contribution_locator h c i False))) (\<lambda>(challenge_hash, response_hash).
              result_bind (check_next_challenge ext storage (ContributionFile next_challenge) response_hash)
                (\<lambda>next_challenge_hash.
              result_bind (check_signature ext (co_signature self) storage
                  (ContributionFileSignatureFile next_signature) participant
                  VerifierSignatureInvalid challenge_hash response_hash) (\<lambda>sig.
                case cs_next_challenge_hash (cfs_state sig) of
                  None \<Rightarrow> Inl NextChallengeHashMissing
                | Some signed \<Rightarrow>
                    result_bind (hex_result (hex_decode (crypto ext) signed)) (\<lambda>signed.
                      if signed \<noteq> next_challenge_hash then Inl ContributionHashMismatch
                      else
                        (case round_verify_contribution r c i participant
                                (disk_path storage (ContributionFile next_challenge))
                                (disk_path storage (ContributionFileSignatureFile next_signature)) now of
                           (Inl e, _) \<Rightarrow> Inl e
                         | (Inr _, r) \<Rightarrow> Inr (i, r)))))))))"

definition coordinator_verify_contribution ::
  "Externals \<Rightarrow> Coordinator \<Rightarrow> Task \<Rightarrow> Participant \<Rightarrow> OffsetDateTime \<Rightarrow> u64 handler" where
  "coordinator_verify_contribution ext self task participant now =
     (if \<not> is_verifier participant then (Inl ExpectedVerifier, self)
      else
        (case result_bind (load_current_round_height ext (co_storage self)) (\<lambda>h.
                result_bind (load_current_round ext (co_storage self)) (\<lambda>r.
                  result_bind (verified_round ext self h r task participant now) (\<lambda>x. Inr (h, x)))) of
           Inl e \<Rightarrow> (Inl e, self)
         | Inr (h, i, r) \<Rightarrow> update_round ext self h r i))"

definition try_verify ::
  "Externals \<Rightarrow> Coordinator \<Rightarrow> Participant \<Rightarrow> Task \<Rightarrow> OffsetDateTime \<Rightarrow> unit handler" where
  "try_verify ext self participant task now =
     (if \<not> is_verifier participant then (Inl ExpectedVerifier, self)
      else if number_of_chunks (co_environment self) < chunk_id task then (Inl ChunkIdInvalid, self)
      else
        (case check_round_open (co_state self) of
           Inl e \<Rightarrow> (Inl e, self)
         | Inr _ \<Rightarrow>
             (case coordinator_verify_contribution ext self task participant now of
                (Inr i, self) \<Rightarrow>
                  if i \<noteq> contribution_id task then (Inl ContributionIdMismatch, self)
                  else and_save ext (on_state self (\<lambda>s. completed_task s participant task now))
              | (Inl e, self) \<Rightarrow>
                  (case load_current_round ext (co_storage self) of
                     Inl e' \<Rightarrow> (Inl e', self)
                   | Inr r \<Rightarrow>
                       (let is_final_contribution =
                              (contribution_id task = expected_number_of_contributions r - 1);
                            next_challenge = fst (next_challenge_locators (r_height r) (chunk_id task)
                              (contribution_id task) is_final_contribution)
                        in and_then (on_storage self (\<lambda>d. remove_if_exists d (ContributionFile next_challenge)))
                             (\<lambda>_ self. (Inl e, self)))))))"

section \<open>Loading\<close>

lemma load_height_ok_iff:
  "load_current_round_height ext d = Inr h \<longleftrightarrow>
     (\<exists>content. file_at d RoundHeightFile = Some content \<and> height_of_json ext content = Some h)"
  by (auto simp: load_current_round_height_def disk_get_def disk_exists_iff json_result_def result_bind_def
      split: option.splits)

lemma load_round_ok_iff:
  "load_round ext d h = Inr r \<longleftrightarrow>
     (\<exists>current content. load_current_round_height ext d = Inr current \<and> h \<le> current \<and>
        file_at d (RoundState h) = Some content \<and> round_of_json ext content = Some r)"
  by (auto simp: load_round_def disk_get_def json_result_def result_bind_def split: option.splits sum.splits)

lemma load_current_round_ok_iff:
  "load_current_round ext d = Inr r \<longleftrightarrow>
     (\<exists>h content. load_current_round_height ext d = Inr h \<and>
        file_at d (RoundState h) = Some content \<and> round_of_json ext content = Some r)"
  by (auto simp: load_current_round_def load_round_ok_iff result_bind_ok_iff)

lemma loaded_round_exists:
  "load_current_round_height ext d = Inr h \<Longrightarrow> load_current_round ext d = Inr r \<Longrightarrow> disk_exists d (RoundState h)"
  by (auto simp: load_current_round_ok_iff disk_exists_iff)

lemma disk_get_cong:
  "file_at d' l = file_at d l \<Longrightarrow> disk_environment d' = disk_environment d \<Longrightarrow>
     disk_get ext d' l = disk_get ext d l"
  by (cases "file_at d l"; cases l) (simp_all add: disk_get_def Let_def)

lemma loads_touches:
  assumes "touches L d d'" "RoundHeightFile \<notin> L"
  shows "load_current_round_height ext d' = load_current_round_height ext d"
    "\<forall>h. RoundState h \<notin> L \<Longrightarrow> load_current_round ext d' = load_current_round ext d"
proof -
  note at = touches_file [OF assms(1)]
  have env: "disk_environment d' = disk_environment d" using assms(1) by (simp add: touches_def)
  show h: "load_current_round_height ext d' = load_current_round_height ext d"
    using at [OF assms(2)] env by (simp add: load_current_round_height_def disk_get_cong [of d'] disk_exists_def)
  assume "\<forall>h. RoundState h \<notin> L"
  with at have "file_at d' (RoundState k) = file_at d (RoundState k)" for k by blast
  with env have "disk_get ext d' (RoundState k) = disk_get ext d (RoundState k)" for k by (rule_tac disk_get_cong)
  with h show "load_current_round ext d' = load_current_round ext d"
    by (simp add: load_current_round_def load_round_def cong: if_cong)
qed

lemma save_state_ok:
  assumes "disk_exists (co_storage self) CoordinatorStateFile"
  shows "save_state ext self = (Inr (),
    self\<lparr>co_storage := put_file CoordinatorStateFile (state_to_json ext (co_state self)) (co_storage self)\<rparr>)"
  using assms by (simp add: save_state_def on_storage_def disk_update_def)

lemma and_save_ok:
  assumes "m = (Inr a, self)" "disk_exists (co_storage self) CoordinatorStateFile"
  shows "and_save ext m = (Inr a,
    self\<lparr>co_storage := put_file CoordinatorStateFile (state_to_json ext (co_state self)) (co_storage self)\<rparr>)"
  using assms save_state_ok by (simp add: and_save_def)

section \<open>Locking\<close>

lemma coordinator_try_lock_chunk_cases:
  obtains (error) e where "coordinator_try_lock_chunk ext self c p = (Inl e, self)"
    | (ok) h r locked k i d' where
      "load_current_round_height ext (co_storage self) = Inr h" "load_current_round ext (co_storage self) = Inr r"
      "round_chunk r c = Inr k" "lock_holder k = None" "p \<in> set (contributor_ids r)"
      "next_contribution_id k (expected_number_of_contributions r) = Inr i"
      "coordinator_try_lock_chunk ext self c p = (Inr locked,
         self\<lparr>co_storage := put_file (RoundState h)
           (round_to_json ext (r\<lparr>chunks := (chunks r)[c := k\<lparr>lock_holder := Some p\<rparr>]\<rparr>)) d'\<rparr>)"
      "touches {ContributionFile (contribution_locator (r_height r) c i False),
         ContributionFileSignatureFile (signature_locator (r_height r) c i False)} (co_storage self) d'"
      "contributor_locators r (co_storage self) c = Inr locked"
proof (cases "\<exists>e. coordinator_try_lock_chunk ext self c p = (Inl e, self)")
  case True
  with error show ?thesis by blast
next
  case False
  then obtain h r where hr: "load_current_round_height ext (co_storage self) = Inr h"
    "load_current_round ext (co_storage self) = Inr r" and n: "c \<le> number_of_chunks (co_environment self)"
    by (auto simp: coordinator_try_lock_chunk_def result_bind_def split: sum.splits if_splits)
  show ?thesis
  proof (cases rule: try_lock_chunk_cases [of "sizes ext" "co_environment self" "co_storage self" r c p])
    case (error e)
    with False hr n show ?thesis by (simp add: coordinator_try_lock_chunk_def)
  next
    case lock: (ok locked k i d')
    have "disk_exists d' (RoundState h)"
      using loaded_round_exists [OF hr] touches_file [OF lock(10), of "RoundState h"] by (simp add: disk_exists_def)
    then have "coordinator_try_lock_chunk ext self c p = (Inr locked, self\<lparr>co_storage := put_file (RoundState h)
        (round_to_json ext (r\<lparr>chunks := (chunks r)[c := k\<lparr>lock_holder := Some p\<rparr>]\<rparr>)) d'\<rparr>)"
      using hr n lock(1) by (simp add: coordinator_try_lock_chunk_def disk_update_def)
    with hr lock show ?thesis by (intro ok)
  qed
qed

text \<open>Fetching a task and putting it back, on the state.\<close>

lemma fetch_task_ok:
  assumes "fetch_task s p now = (Inr task, s')" "hm_get (current_contributors s) p = Some info"
  obtains info' where "is_contributor p" "pi_pop_task info now = (Inr task, info')"
    "current_contributors s' = AList.map_entry p (\<lambda>_. info') (current_contributors s)"
    "environment s' = environment s"
  using assms
  by (auto simp: fetch_task_def and_then_ok_iff on_participant_def current_participant_info_def
      set_current_participant_info_def start_task_timer_def Let_def
      split: Participant.splits prod.splits if_splits option.splits)

lemma on_contributor:
  assumes "is_contributor p" "hm_get (current_contributors s) p = Some info" "call info = (res, info')"
  shows "fst (on_participant s p call) = res"
    "hm_get (current_contributors (snd (on_participant s p call))) = (hm_get (current_contributors s))(p \<mapsto> info')"
    "environment (snd (on_participant s p call)) = environment s"
  using assms
  by (auto simp: on_participant_def current_participant_info_def set_current_participant_info_def
      hm.get_upd split: Participant.splits)

lemma fetch_rollback:
  assumes "hm_get (current_contributors s) p = Some info" "info_wf info"
    "fetch_task s p now = (Inr task, s')" "chunk_id task \<le> number_of_chunks (environment s)"
  obtains s'' where "rollback_pending_task s' p task later = (Inr (), s'')"
    "hm_get (current_contributors s'') = (hm_get (current_contributors s))(p \<mapsto> info\<lparr>last_seen := later\<rparr>)"
proof -
  obtain info' where p: "is_contributor p" and pop: "pi_pop_task info now = (Inr task, info')"
    and s': "current_contributors s' = AList.map_entry p (\<lambda>_. info') (current_contributors s)"
    and env: "environment s' = environment s"
    using fetch_task_ok [OF assms(3,1)] .
  have at: "hm_get (current_contributors s') = (hm_get (current_contributors s))(p \<mapsto> info')"
    using assms(1) by (simp add: s' hm.get_upd fun_eq_iff)
  then have "hm_get (current_contributors s') p = Some info'" by simp
  note on = on_contributor [where call = "\<lambda>i. pi_rollback_pending_task i task later",
      OF p this pop_rollback_roundtrip [OF assms(2) pop, of later]]
  let ?m = "on_participant s' p (\<lambda>i. pi_rollback_pending_task i task later)"
  have "rollback_pending_task s' p task later = ?m"
    using assms(4) env by (simp add: rollback_pending_task_def)
  with on(1) have "rollback_pending_task s' p task later = (Inr (), snd ?m)" by (metis prod.collapse)
  then show ?thesis by (rule that) (simp only: on(2) at fun_upd_upd)
qed

lemma pop_acquire:
  assumes "info_wf info" "pi_pop_task info now = (Inr task, info')"
  shows "pi_acquired_lock info' (chunk_id task) later = (Inr (), info'\<lparr>last_seen := later,
    locked_chunks := AList.update (chunk_id task) (chunk_lock_new (chunk_id task) later) (locked_chunks info')\<rparr>)"
proof -
  from assms(2) obtain rest where p: "assigned_tasks info = task # rest" "finished_at info = None"
    "started_at info \<noteq> None" and info': "info' = info\<lparr>last_seen := now, assigned_tasks := rest,
      pending_tasks := pending_tasks info @ [task]\<rparr>"
    by (rule pi_pop_task_ok)
  from assms(2) have "dropped_at info = None" by (simp add: pi_pop_task_def if_active_ok_iff)
  moreover from assms(1) p(1) have "chunk_id task \<notin> chunk_id ` set (pending_tasks info)"
    "chunk_id task \<notin> chunk_id ` set (completed_tasks info)"
    by (auto simp: info_wf_def open_tasks_def)
  moreover with assms(1) have "chunk_id task \<notin> fst ` set (locked_chunks info)"
    by (auto simp: info_wf_def locks_wf_def)
  moreover have "filter (\<lambda>t. task_contains t (chunk_id task)) (completed_tasks info) = []"
    using calculation(3) by (metis (mono_tags, lifting) filter_False image_eqI task_contains_def)
  moreover have "task_contains task (chunk_id task)" by (simp add: task_contains_def)
  ultimately show ?thesis using p by (auto simp: info' pi_acquired_lock_def if_active_def)
qed

lemma fetch_acquire:
  assumes "hm_get (current_contributors s) p = Some info" "info_wf info"
    "fetch_task s p now = (Inr task, s')" "chunk_id task \<le> number_of_chunks (environment s)"
  obtains s'' info'' where "acquired_lock s' p (chunk_id task) later = (Inr (), s'')"
    "hm_get (current_contributors s'') = (hm_get (current_contributors s))(p \<mapsto> info'')"
    "task \<in> set (pending_tasks info'')" "hm_contains (locked_chunks info'') (chunk_id task)"
proof -
  obtain info' where p: "is_contributor p" and pop: "pi_pop_task info now = (Inr task, info')"
    and s': "current_contributors s' = AList.map_entry p (\<lambda>_. info') (current_contributors s)"
    and env: "environment s' = environment s"
    using fetch_task_ok [OF assms(3,1)] .
  have at: "hm_get (current_contributors s') = (hm_get (current_contributors s))(p \<mapsto> info')"
    using assms(1) by (simp add: s' hm.get_upd fun_eq_iff)
  then have "hm_get (current_contributors s') p = Some info'" by simp
  note on = on_contributor [where call = "\<lambda>i. pi_acquired_lock i (chunk_id task) later",
      OF p this pop_acquire [OF assms(2) pop, of later]]
  let ?m = "on_participant s' p (\<lambda>i. pi_acquired_lock i (chunk_id task) later)"
  have "acquired_lock s' p (chunk_id task) later = ?m"
    using assms(4) env p by (cases p) (simp_all add: acquired_lock_def)
  with on(1) have acq: "acquired_lock s' p (chunk_id task) later = (Inr (), snd ?m)" by (metis prod.collapse)
  have pend: "task \<in> set (pending_tasks info')" using pop by (rule pi_pop_task_ok) simp
  have "hm_get (current_contributors (snd ?m)) = (hm_get (current_contributors s))(p \<mapsto> info'\<lparr>last_seen := later,
      locked_chunks := AList.update (chunk_id task) (chunk_lock_new (chunk_id task) later) (locked_chunks info')\<rparr>)"
    by (simp only: on(2) at fun_upd_upd)
  from that [OF acq this] pend show ?thesis by (simp add: keys_update [simplified])
qed

text \<open>
  The outcome of \<^verbatim>\<open>try_lock\<close> once a task was fetched: the lock is taken in the round and in the
  state, or the task is put back.
\<close>

definition lock_undone :: "Coordinator \<Rightarrow> Participant \<Rightarrow> ParticipantInfo \<Rightarrow> Coordinator \<Rightarrow> bool" where
  "lock_undone self p info self' \<longleftrightarrow>
     hm_get (current_contributors (co_state self')) = (hm_get (current_contributors (co_state self)))(p \<mapsto> info) \<and>
     touches {CoordinatorStateFile} (co_storage self) (co_storage self')"

definition lock_done :: "Externals \<Rightarrow> Coordinator \<Rightarrow> Participant \<Rightarrow> Task \<Rightarrow> u64 \<Rightarrow> LockedLocators \<Rightarrow> Coordinator \<Rightarrow> bool" where
  "lock_done ext self p task c locked self' \<longleftrightarrow>
     (\<exists>h r k info.
        load_current_round_height ext (co_storage self) = Inr h \<and> load_current_round ext (co_storage self) = Inr r \<and>
        round_chunk r c = Inr k \<and> lock_holder k = None \<and> c = chunk_id task \<and>
        contributor_locators r (co_storage self) c = Inr locked \<and>
        file_at (co_storage self') (RoundState h) =
          Some (round_to_json ext (r\<lparr>chunks := (chunks r)[c := k\<lparr>lock_holder := Some p\<rparr>]\<rparr>)) \<and>
        file_at (co_storage self') CoordinatorStateFile = Some (state_to_json ext (co_state self')) \<and>
        hm_get (current_contributors (co_state self')) = (hm_get (current_contributors (co_state self)))(p \<mapsto> info) \<and>
        task \<in> set (pending_tasks info) \<and> hm_contains (locked_chunks info) c)"

lemma try_lock_outcome:
  assumes info: "hm_get (current_contributors (co_state self)) p = Some info" "info_wf info"
    and fetch: "fetch_task (co_state self) p now = (Inr task, s1)"
    and range: "chunk_id task \<le> number_of_chunks (environment (co_state self))"
    and saved: "disk_exists (co_storage self) CoordinatorStateFile"
    and chunk: "result_bind (load_current_round ext (co_storage self)) (\<lambda>r. round_chunk r (chunk_id task)) = Inr chunk"
    and may: "is_current_contributor (co_state self) p" "check_round_open (co_state self) = Inr ()"
  shows "case try_lock ext self p now of
      (Inl _, self') \<Rightarrow> lock_undone self p (info\<lparr>last_seen := now\<rparr>) self'
    | (Inr (c, locked), self') \<Rightarrow> lock_done ext self p task c locked self'"
proof -
  let ?self = "self\<lparr>co_state := s1\<rparr>"
  have p: "is_contributor p" using may(1) by (simp add: is_current_contributor_def is_authorized_contributor_def)
  obtain s2 where s2: "rollback_pending_task s1 p task now = (Inr (), s2)"
    "hm_get (current_contributors s2) = (hm_get (current_contributors (co_state self)))(p \<mapsto> info\<lparr>last_seen := now\<rparr>)"
    using fetch_rollback [OF info fetch range] .
  obtain s3 info3 where s3: "acquired_lock s1 p (chunk_id task) now = (Inr (), s3)"
    "hm_get (current_contributors s3) = (hm_get (current_contributors (co_state self)))(p \<mapsto> info3)"
    "task \<in> set (pending_tasks info3)" "hm_contains (locked_chunks info3) (chunk_id task)"
    using fetch_acquire [OF info fetch range] .
  have start: "try_lock ext self p now =
      (if current_contribution_id chunk + 1 < contribution_id task
       then and_then (on_state ?self (\<lambda>s. rollback_pending_task s p task now))
              (\<lambda>_ self. (Inl (PreviousContributionMissing task), self))
       else (case coordinator_try_lock_chunk ext ?self (chunk_id task) p of
          (Inr locked, self) \<Rightarrow>
            and_save ext (and_then (on_state self (\<lambda>s. acquired_lock s p (chunk_id task) now))
               (\<lambda>_ self. (Inr (chunk_id task, locked), self)))
        | (Inl e, self) \<Rightarrow>
            and_then (and_save ext (on_state self (\<lambda>s. rollback_pending_task s p task now)))
              (\<lambda>_ self. (Inl e, self))))"
    using p may fetch chunk by (simp add: try_lock_def on_state_def)
  show ?thesis
  proof (cases "current_contribution_id chunk + 1 < contribution_id task")
    case True
    with s2 show ?thesis by (simp add: start on_state_def lock_undone_def)
  next
    case False
    show ?thesis
    proof (cases rule: coordinator_try_lock_chunk_cases [of ext ?self "chunk_id task" p])
      case (error e)
      have "and_save ext (on_state ?self (\<lambda>s. rollback_pending_task s p task now)) = (Inr (), self\<lparr>co_state := s2,
          co_storage := put_file CoordinatorStateFile (state_to_json ext s2) (co_storage self)\<rparr>)"
        by (subst and_save_ok [of _ _ "self\<lparr>co_state := s2\<rparr>"]) (use s2 saved in \<open>simp_all add: on_state_def\<close>)
      with error False s2 touches_put show ?thesis by (simp add: start lock_undone_def)
    next
      case (ok h r locked k i d')
      let ?d = "put_file (RoundState h)
          (round_to_json ext (r\<lparr>chunks := (chunks r)[chunk_id task := k\<lparr>lock_holder := Some p\<rparr>]\<rparr>)) d'"
      have "disk_exists ?d CoordinatorStateFile"
        using touches_file [OF ok(8), of CoordinatorStateFile] saved by (simp add: disk_exists_def disk.get_ins)
      then have "try_lock ext self p now = (Inr (chunk_id task, locked), self\<lparr>co_state := s3,
          co_storage := put_file CoordinatorStateFile (state_to_json ext s3) ?d\<rparr>)"
        using False s3(1) ok(7)
        by (simp add: start) (subst and_save_ok [of _ _ "self\<lparr>co_state := s3, co_storage := ?d\<rparr>"],
          simp_all add: on_state_def)
      with ok s3 show ?thesis by (auto simp: lock_done_def disk.get_ins)
    qed
  qed
qed

text \<open>
  When the round or the chunk cannot be loaded after the task was fetched, \<^verbatim>\<open>try_lock\<close> returns
  at once: the task stays pending.
\<close>

lemma try_lock_abandoned:
  assumes info: "hm_get (current_contributors (co_state self)) p = Some info"
    and fetch: "fetch_task (co_state self) p now = (Inr task, s1)"
    and chunk: "result_bind (load_current_round ext (co_storage self)) (\<lambda>r. round_chunk r (chunk_id task)) = Inl e"
    and may: "is_current_contributor (co_state self) p" "check_round_open (co_state self) = Inr ()"
  shows "try_lock ext self p now = (Inl e, self\<lparr>co_state := s1\<rparr>)"
    "\<exists>info1. hm_get (current_contributors s1) = (hm_get (current_contributors (co_state self)))(p \<mapsto> info1) \<and>
       assigned_tasks info = task # assigned_tasks info1 \<and> task \<in> set (pending_tasks info1) \<and>
       locked_chunks info1 = locked_chunks info"
proof -
  have p: "is_contributor p" using may(1) by (simp add: is_current_contributor_def is_authorized_contributor_def)
  with may fetch chunk show "try_lock ext self p now = (Inl e, self\<lparr>co_state := s1\<rparr>)"
    by (simp add: try_lock_def on_state_def)
  obtain info1 where pop: "pi_pop_task info now = (Inr task, info1)"
    and s1: "current_contributors s1 = AList.map_entry p (\<lambda>_. info1) (current_contributors (co_state self))"
    using fetch_task_ok [OF fetch info] .
  have "hm_get (current_contributors s1) = (hm_get (current_contributors (co_state self)))(p \<mapsto> info1)"
    using info by (simp add: s1 hm.get_upd fun_eq_iff)
  moreover from pop have "assigned_tasks info = task # assigned_tasks info1" "task \<in> set (pending_tasks info1)"
    "locked_chunks info1 = locked_chunks info"
    by (rule pi_pop_task_ok, simp)+
  ultimately show "\<exists>info1. hm_get (current_contributors s1) = (hm_get (current_contributors (co_state self)))(p \<mapsto> info1) \<and>
       assigned_tasks info = task # assigned_tasks info1 \<and> task \<in> set (pending_tasks info1) \<and>
       locked_chunks info1 = locked_chunks info" by blast
qed

section \<open>Contributing\<close>

lemma disk_reader_ok_iff:
  "disk_reader z d l = Inr content \<longleftrightarrow> file_at d l = Some content \<and> check_size z d l content = Inr content"
  by (auto simp: disk_reader_def check_size_def split: option.splits Locator.splits if_splits)

lemma check_response_ok:
  assumes "check_response ext d challenge_file response_file = Inr (ch, rh)"
  obtains challenge response where "file_at d challenge_file = Some challenge"
    "file_at d response_file = Some response" "64 \<le> length response"
    "check_size (sizes ext) d challenge_file challenge = Inr challenge"
    "check_size (sizes ext) d response_file response = Inr response"
    "take 64 response = calculate_hash (crypto ext) challenge"
    "ch = calculate_hash (crypto ext) challenge" "rh = calculate_hash (crypto ext) response"
  using assms
  by (auto simp: check_response_def result_bind_ok_iff disk_reader_ok_iff Let_def not_less split: if_splits)

lemma check_signature_ok:
  assumes "check_signature ext scheme d signature_file p invalid (calculate_hash (crypto ext) challenge)
      (calculate_hash (crypto ext) response) = Inr sig"
  shows "Option.bind (file_at d signature_file) (signature_of_json ext) = Some sig"
    "signed_by (crypto ext) scheme (signing_address p) sig" "states_hashes (crypto ext) sig challenge response"
  using assms
  by (auto simp: check_signature_def result_bind_ok_iff disk_reader_ok_iff json_result_def hex_result_def
      signed_by_def states_hashes_def signature_message_def split: if_splits option.splits)

definition new_contribution :: "Disk \<Rightarrow> Participant \<Rightarrow> u64 \<Rightarrow> u64 \<Rightarrow> u64 \<Rightarrow> Contribution" where
  "new_contribution d p h c i =
     \<lparr>contributor_id = Some p,
      contributed_locator = Some (disk_path d (ContributionFile (contribution_locator h c i False))),
      contributed_signature_locator =
        Some (disk_path d (ContributionFileSignatureFile (signature_locator h c i False))),
      verifier_id = None, verified_locator = None, verified_signature_locator = None, verified = False\<rparr>"

text \<open>What a contribution must satisfy to be added, and the round with it.\<close>

definition contribution_accepted ::
  "Externals \<Rightarrow> Coordinator \<Rightarrow> u64 \<Rightarrow> Round \<Rightarrow> u64 \<Rightarrow> Participant \<Rightarrow> u64 \<Rightarrow> bool" where
  "contribution_accepted ext self h r c p i \<longleftrightarrow>
     (\<exists>k challenge response sig.
        p \<in> set (contributor_ids r) \<and> is_contributor p \<and> round_chunk r c = Inr k \<and> lock_holder k = Some p \<and>
        next_contribution_id k (expected_number_of_contributions r) = Inr i \<and>
        file_at (co_storage self)
          (ContributionFile (contribution_locator h c (current_contribution_id k) True)) = Some challenge \<and>
        file_at (co_storage self) (ContributionFile (contribution_locator h c i False)) = Some response \<and>
        length response = contribution_file_size (sizes ext) (disk_environment (co_storage self)) c False \<and>
        take 64 response = calculate_hash (crypto ext) challenge \<and>
        Option.bind (file_at (co_storage self)
          (ContributionFileSignatureFile (signature_locator h c i False))) (signature_of_json ext) = Some sig \<and>
        signed_by (crypto ext) (co_signature self) (signing_address p) sig \<and>
        states_hashes (crypto ext) sig challenge response \<and> cs_next_challenge_hash (cfs_state sig) = None)"

definition with_contribution :: "Disk \<Rightarrow> Round \<Rightarrow> u64 \<Rightarrow> u64 \<Rightarrow> Participant \<Rightarrow> u64 \<Rightarrow> Round" where
  "with_contribution d r h c p i =
     r\<lparr>chunks := (chunks r)[c := (chunks r ! c)\<lparr>
         contributions := AList.update i (new_contribution d p h c i) (contributions (chunks r ! c)),
         lock_holder := None\<rparr>]\<rparr>"

lemma contributed_round_ok:
  assumes "contributed_round ext self h r c p = Inr (response, i, r')"
  shows "response = contribution_locator h c i False" "contribution_accepted ext self h r c p i"
    "r' = with_contribution (co_storage self) r h c p i"
proof -
  let ?d = "co_storage self"
  from assms obtain k ch rh sig where r: "round_is_contributor r p" and locked: "is_chunk_locked_by r c p"
    and k: "round_chunk r c = Inr k" and i: "next_contribution_id k (expected_number_of_contributions r) = Inr i"
    and resp: "response = contribution_locator h c i False"
    and cr: "check_response ext ?d (ContributionFile (contribution_locator h c (current_contribution_id k) True))
        (ContributionFile (contribution_locator h c i False)) = Inr (ch, rh)"
    and sig: "check_signature ext (co_signature self) ?d
        (ContributionFileSignatureFile (signature_locator h c i False)) p ContributorSignatureInvalid ch rh = Inr sig"
      "cs_next_challenge_hash (cfs_state sig) = None"
    and add: "on_chunk r c (\<lambda>chunk. add_contribution chunk i p
        (disk_path ?d (ContributionFile (contribution_locator h c i False)))
        (disk_path ?d (ContributionFileSignatureFile (signature_locator h c i False)))) = (Inr (), r')"
    by (auto simp: contributed_round_def result_bind_ok_iff Let_def split: if_splits sum.splits prod.splits)
  show "response = contribution_locator h c i False" by (rule resp)
  have p: "is_contributor p" "p \<in> set (contributor_ids r)"
    using r by (auto simp: round_is_contributor_def split: Participant.splits)
  have holder: "lock_holder k = Some p"
    using locked k by (auto simp: is_chunk_locked_by_def split: if_splits option.splits)
  obtain challenge content where files:
    "file_at ?d (ContributionFile (contribution_locator h c (current_contribution_id k) True)) = Some challenge"
    "file_at ?d (ContributionFile (contribution_locator h c i False)) = Some content"
    "check_size (sizes ext) ?d (ContributionFile (contribution_locator h c i False)) content = Inr content"
    "take 64 content = calculate_hash (crypto ext) challenge"
    and hashes: "ch = calculate_hash (crypto ext) challenge" "rh = calculate_hash (crypto ext) content"
    using check_response_ok [OF cr] by metis
  have len: "length content = contribution_file_size (sizes ext) (disk_environment ?d) c False"
    using files(3) by (auto simp: check_size_def contribution_locator_def split: if_splits)
  note sg = check_signature_ok [OF sig(1) [unfolded hashes]]
  show "contribution_accepted ext self h r c p i"
    unfolding contribution_accepted_def using p k holder i files len sg sig(2) by blast
  from add k show "r' = with_contribution ?d r h c p i"
    by (auto elim!: on_chunk_ok add_contribution_eq simp: round_chunk_ok_iff with_contribution_def
        new_contribution_def contribution_new_contributor_def split: if_splits)
qed

lemma coordinator_add_contribution_cases:
  obtains (error) e where "coordinator_add_contribution ext self c p = (Inl e, self)"
    | (ok) h r i where "load_current_round_height ext (co_storage self) = Inr h"
      "load_current_round ext (co_storage self) = Inr r" "contribution_accepted ext self h r c p i"
      "coordinator_add_contribution ext self c p = (Inr (contribution_locator h c i False, i),
         self\<lparr>co_storage := put_file (RoundState h)
           (round_to_json ext (with_contribution (co_storage self) r h c p i)) (co_storage self)\<rparr>)"
proof (cases "\<exists>e. coordinator_add_contribution ext self c p = (Inl e, self)")
  case True
  with error show ?thesis by blast
next
  case False
  then obtain h r response i r' where hr: "load_current_round_height ext (co_storage self) = Inr h"
    "load_current_round ext (co_storage self) = Inr r" and c: "contributed_round ext self h r c p = Inr (response, i, r')"
    by (auto simp: coordinator_add_contribution_def result_bind_def split: sum.splits)
  note cr = contributed_round_ok [OF c]
  from hr c cr(1,3) loaded_round_exists [OF hr]
  have "coordinator_add_contribution ext self c p = (Inr (contribution_locator h c i False, i),
      self\<lparr>co_storage := put_file (RoundState h)
        (round_to_json ext (with_contribution (co_storage self) r h c p i)) (co_storage self)\<rparr>)"
    by (simp add: coordinator_add_contribution_def update_round_def disk_update_def)
  with hr cr(2) show ?thesis by (rule ok)
qed

section \<open>Verifying\<close>

text \<open>The files at which a verification looks: challenge, response, next challenge and signature.\<close>

definition verification_files ::
  "u64 \<Rightarrow> Round \<Rightarrow> Task \<Rightarrow> Locator \<times> Locator \<times> Locator \<times> Locator" where
  "verification_files h r task =
     (let c = chunk_id task; i = contribution_id task;
          (next_challenge, next_signature) =
            next_challenge_locators h c i
              (only_contributions_complete (chunks r ! c) (expected_number_of_contributions r))
      in (ContributionFile (contribution_locator h c (usize_sub i 1) True),
          ContributionFile (contribution_locator h c i False),
          ContributionFile next_challenge, ContributionFileSignatureFile next_signature))"

definition verification_accepted ::
  "Externals \<Rightarrow> Coordinator \<Rightarrow> u64 \<Rightarrow> Round \<Rightarrow> Task \<Rightarrow> Participant \<Rightarrow> bool" where
  "verification_accepted ext self h r task v \<longleftrightarrow>
     (let (challenge_file, response_file, next_file, signature_file) = verification_files h r task;
          at = file_at (co_storage self); hash = calculate_hash (crypto ext)
      in \<exists>k challenge response next_challenge sig.
        is_verifier v \<and> round_chunk r (chunk_id task) = Inr k \<and>
        current_contribution_id k = contribution_id task \<and>
        at challenge_file = Some challenge \<and> at response_file = Some response \<and> at next_file = Some next_challenge \<and>
        take 64 response = hash challenge \<and> take 64 next_challenge = hash response \<and>
        Option.bind (at signature_file) (signature_of_json ext) = Some sig \<and>
        signed_by (crypto ext) (co_signature self) (signing_address v) sig \<and>
        states_hashes (crypto ext) sig challenge response \<and>
        Option.bind (cs_next_challenge_hash (cfs_state sig)) (hex_decode (crypto ext)) = Some (hash next_challenge))"

lemma check_next_challenge_ok:
  assumes "check_next_challenge ext d l rh = Inr nh"
  obtains content where "file_at d l = Some content" "take 64 content = rh" "nh = calculate_hash (crypto ext) content"
  using assms by (auto simp: check_next_challenge_def result_bind_ok_iff disk_reader_ok_iff split: if_splits)

lemma verified_round_ok:
  assumes "verified_round ext self h r task v now = Inr (i, r')" "is_verifier v"
  shows "verification_accepted ext self h r task v" "i = contribution_id task"
    "case verification_files h r task of (_, _, next_file, signature_file) \<Rightarrow>
       round_verify_contribution r (chunk_id task) i v (disk_path (co_storage self) next_file)
         (disk_path (co_storage self) signature_file) now = (Inr (), r')"
proof -
  let ?d = "co_storage self" and ?c = "chunk_id task" and ?i = "contribution_id task"
  from assms(1) obtain k where k: "round_chunk r ?c = Inr k" "current_contribution_id k = ?i"
    by (auto simp: verified_round_def Let_def result_bind_ok_iff split: if_splits)
  then have kn: "chunks r ! ?c = k" by (simp add: round_chunk_ok_iff)
  obtain nc ns where next_file: "next_challenge_locators h ?c ?i
      (only_contributions_complete k (expected_number_of_contributions r)) = (nc, ns)" by fastforce
  have files: "verification_files h r task = (ContributionFile (contribution_locator h ?c (usize_sub ?i 1) True),
      ContributionFile (contribution_locator h ?c ?i False), ContributionFile nc, ContributionFileSignatureFile ns)"
    using kn next_file by (simp add: verification_files_def Let_def)
  from assms(1) k next_file obtain ch rh nh sig signed where
    cr: "check_response ext ?d (ContributionFile (contribution_locator h ?c (usize_sub ?i 1) True))
      (ContributionFile (contribution_locator h ?c ?i False)) = Inr (ch, rh)"
    and cn: "check_next_challenge ext ?d (ContributionFile nc) rh = Inr nh"
    and cs: "check_signature ext (co_signature self) ?d (ContributionFileSignatureFile ns) v
      VerifierSignatureInvalid ch rh = Inr sig"
    and signed: "cs_next_challenge_hash (cfs_state sig) = Some signed" "hex_decode (crypto ext) signed = Some nh"
    and i: "i = ?i" and r': "round_verify_contribution r ?c ?i v (disk_path ?d (ContributionFile nc))
      (disk_path ?d (ContributionFileSignatureFile ns)) now = (Inr (), r')"
    by (auto simp: verified_round_def Let_def result_bind_ok_iff hex_result_def
        split: if_splits option.splits sum.splits prod.splits)
  from r' files i show "case verification_files h r task of (_, _, next_file, signature_file) \<Rightarrow>
       round_verify_contribution r ?c i v (disk_path ?d next_file) (disk_path ?d signature_file) now = (Inr (), r')"
    by simp
  show "i = ?i" by (rule i)
  obtain challenge response where f:
    "file_at ?d (ContributionFile (contribution_locator h ?c (usize_sub ?i 1) True)) = Some challenge"
    "file_at ?d (ContributionFile (contribution_locator h ?c ?i False)) = Some response"
    "take 64 response = calculate_hash (crypto ext) challenge"
    and hashes: "ch = calculate_hash (crypto ext) challenge" "rh = calculate_hash (crypto ext) response"
    using check_response_ok [OF cr] by metis
  obtain content where n: "file_at ?d (ContributionFile nc) = Some content"
    "take 64 content = calculate_hash (crypto ext) response" "nh = calculate_hash (crypto ext) content"
    using check_next_challenge_ok [OF cn] hashes(2) by metis
  note sg = check_signature_ok [OF cs [unfolded hashes]]
  show "verification_accepted ext self h r task v"
    unfolding verification_accepted_def files Let_def prod.case
    using assms(2) k f n sg signed by auto
qed

lemma coordinator_verify_contribution_cases:
  obtains (error) e where "coordinator_verify_contribution ext self task v now = (Inl e, self)"
    | (ok) h r r' where "load_current_round_height ext (co_storage self) = Inr h"
      "load_current_round ext (co_storage self) = Inr r" "verification_accepted ext self h r task v"
      "case verification_files h r task of (_, _, next_file, signature_file) \<Rightarrow>
         round_verify_contribution r (chunk_id task) (contribution_id task) v (disk_path (co_storage self) next_file)
           (disk_path (co_storage self) signature_file) now = (Inr (), r')"
      "coordinator_verify_contribution ext self task v now = (Inr (contribution_id task),
         self\<lparr>co_storage := put_file (RoundState h) (round_to_json ext r') (co_storage self)\<rparr>)"
proof (cases "\<exists>e. coordinator_verify_contribution ext self task v now = (Inl e, self)")
  case True
  with error show ?thesis by blast
next
  case False
  then obtain h r i r' where hr: "load_current_round_height ext (co_storage self) = Inr h"
    "load_current_round ext (co_storage self) = Inr r" and v: "is_verifier v"
    and c: "verified_round ext self h r task v now = Inr (i, r')"
    by (auto simp: coordinator_verify_contribution_def result_bind_def split: sum.splits if_splits)
  note vr = verified_round_ok [OF c v]
  have "coordinator_verify_contribution ext self task v now = (Inr (contribution_id task),
      self\<lparr>co_storage := put_file (RoundState h) (round_to_json ext r') (co_storage self)\<rparr>)"
    using hr v c vr(2) loaded_round_exists [OF hr]
    by (simp add: coordinator_verify_contribution_def update_round_def disk_update_def)
  with hr vr show ?thesis by (intro ok) simp_all
qed

section \<open>Properties\<close>

text \<open>
  C3. A contribution is added only if it fits the files: its contributor is in the round and holds
  the lock of the chunk, it is the next one of the chunk, the response file has the right size and
  starts with the hash of the challenge file, and the signature file is signed by the contributor
  over exactly the hashes of the two. Then the only change is that the stored round has the new
  unverified contribution and the lock is free; on an error nothing changes.
\<close>

theorem add_contribution_sound:
  "case coordinator_add_contribution ext self c p of
     (Inl _, self') \<Rightarrow> self' = self
   | (Inr (response, i), self') \<Rightarrow>
       (\<exists>h r. load_current_round_height ext (co_storage self) = Inr h \<and>
          load_current_round ext (co_storage self) = Inr r \<and> contribution_accepted ext self h r c p i \<and>
          response = contribution_locator h c i False \<and>
          self' = self\<lparr>co_storage := put_file (RoundState h)
            (round_to_json ext (with_contribution (co_storage self) r h c p i)) (co_storage self)\<rparr>)"
  by (rule coordinator_add_contribution_cases [of ext self c p]) auto

text \<open>
  C4. A verification is accepted only if the hash chain is closed: the response starts with the
  hash of the challenge, the next challenge starts with the hash of the response, and the
  signature file is signed by the verifier over the hashes of all three. Then the only change is
  the verified contribution in the stored round; on an error nothing changes.
\<close>

theorem verify_contribution_sound:
  "case coordinator_verify_contribution ext self task v now of
     (Inl _, self') \<Rightarrow> self' = self
   | (Inr i, self') \<Rightarrow>
       (\<exists>h r r'. load_current_round_height ext (co_storage self) = Inr h \<and>
          load_current_round ext (co_storage self) = Inr r \<and> verification_accepted ext self h r task v \<and>
          i = contribution_id task \<and>
          (case verification_files h r task of (_, _, next_file, signature_file) \<Rightarrow>
             round_verify_contribution r (chunk_id task) i v (disk_path (co_storage self) next_file)
               (disk_path (co_storage self) signature_file) now = (Inr (), r')) \<and>
          self' = self\<lparr>co_storage := put_file (RoundState h) (round_to_json ext r') (co_storage self)\<rparr>)"
proof (cases rule: coordinator_verify_contribution_cases [of ext self task v now])
  case (error e)
  then show ?thesis by simp
next
  case (ok h r r')
  show ?thesis unfolding ok(5) prod.case sum.case
    by (intro exI [of _ h] exI [of _ r] exI [of _ r'] conjI refl ok(1-4))
qed


text \<open>
  A coordinator in round 1 with one contributor at work, over a storage whose encoders are small
  concrete functions.
\<close>

definition sample_crypto :: Crypto where
  "sample_crypto = \<lparr>hex_encode = map char_of, hex_decode = (\<lambda>s. Some (map of_char s)),
     blake2b = (\<lambda>b. take 64 (rev b @ replicate 64 7)),
     state_message = (\<lambda>s. cs_challenge_hash s @ cs_response_hash s)\<rparr>"

definition sample_externals :: "Round \<Rightarrow> Externals" where
  "sample_externals r = \<lparr>crypto = sample_crypto, sizes = sample_sizes,
     state_to_json = (\<lambda>_. [3]), state_of_json = (\<lambda>_. None),
     height_to_json = (\<lambda>h. [h]), height_of_json = (\<lambda>b. if b = [] then None else Some (hd b)),
     round_to_json = (\<lambda>_. [2]), round_of_json = (\<lambda>b. if b = [2] then Some r else None),
     signature_to_json = (\<lambda>f. as_bytes (cs_challenge_hash (cfs_state f))),
     signature_of_json = (\<lambda>_. None)\<rparr>"

definition sample_coordinator :: Coordinator where
  "sample_coordinator =
     (let env = the testing_default; d = empty_disk env in
      \<lparr>co_environment = env, co_signature = dummy sample_crypto,
       co_storage = put_file CoordinatorStateFile [3] (put_file RoundHeightFile [1] (put_file (RoundState 1) [2] d)),
       co_state = (initialize (state_new env) 1)\<lparr>current_contributors := [(Contributor ''a'', demo_info)]\<rparr>\<rparr>)"

abbreviation two_contributors :: "Participant list" where
  "two_contributors \<equiv> [Contributor ''a'', Contributor ''b'']"

lemma sample_coordinator_ready:
  "hm_get (current_contributors (co_state sample_coordinator)) (Contributor ''a'') = Some demo_info"
  "is_current_contributor (co_state sample_coordinator) (Contributor ''a'')"
  "disk_exists (co_storage sample_coordinator) CoordinatorStateFile"
  "check_round_open (co_state sample_coordinator) = Inr ()"
  "environment (co_state sample_coordinator) = the testing_default"
proof -
  have "case check_round_open (co_state sample_coordinator) of Inl _ \<Rightarrow> False | Inr _ \<Rightarrow> True" by code_simp
  then show "check_round_open (co_state sample_coordinator) = Inr ()" by (simp split: sum.splits)
  show "hm_get (current_contributors (co_state sample_coordinator)) (Contributor ''a'') = Some demo_info"
    "environment (co_state sample_coordinator) = the testing_default"
    by (simp_all add: sample_coordinator_def Let_def initialize_def state_new_def)
  show "is_current_contributor (co_state sample_coordinator) (Contributor ''a'')"
    "disk_exists (co_storage sample_coordinator) CoordinatorStateFile"
    by code_simp+
qed

lemma sample_fetch:
  "\<exists>s. fetch_task (co_state sample_coordinator) (Contributor ''a'') 9 = (Inr (new_task 0 1), s)"
proof -
  have "case fetch_task (co_state sample_coordinator) (Contributor ''a'') 9 of
      (Inl _, _) \<Rightarrow> False | (Inr t, _) \<Rightarrow> t = new_task 0 1" by code_simp
  then show ?thesis by (auto split: prod.splits sum.splits)
qed

lemma sample_chunk:
  "result_bind (load_current_round (sample_externals (sample_round two_contributors)) (co_storage sample_coordinator))
     (\<lambda>r. round_chunk r 0) = Inr (chunks (sample_round two_contributors) ! 0)"
proof -
  have "case load_current_round (sample_externals (sample_round two_contributors)) (co_storage sample_coordinator) of
      Inl _ \<Rightarrow> False | Inr r \<Rightarrow> r = sample_round two_contributors" by code_simp
  then show ?thesis using round_chunk_wf [OF sample_round_wf, of 0]
    by (auto simp: sample_round_def split: sum.splits)
qed

text \<open>The stored round cannot be read.\<close>

lemma sample_unreadable:
  "\<exists>e. result_bind (load_current_round ((sample_externals (sample_round two_contributors))\<lparr>round_of_json := \<lambda>_. None\<rparr>)
     (co_storage sample_coordinator)) (\<lambda>r. round_chunk r 0) = Inl e"
proof -
  have "case load_current_round ((sample_externals (sample_round two_contributors))\<lparr>round_of_json := \<lambda>_. None\<rparr>)
      (co_storage sample_coordinator) of Inl _ \<Rightarrow> True | Inr _ \<Rightarrow> False" by code_simp
  then show ?thesis by (auto split: sum.splits)
qed


end
