(* ===== verification/Commands.thy ===== *)
theory Commands
  imports Object_Storage
begin

text \<open>
  \<^verbatim>\<open>phase1-coordinator/src/commands\<close>: the initialization, computation, verification and
  aggregation of contributions on the files of the storage. The powers of tau themselves (crate
  \<^verbatim>\<open>phase1\<close> over the curves of a third-party crate) are fields of \<open>Phase1Ops\<close>, a parameter of the
  definitions: an operation on a buffer returns whether it succeeded and the buffer it leaves.
\<close>

record Phase1Ops =
  p1_initialization :: "CurveKind \<Rightarrow> bytes \<Rightarrow> UseCompression \<Rightarrow> Phase1Parameters \<Rightarrow> bool \<times> bytes"
  p1_key_generation :: "CurveKind \<Rightarrow> bytes \<Rightarrow> bytes \<Rightarrow> bytes \<times> bytes"
  p1_computation :: "CurveKind \<Rightarrow> bytes \<Rightarrow> bytes \<Rightarrow> UseCompression \<Rightarrow> UseCompression \<Rightarrow> CheckForCorrectness \<Rightarrow>
    bytes \<Rightarrow> Phase1Parameters \<Rightarrow> bool \<times> bytes"
  p1_write_public_key :: "CurveKind \<Rightarrow> bytes \<Rightarrow> bytes \<Rightarrow> UseCompression \<Rightarrow> Phase1Parameters \<Rightarrow> bool \<times> bytes"
  p1_read_public_key :: "CurveKind \<Rightarrow> bytes \<Rightarrow> UseCompression \<Rightarrow> Phase1Parameters \<Rightarrow> bytes option"
  p1_verification :: "CurveKind \<Rightarrow> bytes \<Rightarrow> bytes \<Rightarrow> bytes \<Rightarrow> bytes \<Rightarrow> UseCompression \<Rightarrow> UseCompression \<Rightarrow>
    CheckForCorrectness \<Rightarrow> CheckForCorrectness \<Rightarrow> Phase1Parameters \<Rightarrow> bool"
  p1_decompress :: "CurveKind \<Rightarrow> bytes \<Rightarrow> bytes \<Rightarrow> CheckForCorrectness \<Rightarrow> Phase1Parameters \<Rightarrow> bool \<times> bytes"
  p1_aggregation :: "CurveKind \<Rightarrow> (bytes \<times> UseCompression) list \<Rightarrow> bytes \<Rightarrow> UseCompression \<Rightarrow> Phase1Parameters \<Rightarrow>
    bool \<times> bytes"
  p1_aggregate_verification :: "CurveKind \<Rightarrow> bytes \<Rightarrow> UseCompression \<Rightarrow> CheckForCorrectness \<Rightarrow> Phase1Parameters \<Rightarrow> bool"

text \<open>
  Writing through a mapped file: \<^verbatim>\<open>storage.writer(&locator)?.as_mut()\<close> is passed to an operation
  that may fail, and the file holds what it left.
\<close>

definition write_through ::
  "Externals \<Rightarrow> Disk \<Rightarrow> Locator \<Rightarrow> (bytes \<Rightarrow> ('a, bytes) fallible) \<Rightarrow> ('a, Disk) fallible" where
  "write_through ext storage l operation =
     (case disk_writer (sizes ext) storage l of
        Inl e \<Rightarrow> (Inl e, storage)
      | Inr buffer \<Rightarrow> (let (r, buffer) = operation buffer in (r, put_file l buffer storage)))"

text \<open>\<^verbatim>\<open>(&mut writer[0..]).write_all(content)\<close>\<close>

definition write_all :: "bytes \<Rightarrow> bytes \<Rightarrow> (unit, bytes) fallible" where
  "write_all content buffer =
     (if length content \<le> length buffer then (Inr (), content @ drop (length content) buffer)
      else (Inl IOError, take (length buffer) content))"

text \<open>An operation of the cryptography, with its error as \<^verbatim>\<open>CoordinatorError::Phase1Setup\<close>.\<close>

definition setup_result :: "bool \<times> bytes \<Rightarrow> (unit, bytes) fallible" where
  "setup_result r = (if fst r then Inr () else Inl Phase1Setup, snd r)"

definition chunk_parameters :: "Externals \<Rightarrow> Environment \<Rightarrow> u64 \<Rightarrow> Phase1Parameters" where
  "chunk_parameters ext env c =
     (let settings = parameters env in phase1_chunked_parameters (sizes ext (curve settings)) settings c)"

section \<open>Initialization\<close>

definition blank_hash :: "Crypto \<Rightarrow> bytes" where
  "blank_hash cr = blake2b cr []"

definition initialization_command ::
  "Externals \<Rightarrow> Phase1Ops \<Rightarrow> CurveKind \<Rightarrow> UseCompression \<Rightarrow> Phase1Parameters \<Rightarrow> bytes \<Rightarrow> (unit, bytes) fallible" where
  "initialization_command ext ops kind compressed ps writer =
     and_then (write_all (blank_hash (crypto ext)) writer)
       (\<lambda>_ writer. setup_result (p1_initialization ops kind writer compressed ps))"

definition check_hash :: "Externals \<Rightarrow> Disk \<Rightarrow> Locator \<Rightarrow> Locator \<Rightarrow> CoordinatorError + bytes" where
  "check_hash ext storage contribution_file next_contribution_file =
     result_bind (disk_reader (sizes ext) storage contribution_file) (\<lambda>current.
     result_bind (disk_reader (sizes ext) storage next_contribution_file) (\<lambda>next_file.
       let contribution_hash_0 = calculate_hash (crypto ext) current;
           contribution_hash_1 = calculate_hash (crypto ext) next_file
       in if contribution_hash_0 \<noteq> contribution_hash_1 then Inl InitializationTranscriptsDiffer
          else Inr contribution_hash_1))"

definition initialization_run ::
  "Externals \<Rightarrow> Phase1Ops \<Rightarrow> Environment \<Rightarrow> Disk \<Rightarrow> u64 \<Rightarrow> u64 \<Rightarrow> (bytes, Disk) fallible" where
  "initialization_run ext ops env storage h c = as_anyhow
     (let expected_challenge_size = contribution_file_size (sizes ext) env c True;
          contribution_file = ContributionFile (contribution_locator h c 0 True);
          next_contribution_file = ContributionFile (contribution_locator (h + 1) c 0 True);
          kind = curve (parameters env)
      in and_then (disk_initialize storage contribution_file expected_challenge_size) (\<lambda>_ storage.
         case disk_writer (sizes ext) storage contribution_file of
           Inl e \<Rightarrow> (Inl e, storage)
         | Inr _ \<Rightarrow>
             (case write_through ext storage contribution_file
                     (initialization_command ext ops kind (compressed_inputs env) (chunk_parameters ext env c)) of
                (Inl _, storage) \<Rightarrow> (Inl InitializationFailed, storage)
              | (Inr _, storage) \<Rightarrow>
                  and_then (disk_copy ext storage contribution_file next_contribution_file)
                    (\<lambda>_ storage. (check_hash ext storage contribution_file next_contribution_file, storage)))))"

section \<open>Signature files\<close>

definition write_contribution_file_signature ::
  "Externals \<Rightarrow> Disk \<Rightarrow> Signature \<Rightarrow> string \<Rightarrow> Locator \<Rightarrow> Locator \<Rightarrow> Locator option \<Rightarrow> Locator \<Rightarrow>
   (unit, Disk) fallible" where
  "write_contribution_file_signature ext storage scheme signing_key challenge_file response_file
     next_challenge_file signature_file =
     (let read_hash = (\<lambda>l. result_bind (disk_reader (sizes ext) storage l)
            (\<lambda>content. Inr (calculate_hash (crypto ext) content)))
      in case result_bind (read_hash challenge_file) (\<lambda>challenge_hash.
              result_bind (read_hash response_file) (\<lambda>response_hash.
              result_bind (case next_challenge_file of
                  None \<Rightarrow> Inr None
                | Some l \<Rightarrow> result_bind (read_hash l) (\<lambda>hash. Inr (Some hash))) (\<lambda>next_challenge_hash.
              result_bind (contribution_state_new (crypto ext) challenge_hash response_hash next_challenge_hash)
                (\<lambda>state.
              result_bind (case sign scheme signing_key (signature_message (crypto ext) state) of
                  None \<Rightarrow> Inl Error | Some sig \<Rightarrow> Inr sig) (\<lambda>sig.
              contribution_file_signature_new (crypto ext) sig state))))) of
           Inl e \<Rightarrow> (Inl e, storage)
         | Inr f \<Rightarrow> write_through ext storage signature_file (write_all (signature_to_json ext f)))"

section \<open>Computation\<close>

text \<open>The buffer starts with the hash of the challenge, then come the powers and the public key.\<close>

definition computation_contribute ::
  "Externals \<Rightarrow> Phase1Ops \<Rightarrow> Environment \<Rightarrow> CurveKind \<Rightarrow> Phase1Parameters \<Rightarrow> bytes \<Rightarrow> bytes \<Rightarrow> bytes \<Rightarrow>
   (unit, bytes) fallible" where
  "computation_contribute ext ops env kind ps seed challenge writer =
     (if compressed_inputs env = Yes then (Inl CompressedContributionHashingUnsupported, writer)
      else
        (let challenge_hash = calculate_hash (crypto ext) challenge in
         and_then (write_all challenge_hash writer) (\<lambda>_ writer.
           if length challenge < 64 then (Inl StorageReaderFailed, writer)
           else
             (let (public_key, private_key) = p1_key_generation ops kind seed challenge_hash in
              and_then (setup_result (p1_computation ops kind challenge writer (compressed_inputs env)
                  (compressed_outputs env) (check_input_for_correctness env) private_key ps)) (\<lambda>_ writer.
                setup_result (p1_write_public_key ops kind public_key writer (compressed_outputs env) ps))))))"

definition computation_run ::
  "Externals \<Rightarrow> Phase1Ops \<Rightarrow> Environment \<Rightarrow> Disk \<Rightarrow> Signature \<Rightarrow> string \<Rightarrow> Locator \<Rightarrow> Locator \<Rightarrow> Locator \<Rightarrow> bytes \<Rightarrow>
   (unit, Disk) fallible" where
  "computation_run ext ops env storage scheme signing_key challenge_file response_file signature_file seed = as_anyhow
     (case response_file of
        ContributionFile response \<Rightarrow>
          (case result_bind (disk_reader (sizes ext) storage challenge_file) (\<lambda>challenge.
                  result_bind (disk_writer (sizes ext) storage response_file) (\<lambda>_. Inr challenge)) of
             Inl e \<Rightarrow> (Inl e, storage)
           | Inr challenge \<Rightarrow>
               (case write_through ext storage response_file
                       (computation_contribute ext ops env (curve (parameters env))
                          (chunk_parameters ext env (cl_chunk_id response)) seed challenge) of
                  (Inl _, storage) \<Rightarrow> (Inl ComputationFailed, storage)
                | (Inr _, storage) \<Rightarrow>
                    (case disk_reader (sizes ext) storage response_file of
                       Inl e \<Rightarrow> (Inl e, storage)
                     | Inr _ \<Rightarrow> write_contribution_file_signature ext storage scheme signing_key
                                 challenge_file response_file None signature_file)))
      | _ \<Rightarrow> (Inl ContributionLocatorIncorrect, storage))"

section \<open>Verification\<close>

definition transform_pok_and_correctness ::
  "Externals \<Rightarrow> Phase1Ops \<Rightarrow> Environment \<Rightarrow> CurveKind \<Rightarrow> Phase1Parameters \<Rightarrow> bytes \<Rightarrow> bytes \<Rightarrow> CoordinatorError + bytes" where
  "transform_pok_and_correctness ext ops env kind ps challenge response =
     (let challenge_hash = calculate_hash (crypto ext) challenge in
      if length response < 64 then Inl StorageReaderFailed
      else if challenge_hash \<noteq> take 64 response then Inl ContributionHashMismatch
      else
        (case p1_read_public_key ops kind response (compressed_outputs env) ps of
           None \<Rightarrow> Inl Phase1Setup
         | Some public_key \<Rightarrow>
             if p1_verification ops kind challenge response public_key challenge_hash (compressed_inputs env)
                  (compressed_outputs env) CheckNo CheckFull ps
             then Inr (calculate_hash (crypto ext) response) else Inl Phase1Setup))"

definition decompress_command ::
  "Phase1Ops \<Rightarrow> CurveKind \<Rightarrow> Phase1Parameters \<Rightarrow> bytes \<Rightarrow> bytes \<Rightarrow> bytes \<Rightarrow> (unit, bytes) fallible" where
  "decompress_command ops kind ps response response_hash writer =
     and_then (write_all response_hash writer)
       (\<lambda>_ writer. setup_result (p1_decompress ops kind response writer CheckNo ps))"

definition verification_command ::
  "Externals \<Rightarrow> Phase1Ops \<Rightarrow> Environment \<Rightarrow> Disk \<Rightarrow> u64 \<Rightarrow> Locator \<Rightarrow> Locator \<Rightarrow> Locator \<Rightarrow> (unit, Disk) fallible" where
  "verification_command ext ops env storage c challenge_file response_file next_challenge_file =
     (if \<not> disk_exists storage challenge_file \<or> \<not> disk_exists storage response_file
      then (Inl ContributionLocatorMissing, storage)
      else
        (let kind = curve (parameters env); ps = chunk_parameters ext env c in
         case result_bind (disk_reader (sizes ext) storage challenge_file) (\<lambda>challenge.
                result_bind (disk_reader (sizes ext) storage response_file) (\<lambda>response. Inr (challenge, response))) of
           Inl e \<Rightarrow> (Inl e, storage)
         | Inr (challenge, response) \<Rightarrow>
             (case transform_pok_and_correctness ext ops env kind ps challenge response of
                Inl _ \<Rightarrow> (Inl VerificationFailed, storage)
              | Inr response_hash \<Rightarrow>
                  and_then
                    (if compressed_outputs env = compressed_inputs env
                     then disk_copy ext storage response_file next_challenge_file
                     else
                       and_then
                         (if \<not> disk_exists storage next_challenge_file
                          then disk_initialize storage next_challenge_file
                                 (contribution_file_size (sizes ext) env c True)
                          else (Inr (), storage))
                         (\<lambda>_ storage. write_through ext storage next_challenge_file
                            (decompress_command ops kind ps response response_hash)))
                    (\<lambda>_ storage.
                       case disk_reader (sizes ext) storage next_challenge_file of
                         Inl e \<Rightarrow> (Inl e, storage)
                       | Inr next_challenge \<Rightarrow>
                           if response_hash \<noteq> take 64 next_challenge then (Inl ContributionHashMismatch, storage)
                           else (Inr (), storage)))))"

definition verification_run ::
  "Externals \<Rightarrow> Phase1Ops \<Rightarrow> Environment \<Rightarrow> Disk \<Rightarrow> Signature \<Rightarrow> string \<Rightarrow> u64 \<Rightarrow> u64 \<Rightarrow> u64 \<Rightarrow> bool \<Rightarrow>
   (unit, Disk) fallible" where
  "verification_run ext ops env storage scheme signing_key h c i is_final_contribution =
     (if (h = 0 \<or> h = 1) \<and> i = 0 then (Inl VerificationOnContributionIdZero, storage)
      else if number_of_chunks env < c then (Inl ChunkIdInvalid, storage)
      else
        (let challenge_file = ContributionFile (contribution_locator h c (usize_sub i 1) True);
             response_file = ContributionFile (contribution_locator h c i False);
             next_challenge_file = ContributionFile
               (if is_final_contribution then contribution_locator (h + 1) c 0 True
                else contribution_locator h c i True);
             signature_file = ContributionFileSignatureFile
               (if is_final_contribution then signature_locator (h + 1) c 0 True
                else signature_locator h c i True)
         in and_then (verification_command ext ops env storage c challenge_file response_file next_challenge_file)
              (\<lambda>_ storage.
            and_then
              (if \<not> disk_exists storage signature_file
               then disk_initialize storage signature_file (contribution_file_signature_size True)
               else (Inr (), storage))
              (\<lambda>_ storage.
            write_contribution_file_signature ext storage scheme signing_key challenge_file response_file
              (Some next_challenge_file) signature_file))))"

section \<open>Aggregation\<close>

definition aggregation_readers ::
  "Externals \<Rightarrow> Environment \<Rightarrow> Disk \<Rightarrow> Round \<Rightarrow> CoordinatorError + bytes list" where
  "aggregation_readers ext env storage r =
     (let h = r_height r; expected_id = expected_number_of_contributions r - 1 in
      collect_results (\<lambda>c.
        result_bind (round_chunk r c) (\<lambda>chunk.
          let i = current_contribution_id chunk in
          if expected_id \<noteq> i then Inl NumberOfContributionsDiffer
          else if \<not> disk_exists storage (ContributionFile (contribution_locator (h + 1) c 0 True))
          then Inl ContributionMissingVerifiedLocator
          else disk_reader (sizes ext) storage (ContributionFile (contribution_locator h c i False))))
        [0..<number_of_chunks env])"

definition aggregation_run ::
  "Externals \<Rightarrow> Phase1Ops \<Rightarrow> Environment \<Rightarrow> Disk \<Rightarrow> Round \<Rightarrow> (unit, Disk) fallible" where
  "aggregation_run ext ops env storage r = as_anyhow
     (let round_file = RoundFile (r_height r); settings = parameters env; kind = curve settings in
      if disk_exists storage round_file then (Inl RoundLocatorAlreadyExists, storage)
      else
        and_then (disk_initialize storage round_file (round_file_size (sizes ext) env)) (\<lambda>_ storage.
          case aggregation_readers ext env storage r of
            Inl e \<Rightarrow> (Inl e, storage)
          | Inr readers \<Rightarrow>
              (case disk_writer (sizes ext) storage round_file of
                 Inl e \<Rightarrow> (Inl e, storage)
               | Inr _ \<Rightarrow>
                   (case write_through ext storage round_file (\<lambda>buffer.
                           setup_result (p1_aggregation ops kind
                             (map (\<lambda>content. (content, compressed_outputs env)) readers) buffer
                             (compressed_inputs env) (chunk_parameters ext env 0))) of
                      (Inl _, storage) \<Rightarrow> (Inl RoundAggregationFailed, storage)
                    | (Inr _, storage) \<Rightarrow>
                        (case disk_reader (sizes ext) storage round_file of
                           Inl e \<Rightarrow> (Inl e, storage)
                         | Inr content \<Rightarrow>
                             if p1_aggregate_verification ops kind content No CheckFull
                                  (phase1_full_parameters (sizes ext kind) settings)
                             then (Inr (), storage) else (Inl Phase1Setup, storage))))))"

end
