(* ===== verification/Coordinator_Advance.thy ===== *)
theory Coordinator_Advance
  imports Coordinator_Contributions Commands
begin

text \<open>
  \<^verbatim>\<open>phase1-coordinator/src/coordinator.rs\<close>, second part: the ceremony as a whole. The coordinator
  initializes round 0, aggregates a finished round, advances to the next one, drops participants
  from the round on disk and resets rounds. \<^verbatim>\<open>self.time\<close> is the argument \<open>now\<close>; the callback after
  an aggregation has no access to the coordinator and is left out.
\<close>

section \<open>Start\<close>

definition coordinator_new ::
  "Externals \<Rightarrow> (string, bytes) hashmap \<Rightarrow> string hashset \<Rightarrow> Environment \<Rightarrow> Signature \<Rightarrow>
   CoordinatorError + Coordinator" where
  "coordinator_new ext files dirs env scheme =
     result_bind (case disk_load ext files dirs env of Inl _ \<Rightarrow> Inl Error | Inr d \<Rightarrow> Inr d) (\<lambda>storage.
     result_bind (disk_get ext storage CoordinatorStateFile) (\<lambda>obj.
       case obj of
         CoordinatorStateObject s \<Rightarrow>
           Inr \<lparr>co_environment = env, co_signature = scheme, co_storage = storage, co_state = s\<rparr>
       | _ \<Rightarrow> Inl StorageFailed))"

text \<open>The checks around the initialization of one chunk.\<close>

definition initialize_chunk ::
  "Externals \<Rightarrow> Phase1Ops \<Rightarrow> Environment \<Rightarrow> u64 \<Rightarrow> u64 \<Rightarrow> Disk \<Rightarrow> (unit, Disk) fallible" where
  "initialize_chunk ext ops env h c storage =
     (let this_file = ContributionFile (contribution_locator h c 0 True);
          next_file = ContributionFile (contribution_locator (h + 1) c 0 True)
      in if disk_exists storage this_file \<or> disk_exists storage next_file
         then (Inl ContributionLocatorAlreadyExists, storage)
         else
           and_then (initialization_run ext ops env storage h c) (\<lambda>_ storage.
             if \<not> disk_exists storage this_file \<or> \<not> disk_exists storage next_file
             then (Inl ContributionLocatorMissing, storage)
             else (Inr (), storage)))"

definition run_initialization ::
  "Externals \<Rightarrow> Phase1Ops \<Rightarrow> Coordinator \<Rightarrow> OffsetDateTime \<Rightarrow> OffsetDateTime \<Rightarrow> u64 handler" where
  "run_initialization ext ops self started now =
     (let storage = co_storage self; env = co_environment self in
      if is_ok (load_current_round_height ext storage) then (Inl RoundAlreadyInitialized, self)
      else if disk_exists storage (RoundState 0) \<or> disk_exists storage (RoundState 1)
      then (Inl RoundShouldNotExist, self)
      else
        (case round_new env storage 0 started [] of
           Inl e \<Rightarrow> (Inl e, self)
         | Inr r \<Rightarrow>
             on_storage self (\<lambda>storage.
               and_then (for_each (initialize_chunk ext ops env 0) [0..<number_of_chunks env] storage) (\<lambda>_ storage.
               and_then (disk_insert ext storage (RoundState 0) (RoundStateObject (try_finish r now))) (\<lambda>_ storage.
               and_then (disk_insert ext storage RoundHeightFile (RoundHeightObject 0)) (\<lambda>_ storage.
                 (Inr 0, storage)))))))"

definition coordinator_initialize ::
  "Externals \<Rightarrow> Phase1Ops \<Rightarrow> Coordinator \<Rightarrow> OffsetDateTime \<Rightarrow> unit handler" where
  "coordinator_initialize ext ops self now =
     (if deployment (co_environment self) = Production \<and> \<not> is_secure (co_signature self)
      then (Inl SignatureSchemeIsInsecure, self)
      else
        and_then
          (if \<not> is_ok (load_current_round_height ext (co_storage self))
           then and_then (run_initialization ext ops self now now) (\<lambda>h self.
                  and_save ext (on_state self (\<lambda>s. (Inr (), initialize s h))))
           else (Inr (), self))
          (\<lambda>_ self.
             case result_bind (coordinator_current_round_height ext self) (\<lambda>_.
                    load_current_round ext (co_storage self)) of
               Inl e \<Rightarrow> (Inl e, self)
             | Inr _ \<Rightarrow> (Inr (), self)))"

section \<open>Aggregation\<close>

definition check_final_contributions :: "Disk \<Rightarrow> u64 \<Rightarrow> u64 \<Rightarrow> u64 \<Rightarrow> CoordinatorError + unit" where
  "check_final_contributions storage h i c =
     (if \<not> disk_exists storage (ContributionFile (contribution_locator h c i False)) then Inl ContributionMissing
      else if \<not> disk_exists storage (ContributionFile (contribution_locator (h + 1) c 0 True))
      then Inl ContributionMissing
      else Inr ())"

definition aggregate_contributions :: "Externals \<Rightarrow> Phase1Ops \<Rightarrow> Coordinator \<Rightarrow> unit handler" where
  "aggregate_contributions ext ops self =
     (case load_current_round_height ext (co_storage self) of
        Inl e \<Rightarrow> (Inl e, self)
      | Inr h \<Rightarrow>
          if h = 0 then (Inl RoundDoesNotExist, self)
          else if \<not> disk_exists (co_storage self) (RoundState h) then (Inl RoundStateMissing, self)
          else if disk_exists (co_storage self) (RoundState (h + 1)) then (Inl RoundShouldNotExist, self)
          else
            and_then (on_storage self (\<lambda>d. remove_if_exists d (RoundFile h))) (\<lambda>_ self.
              case load_current_round ext (co_storage self) of
                Inl e \<Rightarrow> (Inl e, self)
              | Inr r \<Rightarrow>
                  (case collect_results
                          (check_final_contributions (co_storage self) h (expected_number_of_contributions r - 1))
                          [0..<number_of_chunks (co_environment self)] of
                     Inl e \<Rightarrow> (Inl e, self)
                   | Inr _ \<Rightarrow>
                       if \<not> round_is_complete r then (Inl RoundNotComplete, self)
                       else
                         and_then (on_storage self (\<lambda>d. aggregation_run ext ops (co_environment self) d r))
                           (\<lambda>_ self.
                              if \<not> disk_exists (co_storage self) (RoundFile h) then (Inl RoundFileMissing, self)
                              else (Inr (), self)))))"

definition try_aggregate :: "Externals \<Rightarrow> Phase1Ops \<Rightarrow> Coordinator \<Rightarrow> OffsetDateTime \<Rightarrow> unit handler" where
  "try_aggregate ext ops self now =
     (case load_current_round_height ext (co_storage self) of
        Inl e \<Rightarrow> (Inl e, self)
      | Inr height_in_storage \<Rightarrow>
          (let h = round_height_or_zero (co_state self) in
           if height_in_storage \<noteq> h then (Inl RoundHeightMismatch, self)
           else if \<not> is_current_round_finished (co_state self) then (Inl RoundNotReady, self)
           else if is_current_round_aggregated (co_state self) then (Inl RoundAlreadyAggregated, self)
           else
             and_then (on_state self (\<lambda>s. aggregating_current_round s now)) (\<lambda>_ self.
               if h = 0 then on_state self (\<lambda>s. aggregated_current_round s now)
               else
                 (case aggregate_contributions ext ops self of
                    (Inr _, self) \<Rightarrow>
                      and_then (on_state self (\<lambda>s. aggregated_current_round s now)) (\<lambda>_ self.
                        if \<not> is_current_round_aggregated (co_state self) then (Inl RoundAggregationFailed, self)
                        else (Inr (), self))
                  | (Inl e, self) \<Rightarrow>
                      and_then (on_state self rollback_aggregating_current_round)
                        (\<lambda>_ self. (Inl e, self))))))"

section \<open>The next round\<close>

definition check_next_challenge_file :: "Disk \<Rightarrow> u64 \<Rightarrow> u64 \<Rightarrow> CoordinatorError + unit" where
  "check_next_challenge_file storage h c =
     (if \<not> disk_exists storage (ContributionFile (contribution_locator h c 0 True))
      then Inl ContributionLocatorMissing else Inr ())"

definition next_round :: "Externals \<Rightarrow> Coordinator \<Rightarrow> OffsetDateTime \<Rightarrow> Participant list \<Rightarrow> u64 handler" where
  "next_round ext self started contributors =
     (if contributors = [] then (Inl ContributorsMissing, self)
      else
        (case load_current_round_height ext (co_storage self) of
           Inl e \<Rightarrow> (Inl e, self)
         | Inr h \<Rightarrow>
             if h \<noteq> 0 \<and> \<not> disk_exists (co_storage self) (RoundFile h) then (Inl RoundFileMissing, self)
             else
               (let new_height = h + 1 in
                if disk_exists (co_storage self) (RoundState new_height) then (Inl RoundAlreadyInitialized, self)
                else
                  (case result_bind
                          (collect_results (check_next_challenge_file (co_storage self) new_height)
                             [0..<number_of_chunks (co_environment self)]) (\<lambda>_.
                        round_new (co_environment self) (co_storage self) new_height started contributors) of
                     Inl e \<Rightarrow> (Inl e, self)
                   | Inr new_round \<Rightarrow>
                       on_storage self (\<lambda>d.
                         and_then (disk_insert ext d (RoundState new_height) (RoundStateObject new_round)) (\<lambda>_ d.
                         and_then (disk_update ext d RoundHeightFile (RoundHeightObject new_height)) (\<lambda>_ d.
                           (Inr new_height, d))))))))"

definition try_advance :: "Externals \<Rightarrow> Coordinator \<Rightarrow> OffsetDateTime \<Rightarrow> OffsetDateTime \<Rightarrow> u64 handler" where
  "try_advance ext self started now =
     (case load_current_round_height ext (co_storage self) of
        Inl e \<Rightarrow> (Inl e, self)
      | Inr height_in_storage \<Rightarrow>
          (let h = round_height_or_zero (co_state self) in
           if height_in_storage \<noteq> h then (Inl RoundHeightMismatch, self)
           else if \<not> is_current_round_finished (co_state self) then (Inl CurrentRoundNotFinished, self)
           else if 0 < h \<and> \<not> is_current_round_aggregated (co_state self)
           then (Inl CurrentRoundNotAggregated, self)
           else
             (let roll_back = (\<lambda>self. self\<lparr>co_state := rollback_next_round (co_state self) now\<rparr>);
                  (result, self) =
                    (case on_state self (\<lambda>s. precommit_next_round s (h + 1) now) of
                       (Inr contributors, self) \<Rightarrow>
                         (case next_round ext self started contributors of
                            (Inr next_height, self) \<Rightarrow>
                              (Inr next_height, self\<lparr>co_state := commit_next_round (co_state self)\<rparr>)
                          | (Inl e, self) \<Rightarrow> (Inl e, roll_back self))
                     | (Inl e, self) \<Rightarrow> (Inl e, roll_back self))
              in and_then (save_state ext self) (\<lambda>_ self. (result, self)))))"

section \<open>Drops and resets\<close>

definition reset_round_storage ::
  "Externals \<Rightarrow> Coordinator \<Rightarrow> ResetCurrentRoundStorageAction \<Rightarrow> unit handler" where
  "reset_round_storage ext self reset_action =
     (case result_bind (load_current_round_height ext (co_storage self)) (\<lambda>h.
             result_bind (load_round ext (co_storage self) h) (\<lambda>r. Inr (h, r))) of
        Inl e \<Rightarrow> (Inl e, self)
      | Inr (h, r) \<Rightarrow>
          on_storage self (\<lambda>d.
            and_then (disk_process ext d (Update (RoundState (r_height r))
                (RoundStateObject (round_reset r (remove_participants reset_action))))) (\<lambda>_ d.
            and_then (disk_process ext d (ClearRoundFiles h)) (\<lambda>_ d.
              if rollback reset_action
              then
                (if h = 0 then (Inl RoundHeightIsZero, d)
                 else
                   and_then (disk_remove d (RoundState h)) (\<lambda>_ d.
                     disk_update ext d RoundHeightFile (RoundHeightObject (h - 1))))
              else (Inr (), d)))))"

definition reset_round :: "Externals \<Rightarrow> Coordinator \<Rightarrow> OffsetDateTime \<Rightarrow> unit handler" where
  "reset_round ext self now =
     and_then (on_state self (\<lambda>s. reset_current_round s True now)) (\<lambda>reset_action self.
     and_then (save_state ext self) (\<lambda>_ self. reset_round_storage ext self reset_action))"

definition drop_participant_from_storage ::
  "Externals \<Rightarrow> DropParticipant \<Rightarrow> Coordinator \<Rightarrow> unit handler" where
  "drop_participant_from_storage ext drop_info self =
     (case drop_info of
        DropQueue _ \<Rightarrow> (Inr (), self)
      | DropCurrent _ action \<Rightarrow>
          (case action of
             ResetCurrentRound reset_action \<Rightarrow> reset_round_storage ext self reset_action
           | ReplaceContributor replace_action \<Rightarrow>
               (case load_current_round ext (co_storage self) of
                  Inl e \<Rightarrow> (Inl e, self)
                | Inr r \<Rightarrow>
                    (case remove_contributor_unsafe (dropped_contributor replace_action)
                            (action_locked_chunks replace_action) (action_tasks replace_action)
                            (r, co_storage self) of
                       (Inl e, _, d) \<Rightarrow> (Inl e, self\<lparr>co_storage := d\<rparr>)
                     | (Inr _, r, d) \<Rightarrow>
                         (case round_add_replacement_contributor_unsafe r
                                 (replacement_contributor replace_action) of
                            (Inl e, _) \<Rightarrow> (Inl e, self\<lparr>co_storage := d\<rparr>)
                          | (Inr _, r) \<Rightarrow>
                              on_storage (self\<lparr>co_storage := d\<rparr>) (\<lambda>d.
                                disk_update ext d (RoundState (r_height r)) (RoundStateObject r)))))))"

definition coordinator_drop_participant ::
  "Externals \<Rightarrow> Coordinator \<Rightarrow> Participant \<Rightarrow> OffsetDateTime \<Rightarrow> unit handler" where
  "coordinator_drop_participant ext self participant now =
     and_save ext
       (and_then (on_state self (\<lambda>s. drop_participant s participant now)) (\<lambda>drop_info self.
          drop_participant_from_storage ext drop_info self))"

definition coordinator_ban_participant ::
  "Externals \<Rightarrow> Coordinator \<Rightarrow> Participant \<Rightarrow> OffsetDateTime \<Rightarrow> unit handler" where
  "coordinator_ban_participant ext self participant now =
     and_save ext
       (and_then (on_state self (\<lambda>s. ban_participant s participant now)) (\<lambda>drop_info self.
          drop_participant_from_storage ext drop_info self))"

definition coordinator_rollback_locked_task ::
  "Externals \<Rightarrow> Coordinator \<Rightarrow> Participant \<Rightarrow> Task \<Rightarrow> OffsetDateTime \<Rightarrow> unit handler" where
  "coordinator_rollback_locked_task ext self participant task now =
     and_then (and_save ext (on_state self (\<lambda>s. rollback_locked_task s participant task now))) (\<lambda>_ self.
       case load_current_round ext (co_storage self) of
         Inl e \<Rightarrow> (Inl e, self)
       | Inr r \<Rightarrow>
           (case remove_locks_unsafe participant [chunk_id task] (r, co_storage self) of
              (Inl e, _, d) \<Rightarrow> (Inl e, self\<lparr>co_storage := d\<rparr>)
            | (Inr _, r, d) \<Rightarrow>
                (let self = self\<lparr>co_storage := d\<rparr> in
                 case coordinator_current_round_height ext self of
                   Inl e \<Rightarrow> (Inl e, self)
                 | Inr h \<Rightarrow>
                     on_storage self (\<lambda>d. disk_process ext d (Update (RoundState h) (RoundStateObject r))))))"

section \<open>The update loop\<close>

text \<open>The first block: the state is brought up to date, and saved after every step.\<close>

definition update_participants :: "Externals \<Rightarrow> Coordinator \<Rightarrow> OffsetDateTime \<Rightarrow> unit handler" where
  "update_participants ext self now =
     and_then (and_save ext (on_state self (\<lambda>s. (Inr (), update_round_metrics s)))) (\<lambda>_ self.
     and_then (and_save ext (on_state self update_queue)) (\<lambda>_ self.
     and_then (and_save ext (on_state self (\<lambda>s. update_current_contributors s now))) (\<lambda>_ self.
     and_then (and_save ext
         (and_then (on_state self (\<lambda>s. update_dropped_participants s now)) (\<lambda>drops self.
            for_each (drop_participant_from_storage ext) drops self))) (\<lambda>_ self.
     and_then (and_save ext (on_state self (\<lambda>s. update_dropped_queued_participants s now))) (\<lambda>_ self.
       and_save ext (on_state self update_banned_participants))))))"

definition coordinator_update :: "Externals \<Rightarrow> Phase1Ops \<Rightarrow> Coordinator \<Rightarrow> OffsetDateTime \<Rightarrow> unit handler" where
  "coordinator_update ext ops self now =
     and_then (update_participants ext self now) (\<lambda>_ self.
       let finished = is_current_round_finished (co_state self);
           aggregated = is_current_round_aggregated (co_state self)
       in and_then
            (if finished \<and> \<not> aggregated
             then and_then (try_aggregate ext ops self now) (\<lambda>_ self.
                    and_save ext (on_state self (\<lambda>s. (Inr (), update_round_metrics s))))
             else (Inr (), self))
            (\<lambda>_ self.
               let aggregated = is_current_round_aggregated (co_state self);
                   ready = is_precommit_next_round_ready (co_state self) now
               in if is_manual_lock_enabled (co_state self) then (Inr (), self)
                  else if finished \<and> aggregated \<and> ready
                  then and_then (try_advance ext self now now) (\<lambda>_ self. (Inr (), self))
                  else (Inr (), self)))"

section \<open>Contributions made by the coordinator\<close>

definition run_computation ::
  "Externals \<Rightarrow> Phase1Ops \<Rightarrow> Coordinator \<Rightarrow> u64 \<Rightarrow> u64 \<Rightarrow> u64 \<Rightarrow> Participant \<Rightarrow> string \<Rightarrow> bytes \<Rightarrow> unit handler" where
  "run_computation ext ops self h c i participant signing_key seed =
     (if number_of_chunks (co_environment self) < c then (Inl ChunkIdInvalid, self)
      else if i = 0 then (Inl ContributionIdMustBeNonzero, self)
      else if \<not> is_contributor participant then (Inl ExpectedContributor, self)
      else
        (case load_round ext (co_storage self) h of
           Inl e \<Rightarrow> (Inl e, self)
         | Inr r \<Rightarrow>
             if \<not> is_chunk_locked_by r c participant then (Inl ChunkNotLockedOrByWrongParticipant, self)
             else
               (case round_chunk r c of
                  Inl e \<Rightarrow> (Inl e, self)
                | Inr chunk \<Rightarrow>
                    if is_ok (get_contribution chunk i) then (Inl ContributionShouldNotExist, self)
                    else
                      on_storage self (\<lambda>d.
                        computation_run ext ops (co_environment self) d (co_signature self) signing_key
                          (ContributionFile (contribution_locator h c (i - 1) True))
                          (ContributionFile (contribution_locator h c i False))
                          (ContributionFileSignatureFile (signature_locator h c i False)) seed))))"

definition run_verification ::
  "Externals \<Rightarrow> Phase1Ops \<Rightarrow> Coordinator \<Rightarrow> u64 \<Rightarrow> Task \<Rightarrow> Participant \<Rightarrow> string \<Rightarrow> LocatorPath handler" where
  "run_verification ext ops self h task participant signing_key =
     (let c = chunk_id task; i = contribution_id task in
      if number_of_chunks (co_environment self) < c then (Inl ChunkIdInvalid, self)
      else if i = 0 then (Inl ContributionIdMustBeNonzero, self)
      else if \<not> is_verifier participant then (Inl ExpectedContributor, self)
      else
        (case load_round ext (co_storage self) h of
           Inl e \<Rightarrow> (Inl e, self)
         | Inr r \<Rightarrow>
             if \<not> disk_exists (co_storage self) (ContributionFile (contribution_locator h c i False))
             then (Inl ContributionLocatorMissing, self)
             else
               (case result_bind (round_chunk r c) (\<lambda>chunk.
                       result_bind (get_contribution chunk i) (\<lambda>contribution.
                         if is_verified contribution then Inl ContributionAlreadyVerified
                         else Inr (only_contributions_complete chunk (expected_number_of_contributions r)))) of
                  Inl e \<Rightarrow> (Inl e, self)
                | Inr is_final_contribution \<Rightarrow>
                    (let verified_file = ContributionFile
                           (if is_final_contribution then contribution_locator (h + 1) c 0 True
                            else contribution_locator h c i True)
                     in and_then (on_storage self (\<lambda>d.
                          verification_run ext ops (co_environment self) d (co_signature self) signing_key
                            h c i is_final_contribution)) (\<lambda>_ self.
                          if \<not> disk_exists (co_storage self) verified_file
                          then (Inl ContributionLocatorMissing, self)
                          else (Inr (disk_path (co_storage self) verified_file), self))))))"

text \<open>
  After a lock was acquired the contributor has an entry, which the code unwraps.
\<close>

definition contribute ::
  "Externals \<Rightarrow> Phase1Ops \<Rightarrow> Coordinator \<Rightarrow> Participant \<Rightarrow> string \<Rightarrow> bytes \<Rightarrow> OffsetDateTime \<Rightarrow> unit handler" where
  "contribute ext ops self contributor signing_key seed now =
     and_then (try_lock ext self contributor now) (\<lambda>(_, locked) self.
       let response = locked_next locked;
           h = cl_round_height response; c = cl_chunk_id response; i = cl_contribution_id response;
           pending = (case current_participant_info (co_state self) contributor of
             None \<Rightarrow> [] | Some info \<Rightarrow> pending_tasks info)
       in if pending = [] then (Inl (ContributorPendingTasksCannotBeEmpty contributor), self)
          else if new_task c i \<notin> set pending
          then (Inl (PendingTasksMustContainResponseTask (new_task c i)), self)
          else
            and_then (run_computation ext ops self h c i contributor signing_key seed) (\<lambda>_ self.
            and_then (try_contribute ext self contributor c now) (\<lambda>_ self. (Inr (), self))))"

definition verify_task ::
  "Externals \<Rightarrow> Phase1Ops \<Rightarrow> Coordinator \<Rightarrow> Participant \<Rightarrow> string \<Rightarrow> Task \<Rightarrow> OffsetDateTime \<Rightarrow> unit handler" where
  "verify_task ext ops self verifier signing_key task now = as_anyhow
     (case coordinator_current_round_height ext self of
        Inl e \<Rightarrow> (Inl e, self)
      | Inr h \<Rightarrow>
          and_then (run_verification ext ops self h task verifier signing_key) (\<lambda>_ self.
            try_verify ext self verifier task now))"

section \<open>The next round\<close>

lemma collect_results_all: "collect_results f xs = Inr ys \<Longrightarrow> x \<in> set xs \<Longrightarrow> is_ok (f x)"
  by (auto simp: collect_results_ok_iff list_all2_conv_all_nth in_set_conv_nth is_ok_iff)

lemma disk_insert_error:
  assumes "disk_insert ext d l obj = (Inl e, d')"
  shows "d' = d"
proof (cases "disk_exists d l")
  case True
  with assms show ?thesis by (simp add: disk_insert_def)
next
  case False
  obtain r1 d1 where d1: "disk_initialize d l (object_size ext obj) = (r1, d1)" by fastforce
  show ?thesis
  proof (cases r1)
    case (Inl e1)
    with assms False d1 disk_initialize_touches(3) [OF d1] show ?thesis by (simp add: disk_insert_def)
  next
    case (Inr u)
    with disk_initialize_touches(2) [OF d1] have "disk_exists d1 l" by (simp add: disk_exists_def)
    with assms False d1 Inr show ?thesis by (simp add: disk_insert_def disk_update_def)
  qed
qed

lemma check_next_challenge_file_ok:
  "is_ok (check_next_challenge_file d h c) \<longleftrightarrow> disk_exists d (ContributionFile (contribution_locator h c 0 True))"
  by (simp add: check_next_challenge_file_def)

lemma next_round_cases:
  obtains (error) e where "next_round ext self started ids = (Inl e, self)"
    | (ok) h r d' where "load_current_round_height ext (co_storage self) = Inr h"
      "h = 0 \<or> disk_exists (co_storage self) (RoundFile h)" "\<not> disk_exists (co_storage self) (RoundState (h + 1))"
      "\<forall>c<number_of_chunks (co_environment self).
         disk_exists (co_storage self) (ContributionFile (contribution_locator (h + 1) c 0 True))"
      "round_new (co_environment self) (co_storage self) (h + 1) started ids = Inr r"
      "next_round ext self started ids = (Inr (h + 1), self\<lparr>co_storage := d'\<rparr>)"
      "touches {RoundState (h + 1), RoundHeightFile} (co_storage self) d'"
      "file_at d' (RoundState (h + 1)) = Some (round_to_json ext r)"
      "file_at d' RoundHeightFile = Some (height_to_json ext (h + 1))"
proof (cases "\<exists>e. next_round ext self started ids = (Inl e, self)")
  case True
  with error show ?thesis by blast
next
  case False
  let ?d = "co_storage self"
  from False obtain h ys r where h: "load_current_round_height ext ?d = Inr h" "ids \<noteq> []"
    "h = 0 \<or> disk_exists ?d (RoundFile h)" "\<not> disk_exists ?d (RoundState (h + 1))"
    and ys: "collect_results (check_next_challenge_file ?d (h + 1)) [0..<number_of_chunks (co_environment self)] = Inr ys"
    and r: "round_new (co_environment self) ?d (h + 1) started ids = Inr r"
    by (auto simp: next_round_def Let_def result_bind_def split: sum.splits if_splits)
  have files: "\<forall>c<number_of_chunks (co_environment self).
      disk_exists ?d (ContributionFile (contribution_locator (h + 1) c 0 True))"
    using collect_results_all [OF ys] by (simp add: check_next_challenge_file_ok)
  obtain r1 d1 where ins: "disk_insert ext ?d (RoundState (h + 1)) (RoundStateObject r) = (r1, d1)" by fastforce
  have run: "next_round ext self started ids = on_storage self (\<lambda>d.
      and_then (disk_insert ext d (RoundState (h + 1)) (RoundStateObject r)) (\<lambda>_ d.
      and_then (disk_update ext d RoundHeightFile (RoundHeightObject (h + 1))) (\<lambda>_ d. (Inr (h + 1), d))))"
    using h ys r by (auto simp: next_round_def Let_def)
  show ?thesis
  proof (cases r1)
    case (Inl e)
    with run ins disk_insert_error [of ext ?d _ _ e d1] False show ?thesis
      by (simp add: on_storage_def)
  next
    case (Inr u)
    then have ins': "disk_insert ext ?d (RoundState (h + 1)) (RoundStateObject r) = (Inr (), d1)" using ins by simp
    note i = disk_insert_ok [OF ins']
    have "disk_exists d1 RoundHeightFile"
      using h(1) touches_file [OF i(3), of RoundHeightFile] by (auto simp: load_height_ok_iff disk_exists_def)
    then have "next_round ext self started ids = (Inr (h + 1),
        self\<lparr>co_storage := put_file RoundHeightFile (height_to_json ext (h + 1)) d1\<rparr>)"
      using run ins' by (simp add: on_storage_def disk_update_def)
    moreover have "touches {RoundState (h + 1), RoundHeightFile} ?d (put_file RoundHeightFile (height_to_json ext (h + 1)) d1)"
      using touches_mono [OF i(3)] touches_mono [OF touches_put] by (rule touches_trans) auto
    ultimately show ?thesis
      using h files r i(2) by (intro ok [of h r "put_file RoundHeightFile (height_to_json ext (h + 1)) d1"])
        (simp_all add: disk.get_ins)
  qed
qed

lemma committed_keys:
  assumes "hm_wf (queue s)" "precommit_next_round s nh now = (Inr ids, s')"
  shows "map fst (current_contributors (commit_next_round s')) = ids"
proof -
  note eff = precommit_effect [OF assms]
  have "map fst (next_participants s') = ids"
    by (rule nth_equalityI) (simp_all add: eff(1,2) nth_enumerate_eq fst_staged)
  with committed_state(4) [OF assms] show ?thesis by simp
qed

lemma rolled_back:
  assumes "precommit_next_round s nh now = (res, s')"
  shows "current_round_height (rollback_next_round s' later) = current_round_height s"
    "current_contributors (rollback_next_round s' later) = current_contributors s"
    "hm_wf (queue s) \<Longrightarrow> status s \<noteq> Precommit \<Longrightarrow> queue_claim (rollback_next_round s' later) = queue_claim s"
proof -
  show "queue_claim (rollback_next_round s' later) = queue_claim s" if "hm_wf (queue s)" "status s \<noteq> Precommit"
    using that assms precommit_atomic [of s nh now _ s'] precommit_rollback_facts(3) [of s nh now _ s' later]
    by (cases res) (auto simp: rollback_next_round_def)
  have "s' = s \<or> (\<exists>q nxt. s' = s\<lparr>queue := q, next_participants := nxt, status := Precommit\<rparr>)"
    using assms precommit_atomic [of s nh now _ s'] precommit_ok_iff [of s nh now _ s'] by (cases res) auto
  then show "current_round_height (rollback_next_round s' later) = current_round_height s"
    "current_contributors (rollback_next_round s' later) = current_contributors s"
    by (auto simp: rollback_next_round_def)
qed

text \<open>The new round on disk and in the state.\<close>

definition round_started ::
  "Externals \<Rightarrow> Coordinator \<Rightarrow> OffsetDateTime \<Rightarrow> OffsetDateTime \<Rightarrow> u64 \<Rightarrow> Coordinator \<Rightarrow> bool" where
  "round_started ext self started now new_height self' \<longleftrightarrow>
     (\<exists>h ids s r.
        load_current_round_height ext (co_storage self) = Inr h \<and> new_height = h + 1 \<and>
        is_current_round_finished (co_state self) \<and>
        (h = 0 \<or> is_current_round_aggregated (co_state self) \<and> disk_exists (co_storage self) (RoundFile h)) \<and>
        precommit_next_round (co_state self) new_height now = (Inr ids, s) \<and>
        co_state self' = commit_next_round s \<and> current_round_height (co_state self') = Some new_height \<and>
        map fst (current_contributors (co_state self')) = ids \<and>
        round_new (co_environment self) (co_storage self) new_height started ids = Inr r \<and> contributor_ids r = ids \<and>
        file_at (co_storage self') (RoundState new_height) = Some (round_to_json ext r) \<and>
        file_at (co_storage self') RoundHeightFile = Some (height_to_json ext new_height) \<and>
        file_at (co_storage self') CoordinatorStateFile = Some (state_to_json ext (co_state self')))"

definition round_not_started :: "Coordinator \<Rightarrow> Coordinator \<Rightarrow> bool" where
  "round_not_started self self' \<longleftrightarrow>
     touches {CoordinatorStateFile} (co_storage self) (co_storage self') \<and>
     current_round_height (co_state self') = current_round_height (co_state self) \<and>
     current_contributors (co_state self') = current_contributors (co_state self) \<and>
     queue_claim (co_state self') = queue_claim (co_state self)"

text \<open>
  C22. Advancing the ceremony is all or nothing. On success the round at the height
  \<open>h\<close> was finished and, above 0, aggregated with its round file on disk; the state is at height
  \<open>h + 1\<close> with the contributors that the precommit staged as its current contributors, in this
  order; and the disk holds the new round with the same contributors, the new height and the new
  state. On any error, also one of the storage after the precommit, the height, the current
  contributors and the claims of everybody in the queue are as before, and no file but the saved
  state has changed.
\<close>

theorem try_advance_starts_round:
  assumes saved: "disk_exists (co_storage self) CoordinatorStateFile" and q: "hm_wf (queue (co_state self))"
    and idle: "status (co_state self) \<noteq> Precommit"
  shows "case try_advance ext self started now of
      (Inl _, self') \<Rightarrow> round_not_started self self'
    | (Inr new_height, self') \<Rightarrow> round_started ext self started now new_height self'"
proof (cases "\<exists>e. try_advance ext self started now = (Inl e, self)")
  case True
  then show ?thesis by (auto simp: round_not_started_def)
next
  case False
  let ?h = "round_height_or_zero (co_state self)"
  from False have g: "load_current_round_height ext (co_storage self) = Inr ?h"
    "is_current_round_finished (co_state self)" "?h = 0 \<or> is_current_round_aggregated (co_state self)"
    by (auto simp: try_advance_def Let_def split: sum.splits if_splits)
  obtain res s where pre: "precommit_next_round (co_state self) (?h + 1) now = (res, s)" by fastforce
  note rb = rolled_back(1,2) [OF pre, of now] rolled_back(3) [OF pre q idle, of now]
  let ?self = "self\<lparr>co_state := s\<rparr>"
  have start: "try_advance ext self started now =
      (let (result, self) =
         (case res of
            Inr ids \<Rightarrow> (case next_round ext ?self started ids of
                 (Inr n, self) \<Rightarrow> (Inr n, self\<lparr>co_state := commit_next_round (co_state self)\<rparr>)
               | (Inl e, self) \<Rightarrow> (Inl e, self\<lparr>co_state := rollback_next_round (co_state self) now\<rparr>))
          | Inl e \<Rightarrow> (Inl e, self\<lparr>co_state := rollback_next_round s now\<rparr>))
       in and_then (save_state ext self) (\<lambda>_ self. (result, self)))"
    using g pre by (cases res) (auto simp: try_advance_def Let_def on_state_def)
  let ?undone = "self\<lparr>co_state := rollback_next_round s now\<rparr>"
  have undone: "case and_then (save_state ext ?undone) (\<lambda>_ self. (Inl e, self)) of
      (Inl _, self') \<Rightarrow> round_not_started self self'
    | (Inr new_height, self') \<Rightarrow> round_started ext self started now new_height self'" for e
    using rb touches_put saved by (simp add: save_state_ok round_not_started_def)
  show ?thesis
  proof (cases res)
    case (Inl e)
    with undone [of e] show ?thesis unfolding start by simp
  next
    case (Inr ids)
    show ?thesis
    proof (cases rule: next_round_cases [of ext ?self started ids])
      case (error e)
      with Inr undone [of e] show ?thesis unfolding start by simp
    next
      case (ok h r d')
      have h: "h = ?h" using ok(1) g(1) by simp
      let ?self' = "self\<lparr>co_state := commit_next_round s, co_storage := d'\<rparr>"
      have "disk_exists d' CoordinatorStateFile"
        using touches_file [OF ok(7), of CoordinatorStateFile] saved by (simp add: disk_exists_def)
      then have "try_advance ext self started now = (Inr (h + 1), ?self'\<lparr>co_storage :=
          put_file CoordinatorStateFile (state_to_json ext (commit_next_round s)) d'\<rparr>)"
        unfolding start using Inr ok(6) by (simp add: save_state_ok)
      moreover have "contributor_ids r = ids" by (rule round_new_ok [OF ok(5)]) simp
      moreover note committed_state(1) [OF q pre [unfolded Inr]] committed_keys [OF q pre [unfolded Inr]]
      ultimately show ?thesis
        using g ok pre Inr h by (auto simp: round_started_def disk.get_ins)
    qed
  qed
qed

text \<open>A coordinator at round 0 with the challenges of round 1 and two contributors in the queue.\<close>

definition sample_idle :: Coordinator where
  "sample_idle =
     (let challenge = (\<lambda>c. ContributionFile (contribution_locator 1 c 0 True)); d = empty_disk demo_environment in
      sample_coordinator\<lparr>co_environment := demo_environment, co_state := demo_ready,
       co_storage := put_file CoordinatorStateFile [3] (put_file RoundHeightFile [0]
         (foldr (\<lambda>c. put_file (challenge c) [c]) [0, 1, 2]
            (d\<lparr>disk_dirs := parent_directory (disk_base d) (RoundState 1) # disk_dirs d\<rparr>)))\<rparr>)"

theorem try_advance_starts_round_witness:
  "case try_advance (sample_externals (sample_round two_contributors)) sample_idle 40 40 of
     (Inl _, self') \<Rightarrow> False
   | (Inr new_height, self') \<Rightarrow> new_height = 1 \<and>
       round_started (sample_externals (sample_round two_contributors)) sample_idle 40 40 1 self'"
proof -
  let ?ext = "sample_externals (sample_round two_contributors)"
  have "disk_exists (co_storage sample_idle) CoordinatorStateFile"
    by (simp add: sample_idle_def Let_def disk_exists_def disk.get_ins)
  moreover have "hm_wf (queue (co_state sample_idle))"
    by (simp add: sample_idle_def Let_def demo_ready_facts)
  moreover have "status (co_state sample_idle) \<noteq> Precommit"
    by (simp add: sample_idle_def Let_def demo_ready_def demo_state_def initialize_def state_new_def)
  ultimately have "case try_advance ?ext sample_idle 40 40 of
      (Inl _, self') \<Rightarrow> round_not_started sample_idle self'
    | (Inr new_height, self') \<Rightarrow> round_started ?ext sample_idle 40 40 new_height self'"
    by (rule try_advance_starts_round)
  moreover have "case fst (try_advance ?ext sample_idle 40 40) of Inl _ \<Rightarrow> False | Inr h \<Rightarrow> h = 1"
    by code_simp
  ultimately show ?thesis by (auto split: prod.splits sum.splits)
qed

section \<open>What an aggregation establishes\<close>

lemma collect_results_cong: "(\<And>x. x \<in> set xs \<Longrightarrow> f x = g x) \<Longrightarrow> collect_results f xs = collect_results g xs"
  by (induction xs) (auto split: sum.splits)

lemma disk_reader_touches:
  assumes "touches L d d'" "l \<notin> L"
  shows "disk_reader z d' l = disk_reader z d l" "disk_exists d' l = disk_exists d l"
proof -
  from assms(1) have env: "disk_environment d' = disk_environment d" by (simp add: touches_def)
  show "disk_reader z d' l = disk_reader z d l"
    using touches_file [OF assms] env
    by (cases "file_at d l"; cases l) (simp_all add: disk_reader_def check_size_def)
  show "disk_exists d' l = disk_exists d l" using touches_file [OF assms] by (simp add: disk_exists_def)
qed

lemma aggregation_readers_touches:
  assumes "touches {RoundFile h} d d'"
  shows "aggregation_readers ext env d' r = aggregation_readers ext env d r"
  unfolding aggregation_readers_def Let_def
  by (rule collect_results_cong)
    (simp add: disk_reader_touches [OF assms] cong: if_cong)

definition aggregate_of ::
  "Externals \<Rightarrow> Phase1Ops \<Rightarrow> Environment \<Rightarrow> Disk \<Rightarrow> Round \<Rightarrow> bytes \<Rightarrow> bool" where
  "aggregate_of ext ops env d r content \<longleftrightarrow>
     (let kind = curve (parameters env) in
      \<exists>readers. aggregation_readers ext env d r = Inr readers \<and>
        p1_aggregation ops kind (map (\<lambda>b. (b, compressed_outputs env)) readers)
          (replicate (round_file_size (sizes ext) env) 0) (compressed_inputs env) (chunk_parameters ext env 0) =
          (True, content) \<and>
        p1_aggregate_verification ops kind content No CheckFull
          (phase1_full_parameters (sizes ext kind) (parameters env)))"

lemma write_through_ok:
  assumes "write_through ext d l f = (Inr a, d')"
  obtains buffer buffer' where "disk_writer (sizes ext) d l = Inr buffer" "f buffer = (Inr a, buffer')"
    "d' = put_file l buffer' d"
  using assms by (auto simp: write_through_def split: sum.splits prod.splits)

lemma disk_writer_ok: "disk_writer z d l = Inr content \<Longrightarrow> file_at d l = Some content"
  by (auto simp: disk_writer_def check_size_def split: option.splits if_splits Locator.splits)

lemma as_anyhow_ok_iff: "as_anyhow m = (Inr a, s) \<longleftrightarrow> m = (Inr a, s)"
  by (auto simp: as_anyhow_def split: prod.splits sum.splits)

text \<open>Success passes every early return.\<close>

lemma early_return_iffs:
  "(case x of Inl e \<Rightarrow> (Inl (g e), s) | Inr a \<Rightarrow> f a) = (Inr b, t) \<longleftrightarrow> (\<exists>a. x = Inr a \<and> f a = (Inr b, t))"
  "(case m of (Inl e, s) \<Rightarrow> (Inl (g e), s) | (Inr a, s) \<Rightarrow> h a s) = (Inr b, t) \<longleftrightarrow>
     (\<exists>a s. m = (Inr a, s) \<and> h a s = (Inr b, t))"
  "(if c then (Inl e, s) else m') = (Inr b, t) \<longleftrightarrow> \<not> c \<and> m' = (Inr b, t)"
  "(if c then m' else (Inl e, s)) = (Inr b, t) \<longleftrightarrow> c \<and> m' = (Inr b, t)"
  by (auto split: sum.splits prod.splits)

lemma aggregation_run_ok:
  assumes "aggregation_run ext ops env d r = (Inr (), d')"
  obtains content where "file_at d' (RoundFile (r_height r)) = Some content" "aggregate_of ext ops env d r content"
    "length content = round_file_size (sizes ext) (disk_environment d)" "touches {RoundFile (r_height r)} d d'"
proof -
  let ?f = "RoundFile (r_height r)" and ?kind = "curve (parameters env)"
  from assms obtain d1 readers content where
    init: "disk_initialize d ?f (round_file_size (sizes ext) env) = (Inr (), d1)"
    and readers: "aggregation_readers ext env d1 r = Inr readers"
    and w: "write_through ext d1 ?f (\<lambda>buffer. setup_result (p1_aggregation ops ?kind
        (map (\<lambda>b. (b, compressed_outputs env)) readers) buffer (compressed_inputs env) (chunk_parameters ext env 0))) =
        (Inr (), d')"
    and rd: "disk_reader (sizes ext) d' ?f = Inr content"
    and v: "p1_aggregate_verification ops ?kind content No CheckFull
        (phase1_full_parameters (sizes ext ?kind) (parameters env))"
    unfolding aggregation_run_def as_anyhow_ok_iff Let_def
    by (auto simp: and_then_ok_iff early_return_iffs)
  note t = disk_initialize_touches [OF init]
  from w obtain buffer buffer' where b: "disk_writer (sizes ext) d1 ?f = Inr buffer"
    "setup_result (p1_aggregation ops ?kind (map (\<lambda>b. (b, compressed_outputs env)) readers) buffer
      (compressed_inputs env) (chunk_parameters ext env 0)) = (Inr (), buffer')" "d' = put_file ?f buffer' d1"
    by (rule write_through_ok)
  have buffer: "buffer = replicate (round_file_size (sizes ext) env) 0"
    using disk_writer_ok [OF b(1)] t(2) by simp
  have c: "file_at d' ?f = Some content" "content = buffer'"
    using rd b(3) by (auto simp: disk_reader_ok_iff disk.get_ins)
  have env: "disk_environment d' = disk_environment d" using t(1) b(3) by (simp add: touches_def)
  have "length content = round_file_size (sizes ext) (disk_environment d)"
    using rd env by (auto simp: disk_reader_ok_iff check_size_def split: if_splits)
  moreover have "aggregate_of ext ops env d r content"
    unfolding aggregate_of_def Let_def
    using readers aggregation_readers_touches [OF t(1)] b(2) c(2) buffer v
    by (auto simp: setup_result_def prod_eq_iff split: if_splits)
  moreover have "touches {?f} d d'" unfolding b(3) using t(1) touches_put by (rule touches_trans)
  ultimately show ?thesis using c(1) that by blast
qed

lemma write_through_touches: "touches {l} d (snd (write_through ext d l f))"
  by (auto simp: write_through_def touches_put split: sum.splits prod.splits)

lemma snd_as_anyhow [simp]: "snd (as_anyhow m) = snd m"
  by (auto simp: as_anyhow_def split: prod.splits sum.splits)

lemma aggregation_run_touches: "touches {RoundFile (r_height r)} d (snd (aggregation_run ext ops env d r))"
proof (cases "disk_exists d (RoundFile (r_height r))")
  case True
  then show ?thesis by (simp add: aggregation_run_def)
next
  case False
  let ?f = "RoundFile (r_height r)" and ?kind = "curve (parameters env)"
  obtain res d1 where init: "disk_initialize d ?f (round_file_size (sizes ext) env) = (res, d1)" by fastforce
  note t = disk_initialize_touches(1) [OF init]
  have w: "touches {?f} d d2" if "write_through ext d1 ?f f = (x, d2)" for f x d2
    using touches_trans [OF t, of d2] write_through_touches [of ?f d1 ext f] that by simp
  show ?thesis
    using False init t
    by (auto simp: aggregation_run_def Let_def and_then_def intro: w split: sum.splits prod.splits)
qed

text \<open>What the aggregation of round \<open>h\<close> has established and written.\<close>

definition round_aggregated :: "Externals \<Rightarrow> Phase1Ops \<Rightarrow> Coordinator \<Rightarrow> u64 \<Rightarrow> Coordinator \<Rightarrow> bool" where
  "round_aggregated ext ops self h self' \<longleftrightarrow>
     (\<exists>r content. load_current_round ext (co_storage self) = Inr r \<and> r_height r = h \<and> round_is_complete r \<and>
        (\<forall>c<number_of_chunks (co_environment self).
           disk_exists (co_storage self)
             (ContributionFile (contribution_locator h c (expected_number_of_contributions r - 1) False)) \<and>
           disk_exists (co_storage self) (ContributionFile (contribution_locator (h + 1) c 0 True))) \<and>
        aggregate_of ext ops (co_environment self) (co_storage self) r content \<and>
        length content = round_file_size (sizes ext) (disk_environment (co_storage self)) \<and>
        file_at (co_storage self') (RoundFile h) = Some content)"

lemma check_final_contributions_ok:
  "is_ok (check_final_contributions d h i c) \<longleftrightarrow>
     disk_exists d (ContributionFile (contribution_locator h c i False)) \<and>
     disk_exists d (ContributionFile (contribution_locator (h + 1) c 0 True))"
  by (simp add: check_final_contributions_def)

lemma round_aggregated_intro:
  assumes d1: "touches {RoundFile h} (co_storage self) d1" "\<not> disk_exists d1 (RoundFile h)"
    and r: "load_current_round ext (co_storage self) = Inr r" "round_is_complete r"
    and ys: "collect_results (check_final_contributions d1 h (expected_number_of_contributions r - 1))
        [0..<number_of_chunks (co_environment self)] = Inr ys"
    and agg: "aggregation_run ext ops (co_environment self) d1 r = (Inr (), d2)" "disk_exists d2 (RoundFile h)"
  shows "round_aggregated ext ops self h (self\<lparr>co_storage := d2\<rparr>)"
proof -
  let ?d = "co_storage self" and ?env = "co_environment self"
  have files: "\<forall>c<number_of_chunks ?env.
      disk_exists ?d (ContributionFile (contribution_locator h c (expected_number_of_contributions r - 1) False)) \<and>
      disk_exists ?d (ContributionFile (contribution_locator (h + 1) c 0 True))"
    using collect_results_all [OF ys] touches_file [OF d1(1)]
    by (simp add: check_final_contributions_ok disk_exists_def)
  from agg(1) obtain content where c: "file_at d2 (RoundFile (r_height r)) = Some content"
    "aggregate_of ext ops ?env d1 r content"
    "length content = round_file_size (sizes ext) (disk_environment d1)" "touches {RoundFile (r_height r)} d1 d2"
    by (rule aggregation_run_ok)
  have h: "r_height r = h"
  proof (rule ccontr)
    assume "r_height r \<noteq> h"
    then show False
      using agg(2) d1(2) touches_file [OF c(4), of "RoundFile h"] by (simp add: disk_exists_def)
  qed
  have "aggregate_of ext ops ?env ?d r content"
    using c(2) by (simp add: aggregate_of_def aggregation_readers_touches [OF d1(1)])
  then show ?thesis
    using r files c(1,3) h d1(1) by (auto simp: round_aggregated_def touches_def)
qed

lemma aggregation_steps:
  assumes "aggregating_current_round s now = (Inr (), s1)"
  shows "rollback_aggregating_current_round s1 = (Inr (), s) \<and>
    (\<exists>s2. aggregated_current_round s1 later = (Inr (), s2) \<and> is_current_round_aggregated s2)"
  using assms
  by (auto simp: aggregating_current_round_def aggregated_current_round_def update_next_round_after_def
      rollback_aggregating_current_round_def is_current_round_aggregated_def Let_def
      split: option.splits if_splits)

lemma aggregate_contributions_outcome:
  assumes height: "load_current_round_height ext (co_storage self) = Inr h"
  shows "case aggregate_contributions ext ops self of (res, self') \<Rightarrow>
      co_state self' = co_state self \<and> touches (range RoundFile) (co_storage self) (co_storage self') \<and>
      (is_ok res \<longrightarrow> round_aggregated ext ops self h self')"
proof (cases "\<exists>e. aggregate_contributions ext ops self = (Inl e, self)")
  case True
  then show ?thesis by auto
next
  case False
  let ?d = "co_storage self" and ?env = "co_environment self"
  obtain d1 where d1: "remove_if_exists ?d (RoundFile h) = (Inr (), d1)" "touches {RoundFile h} ?d d1"
    "\<not> disk_exists d1 (RoundFile h)" by (rule remove_if_exists_ok [of ?d "RoundFile h"])
  note load = loads_touches [OF d1(2), of ext]
  have t1: "touches (range RoundFile) ?d d1" using d1(2) by (rule touches_mono) auto
  let ?last = "\<lambda>r. expected_number_of_contributions r - 1"
  have run: "aggregate_contributions ext ops self =
      (case load_current_round ext ?d of
         Inl e \<Rightarrow> (Inl e, self\<lparr>co_storage := d1\<rparr>)
       | Inr r \<Rightarrow>
           (case collect_results (check_final_contributions d1 h (?last r)) [0..<number_of_chunks ?env] of
              Inl e \<Rightarrow> (Inl e, self\<lparr>co_storage := d1\<rparr>)
            | Inr _ \<Rightarrow>
                if \<not> round_is_complete r then (Inl RoundNotComplete, self\<lparr>co_storage := d1\<rparr>)
                else and_then (on_storage (self\<lparr>co_storage := d1\<rparr>) (\<lambda>d. aggregation_run ext ops ?env d r))
                  (\<lambda>_ self. if \<not> disk_exists (co_storage self) (RoundFile h) then (Inl RoundFileMissing, self)
                            else (Inr (), self))))"
    using False height d1(1) load
    by (auto simp: aggregate_contributions_def on_storage_def split: sum.splits if_splits)
  show ?thesis
  proof (cases "\<exists>r ys. load_current_round ext ?d = Inr r \<and> round_is_complete r \<and>
      collect_results (check_final_contributions d1 h (?last r)) [0..<number_of_chunks ?env] = Inr ys")
    case False
    then have "\<exists>e. aggregate_contributions ext ops self = (Inl e, self\<lparr>co_storage := d1\<rparr>)"
      unfolding run by (auto split: sum.splits)
    with t1 show ?thesis by auto
  next
    case True
    then obtain r ys where r: "load_current_round ext ?d = Inr r" "round_is_complete r"
      and ys: "collect_results (check_final_contributions d1 h (?last r)) [0..<number_of_chunks ?env] = Inr ys" by blast
    obtain res d2 where agg: "aggregation_run ext ops ?env d1 r = (res, d2)" by fastforce
    have "touches (range RoundFile) d1 d2"
      using aggregation_run_touches [of r d1 ext ops ?env] agg by (auto elim: touches_mono)
    with t1 have t2: "touches (range RoundFile) ?d d2" by (rule touches_trans)
    show ?thesis
    proof (cases "res = Inr () \<and> disk_exists d2 (RoundFile h)")
      case False
      then have "\<exists>e. aggregate_contributions ext ops self = (Inl e, self\<lparr>co_storage := d2\<rparr>)"
        unfolding run using r ys agg by (cases res) (auto simp: on_storage_def)
      with t2 show ?thesis by auto
    next
      case True
      then have "round_aggregated ext ops self h (self\<lparr>co_storage := d2\<rparr>)"
        using round_aggregated_intro [OF d1(2,3) r ys] agg by simp
      moreover have "aggregate_contributions ext ops self = (Inr (), self\<lparr>co_storage := d2\<rparr>)"
        unfolding run using r ys agg True by (simp add: on_storage_def)
      ultimately show ?thesis using t2 by simp
    qed
  qed
qed

text \<open>
  C23. When the aggregation of the current round fails, the state of the ceremony is as before and no
  file but round files has changed. When it succeeds, the round is marked as aggregated, and either
  it was round 0, for which nothing is written, or the round on disk was complete with all its last
  contributions and all challenges of the next round, and its round file now holds the
  aggregate of exactly these contributions, of the expected size and verified as a whole.
\<close>

theorem try_aggregate_sound:
  "case try_aggregate ext ops self now of
     (Inl _, self') \<Rightarrow>
       co_state self' = co_state self \<and> touches (range RoundFile) (co_storage self) (co_storage self')
   | (Inr _, self') \<Rightarrow>
       is_current_round_aggregated (co_state self') \<and>
       (\<exists>h. load_current_round_height ext (co_storage self) = Inr h \<and>
          (h = 0 \<and> co_storage self' = co_storage self \<or> round_aggregated ext ops self h self'))"
proof (cases "\<exists>e. try_aggregate ext ops self now = (Inl e, self)")
  case True
  then show ?thesis by auto
next
  case False
  let ?h = "round_height_or_zero (co_state self)" and ?s = "co_state self"
  from False have h: "load_current_round_height ext (co_storage self) = Inr ?h"
    by (auto simp: try_aggregate_def Let_def split: sum.splits if_splits)
  from False obtain s1 where s1: "aggregating_current_round ?s now = (Inr (), s1)"
    and run: "try_aggregate ext ops self now =
      (let self = self\<lparr>co_state := s1\<rparr> in
       if ?h = 0 then on_state self (\<lambda>s. aggregated_current_round s now)
       else (case aggregate_contributions ext ops self of
          (Inr _, self) \<Rightarrow>
            and_then (on_state self (\<lambda>s. aggregated_current_round s now)) (\<lambda>_ self.
              if \<not> is_current_round_aggregated (co_state self) then (Inl RoundAggregationFailed, self)
              else (Inr (), self))
        | (Inl e, self) \<Rightarrow>
            and_then (on_state self rollback_aggregating_current_round) (\<lambda>_ self. (Inl e, self))))"
    by (fastforce simp: try_aggregate_def Let_def on_state_def and_then_def aggregating_current_round_def
        split: sum.splits if_splits option.splits)
  from aggregation_steps [OF s1] obtain s2 where s2: "rollback_aggregating_current_round s1 = (Inr (), ?s)"
    "aggregated_current_round s1 now = (Inr (), s2)" "is_current_round_aggregated s2" by blast
  show ?thesis
  proof (cases "?h = 0")
    case True
    with h run s2 show ?thesis by (simp add: on_state_def)
  next
    case False
    obtain res self' where agg: "aggregate_contributions ext ops (self\<lparr>co_state := s1\<rparr>) = (res, self')" by fastforce
    with aggregate_contributions_outcome [of ext "self\<lparr>co_state := s1\<rparr>" ?h ops] h
    have "co_state self' = s1" "touches (range RoundFile) (co_storage self) (co_storage self')"
      "is_ok res \<Longrightarrow> round_aggregated ext ops (self\<lparr>co_state := s1\<rparr>) ?h self'" by auto
    with h run s2 agg False show ?thesis
      by (cases res) (simp_all add: on_state_def round_aggregated_def)
  qed
qed

section \<open>What a reset leaves on disk\<close>

text \<open>The files after a reset of round \<open>h\<close>.\<close>

definition files_after_reset ::
  "Externals \<Rightarrow> Disk \<Rightarrow> u64 \<Rightarrow> Round \<Rightarrow> ResetCurrentRoundStorageAction \<Rightarrow> Locator \<Rightarrow> bytes option" where
  "files_after_reset ext d h r reset_action l =
     (if l = RoundState h
      then (if rollback reset_action then None
            else Some (round_to_json ext (round_reset r (remove_participants reset_action))))
      else if l = RoundHeightFile \<and> rollback reset_action then Some (height_to_json ext (h - 1))
      else if cleared_by h l then None else file_at d l)"

lemma not_cleared [simp]: "\<not> cleared_by h (RoundState k)" "\<not> cleared_by h RoundHeightFile"
  by (simp_all add: cleared_by_def)

text \<open>
  C32. Resetting the storage of the current round succeeds and leaves the state alone. The stored
  round is the reset one without the removed participants, or, when the round is rolled back, it is
  gone and the stored height is the previous one. All other files of the round but its challenges
  are removed, and with them every file of the next round but a round state; nothing else on disk changes.
\<close>

theorem reset_round_storage_files:
  assumes h: "load_current_round_height ext (co_storage self) = Inr h"
    and r: "load_current_round ext (co_storage self) = Inr r" "r_height r = h"
    and wf: "disk_wf (co_storage self)" "\<not> contains_str (disk_base (co_storage self)) ''contribution_0''"
      "\<not> contains_str (disk_base (co_storage self)) ''state.json''"
    and positive: "0 < h \<or> \<not> rollback reset_action"
  shows "case reset_round_storage ext self reset_action of
      (Inl _, _) \<Rightarrow> False
    | (Inr _, self') \<Rightarrow> co_state self' = co_state self \<and>
        (\<forall>l. file_at (co_storage self') l = files_after_reset ext (co_storage self) h r reset_action l)"
proof -
  let ?d = "co_storage self" and ?r' = "RoundStateObject (round_reset r (remove_participants reset_action))"
  let ?d1 = "put_file (RoundState h) (object_to_bytes ext ?r') ?d"
  let ?d2 = "clear_round_files ?d1 h"
  have ex: "disk_exists ?d (RoundState h)" using h r(1) by (rule loaded_round_exists)
  have load: "load_round ext ?d h = Inr r" using h r(1) by (simp add: load_current_round_def)
  have base: "disk_base ?d1 = disk_base ?d" by (simp add: put_file_def)
  have at2: "file_at ?d2 l = (if cleared_by h l then None else file_at ?d1 l)" for l
    by (rule clear_round_files_at) (use put_file_wf [OF wf(1) ex] wf(2,3) base in simp_all)
  have at1: "file_at ?d1 l = (if l = RoundState h then Some (object_to_bytes ext ?r') else file_at ?d l)" for l
    by (simp add: disk.get_ins)
  have height: "file_at ?d RoundHeightFile \<noteq> None" using h by (auto simp: load_height_ok_iff)
  have run: "reset_round_storage ext self reset_action = on_storage self (\<lambda>d.
      if rollback reset_action
      then (Inr (), put_file RoundHeightFile (height_to_json ext (h - 1)) (delete_file (RoundState h) ?d2))
      else (Inr (), ?d2))"
    using h load r(2) ex positive at1 at2 height
    by (auto simp: reset_round_storage_def disk_process_def disk_update_def on_storage_def as_anyhow_def
        disk_remove_def disk_exists_def disk.get_rem)
  show ?thesis
    unfolding run using at1 at2
    by (auto simp: on_storage_def files_after_reset_def disk.get_ins disk.get_rem)
qed

definition sample_contributed :: Coordinator where
  "sample_contributed = sample_coordinator\<lparr>co_storage :=
     put_file (ContributionFile (contribution_locator 1 0 0 True)) [5]
       (put_file (ContributionFile (contribution_locator 1 0 1 False)) [6] (co_storage sample_coordinator))\<rparr>"

lemma sample_contributed_wf: "disk_wf (co_storage sample_contributed)"
proof -
  have "starts_with (local_base_directory (the testing_default)) ''./''" by code_simp
  then have "disk_wf (empty_disk (the testing_default))" by (simp add: disk_wf_def empty_disk_def)
  then show ?thesis
    by (simp add: sample_contributed_def sample_coordinator_def Let_def put_new_file_wf locator_ok_def
        contribution_locator_def)
qed

theorem reset_round_storage_files_witness:
  "case reset_round_storage (sample_externals (sample_round two_contributors)) sample_contributed
       \<lparr>remove_participants = [], rollback = True\<rparr> of
     (Inl _, _) \<Rightarrow> False
   | (Inr _, self') \<Rightarrow> co_state self' = co_state sample_contributed \<and>
       file_at (co_storage self') (RoundState 1) = None \<and>
       file_at (co_storage self') RoundHeightFile = Some [0] \<and>
       file_at (co_storage self') (ContributionFile (contribution_locator 1 0 0 True)) = Some [5] \<and>
       file_at (co_storage self') (ContributionFile (contribution_locator 1 0 1 False)) = None"
proof -
  let ?ext = "sample_externals (sample_round two_contributors)" and ?act = "\<lparr>remove_participants = [], rollback = True\<rparr>"
  let ?d = "co_storage sample_contributed"
  have files: "file_at ?d RoundHeightFile = Some [1]" "file_at ?d (RoundState 1) = Some [2]"
    by (simp_all add: sample_contributed_def sample_coordinator_def Let_def disk.get_ins)
  then have load: "load_current_round_height ?ext ?d = Inr 1"
    "load_current_round ?ext ?d = Inr (sample_round two_contributors)"
    by (auto simp: load_current_round_ok_iff load_height_ok_iff sample_externals_def)
  have base: "\<not> contains_str (disk_base ?d) ''contribution_0''" "\<not> contains_str (disk_base ?d) ''state.json''"
    by code_simp+
  have "case reset_round_storage ?ext sample_contributed ?act of
      (Inl _, _) \<Rightarrow> False
    | (Inr _, self') \<Rightarrow> co_state self' = co_state sample_contributed \<and>
        (\<forall>l. file_at (co_storage self') l = files_after_reset ?ext ?d 1 (sample_round two_contributors) ?act l)"
    by (rule reset_round_storage_files [OF load _ sample_contributed_wf base]) (simp_all add: sample_round_def)
  then show ?thesis
    by (auto simp: files_after_reset_def cleared_by_def sample_externals_def sample_contributed_def disk.get_ins
        contribution_locator_def split: prod.splits sum.splits)
qed

section \<open>What the initialization writes\<close>

abbreviation challenge_file :: "u64 \<Rightarrow> u64 \<Rightarrow> Locator" where
  "challenge_file h c \<equiv> ContributionFile (contribution_locator h c 0 True)"

text \<open>The challenge of a chunk: the blank hash followed by the initial powers, in both rounds.\<close>

definition chunk_initialized :: "Externals \<Rightarrow> Phase1Ops \<Rightarrow> Environment \<Rightarrow> Disk \<Rightarrow> u64 \<Rightarrow> bool" where
  "chunk_initialized ext ops env d c \<longleftrightarrow>
     (\<exists>content. initialization_command ext ops (curve (parameters env)) (compressed_inputs env) (chunk_parameters ext env c)
          (replicate (contribution_file_size (sizes ext) env c True) 0) = (Inr (), content) \<and>
        length content = contribution_file_size (sizes ext) (disk_environment d) c True \<and>
        file_at d (challenge_file 0 c) = Some content \<and> file_at d (challenge_file 1 c) = Some content)"

lemma initialization_run_ok:
  assumes "initialization_run ext ops env d 0 c = (Inr hash, d')"
  shows "chunk_initialized ext ops env d' c \<and> touches {challenge_file 0 c, challenge_file 1 c} d d'"
proof -
  let ?f = "challenge_file 0 c" and ?g = "challenge_file 1 c"
  let ?init = "initialization_command ext ops (curve (parameters env)) (compressed_inputs env) (chunk_parameters ext env c)"
  let ?size = "contribution_file_size (sizes ext) env c True"
  from assms obtain d1 d2 where init: "disk_initialize d ?f ?size = (Inr (), d1)"
    and w: "write_through ext d1 ?f ?init = (Inr (), d2)" and copy: "disk_copy ext d2 ?f ?g = (Inr (), d')"
    unfolding initialization_run_def as_anyhow_ok_iff Let_def
    by (auto simp: and_then_ok_iff early_return_iffs)
  from w obtain buffer content where b: "disk_writer (sizes ext) d1 ?f = Inr buffer" "?init buffer = (Inr (), content)"
    "d2 = put_file ?f content d1" by (rule write_through_ok)
  note t = disk_initialize_touches [OF init] and cp = disk_copy_contribution [OF copy]
  have buffer: "buffer = replicate ?size 0" using disk_writer_ok [OF b(1)] t(2) by simp
  have f: "file_at d' ?f = Some content" "file_at d' ?g = Some content"
    using cp(1) touches_file [OF cp(2), of ?f] b(3) by (simp_all add: disk.get_ins contribution_locator_def)
  have "touches {?f} d d2" unfolding b(3) using t(1) touches_put by (rule touches_trans)
  then have "touches {?f, ?g} d d2" by (rule touches_mono) simp
  moreover have "touches {?f, ?g} d2 d'" using cp(2) by (rule touches_mono) simp
  ultimately have "touches {?f, ?g} d d'" by (rule touches_trans)
  moreover have "length content = contribution_file_size (sizes ext) (disk_environment d') c True"
    using cp(2,4) b(3) by (auto simp: disk.get_ins contribution_locator_def touches_def)
  ultimately show ?thesis using b(2) buffer f by (auto simp: chunk_initialized_def)
qed

lemma chunk_initialized_touches:
  assumes "touches L d d'" "challenge_file 0 c \<notin> L" "challenge_file 1 c \<notin> L"
  shows "chunk_initialized ext ops env d' c \<longleftrightarrow> chunk_initialized ext ops env d c"
  using touches_file [OF assms(1,2)] touches_file [OF assms(1,3)] assms(1)
  by (simp add: chunk_initialized_def touches_def)

lemma initialize_chunk_ok:
  assumes "initialize_chunk ext ops env 0 c d = (Inr (), d')"
  shows "chunk_initialized ext ops env d' c" "touches {challenge_file 0 c, challenge_file 1 c} d d'"
  using assms initialization_run_ok [of ext ops env d c _ d']
  by (auto simp: initialize_chunk_def Let_def and_then_ok_iff early_return_iffs)

lemma initialize_chunks_ok:
  assumes "for_each (initialize_chunk ext ops env 0) [0..<n] d = (Inr (), d')"
  shows "\<forall>c<n. chunk_initialized ext ops env d' c" "touches {challenge_file h c |h c. True} d d'"
proof -
  let ?L = "{challenge_file h c |h c. True}"
  let ?fin = "\<lambda>c s. chunk_initialized ext ops env s c"
  have "touches ?L d d' \<and> (\<forall>c\<in>set [0..<n]. ?fin c d') \<and> (\<forall>c. ?fin c d \<longrightarrow> ?fin c d')"
  proof (rule for_each_done [OF assms])
    fix c s s'
    assume s: "touches ?L d s" and step: "initialize_chunk ext ops env 0 c s = (Inr (), s')"
    note i = initialize_chunk_ok [OF step]
    have "touches ?L s s'" using i(2) by (rule touches_mono) auto
    with s have "touches ?L d s'" by (rule touches_trans)
    moreover have "?fin y s'" if "?fin y s" for y
      using i that chunk_initialized_touches [OF i(2), of y ext ops env]
      by (cases "y = c") (auto simp: contribution_locator_def)
    ultimately show "touches ?L d s' \<and> ?fin c s' \<and> (\<forall>y. ?fin y s \<longrightarrow> ?fin y s')" using i(1) by blast
  qed simp
  then show "\<forall>c<n. ?fin c d'" "touches ?L d d'" by auto
qed

lemma for_each_inv:
  assumes "I s" "\<And>x s. I s \<Longrightarrow> I (snd (body x s))"
  shows "I (snd (for_each body xs s))"
  using assms(1)
proof (induction xs arbitrary: s)
  case (Cons x xs)
  obtain r s1 where "body x s = (r, s1)" by fastforce
  with Cons assms(2) [OF Cons.prems, of x] show ?case by (cases r) auto
qed simp

lemma disk_copy_touches: "touches {l'} d (snd (disk_copy ext d l l'))"
proof -
  have "touches {l'} d (snd (and_then (disk_initialize d l' n) (\<lambda>_ d. disk_update ext d l' obj)))" for n obj
  proof -
    obtain r d1 where i: "disk_initialize d l' n = (r, d1)" by fastforce
    obtain r2 d2 where u: "disk_update ext d1 l' obj = (r2, d2)" by fastforce
    show ?thesis
      using i u disk_initialize_touches(1) [OF i]
        touches_trans [OF disk_initialize_touches(1) [OF i] disk_update_touches(1) [OF u]]
      by (cases r) auto
  qed
  then show ?thesis by (auto simp: disk_copy_def split: sum.splits)
qed

lemma initialization_run_touches:
  "touches {challenge_file h c, challenge_file (h + 1) c} d (snd (initialization_run ext ops env d h c))"
proof -
  let ?f = "challenge_file h c" and ?g = "challenge_file (h + 1) c" and ?L = "{challenge_file h c, challenge_file (h + 1) c}"
  obtain r1 d1 where init: "disk_initialize d ?f (contribution_file_size (sizes ext) env c True) = (r1, d1)" by fastforce
  have t1: "touches ?L d d1" using disk_initialize_touches(1) [OF init] by (rule touches_mono) simp
  obtain r2 d2 where w: "write_through ext d1 ?f (initialization_command ext ops (curve (parameters env))
      (compressed_inputs env) (chunk_parameters ext env c)) = (r2, d2)" by fastforce
  have "touches ?L d1 d2" using write_through_touches [of ?f d1 ext] w by (metis touches_mono snd_conv insertI1 singletonD subsetI)
  with t1 have t2: "touches ?L d d2" by (rule touches_trans)
  obtain r3 d3 where copy: "disk_copy ext d2 ?f ?g = (r3, d3)" by fastforce
  have "touches ?L d2 d3" using disk_copy_touches [of ?g d2 ext ?f] copy by (auto elim: touches_mono)
  with t2 have t3: "touches ?L d d3" by (rule touches_trans)
  show ?thesis
    using init w copy t1 t2 t3 unfolding initialization_run_def snd_as_anyhow Let_def
    by (cases r1; cases r2; cases r3) (auto split: sum.splits)
qed

lemma initialize_chunks_touches:
  "touches {challenge_file h c |h c. True} d (snd (for_each (initialize_chunk ext ops env 0) cs d))"
proof (rule for_each_inv)
  fix c d'
  assume d: "touches {challenge_file h c |h c. True} d d'"
  obtain r d2 where run: "initialization_run ext ops env d' 0 c = (r, d2)" by fastforce
  have "touches {challenge_file 0 c, challenge_file (0 + 1) c} d' d2"
    using initialization_run_touches [of 0 c d' ext ops env] run by simp
  then have "touches {challenge_file h c |h c. True} d' d2" by (rule touches_mono) auto
  with run show "touches {challenge_file h c |h c. True} d (snd (initialize_chunk ext ops env 0 c d'))"
    using d touches_trans [OF d] by (cases r) (auto simp: initialize_chunk_def Let_def)
qed simp

text \<open>
  When the initialization of the ceremony succeeds, the disk had no round before, and every
  chunk has the same challenge in round 0 and in round 1: the blank hash followed by the initial
  powers, of the expected size; round 0 is stored, without contributors, at height 0. When it
  fails, no height is stored, so the ceremony is still not initialized. The state is unchanged.
\<close>

theorem run_initialization_challenges:
  "case run_initialization ext ops self started now of
     (Inl _, self') \<Rightarrow> co_state self' = co_state self \<and>
       load_current_round_height ext (co_storage self') = load_current_round_height ext (co_storage self)
   | (Inr height, self') \<Rightarrow> co_state self' = co_state self \<and> height = 0 \<and>
       \<not> is_ok (load_current_round_height ext (co_storage self)) \<and>
       (\<forall>c<number_of_chunks (co_environment self).
          chunk_initialized ext ops (co_environment self) (co_storage self') c) \<and>
       (\<exists>r. round_new (co_environment self) (co_storage self) 0 started [] = Inr r \<and>
          file_at (co_storage self') (RoundState 0) = Some (round_to_json ext (try_finish r now))) \<and>
       file_at (co_storage self') RoundHeightFile = Some (height_to_json ext 0)"
proof (cases "\<exists>e. run_initialization ext ops self started now = (Inl e, self)")
  case True
  then show ?thesis by auto
next
  case False
  let ?d = "co_storage self" and ?env = "co_environment self" and ?L = "{challenge_file h c |h c. True}"
  from False obtain r where start: "\<not> is_ok (load_current_round_height ext ?d)"
    and r: "round_new ?env ?d 0 started [] = Inr r"
    by (auto simp: run_initialization_def Let_def split: sum.splits if_splits)
  obtain r1 d1 where init: "for_each (initialize_chunk ext ops ?env 0) [0..<number_of_chunks ?env] ?d = (r1, d1)" by fastforce
  obtain r2 d2 where state: "disk_insert ext d1 (RoundState 0) (RoundStateObject (try_finish r now)) = (r2, d2)" by fastforce
  obtain r3 d3 where height: "disk_insert ext d2 RoundHeightFile (RoundHeightObject 0) = (r3, d3)" by fastforce
  have run: "run_initialization ext ops self started now = on_storage self (\<lambda>d.
      and_then (r1, d1) (\<lambda>_ d. and_then (r2, d2) (\<lambda>_ d. and_then (r3, d3) (\<lambda>_ d. (Inr 0, d)))))"
    using False start r init state height
    by (cases r1; cases r2) (auto simp: run_initialization_def Let_def on_storage_def split: if_splits)
  have t1: "touches ?L ?d d1"
    using initialize_chunks_touches [of ?d ext ops ?env "[0..<number_of_chunks ?env]"] init by simp
  note t2 = disk_insert_touches [OF state] and t3 = disk_insert_touches [OF height]
  have load: "load_current_round_height ext d1 = load_current_round_height ext ?d"
    "load_current_round_height ext d2 = load_current_round_height ext d1"
    using loads_touches(1) [OF t1] loads_touches(1) [OF t2] by auto
  show ?thesis
  proof (cases "r1 = Inr () \<and> r2 = Inr () \<and> r3 = Inr ()")
    case False
    have "d3 = d2" if "r3 = Inl e" for e using disk_insert_error height that by blast
    with False load show ?thesis
      unfolding run by (cases r1; cases r2; cases r3) (auto simp: on_storage_def)
  next
    case True
    note ok2 = disk_insert_ok [OF state [unfolded conjunct1 [OF conjunct2 [OF True]]]]
      and ok3 = disk_insert_ok [OF height [unfolded conjunct2 [OF conjunct2 [OF True]]]]
    have "chunk_initialized ext ops ?env d3 c" if "c < number_of_chunks ?env" for c
      using initialize_chunks_ok(1) [of ext ops ?env "number_of_chunks ?env" ?d d1] init True that
        chunk_initialized_touches [OF t2, of c ext ops ?env] chunk_initialized_touches [OF t3, of c ext ops ?env]
      by simp
    moreover have "file_at d3 (RoundState 0) = Some (round_to_json ext (try_finish r now))"
      using ok2(2) touches_file [OF t3, of "RoundState 0"] by simp
    ultimately show ?thesis
      unfolding run using True start r ok3(2) by (simp add: on_storage_def)
  qed
qed

text \<open>An empty disk, curve elements of no size and operations that leave their buffers alone.\<close>

definition sample_operations :: Phase1Ops where
  "sample_operations = \<lparr>p1_initialization = (\<lambda>_ buffer _ _. (True, buffer)),
     p1_key_generation = (\<lambda>_ seed hash. (seed, hash)), p1_computation = (\<lambda>_ _ buffer _ _ _ _ _. (True, buffer)),
     p1_write_public_key = (\<lambda>_ _ buffer _ _. (True, buffer)), p1_read_public_key = (\<lambda>_ buffer _ _. Some buffer),
     p1_verification = (\<lambda>_ _ _ _ _ _ _ _ _ _. True), p1_decompress = (\<lambda>_ _ buffer _ _. (True, buffer)),
     p1_aggregation = (\<lambda>_ _ buffer _ _. (True, buffer)), p1_aggregate_verification = (\<lambda>_ _ _ _ _. True)\<rparr>"

definition sample_start :: Coordinator where
  "sample_start = sample_coordinator\<lparr>co_storage := empty_disk (the testing_default),
     co_state := state_new (the testing_default)\<rparr>"

definition small_externals :: Externals where
  "small_externals = (sample_externals (sample_round two_contributors))\<lparr>sizes :=
     (\<lambda>_. \<lparr>g1_size = 0, g2_size = 0, g1_compressed_size = 0, g2_compressed_size = 0\<rparr>)\<rparr>"

theorem run_initialization_challenges_witness:
  "case run_initialization small_externals sample_operations sample_start 0 0 of
     (Inl _, _) \<Rightarrow> False
   | (Inr height, self') \<Rightarrow> height = 0 \<and>
       chunk_initialized small_externals sample_operations (co_environment sample_start) (co_storage self') 2 \<and>
       file_at (co_storage self') RoundHeightFile = Some [0]"
proof -
  have "number_of_chunks (co_environment sample_start) = 3" by code_simp
  moreover have "height_to_json small_externals 0 = [0]" by code_simp
  moreover have "case fst (run_initialization small_externals sample_operations sample_start 0 0) of
      Inl _ \<Rightarrow> False | Inr h \<Rightarrow> h = 0" by code_simp
  ultimately show ?thesis
    using run_initialization_challenges [where ext = small_externals and ops = sample_operations
        and self = sample_start and started = 0 and now = 0]
    by (auto split: prod.splits sum.splits)
qed

end
