(* ===== verification/Curve_Elements.thy ===== *)
theory Curve_Elements
  imports Complex_Main Phase1_Parameters
begin

text \<open>
  \<^verbatim>\<open>setup-utils\<close>: group elements in buffers (\<^verbatim>\<open>io/read.rs\<close>, \<^verbatim>\<open>io/write.rs\<close>), their
  exponentiation and the ratio checks (\<^verbatim>\<open>helpers.rs\<close>), and the errors. The curves are those of a
  third-party crate: the record \<open>AffineCurve\<close> holds what the code uses of a group, over a scalar
  field given by its type, and \<open>curve_laws\<close> states what is relied on. A panic, also of a spawned
  thread, is the error \<open>Panic\<close>. What a parallel iterator computes does not depend on the order.
\<close>

datatype ElementType = TauG1 | TauG2 | AlphaG1 | BetaG1 | BetaG2

datatype VerificationError = InvalidRatio string | InvalidGenerator ElementType

datatype InvariantKind =
    Contributions_kind | CsHash | AlphaG1_kind | BetaG1_kind | BetaG2_kind | GammaAbcG1 | GammaG2 | DeltaG1
  | Transcript | AlphaG1Query | BetaG1Query | BetaG2Query

datatype Phase2Error = BrokenInvariant InvariantKind | InvalidLength_phase2 | NoContributions | InvalidTranscript

datatype SetupError =
    IoError
  | ZexeSerializationError
  | PointAtInfinity
  | PositionError ElementType usize usize
  | VerificationFailed VerificationError
  | InvalidLength usize usize
  | InvalidChunk
  | SynthesisFailed
  | Phase2Failed Phase2Error
  | CrossBeamError
  | IncorrectSubgroup
  | InvalidDecompressionParametersError
  | Panic

type_synonym 'a or_error = "SetupError + 'a"

record ('f, 'g) AffineCurve =
  prime_subgroup_generator :: 'g
  point_mul :: "'g \<Rightarrow> 'f \<Rightarrow> 'g"
  mul_modulus :: "'g \<Rightarrow> 'g"
  to_bytes :: "UseCompression \<Rightarrow> 'g \<Rightarrow> bytes"
  of_bytes :: "UseCompression \<Rightarrow> bytes \<Rightarrow> 'g option"
  serialized_size :: usize
  uncompressed_size :: usize

section \<open>Reading and writing\<close>

definition buffer_size :: "('f, 'g) AffineCurve \<Rightarrow> UseCompression \<Rightarrow> usize" where
  "buffer_size C compression = (if compression = Yes then serialized_size C else uncompressed_size C)"

text \<open>\<^verbatim>\<open>slice.chunks(n)\<close>: the last chunk may be shorter.\<close>

definition chunks_of :: "nat \<Rightarrow> 'a list \<Rightarrow> 'a list list" where
  "chunks_of n xs = map (\<lambda>i. take n (drop (i * n) xs)) [0..<(length xs + n - 1) div n]"

definition read_element ::
  "('f, 'g::ab_group_add) AffineCurve \<Rightarrow> UseCompression \<Rightarrow> CheckForCorrectness \<Rightarrow> bytes \<Rightarrow> 'g or_error" where
  "read_element C compression check_correctness buf =
     (if length buf < buffer_size C compression then Inl ZexeSerializationError
      else
        (case of_bytes C compression (take (buffer_size C compression) buf) of
           None \<Rightarrow> Inl ZexeSerializationError
         | Some point \<Rightarrow>
             if (check_correctness = CheckFull \<or> check_correctness = OnlyNonZero) \<and> point = 0
             then Inl PointAtInfinity else Inr point))"

definition read_batch ::
  "('f, 'g::ab_group_add) AffineCurve \<Rightarrow> UseCompression \<Rightarrow> CheckForCorrectness \<Rightarrow> bytes \<Rightarrow> 'g list or_error" where
  "read_batch C compression check_correctness buf =
     collect_results (read_element C compression check_correctness) (chunks_of (buffer_size C compression) buf)"

text \<open>Into the given number of preallocated elements; the remaining bytes are not read.\<close>

definition read_batch_preallocated ::
  "('f, 'g::ab_group_add) AffineCurve \<Rightarrow> UseCompression \<Rightarrow> CheckForCorrectness \<Rightarrow> bytes \<Rightarrow> 'g list \<Rightarrow> 'g list or_error" where
  "read_batch_preallocated C compression check_correctness buf elements =
     result_bind (collect_results (read_element C compression check_correctness)
         (take (length elements) (chunks_of (buffer_size C compression) buf)))
       (\<lambda>ps. Inr (ps @ drop (length ps) elements))"

definition write_element ::
  "('f, 'g) AffineCurve \<Rightarrow> UseCompression \<Rightarrow> 'g \<Rightarrow> bytes \<Rightarrow> bytes or_error" where
  "write_element C compression point buf =
     (let content = to_bytes C compression point in
      if length content \<le> length buf then Inr (content @ drop (length content) buf)
      else Inl ZexeSerializationError)"

text \<open>\<^verbatim>\<open>(&mut buf[0..element_size]).write_element(element, compression)\<close> on a chunk of the buffer\<close>

definition write_chunk :: "('f, 'g) AffineCurve \<Rightarrow> UseCompression \<Rightarrow> 'g \<Rightarrow> bytes \<Rightarrow> bytes or_error" where
  "write_chunk C compression point buf =
     (if length buf < buffer_size C compression then Inl Panic else write_element C compression point buf)"

definition init_element :: "('f, 'g) AffineCurve \<Rightarrow> UseCompression \<Rightarrow> 'g \<Rightarrow> bytes \<Rightarrow> bytes or_error" where
  "init_element C compression point buf =
     result_bind (collect_results (write_chunk C compression point) (chunks_of (buffer_size C compression) buf))
       (\<lambda>bufs. Inr (concat bufs))"

definition write_batch :: "('f, 'g) AffineCurve \<Rightarrow> UseCompression \<Rightarrow> 'g list \<Rightarrow> bytes \<Rightarrow> bytes or_error" where
  "write_batch C compression points buf =
     (let bufs = chunks_of (buffer_size C compression) buf in
      result_bind (collect_results (\<lambda>(b, point). write_chunk C compression point b) (zip bufs points))
        (\<lambda>written. Inr (concat (written @ drop (length points) bufs))))"

section \<open>Exponentiation\<close>

definition generate_powers_of_tau :: "'f::field \<Rightarrow> usize \<Rightarrow> usize \<Rightarrow> 'f list" where
  "generate_powers_of_tau tau start end' = map (\<lambda>i. tau ^ i) [start..<end']"

definition batch_exp ::
  "('f::field, 'g) AffineCurve \<Rightarrow> 'g list \<Rightarrow> 'f list \<Rightarrow> 'f option \<Rightarrow> 'g list or_error" where
  "batch_exp C bases exps coeff =
     (if length bases \<noteq> length exps then Inl (InvalidLength (length bases) (length exps))
      else Inr (map2 (\<lambda>base exp. point_mul C base (case coeff of Some k \<Rightarrow> exp * k | None \<Rightarrow> exp)) bases exps))"

section \<open>Buffers as cells\<close>

text \<open>The bytes of the \<open>i\<close>-th element in a buffer of elements of \<open>n\<close> bytes.\<close>

definition cell :: "nat \<Rightarrow> 'a list \<Rightarrow> nat \<Rightarrow> 'a list" where
  "cell n buf i = take n (drop (i * n) buf)"

lemma chunks_of_cells:
  assumes "0 < n" "length buf = k * n"
  shows "chunks_of n buf = map (cell n buf) [0..<k]"
proof -
  have "(k * n + n - 1) div n = k"
    using assms(1) by (metis Nat.add_diff_assoc One_nat_def Suc_leI Suc_pred add.commute add_cancel_right_right
        div_less div_mult_self3 less_Suc_eq less_numeral_extra(3))
  then show ?thesis by (simp add: chunks_of_def cell_def assms(2))
qed

lemma length_cell: "length buf = k * n \<Longrightarrow> i < k \<Longrightarrow> length (cell n buf i) = n"
proof -
  assume a: "length buf = k * n" "i < k"
  then have "Suc i * n \<le> k * n" by (intro mult_right_mono) simp_all
  with a show ?thesis by (simp add: cell_def)
qed

lemma cell_index: "length buf = k * n \<Longrightarrow> i < k \<Longrightarrow> j < n \<Longrightarrow> cell n buf i ! j = buf ! (i * n + j)"
  using length_cell [of buf k n i] by (simp add: cell_def add.commute)

text \<open>Cells that were read from a list of elements.\<close>

lemma concat_cells: "length buf = k * n \<Longrightarrow> concat (map (cell n buf) [0..<k]) = buf"
proof (induction k arbitrary: buf)
  case (Suc k)
  have "cell n buf i = cell n (take (k * n) buf) i" if "i < k" for i
  proof -
    have "Suc i * n \<le> k * n" using that by (intro mult_right_mono) simp_all
    then show ?thesis by (simp add: cell_def drop_take min_def)
  qed
  then have "concat (map (cell n buf) [0..<k]) = concat (map (cell n (take (k * n) buf)) [0..<k])"
    by (intro arg_cong [where f = concat] map_cong) auto
  also have "\<dots> = take (k * n) buf" using Suc by simp
  finally have "concat (map (cell n buf) [0..<k]) = take (k * n) buf" .
  moreover have "cell n buf k = drop (k * n) buf" using Suc.prems by (simp add: cell_def)
  ultimately show ?case by simp
qed simp

lemma length_concat_same: "(\<And>x. x \<in> set xs \<Longrightarrow> length x = n) \<Longrightarrow> length (concat xs) = length xs * n"
  by (induction xs) auto

lemma cell_concat:
  "(\<And>x. x \<in> set xs \<Longrightarrow> length x = n) \<Longrightarrow> i < length xs \<Longrightarrow> cell n (concat xs) i = xs ! i"
proof (induction xs arbitrary: i)
  case (Cons x xs)
  then show ?case by (cases i) (simp_all add: cell_def)
qed simp

lemma cells_eqI:
  assumes "length a = k * n" "length b = k * n" "\<And>i. i < k \<Longrightarrow> cell n a i = cell n b i"
  shows "a = b"
proof -
  have "map (cell n a) [0..<k] = map (cell n b) [0..<k]" using assms(3) by auto
  then show ?thesis using concat_cells [OF assms(1)] concat_cells [OF assms(2)] by metis
qed

section \<open>What the curves promise\<close>

text \<open>
  The points of the subgroup of prime order form a vector space over the scalar field, and their
  encodings have a fixed size and are read back. Points outside the subgroup may exist; nothing is
  assumed of them.
\<close>

definition in_subgroup :: "('f, 'g::ab_group_add) AffineCurve \<Rightarrow> 'g \<Rightarrow> bool" where
  "in_subgroup C p \<longleftrightarrow> mul_modulus C p = 0"

definition curve_laws :: "('f::field, 'g::ab_group_add) AffineCurve \<Rightarrow> bool" where
  "curve_laws C \<longleftrightarrow>
     in_subgroup C (prime_subgroup_generator C) \<and>
     (\<forall>p a. in_subgroup C p \<longrightarrow> in_subgroup C (point_mul C p a)) \<and>
     (\<forall>p. in_subgroup C p \<longrightarrow> point_mul C p 1 = p) \<and>
     (\<forall>p a b. in_subgroup C p \<longrightarrow> point_mul C (point_mul C p a) b = point_mul C p (a * b)) \<and>
     (\<forall>c. 0 < buffer_size C c) \<and>
     (\<forall>c p. in_subgroup C p \<longrightarrow>
        length (to_bytes C c p) = buffer_size C c \<and> of_bytes C c (to_bytes C c p) = Some p)"

lemma curve_lawsD:
  assumes "curve_laws C"
  shows "in_subgroup C (prime_subgroup_generator C)" "in_subgroup C p \<Longrightarrow> in_subgroup C (point_mul C p a)"
    "in_subgroup C p \<Longrightarrow> point_mul C p 1 = p"
    "in_subgroup C p \<Longrightarrow> point_mul C (point_mul C p a) b = point_mul C p (a * b)" "0 < buffer_size C c"
    "in_subgroup C p \<Longrightarrow> length (to_bytes C c p) = buffer_size C c"
    "in_subgroup C p \<Longrightarrow> of_bytes C c (to_bytes C c p) = Some p"
  using assms by (simp_all add: curve_laws_def)

section \<open>What reading and writing do\<close>

lemma collect_results_nth:
  "collect_results f xs = Inr ys \<longleftrightarrow> length ys = length xs \<and> (\<forall>i<length xs. f (xs ! i) = Inr (ys ! i))"
  unfolding collect_results_ok_iff by (auto simp: list_all2_conv_all_nth)

lemma read_batch_cells:
  assumes "0 < buffer_size C c" "length buf = k * buffer_size C c"
  shows "read_batch C c check buf = Inr ps \<longleftrightarrow>
    length ps = k \<and> (\<forall>i<k. read_element C c check (cell (buffer_size C c) buf i) = Inr (ps ! i))"
  by (simp add: read_batch_def chunks_of_cells [OF assms] collect_results_nth)

lemma read_element_written:
  assumes "curve_laws C" "in_subgroup C p"
  shows "read_element C c CheckNo (to_bytes C c p @ rest) = Inr p"
  using assms by (simp add: read_element_def curve_lawsD)

lemma read_element_check:
  assumes "read_element C c check buf = Inr p"
  shows "read_element C c CheckNo buf = Inr p"
  using assms by (auto simp: read_element_def split: if_splits option.splits)

lemma write_chunk_written:
  assumes "curve_laws C" "in_subgroup C p" "length buf = buffer_size C c"
  shows "write_chunk C c p buf = Inr (to_bytes C c p)"
  using assms by (simp add: write_chunk_def write_element_def Let_def curve_lawsD)

lemma write_batch_cells:
  assumes laws: "curve_laws C" and ps: "\<forall>p\<in>set ps. in_subgroup C p"
    and len: "length buf = k * buffer_size C c" "length ps \<le> k"
  obtains buf' where "write_batch C c ps buf = Inr buf'" "length buf' = length buf"
    "\<forall>i<k. cell (buffer_size C c) buf' i =
       (if i < length ps then to_bytes C c (ps ! i) else cell (buffer_size C c) buf i)"
proof -
  let ?n = "buffer_size C c"
  let ?cs = "map (cell ?n buf) [0..<k]"
  let ?new = "map (to_bytes C c) ps @ drop (length ps) ?cs"
  have cs: "chunks_of ?n buf = ?cs" by (rule chunks_of_cells [OF curve_lawsD(5) [OF laws] len(1)])
  have "collect_results (\<lambda>(b, p). write_chunk C c p b) (zip ?cs ps) = Inr (map (to_bytes C c) ps)"
    unfolding collect_results_nth
    using ps len length_cell [OF len(1)] by (auto simp: write_chunk_written [OF laws])
  then have run: "write_batch C c ps buf = Inr (concat ?new)" by (simp add: write_batch_def cs Let_def)
  have size: "length x = ?n" if "x \<in> set ?new" for x
    using that ps length_cell [OF len(1)] laws
    by (auto simp: curve_lawsD(6) dest!: in_set_dropD)
  have count: "length ?new = k" using len(2) by simp
  have "length (concat ?new) = length ?new * ?n" by (rule length_concat_same) (rule size)
  then have "length (concat ?new) = length buf" unfolding count len(1) .
  moreover have "cell ?n (concat ?new) i = (if i < length ps then to_bytes C c (ps ! i) else cell ?n buf i)" if "i < k" for i
  proof -
    have "cell ?n (concat ?new) i = ?new ! i" by (rule cell_concat) (use size that count in auto)
    then show ?thesis using that by (simp add: nth_append)
  qed
  ultimately show ?thesis using run that by blast
qed

lemma init_element_cells:
  assumes laws: "curve_laws C" and p: "in_subgroup C p" and len: "length buf = k * buffer_size C c"
  shows "init_element C c p buf = Inr (concat (replicate k (to_bytes C c p)))"
proof -
  have "collect_results (write_chunk C c p) (map (cell (buffer_size C c) buf) [0..<k]) = Inr (replicate k (to_bytes C c p))"
    unfolding collect_results_nth
    using length_cell [OF len] by (auto simp: write_chunk_written [OF laws p])
  then show ?thesis
    by (simp add: init_element_def chunks_of_cells [OF curve_lawsD(5) [OF laws] len])
qed

text \<open>A buffer that was written cell by cell reads as the written elements.\<close>

lemma read_batch_written:
  assumes "curve_laws C" "length buf = k * buffer_size C c"
    and "\<forall>i<k. cell (buffer_size C c) buf i = to_bytes C c (f i)" "\<forall>i<k. in_subgroup C (f i)"
  shows "read_batch C c CheckNo buf = Inr (map f [0..<k])"
  unfolding read_batch_cells [OF curve_lawsD(5) [OF assms(1)] assms(2)]
  using assms(3,4) read_element_written [OF assms(1), where rest = "[]"] by simp

end
