(* ===== verification/Phase1_Buffers.thy ===== *)
theory Phase1_Buffers
  imports Curve_Elements
begin

text \<open>
  \<^verbatim>\<open>phase1/src/helpers/buffers.rs\<close>: how an accumulator lies in a buffer, the loop over its elements
  in overlapping batches, and the exponentiation of one batch. A buffer that is split into mutable
  slices is the record of its parts, from which it is joined again.
\<close>

record ('f, 'g, 'h, 't) PairingEngine =
  g1_affine :: "('f, 'g) AffineCurve"
  g2_affine :: "('f, 'h) AffineCurve"
  pairing :: "'g \<Rightarrow> 'h \<Rightarrow> 't"

text \<open>\<^verbatim>\<open>CurveParameters::new\<close>\<close>

definition curve_parameters_new :: "('f, 'g, 'h, 't) PairingEngine \<Rightarrow> CurveParameters" where
  "curve_parameters_new E =
     \<lparr>g1_size = uncompressed_size (g1_affine E), g2_size = uncompressed_size (g2_affine E),
      g1_compressed_size = serialized_size (g1_affine E), g2_compressed_size = serialized_size (g2_affine E)\<rparr>"

section \<open>Batches\<close>

text \<open>The range of elements that a contribution covers.\<close>

definition iter_bounds :: "Phase1Parameters \<Rightarrow> usize \<times> usize" where
  "iter_bounds ps =
     (let upper_bound = (case p1_proving_system ps of
            Groth16 \<Rightarrow> powers_g1_length ps | Marlin \<Rightarrow> powers_length ps)
      in case p1_contribution_mode ps of
           Chunked \<Rightarrow> (chunk_index ps * p1_chunk_size ps, min ((chunk_index ps + 1) * p1_chunk_size ps) upper_bound)
         | ModeFull \<Rightarrow> (0, upper_bound))"

text \<open>The bounds of a batch: it overlaps with the next one, unless it is the last.\<close>

definition batch_bounds :: "usize \<Rightarrow> usize list \<Rightarrow> (usize \<times> usize) or_error" where
  "batch_bounds upper chunk =
     (case chunk of
        [] \<Rightarrow> Inl InvalidChunk
      | start # _ \<Rightarrow>
          Inr (start, if usize_sub upper 1 \<le> last chunk then last chunk + 1 else last chunk + 2))"

fun fold_results :: "('a \<Rightarrow> 's \<Rightarrow> 'e + 's) \<Rightarrow> 'a list \<Rightarrow> 's \<Rightarrow> 'e + 's" where
  "fold_results f [] s = Inr s"
| "fold_results f (x # xs) s = result_bind (f x s) (fold_results f xs)"

definition iter_chunk :: "Phase1Parameters \<Rightarrow> (usize \<Rightarrow> usize \<Rightarrow> 's \<Rightarrow> 's or_error) \<Rightarrow> 's \<Rightarrow> 's or_error" where
  "iter_chunk ps action s =
     (let (start, upper) = iter_bounds ps; n = usize_sub (p1_batch_size ps) 1 in
      if n = 0 then Inl Panic
      else
        fold_results (\<lambda>chunk s. result_bind (batch_bounds upper chunk) (\<lambda>(start, end'). action start end' s))
          (chunks_of n [start..<upper]) s)"

section \<open>Exponentiation of a batch\<close>

text \<open>\<^verbatim>\<open>buffer[a..b]\<close>\<close>

definition slice :: "'a list \<Rightarrow> usize \<Rightarrow> usize \<Rightarrow> 'a list or_error" where
  "slice buffer a b = (if a \<le> b \<and> b \<le> length buffer then Inr (take (b - a) (drop a buffer)) else Inl Panic)"

definition apply_powers ::
  "('f::field, 'g::ab_group_add) AffineCurve \<Rightarrow> bytes \<times> UseCompression \<Rightarrow>
   bytes \<times> UseCompression \<times> CheckForCorrectness \<Rightarrow> usize \<times> usize \<Rightarrow> 'f list \<Rightarrow> 'f option \<Rightarrow> bytes or_error" where
  "apply_powers C output input bounds powers coeff =
     (let (out, output_compressed) = output;
          (inp, input_compressed, check_input_for_correctness) = input;
          (start, end') = bounds;
          in_size = buffer_size C input_compressed;
          out_size = buffer_size C output_compressed
      in result_bind (slice inp (start * in_size) (end' * in_size)) (\<lambda>content.
         result_bind (read_batch C input_compressed check_input_for_correctness content) (\<lambda>elements.
         result_bind (slice powers 0 (usize_sub end' start)) (\<lambda>exps.
         result_bind (batch_exp C elements exps coeff) (\<lambda>elements.
         result_bind (slice out (start * out_size) (end' * out_size)) (\<lambda>target.
         result_bind (write_batch C output_compressed elements target) (\<lambda>written.
           Inr (take (start * out_size) out @ written @ drop (end' * out_size) out))))))))"

section \<open>The parts of an accumulator\<close>

record 'b SplitBuf =
  sb_hash :: bytes
  tau_g1 :: 'b
  tau_g2 :: 'b
  alpha_g1 :: 'b
  beta_g1 :: 'b
  beta_g2 :: 'b
  sb_rest :: bytes

definition join :: "bytes SplitBuf \<Rightarrow> bytes" where
  "join s = sb_hash s @ tau_g1 s @ tau_g2 s @ alpha_g1 s @ beta_g1 s @ beta_g2 s @ sb_rest s"

definition split_at :: "'a list \<Rightarrow> usize \<Rightarrow> ('a list \<times> 'a list) or_error" where
  "split_at xs mid = (if mid \<le> length xs then Inr (take mid xs, drop mid xs) else Inl Panic)"

text \<open>The numbers of elements that Marlin adds to the first chunk.\<close>

definition marlin_sizes :: "Phase1Parameters \<Rightarrow> usize \<times> usize" where
  "marlin_sizes ps =
     (if chunk_index ps = 0 then (total_size_in_log2 ps + 2, 3 + 3 * total_size_in_log2 ps) else (0, 0))"

definition split_mut ::
  "('f, 'g, 'h, 't) PairingEngine \<Rightarrow> bytes \<Rightarrow> Phase1Parameters \<Rightarrow> UseCompression \<Rightarrow> bytes SplitBuf or_error" where
  "split_mut E buffer ps compressed =
     (let g1 = buffer_size (g1_affine E) compressed; g2 = buffer_size (g2_affine E) compressed in
      case p1_proving_system ps of
        Groth16 \<Rightarrow>
          result_bind (split_at buffer (hash_size ps)) (\<lambda>(hash, others).
          result_bind (split_at others (g1 * g1_chunk_size ps)) (\<lambda>(tau1, others).
          result_bind (split_at others (g2 * other_chunk_size ps)) (\<lambda>(tau2, others).
          result_bind (split_at others (g1 * other_chunk_size ps)) (\<lambda>(alpha1, others).
          result_bind (split_at others (g1 * other_chunk_size ps)) (\<lambda>(beta1, others).
          result_bind (split_at others g2) (\<lambda>(beta2, rest).
            Inr \<lparr>sb_hash = hash, tau_g1 = tau1, tau_g2 = tau2, alpha_g1 = alpha1, beta_g1 = beta1,
                 beta_g2 = beta2, sb_rest = rest\<rparr>))))))
      | Marlin \<Rightarrow>
          (let (g2_chunk_size, alpha_chunk_size) = marlin_sizes ps in
           result_bind (split_at buffer (hash_size ps)) (\<lambda>(hash, others).
           result_bind (split_at others (g1 * g1_chunk_size ps)) (\<lambda>(tau1, others).
           result_bind (split_at others (g2 * g2_chunk_size)) (\<lambda>(tau2, others).
           result_bind (split_at others (g1 * alpha_chunk_size)) (\<lambda>(alpha1, rest).
             Inr \<lparr>sb_hash = hash, tau_g1 = tau1, tau_g2 = tau2, alpha_g1 = alpha1, beta_g1 = [],
                  beta_g2 = [], sb_rest = rest\<rparr>))))))"

definition split ::
  "('f, 'g, 'h, 't) PairingEngine \<Rightarrow> bytes \<Rightarrow> Phase1Parameters \<Rightarrow> UseCompression \<Rightarrow> bytes SplitBuf or_error" where
  "split E buffer ps compressed =
     result_bind (split_mut E buffer ps compressed) (\<lambda>s.
       if tau_g1 s = [] then Inl Panic else Inr s)"

section \<open>Splitting and joining\<close>

text \<open>The sizes of the parts.\<close>

definition other_elements :: "Phase1Parameters \<Rightarrow> usize \<times> usize \<times> usize \<times> usize" where
  "other_elements ps =
     (case p1_proving_system ps of
        Groth16 \<Rightarrow> (other_chunk_size ps, other_chunk_size ps, other_chunk_size ps, 1)
      | Marlin \<Rightarrow> (fst (marlin_sizes ps), snd (marlin_sizes ps), 0, 0))"

definition split_shape ::
  "('f, 'g, 'h, 't) PairingEngine \<Rightarrow> Phase1Parameters \<Rightarrow> UseCompression \<Rightarrow> bytes SplitBuf \<Rightarrow> bool" where
  "split_shape E ps c s \<longleftrightarrow>
     (let g1 = buffer_size (g1_affine E) c; g2 = buffer_size (g2_affine E) c; (n2, na, nb, nb2) = other_elements ps in
      length (sb_hash s) = hash_size ps \<and> length (tau_g1 s) = g1_chunk_size ps * g1 \<and> length (tau_g2 s) = n2 * g2 \<and>
      length (alpha_g1 s) = na * g1 \<and> length (beta_g1 s) = nb * g1 \<and> length (beta_g2 s) = nb2 * g2)"

lemma split_at_iff: "split_at xs mid = Inr (a, b) \<longleftrightarrow> xs = a @ b \<and> length a = mid"
  by (auto simp: split_at_def)

lemma split_mut_iff: "split_mut E buffer ps c = Inr s \<longleftrightarrow> buffer = join s \<and> split_shape E ps c s"
proof (cases "p1_proving_system ps")
  case Groth16
  then show ?thesis
    by (cases s) (auto simp: split_mut_def Let_def result_bind_ok_iff split_at_iff split_shape_def
        other_elements_def join_def mult.commute)
next
  case Marlin
  then show ?thesis
    by (cases s; cases "marlin_sizes ps") (auto simp: split_mut_def Let_def result_bind_ok_iff split_at_iff
        split_shape_def other_elements_def join_def mult.commute)
qed

lemma split_iff: "split E buffer ps c = Inr s \<longleftrightarrow> buffer = join s \<and> split_shape E ps c s \<and> tau_g1 s \<noteq> []"
  by (auto simp: split_def result_bind_ok_iff split_mut_iff)

text \<open>A buffer of the size of the accumulator can be split.\<close>

lemma split_mut_exists:
  assumes ps: "ps = parameters_new mode index sz (curve_parameters_new E) system log2 batch"
    and len: "get_length ps c \<le> length buffer"
  shows "\<exists>s. split_mut E buffer ps c = Inr s"
proof -
  let ?g1 = "buffer_size (g1_affine E) c" and ?g2 = "buffer_size (g2_affine E) c"
  obtain n2 na nb nb2 where n: "other_elements ps = (n2, na, nb, nb2)" by (cases "other_elements ps")
  have "hash_size ps + g1_chunk_size ps * ?g1 + n2 * ?g2 + na * ?g1 + nb * ?g1 + nb2 * ?g2 = get_length ps c"
    using n unfolding ps
    by (cases system; cases c)
      (auto simp: parameters_new_def Let_def get_length_def other_elements_def marlin_sizes_def buffer_size_def
        curve_parameters_new_def algebra_simps split: prod.splits)
  with len have l: "hash_size ps + g1_chunk_size ps * ?g1 + n2 * ?g2 + na * ?g1 + nb * ?g1 + nb2 * ?g2 \<le> length buffer"
    by simp
  define part where "part o' n = take n (drop o' buffer)" for o' n :: nat
  let ?o1 = "hash_size ps"
  let ?o2 = "?o1 + g1_chunk_size ps * ?g1" let ?o3 = "?o2 + n2 * ?g2"
  let ?o4 = "?o3 + na * ?g1" let ?o5 = "?o4 + nb * ?g1" let ?o6 = "?o5 + nb2 * ?g2"
  let ?s = "\<lparr>sb_hash = part 0 ?o1, tau_g1 = part ?o1 (g1_chunk_size ps * ?g1), tau_g2 = part ?o2 (n2 * ?g2),
    alpha_g1 = part ?o3 (na * ?g1), beta_g1 = part ?o4 (nb * ?g1), beta_g2 = part ?o5 (nb2 * ?g2),
    sb_rest = drop ?o6 buffer\<rparr>"
  have step: "part o' n @ drop (o' + n) buffer = drop o' buffer" for o' n
    unfolding part_def by (metis append_take_drop_id drop_drop add.commute)
  have "buffer = join ?s" by (simp add: join_def step [of 0, simplified] step)
  moreover have "split_shape E ps c ?s" using l by (simp add: split_shape_def n part_def Let_def)
  ultimately show ?thesis by (auto simp: split_mut_iff)
qed

section \<open>The loop over batches\<close>

lemma fold_results_invariant:
  assumes "P 0 s" "\<And>j s. j < n \<Longrightarrow> P j s \<Longrightarrow> \<exists>s'. f (xs ! j) s = Inr s' \<and> P (Suc j) s'" "length xs = n"
  shows "\<exists>s'. fold_results f xs s = Inr s' \<and> P n s'"
  using assms
proof (induction xs arbitrary: s n P)
  case (Cons x xs)
  from Cons.prems(1) Cons.prems(2) [of 0 s] Cons.prems(3)
  obtain s1 where s1: "f x s = Inr s1" "P 1 s1" by auto
  have "\<exists>s'. fold_results f xs s1 = Inr s' \<and> P (Suc (length xs)) s'"
  proof (rule Cons.IH [where P = "\<lambda>j. P (Suc j)" and n = "length xs"])
    fix j s assume "j < length xs" "P (Suc j) s"
    then show "\<exists>s'. f (xs ! j) s = Inr s' \<and> P (Suc (Suc j)) s'"
      using Cons.prems(2) [of "Suc j" s] Cons.prems(3) by auto
  qed (use s1 in simp_all)
  then show ?case using s1(1) Cons.prems(3) by auto
qed auto

lemma below_ceiling:
  assumes "0 < (d :: nat)" "j < (t + d - 1) div d"
  shows "j * d < t"
proof (rule ccontr)
  assume "\<not> j * d < t"
  with assms(1) have "t + d - 1 < Suc j * d" by simp
  then have "(t + d - 1) div d < Suc j" by (rule less_mult_imp_div_less)
  with assms(2) show False by simp
qed

lemma batch_bounds_upt:
  assumes "a < upper" "2 \<le> m"
  shows "batch_bounds upper [a..<min upper (a + (m - 1))] = Inr (a, min upper (a + m))"
proof -
  define b where "b = min upper (a + (m - 1))"
  have b: "a < b" using assms by (simp add: b_def)
  then have "last [a..<b] = b - 1" by (rule last_upt)
  moreover have "[a..<b] = a # [Suc a..<b]" using b by (rule upt_conv_Cons)
  moreover have "usize_sub upper 1 = upper - 1" using assms(1) by simp
  ultimately have "batch_bounds upper [a..<b] = Inr (a, if upper - 1 \<le> b - 1 then b - 1 + 1 else b - 1 + 2)"
    by (simp only: batch_bounds_def list.case)
  also have "(if upper - 1 \<le> b - 1 then b - 1 + 1 else b - 1 + 2) = min upper (a + m)"
  proof (cases "upper \<le> a + (m - 1)")
    case True
    then have "b = upper" by (simp add: b_def)
    with b True show ?thesis by (simp add: min_def)
  next
    case False
    then have "b = a + (m - 1)" by (simp add: b_def)
    with False have "b + 1 \<le> upper" "a + m = b + 1" using assms(2) by linarith+
    with b show ?thesis by simp
  qed
  finally show ?thesis by (simp only: b_def)
qed

text \<open>The batches of the loop.\<close>

definition batches :: "Phase1Parameters \<Rightarrow> (usize \<times> usize) list" where
  "batches ps =
     (let (lower, upper) = iter_bounds ps; n = p1_batch_size ps - 1 in
      map (\<lambda>j. (lower + j * n, min upper (lower + j * n + p1_batch_size ps))) [0..<(upper - lower + n - 1) div n])"

lemma fold_results_map: "fold_results f (map g xs) s = fold_results (\<lambda>x. f (g x)) xs s"
  by (induction xs arbitrary: s) (simp_all add: result_bind_def split: sum.splits)

lemma fold_results_cong: "(\<And>x s. x \<in> set xs \<Longrightarrow> f x s = g x s) \<Longrightarrow> fold_results f xs s = fold_results g xs s"
  by (induction xs arbitrary: s) (auto simp: result_bind_def split: sum.splits)

lemma iter_chunk_batches:
  assumes "iter_bounds ps = (lower, upper)" "2 \<le> p1_batch_size ps"
  shows "iter_chunk ps action s = fold_results (\<lambda>(a, b). action a b) (batches ps) s"
proof -
  let ?n = "p1_batch_size ps - 1"
  have n: "0 < ?n" "usize_sub (p1_batch_size ps) 1 = ?n" using assms(2) by auto
  let ?f = "\<lambda>chunk s. result_bind (batch_bounds upper chunk) (\<lambda>(start, end'). action start end' s)"
  let ?js = "[0..<(upper - lower + ?n - 1) div ?n]" and ?chunk = "\<lambda>j. take ?n (drop (j * ?n) [lower..<upper])"
  have "iter_chunk ps action s = fold_results ?f (map ?chunk ?js) s"
    using n by (simp add: iter_chunk_def chunks_of_def assms(1) n [unfolded One_nat_def] Let_def)
  also have "\<dots> = fold_results (\<lambda>j. action (lower + j * ?n) (min upper (lower + j * ?n + p1_batch_size ps))) ?js s"
    unfolding fold_results_map
  proof (rule fold_results_cong)
    fix j s assume "j \<in> set ?js"
    then have "lower + j * ?n < upper" using below_ceiling [OF n(1), of j "upper - lower"] by simp
    moreover have "take m (drop k [lower..<upper]) = [lower + k..<min upper (lower + k + m)]" for m k
      by (rule nth_equalityI) (auto simp: min_def)
    then have "?chunk j = [lower + j * ?n..<min upper (lower + j * ?n + ?n)]" .
    ultimately show "?f (?chunk j) s = action (lower + j * ?n) (min upper (lower + j * ?n + p1_batch_size ps)) s"
      using batch_bounds_upt [OF _ assms(2), of "lower + j * ?n" upper] by simp
  qed
  finally show ?thesis by (simp add: batches_def assms(1) Let_def fold_results_map)
qed

lemma batches_nth:
  assumes "iter_bounds ps = (lower, upper)" "2 \<le> p1_batch_size ps" "j < length (batches ps)"
  shows "fst (batches ps ! j) = lower + j * (p1_batch_size ps - 1)"
    "snd (batches ps ! j) = min upper (fst (batches ps ! j) + p1_batch_size ps)" "fst (batches ps ! j) < snd (batches ps ! j)"
proof -
  let ?n = "p1_batch_size ps - 1"
  have "j < (upper - lower + ?n - 1) div ?n" using assms(1,3) by (simp add: batches_def Let_def)
  then have "j * ?n < upper - lower" using assms(2) by (intro below_ceiling) auto
  with assms show "fst (batches ps ! j) = lower + j * ?n"
    "snd (batches ps ! j) = min upper (fst (batches ps ! j) + p1_batch_size ps)" "fst (batches ps ! j) < snd (batches ps ! j)"
    by (auto simp: batches_def Let_def)
qed

lemma batches_reach:
  assumes "iter_bounds ps = (lower, upper)" "2 \<le> p1_batch_size ps"
  shows "upper - lower \<le> length (batches ps) * (p1_batch_size ps - 1)"
proof (cases "upper - lower = 0")
  case False
  with assms ceiling_division(2) [of "p1_batch_size ps - 1" "upper - lower"] show ?thesis by (simp add: batches_def Let_def)
qed simp

lemma iter_chunk_invariant:
  assumes bounds: "iter_bounds ps = (lower, upper)" "lower \<le> upper" and batch: "2 \<le> p1_batch_size ps"
    and init: "P lower s" and mono: "\<And>a b s. P b s \<Longrightarrow> a \<le> b \<Longrightarrow> P a s"
    and step: "\<And>a b s. \<lbrakk>lower \<le> a; a < b; b = min upper (a + p1_batch_size ps); P a s\<rbrakk> \<Longrightarrow>
      \<exists>s'. action a b s = Inr s' \<and> P b s'"
  shows "\<exists>s'. iter_chunk ps action s = Inr s' \<and> P upper s'"
proof -
  let ?n = "p1_batch_size ps - 1"
  note nth = batches_nth [OF bounds(1) batch]
  have "\<exists>s'. fold_results (\<lambda>(a, b). action a b) (batches ps) s = Inr s' \<and> P (min upper (lower + length (batches ps) * ?n)) s'"
  proof (rule fold_results_invariant [where P = "\<lambda>j. P (min upper (lower + j * ?n))"])
    show "P (min upper (lower + 0 * ?n)) s" using init bounds(2) by (simp add: min_def)
    fix j s' assume j: "j < length (batches ps)" and p: "P (min upper (lower + j * ?n)) s'"
    obtain a b where ab: "batches ps ! j = (a, b)" by (cases "batches ps ! j")
    have a: "a = lower + j * ?n" "b = min upper (a + p1_batch_size ps)" "a < b" using nth [OF j] ab by simp_all
    with p obtain s2 where s2: "action a b s' = Inr s2" "P b s2" using step [of a b s'] by auto
    have "min upper (lower + Suc j * ?n) \<le> b" using a batch by auto
    with s2 show "\<exists>s''. (\<lambda>(a, b). action a b) (batches ps ! j) s' = Inr s'' \<and> P (min upper (lower + Suc j * ?n)) s''"
      using mono by (auto simp: ab)
  qed simp
  moreover have "min upper (lower + length (batches ps) * ?n) = upper"
    using batches_reach [OF bounds(1) batch] by (intro min_absorb1) linarith
  ultimately show ?thesis by (simp add: iter_chunk_batches [OF bounds(1) batch])
qed

lemma fold_results_all: "fold_results f xs s = Inr s' \<Longrightarrow> x \<in> set xs \<Longrightarrow> \<exists>s1 s2. f x s1 = Inr s2"
  by (induction xs arbitrary: s) (auto simp: result_bind_ok_iff)

text \<open>Every element is in a batch.\<close>

lemma iter_chunk_covers:
  assumes bounds: "iter_bounds ps = (lower, upper)" and batch: "2 \<le> p1_batch_size ps"
    and run: "iter_chunk ps action s = Inr s'" and i: "lower \<le> i" "i < upper"
  obtains a b s1 s2 where "action a b s1 = Inr s2" "lower \<le> a" "a \<le> i" "i < b" "b = min upper (a + p1_batch_size ps)"
proof -
  let ?n = "p1_batch_size ps - 1" and ?j = "(i - lower) div (p1_batch_size ps - 1)"
  have "i - lower < length (batches ps) * ?n" using batches_reach [OF bounds batch] i by linarith
  then have j: "?j < length (batches ps)" by (rule less_mult_imp_div_less)
  obtain a b where ab: "batches ps ! ?j = (a, b)" by (cases "batches ps ! ?j")
  have b: "a = lower + ?j * ?n" "b = min upper (a + p1_batch_size ps)" using batches_nth [OF bounds batch j] ab by simp_all
  have "?j * ?n \<le> i - lower" by (rule div_times_less_eq_dividend)
  moreover have "i - lower < ?n + ?j * ?n" using batch by (intro dividend_less_div_times) simp
  ultimately have "lower + ?j * ?n \<le> i" "i < lower + ?j * ?n + ?n" using i by linarith+
  then have a: "a \<le> i" "i < a + ?n" unfolding b(1) .
  then have "i < a + p1_batch_size ps" by linarith
  with i(2) have "i < b" unfolding b(2) by (rule min_less_iff_conj [THEN iffD2, OF conjI])
  moreover have "\<exists>s1 s2. action a b s1 = Inr s2"
    using fold_results_all [of "\<lambda>(a, b). action a b" "batches ps" s s' "(a, b)"] run nth_mem [OF j] ab
    by (simp add: iter_chunk_batches [OF bounds batch])
  ultimately show thesis using that a(1) b by (metis le_add1)
qed

section \<open>What a batch writes\<close>

lemma cell_of_slice:
  assumes "i < m"
  shows "cell n (take (m * n) (drop (s * n) buf)) i = cell n buf (s + i)"
proof -
  have "Suc i * n \<le> m * n" using assms by (intro mult_right_mono) simp_all
  then show ?thesis by (simp add: cell_def drop_take min_def add.commute add_mult_distrib)
qed

lemma cell_patched:
  assumes "length buf = k * n" "s \<le> e" "e \<le> k" "length w = (e - s) * n" "i < k"
  shows "cell n (take (s * n) buf @ w @ drop (e * n) buf) i = (if s \<le> i \<and> i < e then cell n w (i - s) else cell n buf i)"
proof -
  have sk: "s * n \<le> k * n" and ek: "e * n \<le> k * n" using assms(2,3) by (auto intro: mult_right_mono)
  have ws: "s * n + length w = e * n" using assms(2,4) by (simp add: diff_mult_distrib)
  consider "i < s" | "s \<le> i" "i < e" | "e \<le> i" using assms(2) by linarith
  then show ?thesis
  proof cases
    case 1
    then have "n + i * n \<le> s * n" using mult_right_mono [of "Suc i" s n] by simp
    then have "n \<le> s * n - i * n" "i * n \<le> s * n" "n \<le> k * n - i * n" using sk by linarith+
    with 1 sk assms(1) show ?thesis by (simp add: cell_def drop_take)
  next
    case 2
    then have "i * n = s * n + (i - s) * n" by (simp add: add_mult_distrib [symmetric])
    moreover have "n + (i - s) * n \<le> (e - s) * n" using 2 mult_right_mono [of "Suc (i - s)" "e - s" n] by simp
    ultimately show ?thesis using 2 sk assms(1,4) by (simp add: cell_def)
  next
    case 3
    then have "i * n = e * n + (i - e) * n" by (simp add: add_mult_distrib [symmetric])
    with 3 sk ws assms(1) show ?thesis by (simp add: cell_def add.commute)
  qed
qed

definition scaled :: "'f::field option \<Rightarrow> 'f \<Rightarrow> 'f" where
  "scaled coeff e = (case coeff of Some k \<Rightarrow> e * k | None \<Rightarrow> e)"

lemma apply_powers_cells:
  assumes laws: "curve_laws C" and bounds: "s \<le> e" "e \<le> k" "e - s \<le> length powers"
    and inp: "length inp = k * buffer_size C cin"
      "\<And>i. s \<le> i \<Longrightarrow> i < e \<Longrightarrow> read_element C cin check (cell (buffer_size C cin) inp i) = Inr (x i) \<and> in_subgroup C (x i)"
    and out: "length out = k * buffer_size C cout"
  obtains out' where "apply_powers C (out, cout) (inp, cin, check) (s, e) powers coeff = Inr out'"
    "length out' = length out"
    "\<And>i. i < k \<Longrightarrow> cell (buffer_size C cout) out' i =
       (if s \<le> i \<and> i < e then to_bytes C cout (point_mul C (x i) (scaled coeff (powers ! (i - s))))
        else cell (buffer_size C cout) out i)"
proof -
  let ?n = "buffer_size C cin" and ?m = "buffer_size C cout"
  let ?ps = "map (\<lambda>i. point_mul C (x (s + i)) (scaled coeff (powers ! i))) [0..<e - s]"
  have ek: "e * ?n \<le> k * ?n" "e * ?m \<le> k * ?m" using bounds(2) by (auto intro: mult_right_mono)
  have width: "e * ?n - s * ?n = (e - s) * ?n" "e * ?m - s * ?m = (e - s) * ?m" by (simp_all add: diff_mult_distrib)
  have se: "s * ?n \<le> e * ?n" "s * ?m \<le> e * ?m" using bounds(1) by (auto intro: mult_right_mono)
  have part: "(e - s) * ?n \<le> k * ?n - s * ?n" "(e - s) * ?m \<le> k * ?m - s * ?m"
    using width ek se by linarith+
  have "slice inp (s * ?n) (e * ?n) = Inr (take ((e - s) * ?n) (drop (s * ?n) inp))"
    using bounds(1) ek(1) inp(1) width by (simp add: slice_def)
  moreover have "read_batch C cin check (take ((e - s) * ?n) (drop (s * ?n) inp)) = Inr (map (\<lambda>i. x (s + i)) [0..<e - s])"
    using inp part
    by (subst read_batch_cells [where k = "e - s"]) (simp_all add: curve_lawsD(5) [OF laws] cell_of_slice)
  moreover have "slice powers 0 (usize_sub e s) = Inr (take (e - s) powers)"
    using bounds by (simp add: slice_def)
  moreover have "batch_exp C (map (\<lambda>i. x (s + i)) [0..<e - s]) (take (e - s) powers) coeff = Inr ?ps"
    using bounds(3) by (auto simp: batch_exp_def scaled_def split: option.splits intro!: nth_equalityI)
  moreover have "slice out (s * ?m) (e * ?m) = Inr (take ((e - s) * ?m) (drop (s * ?m) out))"
    using bounds(1) ek(2) out width by (simp add: slice_def)
  moreover obtain w where w: "write_batch C cout ?ps (take ((e - s) * ?m) (drop (s * ?m) out)) = Inr w"
    "length w = (e - s) * ?m" "\<forall>i<e - s. cell ?m w i = to_bytes C cout (?ps ! i)"
    by (rule write_batch_cells [OF laws, of ?ps "take ((e - s) * ?m) (drop (s * ?m) out)" "e - s" cout])
      (use inp(2) out part(2) laws in \<open>auto simp: curve_lawsD(2)\<close>)
  ultimately have "apply_powers C (out, cout) (inp, cin, check) (s, e) powers coeff =
      Inr (take (s * ?m) out @ w @ drop (e * ?m) out)" by (simp add: apply_powers_def Let_def)
  moreover have "length (take (s * ?m) out @ w @ drop (e * ?m) out) = length out"
    using w(2) ek(2) width(2) se(2) out by (simp only: length_append length_take length_drop)
  moreover have "cell ?m (take (s * ?m) out @ w @ drop (e * ?m) out) i =
       (if s \<le> i \<and> i < e then to_bytes C cout (point_mul C (x i) (scaled coeff (powers ! (i - s))))
        else cell ?m out i)" if "i < k" for i
    using cell_patched [OF out bounds(1,2) w(2) that] w(3) diff_less_mono [of i e s] by simp
  ultimately show ?thesis using that by blast
qed

end
