(* ===== verification/Example_Engine.thy ===== *)
theory Example_Engine
  imports Phase1_Buffers
begin

text \<open>
  A small instance of the interfaces of the curve crate: the field of three elements as its own two
  groups, with multiplication as the pairing. It shows that the laws which the properties rely on can
  hold together.
\<close>

datatype GF3 = Zero3 | One3 | Two3

lemma all_GF3: "(\<forall>x. P x) \<longleftrightarrow> P Zero3 \<and> P One3 \<and> P Two3"
  by (auto intro: GF3.induct)

instantiation GF3 :: field
begin

definition zero_GF3 :: GF3 where "0 = Zero3"

definition one_GF3 :: GF3 where "1 = One3"

fun plus_GF3 :: "GF3 \<Rightarrow> GF3 \<Rightarrow> GF3" where
  "Zero3 + b = b"
| "a + Zero3 = a"
| "One3 + One3 = Two3"
| "One3 + Two3 = Zero3"
| "Two3 + One3 = Zero3"
| "Two3 + Two3 = One3"

fun uminus_GF3 :: "GF3 \<Rightarrow> GF3" where
  "- Zero3 = Zero3"
| "- One3 = Two3"
| "- Two3 = One3"

definition minus_GF3 :: "GF3 \<Rightarrow> GF3 \<Rightarrow> GF3" where "a - b = a + - (b :: GF3)"

fun times_GF3 :: "GF3 \<Rightarrow> GF3 \<Rightarrow> GF3" where
  "Zero3 * b = Zero3"
| "One3 * b = b"
| "Two3 * b = - b"

definition inverse_GF3 :: "GF3 \<Rightarrow> GF3" where "inverse a = (a :: GF3)"

definition divide_GF3 :: "GF3 \<Rightarrow> GF3 \<Rightarrow> GF3" where "a div b = a * (b :: GF3)"

lemma GF3_sums:
  "\<forall>x y z :: GF3. x + y + z = x + (y + z)" "\<forall>x y :: GF3. x + y = y + x" "\<forall>x :: GF3. 0 + x = x \<and> - x + x = 0"
  by (simp_all add: all_GF3 zero_GF3_def)

lemma GF3_products:
  "\<forall>x y z :: GF3. x * y * z = x * (y * z)" "\<forall>x y :: GF3. x * y = y * x" "\<forall>x :: GF3. 1 * x = x"
  "\<forall>x y z :: GF3. (x + y) * z = x * z + y * z" "\<forall>x :: GF3. x \<noteq> 0 \<longrightarrow> inverse x * x = 1"
  by (simp_all add: all_GF3 one_GF3_def zero_GF3_def inverse_GF3_def)

instance
  by standard (insert GF3_sums GF3_products,
      simp_all add: minus_GF3_def divide_GF3_def inverse_GF3_def one_GF3_def zero_GF3_def)

end

fun encode_GF3 :: "GF3 \<Rightarrow> nat" where
  "encode_GF3 Zero3 = 0"
| "encode_GF3 One3 = 1"
| "encode_GF3 Two3 = 2"

definition decode_GF3 :: "nat \<Rightarrow> GF3 option" where
  "decode_GF3 n = (if n = 0 then Some Zero3 else if n = 1 then Some One3 else if n = 2 then Some Two3 else None)"

definition example_curve :: "(GF3, GF3) AffineCurve" where
  "example_curve =
     \<lparr>prime_subgroup_generator = 1, point_mul = (*), mul_modulus = (\<lambda>_. 0),
      to_bytes = (\<lambda>c p. if c = Yes then [encode_GF3 p] else [encode_GF3 p, 0]),
      of_bytes = (\<lambda>c bs. case bs of [] \<Rightarrow> None | b # _ \<Rightarrow> decode_GF3 b),
      serialized_size = 1, uncompressed_size = 2\<rparr>"

definition example_engine :: "(GF3, GF3, GF3, GF3) PairingEngine" where
  "example_engine = \<lparr>g1_affine = example_curve, g2_affine = example_curve, pairing = (*)\<rparr>"

lemma decode_encode_GF3 [simp]: "decode_GF3 (encode_GF3 p) = Some p"
  by (cases p) (simp_all add: decode_GF3_def)

lemma example_curve_laws: "curve_laws example_curve"
  by (auto simp: curve_laws_def in_subgroup_def example_curve_def buffer_size_def mult.assoc)

end
