(* ===== verification/Phase1_Accumulator.thy ===== *)
theory Phase1_Accumulator
  imports Example_Engine
begin

text \<open>
  The accumulator: its elements (\<^verbatim>\<open>phase1/src/lib.rs\<close>), how they are written to and read from a
  buffer (\<^verbatim>\<open>phase1/src/helpers/accumulator.rs\<close>, \<^verbatim>\<open>phase1/src/serialization.rs\<close>), and the initial one
  (\<^verbatim>\<open>phase1/src/initialization.rs\<close>).
\<close>

record ('g, 'h) AccumulatorElements =
  tau_powers_g1 :: "'g list"
  tau_powers_g2 :: "'h list"
  alpha_tau_powers_g1 :: "'g list"
  beta_tau_powers_g1 :: "'g list"
  acc_beta_g2 :: 'h

record ('g, 'h) Phase1 = "('g, 'h) AccumulatorElements" +
  acc_hash :: bytes
  acc_parameters :: Phase1Parameters

text \<open>\<^verbatim>\<open>.expect(..)\<close>, also in a spawned thread\<close>

definition expect_ok :: "'a or_error \<Rightarrow> 'a or_error" where
  "expect_ok r = (case r of Inl _ \<Rightarrow> Inl Panic | Inr a \<Rightarrow> Inr a)"

lemma expect_ok_simps [simp]: "expect_ok (Inr a) = Inr a" "expect_ok (Inl e) = Inl Panic"
  by (simp_all add: expect_ok_def)

lemma expect_ok_iff [simp]: "expect_ok r = Inr a \<longleftrightarrow> r = Inr a"
  by (auto simp: expect_ok_def split: sum.splits)

section \<open>Serialization\<close>

definition serialize ::
  "('f, 'g, 'h, 't) PairingEngine \<Rightarrow> ('g, 'h, 'z) AccumulatorElements_scheme \<Rightarrow> bytes \<Rightarrow> UseCompression \<Rightarrow>
   Phase1Parameters \<Rightarrow> bytes or_error" where
  "serialize E elements output compressed ps =
     result_bind (split_mut E output ps compressed) (\<lambda>s.
     result_bind (write_batch (g1_affine E) compressed (tau_powers_g1 elements) (tau_g1 s)) (\<lambda>tau1.
     result_bind (write_batch (g2_affine E) compressed (tau_powers_g2 elements) (tau_g2 s)) (\<lambda>tau2.
     result_bind (write_batch (g1_affine E) compressed (alpha_tau_powers_g1 elements) (alpha_g1 s)) (\<lambda>alpha1.
     result_bind (write_batch (g1_affine E) compressed (beta_tau_powers_g1 elements) (beta_g1 s)) (\<lambda>beta1.
     result_bind
       (case p1_proving_system ps of
          Groth16 \<Rightarrow> write_element (g2_affine E) compressed (acc_beta_g2 elements) (beta_g2 s)
        | Marlin \<Rightarrow> Inr (beta_g2 s)) (\<lambda>beta2.
       Inr (join (s\<lparr>tau_g1 := tau1, tau_g2 := tau2, alpha_g1 := alpha1, beta_g1 := beta1, beta_g2 := beta2\<rparr>))))))))"

definition deserialize ::
  "('f, 'g::ab_group_add, 'h::ab_group_add, 't) PairingEngine \<Rightarrow> bytes \<Rightarrow> UseCompression \<Rightarrow> CheckForCorrectness \<Rightarrow>
   Phase1Parameters \<Rightarrow> ('g, 'h) AccumulatorElements or_error" where
  "deserialize E input compressed check ps =
     result_bind (split E input ps compressed) (\<lambda>s.
     result_bind (read_batch (g1_affine E) compressed check (tau_g1 s)) (\<lambda>tau1.
     result_bind (read_batch (g2_affine E) compressed check (tau_g2 s)) (\<lambda>tau2.
     result_bind (read_batch (g1_affine E) compressed check (alpha_g1 s)) (\<lambda>alpha1.
     result_bind (read_batch (g1_affine E) compressed check (beta_g1 s)) (\<lambda>beta1.
     result_bind
       (case p1_proving_system ps of
          Groth16 \<Rightarrow> read_element (g2_affine E) compressed check (beta_g2 s)
        | Marlin \<Rightarrow> Inr (prime_subgroup_generator (g2_affine E))) (\<lambda>beta2.
       Inr \<lparr>tau_powers_g1 = tau1, tau_powers_g2 = tau2, alpha_tau_powers_g1 = alpha1,
            beta_tau_powers_g1 = beta1, acc_beta_g2 = beta2\<rparr>))))))"

text \<open>\<^verbatim>\<open>Phase1::deserialize\<close>; the hash of the empty string is that of a third-party crate.\<close>

definition phase1_deserialize ::
  "bytes \<Rightarrow> ('f, 'g::ab_group_add, 'h::ab_group_add, 't) PairingEngine \<Rightarrow> bytes \<Rightarrow> UseCompression \<Rightarrow>
   CheckForCorrectness \<Rightarrow> Phase1Parameters \<Rightarrow> ('g, 'h) Phase1 or_error" where
  "phase1_deserialize blank_hash E input compression check ps =
     result_bind (deserialize E input compression check ps) (\<lambda>elements.
       Inr (AccumulatorElements.extend elements (Phase1.fields blank_hash ps)))"

definition decompress_buffer ::
  "('f, 'g::ab_group_add) AffineCurve \<Rightarrow> bytes \<Rightarrow> bytes \<Rightarrow> CheckForCorrectness \<Rightarrow> usize \<times> usize \<Rightarrow> bytes or_error" where
  "decompress_buffer C out inp check bounds =
     (let (start, end') = bounds; in_size = buffer_size C Yes; out_size = buffer_size C No in
      result_bind (slice inp (start * in_size) (end' * in_size)) (\<lambda>content.
      result_bind (read_batch C Yes check content) (\<lambda>elements.
      result_bind (slice out (start * out_size) (end' * out_size)) (\<lambda>target.
      result_bind (write_batch C No elements target) (\<lambda>written.
        Inr (take (start * out_size) out @ written @ drop (end' * out_size) out))))))"

definition decompress ::
  "('f, 'g::ab_group_add, 'h::ab_group_add, 't) PairingEngine \<Rightarrow> bytes \<Rightarrow> bytes \<Rightarrow> CheckForCorrectness \<Rightarrow>
   Phase1Parameters \<Rightarrow> bytes or_error" where
  "decompress E input output check ps =
     (let C1 = g1_affine E; C2 = g2_affine E in
      result_bind (split E input ps Yes) (\<lambda>i.
      result_bind (split_mut E output ps No) (\<lambda>s.
      case p1_proving_system ps of
        Groth16 \<Rightarrow>
          result_bind (read_element C2 Yes check (beta_g2 i)) (\<lambda>beta_g2_el.
          result_bind (write_element C2 No beta_g2_el (beta_g2 s)) (\<lambda>beta2.
          result_bind (expect_ok (decompress_buffer C1 (tau_g1 s) (tau_g1 i) check (0, g1_chunk_size ps))) (\<lambda>tau1.
          if 0 < other_chunk_size ps then
            result_bind (expect_ok (decompress_buffer C2 (tau_g2 s) (tau_g2 i) check (0, other_chunk_size ps))) (\<lambda>tau2.
            result_bind (expect_ok (decompress_buffer C1 (alpha_g1 s) (alpha_g1 i) check (0, other_chunk_size ps))) (\<lambda>alpha1.
            result_bind (expect_ok (decompress_buffer C1 (beta_g1 s) (beta_g1 i) check (0, other_chunk_size ps))) (\<lambda>beta1.
              Inr (join (s\<lparr>tau_g1 := tau1, tau_g2 := tau2, alpha_g1 := alpha1, beta_g1 := beta1, beta_g2 := beta2\<rparr>)))))
          else Inr (join (s\<lparr>tau_g1 := tau1, beta_g2 := beta2\<rparr>)))))
      | Marlin \<Rightarrow>
          result_bind
            (if chunk_index ps = 0 \<or> p1_contribution_mode ps = ModeFull then
               result_bind (decompress_buffer C1 (alpha_g1 s) (alpha_g1 i) check (0, 3 + 3 * total_size_in_log2 ps)) (\<lambda>alpha1.
               result_bind (decompress_buffer C2 (tau_g2 s) (tau_g2 i) check (0, total_size_in_log2 ps + 2)) (\<lambda>tau2.
                 Inr (s\<lparr>alpha_g1 := alpha1, tau_g2 := tau2\<rparr>)))
             else Inr s) (\<lambda>s.
          result_bind (expect_ok (decompress_buffer C1 (tau_g1 s) (tau_g1 i) check (0, g1_chunk_size ps))) (\<lambda>tau1.
            Inr (join (s\<lparr>tau_g1 := tau1\<rparr>)))))))"

section \<open>Initialization\<close>

definition initialization ::
  "('f, 'g, 'h, 't) PairingEngine \<Rightarrow> bytes \<Rightarrow> UseCompression \<Rightarrow> Phase1Parameters \<Rightarrow> bytes or_error" where
  "initialization E output compressed_output ps =
     result_bind (split_mut E output ps compressed_output) (\<lambda>s.
     (let C1 = g1_affine E; C2 = g2_affine E;
          one_g1 = prime_subgroup_generator C1; one_g2 = prime_subgroup_generator C2 in
      result_bind (expect_ok (init_element C1 compressed_output one_g1 (tau_g1 s))) (\<lambda>tau1.
      result_bind (expect_ok (init_element C2 compressed_output one_g2 (tau_g2 s))) (\<lambda>tau2.
      result_bind (expect_ok (init_element C1 compressed_output one_g1 (alpha_g1 s))) (\<lambda>alpha1.
      result_bind (expect_ok (init_element C1 compressed_output one_g1 (beta_g1 s))) (\<lambda>beta1.
      result_bind (expect_ok (init_element C2 compressed_output one_g2 (beta_g2 s))) (\<lambda>beta2.
        Inr (join (s\<lparr>tau_g1 := tau1, tau_g2 := tau2, alpha_g1 := alpha1, beta_g1 := beta1, beta_g2 := beta2\<rparr>)))))))))"

section \<open>Encoded elements\<close>

definition accepted :: "CheckForCorrectness \<Rightarrow> 'g::ab_group_add \<Rightarrow> bool" where
  "accepted check p \<longleftrightarrow> \<not> ((check = CheckFull \<or> check = OnlyNonZero) \<and> p = 0)"

definition valid_points :: "('f, 'g::ab_group_add) AffineCurve \<Rightarrow> CheckForCorrectness \<Rightarrow> 'g list \<Rightarrow> bool" where
  "valid_points C check xs \<longleftrightarrow> (\<forall>p\<in>set xs. in_subgroup C p \<and> accepted check p)"

definition encode :: "('f, 'g) AffineCurve \<Rightarrow> UseCompression \<Rightarrow> 'g list \<Rightarrow> bytes" where
  "encode C c xs = concat (map (to_bytes C c) xs)"

lemma accepted_unchecked [simp]: "accepted CheckNo p"
  by (simp add: accepted_def)

lemma valid_points_unchecked: "valid_points C check xs \<Longrightarrow> valid_points C CheckNo xs"
  by (simp add: valid_points_def)

lemma read_element_accepted:
  "read_element C c check buf = Inr p \<longleftrightarrow> read_element C c CheckNo buf = Inr p \<and> accepted check p"
  by (auto simp: read_element_def accepted_def split: if_splits option.splits)

lemma encode_simps [simp]: "encode C c [] = []" "encode C c (x # xs) = to_bytes C c x @ encode C c xs"
  by (simp_all add: encode_def)

lemma length_encode:
  "curve_laws C \<Longrightarrow> valid_points C check xs \<Longrightarrow> length (encode C c xs) = length xs * buffer_size C c"
  by (induction xs) (simp_all add: valid_points_def curve_lawsD)

lemma cell_encode:
  assumes "curve_laws C" "valid_points C check xs" "i < length xs"
  shows "cell (buffer_size C c) (encode C c xs) i = to_bytes C c (xs ! i)"
proof -
  have "cell (buffer_size C c) (concat (map (to_bytes C c) xs)) i = map (to_bytes C c) xs ! i"
    using assms(2,3) by (intro cell_concat) (auto simp: valid_points_def curve_lawsD [OF assms(1)])
  with assms(3) show ?thesis by (simp add: encode_def)
qed

lemma encodedI:
  assumes "curve_laws C" "length buf = length xs * buffer_size C c" "valid_points C check xs"
    and "\<And>i. i < length xs \<Longrightarrow> cell (buffer_size C c) buf i = to_bytes C c (xs ! i)"
  shows "buf = encode C c xs"
  using cells_eqI [OF assms(2) length_encode [OF assms(1,3)]] assms(4) cell_encode [OF assms(1,3)] by simp

lemma read_element_encoded:
  assumes "curve_laws C" "valid_points C check [p]"
  shows "read_element C c check (to_bytes C c p) = Inr p"
  using assms read_element_written [OF assms(1), of p c "[]"]
  by (auto simp: read_element_accepted [of _ _ check] valid_points_def)

lemma read_encoded:
  assumes "curve_laws C" "valid_points C check xs"
  shows "read_batch C c check (encode C c xs) = Inr xs"
proof -
  have "read_element C c check (to_bytes C c p) = Inr p" if "p \<in> set xs" for p
    using that assms(2) read_element_encoded [OF assms(1)] by (auto simp: valid_points_def)
  then show ?thesis
    by (subst read_batch_cells [OF curve_lawsD(5) [OF assms(1)] length_encode [OF assms]])
      (simp add: cell_encode [OF assms])
qed

lemma write_encoded:
  assumes "curve_laws C" "valid_points C check xs" "length buf = length xs * buffer_size C c"
  shows "write_batch C c xs buf = Inr (encode C c xs)"
proof -
  obtain buf' where buf': "write_batch C c xs buf = Inr buf'" "length buf' = length buf"
    "\<forall>i<length xs. cell (buffer_size C c) buf' i = to_bytes C c (xs ! i)"
    by (rule write_batch_cells [OF assms(1) _ assms(3), of xs]) (use assms(2) in \<open>auto simp: valid_points_def\<close>)
  with assms show ?thesis using encodedI [of C buf' xs c check] by simp
qed

lemma init_encoded:
  assumes "curve_laws C" "in_subgroup C p" "length buf = k * buffer_size C c"
  shows "init_element C c p buf = Inr (encode C c (replicate k p))"
  by (simp add: init_element_cells [OF assms] encode_def)

section \<open>Stored accumulators\<close>

definition elements_shape ::
  "('f, 'g, 'h, 't) PairingEngine \<Rightarrow> Phase1Parameters \<Rightarrow> ('g, 'h, 'z) AccumulatorElements_scheme \<Rightarrow> bool" where
  "elements_shape E ps acc \<longleftrightarrow>
     (let (n2, na, nb, nb2) = other_elements ps in
      length (tau_powers_g1 acc) = g1_chunk_size ps \<and> length (tau_powers_g2 acc) = n2 \<and>
      length (alpha_tau_powers_g1 acc) = na \<and> length (beta_tau_powers_g1 acc) = nb \<and>
      (nb2 = 0 \<longrightarrow> acc_beta_g2 acc = prime_subgroup_generator (g2_affine E)))"

definition elements_valid ::
  "('f, 'g::ab_group_add, 'h::ab_group_add, 't) PairingEngine \<Rightarrow> CheckForCorrectness \<Rightarrow>
   ('g, 'h, 'z) AccumulatorElements_scheme \<Rightarrow> bool" where
  "elements_valid E check acc \<longleftrightarrow>
     valid_points (g1_affine E) check (tau_powers_g1 acc) \<and> valid_points (g2_affine E) check (tau_powers_g2 acc) \<and>
     valid_points (g1_affine E) check (alpha_tau_powers_g1 acc) \<and>
     valid_points (g1_affine E) check (beta_tau_powers_g1 acc) \<and> valid_points (g2_affine E) check [acc_beta_g2 acc]"

definition beta_elements :: "Phase1Parameters \<Rightarrow> ('g, 'h, 'z) AccumulatorElements_scheme \<Rightarrow> 'h list" where
  "beta_elements ps acc = (case p1_proving_system ps of Groth16 \<Rightarrow> [acc_beta_g2 acc] | Marlin \<Rightarrow> [])"

definition encoded_parts ::
  "('f, 'g, 'h, 't) PairingEngine \<Rightarrow> Phase1Parameters \<Rightarrow> UseCompression \<Rightarrow> ('g, 'h, 'z) AccumulatorElements_scheme \<Rightarrow>
   bytes SplitBuf \<Rightarrow> bytes SplitBuf" where
  "encoded_parts E ps c acc s =
     s\<lparr>tau_g1 := encode (g1_affine E) c (tau_powers_g1 acc), tau_g2 := encode (g2_affine E) c (tau_powers_g2 acc),
       alpha_g1 := encode (g1_affine E) c (alpha_tau_powers_g1 acc),
       beta_g1 := encode (g1_affine E) c (beta_tau_powers_g1 acc),
       beta_g2 := encode (g2_affine E) c (beta_elements ps acc)\<rparr>"

definition engine_laws :: "('f::field, 'g::ab_group_add, 'h::ab_group_add, 't) PairingEngine \<Rightarrow> bool" where
  "engine_laws E \<longleftrightarrow> curve_laws (g1_affine E) \<and> curve_laws (g2_affine E)"

lemma length_beta_elements: "snd (snd (snd (other_elements ps))) = length (beta_elements ps acc)"
  by (auto simp: other_elements_def beta_elements_def split: ProvingSystem.splits)

lemma valid_beta_elements:
  "valid_points C check [acc_beta_g2 acc] \<Longrightarrow> valid_points C check (beta_elements ps acc)"
  by (auto simp: beta_elements_def valid_points_def split: ProvingSystem.splits)

lemma encoded_parts_shape:
  assumes "engine_laws E" "elements_shape E ps acc" "elements_valid E check acc" "length (sb_hash s) = hash_size ps"
  shows "split_shape E ps c (encoded_parts E ps c acc s)"
proof -
  have laws: "curve_laws (g1_affine E)" "curve_laws (g2_affine E)" using assms(1) by (simp_all add: engine_laws_def)
  have "length (encode (g2_affine E) c (beta_elements ps acc)) = length (beta_elements ps acc) * buffer_size (g2_affine E) c"
    using assms(3) by (intro length_encode [OF laws(2), of check] valid_beta_elements) (simp add: elements_valid_def)
  then show ?thesis
    using assms(2-4) length_beta_elements [of ps acc]
    by (auto simp: split_shape_def elements_shape_def elements_valid_def encoded_parts_def Let_def
        length_encode [OF laws(1)] length_encode [OF laws(2)] split: prod.splits)
qed

text \<open>What is stored is read back.\<close>

lemma deserialize_stored:
  assumes laws: "engine_laws E" and acc: "elements_shape E ps acc" "elements_valid E check acc"
    and s: "length (sb_hash s) = hash_size ps" and nonempty: "0 < g1_chunk_size ps"
  shows "deserialize E (join (encoded_parts E ps c acc s)) c check ps = Inr (AccumulatorElements.truncate acc)"
proof -
  let ?p = "encoded_parts E ps c acc s"
  have l: "curve_laws (g1_affine E)" "curve_laws (g2_affine E)" using laws by (simp_all add: engine_laws_def)
  have shape: "split_shape E ps c ?p" by (rule encoded_parts_shape [OF laws acc s])
  then have "0 < length (tau_g1 ?p)" using nonempty curve_lawsD(5) [OF l(1)] by (simp add: split_shape_def Let_def split: prod.splits)
  then have "split E (join ?p) ps c = Inr ?p" using shape by (simp add: split_iff)
  moreover have "(case p1_proving_system ps of
        Groth16 \<Rightarrow> read_element (g2_affine E) c check (encode (g2_affine E) c (beta_elements ps acc))
      | Marlin \<Rightarrow> Inr (prime_subgroup_generator (g2_affine E))) = Inr (acc_beta_g2 acc)"
    using acc read_element_encoded [OF l(2), of check "acc_beta_g2 acc" c]
    by (auto simp: elements_valid_def elements_shape_def other_elements_def encoded_parts_def beta_elements_def
        split: ProvingSystem.splits)
  ultimately show ?thesis
    using acc by (simp add: deserialize_def encoded_parts_def elements_valid_def read_encoded [OF l(1)]
        read_encoded [OF l(2)] AccumulatorElements.truncate_def cong: ProvingSystem.case_cong)
qed

lemma engine_lawsD:
  assumes "engine_laws E"
  shows "curve_laws (g1_affine E)" "curve_laws (g2_affine E)"
  using assms by (simp_all add: engine_laws_def)

lemma length_join_updated:
  assumes "split_shape E ps c s" "split_shape E ps c s'" "sb_rest s' = sb_rest s"
  shows "length (join s') = length (join s)"
  using assms by (auto simp: split_shape_def join_def Let_def split: prod.splits)

lemma encoded_parts_rest [simp]:
  "sb_rest (encoded_parts E ps c acc s) = sb_rest s" "sb_hash (encoded_parts E ps c acc s) = sb_hash s"
  by (simp_all add: encoded_parts_def)

lemma serialize_stored:
  assumes laws: "engine_laws E" and acc: "elements_shape E ps acc" "elements_valid E check acc"
    and s: "split_mut E output ps c = Inr s"
  shows "serialize E acc output c ps = Inr (join (encoded_parts E ps c acc s))"
proof -
  note l = engine_lawsD [OF laws]
  obtain n2 na nb nb2 where n: "other_elements ps = (n2, na, nb, nb2)" by (cases "other_elements ps")
  have shape: "split_shape E ps c s" using s by (simp add: split_mut_iff)
  have w1: "write_batch (g1_affine E) c (tau_powers_g1 acc) (tau_g1 s) = Inr (encode (g1_affine E) c (tau_powers_g1 acc))"
    and w2: "write_batch (g2_affine E) c (tau_powers_g2 acc) (tau_g2 s) = Inr (encode (g2_affine E) c (tau_powers_g2 acc))"
    and w3: "write_batch (g1_affine E) c (alpha_tau_powers_g1 acc) (alpha_g1 s) =
      Inr (encode (g1_affine E) c (alpha_tau_powers_g1 acc))"
    and w4: "write_batch (g1_affine E) c (beta_tau_powers_g1 acc) (beta_g1 s) =
      Inr (encode (g1_affine E) c (beta_tau_powers_g1 acc))"
    using acc shape by (auto simp: elements_shape_def elements_valid_def split_shape_def n Let_def
        intro!: write_encoded [OF l(1), of check] write_encoded [OF l(2), of check])
  have "(case p1_proving_system ps of
        Groth16 \<Rightarrow> write_element (g2_affine E) c (acc_beta_g2 acc) (beta_g2 s)
      | Marlin \<Rightarrow> Inr (beta_g2 s)) = Inr (encode (g2_affine E) c (beta_elements ps acc))"
    using acc(2) shape
    by (auto simp: split_shape_def other_elements_def beta_elements_def write_element_def Let_def elements_valid_def
        valid_points_def curve_lawsD(6) [OF l(2)] split: ProvingSystem.splits)
  then show ?thesis
    by (simp add: serialize_def s w1 w2 w3 w4 encoded_parts_def cong: ProvingSystem.case_cong)
qed

lemma stored_read_back:
  assumes laws: "engine_laws E" and acc: "elements_shape E ps acc" "elements_valid E check acc"
    and s: "split_mut E output ps c = Inr s" and nonempty: "0 < g1_chunk_size ps"
  shows "length (join (encoded_parts E ps c acc s)) = length output"
    "deserialize E (join (encoded_parts E ps c acc s)) c check ps = Inr (AccumulatorElements.truncate acc)"
proof -
  have shape: "output = join s" "split_shape E ps c s" using s by (simp_all add: split_mut_iff)
  then have h: "length (sb_hash s) = hash_size ps" by (simp add: split_shape_def Let_def split: prod.splits)
  show "length (join (encoded_parts E ps c acc s)) = length output"
    unfolding shape(1) using length_join_updated [OF shape(2) encoded_parts_shape [OF laws acc h]] by simp
  show "deserialize E (join (encoded_parts E ps c acc s)) c check ps = Inr (AccumulatorElements.truncate acc)"
    by (rule deserialize_stored [OF laws acc h nonempty])
qed

text \<open>
  C34. An accumulator that is written to a buffer of at least its size is read back: writing succeeds,
  keeps the size of the buffer, and reading gives the same elements, in either compression and with every
  check that these elements satisfy.\<close>

theorem serialize_deserialize:
  assumes "engine_laws E" "ps = parameters_new mode index sz (curve_parameters_new E) system log2 batch"
    and "elements_shape E ps acc" "elements_valid E check acc" "0 < g1_chunk_size ps"
    and "get_length ps c \<le> length output"
  shows "case serialize E acc output c ps of
      Inl e \<Rightarrow> False
    | Inr output' \<Rightarrow> length output' = length output \<and>
        deserialize E output' c check ps = Inr (AccumulatorElements.truncate acc)"
proof -
  obtain s where s: "split_mut E output ps c = Inr s" using split_mut_exists [OF assms(2,6)] by blast
  show ?thesis
    using serialize_stored [OF assms(1,3,4) s] stored_read_back [OF assms(1,3,4) s assms(5)] by simp
qed

definition example_parameters :: "ProvingSystem \<Rightarrow> Phase1Parameters" where
  "example_parameters system = parameters_new ModeFull 0 0 (curve_parameters_new example_engine) system 1 2"

definition example_elements :: "(GF3, GF3) AccumulatorElements" where
  "example_elements =
     \<lparr>tau_powers_g1 = [One3, Two3, One3], tau_powers_g2 = [One3, Two3], alpha_tau_powers_g1 = [Two3, One3],
      beta_tau_powers_g1 = [One3, One3], acc_beta_g2 = Two3\<rparr>"

lemma example_engine_laws: "engine_laws example_engine"
  by (simp add: engine_laws_def example_engine_def example_curve_laws)

lemmas example_simps = example_parameters_def example_elements_def parameters_new_def chunk_sizes_def
  curve_parameters_new_def example_engine_def example_curve_def other_elements_def marlin_sizes_def get_length_def

lemma example_elements_ok:
  "elements_shape example_engine (example_parameters Groth16) example_elements"
  "elements_valid example_engine CheckFull example_elements"
  "0 < g1_chunk_size (example_parameters system)" "get_length (example_parameters system) c \<le> 100"
  "AccumulatorElements.truncate example_elements = example_elements"
  by (simp_all add: elements_shape_def elements_valid_def valid_points_def in_subgroup_def accepted_def zero_GF3_def
      AccumulatorElements.truncate_def example_simps Let_def split: ProvingSystem.splits UseCompression.splits)

theorem serialize_deserialize_witness:
  "case serialize example_engine example_elements (replicate 100 0) Yes (example_parameters Groth16) of
      Inl e \<Rightarrow> False
    | Inr output' \<Rightarrow> length output' = 100 \<and>
        deserialize example_engine output' Yes CheckFull (example_parameters Groth16) = Inr example_elements"
  using serialize_deserialize [OF example_engine_laws example_parameters_def example_elements_ok(1,2,3),
      of Yes "replicate 100 0"] example_elements_ok(4,5) by (simp split: sum.splits)

section \<open>The initial accumulator\<close>

definition initial_elements ::
  "('f, 'g, 'h, 't) PairingEngine \<Rightarrow> Phase1Parameters \<Rightarrow> ('g, 'h) AccumulatorElements" where
  "initial_elements E ps =
     (let (n2, na, nb, nb2) = other_elements ps;
          one_g1 = prime_subgroup_generator (g1_affine E); one_g2 = prime_subgroup_generator (g2_affine E)
      in \<lparr>tau_powers_g1 = replicate (g1_chunk_size ps) one_g1, tau_powers_g2 = replicate n2 one_g2,
          alpha_tau_powers_g1 = replicate na one_g1, beta_tau_powers_g1 = replicate nb one_g1, acc_beta_g2 = one_g2\<rparr>)"

lemma initial_elements_shape: "elements_shape E ps (initial_elements E ps)"
  by (auto simp: elements_shape_def initial_elements_def Let_def split: prod.splits)

lemma initial_elements_valid: "engine_laws E \<Longrightarrow> elements_valid E CheckNo (initial_elements E ps)"
  by (auto simp: elements_valid_def initial_elements_def valid_points_def Let_def engine_laws_def curve_lawsD
      split: prod.splits)

lemma initialization_stored:
  assumes laws: "engine_laws E" and s: "split_mut E output ps c = Inr s"
  shows "initialization E output c ps = Inr (join (encoded_parts E ps c (initial_elements E ps) s))"
proof -
  note l = engine_lawsD [OF laws]
  note init = init_encoded [OF l(1) curve_lawsD(1) [OF l(1)]] init_encoded [OF l(2) curve_lawsD(1) [OF l(2)]]
  obtain n2 na nb nb2 where n: "other_elements ps = (n2, na, nb, nb2)" by (cases "other_elements ps")
  have shape: "split_shape E ps c s" using s by (simp add: split_mut_iff)
  have "replicate nb2 (prime_subgroup_generator (g2_affine E)) = beta_elements ps (initial_elements E ps)"
    using n by (auto simp: other_elements_def beta_elements_def initial_elements_def Let_def split: ProvingSystem.splits)
  moreover have "length (tau_g1 s) = g1_chunk_size ps * buffer_size (g1_affine E) c"
    "length (tau_g2 s) = n2 * buffer_size (g2_affine E) c" "length (alpha_g1 s) = na * buffer_size (g1_affine E) c"
    "length (beta_g1 s) = nb * buffer_size (g1_affine E) c" "length (beta_g2 s) = nb2 * buffer_size (g2_affine E) c"
    using shape by (simp_all add: split_shape_def n Let_def)
  ultimately show ?thesis
    by (simp add: initialization_def s n Let_def init(1) [of "tau_g1 s" "g1_chunk_size ps"] init(2) [of "tau_g2 s" n2]
        init(1) [of "alpha_g1 s" na] init(1) [of "beta_g1 s" nb] init(2) [of "beta_g2 s" nb2] encoded_parts_def
        initial_elements_def)
qed

text \<open>
  Initialization succeeds on a buffer of at least the size of the accumulator and fills it with the
  accumulator in which every element is the generator of its group.\<close>

theorem initialization_initial:
  assumes "engine_laws E" "ps = parameters_new mode index sz (curve_parameters_new E) system log2 batch"
    and "0 < g1_chunk_size ps" "get_length ps c \<le> length output"
  shows "case initialization E output c ps of
      Inl e \<Rightarrow> False
    | Inr output' \<Rightarrow> length output' = length output \<and>
        deserialize E output' c CheckNo ps = Inr (initial_elements E ps)"
proof -
  obtain s where s: "split_mut E output ps c = Inr s" using split_mut_exists [OF assms(2,4)] by blast
  have "AccumulatorElements.truncate (initial_elements E ps) = initial_elements E ps"
    by (simp add: AccumulatorElements.truncate_def)
  then show ?thesis
    using initialization_stored [OF assms(1) s]
      stored_read_back [OF assms(1) initial_elements_shape initial_elements_valid [OF assms(1)] s assms(3)] by simp
qed

theorem initialization_initial_witness:
  "case initialization example_engine (replicate 100 0) No (example_parameters Marlin) of
      Inl e \<Rightarrow> False
    | Inr output' \<Rightarrow> length output' = 100 \<and>
        deserialize example_engine output' No CheckNo (example_parameters Marlin) =
          Inr (initial_elements example_engine (example_parameters Marlin))"
  using initialization_initial [OF example_engine_laws example_parameters_def example_elements_ok(3),
      of Marlin No "replicate 100 0"] example_elements_ok(4) by (simp split: sum.splits)

section \<open>Decompression\<close>

definition reads ::
  "('f, 'g::ab_group_add) AffineCurve \<Rightarrow> UseCompression \<Rightarrow> CheckForCorrectness \<Rightarrow> bytes \<Rightarrow> 'g list \<Rightarrow> bool" where
  "reads C c check buf xs \<longleftrightarrow>
     length buf = length xs * buffer_size C c \<and>
     (\<forall>i<length xs. read_element C c check (cell (buffer_size C c) buf i) = Inr (xs ! i))"

lemma read_batch_reads:
  assumes "0 < buffer_size C c" "length buf = k * buffer_size C c"
  shows "read_batch C c check buf = Inr xs \<longleftrightarrow> length xs = k \<and> reads C c check buf xs"
  using assms by (auto simp: read_batch_cells reads_def)

text \<open>What it means that a buffer holds the given elements.\<close>

definition holds_elements ::
  "('f, 'g::ab_group_add, 'h::ab_group_add, 't) PairingEngine \<Rightarrow> UseCompression \<Rightarrow> CheckForCorrectness \<Rightarrow>
   Phase1Parameters \<Rightarrow> bytes SplitBuf \<Rightarrow> ('g, 'h) AccumulatorElements \<Rightarrow> bool" where
  "holds_elements E c check ps s acc \<longleftrightarrow>
     elements_shape E ps acc \<and> split_shape E ps c s \<and> reads (g1_affine E) c check (tau_g1 s) (tau_powers_g1 acc) \<and>
     reads (g2_affine E) c check (tau_g2 s) (tau_powers_g2 acc) \<and>
     reads (g1_affine E) c check (alpha_g1 s) (alpha_tau_powers_g1 acc) \<and>
     reads (g1_affine E) c check (beta_g1 s) (beta_tau_powers_g1 acc) \<and>
     (p1_proving_system ps = Groth16 \<longrightarrow> read_element (g2_affine E) c check (beta_g2 s) = Inr (acc_beta_g2 acc))"

lemma deserialize_holds:
  assumes laws: "engine_laws E" and "deserialize E input c check ps = Inr acc"
  obtains s where "split E input ps c = Inr s" "holds_elements E c check ps s acc"
proof -
  note l = curve_lawsD(5) [OF engine_lawsD(1) [OF laws], of c] curve_lawsD(5) [OF engine_lawsD(2) [OF laws], of c]
  obtain n2 na nb nb2 where n: "other_elements ps = (n2, na, nb, nb2)" by (cases "other_elements ps")
  from assms(2) obtain s where s: "split E input ps c = Inr s"
    and r: "read_batch (g1_affine E) c check (tau_g1 s) = Inr (tau_powers_g1 acc)"
      "read_batch (g2_affine E) c check (tau_g2 s) = Inr (tau_powers_g2 acc)"
      "read_batch (g1_affine E) c check (alpha_g1 s) = Inr (alpha_tau_powers_g1 acc)"
      "read_batch (g1_affine E) c check (beta_g1 s) = Inr (beta_tau_powers_g1 acc)"
      "(case p1_proving_system ps of Groth16 \<Rightarrow> read_element (g2_affine E) c check (beta_g2 s)
        | Marlin \<Rightarrow> Inr (prime_subgroup_generator (g2_affine E))) = Inr (acc_beta_g2 acc)"
    by (cases acc) (auto simp: deserialize_def result_bind_ok_iff)
  have shape: "split_shape E ps c s" using s by (simp add: split_iff)
  then have len: "length (tau_g1 s) = g1_chunk_size ps * buffer_size (g1_affine E) c"
    "length (tau_g2 s) = n2 * buffer_size (g2_affine E) c" "length (alpha_g1 s) = na * buffer_size (g1_affine E) c"
    "length (beta_g1 s) = nb * buffer_size (g1_affine E) c"
    by (simp_all add: split_shape_def n Let_def)
  have "nb2 = 0 \<longleftrightarrow> p1_proving_system ps = Marlin"
    using n by (auto simp: other_elements_def split: ProvingSystem.splits)
  then have "holds_elements E c check ps s acc"
    using shape r unfolding read_batch_reads [OF l(1) len(1)] read_batch_reads [OF l(2) len(2)]
      read_batch_reads [OF l(1) len(3)] read_batch_reads [OF l(1) len(4)]
    by (auto simp: holds_elements_def elements_shape_def n Let_def)
  with s that show thesis by blast
qed

lemma split_nonempty: "split E input ps c = Inr s \<Longrightarrow> 0 < g1_chunk_size ps"
  by (rule ccontr) (auto simp: split_iff split_shape_def Let_def split: prod.splits)

lemma decompress_buffer_encodes:
  assumes laws: "curve_laws C" and inp: "reads C Yes check inp xs" and valid: "valid_points C check' xs"
    and len: "k = length xs" "length out = k * buffer_size C No"
  shows "decompress_buffer C out inp check (0, k) = Inr (encode C No xs)"
proof -
  have "read_batch C Yes check inp = Inr xs"
    using inp read_batch_reads [OF curve_lawsD(5) [OF laws], of inp "length xs" Yes check xs]
    by (simp add: reads_def)
  moreover have "write_batch C No xs out = Inr (encode C No xs)"
    using len by (intro write_encoded [OF laws valid]) simp
  ultimately show ?thesis
    using inp len by (simp add: decompress_buffer_def slice_def reads_def Let_def)
qed

lemma decompress_stored:
  assumes laws: "engine_laws E" and i: "split E input ps Yes = Inr i" "holds_elements E Yes check ps i acc"
    and valid: "elements_valid E check' acc" and s: "split_mut E output ps No = Inr s"
    and mode: "p1_contribution_mode ps = ModeFull \<longrightarrow> chunk_index ps = 0"
  shows "decompress E input output check ps = Inr (join (encoded_parts E ps No acc s))"
proof -
  note l = engine_lawsD [OF laws]
  obtain n2 na nb nb2 where n: "other_elements ps = (n2, na, nb, nb2)" by (cases "other_elements ps")
  have len: "length (tau_g1 s) = g1_chunk_size ps * buffer_size (g1_affine E) No"
    "length (tau_g2 s) = n2 * buffer_size (g2_affine E) No" "length (alpha_g1 s) = na * buffer_size (g1_affine E) No"
    "length (beta_g1 s) = nb * buffer_size (g1_affine E) No" "length (beta_g2 s) = nb2 * buffer_size (g2_affine E) No"
    using s by (simp_all add: split_mut_iff split_shape_def n Let_def)
  have d: "decompress_buffer (g1_affine E) (tau_g1 s) (tau_g1 i) check (0, g1_chunk_size ps) =
      Inr (encode (g1_affine E) No (tau_powers_g1 acc))"
    "decompress_buffer (g2_affine E) (tau_g2 s) (tau_g2 i) check (0, n2) = Inr (encode (g2_affine E) No (tau_powers_g2 acc))"
    "decompress_buffer (g1_affine E) (alpha_g1 s) (alpha_g1 i) check (0, na) =
      Inr (encode (g1_affine E) No (alpha_tau_powers_g1 acc))"
    "decompress_buffer (g1_affine E) (beta_g1 s) (beta_g1 i) check (0, nb) =
      Inr (encode (g1_affine E) No (beta_tau_powers_g1 acc))"
    using i(2) valid len
    by (auto simp: holds_elements_def elements_shape_def elements_valid_def n Let_def
        intro!: decompress_buffer_encodes [OF l(1)] decompress_buffer_encodes [OF l(2)])
  show ?thesis
  proof (cases "p1_proving_system ps")
    case Groth16
    then have nn: "n2 = other_chunk_size ps" "na = other_chunk_size ps" "nb = other_chunk_size ps" "nb2 = 1"
      using n by (simp_all add: other_elements_def)
    have "read_element (g2_affine E) Yes check (beta_g2 i) = Inr (acc_beta_g2 acc)"
      using i(2) Groth16 by (simp add: holds_elements_def)
    moreover have "write_element (g2_affine E) No (acc_beta_g2 acc) (beta_g2 s) = Inr (encode (g2_affine E) No (beta_elements ps acc))"
      using valid len(5) nn(4)
      by (simp add: write_element_def Let_def elements_valid_def valid_points_def curve_lawsD(6) [OF l(2)]
          beta_elements_def Groth16)
    moreover have "encode (g2_affine E) No (tau_powers_g2 acc) = tau_g2 s" "encode (g1_affine E) No (alpha_tau_powers_g1 acc) = alpha_g1 s"
      "encode (g1_affine E) No (beta_tau_powers_g1 acc) = beta_g1 s" if "other_chunk_size ps = 0"
      using that len nn i(2) by (simp_all add: holds_elements_def elements_shape_def n)
    ultimately show ?thesis
      using d by (simp add: decompress_def Let_def i(1) s Groth16 nn encoded_parts_def)
  next
    case Marlin
    then have nn: "n2 = fst (marlin_sizes ps)" "na = snd (marlin_sizes ps)" "nb = 0" "nb2 = 0"
      using n by (simp_all add: other_elements_def)
    have "encode (g2_affine E) No (tau_powers_g2 acc) = tau_g2 s" "encode (g1_affine E) No (alpha_tau_powers_g1 acc) = alpha_g1 s"
      if "chunk_index ps \<noteq> 0"
      using that len nn i(2) by (simp_all add: holds_elements_def elements_shape_def n marlin_sizes_def)
    moreover have "encode (g1_affine E) No (beta_tau_powers_g1 acc) = beta_g1 s"
      "encode (g2_affine E) No (beta_elements ps acc) = beta_g2 s"
      using len nn i(2) by (simp_all add: holds_elements_def elements_shape_def n beta_elements_def Marlin)
    ultimately show ?thesis
      using d mode by (auto simp: decompress_def Let_def i(1) s Marlin nn encoded_parts_def marlin_sizes_def join_def)
  qed
qed

text \<open>
  Decompression keeps the accumulator: a compressed buffer that is read as an accumulator of points of
  the subgroups is turned into an uncompressed buffer that is read as the same accumulator.\<close>

theorem decompress_keeps_elements:
  assumes "engine_laws E" "ps = parameters_new mode index sz (curve_parameters_new E) system log2 batch"
    and "mode = ModeFull \<longrightarrow> index = 0" "get_length ps No \<le> length output"
    and "deserialize E input Yes check ps = Inr acc" "elements_valid E check acc"
  shows "case decompress E input output check ps of
      Inl e \<Rightarrow> False
    | Inr output' \<Rightarrow> length output' = length output \<and> deserialize E output' No check ps = Inr acc"
proof -
  obtain i where i: "split E input ps Yes = Inr i" "holds_elements E Yes check ps i acc"
    by (rule deserialize_holds [OF assms(1,5)])
  obtain s where s: "split_mut E output ps No = Inr s" using split_mut_exists [OF assms(2,4)] by blast
  have mode: "p1_contribution_mode ps = ModeFull \<longrightarrow> chunk_index ps = 0"
    using assms(3) unfolding assms(2) by (simp add: parameters_new_def Let_def split: prod.splits)
  have shape: "elements_shape E ps acc" using i(2) by (simp add: holds_elements_def)
  have nonempty: "0 < g1_chunk_size ps" by (rule split_nonempty [OF i(1)])
  have "AccumulatorElements.truncate acc = acc" by (simp add: AccumulatorElements.truncate_def)
  then show ?thesis
    using decompress_stored [OF assms(1) i assms(6) s mode] stored_read_back [OF assms(1) shape assms(6) s nonempty]
    by simp
qed

definition example_buffer :: "UseCompression \<Rightarrow> bytes" where
  "example_buffer c =
     join (encoded_parts example_engine (example_parameters Groth16) c example_elements
       \<lparr>sb_hash = replicate 64 0, tau_g1 = [], tau_g2 = [], alpha_g1 = [], beta_g1 = [], beta_g2 = [], sb_rest = []\<rparr>)"

lemma example_buffer_elements:
  "deserialize example_engine (example_buffer c) c CheckFull (example_parameters Groth16) = Inr example_elements"
  using deserialize_stored [OF example_engine_laws example_elements_ok(1,2) _ example_elements_ok(3)]
  by (simp add: example_buffer_def example_elements_ok(5) example_parameters_def parameters_new_def Let_def
      split: prod.splits)

theorem decompress_keeps_elements_witness:
  "case decompress example_engine (example_buffer Yes) (replicate 100 0) CheckFull (example_parameters Groth16) of
      Inl e \<Rightarrow> False
    | Inr output' \<Rightarrow> length output' = 100 \<and>
        deserialize example_engine output' No CheckFull (example_parameters Groth16) = Inr example_elements"
  using decompress_keeps_elements [OF example_engine_laws example_parameters_def _ _ example_buffer_elements example_elements_ok(2),
      of "replicate 100 0"] example_elements_ok(4) by (simp split: sum.splits)

end
