(* ===== verification/Phase1_Computation.thy ===== *)
theory Phase1_Computation
  imports Phase1_Accumulator
begin

text \<open>
  \<^verbatim>\<open>phase1/src/computation.rs\<close>: a contribution multiplies every element of an accumulator by its
  power of the contributor's secrets, batch by batch.
\<close>

record 'f PrivateKey =
  sk_tau :: 'f
  sk_alpha :: 'f
  sk_beta :: 'f

text \<open>The position in the chunk of an element of the whole accumulator.\<close>

definition chunk_position :: "Phase1Parameters \<Rightarrow> usize \<Rightarrow> usize" where
  "chunk_position ps i =
     (case p1_contribution_mode ps of
        Chunked \<Rightarrow> usize_sub i (chunk_index ps * p1_chunk_size ps)
      | ModeFull \<Rightarrow> i)"

text \<open>The end of a batch among the elements of which there are fewer than in \<^verbatim>\<open>tau_g1\<close>.\<close>

definition other_end :: "Phase1Parameters \<Rightarrow> usize \<Rightarrow> usize \<Rightarrow> usize" where
  "other_end ps start end' =
     (let upper = (case p1_contribution_mode ps of
            Chunked \<Rightarrow> min ((chunk_index ps + 1) * p1_chunk_size ps) (powers_length ps)
          | ModeFull \<Rightarrow> powers_length ps)
      in if upper < start + p1_batch_size ps then upper else end')"

definition nonempty_apply_powers ::
  "('f::field, 'g::ab_group_add) AffineCurve \<Rightarrow> bytes \<times> UseCompression \<Rightarrow>
   bytes \<times> UseCompression \<times> CheckForCorrectness \<Rightarrow> usize \<times> usize \<Rightarrow> 'f list \<Rightarrow> 'f option \<Rightarrow> bytes or_error" where
  "nonempty_apply_powers C output input bounds powers coeff =
     (if fst input = [] then Inl Panic else expect_ok (apply_powers C output input bounds powers coeff))"

definition groth16_batch ::
  "('f::field, 'g::ab_group_add, 'h::ab_group_add, 't) PairingEngine \<Rightarrow> UseCompression \<Rightarrow> UseCompression \<Rightarrow>
   CheckForCorrectness \<Rightarrow> 'f PrivateKey \<Rightarrow> Phase1Parameters \<Rightarrow> bytes SplitBuf \<Rightarrow> usize \<Rightarrow> usize \<Rightarrow> bytes SplitBuf \<Rightarrow>
   bytes SplitBuf or_error" where
  "groth16_batch E cin cout check key ps i start end' s =
     (let C1 = g1_affine E; C2 = g2_affine E;
          powers = generate_powers_of_tau (sk_tau key) start end';
          bounds = (chunk_position ps start, chunk_position ps end')
      in
      result_bind (nonempty_apply_powers C1 (tau_g1 s, cout) (tau_g1 i, cin, check) bounds powers None) (\<lambda>tau1.
      if start < powers_length ps then
        (let bounds = (chunk_position ps start, chunk_position ps (other_end ps start end')) in
         result_bind (nonempty_apply_powers C2 (tau_g2 s, cout) (tau_g2 i, cin, check) bounds powers None) (\<lambda>tau2.
         result_bind (nonempty_apply_powers C1 (alpha_g1 s, cout) (alpha_g1 i, cin, check) bounds powers
             (Some (sk_alpha key))) (\<lambda>alpha1.
         result_bind (nonempty_apply_powers C1 (beta_g1 s, cout) (beta_g1 i, cin, check) bounds powers
             (Some (sk_beta key))) (\<lambda>beta1.
           Inr (s\<lparr>tau_g1 := tau1, tau_g2 := tau2, alpha_g1 := alpha1, beta_g1 := beta1\<rparr>)))))
      else Inr (s\<lparr>tau_g1 := tau1\<rparr>)))"

definition degree_bound :: "Phase1Parameters \<Rightarrow> usize \<Rightarrow> u64" where
  "degree_bound ps i = usize_sub (usize_sub (powers_length ps) 1) (2 ^ i) + 2"

text \<open>The elements that Marlin has in the first chunk only. The inverse of zero is left zero.\<close>

definition marlin_first_chunk ::
  "('f::field, 'g::ab_group_add, 'h::ab_group_add, 't) PairingEngine \<Rightarrow> UseCompression \<Rightarrow> UseCompression \<Rightarrow>
   CheckForCorrectness \<Rightarrow> 'f PrivateKey \<Rightarrow> Phase1Parameters \<Rightarrow> bytes SplitBuf \<Rightarrow> bytes SplitBuf \<Rightarrow>
   bytes SplitBuf or_error" where
  "marlin_first_chunk E cin cout check key ps i s =
     (let C1 = g1_affine E; C2 = g2_affine E; log2 = total_size_in_log2 ps;
          degree_bound_powers = map (\<lambda>i. sk_tau key ^ degree_bound ps i) [0..<log2];
          g2_inverse_powers = map inverse degree_bound_powers;
          g1_degree_powers =
            concat (map (\<lambda>f. [f, f * sk_tau key, f * sk_tau key ^ 2]) degree_bound_powers)
      in
      result_bind (expect_ok (apply_powers C2 (tau_g2 s, cout) (tau_g2 i, cin, check) (2, log2 + 2)
          g2_inverse_powers None)) (\<lambda>tau2.
      result_bind (expect_ok (apply_powers C1 (alpha_g1 s, cout) (alpha_g1 i, cin, check) (3, 3 + 3 * log2)
          g1_degree_powers (Some (sk_alpha key)))) (\<lambda>alpha1.
      result_bind (expect_ok (apply_powers C1 (alpha1, cout) (alpha_g1 i, cin, check) (0, 3)
          (generate_powers_of_tau (sk_tau key) 0 3) (Some (sk_alpha key)))) (\<lambda>alpha1.
      result_bind (expect_ok (apply_powers C2 (tau2, cout) (tau_g2 i, cin, check) (0, 2)
          (generate_powers_of_tau (sk_tau key) 0 2) None)) (\<lambda>tau2.
        Inr (s\<lparr>tau_g2 := tau2, alpha_g1 := alpha1\<rparr>))))))"

definition marlin_batch ::
  "('f::field, 'g::ab_group_add, 'h::ab_group_add, 't) PairingEngine \<Rightarrow> UseCompression \<Rightarrow> UseCompression \<Rightarrow>
   CheckForCorrectness \<Rightarrow> 'f PrivateKey \<Rightarrow> Phase1Parameters \<Rightarrow> bytes SplitBuf \<Rightarrow> usize \<Rightarrow> usize \<Rightarrow> bytes SplitBuf \<Rightarrow>
   bytes SplitBuf or_error" where
  "marlin_batch E cin cout check key ps i start end' s =
     result_bind (expect_ok (apply_powers (g1_affine E) (tau_g1 s, cout) (tau_g1 i, cin, check)
         (chunk_position ps start, chunk_position ps end') (generate_powers_of_tau (sk_tau key) start end') None))
       (\<lambda>tau1. Inr (s\<lparr>tau_g1 := tau1\<rparr>))"

definition computation ::
  "('f::field, 'g::ab_group_add, 'h::ab_group_add, 't) PairingEngine \<Rightarrow> bytes \<Rightarrow> bytes \<Rightarrow> UseCompression \<Rightarrow>
   UseCompression \<Rightarrow> CheckForCorrectness \<Rightarrow> 'f PrivateKey \<Rightarrow> Phase1Parameters \<Rightarrow> bytes or_error" where
  "computation E input output cin cout check key ps =
     result_bind (split E input ps cin) (\<lambda>i.
     result_bind (split_mut E output ps cout) (\<lambda>s.
     result_bind
       (case p1_proving_system ps of
          Groth16 \<Rightarrow>
            result_bind (read_element (g2_affine E) cin check (beta_g2 i)) (\<lambda>beta_g2_el.
            result_bind (write_element (g2_affine E) cout (point_mul (g2_affine E) beta_g2_el (sk_beta key)) (beta_g2 s)) (\<lambda>beta2.
              iter_chunk ps (groth16_batch E cin cout check key ps i) (s\<lparr>beta_g2 := beta2\<rparr>)))
        | Marlin \<Rightarrow>
            result_bind (if chunk_index ps = 0 then marlin_first_chunk E cin cout check key ps i s else Inr s) (\<lambda>s.
              iter_chunk ps (marlin_batch E cin cout check key ps i) s)) (\<lambda>s.
       Inr (join s))))"

section \<open>What a contribution does\<close>

text \<open>The first element of a chunk, and the factor of each element.\<close>

definition first_element :: "Phase1Parameters \<Rightarrow> usize" where
  "first_element ps = (case p1_contribution_mode ps of Chunked \<Rightarrow> chunk_index ps * p1_chunk_size ps | ModeFull \<Rightarrow> 0)"

definition power_weight :: "Phase1Parameters \<Rightarrow> 'f::field PrivateKey \<Rightarrow> nat \<Rightarrow> 'f" where
  "power_weight ps key i = sk_tau key ^ (first_element ps + i)"

definition tau_g2_weight :: "Phase1Parameters \<Rightarrow> 'f::field PrivateKey \<Rightarrow> nat \<Rightarrow> 'f" where
  "tau_g2_weight ps key i =
     (case p1_proving_system ps of
        Groth16 \<Rightarrow> power_weight ps key i
      | Marlin \<Rightarrow> if i < 2 then sk_tau key ^ i else inverse (sk_tau key ^ degree_bound ps (i - 2)))"

definition alpha_weight :: "Phase1Parameters \<Rightarrow> 'f::field PrivateKey \<Rightarrow> nat \<Rightarrow> 'f" where
  "alpha_weight ps key i =
     (case p1_proving_system ps of
        Groth16 \<Rightarrow> power_weight ps key i
      | Marlin \<Rightarrow>
          if i < 3 then sk_tau key ^ i
          else sk_tau key ^ (degree_bound ps ((i - 3) div 3) + (i - 3) mod 3)) * sk_alpha key"

definition beta_weight :: "Phase1Parameters \<Rightarrow> 'f::field PrivateKey \<Rightarrow> nat \<Rightarrow> 'f" where
  "beta_weight ps key i = power_weight ps key i * sk_beta key"

definition scale_points :: "('f::field, 'g) AffineCurve \<Rightarrow> (nat \<Rightarrow> 'f) \<Rightarrow> 'g list \<Rightarrow> 'g list" where
  "scale_points C w xs = map (\<lambda>i. point_mul C (xs ! i) (w i)) [0..<length xs]"

definition contribute_elements ::
  "('f::field, 'g, 'h, 't) PairingEngine \<Rightarrow> Phase1Parameters \<Rightarrow> 'f PrivateKey \<Rightarrow> ('g, 'h) AccumulatorElements \<Rightarrow>
   ('g, 'h) AccumulatorElements" where
  "contribute_elements E ps key acc =
     \<lparr>tau_powers_g1 = scale_points (g1_affine E) (power_weight ps key) (tau_powers_g1 acc),
      tau_powers_g2 = scale_points (g2_affine E) (tau_g2_weight ps key) (tau_powers_g2 acc),
      alpha_tau_powers_g1 = scale_points (g1_affine E) (alpha_weight ps key) (alpha_tau_powers_g1 acc),
      beta_tau_powers_g1 = scale_points (g1_affine E) (beta_weight ps key) (beta_tau_powers_g1 acc),
      acc_beta_g2 = (case p1_proving_system ps of
         Groth16 \<Rightarrow> point_mul (g2_affine E) (acc_beta_g2 acc) (sk_beta key) | Marlin \<Rightarrow> acc_beta_g2 acc)\<rparr>"

section \<open>The extent of a chunk\<close>

lemma parameters_new_sel [simp]:
  "p1_contribution_mode (parameters_new mode index sz cv system log2 batch) = mode"
  "chunk_index (parameters_new mode index sz cv system log2 batch) = index"
  "p1_chunk_size (parameters_new mode index sz cv system log2 batch) = sz"
  "p1_proving_system (parameters_new mode index sz cv system log2 batch) = system"
  "powers_g1_length (parameters_new mode index sz cv system log2 batch) = 2 ^ log2 * 2 - 1"
  "powers_length (parameters_new mode index sz cv system log2 batch) = 2 ^ log2"
  "total_size_in_log2 (parameters_new mode index sz cv system log2 batch) = log2"
  "p1_batch_size (parameters_new mode index sz cv system log2 batch) = batch"
  "g1_chunk_size (parameters_new mode index sz cv system log2 batch) = fst (chunk_sizes mode index sz system log2)"
  "other_chunk_size (parameters_new mode index sz cv system log2 batch) = snd (chunk_sizes mode index sz system log2)"
  "hash_size (parameters_new mode index sz cv system log2 batch) = 64"
  by (simp_all add: parameters_new_def Let_def split: prod.splits)

lemma chunk_extent:
  assumes ps: "ps = parameters_new mode index sz cv system log2 batch"
    and inside: "first_element ps < total_size_in_g1 system log2"
  shows "iter_bounds ps = (first_element ps, first_element ps + g1_chunk_size ps)"
    "p1_proving_system ps = Groth16 \<Longrightarrow>
       other_chunk_size ps = min (g1_chunk_size ps) (powers_length ps - first_element ps)"
    "chunk_position ps (first_element ps + i) = i"
proof -
  have s: "first_element ps = (case mode of Chunked \<Rightarrow> index * sz | ModeFull \<Rightarrow> 0)"
    by (cases mode) (simp_all add: ps first_element_def)
  show "iter_bounds ps = (first_element ps, first_element ps + g1_chunk_size ps)"
    "p1_proving_system ps = Groth16 \<Longrightarrow>
       other_chunk_size ps = min (g1_chunk_size ps) (powers_length ps - first_element ps)"
  proof (atomize (full), cases mode)
    case Chunked
    with inside s chunk_sizes_chunked [of index sz system log2]
    show "iter_bounds ps = (first_element ps, first_element ps + g1_chunk_size ps) \<and>
      (p1_proving_system ps = Groth16 \<longrightarrow>
       other_chunk_size ps = min (g1_chunk_size ps) (powers_length ps - first_element ps))"
      by (cases system) (auto simp: ps iter_bounds_def Let_def min_def)
  next
    case ModeFull
    with s show "iter_bounds ps = (first_element ps, first_element ps + g1_chunk_size ps) \<and>
      (p1_proving_system ps = Groth16 \<longrightarrow>
       other_chunk_size ps = min (g1_chunk_size ps) (powers_length ps - first_element ps))"
      by (cases system) (auto simp: ps iter_bounds_def chunk_sizes_def Let_def min_def)
  qed
  show "chunk_position ps (first_element ps + i) = i"
    by (simp add: chunk_position_def first_element_def split: ContributionMode.splits)
qed

lemma other_end_extent:
  assumes "ps = parameters_new mode index sz cv Groth16 log2 batch" "first_element ps < total_size_in_g1 Groth16 log2"
    and "first_element ps \<le> a" "b = min (first_element ps + g1_chunk_size ps) (a + p1_batch_size ps)" "a < b" "a < powers_length ps"
  shows "other_end ps a b = min (first_element ps + other_chunk_size ps) (a + p1_batch_size ps)"
proof -
  have sys: "p1_proving_system ps = Groth16" by (simp add: assms(1))
  note e = chunk_extent [OF assms(1,2)]
  let ?upper = "case p1_contribution_mode ps of
      Chunked \<Rightarrow> min ((chunk_index ps + 1) * p1_chunk_size ps) (powers_length ps) | ModeFull \<Rightarrow> powers_length ps"
  have le: "powers_length ps \<le> powers_g1_length ps"
    by (simp add: assms(1))
  then have "?upper = min (first_element ps + g1_chunk_size ps) (powers_length ps)"
    using e(1) by (auto simp: iter_bounds_def sys Let_def first_element_def split: ContributionMode.splits)
  also have "\<dots> = first_element ps + other_chunk_size ps"
    using e(2) [OF sys] assms(3-6) by linarith
  finally show ?thesis
    using assms(4) e(2) [OF sys] assms(5) by (auto simp: other_end_def Let_def min_def)
qed

section \<open>Buffers that are written in part\<close>

definition written ::
  "('f::field, 'g) AffineCurve \<Rightarrow> UseCompression \<Rightarrow> bytes \<Rightarrow> 'g list \<Rightarrow> (nat \<Rightarrow> 'f) \<Rightarrow> (nat \<Rightarrow> bool) \<Rightarrow> bool" where
  "written C c buf xs w A \<longleftrightarrow>
     length buf = length xs * buffer_size C c \<and>
     (\<forall>i<length xs. A i \<longrightarrow> cell (buffer_size C c) buf i = to_bytes C c (point_mul C (xs ! i) (w i)))"

lemma apply_powers_written:
  assumes laws: "curve_laws C" and inp: "reads C cin check inp xs" "valid_points C check' xs"
    and out: "written C cout out xs w A" and bounds: "s \<le> e" "e \<le> length xs" "e - s \<le> length powers"
    and w: "\<And>i. s \<le> i \<Longrightarrow> i < e \<Longrightarrow> w i = scaled coeff (powers ! (i - s))"
  obtains out' where "apply_powers C (out, cout) (inp, cin, check) (s, e) powers coeff = Inr out'"
    "written C cout out' xs w (\<lambda>i. A i \<or> s \<le> i \<and> i < e)"
proof -
  have lens: "length inp = length xs * buffer_size C cin" "length out = length xs * buffer_size C cout"
    using inp(1) out by (simp_all add: reads_def written_def)
  have els: "read_element C cin check (cell (buffer_size C cin) inp i) = Inr (xs ! i) \<and> in_subgroup C (xs ! i)"
    if "s \<le> i" "i < e" for i
    using inp bounds(2) that by (auto simp: reads_def valid_points_def)
  obtain out' where "apply_powers C (out, cout) (inp, cin, check) (s, e) powers coeff = Inr out'"
    "length out' = length out"
    "\<And>i. i < length xs \<Longrightarrow> cell (buffer_size C cout) out' i =
       (if s \<le> i \<and> i < e then to_bytes C cout (point_mul C (xs ! i) (scaled coeff (powers ! (i - s))))
        else cell (buffer_size C cout) out i)"
    by (rule apply_powers_cells [where x = "\<lambda>i. xs ! i" and coeff = coeff,
          OF laws bounds lens(1) _ lens(2), of check]) (use els in blast)+
  with out w that show ?thesis by (simp add: written_def)
qed

lemma scale_points_simps [simp]:
  "length (scale_points C w xs) = length xs"
  "i < length xs \<Longrightarrow> scale_points C w xs ! i = point_mul C (xs ! i) (w i)"
  by (simp_all add: scale_points_def)

lemma scale_points_valid:
  "curve_laws C \<Longrightarrow> valid_points C check xs \<Longrightarrow> valid_points C CheckNo (scale_points C w xs)"
  by (auto simp: valid_points_def scale_points_def curve_lawsD(2))

lemma written_all:
  assumes "curve_laws C" "valid_points C check xs" "written C c buf xs w A" "\<And>i. i < length xs \<Longrightarrow> A i"
  shows "buf = encode C c (scale_points C w xs)"
  using assms(3,4) by (intro encodedI [OF assms(1) _ scale_points_valid [OF assms(1,2)]]) (auto simp: written_def)

lemma written_none: "length buf = length xs * buffer_size C c \<Longrightarrow> written C c buf xs w (\<lambda>i. False)"
  by (simp add: written_def)

lemma written_mono: "written C c buf xs w A \<Longrightarrow> (\<And>i. i < length xs \<Longrightarrow> B i \<Longrightarrow> A i) \<Longrightarrow> written C c buf xs w B"
  by (auto simp: written_def)

section \<open>A batch\<close>

lemma generate_powers_nth:
  "length (generate_powers_of_tau tau a b) = b - a"
  "i < b - a \<Longrightarrow> generate_powers_of_tau tau a b ! i = tau ^ (a + i)"
  by (simp_all add: generate_powers_of_tau_def)

text \<open>The elements up to a given one of the whole accumulator have been written.\<close>

definition contributed_upto ::
  "('f::field, 'g::ab_group_add, 'h::ab_group_add, 't) PairingEngine \<Rightarrow> Phase1Parameters \<Rightarrow> UseCompression \<Rightarrow>
   'f PrivateKey \<Rightarrow> ('g, 'h) AccumulatorElements \<Rightarrow> bytes SplitBuf \<Rightarrow> nat \<Rightarrow> bytes SplitBuf \<Rightarrow> bool" where
  "contributed_upto E ps c key acc s0 b s \<longleftrightarrow>
     sb_hash s = sb_hash s0 \<and> sb_rest s = sb_rest s0 \<and> beta_g2 s = beta_g2 s0 \<and>
     written (g1_affine E) c (tau_g1 s) (tau_powers_g1 acc) (power_weight ps key) (\<lambda>i. first_element ps + i < b) \<and>
     written (g2_affine E) c (tau_g2 s) (tau_powers_g2 acc) (tau_g2_weight ps key)
       (\<lambda>i. p1_proving_system ps = Marlin \<or> first_element ps + i < b) \<and>
     written (g1_affine E) c (alpha_g1 s) (alpha_tau_powers_g1 acc) (alpha_weight ps key)
       (\<lambda>i. p1_proving_system ps = Marlin \<or> first_element ps + i < b) \<and>
     written (g1_affine E) c (beta_g1 s) (beta_tau_powers_g1 acc) (beta_weight ps key) (\<lambda>i. first_element ps + i < b)"

lemma contributed_upto_mono: "contributed_upto E ps c key acc s0 b s \<Longrightarrow> a \<le> b \<Longrightarrow> contributed_upto E ps c key acc s0 a s"
  unfolding contributed_upto_def by (auto elim!: written_mono)

lemma batch_written:
  assumes laws: "curve_laws C" and inp: "reads C cin check inp xs" "valid_points C check' xs"
    and out: "written C cout out xs w (\<lambda>i. first_element ps + i < a)"
    and a: "first_element ps \<le> a" "a \<le> e" "e \<le> b" "e \<le> first_element ps + length xs"
    and pos: "\<And>i. chunk_position ps (first_element ps + i) = i"
    and w: "\<And>i. w i = scaled coeff (power_weight ps key i)"
  obtains out' where
    "apply_powers C (out, cout) (inp, cin, check) (chunk_position ps a, chunk_position ps e)
       (generate_powers_of_tau (sk_tau key) a b) coeff = Inr out'"
    "written C cout out' xs w (\<lambda>i. first_element ps + i < e)"
proof -
  let ?f = "first_element ps"
  have p: "chunk_position ps a = a - ?f" "chunk_position ps e = e - ?f"
    using pos [of "a - ?f"] pos [of "e - ?f"] a by simp_all
  have weights: "w i = scaled coeff (generate_powers_of_tau (sk_tau key) a b ! (i - (a - ?f)))" if "a - ?f \<le> i" "i < e - ?f" for i
  proof -
    have "a + (i - (a - ?f)) = ?f + i" "i - (a - ?f) < b - a" using that a by linarith+
    then show ?thesis by (simp only: w power_weight_def generate_powers_nth)
  qed
  have le: "a - ?f \<le> e - ?f" "e - ?f \<le> length xs" "e - ?f - (a - ?f) \<le> length (generate_powers_of_tau (sk_tau key) a b)"
    using a by (simp_all add: generate_powers_nth)
  obtain out' where o: "apply_powers C (out, cout) (inp, cin, check) (a - ?f, e - ?f)
       (generate_powers_of_tau (sk_tau key) a b) coeff = Inr out'"
    "written C cout out' xs w (\<lambda>i. ?f + i < a \<or> a - ?f \<le> i \<and> i < e - ?f)"
    using apply_powers_written [OF laws inp out le weights] by blast
  from o(2) have "written C cout out' xs w (\<lambda>i. ?f + i < e)" by (rule written_mono) linarith
  with o(1) show ?thesis by (intro that) (simp_all add: p)
qed

lemma reads_nonempty: "curve_laws C \<Longrightarrow> reads C c check buf xs \<Longrightarrow> 0 < length xs \<Longrightarrow> buf \<noteq> []"
  using curve_lawsD(5) [of C c] by (auto simp: reads_def)

lemma groth16_batch_step:
  assumes laws: "engine_laws E" and ps: "ps = parameters_new mode index sz cv Groth16 log2 batch"
    and inside: "first_element ps < total_size_in_g1 Groth16 log2"
    and i: "holds_elements E cin check ps i acc" "elements_valid E check' acc"
    and ab: "first_element ps \<le> a" "a < b" "b = min (first_element ps + g1_chunk_size ps) (a + p1_batch_size ps)"
    and s: "contributed_upto E ps cout key acc s0 a s"
  shows "\<exists>s'. groth16_batch E cin cout check key ps i a b s = Inr s' \<and> contributed_upto E ps cout key acc s0 b s'"
proof -
  note l = engine_lawsD [OF laws]
  have sys: "p1_proving_system ps = Groth16" by (simp add: ps)
  note e = chunk_extent [OF ps inside]
  have lens: "length (tau_powers_g1 acc) = g1_chunk_size ps" "length (tau_powers_g2 acc) = other_chunk_size ps"
    "length (alpha_tau_powers_g1 acc) = other_chunk_size ps" "length (beta_tau_powers_g1 acc) = other_chunk_size ps"
    using i(1) by (simp_all add: holds_elements_def elements_shape_def other_elements_def sys)
  note r = i(1) [unfolded holds_elements_def] and v = i(2) [unfolded elements_valid_def]
    and st = s [unfolded contributed_upto_def sys, simplified]
  let ?f = "first_element ps" and ?pw = "generate_powers_of_tau (sk_tau key) a b"
  have w: "power_weight ps key i = scaled None (power_weight ps key i)"
    "tau_g2_weight ps key i = scaled None (power_weight ps key i)"
    "alpha_weight ps key i = scaled (Some (sk_alpha key)) (power_weight ps key i)"
    "beta_weight ps key i = scaled (Some (sk_beta key)) (power_weight ps key i)" for i
    by (simp_all add: scaled_def tau_g2_weight_def alpha_weight_def beta_weight_def sys)
  have b: "a \<le> b" "b \<le> b" "b \<le> ?f + length (tau_powers_g1 acc)" using ab lens(1) by simp_all
  obtain tau1 where tau1: "apply_powers (g1_affine E) (tau_g1 s, cout) (tau_g1 i, cin, check)
      (chunk_position ps a, chunk_position ps b) ?pw None = Inr tau1"
    "written (g1_affine E) cout tau1 (tau_powers_g1 acc) (power_weight ps key) (\<lambda>i. ?f + i < b)"
    by (rule batch_written [OF l(1) _ _ _ ab(1) b e(3) w(1), of cin check "tau_g1 i"]) (use r v st in blast)+
  have ne: "tau_g1 i \<noteq> []"
    by (rule reads_nonempty [OF l(1), of cin check _ "tau_powers_g1 acc"]) (use r lens(1) ab in auto)
  show ?thesis
  proof (cases "a < powers_length ps")
    case False
    then have none: "other_chunk_size ps \<le> a - ?f" using e(2) [OF sys] ab(1) by linarith
    have "groth16_batch E cin cout check key ps i a b s = Inr (s\<lparr>tau_g1 := tau1\<rparr>)"
      using False tau1(1) ne by (simp add: groth16_batch_def nonempty_apply_powers_def Let_def)
    moreover have "contributed_upto E ps cout key acc s0 b (s\<lparr>tau_g1 := tau1\<rparr>)"
      using st tau1(2) none lens ab(1) unfolding contributed_upto_def sys by (auto elim!: written_mono)
    ultimately show ?thesis by blast
  next
    case True
    let ?e = "min (?f + other_chunk_size ps) (a + p1_batch_size ps)"
    have oe: "other_end ps a b = ?e" by (rule other_end_extent [OF ps inside ab(1,3,2) True])
    have "0 < other_chunk_size ps" "a \<le> ?e" "?e \<le> b" "?e \<le> ?f + other_chunk_size ps"
      using e(2) [OF sys] True ab by linarith+
    note b2 = this
    obtain tau2 where tau2: "apply_powers (g2_affine E) (tau_g2 s, cout) (tau_g2 i, cin, check)
        (chunk_position ps a, chunk_position ps ?e) ?pw None = Inr tau2"
      "written (g2_affine E) cout tau2 (tau_powers_g2 acc) (tau_g2_weight ps key) (\<lambda>i. ?f + i < ?e)"
      by (rule batch_written [OF l(2) _ _ _ ab(1) b2(2,3) _ e(3) w(2), of cin check "tau_g2 i"])
        (use r v st b2(4) lens in auto)
    obtain alpha1 where alpha1: "apply_powers (g1_affine E) (alpha_g1 s, cout) (alpha_g1 i, cin, check)
        (chunk_position ps a, chunk_position ps ?e) ?pw (Some (sk_alpha key)) = Inr alpha1"
      "written (g1_affine E) cout alpha1 (alpha_tau_powers_g1 acc) (alpha_weight ps key) (\<lambda>i. ?f + i < ?e)"
      by (rule batch_written [OF l(1) _ _ _ ab(1) b2(2,3) _ e(3) w(3), of cin check "alpha_g1 i"])
        (use r v st b2(4) lens in auto)
    obtain beta1 where beta1: "apply_powers (g1_affine E) (beta_g1 s, cout) (beta_g1 i, cin, check)
        (chunk_position ps a, chunk_position ps ?e) ?pw (Some (sk_beta key)) = Inr beta1"
      "written (g1_affine E) cout beta1 (beta_tau_powers_g1 acc) (beta_weight ps key) (\<lambda>i. ?f + i < ?e)"
      by (rule batch_written [OF l(1) _ _ _ ab(1) b2(2,3) _ e(3) w(4), of cin check "beta_g1 i"])
        (use r v st b2(4) lens in auto)
    have nes: "tau_g2 i \<noteq> []" "alpha_g1 i \<noteq> []" "beta_g1 i \<noteq> []"
      using reads_nonempty [OF l(2), of cin check "tau_g2 i" "tau_powers_g2 acc"]
        reads_nonempty [OF l(1), of cin check "alpha_g1 i" "alpha_tau_powers_g1 acc"]
        reads_nonempty [OF l(1), of cin check "beta_g1 i" "beta_tau_powers_g1 acc"] r lens b2(1) by simp_all
    let ?s = "s\<lparr>tau_g1 := tau1, tau_g2 := tau2, alpha_g1 := alpha1, beta_g1 := beta1\<rparr>"
    have "groth16_batch E cin cout check key ps i a b s = Inr ?s"
      using True tau1(1) tau2(1) alpha1(1) beta1(1) ne nes
      by (simp add: groth16_batch_def nonempty_apply_powers_def Let_def oe)
    moreover have "contributed_upto E ps cout key acc s0 b ?s"
      using st tau1(2) tau2(2) alpha1(2) beta1(2) lens ab(3) unfolding contributed_upto_def sys
      by (auto elim!: written_mono)
    ultimately show ?thesis by blast
  qed
qed

section \<open>The elements of Marlin's first chunk\<close>

lemma concat_triples:
  "length (concat (map (\<lambda>f. [f, f * t, f * t ^ 2]) xs)) = 3 * length xs"
  "j < 3 * length xs \<Longrightarrow> concat (map (\<lambda>f. [f, f * t, f * t ^ 2]) xs) ! j = (xs ! (j div 3)) * (t :: 'f::field) ^ (j mod 3)"
proof -
  show "length (concat (map (\<lambda>f. [f, f * t, f * t ^ 2]) xs)) = 3 * length xs" by (induction xs) simp_all
  show "j < 3 * length xs \<Longrightarrow> concat (map (\<lambda>f. [f, f * t, f * t ^ 2]) xs) ! j = (xs ! (j div 3)) * t ^ (j mod 3)"
  proof (induction xs arbitrary: j)
    case (Cons x xs)
    consider "j = 0" | "j = 1" | "j = 2" | k where "j = Suc (Suc (Suc k))"
      by (cases j rule: nat.exhaust) (metis One_nat_def Suc_1 not0_implies_Suc)+
    then show ?case
    proof cases
      case 4
      then have "j div 3 = Suc (k div 3)" "j mod 3 = k mod 3" by simp_all
      with 4 Cons show ?thesis by simp
    qed simp_all
  qed simp
qed

text \<open>The last elements are written first.\<close>

lemma two_parts_written:
  assumes laws: "curve_laws C" and inp: "reads C cin check inp xs" "valid_points C check' xs"
    and out: "length out = length xs * buffer_size C cout" and n: "n = length xs"
    and powers: "length hi = n - k" "length lo = k" "k \<le> n"
    and w: "\<And>i. i < n \<Longrightarrow> w i = scaled coeff (if i < k then lo ! i else hi ! (i - k))"
  obtains out1 out2 where "apply_powers C (out, cout) (inp, cin, check) (k, n) hi coeff = Inr out1"
    "apply_powers C (out1, cout) (inp, cin, check) (0, k) lo coeff = Inr out2"
    "written C cout out2 xs w (\<lambda>i. True)"
proof -
  have b: "k \<le> n" "n \<le> length xs" "n - k \<le> length hi" "0 \<le> k" "k \<le> length xs" "k - 0 \<le> length lo"
    using n powers by simp_all
  have w1: "w i = scaled coeff (hi ! (i - k))" if "k \<le> i" "i < n" for i using w [of i] that by simp
  have w2: "w i = scaled coeff (lo ! (i - 0))" if "0 \<le> i" "i < k" for i using w [of i] that powers(3) by simp
  obtain out1 where out1: "apply_powers C (out, cout) (inp, cin, check) (k, n) hi coeff = Inr out1"
    "written C cout out1 xs w (\<lambda>i. False \<or> k \<le> i \<and> i < n)"
    by (rule apply_powers_written [OF laws inp written_none [OF out] b(1-3) w1]) blast+
  obtain out2 where out2: "apply_powers C (out1, cout) (inp, cin, check) (0, k) lo coeff = Inr out2"
    "written C cout out2 xs w (\<lambda>i. (False \<or> k \<le> i \<and> i < n) \<or> 0 \<le> i \<and> i < k)"
    by (rule apply_powers_written [OF laws inp out1(2) b(4-6) w2]) blast+
  have "written C cout out2 xs w (\<lambda>i. True)"
    using out2(2) by (rule written_mono) (use n in auto)
  with out1(1) out2(1) show thesis by (rule that)
qed

lemma marlin_first_chunk_written:
  assumes laws: "engine_laws E" and sys: "p1_proving_system ps = Marlin" and first: "chunk_index ps = 0"
    and i: "holds_elements E cin check ps i acc" "elements_valid E check' acc" and s: "split_shape E ps cout s"
  obtains tau2 alpha1 where "marlin_first_chunk E cin cout check key ps i s = Inr (s\<lparr>tau_g2 := tau2, alpha_g1 := alpha1\<rparr>)"
    "written (g2_affine E) cout tau2 (tau_powers_g2 acc) (tau_g2_weight ps key) (\<lambda>i. True)"
    "written (g1_affine E) cout alpha1 (alpha_tau_powers_g1 acc) (alpha_weight ps key) (\<lambda>i. True)"
proof -
  note l = engine_lawsD [OF laws] and r = i(1) [unfolded holds_elements_def] and v = i(2) [unfolded elements_valid_def]
  let ?log = "total_size_in_log2 ps" and ?t = "sk_tau key"
  let ?d = "map (\<lambda>i. ?t ^ degree_bound ps i) [0..<?log]"
  let ?triples = "concat (map (\<lambda>f. [f, f * ?t, f * ?t ^ 2]) ?d)"
  let ?C1 = "g1_affine E" and ?C2 = "g2_affine E" and ?x2 = "tau_powers_g2 acc" and ?xa = "alpha_tau_powers_g1 acc"
  have lens: "?log + 2 = length ?x2" "3 + 3 * ?log = length ?xa"
    "length (tau_g2 s) = length ?x2 * buffer_size ?C2 cout" "length (alpha_g1 s) = length ?xa * buffer_size ?C1 cout"
    using i(1) s first
    by (simp_all add: holds_elements_def elements_shape_def split_shape_def other_elements_def sys marlin_sizes_def Let_def)
  have triples: "length ?triples = 3 * ?log" "j < 3 * ?log \<Longrightarrow> ?triples ! j = ?t ^ (degree_bound ps (j div 3) + j mod 3)" for j
    using concat_triples(1) [of ?t ?d] concat_triples(2) [of j ?d ?t] by (simp_all add: power_add)
  have w2: "tau_g2_weight ps key i =
      scaled None (if i < 2 then generate_powers_of_tau ?t 0 2 ! i else map inverse ?d ! (i - 2))" if "i < ?log + 2" for i
    using that by (simp add: tau_g2_weight_def sys scaled_def generate_powers_nth)
  have wa: "alpha_weight ps key i =
      scaled (Some (sk_alpha key)) (if i < 3 then generate_powers_of_tau ?t 0 3 ! i else ?triples ! (i - 3))"
    if "i < 3 + 3 * ?log" for i
    using that triples(2) [of "i - 3"] by (simp add: alpha_weight_def sys scaled_def generate_powers_nth)
  have lg: "length (map inverse ?d) = ?log + 2 - 2" "length (generate_powers_of_tau ?t 0 2) = 2" "2 \<le> ?log + 2"
    "length ?triples = 3 + 3 * ?log - 3" "length (generate_powers_of_tau ?t 0 3) = 3" "3 \<le> 3 + 3 * ?log"
    using triples(1) by (simp_all add: generate_powers_nth)
  obtain tau2 tau2' where tau2: "apply_powers ?C2 (tau_g2 s, cout) (tau_g2 i, cin, check) (2, ?log + 2) (map inverse ?d) None = Inr tau2"
    "apply_powers ?C2 (tau2, cout) (tau_g2 i, cin, check) (0, 2) (generate_powers_of_tau ?t 0 2) None = Inr tau2'"
    "written ?C2 cout tau2' ?x2 (tau_g2_weight ps key) (\<lambda>i. True)"
    by (rule two_parts_written [OF l(2) _ _ lens(3,1) lg(1-3) w2, of cin check "tau_g2 i"]) (use r v in blast)+
  obtain alpha1 alpha1' where alpha1: "apply_powers ?C1 (alpha_g1 s, cout) (alpha_g1 i, cin, check) (3, 3 + 3 * ?log)
      ?triples (Some (sk_alpha key)) = Inr alpha1"
    "apply_powers ?C1 (alpha1, cout) (alpha_g1 i, cin, check) (0, 3) (generate_powers_of_tau ?t 0 3) (Some (sk_alpha key)) = Inr alpha1'"
    "written ?C1 cout alpha1' ?xa (alpha_weight ps key) (\<lambda>i. True)"
    by (rule two_parts_written [OF l(1) _ _ lens(4,2) lg(4-6) wa, of cin check "alpha_g1 i"]) (use r v in blast)+
  have "marlin_first_chunk E cin cout check key ps i s = Inr (s\<lparr>tau_g2 := tau2', alpha_g1 := alpha1'\<rparr>)"
    using tau2(1,2) alpha1(1,2) by (simp add: marlin_first_chunk_def Let_def)
  then show thesis using tau2(3) alpha1(3) by (rule that)
qed

section \<open>The whole contribution\<close>

lemma contribute_shape: "elements_shape E ps acc \<Longrightarrow> elements_shape E ps (contribute_elements E ps key acc)"
  by (auto simp: elements_shape_def contribute_elements_def other_elements_def Let_def split: ProvingSystem.splits prod.splits)

lemma contribute_valid:
  "engine_laws E \<Longrightarrow> elements_valid E check acc \<Longrightarrow> elements_valid E CheckNo (contribute_elements E ps key acc)"
  by (auto simp: elements_valid_def contribute_elements_def engine_laws_def intro: scale_points_valid
      split: ProvingSystem.splits) (auto simp: valid_points_def curve_lawsD)

lemma contributed_all:
  assumes laws: "engine_laws E" and acc: "elements_shape E ps acc" "elements_valid E check acc"
    and s: "contributed_upto E ps c key acc s0 (first_element ps + g1_chunk_size ps) s"
    and other: "p1_proving_system ps = Groth16 \<longrightarrow> other_chunk_size ps \<le> g1_chunk_size ps"
    and beta: "beta_g2 s0 = encode (g2_affine E) c (beta_elements ps (contribute_elements E ps key acc))"
  shows "join s = join (encoded_parts E ps c (contribute_elements E ps key acc) s0)"
proof -
  note l = engine_lawsD [OF laws] and st = s [unfolded contributed_upto_def]
  have v: "valid_points (g1_affine E) check (tau_powers_g1 acc)" "valid_points (g2_affine E) check (tau_powers_g2 acc)"
    "valid_points (g1_affine E) check (alpha_tau_powers_g1 acc)" "valid_points (g1_affine E) check (beta_tau_powers_g1 acc)"
    using acc(2) by (simp_all add: elements_valid_def)
  have n: "length (tau_powers_g1 acc) = g1_chunk_size ps"
    "p1_proving_system ps = Marlin \<or> length (tau_powers_g2 acc) \<le> g1_chunk_size ps"
    "p1_proving_system ps = Marlin \<or> length (alpha_tau_powers_g1 acc) \<le> g1_chunk_size ps"
    "length (beta_tau_powers_g1 acc) \<le> g1_chunk_size ps"
    using acc(1) other by (cases "p1_proving_system ps"; simp add: elements_shape_def other_elements_def)+
  have "tau_g1 s = encode (g1_affine E) c (scale_points (g1_affine E) (power_weight ps key) (tau_powers_g1 acc))"
    using st n(1) by (intro written_all [OF l(1) v(1), where A = "\<lambda>i. i < g1_chunk_size ps"]) simp_all
  moreover have "tau_g2 s = encode (g2_affine E) c (scale_points (g2_affine E) (tau_g2_weight ps key) (tau_powers_g2 acc))"
    using st n(2) by (intro written_all [OF l(2) v(2), where A = "\<lambda>i. p1_proving_system ps = Marlin \<or> i < g1_chunk_size ps"]) auto
  moreover have "alpha_g1 s =
      encode (g1_affine E) c (scale_points (g1_affine E) (alpha_weight ps key) (alpha_tau_powers_g1 acc))"
    using st n(3) by (intro written_all [OF l(1) v(3), where A = "\<lambda>i. p1_proving_system ps = Marlin \<or> i < g1_chunk_size ps"]) auto
  moreover have "beta_g1 s =
      encode (g1_affine E) c (scale_points (g1_affine E) (beta_weight ps key) (beta_tau_powers_g1 acc))"
    using st n(4) by (intro written_all [OF l(1) v(4), where A = "\<lambda>i. i < g1_chunk_size ps"]) simp_all
  ultimately show ?thesis
    using st beta by (simp add: join_def encoded_parts_def contribute_elements_def)
qed

lemma contributed_nothing:
  assumes "elements_shape E ps acc" "split_shape E ps c s" "p1_proving_system ps = Groth16 \<or> chunk_index ps \<noteq> 0"
  shows "contributed_upto E ps c key acc s (first_element ps) s"
  using assms by (auto simp: contributed_upto_def written_def elements_shape_def split_shape_def other_elements_def
      marlin_sizes_def Let_def split: ProvingSystem.splits)

lemma computation_groth16:
  assumes laws: "engine_laws E" and ps: "ps = parameters_new mode index sz cv Groth16 log2 batch"
    and inside: "first_element ps < total_size_in_g1 Groth16 log2" and batch: "2 \<le> batch"
    and i: "split E input ps cin = Inr i" "holds_elements E cin check ps i acc" "elements_valid E check' acc"
    and s: "split_mut E output ps cout = Inr s"
  shows "computation E input output cin cout check key ps = Inr (join (encoded_parts E ps cout (contribute_elements E ps key acc) s))"
proof -
  note l = engine_lawsD [OF laws] and e = chunk_extent [OF ps inside]
  have sys: "p1_proving_system ps = Groth16" "2 \<le> p1_batch_size ps" using batch by (simp_all add: ps)
  have shape: "split_shape E ps cout s" "elements_shape E ps acc"
    using s i(2) by (simp_all add: split_mut_iff holds_elements_def)
  let ?b = "encode (g2_affine E) cout (beta_elements ps (contribute_elements E ps key acc))"
  let ?s = "s\<lparr>beta_g2 := ?b\<rparr>"
  have b: "?b = to_bytes (g2_affine E) cout (point_mul (g2_affine E) (acc_beta_g2 acc) (sk_beta key))"
    by (simp add: beta_elements_def contribute_elements_def sys)
  have "in_subgroup (g2_affine E) (acc_beta_g2 acc)" using i(3) by (simp add: elements_valid_def valid_points_def)
  then have len: "length ?b = buffer_size (g2_affine E) cout" unfolding b by (simp add: curve_lawsD [OF l(2)])
  have init: "contributed_upto E ps cout key acc ?s (first_element ps) ?s"
    using shape len by (intro contributed_nothing) (auto simp: split_shape_def other_elements_def sys Let_def)
  have "\<exists>s'. iter_chunk ps (groth16_batch E cin cout check key ps i) ?s = Inr s' \<and>
      contributed_upto E ps cout key acc ?s (first_element ps + g1_chunk_size ps) s'"
    by (rule iter_chunk_invariant [where P = "contributed_upto E ps cout key acc ?s", OF e(1) _ sys(2) init])
      (auto elim: contributed_upto_mono intro: groth16_batch_step [OF laws ps inside i(2,3)])
  then obtain s' where s': "iter_chunk ps (groth16_batch E cin cout check key ps i) ?s = Inr s'"
    "contributed_upto E ps cout key acc ?s (first_element ps + g1_chunk_size ps) s'" by blast
  have "join s' = join (encoded_parts E ps cout (contribute_elements E ps key acc) ?s)"
    using e(2) by (intro contributed_all [OF laws shape(2) i(3) s'(2)]) auto
  moreover have "write_element (g2_affine E) cout (point_mul (g2_affine E) (acc_beta_g2 acc) (sk_beta key)) (beta_g2 s) = Inr ?b"
    using shape(1) len b by (simp add: write_element_def split_shape_def other_elements_def sys Let_def)
  ultimately show ?thesis
    using i(1,2) s s'(1) by (simp add: computation_def sys holds_elements_def encoded_parts_def)
qed

lemma marlin_prepared:
  assumes laws: "engine_laws E" and sys: "p1_proving_system ps = Marlin"
    and i: "holds_elements E cin check ps i acc" "elements_valid E check' acc" and s: "split_shape E ps cout s"
  obtains s1 where "(if chunk_index ps = 0 then marlin_first_chunk E cin cout check key ps i s else Inr s) = Inr s1"
    "contributed_upto E ps cout key acc s (first_element ps) s1"
proof (cases "chunk_index ps = 0")
  case True
  have acc: "elements_shape E ps acc" using i(1) by (simp add: holds_elements_def)
  obtain tau2 alpha1 where m: "marlin_first_chunk E cin cout check key ps i s = Inr (s\<lparr>tau_g2 := tau2, alpha_g1 := alpha1\<rparr>)"
    "written (g2_affine E) cout tau2 (tau_powers_g2 acc) (tau_g2_weight ps key) (\<lambda>i. True)"
    "written (g1_affine E) cout alpha1 (alpha_tau_powers_g1 acc) (alpha_weight ps key) (\<lambda>i. True)"
    by (rule marlin_first_chunk_written [OF laws sys True i s])
  have "written (g1_affine E) cout (tau_g1 s) (tau_powers_g1 acc) (power_weight ps key) (\<lambda>i. first_element ps + i < first_element ps)"
    "written (g1_affine E) cout (beta_g1 s) (beta_tau_powers_g1 acc) (beta_weight ps key) (\<lambda>i. first_element ps + i < first_element ps)"
    using s acc by (auto simp: written_def split_shape_def elements_shape_def other_elements_def sys Let_def)
  with m that True show thesis by (auto simp: contributed_upto_def written_def)
next
  case False
  then show thesis using contributed_nothing [of E ps acc cout s] i(1) s that by (auto simp: holds_elements_def)
qed

lemma marlin_batch_step:
  assumes laws: "engine_laws E" and sys: "p1_proving_system ps = Marlin"
    and pos: "\<And>i. chunk_position ps (first_element ps + i) = i"
    and i: "holds_elements E cin check ps i acc" "elements_valid E check' acc"
    and ab: "first_element ps \<le> a" "a < b" "b = min (first_element ps + g1_chunk_size ps) (a + p1_batch_size ps)"
    and s: "contributed_upto E ps cout key acc s0 a s"
  shows "\<exists>s'. marlin_batch E cin cout check key ps i a b s = Inr s' \<and> contributed_upto E ps cout key acc s0 b s'"
proof -
  have acc: "length (tau_powers_g1 acc) = g1_chunk_size ps" "beta_tau_powers_g1 acc = []"
    using i(1) by (simp_all add: holds_elements_def elements_shape_def other_elements_def sys)
  have b: "a \<le> b" "b \<le> b" "b \<le> first_element ps + length (tau_powers_g1 acc)" using ab acc(1) by simp_all
  obtain tau1 where tau1: "apply_powers (g1_affine E) (tau_g1 s, cout) (tau_g1 i, cin, check)
      (chunk_position ps a, chunk_position ps b) (generate_powers_of_tau (sk_tau key) a b) None = Inr tau1"
    "written (g1_affine E) cout tau1 (tau_powers_g1 acc) (power_weight ps key) (\<lambda>i. first_element ps + i < b)"
    by (rule batch_written [OF engine_lawsD(1) [OF laws] _ _ _ ab(1) b pos, where key = key and coeff = None, of cin check "tau_g1 i"])
      (use i s in \<open>auto simp: holds_elements_def elements_valid_def contributed_upto_def scaled_def\<close>)
  with s acc(2) show ?thesis
    by (intro exI [of _ "s\<lparr>tau_g1 := tau1\<rparr>"]) (simp add: marlin_batch_def contributed_upto_def sys written_def)
qed

lemma computation_marlin:
  assumes laws: "engine_laws E" and ps: "ps = parameters_new mode index sz cv Marlin log2 batch"
    and inside: "first_element ps < total_size_in_g1 Marlin log2" and batch: "2 \<le> batch"
    and i: "split E input ps cin = Inr i" "holds_elements E cin check ps i acc" "elements_valid E check' acc"
    and s: "split_mut E output ps cout = Inr s"
  shows "computation E input output cin cout check key ps = Inr (join (encoded_parts E ps cout (contribute_elements E ps key acc) s))"
proof -
  note e = chunk_extent [OF ps inside]
  have sys: "p1_proving_system ps = Marlin" "2 \<le> p1_batch_size ps" using batch by (simp_all add: ps)
  have shape: "split_shape E ps cout s" "elements_shape E ps acc"
    using s i(2) by (simp_all add: split_mut_iff holds_elements_def)
  have beta: "beta_g2 s = []" using shape by (simp add: split_shape_def other_elements_def sys Let_def)
  obtain s1 where s1: "(if chunk_index ps = 0 then marlin_first_chunk E cin cout check key ps i s else Inr s) = Inr s1"
    "contributed_upto E ps cout key acc s (first_element ps) s1"
    by (rule marlin_prepared [OF laws sys(1) i(2,3) shape(1)])
  have "\<exists>s'. iter_chunk ps (marlin_batch E cin cout check key ps i) s1 = Inr s' \<and>
      contributed_upto E ps cout key acc s (first_element ps + g1_chunk_size ps) s'"
    by (rule iter_chunk_invariant [where P = "contributed_upto E ps cout key acc s", OF e(1) _ sys(2) s1(2)])
      (auto elim: contributed_upto_mono intro: marlin_batch_step [OF laws sys(1) e(3) i(2,3)])
  then obtain s' where s': "iter_chunk ps (marlin_batch E cin cout check key ps i) s1 = Inr s'"
    "contributed_upto E ps cout key acc s (first_element ps + g1_chunk_size ps) s'" by blast
  have "join s' = join (encoded_parts E ps cout (contribute_elements E ps key acc) s)"
    by (rule contributed_all [OF laws shape(2) i(3) s'(2)]) (use sys beta in \<open>auto simp: beta_elements_def\<close>)
  then show ?thesis using i(1) s s1(1) s'(1) by (simp add: computation_def sys)
qed

lemma computation_stored:
  assumes "engine_laws E" "ps = parameters_new mode index sz cv system log2 batch"
    and "first_element ps < total_size_in_g1 system log2" "2 \<le> batch"
    and "split E input ps cin = Inr i" "holds_elements E cin check ps i acc" "elements_valid E check' acc"
    and "split_mut E output ps cout = Inr s"
  shows "computation E input output cin cout check key ps = Inr (join (encoded_parts E ps cout (contribute_elements E ps key acc) s))"
proof (cases system)
  case Groth16
  show ?thesis
    by (rule computation_groth16 [OF assms(1) assms(2) [unfolded Groth16] assms(3) [unfolded Groth16] assms(4-8)])
next
  case Marlin
  show ?thesis
    by (rule computation_marlin [OF assms(1) assms(2) [unfolded Marlin] assms(3) [unfolded Marlin] assms(4-8)])
qed

lemma computation_ok:
  assumes laws: "engine_laws E" and ps: "ps = parameters_new mode index sz (curve_parameters_new E) system log2 batch"
    and inside: "first_element ps < total_size_in_g1 system log2" and batch: "2 \<le> batch"
    and out: "get_length ps cout \<le> length output"
    and input: "deserialize E input cin check ps = Inr acc" "elements_valid E CheckNo acc"
  obtains output' where "computation E input output cin cout check key ps = Inr output'" "length output' = length output"
    "deserialize E output' cout CheckNo ps = Inr (contribute_elements E ps key acc)"
proof -
  obtain i where i: "split E input ps cin = Inr i" "holds_elements E cin check ps i acc"
    by (rule deserialize_holds [OF laws input(1)])
  obtain s where s: "split_mut E output ps cout = Inr s" using split_mut_exists [OF ps out] by blast
  have shape: "elements_shape E ps acc" using i(2) by (simp add: holds_elements_def)
  have "AccumulatorElements.truncate (contribute_elements E ps key acc) = contribute_elements E ps key acc"
    by (simp add: AccumulatorElements.truncate_def)
  then show thesis
    by (intro that [OF computation_stored [OF laws ps inside batch i input(2) s]])
      (simp_all add: stored_read_back [OF laws contribute_shape [OF shape] contribute_valid [OF laws input(2)] s
          split_nonempty [OF i(1)]])
qed

text \<open>
  C11. A contribution multiplies every element of the chunk by its power of the secrets. For every input
  buffer that is read as an accumulator of points of the subgroups, in both proving systems, in each of the
  compressions, for every batch size of at least two, and for every chunk that starts within the powers,
  computation succeeds, and the output buffer is read as the accumulator in which the i-th element of the
  chunk that starts at k is multiplied by tau^(k+i), with the factors alpha and beta where they belong, and
  Marlin's elements of the first chunk by the powers of their degree bounds.\<close>

theorem computation_contributes:
  assumes "engine_laws E" "ps = parameters_new mode index sz (curve_parameters_new E) system log2 batch"
    and "first_element ps < total_size_in_g1 system log2" "2 \<le> batch" "get_length ps cout \<le> length output"
    and "deserialize E input cin check ps = Inr acc" "elements_valid E CheckNo acc"
  shows "case computation E input output cin cout check key ps of
      Inl e \<Rightarrow> False
    | Inr output' \<Rightarrow> length output' = length output \<and>
        deserialize E output' cout CheckNo ps = Inr (contribute_elements E ps key acc)"
proof -
  obtain outp where "computation E input output cin cout check key ps = Inr outp" "length outp = length output"
    "deserialize E outp cout CheckNo ps = Inr (contribute_elements E ps key acc)"
    by (rule computation_ok [OF assms])
  then show ?thesis by simp
qed

definition example_key :: "GF3 PrivateKey" where
  "example_key = \<lparr>sk_tau = Two3, sk_alpha = One3, sk_beta = Two3\<rparr>"

lemma example_chunk:
  "first_element (example_parameters system) < total_size_in_g1 system 1" "elements_valid example_engine CheckNo example_elements"
  using example_elements_ok(2) by (cases system; simp add: first_element_def example_parameters_def elements_valid_def valid_points_def)+

theorem computation_contributes_witness:
  "case computation example_engine (example_buffer Yes) (replicate 100 0) Yes No CheckFull example_key (example_parameters Groth16) of
      Inl e \<Rightarrow> False
    | Inr output' \<Rightarrow> length output' = 100 \<and>
        deserialize example_engine output' No CheckNo (example_parameters Groth16) =
          Inr (contribute_elements example_engine (example_parameters Groth16) example_key example_elements)"
  using computation_contributes [OF example_engine_laws example_parameters_def example_chunk(1) _ _
      example_buffer_elements [of Yes] example_chunk(2), of No "replicate 100 0" example_key] example_elements_ok(4)
  by (simp split: sum.splits)

section \<open>A sequence of contributions\<close>

definition key_mult :: "'f::field PrivateKey \<Rightarrow> 'f PrivateKey \<Rightarrow> 'f PrivateKey" where
  "key_mult k k' = \<lparr>sk_tau = sk_tau k * sk_tau k', sk_alpha = sk_alpha k * sk_alpha k', sk_beta = sk_beta k * sk_beta k'\<rparr>"

lemma weight_mult:
  "power_weight ps (key_mult k k') i = power_weight ps k i * power_weight ps k' i"
  "tau_g2_weight ps (key_mult k k') i = tau_g2_weight ps k i * tau_g2_weight ps k' i"
  "alpha_weight ps (key_mult k k') i = alpha_weight ps k i * alpha_weight ps k' i"
  "beta_weight ps (key_mult k k') i = beta_weight ps k i * beta_weight ps k' i"
  by (simp_all add: power_weight_def tau_g2_weight_def alpha_weight_def beta_weight_def key_mult_def power_mult_distrib
      mult_ac split: ProvingSystem.splits)

lemma scale_points_mult:
  assumes "curve_laws C" "valid_points C check xs"
  shows "scale_points C w' (scale_points C w xs) = scale_points C (\<lambda>i. w i * w' i) xs"
  using assms by (auto simp: valid_points_def curve_lawsD(4) intro!: nth_equalityI)

lemma contribute_contribute:
  assumes "engine_laws E" "elements_valid E check acc"
  shows "contribute_elements E ps k' (contribute_elements E ps k acc) = contribute_elements E ps (key_mult k k') acc"
proof -
  note l = engine_lawsD [OF assms(1)]
  have b: "sk_beta (key_mult k k') = sk_beta k * sk_beta k'" by (simp add: key_mult_def)
  show ?thesis
    using assms(2) unfolding contribute_elements_def elements_valid_def
    by (auto simp: scale_points_mult [OF l(1), of check] scale_points_mult [OF l(2), of check] weight_mult [abs_def] b
        valid_points_def [of "g2_affine E" check "[acc_beta_g2 acc]"] curve_lawsD(4) [OF l(2)] split: ProvingSystem.splits)
qed

text \<open>The buffers that contributors produce one after the other.\<close>

fun contributions ::
  "('f::field, 'g::ab_group_add, 'h::ab_group_add, 't) PairingEngine \<Rightarrow> UseCompression \<Rightarrow> Phase1Parameters \<Rightarrow>
   'f PrivateKey list \<Rightarrow> bytes \<Rightarrow> bytes or_error" where
  "contributions E c ps [] buffer = Inr buffer"
| "contributions E c ps (key # keys) buffer =
     result_bind (computation E buffer (replicate (get_length ps c) 0) c c CheckNo key ps) (contributions E c ps keys)"

lemma contributions_ok:
  assumes "engine_laws E" "ps = parameters_new mode index sz (curve_parameters_new E) system log2 batch"
    and "first_element ps < total_size_in_g1 system log2" "2 \<le> batch"
    and "deserialize E input c CheckNo ps = Inr acc" "elements_valid E CheckNo acc"
  shows "\<exists>output. contributions E c ps keys input = Inr output \<and>
    deserialize E output c CheckNo ps = Inr (foldl (\<lambda>acc key. contribute_elements E ps key acc) acc keys)"
  using assms(5,6)
proof (induction keys arbitrary: input acc)
  case (Cons key keys)
  obtain outp where "computation E input (replicate (get_length ps c) 0) c c CheckNo key ps = Inr outp"
    "deserialize E outp c CheckNo ps = Inr (contribute_elements E ps key acc)"
    by (rule computation_ok [OF assms(1-4), of c "replicate (get_length ps c) 0" input c CheckNo acc key])
      (use Cons.prems in simp_all)
  with Cons.IH [of outp "contribute_elements E ps key acc"] contribute_valid [OF assms(1) Cons.prems(2), of ps key]
  show ?case by simp
qed simp

text \<open>The accumulator of given secrets.\<close>

definition accumulator_of ::
  "('f::field, 'g, 'h, 't) PairingEngine \<Rightarrow> Phase1Parameters \<Rightarrow> 'f PrivateKey \<Rightarrow> ('g, 'h) AccumulatorElements" where
  "accumulator_of E ps key =
     (let (n2, na, nb, nb2) = other_elements ps;
          one_g1 = prime_subgroup_generator (g1_affine E); one_g2 = prime_subgroup_generator (g2_affine E)
      in \<lparr>tau_powers_g1 = map (\<lambda>i. point_mul (g1_affine E) one_g1 (power_weight ps key i)) [0..<g1_chunk_size ps],
          tau_powers_g2 = map (\<lambda>i. point_mul (g2_affine E) one_g2 (tau_g2_weight ps key i)) [0..<n2],
          alpha_tau_powers_g1 = map (\<lambda>i. point_mul (g1_affine E) one_g1 (alpha_weight ps key i)) [0..<na],
          beta_tau_powers_g1 = map (\<lambda>i. point_mul (g1_affine E) one_g1 (beta_weight ps key i)) [0..<nb],
          acc_beta_g2 = (case p1_proving_system ps of
             Groth16 \<Rightarrow> point_mul (g2_affine E) one_g2 (sk_beta key) | Marlin \<Rightarrow> one_g2)\<rparr>)"

definition key_one :: "'f::field PrivateKey" where
  "key_one = \<lparr>sk_tau = 1, sk_alpha = 1, sk_beta = 1\<rparr>"

lemma contribute_initial: "contribute_elements E ps key (initial_elements E ps) = accumulator_of E ps key"
  by (auto simp: contribute_elements_def initial_elements_def accumulator_of_def scale_points_def Let_def split: prod.splits
      ProvingSystem.splits intro!: map_cong)

lemma weight_one:
  "power_weight ps key_one i = 1" "tau_g2_weight ps key_one i = 1" "alpha_weight ps key_one i = 1"
  "beta_weight ps key_one i = 1" "sk_beta key_one = 1"
  by (simp_all add: key_one_def power_weight_def tau_g2_weight_def alpha_weight_def beta_weight_def
      split: ProvingSystem.splits)

lemma accumulator_of_one: "engine_laws E \<Longrightarrow> accumulator_of E ps key_one = initial_elements E ps"
  by (auto simp: accumulator_of_def initial_elements_def weight_one engine_laws_def curve_lawsD map_replicate_const
      Let_def split: prod.splits ProvingSystem.splits)

lemma accumulator_of_valid: "engine_laws E \<Longrightarrow> elements_valid E CheckNo (accumulator_of E ps key)"
  unfolding contribute_initial [symmetric] by (intro contribute_valid [of _ CheckNo] initial_elements_valid)

lemma contribute_accumulator:
  assumes "engine_laws E"
  shows "contribute_elements E ps k (accumulator_of E ps key) = accumulator_of E ps (key_mult key k)"
  unfolding contribute_initial [symmetric]
  by (rule contribute_contribute [OF assms initial_elements_valid [OF assms]])

lemma contribute_sequence:
  "engine_laws E \<Longrightarrow> foldl (\<lambda>acc key. contribute_elements E ps key acc) (accumulator_of E ps key) keys =
     accumulator_of E ps (foldl key_mult key keys)"
  by (induction keys arbitrary: key) (simp_all add: contribute_accumulator)

lemma ceremony_ok:
  assumes "engine_laws E" "ps = parameters_new mode index sz (curve_parameters_new E) system log2 batch"
    and "first_element ps < total_size_in_g1 system log2" "0 < g1_chunk_size ps" "2 \<le> batch"
  obtains outp where
    "result_bind (initialization E (replicate (get_length ps c) 0) c ps) (contributions E c ps keys) = Inr outp"
    "deserialize E outp c CheckNo ps = Inr (accumulator_of E ps (foldl key_mult key_one keys))"
proof -
  have len: "get_length ps c \<le> length (replicate (get_length ps c) (0 :: u8))" by simp
  obtain s where s: "split_mut E (replicate (get_length ps c) 0) ps c = Inr s"
    using split_mut_exists [OF assms(2) len] by blast
  obtain start where start: "initialization E (replicate (get_length ps c) 0) c ps = Inr start"
    "deserialize E start c CheckNo ps = Inr (initial_elements E ps)"
    using initialization_stored [OF assms(1) s]
      stored_read_back(2) [OF assms(1) initial_elements_shape initial_elements_valid [OF assms(1)] s assms(4)]
    by (simp add: AccumulatorElements.truncate_def)
  obtain outp where "contributions E c ps keys start = Inr outp"
    "deserialize E outp c CheckNo ps = Inr (foldl (\<lambda>acc key. contribute_elements E ps key acc) (initial_elements E ps) keys)"
    using contributions_ok [OF assms(1-3,5) start(2) initial_elements_valid [OF assms(1)]] by blast
  with start(1) that show ?thesis
    by (simp add: accumulator_of_one [OF assms(1), symmetric] contribute_sequence [OF assms(1)])
qed

text \<open>
  C5. A sequence of contributions to the initial accumulator produces the accumulator of the product of all
  secrets: with any number of contributors, every chunk, in both proving systems, holds the powers of the
  product of their taus, with the products of their alphas and of their betas.\<close>

theorem ceremony_accumulates_secrets:
  assumes "engine_laws E" "ps = parameters_new mode index sz (curve_parameters_new E) system log2 batch"
    and "first_element ps < total_size_in_g1 system log2" "0 < g1_chunk_size ps" "2 \<le> batch"
  shows "case result_bind (initialization E (replicate (get_length ps c) 0) c ps) (contributions E c ps keys) of
      Inl e \<Rightarrow> False
    | Inr output \<Rightarrow>
        deserialize E output c CheckNo ps = Inr (accumulator_of E ps (foldl key_mult key_one keys))"
proof -
  obtain outp where "result_bind (initialization E (replicate (get_length ps c) 0) c ps) (contributions E c ps keys) = Inr outp"
    "deserialize E outp c CheckNo ps = Inr (accumulator_of E ps (foldl key_mult key_one keys))"
    by (rule ceremony_ok [OF assms])
  then show ?thesis by simp
qed

theorem ceremony_accumulates_secrets_witness:
  "case result_bind (initialization example_engine (replicate (get_length (example_parameters Marlin) Yes) 0) Yes
        (example_parameters Marlin)) (contributions example_engine Yes (example_parameters Marlin) [example_key, example_key]) of
      Inl e \<Rightarrow> False
    | Inr output \<Rightarrow>
        deserialize example_engine output Yes CheckNo (example_parameters Marlin) =
          Inr (accumulator_of example_engine (example_parameters Marlin) (foldl key_mult key_one [example_key, example_key]))"
  by (rule ceremony_accumulates_secrets [OF example_engine_laws example_parameters_def example_chunk(1) example_elements_ok(3)])
    simp

end
