(* ===== verification/Multiexp.thy ===== *)
theory Multiexp
  imports Example_Engine
begin

text \<open>
  The multi-exponentiation of \<^verbatim>\<open>setup-utils/src/helpers.rs\<close>: \<^verbatim>\<open>dense_multiexp\<close> by buckets, one region
  of \<open>c\<close> bits of the exponents after the other. Exponents are the integers that represent scalars. The
  number of processors, the bits of the scalar field and the rounded logarithm, a floating point
  operation, are arguments. The recursion does not end for \<open>c = 0\<close>, then the value is \<open>None\<close>.
\<close>

text \<open>One pair of base and exponent; the buckets hold the sums of the bases by their digits.\<close>

definition fill_bucket ::
  "nat \<Rightarrow> nat \<Rightarrow> bool \<Rightarrow> 'g::ab_group_add \<times> nat \<Rightarrow> 'g \<times> 'g list \<Rightarrow> 'g \<times> 'g list" where
  "fill_bucket skip c handle_trivial pair state =
     (let (base, exp) = pair; (acc, buckets) = state in
      if exp \<noteq> 0 then
        if exp = 1 then (if handle_trivial then (acc + base, buckets) else (acc, buckets))
        else
          (let e = (exp div 2 ^ skip) mod 2 ^ 64 mod 2 ^ c in
           if e \<noteq> 0 then (acc, buckets[e - 1 := buckets ! (e - 1) + base]) else (acc, buckets))
      else (acc, buckets))"

definition sum_buckets :: "'g::ab_group_add \<Rightarrow> 'g list \<Rightarrow> 'g" where
  "sum_buckets acc buckets =
     snd (foldl (\<lambda>(running_sum, acc) exp. (running_sum + exp, acc + (running_sum + exp))) (0, acc) (rev buckets))"

definition region_of_chunk :: "nat \<Rightarrow> nat \<Rightarrow> bool \<Rightarrow> 'g::ab_group_add list \<times> nat list \<Rightarrow> 'g" where
  "region_of_chunk skip c handle_trivial chunk =
     (let (acc, buckets) = fold (fill_bucket skip c handle_trivial) (zip (fst chunk) (snd chunk)) (0, replicate (2 ^ c - 1) 0)
      in sum_buckets acc buckets)"

definition region :: "nat \<Rightarrow> nat \<Rightarrow> nat \<Rightarrow> bool \<Rightarrow> 'g::ab_group_add list \<Rightarrow> nat list \<Rightarrow> 'g" where
  "region num_cpus skip c handle_trivial bases exponents =
     (let chunk = length bases div num_cpus + 1 in
      sum_list (map (region_of_chunk skip c handle_trivial) (zip (chunks_of chunk bases) (chunks_of chunk exponents))))"

partial_function (option) dense_multiexp_inner ::
  "nat \<Rightarrow> nat \<Rightarrow> 'g::ab_group_add list \<Rightarrow> nat list \<Rightarrow> nat \<Rightarrow> nat \<Rightarrow> bool \<Rightarrow> 'g option" where
  "dense_multiexp_inner num_cpus size_in_bits bases exponents skip c handle_trivial =
     (let this = region num_cpus skip c handle_trivial bases exponents; skip = skip + c in
      if size_in_bits \<le> skip then Some this
      else
        Option.bind (dense_multiexp_inner num_cpus size_in_bits bases exponents skip c False) (\<lambda>next_region.
          Some (((\<lambda>p. p + p) ^^ c) next_region + this)))"

text \<open>\<open>None\<close> also stands for the panic on lists of different lengths.\<close>

definition dense_multiexp ::
  "nat \<Rightarrow> nat \<Rightarrow> (nat \<Rightarrow> nat) \<Rightarrow> 'g::ab_group_add list \<Rightarrow> nat list \<Rightarrow> 'g option" where
  "dense_multiexp num_cpus size_in_bits ln_ceil bases exponents =
     (if length exponents \<noteq> length bases then None
      else
        dense_multiexp_inner num_cpus size_in_bits bases exponents 0
          (if length exponents < 32 then 3 else ln_ceil (length exponents)) True)"

section \<open>Multiples of a point\<close>

definition nmul :: "nat \<Rightarrow> 'g::ab_group_add \<Rightarrow> 'g" where
  "nmul n p = (((+) p) ^^ n) 0"

lemma nmul_simps [simp]: "nmul 0 p = 0" "nmul (Suc n) p = p + nmul n p"
  by (simp_all add: nmul_def)

lemma nmul_add: "nmul (m + n) p = nmul m p + nmul n p"
  by (induction m) (simp_all add: add.assoc)

lemma nmul_mult: "nmul (m * n) p = nmul m (nmul n p)"
  by (induction m) (simp_all add: nmul_add)

lemma nmul_plus: "nmul n (p + q) = nmul n p + nmul n q"
  by (induction n) (simp_all add: ac_simps)

lemma nmul_zero [simp]: "nmul n 0 = 0"
  by (induction n) simp_all

lemma nmul_double: "((\<lambda>p. p + p) ^^ c) p = nmul (2 ^ c) p"
proof (induction c)
  case (Suc c)
  then show ?case by (simp add: mult_2 nmul_add)
qed simp

text \<open>The reference: the sum of the multiples.\<close>

definition multiexp :: "'g::ab_group_add list \<Rightarrow> nat list \<Rightarrow> 'g" where
  "multiexp bases exponents = sum_list (map2 (\<lambda>p e. nmul e p) bases exponents)"

lemma multiexp_simps [simp]:
  "multiexp [] es = 0" "multiexp ps [] = 0" "multiexp (p # ps) (e # es) = nmul e p + multiexp ps es"
  by (simp_all add: multiexp_def)

lemma multiexp_append:
  "length ps = length es \<Longrightarrow> multiexp (ps @ ps') (es @ es') = multiexp ps es + multiexp ps' es'"
  by (simp add: multiexp_def)

lemma multiexp_map_nmul:
  "multiexp ps (map (\<lambda>e. f e + k * g e) es) = multiexp ps (map f es) + nmul k (multiexp ps (map g es))"
proof (induction ps arbitrary: es)
  case (Cons p ps)
  show ?case
  proof (cases es)
    case (Cons e es')
    then show ?thesis using Cons.IH [of es'] by (simp add: nmul_add nmul_plus nmul_mult ac_simps)
  qed simp
qed simp

section \<open>Buckets\<close>

definition bucket_value :: "'g::ab_group_add \<times> 'g list \<Rightarrow> 'g" where
  "bucket_value state = fst state + (\<Sum>j<length (snd state). nmul (Suc j) (snd state ! j))"

lemma sum_buckets_value: "sum_buckets acc buckets = bucket_value (acc, buckets)"
proof -
  have "foldl (\<lambda>(r, acc) e. (r + e, acc + (r + e))) (r, acc) ys =
      (r + sum_list ys, acc + nmul (length ys) r + (\<Sum>k<length ys. nmul (length ys - k) (ys ! k)))" for r acc and ys :: "'a list"
  proof (induction ys arbitrary: r acc)
    case (Cons y ys)
    have "(\<Sum>k<Suc (length ys). nmul (Suc (length ys) - k) ((y # ys) ! k)) =
        nmul (Suc (length ys)) y + (\<Sum>k<length ys. nmul (length ys - k) (ys ! k))"
      by (subst sum.lessThan_Suc_shift) simp
    with Cons show ?case by (simp add: nmul_plus ac_simps)
  qed simp
  from this [of 0 acc "rev buckets"]
  have "sum_buckets acc buckets = acc + (\<Sum>k<length buckets. nmul (length buckets - k) (rev buckets ! k))"
    by (simp add: sum_buckets_def)
  also have "(\<Sum>k<length buckets. nmul (length buckets - k) (rev buckets ! k)) =
      (\<Sum>j<length buckets. nmul (Suc j) (buckets ! j))"
    by (subst sum.nat_diff_reindex [symmetric]) (auto simp: rev_nth Suc_diff_Suc intro!: sum.cong)
  finally show ?thesis by (simp add: bucket_value_def)
qed

definition digit :: "nat \<Rightarrow> nat \<Rightarrow> nat \<Rightarrow> nat" where
  "digit skip c e = (e div 2 ^ skip) mod 2 ^ c"

lemma fill_bucket_value:
  assumes "0 < c" "c \<le> 64" "handle_trivial \<longleftrightarrow> skip = 0" "length (snd state) = 2 ^ c - 1"
  shows "bucket_value (fill_bucket skip c handle_trivial (p, e) state) = bucket_value state + nmul (digit skip c e) p"
    "length (snd (fill_bucket skip c handle_trivial (p, e) state)) = 2 ^ c - 1"
proof -
  obtain acc bs where st: "state = (acc, bs)" by (cases state)
  have low: "(e div 2 ^ skip) mod 2 ^ 64 mod 2 ^ c = digit skip c e"
    unfolding digit_def by (rule mod_mod_cancel [OF le_imp_power_dvd [OF assms(2)]])
  have one: "digit skip c 1 = (if skip = 0 then 1 else 0)"
    using assms(1) one_less_power [of "2 :: nat" skip] by (simp add: digit_def)
  have zero: "digit skip c 0 = 0" by (simp add: digit_def)
  have upd: "(\<Sum>j<length bs. nmul (Suc j) (bs[i := bs ! i + p] ! j)) = (\<Sum>j<length bs. nmul (Suc j) (bs ! j)) + nmul (Suc i) p"
    if "i < length bs" for i
  proof -
    have "(\<Sum>j<length bs. nmul (Suc j) (bs[i := bs ! i + p] ! j)) =
        (\<Sum>j<length bs. nmul (Suc j) (bs ! j) + (if j = i then nmul (Suc i) p else 0))"
      using that by (intro sum.cong) (auto simp: nth_list_update nmul_plus ac_simps)
    also have "\<dots> = (\<Sum>j<length bs. nmul (Suc j) (bs ! j)) + nmul (Suc i) p"
      unfolding sum.distrib using that by (simp add: sum.delta)
    finally show ?thesis .
  qed
  have small: "digit skip c e - 1 < length bs" if "digit skip c e \<noteq> 0"
  proof -
    have "digit skip c e < 2 ^ c" by (simp add: digit_def)
    with that assms(4) st show ?thesis by simp
  qed
  have fb: "fill_bucket skip c handle_trivial (p, e) state =
      (if e \<noteq> 0 then if e = 1 then (if handle_trivial then (acc + p, bs) else (acc, bs))
        else if digit skip c e \<noteq> 0 then (acc, bs[digit skip c e - 1 := bs ! (digit skip c e - 1) + p]) else (acc, bs)
       else (acc, bs))"
    by (simp only: st fill_bucket_def Let_def prod.case low)
  show "bucket_value (fill_bucket skip c handle_trivial (p, e) state) = bucket_value state + nmul (digit skip c e) p"
  proof (cases "e = 0 \<or> e = 1 \<or> digit skip c e = 0")
    case True
    with assms(3) one zero show ?thesis unfolding fb by (auto simp: st bucket_value_def ac_simps)
  next
    case False
    then have "fill_bucket skip c handle_trivial (p, e) state =
        (acc, bs[digit skip c e - 1 := bs ! (digit skip c e - 1) + p])"
      by (simp add: fb)
    with False upd [OF small] show ?thesis by (simp only: bucket_value_def st fst_conv snd_conv length_list_update) simp
  qed
  show "length (snd (fill_bucket skip c handle_trivial (p, e) state)) = 2 ^ c - 1"
    using assms(4) unfolding fb by (simp add: st)
qed

lemma chunks_of_Nil: "0 < n \<Longrightarrow> chunks_of n [] = []"
  by (simp add: chunks_of_def)

lemma chunks_of_step:
  assumes "0 < n" "xs \<noteq> []"
  shows "chunks_of n xs = take n xs # chunks_of n (drop n xs)"
proof -
  have "(length xs + n - 1) div n = Suc ((length (drop n xs) + n - 1) div n)"
  proof (cases "length xs \<le> n")
    case True
    moreover have "0 < length xs" using assms(2) by simp
    ultimately have "n * 1 \<le> length xs + n - 1" "length xs + n - 1 < n * Suc 1" using assms(1) by (simp_all, linarith)
    then have "(length xs + n - 1) div n = 1" by (rule div_nat_eqI)
    with True assms(1) show ?thesis by simp
  next
    case False
    then have "length xs + n - 1 = n + (length (drop n xs) + n - 1)" using assms(1) by simp
    then show ?thesis using assms(1) by (simp only: div_add_self1)
  qed
  then show ?thesis
    by (simp add: chunks_of_def upt_rec [of 0] map_Suc_upt [symmetric] add.commute del: upt_Suc)
qed

lemma fill_all:
  assumes "0 < c" "c \<le> 64" "handle_trivial \<longleftrightarrow> skip = 0" "length (snd state) = 2 ^ c - 1"
  shows "bucket_value (fold (fill_bucket skip c handle_trivial) (zip ps es) state) =
    bucket_value state + multiexp ps (map (digit skip c) es)"
  using assms(4)
proof (induction ps arbitrary: es state)
  case (Cons p ps)
  show ?case
  proof (cases es)
    case (Cons e es')
    then show ?thesis
      using Cons.IH [OF fill_bucket_value(2) [OF assms(1-3) Cons.prems], of es' p e]
        fill_bucket_value(1) [OF assms(1-3) Cons.prems, of p e]
      by (simp add: ac_simps)
  qed simp
qed simp

lemma region_of_chunk_value:
  assumes "0 < c" "c \<le> 64" "handle_trivial \<longleftrightarrow> skip = 0"
  shows "region_of_chunk skip c handle_trivial (ps, es) = multiexp ps (map (digit skip c) es)"
  using fill_all [OF assms, of "(0, replicate (2 ^ c - 1) 0)" ps es]
  by (simp add: region_of_chunk_def sum_buckets_value split_beta bucket_value_def)

lemma region_value:
  assumes "0 < c" "c \<le> 64" "handle_trivial \<longleftrightarrow> skip = 0" "length ps = length es"
  shows "region num_cpus skip c handle_trivial ps es = multiexp ps (map (digit skip c) es)"
proof -
  have "sum_list (map (region_of_chunk skip c handle_trivial) (zip (chunks_of n ps) (chunks_of n es))) =
      multiexp ps (map (digit skip c) es)" if "0 < n" for n
    using assms(4)
  proof (induction "length ps" arbitrary: ps es rule: less_induct)
    case less
    show ?case
    proof (cases "ps = []")
      case False
      then have ne: "es \<noteq> []" using less.prems by auto
      have "multiexp ps (map (digit skip c) es) =
          multiexp (take n ps) (map (digit skip c) (take n es)) + multiexp (drop n ps) (map (digit skip c) (drop n es))"
        using multiexp_append [of "take n ps" "map (digit skip c) (take n es)" "drop n ps" "map (digit skip c) (drop n es)"] less.prems
        by (simp flip: map_append)
      then show ?thesis
        using less.hyps [of "drop n ps" "drop n es"] less.prems that False ne
        by (simp add: chunks_of_step [OF that False] chunks_of_step [OF that ne] region_of_chunk_value [OF assms(1-3)])
    qed (simp add: chunks_of_Nil that)
  qed
  then show ?thesis by (simp add: region_def Let_def)
qed

section \<open>The whole multi-exponentiation\<close>

lemma digits: "e div 2 ^ skip = digit skip c e + 2 ^ c * (e div 2 ^ (skip + c))"
  by (simp add: digit_def power_add div_mult2_eq)

lemma dense_multiexp_inner_value:
  assumes "0 < c" "c \<le> 64" "length ps = length es" "\<forall>e\<in>set es. e < 2 ^ bits"
  shows "dense_multiexp_inner num_cpus bits ps es skip c (skip = 0) = Some (multiexp ps (map (\<lambda>e. e div 2 ^ skip) es))"
proof (induction "bits - skip" arbitrary: skip rule: less_induct)
  case less
  have this_region: "region num_cpus skip c (skip = 0) ps es = multiexp ps (map (digit skip c) es)"
    by (rule region_value [OF assms(1,2) refl assms(3)])
  show ?case
  proof (cases "bits \<le> skip + c")
    case True
    have "digit skip c e = e div 2 ^ skip" if "e \<in> set es" for e
    proof -
      have "(2 :: nat) ^ bits \<le> 2 ^ (skip + c)" by (rule power_increasing [OF True]) simp
      then have "e < 2 ^ (skip + c)" using assms(4) that by (meson less_le_trans)
      then show ?thesis by (simp add: digit_def power_add less_mult_imp_div_less mult.commute)
    qed
    then have "map (digit skip c) es = map (\<lambda>e. e div 2 ^ skip) es" by simp
    with True this_region show ?thesis by (subst dense_multiexp_inner.simps) (simp add: Let_def)
  next
    case False
    have "dense_multiexp_inner num_cpus bits ps es (skip + c) c (skip + c = 0) =
        Some (multiexp ps (map (\<lambda>e. e div 2 ^ (skip + c)) es))"
      by (rule less.hyps) (use False assms(1) in simp)
    then have "dense_multiexp_inner num_cpus bits ps es (skip + c) c False =
        Some (multiexp ps (map (\<lambda>e. e div 2 ^ (skip + c)) es))" using assms(1) by simp
    moreover have "map (\<lambda>e. e div 2 ^ skip) es = map (\<lambda>e. digit skip c e + 2 ^ c * (e div 2 ^ (skip + c))) es"
      by (intro map_cong refl digits)
    ultimately show ?thesis
      using False this_region unfolding dense_multiexp_inner.simps [of _ _ _ _ skip]
      by (simp only: Let_def if_False Option.bind.bind_lunit nmul_double multiexp_map_nmul add.commute)
  qed
qed

lemma dense_multiexp_value:
  assumes "length es = length ps" "\<forall>e\<in>set es. e < 2 ^ size_in_bits"
    and "32 \<le> length es \<longrightarrow> 0 < ln_ceil (length es) \<and> ln_ceil (length es) \<le> 64"
  shows "dense_multiexp num_cpus size_in_bits ln_ceil ps es = Some (multiexp ps es)"
proof -
  let ?c = "if length es < 32 then 3 else ln_ceil (length es)"
  have c: "0 < ?c" "?c \<le> 64" using assms(3) by simp_all
  have "dense_multiexp_inner num_cpus size_in_bits ps es 0 ?c (0 = (0 :: nat)) = Some (multiexp ps (map (\<lambda>e. e div 2 ^ 0) es))"
    by (rule dense_multiexp_inner_value [OF c assms(1) [symmetric] assms(2)])
  moreover have "map (\<lambda>e. e div 2 ^ 0) es = es" by simp
  ultimately show ?thesis using assms(1) by (simp only: dense_multiexp_def simp_thms if_False)
qed

text \<open>
  C21. The multi-exponentiation by buckets terminates and computes the sum of the multiples: for bases and
  exponents of the same number, exponents of at most the bits of the scalar field, and a region size that
  the rounded logarithm gives between 1 and 64 bits, on any number of processors.\<close>

theorem dense_multiexp_correct:
  assumes "length es = length ps" "\<forall>e\<in>set es. e < 2 ^ size_in_bits"
    and "32 \<le> length es \<longrightarrow> 0 < ln_ceil (length es) \<and> ln_ceil (length es) \<le> 64"
  shows "dense_multiexp num_cpus size_in_bits ln_ceil ps es = Some (multiexp ps es)"
  using assms by (rule dense_multiexp_value)

theorem dense_multiexp_correct_witness:
  "dense_multiexp 4 8 (\<lambda>n. 3) [1, 2, 3 :: int] [5, 0, 255] = Some (multiexp [1, 2, 3] [5, 0, 255])"
  using dense_multiexp_correct [of "[5, 0, 255]" "[1, 2, 3 :: int]" 8 "\<lambda>n. 3" 4] by simp

end
