(* ===== verification/Phase1_Keys.thy ===== *)
theory Phase1_Keys
  imports Phase1_Computation Multiexp
begin

text \<open>
  Key pairs: \<^verbatim>\<open>phase1/src/objects/public_key.rs\<close>, \<^verbatim>\<open>phase1/src/key_generation.rs\<close>, and the hashing to G2
  of \<^verbatim>\<open>setup-utils/src/helpers.rs\<close>. The hash function, the stream cipher that serves as a generator of
  random bytes and the maps into the curve are third-party code, the record \<open>HashOps\<close>. The loop of
  \<^verbatim>\<open>hash_to_g2\<close> may not end, then its value is \<open>None\<close>.
\<close>

record ('g, 'h) PublicKey =
  pk_tau_g1 :: "'g \<times> 'g"
  pk_alpha_g1 :: "'g \<times> 'g"
  pk_beta_g1 :: "'g \<times> 'g"
  pk_tau_g2 :: 'h
  pk_alpha_g2 :: 'h
  pk_beta_g2 :: 'h

record 'h HashOps =
  blake2b :: "bytes \<Rightarrow> bytes"
  chacha_byte :: "bytes \<Rightarrow> nat \<Rightarrow> u8"
  from_random_bytes :: "bytes \<Rightarrow> 'h option"
  mul_by_cofactor :: "'h \<Rightarrow> 'h"

text \<open>A computation that may not end, or fail.\<close>

definition run_bind :: "'a or_error option \<Rightarrow> ('a \<Rightarrow> 'b or_error option) \<Rightarrow> 'b or_error option" where
  "run_bind r f = (case r of None \<Rightarrow> None | Some (Inl e) \<Rightarrow> Some (Inl e) | Some (Inr a) \<Rightarrow> f a)"

lemma run_bind_simps [simp]:
  "run_bind None f = None" "run_bind (Some (Inl e)) f = Some (Inl e)" "run_bind (Some (Inr a)) f = f a"
  by (simp_all add: run_bind_def)

lemma run_bind_ok_iff: "run_bind r f = Some (Inr b) \<longleftrightarrow> (\<exists>a. r = Some (Inr a) \<and> f a = Some (Inr b))"
  by (auto simp: run_bind_def split: option.splits sum.splits)

section \<open>Hashing to G2\<close>

text \<open>The first 32 bytes; panics if there are fewer.\<close>

definition from_slice :: "bytes \<Rightarrow> bytes or_error" where
  "from_slice bs = (if length bs < 32 then Inl Panic else Inr (take 32 bs))"

text \<open>The point of the \<open>k\<close>-th draw.\<close>

definition draw_point :: "'h HashOps \<Rightarrow> usize \<Rightarrow> bytes \<Rightarrow> nat \<Rightarrow> 'h option" where
  "draw_point ops n seed k = from_random_bytes ops (map (\<lambda>i. chacha_byte ops seed (k * n + i)) [0..<n])"

partial_function (option) hash_to_g2_loop :: "'h::ab_group_add HashOps \<Rightarrow> usize \<Rightarrow> bytes \<Rightarrow> nat \<Rightarrow> 'h option" where
  "hash_to_g2_loop ops n seed k =
     (case draw_point ops n seed k of
        Some p \<Rightarrow>
          (let scaled = mul_by_cofactor ops p in
           if scaled \<noteq> 0 then Some scaled else hash_to_g2_loop ops n seed (k + 1))
      | None \<Rightarrow> hash_to_g2_loop ops n seed (k + 1))"

definition hash_to_g2 ::
  "('f, 'g, 'h::ab_group_add, 't) PairingEngine \<Rightarrow> 'h HashOps \<Rightarrow> bytes \<Rightarrow> 'h or_error option" where
  "hash_to_g2 E ops digest =
     run_bind (Some (from_slice digest)) (\<lambda>seed.
       map_option Inr (hash_to_g2_loop ops (serialized_size (g2_affine E)) seed 0))"

definition compute_g2_s ::
  "('f, 'g, 'h::ab_group_add, 't) PairingEngine \<Rightarrow> 'h HashOps \<Rightarrow> bytes \<Rightarrow> 'g \<Rightarrow> 'g \<Rightarrow> u8 \<Rightarrow> 'h or_error option" where
  "compute_g2_s E ops digest g1_s g1_s_x personalization =
     (let C = g1_affine E; n = serialized_size C in
      run_bind (Some (write_element C Yes g1_s (replicate n 0))) (\<lambda>data.
      run_bind (Some (write_element C Yes g1_s_x (replicate n 0))) (\<lambda>data'.
        hash_to_g2 E ops (blake2b ops (personalization # digest @ data @ data')))))"

definition compute_g2_s_key ::
  "('f, 'g, 'h::ab_group_add, 't) PairingEngine \<Rightarrow> 'h HashOps \<Rightarrow> ('g, 'h) PublicKey \<Rightarrow> bytes \<Rightarrow> ('h \<times> 'h \<times> 'h) or_error option" where
  "compute_g2_s_key E ops key digest =
     run_bind (compute_g2_s E ops digest (fst (pk_tau_g1 key)) (snd (pk_tau_g1 key)) 0) (\<lambda>tau_g2_s.
     run_bind (compute_g2_s E ops digest (fst (pk_alpha_g1 key)) (snd (pk_alpha_g1 key)) 1) (\<lambda>alpha_g2_s.
     run_bind (compute_g2_s E ops digest (fst (pk_beta_g1 key)) (snd (pk_beta_g1 key)) 2) (\<lambda>beta_g2_s.
       Some (Inr (tau_g2_s, alpha_g2_s, beta_g2_s)))))"

section \<open>Key generation\<close>

text \<open>The draws of the random generator, in their order: three scalars, then three points of G1.\<close>

record ('f, 'g) KeyDraws =
  draw_tau :: 'f
  draw_alpha :: 'f
  draw_beta :: 'f
  draw_tau_s :: 'g
  draw_alpha_s :: 'g
  draw_beta_s :: 'g

definition key_op ::
  "('f, 'g, 'h::ab_group_add, 't) PairingEngine \<Rightarrow> 'h HashOps \<Rightarrow> bytes \<Rightarrow> 'g \<Rightarrow> 'f \<Rightarrow> u8 \<Rightarrow>
   (('g \<times> 'g) \<times> 'h) or_error option" where
  "key_op E ops digest g1_s x personalization =
     (let g1_s_x = point_mul (g1_affine E) g1_s x in
      run_bind (compute_g2_s E ops digest g1_s g1_s_x personalization) (\<lambda>g2_s.
        Some (Inr ((g1_s, g1_s_x), point_mul (g2_affine E) g2_s x))))"

definition key_generation ::
  "('f, 'g, 'h::ab_group_add, 't) PairingEngine \<Rightarrow> 'h HashOps \<Rightarrow> ('f, 'g) KeyDraws \<Rightarrow> bytes \<Rightarrow>
   (('g, 'h) PublicKey \<times> 'f PrivateKey) or_error option" where
  "key_generation E ops rng digest =
     (if length digest \<noteq> 64 then Some (Inl (InvalidLength 64 (length digest)))
      else
        run_bind (key_op E ops digest (draw_tau_s rng) (draw_tau rng) 0) (\<lambda>pk_tau.
        run_bind (key_op E ops digest (draw_alpha_s rng) (draw_alpha rng) 1) (\<lambda>pk_alpha.
        run_bind (key_op E ops digest (draw_beta_s rng) (draw_beta rng) 2) (\<lambda>pk_beta.
          Some (Inr
            (\<lparr>pk_tau_g1 = fst pk_tau, pk_alpha_g1 = fst pk_alpha, pk_beta_g1 = fst pk_beta,
              pk_tau_g2 = snd pk_tau, pk_alpha_g2 = snd pk_alpha, pk_beta_g2 = snd pk_beta\<rparr>,
             \<lparr>sk_tau = draw_tau rng, sk_alpha = draw_alpha rng, sk_beta = draw_beta rng\<rparr>))))))"

section \<open>Public keys in a buffer\<close>

text \<open>The serialization that is derived for the struct: its fields in their order, compressed.\<close>

definition public_key_bytes :: "('f, 'g, 'h, 't) PairingEngine \<Rightarrow> ('g, 'h) PublicKey \<Rightarrow> bytes" where
  "public_key_bytes E key =
     encode (g1_affine E) Yes [fst (pk_tau_g1 key), snd (pk_tau_g1 key), fst (pk_alpha_g1 key), snd (pk_alpha_g1 key),
       fst (pk_beta_g1 key), snd (pk_beta_g1 key)] @
     encode (g2_affine E) Yes [pk_tau_g2 key, pk_alpha_g2 key, pk_beta_g2 key]"

definition public_key_position :: "UseCompression \<Rightarrow> Phase1Parameters \<Rightarrow> usize" where
  "public_key_position accumulator_was_compressed ps =
     (case accumulator_was_compressed of
        Yes \<Rightarrow> usize_sub (contribution_size ps) (public_key_size ps)
      | No \<Rightarrow> accumulator_size ps)"

definition public_key_write ::
  "('f, 'g, 'h, 't) PairingEngine \<Rightarrow> ('g, 'h) PublicKey \<Rightarrow> bytes \<Rightarrow> UseCompression \<Rightarrow> Phase1Parameters \<Rightarrow> bytes or_error" where
  "public_key_write E key output_map accumulator_was_compressed ps =
     (let position = public_key_position accumulator_was_compressed ps; content = public_key_bytes E key in
      if length output_map < position then Inl Panic
      else if length output_map < position + length content then Inl ZexeSerializationError
      else Inr (take position output_map @ content @ drop (position + length content) output_map))"

text \<open>The elements of the derived deserialization, one after the other.\<close>

fun read_elements_exact ::
  "('f, 'g::ab_group_add) AffineCurve \<Rightarrow> nat \<Rightarrow> bytes \<Rightarrow> ('g list \<times> bytes) or_error" where
  "read_elements_exact C 0 bs = Inr ([], bs)"
| "read_elements_exact C (Suc n) bs =
     result_bind (read_element C Yes CheckNo bs) (\<lambda>p.
     result_bind (read_elements_exact C n (drop (buffer_size C Yes) bs)) (\<lambda>(ps, rest). Inr (p # ps, rest)))"

definition public_key_read ::
  "('f, 'g::ab_group_add, 'h::ab_group_add, 't) PairingEngine \<Rightarrow> bytes \<Rightarrow> UseCompression \<Rightarrow> Phase1Parameters \<Rightarrow>
   ('g, 'h) PublicKey or_error" where
  "public_key_read E input_map accumulator_was_compressed ps =
     (let position = public_key_position accumulator_was_compressed ps in
      if length input_map < position then Inl Panic
      else
        result_bind (read_elements_exact (g1_affine E) 6 (drop position input_map)) (\<lambda>(g1, rest).
        result_bind (read_elements_exact (g2_affine E) 3 rest) (\<lambda>(g2, _).
          Inr \<lparr>pk_tau_g1 = (g1 ! 0, g1 ! 1), pk_alpha_g1 = (g1 ! 2, g1 ! 3), pk_beta_g1 = (g1 ! 4, g1 ! 5),
               pk_tau_g2 = g2 ! 0, pk_alpha_g2 = g2 ! 1, pk_beta_g2 = g2 ! 2\<rparr>)))"

section \<open>The loop of hash\_to\_g2\<close>

definition usable_draw :: "'h::ab_group_add HashOps \<Rightarrow> usize \<Rightarrow> bytes \<Rightarrow> nat \<Rightarrow> 'h \<Rightarrow> bool" where
  "usable_draw ops n seed k p \<longleftrightarrow> map_option (mul_by_cofactor ops) (draw_point ops n seed k) = Some p \<and> p \<noteq> 0"

lemma hash_to_g2_loop_step:
  "hash_to_g2_loop ops n seed k =
     (if \<exists>p. usable_draw ops n seed k p then map_option (mul_by_cofactor ops) (draw_point ops n seed k)
      else hash_to_g2_loop ops n seed (Suc k))"
  by (subst hash_to_g2_loop.simps) (auto simp: usable_draw_def Let_def split: option.splits)

lemma hash_to_g2_loop_finds:
  assumes "usable_draw ops n seed m p" "k \<le> m" "\<forall>j. k \<le> j \<and> j < m \<longrightarrow> \<not> (\<exists>q. usable_draw ops n seed j q)"
  shows "hash_to_g2_loop ops n seed k = Some p"
  using assms(2,3)
proof (induction "m - k" arbitrary: k)
  case 0
  then show ?case using assms(1) by (subst hash_to_g2_loop_step) (auto simp: usable_draw_def)
next
  case (Suc d)
  then have "\<not> (\<exists>q. usable_draw ops n seed k q)" by simp
  then have "hash_to_g2_loop ops n seed k = hash_to_g2_loop ops n seed (Suc k)" by (subst hash_to_g2_loop_step) (simp only: if_False)
  then show ?case using Suc.hyps Suc.prems by simp
qed

lemma hash_to_g2_loop_found:
  assumes "hash_to_g2_loop ops n seed k = Some p"
  shows "\<exists>m\<ge>k. usable_draw ops n seed m p \<and> (\<forall>j. k \<le> j \<and> j < m \<longrightarrow> \<not> (\<exists>q. usable_draw ops n seed j q))"
proof -
  let ?P = "\<lambda>ops n seed k p. \<exists>m\<ge>k. usable_draw ops n seed m p \<and> (\<forall>j. k \<le> j \<and> j < m \<longrightarrow> \<not> (\<exists>q. usable_draw ops n seed j q))"
  show ?thesis
  proof (rule hash_to_g2_loop.raw_induct [where P = ?P, OF _ assms])
    fix loop :: "'a HashOps \<Rightarrow> nat \<Rightarrow> nat list \<Rightarrow> nat \<Rightarrow> 'a option" and ops n seed k p
    assume IH: "\<And>ops n seed k p. loop ops n seed k = Some p \<Longrightarrow> ?P ops n seed k p"
      and r: "(case draw_point ops n seed k of None \<Rightarrow> loop ops n seed (k + 1)
        | Some p \<Rightarrow> let scaled = mul_by_cofactor ops p in if scaled \<noteq> 0 then Some scaled else loop ops n seed (k + 1)) = Some p"
    show "?P ops n seed k p"
    proof (cases "\<exists>q. usable_draw ops n seed k q")
      case True
      with r show ?thesis by (intro exI [of _ k]) (auto simp: usable_draw_def Let_def split: option.splits if_splits)
    next
      case False
      with r have "loop ops n seed (k + 1) = Some p"
        by (auto simp: usable_draw_def Let_def split: option.splits if_splits)
      then obtain m where m: "k + 1 \<le> m" "usable_draw ops n seed m p"
        "\<forall>j. k + 1 \<le> j \<and> j < m \<longrightarrow> \<not> (\<exists>q. usable_draw ops n seed j q)" using IH by blast
      with False show ?thesis by (metis Suc_eq_plus1 Suc_leD le_antisym not_less_eq_eq)
    qed
  qed
qed

text \<open>
  C36. \<^verbatim>\<open>hash_to_g2\<close> returns exactly when the digest has at least 32 bytes and some draw of the generator gives
  a point that is not the identity after multiplication by the cofactor; then it returns the first such point.
  In particular it never returns the identity.\<close>

theorem hash_to_g2_returns_first:
  "hash_to_g2 E ops digest = Some (Inr p) \<longleftrightarrow>
     32 \<le> length digest \<and>
     (\<exists>k. usable_draw ops (serialized_size (g2_affine E)) (take 32 digest) k p \<and>
          \<not> (\<exists>j q. j < k \<and> usable_draw ops (serialized_size (g2_affine E)) (take 32 digest) j q))"
proof (cases "length digest < 32")
  case False
  let ?n = "serialized_size (g2_affine E)" and ?s = "take 32 digest"
  have "hash_to_g2 E ops digest = Some (Inr p) \<longleftrightarrow> hash_to_g2_loop ops ?n ?s 0 = Some p"
    using False by (auto simp: hash_to_g2_def from_slice_def)
  with False show ?thesis
    using hash_to_g2_loop_finds [of ops ?n ?s _ p 0] hash_to_g2_loop_found [of ops ?n ?s 0 p] by auto
qed (simp add: hash_to_g2_def from_slice_def)

section \<open>Public keys behind the accumulator\<close>

definition key_points_valid ::
  "('f, 'g::ab_group_add, 'h::ab_group_add, 't) PairingEngine \<Rightarrow> ('g, 'h) PublicKey \<Rightarrow> bool" where
  "key_points_valid E key \<longleftrightarrow>
     valid_points (g1_affine E) CheckNo [fst (pk_tau_g1 key), snd (pk_tau_g1 key), fst (pk_alpha_g1 key),
       snd (pk_alpha_g1 key), fst (pk_beta_g1 key), snd (pk_beta_g1 key)] \<and>
     valid_points (g2_affine E) CheckNo [pk_tau_g2 key, pk_alpha_g2 key, pk_beta_g2 key]"

lemma read_elements_exact_encoded:
  assumes "curve_laws C" "valid_points C CheckNo xs"
  shows "read_elements_exact C (length xs) (encode C Yes xs @ rest) = Inr (xs, rest)"
  using assms(2)
proof (induction xs)
  case (Cons x xs)
  then have x: "in_subgroup C x" "valid_points C CheckNo xs" by (simp_all add: valid_points_def)
  then show ?case
    using Cons.IH read_element_written [OF assms(1), of x Yes "encode C Yes xs @ rest"] curve_lawsD(6) [OF assms(1)]
    by simp
qed simp

lemma public_key_position_length: "public_key_position c ps = get_length ps c"
  by (simp add: public_key_position_def get_length_def)

lemma split_prefix:
  assumes "split_mut E (a @ b) ps c = Inr s"
    and "ps = parameters_new mode index sz (curve_parameters_new E) system log2 batch" "get_length ps c \<le> length a"
  obtains s' where "split_mut E (a @ b') ps c = Inr s'" "s' = s\<lparr>sb_rest := sb_rest s'\<rparr>"
proof -
  obtain s0 where s0: "a = join s0" "split_shape E ps c s0"
    using split_mut_exists [OF assms(2,3)] by (auto simp: split_mut_iff)
  have ext: "a @ d = join (s0\<lparr>sb_rest := sb_rest s0 @ d\<rparr>)" "split_shape E ps c (s0\<lparr>sb_rest := sb_rest s0 @ d\<rparr>)" for d
    using s0 by (simp_all add: join_def split_shape_def Let_def)
  then have "split_mut E (a @ d) ps c = Inr (s0\<lparr>sb_rest := sb_rest s0 @ d\<rparr>)" for d by (simp add: split_mut_iff)
  with assms(1) show thesis by (intro that [of "s0\<lparr>sb_rest := sb_rest s0 @ b'\<rparr>"]) auto
qed

lemma deserialize_prefix:
  assumes ps: "ps = parameters_new mode index sz (curve_parameters_new E) system log2 batch" "get_length ps c \<le> length a"
  shows "deserialize E (a @ b) c check ps = deserialize E (a @ b') c check ps"
proof -
  obtain s where s: "split_mut E (a @ b) ps c = Inr s" using split_mut_exists [OF ps(1), of c "a @ b"] ps(2) by auto
  obtain s' where s': "split_mut E (a @ b') ps c = Inr s'" "s' = s\<lparr>sb_rest := sb_rest s'\<rparr>" by (rule split_prefix [OF s ps])
  have "tau_g1 s' = tau_g1 s" "tau_g2 s' = tau_g2 s" "alpha_g1 s' = alpha_g1 s" "beta_g1 s' = beta_g1 s" "beta_g2 s' = beta_g2 s"
    by (subst s'(2); simp)+
  then show ?thesis by (simp add: deserialize_def split_def s s'(1) cong: ProvingSystem.case_cong)
qed

text \<open>
  A public key that is written behind the accumulator is read back, and the accumulator before it is
  unchanged: in a buffer with room for both, writing succeeds and keeps the size of the buffer.\<close>

theorem public_key_roundtrip:
  assumes "engine_laws E" "ps = parameters_new mode index sz (curve_parameters_new E) system log2 batch"
    and "key_points_valid E key" "get_length ps c + public_key_size ps \<le> length output"
  shows "case public_key_write E key output c ps of
      Inl e \<Rightarrow> False
    | Inr output' \<Rightarrow> length output' = length output \<and> public_key_read E output' c ps = Inr key \<and>
        deserialize E output' c check ps = deserialize E output c check ps"
proof -
  note l = engine_lawsD [OF assms(1)] and v = assms(3) [unfolded key_points_valid_def]
  let ?p = "get_length ps c" and ?b = "public_key_bytes E key"
  let ?out = "take ?p output @ ?b @ drop (?p + length ?b) output"
  have len: "length ?b = public_key_size ps"
    using length_encode [OF l(1) conjunct1 [OF v], of Yes] length_encode [OF l(2) conjunct2 [OF v], of Yes]
    by (simp add: public_key_bytes_def assms(2) parameters_new_def curve_parameters_new_def buffer_size_def Let_def
        split: prod.splits)
  then have "public_key_write E key output c ps = Inr ?out"
    using assms(4) by (simp add: public_key_write_def Let_def public_key_position_length)
  moreover have "length ?out = length output" using len assms(4) by simp
  moreover have "public_key_read E ?out c ps = Inr key"
  proof -
    note r = read_elements_exact_encoded [OF l(1) conjunct1 [OF v]] read_elements_exact_encoded [OF l(2) conjunct2 [OF v]]
    have six: "length [a1, a2, a3, a4, a5, a6] = 6" and three: "length [b1, b2, b3] = 3"
      for a1 a2 a3 a4 a5 a6 :: 'b and b1 b2 b3 :: 'c by simp_all
    have "drop ?p ?out = ?b @ drop (?p + length ?b) output" "\<not> length ?out < ?p" using assms(4) by simp_all
    then show ?thesis
      by (simp only: public_key_read_def public_key_position_length Let_def if_False public_key_bytes_def append_assoc
          r [unfolded six three] result_bind_simps prod.case) simp
  qed
  moreover have "deserialize E ?out c check ps = deserialize E output c check ps"
    using deserialize_prefix [OF assms(2), of c "take ?p output" "?b @ drop (?p + length ?b) output" check "drop ?p output"] assms(4)
    by simp
  ultimately show ?thesis by simp
qed

definition example_public_key :: "(GF3, GF3) PublicKey" where
  "example_public_key = \<lparr>pk_tau_g1 = (One3, Two3), pk_alpha_g1 = (One3, One3), pk_beta_g1 = (Two3, One3),
     pk_tau_g2 = Two3, pk_alpha_g2 = One3, pk_beta_g2 = Two3\<rparr>"

theorem public_key_roundtrip_witness:
  "case public_key_write example_engine example_public_key (replicate 200 0) Yes (example_parameters Groth16) of
      Inl e \<Rightarrow> False
    | Inr output' \<Rightarrow> length output' = 200 \<and> public_key_read example_engine output' Yes (example_parameters Groth16) = Inr example_public_key \<and>
        deserialize example_engine output' Yes CheckNo (example_parameters Groth16) =
          deserialize example_engine (replicate 200 0) Yes CheckNo (example_parameters Groth16)"
proof -
  have "key_points_valid example_engine example_public_key"
    by (simp add: key_points_valid_def valid_points_def in_subgroup_def example_simps)
  moreover have "get_length (example_parameters Groth16) Yes + public_key_size (example_parameters Groth16) \<le> length (replicate 200 (0 :: u8))"
    by (simp add: example_simps Let_def)
  ultimately show ?thesis
    using public_key_roundtrip [OF example_engine_laws example_parameters_def, of example_public_key Groth16 Yes "replicate 200 0" CheckNo]
    by (simp split: sum.splits)
qed

end
