(* ===== verification/Phase1_Verification.thy ===== *)
theory Phase1_Verification
  imports Phase1_Keys
begin

text \<open>
  \<^verbatim>\<open>phase1/src/verification.rs\<close> and the checks it calls, of \<^verbatim>\<open>phase1/src/helpers/accumulator.rs\<close> and
  \<^verbatim>\<open>setup-utils/src/helpers.rs\<close>: the verification of one chunk of a contribution, and of the ratios in the
  whole accumulator. The random scalars are an argument: for each kind of elements and each batch, the
  draws of its random generator.
\<close>

section \<open>Ratios\<close>

definition same_ratio :: "('f, 'g, 'h, 't) PairingEngine \<Rightarrow> 'g \<times> 'g \<Rightarrow> 'h \<times> 'h \<Rightarrow> bool" where
  "same_ratio E g1 g2 \<longleftrightarrow> pairing E (fst g1) (snd g2) = pairing E (snd g1) (fst g2)"

definition check_same_ratio :: "('f, 'g, 'h, 't) PairingEngine \<Rightarrow> 'g \<times> 'g \<Rightarrow> 'h \<times> 'h \<Rightarrow> string \<Rightarrow> unit or_error" where
  "check_same_ratio E g1 g2 err =
     (if pairing E (fst g1) (snd g2) \<noteq> pairing E (snd g1) (fst g2) then Inl (VerificationFailed (InvalidRatio err))
      else Inr ())"

text \<open>What the multi-exponentiation uses of the scalar field and of the machine.\<close>

record 'f ScalarOps =
  to_repr :: "'f \<Rightarrow> nat"
  size_in_bits :: nat
  num_cpus :: nat
  ln_ceil :: "nat \<Rightarrow> nat"

text \<open>A multi-exponentiation that does not end would be a region of no bits; it counts as a panic.\<close>

definition merge_pairs ::
  "'f ScalarOps \<Rightarrow> (nat \<Rightarrow> 'f) \<Rightarrow> 'g::ab_group_add list \<Rightarrow> 'g list \<Rightarrow> ('g \<times> 'g) or_error" where
  "merge_pairs S rng v1 v2 =
     (if length v1 \<noteq> length v2 then Inl Panic
      else
        (let randomness = map (\<lambda>i. to_repr S (rng i)) [0..<length v1];
             multi = (\<lambda>v. dense_multiexp (num_cpus S) (size_in_bits S) (ln_ceil S) v randomness)
         in case (multi v1, multi v2) of (Some s, Some sx) \<Rightarrow> Inr (s, sx) | _ \<Rightarrow> Inl Panic))"

definition power_pairs :: "'f ScalarOps \<Rightarrow> (nat \<Rightarrow> 'f) \<Rightarrow> 'g::ab_group_add list \<Rightarrow> ('g \<times> 'g) or_error" where
  "power_pairs S rng v = (if v = [] then Inl Panic else merge_pairs S rng (take (length v - 1) v) (drop 1 v))"

section \<open>Checks on the elements of a buffer\<close>

definition read_batch_range ::
  "('f, 'g::ab_group_add) AffineCurve \<Rightarrow> bytes \<times> UseCompression \<times> CheckForCorrectness \<Rightarrow> usize \<times> usize \<Rightarrow> 'g list \<Rightarrow>
   'g list or_error" where
  "read_batch_range C input bounds elements =
     (let (buffer, compression, check) = input; (start, end') = bounds; n = buffer_size C compression in
      result_bind (slice buffer (start * n) (end' * n)) (\<lambda>content.
      result_bind (slice elements 0 (usize_sub end' start)) (\<lambda>els.
      result_bind (read_batch_preallocated C compression check content els) (\<lambda>els.
        Inr (els @ drop (usize_sub end' start) elements)))))"

definition check_power_ratios ::
  "('f, 'g::ab_group_add, 'h, 't) PairingEngine \<Rightarrow> 'f ScalarOps \<Rightarrow> (nat \<Rightarrow> 'f) \<Rightarrow>
   bytes \<times> UseCompression \<times> CheckForCorrectness \<Rightarrow> usize \<times> usize \<Rightarrow> 'g list \<Rightarrow> 'h \<times> 'h \<Rightarrow> unit or_error" where
  "check_power_ratios E S rng input bounds elements check =
     result_bind (read_batch_range (g1_affine E) input bounds elements) (\<lambda>els.
     result_bind (power_pairs S rng (take (usize_sub (snd bounds) (fst bounds)) els)) (\<lambda>pairs.
       check_same_ratio E pairs check ''Power pairs''))"

definition check_power_ratios_g2 ::
  "('f, 'g, 'h::ab_group_add, 't) PairingEngine \<Rightarrow> 'f ScalarOps \<Rightarrow> (nat \<Rightarrow> 'f) \<Rightarrow>
   bytes \<times> UseCompression \<times> CheckForCorrectness \<Rightarrow> usize \<times> usize \<Rightarrow> 'h list \<Rightarrow> 'g \<times> 'g \<Rightarrow> unit or_error" where
  "check_power_ratios_g2 E S rng input bounds elements check =
     result_bind (read_batch_range (g2_affine E) input bounds elements) (\<lambda>els.
     result_bind (power_pairs S rng (take (usize_sub (snd bounds) (fst bounds)) els)) (\<lambda>pairs.
       check_same_ratio E check pairs ''Power pairs''))"

definition check_elements_are_nonzero_and_in_prime_order_subgroup ::
  "('f, 'g::ab_group_add) AffineCurve \<Rightarrow> bytes \<times> UseCompression \<Rightarrow> usize \<times> usize \<Rightarrow> 'g list \<Rightarrow> unit or_error" where
  "check_elements_are_nonzero_and_in_prime_order_subgroup C input bounds elements =
     result_bind (read_batch_range C (fst input, snd input, CheckFull) bounds elements) (\<lambda>els.
       if list_all (\<lambda>p. mul_modulus C p = 0) els then Inr () else Inl IncorrectSubgroup)"

definition read_initial_elements_with_amount ::
  "('f, 'g::ab_group_add) AffineCurve \<Rightarrow> bytes \<Rightarrow> usize \<Rightarrow> UseCompression \<Rightarrow> CheckForCorrectness \<Rightarrow> 'g list or_error" where
  "read_initial_elements_with_amount C buffer amount compressed check =
     result_bind (slice buffer 0 (amount * buffer_size C compressed)) (\<lambda>content.
     result_bind (read_batch C compressed check content) (\<lambda>els.
       if length els \<noteq> amount then Inl (InvalidLength amount (length els)) else Inr els))"

definition read_initial_elements ::
  "('f, 'g::ab_group_add) AffineCurve \<Rightarrow> bytes \<Rightarrow> UseCompression \<Rightarrow> CheckForCorrectness \<Rightarrow> 'g list or_error" where
  "read_initial_elements C buffer compressed check = read_initial_elements_with_amount C buffer 2 compressed check"

section \<open>Verification of a chunk\<close>

definition check_key_ratios ::
  "('f, 'g, 'h, 't) PairingEngine \<Rightarrow> ('g, 'h) PublicKey \<Rightarrow> 'h \<times> 'h \<times> 'h \<Rightarrow> unit or_error" where
  "check_key_ratios E key g2_s =
     (let (tau_g2_s, alpha_g2_s, beta_g2_s) = g2_s in
      result_bind (check_same_ratio E (pk_tau_g1 key) (tau_g2_s, pk_tau_g2 key) ''Tau G1<>G2'') (\<lambda>_.
      result_bind (check_same_ratio E (pk_alpha_g1 key) (alpha_g2_s, pk_alpha_g2 key) ''Alpha G1<>G2'') (\<lambda>_.
        check_same_ratio E (pk_beta_g1 key) (beta_g2_s, pk_beta_g2 key) ''Beta G1<>G2'')))"

text \<open>The vectors of two elements of G1 are reused by the checks of alpha and beta.\<close>

definition check_tau_g1 ::
  "('f, 'g::ab_group_add, 'h, 't) PairingEngine \<Rightarrow> bytes \<times> UseCompression \<times> CheckForCorrectness \<Rightarrow>
   bytes \<times> UseCompression \<times> CheckForCorrectness \<Rightarrow> 'h \<times> 'h \<Rightarrow> ('g list \<times> 'g list) or_error" where
  "check_tau_g1 E before after check =
     (let C = g1_affine E; (b, cin, check_in) = before; (a, cout, check_out) = after in
      result_bind (read_initial_elements C b cin check_in) (\<lambda>before_g1.
      result_bind (read_initial_elements C a cout check_out) (\<lambda>after_g1.
        if after_g1 ! 0 \<noteq> prime_subgroup_generator C then Inl (VerificationFailed (InvalidGenerator TauG1))
        else
          result_bind (check_same_ratio E (before_g1 ! 1, after_g1 ! 1) check ''Before-After: tau_g1'')
            (\<lambda>_. Inr (before_g1, after_g1)))))"

definition check_tau_g2 ::
  "('f, 'g, 'h::ab_group_add, 't) PairingEngine \<Rightarrow> bytes \<times> UseCompression \<times> CheckForCorrectness \<Rightarrow>
   bytes \<times> UseCompression \<times> CheckForCorrectness \<Rightarrow> 'g \<times> 'g \<Rightarrow> unit or_error" where
  "check_tau_g2 E before after check =
     (let C = g2_affine E; (b, cin, check_in) = before; (a, cout, check_out) = after in
      result_bind (read_initial_elements C b cin check_in) (\<lambda>before_g2.
      result_bind (read_initial_elements C a cout check_out) (\<lambda>after_g2.
        if after_g2 ! 0 \<noteq> prime_subgroup_generator C then Inl (VerificationFailed (InvalidGenerator TauG2))
        else check_same_ratio E check (before_g2 ! 1, after_g2 ! 1) ''Before-After: tau_g2'')))"

definition check_first_element ::
  "('f, 'g::ab_group_add, 'h, 't) PairingEngine \<Rightarrow> UseCompression \<times> CheckForCorrectness \<Rightarrow> UseCompression \<times> CheckForCorrectness \<Rightarrow>
   bytes \<times> bytes \<times> 'h \<times> 'h \<Rightarrow> 'g list \<times> 'g list \<Rightarrow> ('g list \<times> 'g list) or_error" where
  "check_first_element E cin cout checked vectors =
     (let C = g1_affine E; (before, after, check) = checked in
      result_bind (read_batch_preallocated C (fst cin) (snd cin) before (fst vectors)) (\<lambda>before_g1.
      result_bind (read_batch_preallocated C (fst cout) (snd cout) after (snd vectors)) (\<lambda>after_g1.
      result_bind (check_same_ratio E (before_g1 ! 0, after_g1 ! 0) check ''Before-After: alpha_g1[0] / beta_g1[0]'')
        (\<lambda>_. Inr (before_g1, after_g1)))))"

definition check_beta_g2 ::
  "('f, 'g, 'h::ab_group_add, 't) PairingEngine \<Rightarrow> bytes \<times> UseCompression \<times> CheckForCorrectness \<Rightarrow>
   bytes \<times> UseCompression \<times> CheckForCorrectness \<Rightarrow> 'g \<times> 'g \<Rightarrow> unit or_error" where
  "check_beta_g2 E before after check =
     (let C = g2_affine E; (b, cin, check_in) = before; (a, cout, check_out) = after in
      result_bind (read_element C cin check_in b) (\<lambda>before_beta_g2.
      result_bind (read_element C cout check_out a) (\<lambda>after_beta_g2.
        check_same_ratio E check (before_beta_g2, after_beta_g2) ''Before-After: beta_g2[0]'')))"

definition verify_initial_elements ::
  "('f, 'g::ab_group_add, 'h::ab_group_add, 't) PairingEngine \<Rightarrow> ('g, 'h) PublicKey \<Rightarrow> 'h \<times> 'h \<times> 'h \<Rightarrow>
   UseCompression \<times> CheckForCorrectness \<Rightarrow> UseCompression \<times> CheckForCorrectness \<Rightarrow> Phase1Parameters \<Rightarrow>
   bytes SplitBuf \<Rightarrow> bytes SplitBuf \<Rightarrow> unit or_error" where
  "verify_initial_elements E key g2_s cin cout ps i s =
     (let (tau_g2_s, alpha_g2_s, beta_g2_s) = g2_s;
          tau_single_g2_check = (tau_g2_s, pk_tau_g2 key);
          alpha_single_g2_check = (alpha_g2_s, pk_alpha_g2 key);
          beta_single_g2_check = (beta_g2_s, pk_beta_g2 key);
          checks = (case p1_proving_system ps of
              Groth16 \<Rightarrow> [(alpha_g1 i, alpha_g1 s, alpha_single_g2_check), (beta_g1 i, beta_g1 s, beta_single_g2_check)]
            | Marlin \<Rightarrow> [(alpha_g1 i, alpha_g1 s, alpha_single_g2_check)])
      in
      result_bind (check_key_ratios E key g2_s) (\<lambda>_.
      result_bind (check_tau_g1 E (tau_g1 i, cin) (tau_g1 s, cout) tau_single_g2_check) (\<lambda>vectors.
      result_bind (check_tau_g2 E (tau_g2 i, cin) (tau_g2 s, cout) (pk_tau_g1 key)) (\<lambda>_.
      result_bind (fold_results (check_first_element E cin cout) checks vectors) (\<lambda>_.
        if p1_proving_system ps = Groth16 then check_beta_g2 E (beta_g2 i, cin) (beta_g2 s, cout) (pk_beta_g1 key)
        else Inr ())))))"

definition verify_groth16_batch ::
  "('f, 'g::ab_group_add, 'h::ab_group_add, 't) PairingEngine \<Rightarrow> UseCompression \<Rightarrow> Phase1Parameters \<Rightarrow> bytes SplitBuf \<Rightarrow>
   usize \<Rightarrow> usize \<Rightarrow> unit or_error" where
  "verify_groth16_batch E cout ps s start end' =
     (let C1 = g1_affine E; C2 = g2_affine E;
          g1 = replicate (p1_batch_size ps) 0; g2 = replicate (p1_batch_size ps) 0
      in
      result_bind (expect_ok (check_elements_are_nonzero_and_in_prime_order_subgroup C1 (tau_g1 s, cout)
          (chunk_position ps start, chunk_position ps end') g1)) (\<lambda>_.
      if start < powers_length ps then
        (let bounds = (chunk_position ps start, chunk_position ps (other_end ps start end')) in
         result_bind (expect_ok (check_elements_are_nonzero_and_in_prime_order_subgroup C2 (tau_g2 s, cout) bounds g2)) (\<lambda>_.
         result_bind (expect_ok (check_elements_are_nonzero_and_in_prime_order_subgroup C1 (alpha_g1 s, cout) bounds g1)) (\<lambda>_.
           expect_ok (check_elements_are_nonzero_and_in_prime_order_subgroup C1 (beta_g1 s, cout) bounds g1))))
      else Inr ()))"

definition verify_marlin_batch ::
  "('f, 'g::ab_group_add, 'h::ab_group_add, 't) PairingEngine \<Rightarrow> UseCompression \<Rightarrow> Phase1Parameters \<Rightarrow> bytes SplitBuf \<Rightarrow>
   usize \<Rightarrow> usize \<Rightarrow> unit or_error" where
  "verify_marlin_batch E cout ps s start end' =
     (let C1 = g1_affine E; C2 = g2_affine E;
          g1 = replicate (p1_batch_size ps) 0; g2 = replicate (p1_batch_size ps) 0
      in
      result_bind (expect_ok (check_elements_are_nonzero_and_in_prime_order_subgroup C1 (tau_g1 s, cout)
          (chunk_position ps start, chunk_position ps end') g1)) (\<lambda>_.
      if start = 0 then
        result_bind (expect_ok (check_elements_are_nonzero_and_in_prime_order_subgroup C1 (alpha_g1 s, cout)
            (0, 3 + 3 * total_size_in_log2 ps) g1)) (\<lambda>_.
          expect_ok (check_elements_are_nonzero_and_in_prime_order_subgroup C2 (tau_g2 s, cout)
            (0, total_size_in_log2 ps + 2) g2))
      else Inr ()))"

definition verify_batch ::
  "('f, 'g::ab_group_add, 'h::ab_group_add, 't) PairingEngine \<Rightarrow> UseCompression \<Rightarrow> Phase1Parameters \<Rightarrow> bytes SplitBuf \<Rightarrow>
   usize \<Rightarrow> usize \<Rightarrow> unit \<Rightarrow> unit or_error" where
  "verify_batch E cout ps s start end' u =
     (case p1_proving_system ps of
        Groth16 \<Rightarrow> verify_groth16_batch E cout ps s start end'
      | Marlin \<Rightarrow> verify_marlin_batch E cout ps s start end')"

definition verification ::
  "('f, 'g::ab_group_add, 'h::ab_group_add, 't) PairingEngine \<Rightarrow> 'h HashOps \<Rightarrow> bytes \<Rightarrow> bytes \<Rightarrow> ('g, 'h) PublicKey \<Rightarrow> bytes \<Rightarrow>
   UseCompression \<Rightarrow> UseCompression \<Rightarrow> CheckForCorrectness \<Rightarrow> CheckForCorrectness \<Rightarrow> Phase1Parameters \<Rightarrow>
   unit or_error option" where
  "verification E ops input output key digest cin cout check_in check_out ps =
     run_bind (Some (split E output ps cout)) (\<lambda>s.
     run_bind
       (if p1_contribution_mode ps = ModeFull \<or> chunk_index ps = 0 then
          run_bind (Some (split E input ps cin)) (\<lambda>i.
          run_bind (compute_g2_s_key E ops key digest) (\<lambda>g2_s.
            Some (verify_initial_elements E key g2_s (cin, check_in) (cout, check_out) ps i s)))
        else Some (Inr ())) (\<lambda>_.
       Some (iter_chunk ps (verify_batch E cout ps s) ())))"

section \<open>What the checks on elements establish\<close>

lemma read_batch_range_iff:
  assumes n: "0 < buffer_size C c" "length buf = k * buffer_size C c" and b: "s \<le> e" "e \<le> k"
  shows "read_batch_range C (buf, c, check) (s, e) els = Inr els' \<longleftrightarrow>
    e - s \<le> length els \<and> (\<exists>xs. length xs = e - s \<and> els' = xs @ drop (e - s) els \<and>
      (\<forall>i<e - s. read_element C c check (cell (buffer_size C c) buf (s + i)) = Inr (xs ! i)))"
proof -
  let ?n = "buffer_size C c" and ?content = "take ((e - s) * buffer_size C c) (drop (s * buffer_size C c) buf)"
  have le: "s * ?n \<le> e * ?n" "e * ?n \<le> k * ?n" using b by (simp_all add: mult_le_mono1)
  have "(e - s) * ?n \<le> length buf - s * ?n" unfolding n(2) diff_mult_distrib using le(2) by (rule diff_le_mono)
  with le have content: "slice buf (s * ?n) (e * ?n) = Inr ?content" "length ?content = (e - s) * ?n"
    using n(2) by (simp_all add: slice_def diff_mult_distrib)
  have chunks: "chunks_of ?n ?content = map (\<lambda>i. cell ?n buf (s + i)) [0..<e - s]"
    unfolding chunks_of_cells [OF n(1) content(2)] by (intro map_cong refl) (simp add: cell_of_slice)
  have "usize_sub e s = e - s" using b by simp
  then show ?thesis
    using content(1) chunks
    by (cases "e - s \<le> length els")
      (auto simp: read_batch_range_def Let_def slice_def read_batch_preallocated_def result_bind_ok_iff collect_results_nth)
qed

lemma checked_elements:
  assumes laws: "curve_laws C" and read: "reads C c check buf xs" and b: "s \<le> e" "e \<le> length xs"
    and ok: "check_elements_are_nonzero_and_in_prime_order_subgroup C (buf, c) (s, e) els = Inr ()"
    and i: "s \<le> i" "i < e"
  shows "in_subgroup C (xs ! i) \<and> xs ! i \<noteq> 0"
proof -
  let ?n = "buffer_size C c"
  have len: "length buf = length xs * ?n" using read by (simp add: reads_def)
  from ok obtain els' where els': "read_batch_range C (buf, c, CheckFull) (s, e) els = Inr els'" "\<forall>p\<in>set els'. mul_modulus C p = 0"
    by (auto simp: check_elements_are_nonzero_and_in_prime_order_subgroup_def result_bind_ok_iff list_all_iff split: if_splits)
  then obtain ys where ys: "length ys = e - s" "set ys \<subseteq> set els'"
    "\<forall>i<e - s. read_element C c CheckFull (cell ?n buf (s + i)) = Inr (ys ! i)"
    by (auto simp: read_batch_range_iff [OF curve_lawsD(5) [OF laws] len b])
  have j: "i - s < e - s" using i by simp
  then have "read_element C c CheckFull (cell ?n buf i) = Inr (ys ! (i - s))" using ys(3) [rule_format, OF j] i by simp
  moreover have "read_element C c check (cell ?n buf i) = Inr (xs ! i)" using read i b by (simp add: reads_def)
  ultimately have "ys ! (i - s) = xs ! i" "xs ! i \<noteq> 0"
    by (auto simp: read_element_accepted [of _ _ CheckFull] read_element_accepted [of _ _ check] accepted_def)
  moreover have "ys ! (i - s) \<in> set els'" using ys j by auto
  ultimately show ?thesis using els'(2) by (auto simp: in_subgroup_def)
qed

lemma verified_batch_tau_g1:
  assumes "verify_batch E c ps s a b u = Inr v"
  shows "\<exists>els. check_elements_are_nonzero_and_in_prime_order_subgroup (g1_affine E) (tau_g1 s, c)
    (chunk_position ps a, chunk_position ps b) els = Inr ()"
  using assms by (auto simp: verify_batch_def verify_groth16_batch_def verify_marlin_batch_def Let_def result_bind_ok_iff
      split: ProvingSystem.splits)

lemma verified_batch_others:
  assumes "verify_batch E c ps s a b u = Inr v" "p1_proving_system ps = Groth16" "a < powers_length ps"
  shows "\<exists>els. check_elements_are_nonzero_and_in_prime_order_subgroup (g2_affine E) (tau_g2 s, c)
      (chunk_position ps a, chunk_position ps (other_end ps a b)) els = Inr ()"
    "\<exists>els. check_elements_are_nonzero_and_in_prime_order_subgroup (g1_affine E) (alpha_g1 s, c)
      (chunk_position ps a, chunk_position ps (other_end ps a b)) els = Inr ()"
    "\<exists>els. check_elements_are_nonzero_and_in_prime_order_subgroup (g1_affine E) (beta_g1 s, c)
      (chunk_position ps a, chunk_position ps (other_end ps a b)) els = Inr ()"
  using assms by (auto simp: verify_batch_def verify_groth16_batch_def Let_def result_bind_ok_iff)

lemma verified_batch_marlin:
  assumes "verify_batch E c ps s 0 b u = Inr v" "p1_proving_system ps = Marlin"
  shows "\<exists>els. check_elements_are_nonzero_and_in_prime_order_subgroup (g2_affine E) (tau_g2 s, c)
      (0, total_size_in_log2 ps + 2) els = Inr ()"
    "\<exists>els. check_elements_are_nonzero_and_in_prime_order_subgroup (g1_affine E) (alpha_g1 s, c)
      (0, 3 + 3 * total_size_in_log2 ps) els = Inr ()"
  using assms by (auto simp: verify_batch_def verify_marlin_batch_def Let_def result_bind_ok_iff)

lemma valid_pointsI: "(\<And>i. i < length xs \<Longrightarrow> in_subgroup C (xs ! i) \<and> xs ! i \<noteq> 0) \<Longrightarrow> valid_points C check xs"
  by (auto simp: valid_points_def accepted_def in_set_conv_nth)

section \<open>Accepted chunks hold valid elements\<close>

lemma verified_tau_g1:
  assumes laws: "engine_laws E" and ps: "ps = parameters_new mode index sz cv system log2 batch"
    and inside: "first_element ps < total_size_in_g1 system log2" and batch: "2 \<le> batch"
    and s: "holds_elements E c check ps s acc" and run: "iter_chunk ps (verify_batch E c ps s) () = Inr ()"
  shows "valid_points (g1_affine E) CheckFull (tau_powers_g1 acc)"
proof (rule valid_pointsI)
  fix i assume i: "i < length (tau_powers_g1 acc)"
  note e = chunk_extent [OF ps inside]
  let ?f = "first_element ps"
  have n: "length (tau_powers_g1 acc) = g1_chunk_size ps"
    using s by (auto simp: holds_elements_def elements_shape_def Let_def split: prod.splits)
  obtain a b u v where ab: "verify_batch E c ps s a b u = Inr v" "?f \<le> a" "a \<le> ?f + i" "?f + i < b"
    "b = min (?f + g1_chunk_size ps) (a + p1_batch_size ps)"
    by (rule iter_chunk_covers [OF e(1) _ run, of "?f + i"]) (use batch i n in \<open>auto simp: ps\<close>)
  have pos: "chunk_position ps a = a - ?f" "chunk_position ps b = b - ?f"
    using e(3) [of "a - ?f"] e(3) [of "b - ?f"] ab(2-4) by simp_all
  obtain els where "check_elements_are_nonzero_and_in_prime_order_subgroup (g1_affine E) (tau_g1 s, c) (a - ?f, b - ?f) els = Inr ()"
    using verified_batch_tau_g1 [OF ab(1)] pos by auto
  then show "in_subgroup (g1_affine E) (tau_powers_g1 acc ! i) \<and> tau_powers_g1 acc ! i \<noteq> 0"
    by (rule checked_elements [OF engine_lawsD(1) [OF laws], where check = check and s = "a - ?f" and e = "b - ?f", rotated 3])
      (use s ab n in \<open>auto simp: holds_elements_def\<close>)
qed

lemma verified_groth16_others:
  assumes laws: "engine_laws E" and ps: "ps = parameters_new mode index sz cv Groth16 log2 batch"
    and inside: "first_element ps < total_size_in_g1 Groth16 log2" and batch: "2 \<le> batch"
    and s: "holds_elements E c check ps s acc" and run: "iter_chunk ps (verify_batch E c ps s) () = Inr ()"
    and i: "i < other_chunk_size ps"
  shows "in_subgroup (g2_affine E) (tau_powers_g2 acc ! i) \<and> tau_powers_g2 acc ! i \<noteq> 0"
    "in_subgroup (g1_affine E) (alpha_tau_powers_g1 acc ! i) \<and> alpha_tau_powers_g1 acc ! i \<noteq> 0"
    "in_subgroup (g1_affine E) (beta_tau_powers_g1 acc ! i) \<and> beta_tau_powers_g1 acc ! i \<noteq> 0"
proof -
  note e = chunk_extent [OF ps inside]
  have sys: "p1_proving_system ps = Groth16" by (simp add: ps)
  let ?f = "first_element ps" and ?e = "\<lambda>a. min (first_element ps + other_chunk_size ps) (a + p1_batch_size ps)"
  obtain a b u v where ab: "verify_batch E c ps s a b u = Inr v" "?f \<le> a" "a \<le> ?f + i" "?f + i < b"
    "b = min (?f + g1_chunk_size ps) (a + p1_batch_size ps)"
    by (rule iter_chunk_covers [OF e(1) _ run, of "?f + i"]) (use batch i e(2) [OF sys] in \<open>auto simp: ps\<close>)
  have a: "a < powers_length ps" "a < b" using ab(3,4) i e(2) [OF sys] by linarith+
  have oe: "other_end ps a b = ?e a" by (rule other_end_extent [OF ps inside ab(2,5) a(2,1)])
  have bounds: "a - ?f \<le> ?e a - ?f" "?e a - ?f \<le> other_chunk_size ps" "a - ?f \<le> i" "i < ?e a - ?f"
    using ab(2-5) i by auto
  have pos: "chunk_position ps a = a - ?f" "chunk_position ps (?e a) = ?e a - ?f"
    using e(3) [of "a - ?f"] e(3) [of "?e a - ?f"] ab(2) by simp_all
  have lens: "length (tau_powers_g2 acc) = other_chunk_size ps" "length (alpha_tau_powers_g1 acc) = other_chunk_size ps"
    "length (beta_tau_powers_g1 acc) = other_chunk_size ps"
    using s by (simp_all add: holds_elements_def elements_shape_def other_elements_def sys)
  note checked = checked_elements [OF _ _ bounds(1) _ _ bounds(3,4), where check = check]
  note r = s [unfolded holds_elements_def] and others = verified_batch_others [OF ab(1) sys a(1), unfolded oe pos]
  show "in_subgroup (g2_affine E) (tau_powers_g2 acc ! i) \<and> tau_powers_g2 acc ! i \<noteq> 0"
    using others(1) by (elim exE, intro checked [OF engine_lawsD(2) [OF laws]]) (use r bounds(2) lens in auto)
  show "in_subgroup (g1_affine E) (alpha_tau_powers_g1 acc ! i) \<and> alpha_tau_powers_g1 acc ! i \<noteq> 0"
    using others(2) by (elim exE, intro checked [OF engine_lawsD(1) [OF laws]]) (use r bounds(2) lens in auto)
  show "in_subgroup (g1_affine E) (beta_tau_powers_g1 acc ! i) \<and> beta_tau_powers_g1 acc ! i \<noteq> 0"
    using others(3) by (elim exE, intro checked [OF engine_lawsD(1) [OF laws]]) (use r bounds(2) lens in auto)
qed

lemma verified_elements:
  assumes laws: "engine_laws E" and ps: "ps = parameters_new mode index sz cv system log2 batch"
    and inside: "first_element ps < total_size_in_g1 system log2" and batch: "2 \<le> batch"
    and s: "holds_elements E c check ps s acc" and run: "iter_chunk ps (verify_batch E c ps s) () = Inr ()"
    and nonempty: "0 < g1_chunk_size ps"
  shows "valid_points (g1_affine E) CheckFull (tau_powers_g1 acc) \<and> valid_points (g2_affine E) CheckFull (tau_powers_g2 acc) \<and>
    valid_points (g1_affine E) CheckFull (alpha_tau_powers_g1 acc) \<and> valid_points (g1_affine E) CheckFull (beta_tau_powers_g1 acc)"
proof (cases system)
  case Groth16
  have sys: "p1_proving_system ps = Groth16" by (simp add: ps Groth16)
  have lens: "length (tau_powers_g2 acc) = other_chunk_size ps" "length (alpha_tau_powers_g1 acc) = other_chunk_size ps"
    "length (beta_tau_powers_g1 acc) = other_chunk_size ps"
    using s by (simp_all add: holds_elements_def elements_shape_def other_elements_def sys)
  note others = verified_groth16_others [OF laws ps [unfolded Groth16] inside [unfolded Groth16] batch s run]
  show ?thesis
    using verified_tau_g1 [OF laws ps inside batch s run] others by (auto intro!: valid_pointsI simp: lens)
next
  case Marlin
  have sys: "p1_proving_system ps = Marlin" by (simp add: ps Marlin)
  note r = s [unfolded holds_elements_def] and e = chunk_extent [OF ps inside]
  have empty: "beta_tau_powers_g1 acc = []"
    using s by (simp add: holds_elements_def elements_shape_def other_elements_def sys)
  have "valid_points (g2_affine E) CheckFull (tau_powers_g2 acc) \<and> valid_points (g1_affine E) CheckFull (alpha_tau_powers_g1 acc)"
  proof (cases "chunk_index ps = 0")
    case True
    then have lens: "length (tau_powers_g2 acc) = total_size_in_log2 ps + 2" "length (alpha_tau_powers_g1 acc) = 3 + 3 * total_size_in_log2 ps"
      using s by (simp_all add: holds_elements_def elements_shape_def other_elements_def sys marlin_sizes_def)
    have "first_element ps = 0" using True by (simp add: first_element_def split: ContributionMode.splits)
    with iter_chunk_covers [OF e(1) _ run, of 0] batch nonempty
    obtain b u v where "verify_batch E c ps s 0 b u = Inr v" by (auto simp: ps)
    note m = verified_batch_marlin [OF this sys]
    have "in_subgroup (g2_affine E) (tau_powers_g2 acc ! i) \<and> tau_powers_g2 acc ! i \<noteq> 0" if "i < length (tau_powers_g2 acc)" for i
      using m(1) by (elim exE, intro checked_elements [OF engine_lawsD(2) [OF laws], where check = check and s = 0])
        (use r that lens in auto)
    moreover have "in_subgroup (g1_affine E) (alpha_tau_powers_g1 acc ! i) \<and> alpha_tau_powers_g1 acc ! i \<noteq> 0"
      if "i < length (alpha_tau_powers_g1 acc)" for i
      using m(2) by (elim exE, intro checked_elements [OF engine_lawsD(1) [OF laws], where check = check and s = 0])
        (use r that lens in auto)
    ultimately show ?thesis by (auto intro!: valid_pointsI)
  next
    case False
    then show ?thesis
      using s by (simp add: holds_elements_def elements_shape_def other_elements_def sys marlin_sizes_def valid_points_def)
  qed
  then show ?thesis using verified_tau_g1 [OF laws ps inside batch s run] by (simp add: empty valid_points_def)
qed

text \<open>
  C12. What verification accepts holds valid elements: in every chunk, in both proving systems, if
  verification succeeds on an output buffer that is read as an accumulator, then every element in G1 and in
  G2 that the chunk holds, apart from \<^verbatim>\<open>beta_g2\<close>, is a point of the subgroup of prime order and not the
  identity. This holds for every batch size, although the batches overlap, and for any public key.\<close>

theorem verification_checks_elements:
  assumes "engine_laws E" "ps = parameters_new mode index sz cv system log2 batch"
    and "first_element ps < total_size_in_g1 system log2" "2 \<le> batch"
    and "verification E ops input output key digest cin cout check_in check_out ps = Some (Inr ())"
    and "deserialize E output cout check ps = Inr acc"
  shows "valid_points (g1_affine E) CheckFull (tau_powers_g1 acc) \<and> valid_points (g2_affine E) CheckFull (tau_powers_g2 acc) \<and>
    valid_points (g1_affine E) CheckFull (alpha_tau_powers_g1 acc) \<and> valid_points (g1_affine E) CheckFull (beta_tau_powers_g1 acc)"
proof -
  obtain s where s: "split E output ps cout = Inr s" "holds_elements E cout check ps s acc"
    by (rule deserialize_holds [OF assms(1,6)])
  have "iter_chunk ps (verify_batch E cout ps s) () = Inr ()"
    using assms(5) s(1) by (auto simp: verification_def run_bind_ok_iff)
  then show ?thesis by (rule verified_elements [OF assms(1-4) s(2) _ split_nonempty [OF s(1)]])
qed

section \<open>What the pairing promises\<close>

text \<open>
  The subgroups are cyclic and their elements are added; the pairing moves a scalar from one argument to the
  other, and is not degenerate.
\<close>

definition subgroup_laws :: "('f::field, 'g::ab_group_add) AffineCurve \<Rightarrow> bool" where
  "subgroup_laws C \<longleftrightarrow>
     curve_laws C \<and> prime_subgroup_generator C \<noteq> 0 \<and> in_subgroup C 0 \<and>
     (\<forall>p q. in_subgroup C p \<longrightarrow> in_subgroup C q \<longrightarrow> in_subgroup C (p + q)) \<and>
     (\<forall>p q a. in_subgroup C p \<longrightarrow> in_subgroup C q \<longrightarrow> point_mul C (p + q) a = point_mul C p a + point_mul C q a) \<and>
     (\<forall>p a b. in_subgroup C p \<longrightarrow> point_mul C p (a + b) = point_mul C p a + point_mul C p b) \<and>
     (\<forall>p. in_subgroup C p \<longrightarrow> (\<exists>a. p = point_mul C (prime_subgroup_generator C) a))"

definition pairing_laws :: "('f::field, 'g::ab_group_add, 'h::ab_group_add, 't) PairingEngine \<Rightarrow> bool" where
  "pairing_laws E \<longleftrightarrow>
     subgroup_laws (g1_affine E) \<and> subgroup_laws (g2_affine E) \<and>
     (\<forall>p q a. in_subgroup (g1_affine E) p \<longrightarrow> in_subgroup (g2_affine E) q \<longrightarrow>
        pairing E (point_mul (g1_affine E) p a) q = pairing E p (point_mul (g2_affine E) q a)) \<and>
     (\<forall>p p' q. in_subgroup (g1_affine E) p \<longrightarrow> in_subgroup (g1_affine E) p' \<longrightarrow> in_subgroup (g2_affine E) q \<longrightarrow> q \<noteq> 0 \<longrightarrow>
        pairing E p q = pairing E p' q \<longrightarrow> p = p') \<and>
     (\<forall>p q q'. in_subgroup (g1_affine E) p \<longrightarrow> in_subgroup (g2_affine E) q \<longrightarrow> in_subgroup (g2_affine E) q' \<longrightarrow> p \<noteq> 0 \<longrightarrow>
        pairing E p q = pairing E p q' \<longrightarrow> q = q')"

lemma subgroup_lawsD:
  assumes "subgroup_laws C"
  shows "curve_laws C" "prime_subgroup_generator C \<noteq> 0" "in_subgroup C 0"
    "in_subgroup C p \<Longrightarrow> in_subgroup C q \<Longrightarrow> in_subgroup C (p + q)"
    "in_subgroup C p \<Longrightarrow> in_subgroup C q \<Longrightarrow> point_mul C (p + q) a = point_mul C p a + point_mul C q a"
    "in_subgroup C p \<Longrightarrow> point_mul C p (a + b) = point_mul C p a + point_mul C p b"
    "in_subgroup C p \<Longrightarrow> \<exists>a. p = point_mul C (prime_subgroup_generator C) a"
  using assms by (simp_all add: subgroup_laws_def)

lemma pairing_lawsD:
  assumes "pairing_laws E"
  shows "subgroup_laws (g1_affine E)" "subgroup_laws (g2_affine E)" "engine_laws E"
    "in_subgroup (g1_affine E) p \<Longrightarrow> in_subgroup (g2_affine E) q \<Longrightarrow>
       pairing E (point_mul (g1_affine E) p a) q = pairing E p (point_mul (g2_affine E) q a)"
    "in_subgroup (g1_affine E) p \<Longrightarrow> in_subgroup (g1_affine E) p' \<Longrightarrow> in_subgroup (g2_affine E) q \<Longrightarrow> q \<noteq> 0 \<Longrightarrow>
       pairing E p q = pairing E p' q \<longleftrightarrow> p = p'"
    "in_subgroup (g1_affine E) p \<Longrightarrow> in_subgroup (g2_affine E) q \<Longrightarrow> in_subgroup (g2_affine E) q' \<Longrightarrow> p \<noteq> 0 \<Longrightarrow>
       pairing E p q = pairing E p q' \<longleftrightarrow> q = q'"
  using assms unfolding pairing_laws_def engine_laws_def by (blast dest: subgroup_lawsD(1))+

lemma point_mul_zero:
  assumes "subgroup_laws C"
  shows "in_subgroup C p \<Longrightarrow> point_mul C p 0 = 0" "point_mul C 0 a = 0"
  using subgroup_lawsD(6) [OF assms, of p 0 0] subgroup_lawsD(5) [OF assms subgroup_lawsD(3) [OF assms] subgroup_lawsD(3) [OF assms], of a]
  by simp_all

lemma point_mul_eq_0:
  assumes "subgroup_laws C" "in_subgroup C p"
  shows "point_mul C p a = 0 \<longleftrightarrow> p = 0 \<or> a = 0"
proof
  assume z: "point_mul C p a = 0"
  show "p = 0 \<or> a = 0"
  proof (rule disjCI)
    assume "a \<noteq> 0"
    then have "p = point_mul C (point_mul C p a) (inverse a)"
      using assms by (simp add: curve_lawsD [OF subgroup_lawsD(1) [OF assms(1)]])
    then show "p = 0" by (simp add: z point_mul_zero [OF assms(1)])
  qed
qed (use assms in \<open>auto simp: point_mul_zero\<close>)

lemma multiple_exists:
  assumes "subgroup_laws C" "in_subgroup C p" "p \<noteq> 0" "in_subgroup C q"
  obtains a where "q = point_mul C p a"
proof -
  let ?g = "prime_subgroup_generator C"
  note c = curve_lawsD [OF subgroup_lawsD(1) [OF assms(1)]]
  obtain x y where x: "p = point_mul C ?g x" and y: "q = point_mul C ?g y"
    using subgroup_lawsD(7) [OF assms(1,2)] subgroup_lawsD(7) [OF assms(1,4)] by blast
  have "x \<noteq> 0" using assms(1,3) c(1) point_mul_zero(1) [OF assms(1)] x by auto
  then have "q = point_mul C p (y / x)" by (simp add: x y c(1,4))
  then show thesis by (rule that)
qed

text \<open>Two pairs have the same ratio when one factor leads from the first to the second element of both.\<close>

lemma same_ratio_left:
  assumes "pairing_laws E" "in_subgroup (g1_affine E) p" "in_subgroup (g1_affine E) p'" "in_subgroup (g2_affine E) q" "q \<noteq> 0"
  shows "check_same_ratio E (p, p') (q, point_mul (g2_affine E) q x) err = Inr () \<longleftrightarrow> p' = point_mul (g1_affine E) p x"
proof -
  have "in_subgroup (g1_affine E) (point_mul (g1_affine E) p x)"
    by (rule curve_lawsD(2) [OF subgroup_lawsD(1) [OF pairing_lawsD(1) [OF assms(1)]] assms(2)])
  then show ?thesis
    using pairing_lawsD(5) [OF assms(1) _ assms(3-5), of "point_mul (g1_affine E) p x"] pairing_lawsD(4) [OF assms(1,2,4), of x]
    by (auto simp: check_same_ratio_def)
qed

lemma same_ratio_right:
  assumes "pairing_laws E" "in_subgroup (g2_affine E) q" "in_subgroup (g2_affine E) q'" "in_subgroup (g1_affine E) p" "p \<noteq> 0"
  shows "check_same_ratio E (p, point_mul (g1_affine E) p x) (q, q') err = Inr () \<longleftrightarrow> q' = point_mul (g2_affine E) q x"
proof -
  have "in_subgroup (g2_affine E) (point_mul (g2_affine E) q x)"
    by (rule curve_lawsD(2) [OF subgroup_lawsD(1) [OF pairing_lawsD(2) [OF assms(1)]] assms(2)])
  then show ?thesis
    using pairing_lawsD(6) [OF assms(1,4,3) _ assms(5), of "point_mul (g2_affine E) q x"] pairing_lawsD(4) [OF assms(1,4,2), of x]
    by (auto simp: check_same_ratio_def)
qed

lemma example_pairing_laws: "pairing_laws example_engine"
proof -
  have "subgroup_laws example_curve"
    by (auto simp: subgroup_laws_def example_curve_laws) (auto simp: example_curve_def in_subgroup_def algebra_simps)
  then show ?thesis
    by (auto simp: pairing_laws_def example_engine_def) (auto simp: example_curve_def in_subgroup_def algebra_simps)
qed

section \<open>Accepted contributions multiply by the secrets of the key\<close>

lemma hash_to_g2_point:
  assumes "hash_to_g2 E ops digest = Some (Inr q)"
  shows "q \<noteq> 0" "\<exists>p. q = mul_by_cofactor ops p"
proof -
  from assms have "hash_to_g2_loop ops (serialized_size (g2_affine E)) (take 32 digest) 0 = Some q"
    by (auto simp: hash_to_g2_def from_slice_def run_bind_ok_iff split: if_splits)
  from hash_to_g2_loop_found [OF this] show "q \<noteq> 0" "\<exists>p. q = mul_by_cofactor ops p"
    by (auto simp: usable_draw_def)
qed

lemma compute_g2_s_key_points:
  assumes "compute_g2_s_key E ops key digest = Some (Inr (t, a, b))" "\<forall>p. in_subgroup (g2_affine E) (mul_by_cofactor ops p)"
  shows "t \<noteq> 0" "a \<noteq> 0" "b \<noteq> 0" "in_subgroup (g2_affine E) t" "in_subgroup (g2_affine E) a" "in_subgroup (g2_affine E) b"
  using assms hash_to_g2_point [of E ops]
  by (auto simp: compute_g2_s_key_def compute_g2_s_def run_bind_ok_iff Let_def) metis+

lemma initial_elements_read:
  assumes laws: "curve_laws C" and read: "reads C c check buf xs" and els: "read_initial_elements C buf c check' = Inr els"
  shows "2 \<le> length xs" "length els = 2" "els ! 0 = xs ! 0" "els ! 1 = xs ! 1"
proof -
  let ?n = "buffer_size C c"
  have n: "0 < ?n" "length buf = length xs * ?n" using read by (simp_all add: curve_lawsD [OF laws] reads_def)
  from els have le: "2 * ?n \<le> length buf" and r: "read_batch C c check' (take (2 * ?n) buf) = Inr els"
    by (auto simp: read_initial_elements_def read_initial_elements_with_amount_def slice_def result_bind_ok_iff split: if_splits)
  then show two: "2 \<le> length xs" using n by simp
  have e: "length els = 2" "\<forall>i<2. read_element C c check' (cell ?n buf i) = Inr (els ! i)"
    using r n(1) le cell_of_slice [of _ 2 ?n 0 buf] by (simp_all add: read_batch_cells [of C c "take (2 * ?n) buf" 2])
  have "els ! i = xs ! i" if "i < 2" for i
  proof -
    have "read_element C c check' (cell ?n buf i) = Inr (els ! i)" "read_element C c check (cell ?n buf i) = Inr (xs ! i)"
      using e(2) that read two by (simp_all add: reads_def)
    then show ?thesis by (auto simp: read_element_accepted [of _ _ check] read_element_accepted [of _ _ check'])
  qed
  with e(1) show "length els = 2" "els ! 0 = xs ! 0" "els ! 1 = xs ! 1" by simp_all
qed

lemma preallocated_first:
  assumes laws: "curve_laws C" and read: "reads C c check buf xs" "0 < length xs"
    and els: "read_batch_preallocated C c check' buf els = Inr els'" "0 < length els"
  shows "els' ! 0 = xs ! 0" "0 < length els'"
proof -
  let ?n = "buffer_size C c"
  have n: "0 < ?n" "length buf = length xs * ?n" using read by (simp_all add: curve_lawsD [OF laws] reads_def)
  from els(1) obtain ys where ys: "collect_results (read_element C c check') (take (length els) (chunks_of ?n buf)) = Inr ys"
    "els' = ys @ drop (length ys) els"
    by (auto simp: read_batch_preallocated_def result_bind_ok_iff)
  from ys(1) have ys': "length ys = min (length els) (length xs)" "\<forall>i<length ys. read_element C c check' (cell ?n buf i) = Inr (ys ! i)"
    by (auto simp: collect_results_nth chunks_of_cells [OF n])
  then have "0 < length ys" "read_element C c check' (cell ?n buf 0) = Inr (ys ! 0)" using ys' read(2) els(2) by auto
  moreover have "read_element C c check (cell ?n buf 0) = Inr (xs ! 0)" using read by (simp add: reads_def)
  ultimately show "els' ! 0 = xs ! 0" "0 < length els'"
    using ys(2) by (auto simp: nth_append read_element_accepted [of _ _ check] read_element_accepted [of _ _ check'])
qed

lemma first_element_checked:
  assumes laws: "curve_laws (g1_affine E)" and ok: "check_first_element E (cin, ci) (cout, co) (b, a, check) v = Inr v'"
    and b: "reads (g1_affine E) cin ci' b xs" "0 < length xs" and a: "reads (g1_affine E) cout co' a ys" "0 < length ys"
    and v: "0 < length (fst v)" "0 < length (snd v)"
  shows "check_same_ratio E (xs ! 0, ys ! 0) check ''Before-After: alpha_g1[0] / beta_g1[0]'' = Inr ()"
    "0 < length (fst v')" "0 < length (snd v')"
  using ok preallocated_first [OF laws b _ v(1)] preallocated_first [OF laws a _ v(2)]
  by (auto simp: check_first_element_def Let_def result_bind_ok_iff)

lemma tau_g1_checked:
  assumes laws: "curve_laws (g1_affine E)" and ok: "check_tau_g1 E (b, cin, ci) (a, cout, co) check = Inr v"
    and b: "reads (g1_affine E) cin ci' b xs" and a: "reads (g1_affine E) cout co' a ys"
  shows "2 \<le> length xs" "ys ! 0 = prime_subgroup_generator (g1_affine E)"
    "check_same_ratio E (xs ! 1, ys ! 1) check ''Before-After: tau_g1'' = Inr ()" "0 < length (fst v)" "0 < length (snd v)"
proof -
  from ok obtain bs as where v: "v = (bs, as)" and r: "read_initial_elements (g1_affine E) b cin ci = Inr bs"
    "read_initial_elements (g1_affine E) a cout co = Inr as" "as ! 0 = prime_subgroup_generator (g1_affine E)"
    "check_same_ratio E (bs ! 1, as ! 1) check ''Before-After: tau_g1'' = Inr ()"
    by (auto simp: check_tau_g1_def Let_def result_bind_ok_iff split: if_splits)
  note e = initial_elements_read [OF laws b r(1)] initial_elements_read [OF laws a r(2)]
  show "2 \<le> length xs" by (rule e(1))
  show "ys ! 0 = prime_subgroup_generator (g1_affine E)" using r(3) e by simp
  show "check_same_ratio E (xs ! 1, ys ! 1) check ''Before-After: tau_g1'' = Inr ()" using r(4) unfolding e(4,8) .
  show "0 < length (fst v)" "0 < length (snd v)" using e(2,6) by (simp_all add: v)
qed

lemma tau_g2_checked:
  assumes laws: "curve_laws (g2_affine E)" and ok: "check_tau_g2 E (b, cin, ci) (a, cout, co) check = Inr u"
    and b: "reads (g2_affine E) cin ci' b xs" and a: "reads (g2_affine E) cout co' a ys"
  shows "2 \<le> length xs" "ys ! 0 = prime_subgroup_generator (g2_affine E)"
    "check_same_ratio E check (xs ! 1, ys ! 1) ''Before-After: tau_g2'' = Inr ()"
proof -
  from ok obtain bs as where r: "read_initial_elements (g2_affine E) b cin ci = Inr bs"
    "read_initial_elements (g2_affine E) a cout co = Inr as" "as ! 0 = prime_subgroup_generator (g2_affine E)"
    "check_same_ratio E check (bs ! 1, as ! 1) ''Before-After: tau_g2'' = Inr ()"
    by (auto simp: check_tau_g2_def Let_def result_bind_ok_iff split: if_splits)
  note e = initial_elements_read [OF laws b r(1)] initial_elements_read [OF laws a r(2)]
  show "2 \<le> length xs" by (rule e(1))
  show "ys ! 0 = prime_subgroup_generator (g2_affine E)" using r(3) e by simp
  show "check_same_ratio E check (xs ! 1, ys ! 1) ''Before-After: tau_g2'' = Inr ()" using r(4) unfolding e(4,8) .
qed

text \<open>What the checks of the first chunk compare.\<close>

lemma initial_checks:
  assumes laws: "engine_laws E" and i: "holds_elements E cin ci' ps i acc" and s: "holds_elements E cout co' ps s acc'"
    and alpha: "0 < length (alpha_tau_powers_g1 acc)" and ok: "verify_initial_elements E key (t, a, b) (cin, ci) (cout, co) ps i s = Inr ()"
  shows "check_same_ratio E (pk_tau_g1 key) (t, pk_tau_g2 key) ''Tau G1<>G2'' = Inr ()"
    "check_same_ratio E (pk_alpha_g1 key) (a, pk_alpha_g2 key) ''Alpha G1<>G2'' = Inr ()"
    "check_same_ratio E (pk_beta_g1 key) (b, pk_beta_g2 key) ''Beta G1<>G2'' = Inr ()"
    "2 \<le> length (tau_powers_g1 acc)" "2 \<le> length (tau_powers_g2 acc)"
    "tau_powers_g1 acc' ! 0 = prime_subgroup_generator (g1_affine E)"
    "tau_powers_g2 acc' ! 0 = prime_subgroup_generator (g2_affine E)"
    "check_same_ratio E (tau_powers_g1 acc ! 1, tau_powers_g1 acc' ! 1) (t, pk_tau_g2 key) ''Before-After: tau_g1'' = Inr ()"
    "check_same_ratio E (pk_tau_g1 key) (tau_powers_g2 acc ! 1, tau_powers_g2 acc' ! 1) ''Before-After: tau_g2'' = Inr ()"
    "check_same_ratio E (alpha_tau_powers_g1 acc ! 0, alpha_tau_powers_g1 acc' ! 0) (a, pk_alpha_g2 key)
       ''Before-After: alpha_g1[0] / beta_g1[0]'' = Inr ()"
    "p1_proving_system ps = Groth16 \<Longrightarrow>
       check_same_ratio E (beta_tau_powers_g1 acc ! 0, beta_tau_powers_g1 acc' ! 0) (b, pk_beta_g2 key)
         ''Before-After: alpha_g1[0] / beta_g1[0]'' = Inr ()"
    "p1_proving_system ps = Groth16 \<Longrightarrow>
       check_same_ratio E (pk_beta_g1 key) (acc_beta_g2 acc, acc_beta_g2 acc') ''Before-After: beta_g2[0]'' = Inr ()"
proof -
  note l = engine_lawsD [OF laws] and ri = i [unfolded holds_elements_def] and rs = s [unfolded holds_elements_def]
  let ?checks = "case p1_proving_system ps of
      Groth16 \<Rightarrow> [(alpha_g1 i, alpha_g1 s, a, pk_alpha_g2 key), (beta_g1 i, beta_g1 s, b, pk_beta_g2 key)]
    | Marlin \<Rightarrow> [(alpha_g1 i, alpha_g1 s, a, pk_alpha_g2 key)]"
  from ok obtain v v' where k: "check_key_ratios E key (t, a, b) = Inr ()"
    and t1: "check_tau_g1 E (tau_g1 i, cin, ci) (tau_g1 s, cout, co) (t, pk_tau_g2 key) = Inr v"
    and t2: "check_tau_g2 E (tau_g2 i, cin, ci) (tau_g2 s, cout, co) (pk_tau_g1 key) = Inr ()"
    and f: "fold_results (check_first_element E (cin, ci) (cout, co)) ?checks v = Inr v'"
    and b2: "p1_proving_system ps = Groth16 \<longrightarrow> check_beta_g2 E (beta_g2 i, cin, ci) (beta_g2 s, cout, co) (pk_beta_g1 key) = Inr ()"
    by (auto simp: verify_initial_elements_def Let_def result_bind_ok_iff split: if_splits)
  show "check_same_ratio E (pk_tau_g1 key) (t, pk_tau_g2 key) ''Tau G1<>G2'' = Inr ()"
    "check_same_ratio E (pk_alpha_g1 key) (a, pk_alpha_g2 key) ''Alpha G1<>G2'' = Inr ()"
    "check_same_ratio E (pk_beta_g1 key) (b, pk_beta_g2 key) ''Beta G1<>G2'' = Inr ()"
    using k by (auto simp: check_key_ratios_def Let_def result_bind_ok_iff)
  note t1' = tau_g1_checked [OF l(1) t1, of ci' "tau_powers_g1 acc" co' "tau_powers_g1 acc'"]
  show "2 \<le> length (tau_powers_g1 acc)" "tau_powers_g1 acc' ! 0 = prime_subgroup_generator (g1_affine E)"
    "check_same_ratio E (tau_powers_g1 acc ! 1, tau_powers_g1 acc' ! 1) (t, pk_tau_g2 key) ''Before-After: tau_g1'' = Inr ()"
    using t1' ri rs by blast+
  note t2' = tau_g2_checked [OF l(2) t2, of ci' "tau_powers_g2 acc" co' "tau_powers_g2 acc'"]
  show "2 \<le> length (tau_powers_g2 acc)" "tau_powers_g2 acc' ! 0 = prime_subgroup_generator (g2_affine E)"
    "check_same_ratio E (pk_tau_g1 key) (tau_powers_g2 acc ! 1, tau_powers_g2 acc' ! 1) ''Before-After: tau_g2'' = Inr ()"
    using t2' ri rs by blast+
  have v: "0 < length (fst v)" "0 < length (snd v)" using t1' ri rs by blast+
  have lens: "0 < length (alpha_tau_powers_g1 acc')" "p1_proving_system ps = Groth16 \<Longrightarrow> 0 < length (beta_tau_powers_g1 acc)"
    "p1_proving_system ps = Groth16 \<Longrightarrow> 0 < length (beta_tau_powers_g1 acc')"
  proof -
    have "length (alpha_tau_powers_g1 acc') = length (alpha_tau_powers_g1 acc)"
      using ri rs by (auto simp: elements_shape_def Let_def split: prod.splits)
    with alpha show "0 < length (alpha_tau_powers_g1 acc')" by (simp only:)
    assume "p1_proving_system ps = Groth16"
    with ri rs have "length (beta_tau_powers_g1 acc) = length (alpha_tau_powers_g1 acc)"
      "length (beta_tau_powers_g1 acc') = length (alpha_tau_powers_g1 acc)"
      by (simp_all add: elements_shape_def other_elements_def)
    with alpha show "0 < length (beta_tau_powers_g1 acc)" "0 < length (beta_tau_powers_g1 acc')" by (simp_all only:)
  qed
  obtain v1 where f1: "check_first_element E (cin, ci) (cout, co) (alpha_g1 i, alpha_g1 s, a, pk_alpha_g2 key) v = Inr v1"
    "p1_proving_system ps = Groth16 \<Longrightarrow> check_first_element E (cin, ci) (cout, co) (beta_g1 i, beta_g1 s, b, pk_beta_g2 key) v1 = Inr v'"
    using f by (auto simp: result_bind_ok_iff split: ProvingSystem.splits)
  note c1 = first_element_checked [OF l(1) f1(1) _ alpha _ lens(1) v, where ci' = ci' and co' = co']
  show "check_same_ratio E (alpha_tau_powers_g1 acc ! 0, alpha_tau_powers_g1 acc' ! 0) (a, pk_alpha_g2 key)
       ''Before-After: alpha_g1[0] / beta_g1[0]'' = Inr ()" using c1(1) ri rs by blast
  show "check_same_ratio E (beta_tau_powers_g1 acc ! 0, beta_tau_powers_g1 acc' ! 0) (b, pk_beta_g2 key)
       ''Before-After: alpha_g1[0] / beta_g1[0]'' = Inr ()" if "p1_proving_system ps = Groth16"
    using first_element_checked(1) [OF l(1) f1(2) [OF that] _ lens(2) [OF that] _ lens(3) [OF that], where ci' = ci' and co' = co']
      c1(2,3) ri rs by blast
  show "check_same_ratio E (pk_beta_g1 key) (acc_beta_g2 acc, acc_beta_g2 acc') ''Before-After: beta_g2[0]'' = Inr ()"
    if "p1_proving_system ps = Groth16"
    using b2 that ri rs by (auto simp: check_beta_g2_def Let_def result_bind_ok_iff read_element_accepted [of _ _ ci]
        read_element_accepted [of _ _ co] read_element_accepted [of _ _ ci'] read_element_accepted [of _ _ co'])
qed

text \<open>A pair of points of the key and its check commit to a scalar.\<close>

lemma key_ratio:
  assumes "pairing_laws E" "check_same_ratio E pk (q, q') err = Inr ()" "in_subgroup (g1_affine E) (fst pk)"
    and "in_subgroup (g1_affine E) (snd pk)" "in_subgroup (g2_affine E) q" "q \<noteq> 0" "in_subgroup (g2_affine E) q'"
  obtains x where "(fst pk, point_mul (g1_affine E) (fst pk) x) = pk" "q' = point_mul (g2_affine E) q x"
proof -
  obtain x where x: "q' = point_mul (g2_affine E) q x"
    by (rule multiple_exists [OF pairing_lawsD(2) [OF assms(1)] assms(5-7)])
  with assms(2) have "check_same_ratio E (fst pk, snd pk) (q, point_mul (g2_affine E) q x) err = Inr ()" by simp
  then have "snd pk = point_mul (g1_affine E) (fst pk) x" by (simp only: same_ratio_left [OF assms(1,3,4,5,6)])
  then have "(fst pk, point_mul (g1_affine E) (fst pk) x) = pk" by (metis surjective_pairing)
  then show thesis using x by (rule that)
qed

lemma first_chunk_alpha:
  assumes ps: "ps = parameters_new mode 0 sz cv system log2 batch" and shape: "elements_shape E ps acc" and ne: "0 < g1_chunk_size ps"
  shows "0 < length (alpha_tau_powers_g1 acc)"
proof (cases system)
  case Groth16
  have "first_element ps = 0" by (simp add: ps first_element_def split: ContributionMode.splits)
  then have "other_chunk_size ps = min (g1_chunk_size ps) (powers_length ps)"
    using chunk_extent(2) [OF ps] total_size_pos [of system log2] by (simp add: ps Groth16)
  moreover have "length (alpha_tau_powers_g1 acc) = other_chunk_size ps"
    using shape by (simp add: elements_shape_def other_elements_def ps Groth16)
  ultimately show ?thesis using ne by (simp add: ps)
next
  case Marlin
  with shape have "length (alpha_tau_powers_g1 acc) = 3 + 3 * log2"
    by (simp add: elements_shape_def other_elements_def ps marlin_sizes_def)
  then show ?thesis by simp
qed

lemma accepted_beta:
  assumes laws: "pairing_laws E" and b: "in_subgroup (g2_affine E) b" "b \<noteq> 0"
    and k: "in_subgroup (g1_affine E) (fst pk)" "(fst pk, point_mul (g1_affine E) (fst pk) x) = pk" and sys: "p1_proving_system ps = Groth16"
    and shape: "elements_shape E ps acc" "elements_shape E ps acc'" "0 < length (alpha_tau_powers_g1 acc)"
    and v: "elements_valid E CheckNo acc" "elements_valid E CheckNo acc'"
    and first: "check_same_ratio E (beta_tau_powers_g1 acc ! 0, beta_tau_powers_g1 acc' ! 0) (b, point_mul (g2_affine E) b x) err = Inr ()"
    and g2: "check_same_ratio E pk (acc_beta_g2 acc, acc_beta_g2 acc') err' = Inr ()"
  shows "beta_tau_powers_g1 acc' ! 0 = point_mul (g1_affine E) (beta_tau_powers_g1 acc ! 0) x"
    "fst pk \<noteq> 0 \<Longrightarrow> acc_beta_g2 acc' = point_mul (g2_affine E) (acc_beta_g2 acc) x"
proof -
  have len: "length (beta_tau_powers_g1 acc) = length (alpha_tau_powers_g1 acc)"
    "length (beta_tau_powers_g1 acc') = length (alpha_tau_powers_g1 acc)"
    using shape(1,2) by (simp_all add: elements_shape_def other_elements_def sys)
  with shape(3) have "beta_tau_powers_g1 acc ! 0 \<in> set (beta_tau_powers_g1 acc)" "beta_tau_powers_g1 acc' ! 0 \<in> set (beta_tau_powers_g1 acc')"
    by (metis nth_mem)+
  with v have pts: "in_subgroup (g1_affine E) (beta_tau_powers_g1 acc ! 0)" "in_subgroup (g1_affine E) (beta_tau_powers_g1 acc' ! 0)"
    "in_subgroup (g2_affine E) (acc_beta_g2 acc)" "in_subgroup (g2_affine E) (acc_beta_g2 acc')"
    by (auto simp: elements_valid_def valid_points_def)
  from first show "beta_tau_powers_g1 acc' ! 0 = point_mul (g1_affine E) (beta_tau_powers_g1 acc ! 0) x"
    by (simp only: same_ratio_left [OF laws pts(1,2) b])
  show "acc_beta_g2 acc' = point_mul (g2_affine E) (acc_beta_g2 acc) x" if "fst pk \<noteq> 0"
    by (rule iffD1 [OF same_ratio_right [OF laws pts(3,4) k(1) that, where x = x, unfolded k(2)] g2])
qed


section \<open>Honest contributions are accepted\<close>

lemma reads_any_check: "reads C c CheckFull buf xs \<Longrightarrow> reads C c check buf xs"
  by (auto simp: reads_def read_element_accepted [of _ _ CheckFull] read_element_accepted [of _ _ check] accepted_def)

lemma holds_any_check: "holds_elements E c CheckFull ps s acc \<Longrightarrow> holds_elements E c check ps s acc"
  by (auto simp: holds_elements_def reads_any_check read_element_accepted [of _ _ CheckFull]
      read_element_accepted [of _ _ check] accepted_def)

lemma check_elements_ok:
  assumes laws: "subgroup_laws C" and read: "reads C c CheckFull buf xs" "valid_points C CheckFull xs"
    and b: "s \<le> e" "e \<le> length xs" "e - s \<le> n"
  shows "check_elements_are_nonzero_and_in_prime_order_subgroup C (buf, c) (s, e) (replicate n 0) = Inr ()"
proof -
  let ?ys = "map (\<lambda>i. xs ! (s + i)) [0..<e - s]"
  have len: "length buf = length xs * buffer_size C c" using read(1) by (simp add: reads_def)
  have "read_batch_range C (buf, c, CheckFull) (s, e) (replicate n 0) = Inr (?ys @ drop (e - s) (replicate n 0))"
    unfolding read_batch_range_iff [OF curve_lawsD(5) [OF subgroup_lawsD(1) [OF laws]] len b(1,2)]
    using b read(1) by (intro conjI exI [of _ ?ys]) (auto simp: reads_def)
  moreover have "\<forall>p\<in>set (?ys @ drop (e - s) (replicate n 0)). mul_modulus C p = 0"
    using read(2) b subgroup_lawsD(3) [OF laws] by (auto simp: valid_points_def in_subgroup_def)
  ultimately show ?thesis
    by (simp add: check_elements_are_nonzero_and_in_prime_order_subgroup_def list_all_iff)
qed

lemma verify_groth16_ok:
  assumes laws: "pairing_laws E" and ps: "ps = parameters_new mode index sz cv Groth16 log2 batch"
    and inside: "first_element ps < total_size_in_g1 Groth16 log2"
    and s: "holds_elements E c CheckFull ps s acc" "elements_valid E CheckFull acc"
    and ab: "first_element ps \<le> a" "a < b" "b = min (first_element ps + g1_chunk_size ps) (a + p1_batch_size ps)"
  shows "verify_batch E c ps s a b u = Inr ()"
proof -
  note e = chunk_extent [OF ps inside] and r = s(1) [unfolded holds_elements_def] and v = s(2) [unfolded elements_valid_def]
  note ok1 = check_elements_ok [OF pairing_lawsD(1) [OF laws], of c] and ok2 = check_elements_ok [OF pairing_lawsD(2) [OF laws], of c]
  let ?f = "first_element ps" and ?n = "p1_batch_size ps"
  have sys: "p1_proving_system ps = Groth16" by (simp add: ps)
  have lens: "length (tau_powers_g1 acc) = g1_chunk_size ps" "length (tau_powers_g2 acc) = other_chunk_size ps"
    "length (alpha_tau_powers_g1 acc) = other_chunk_size ps" "length (beta_tau_powers_g1 acc) = other_chunk_size ps"
    using r by (simp_all add: elements_shape_def other_elements_def sys)
  have pos: "chunk_position ps x = x - ?f" if "?f \<le> x" for x using e(3) [of "x - ?f"] that by simp
  have t1: "check_elements_are_nonzero_and_in_prime_order_subgroup (g1_affine E) (tau_g1 s, c) (a - ?f, b - ?f) (replicate ?n 0) = Inr ()"
    using ab r v lens(1) by (intro ok1 [of _ "tau_powers_g1 acc"]) auto
  show ?thesis
  proof (cases "a < powers_length ps")
    case True
    let ?e = "min (?f + other_chunk_size ps) (a + ?n)"
    have oe: "other_end ps a b = ?e" by (rule other_end_extent [OF ps inside ab(1,3,2) True])
    have "a \<le> ?e" using e(2) [OF sys] ab True by auto
    then have b: "a - ?f \<le> ?e - ?f" "?e - ?f \<le> other_chunk_size ps" "?e - ?f - (a - ?f) \<le> ?n" using ab(1) by auto
    have "check_elements_are_nonzero_and_in_prime_order_subgroup (g2_affine E) (tau_g2 s, c) (a - ?f, ?e - ?f) (replicate ?n 0) = Inr ()"
      by (rule ok2 [OF _ _ b(1) _ b(3), of _ "tau_powers_g2 acc"]) (use r v b(2) lens(2) in simp_all)
    moreover have "check_elements_are_nonzero_and_in_prime_order_subgroup (g1_affine E) (alpha_g1 s, c) (a - ?f, ?e - ?f) (replicate ?n 0) = Inr ()"
      by (rule ok1 [OF _ _ b(1) _ b(3), of _ "alpha_tau_powers_g1 acc"]) (use r v b(2) lens(3) in simp_all)
    moreover have "check_elements_are_nonzero_and_in_prime_order_subgroup (g1_affine E) (beta_g1 s, c) (a - ?f, ?e - ?f) (replicate ?n 0) = Inr ()"
      by (rule ok1 [OF _ _ b(1) _ b(3), of _ "beta_tau_powers_g1 acc"]) (use r v b(2) lens(4) in simp_all)
    ultimately show ?thesis
      using t1 ab(1,2) True by (simp add: verify_batch_def verify_groth16_batch_def sys Let_def pos oe)
  next
    case False
    then show ?thesis using t1 ab(1,2) by (simp add: verify_batch_def verify_groth16_batch_def sys Let_def pos)
  qed
qed

lemma verify_marlin_ok:
  assumes laws: "pairing_laws E" and ps: "ps = parameters_new mode index sz cv Marlin log2 batch"
    and inside: "first_element ps < total_size_in_g1 Marlin log2" and first: "first_element ps = 0 \<longrightarrow> index = 0 \<and> 3 + 3 * log2 \<le> batch"
    and s: "holds_elements E c CheckFull ps s acc" "elements_valid E CheckFull acc"
    and ab: "first_element ps \<le> a" "a < b" "b = min (first_element ps + g1_chunk_size ps) (a + p1_batch_size ps)"
  shows "verify_batch E c ps s a b u = Inr ()"
proof -
  note e = chunk_extent [OF ps inside] and r = s(1) [unfolded holds_elements_def] and v = s(2) [unfolded elements_valid_def]
  note ok1 = check_elements_ok [OF pairing_lawsD(1) [OF laws], of c] and ok2 = check_elements_ok [OF pairing_lawsD(2) [OF laws], of c]
  let ?f = "first_element ps" and ?n = "p1_batch_size ps"
  have sys: "p1_proving_system ps = Marlin" by (simp add: ps)
  have n: "length (tau_powers_g1 acc) = g1_chunk_size ps" using r by (simp add: elements_shape_def other_elements_def sys)
  have pos: "chunk_position ps x = x - ?f" if "?f \<le> x" for x using e(3) [of "x - ?f"] that by simp
  have t1: "check_elements_are_nonzero_and_in_prime_order_subgroup (g1_affine E) (tau_g1 s, c) (a - ?f, b - ?f) (replicate ?n 0) = Inr ()"
    using ab r v n by (intro ok1 [of _ "tau_powers_g1 acc"]) auto
  have "check_elements_are_nonzero_and_in_prime_order_subgroup (g1_affine E) (alpha_g1 s, c) (0, 3 + 3 * total_size_in_log2 ps) (replicate ?n 0) = Inr ()"
    "check_elements_are_nonzero_and_in_prime_order_subgroup (g2_affine E) (tau_g2 s, c) (0, total_size_in_log2 ps + 2) (replicate ?n 0) = Inr ()" if "a = 0"
  proof -
    have i: "index = 0" "3 + 3 * log2 \<le> batch" using that ab(1) first by auto
    have lens: "length (tau_powers_g2 acc) = total_size_in_log2 ps + 2" "length (alpha_tau_powers_g1 acc) = 3 + 3 * total_size_in_log2 ps"
      using r i(1) by (simp_all add: elements_shape_def other_elements_def marlin_sizes_def ps)
    show "check_elements_are_nonzero_and_in_prime_order_subgroup (g1_affine E) (alpha_g1 s, c) (0, 3 + 3 * total_size_in_log2 ps) (replicate ?n 0) = Inr ()"
      by (rule ok1 [of _ "alpha_tau_powers_g1 acc"]) (use r v i lens in \<open>simp_all add: ps\<close>)
    show "check_elements_are_nonzero_and_in_prime_order_subgroup (g2_affine E) (tau_g2 s, c) (0, total_size_in_log2 ps + 2) (replicate ?n 0) = Inr ()"
      by (rule ok2 [of _ "tau_powers_g2 acc"]) (use r v i lens in \<open>simp_all add: ps\<close>)
  qed
  then show ?thesis using t1 ab(1,2) by (simp add: verify_batch_def verify_marlin_batch_def sys Let_def pos)
qed

lemma verify_batches_ok:
  assumes laws: "pairing_laws E" and ps: "ps = parameters_new mode index sz cv system log2 batch"
    and inside: "first_element ps < total_size_in_g1 system log2" and batch: "2 \<le> batch"
    and first: "system = Marlin \<and> first_element ps = 0 \<longrightarrow> index = 0 \<and> 3 + 3 * log2 \<le> batch"
    and s: "holds_elements E c CheckFull ps s acc" "elements_valid E CheckFull acc"
  shows "iter_chunk ps (verify_batch E c ps s) () = Inr ()"
proof -
  have two: "2 \<le> p1_batch_size ps" using batch by (simp add: ps)
  have step: "verify_batch E c ps s a b u = Inr ()"
    if ab: "first_element ps \<le> a" "a < b" "b = min (first_element ps + g1_chunk_size ps) (a + p1_batch_size ps)" for a b u
  proof (cases system)
    case Groth16
    show ?thesis by (rule verify_groth16_ok [OF laws ps [unfolded Groth16] inside [unfolded Groth16] s ab])
  next
    case Marlin
    show ?thesis
      by (rule verify_marlin_ok [OF laws ps [unfolded Marlin] inside [unfolded Marlin] _ s ab]) (use first Marlin in simp)
  qed
  have "\<exists>u. iter_chunk ps (verify_batch E c ps s) () = Inr u \<and> True"
    by (rule iter_chunk_invariant [where P = "\<lambda>_ _. True", OF chunk_extent(1) [OF ps inside] _ two]) (use step in auto)
  then show ?thesis by auto
qed

lemma same_ratio_scaled:
  assumes "pairing_laws E" "in_subgroup (g1_affine E) p" "in_subgroup (g2_affine E) q"
  shows "check_same_ratio E (p, point_mul (g1_affine E) p x) (q, point_mul (g2_affine E) q x) err = Inr ()"
  using pairing_lawsD(4) [OF assms, of x] by (simp add: check_same_ratio_def)

lemma honest_key:
  assumes "key_generation E ops rng digest = Some (Inr (pk, sk))"
  obtains t a b where "compute_g2_s_key E ops pk digest = Some (Inr (t, a, b))"
    "pk_tau_g1 pk = (draw_tau_s rng, point_mul (g1_affine E) (draw_tau_s rng) (sk_tau sk))" "pk_tau_g2 pk = point_mul (g2_affine E) t (sk_tau sk)"
    "pk_alpha_g1 pk = (draw_alpha_s rng, point_mul (g1_affine E) (draw_alpha_s rng) (sk_alpha sk))"
    "pk_alpha_g2 pk = point_mul (g2_affine E) a (sk_alpha sk)"
    "pk_beta_g1 pk = (draw_beta_s rng, point_mul (g1_affine E) (draw_beta_s rng) (sk_beta sk))" "pk_beta_g2 pk = point_mul (g2_affine E) b (sk_beta sk)"
  using assms
  by (auto simp: key_generation_def key_op_def run_bind_ok_iff compute_g2_s_key_def Let_def split: if_splits)

lemma read_initial_ok:
  assumes laws: "curve_laws C" and read: "reads C c check buf xs" "2 \<le> length xs"
  shows "read_initial_elements C buf c check = Inr (take 2 xs)"
proof -
  let ?n = "buffer_size C c"
  have n: "0 < ?n" "length buf = length xs * ?n" using read by (simp_all add: curve_lawsD [OF laws] reads_def)
  have le: "2 * ?n \<le> length buf" using n(2) read(2) by simp
  have "read_batch C c check (take (2 * ?n) buf) = Inr (take 2 xs)"
    using le n(1) read cell_of_slice [of _ 2 ?n 0 buf] by (simp add: read_batch_cells [of C c "take (2 * ?n) buf" 2] reads_def)
  then show ?thesis
    using le read(2) by (simp add: read_initial_elements_def read_initial_elements_with_amount_def slice_def)
qed

lemma first_element_ok:
  assumes laws: "curve_laws (g1_affine E)"
    and b: "reads (g1_affine E) cin ci b xs" "0 < length xs" and a: "reads (g1_affine E) cout co a ys" "0 < length ys"
    and v: "0 < length (fst v)" "0 < length (snd v)"
    and ok: "check_same_ratio E (xs ! 0, ys ! 0) check ''Before-After: alpha_g1[0] / beta_g1[0]'' = Inr ()"
  obtains v' where "check_first_element E (cin, ci) (cout, co) (b, a, check) v = Inr v'" "0 < length (fst v')" "0 < length (snd v')"
proof -
  have pre: "\<exists>els'. read_batch_preallocated (g1_affine E) c ch buf els = Inr els'" if "reads (g1_affine E) c ch buf zs" for c ch buf zs els
  proof -
    have n: "0 < buffer_size (g1_affine E) c" "length buf = length zs * buffer_size (g1_affine E) c"
      using that by (simp_all add: curve_lawsD [OF laws] reads_def)
    have "collect_results (read_element (g1_affine E) c ch) (take (length els) (chunks_of (buffer_size (g1_affine E) c) buf)) = Inr (take (length els) zs)"
      using that by (simp add: collect_results_nth chunks_of_cells [OF n] reads_def)
    then show ?thesis by (simp add: read_batch_preallocated_def)
  qed
  obtain bs as where r: "read_batch_preallocated (g1_affine E) cin ci b (fst v) = Inr bs" "read_batch_preallocated (g1_affine E) cout co a (snd v) = Inr as"
    using pre [OF b(1)] pre [OF a(1)] by blast
  note f = preallocated_first [OF laws b r(1) v(1)] preallocated_first [OF laws a r(2) v(2)]
  show thesis
    by (rule that [of "(bs, as)"]) (use r ok f in \<open>auto simp: check_first_element_def Let_def\<close>)
qed

lemma contributed_elements:
  assumes laws: "engine_laws E" and valid: "elements_valid E check acc" and acc': "acc' = contribute_elements E ps sk acc"
    and first: "first_element ps = 0"
  shows "0 < length (tau_powers_g1 acc) \<Longrightarrow> tau_powers_g1 acc' ! 0 = tau_powers_g1 acc ! 0"
    "1 < length (tau_powers_g1 acc) \<Longrightarrow> tau_powers_g1 acc' ! 1 = point_mul (g1_affine E) (tau_powers_g1 acc ! 1) (sk_tau sk)"
    "0 < length (tau_powers_g2 acc) \<Longrightarrow> tau_powers_g2 acc' ! 0 = tau_powers_g2 acc ! 0"
    "1 < length (tau_powers_g2 acc) \<Longrightarrow> tau_powers_g2 acc' ! 1 = point_mul (g2_affine E) (tau_powers_g2 acc ! 1) (sk_tau sk)"
    "0 < length (alpha_tau_powers_g1 acc) \<Longrightarrow> alpha_tau_powers_g1 acc' ! 0 = point_mul (g1_affine E) (alpha_tau_powers_g1 acc ! 0) (sk_alpha sk)"
    "0 < length (beta_tau_powers_g1 acc) \<Longrightarrow> beta_tau_powers_g1 acc' ! 0 = point_mul (g1_affine E) (beta_tau_powers_g1 acc ! 0) (sk_beta sk)"
proof -
  have w: "power_weight ps sk 0 = 1" "power_weight ps sk 1 = sk_tau sk" "tau_g2_weight ps sk 0 = 1" "tau_g2_weight ps sk 1 = sk_tau sk"
    "alpha_weight ps sk 0 = sk_alpha sk" "beta_weight ps sk 0 = sk_beta sk"
    using first by (simp_all add: power_weight_def tau_g2_weight_def alpha_weight_def beta_weight_def split: ProvingSystem.splits)
  note l = curve_lawsD(3) [OF engine_lawsD(1) [OF laws]] curve_lawsD(3) [OF engine_lawsD(2) [OF laws]]
  have p: "0 < length (tau_powers_g1 acc) \<Longrightarrow> in_subgroup (g1_affine E) (tau_powers_g1 acc ! 0)"
    "0 < length (tau_powers_g2 acc) \<Longrightarrow> in_subgroup (g2_affine E) (tau_powers_g2 acc ! 0)"
    using valid by (auto simp: elements_valid_def valid_points_def)
  show "0 < length (tau_powers_g1 acc) \<Longrightarrow> tau_powers_g1 acc' ! 0 = tau_powers_g1 acc ! 0"
    "1 < length (tau_powers_g1 acc) \<Longrightarrow> tau_powers_g1 acc' ! 1 = point_mul (g1_affine E) (tau_powers_g1 acc ! 1) (sk_tau sk)"
    "0 < length (tau_powers_g2 acc) \<Longrightarrow> tau_powers_g2 acc' ! 0 = tau_powers_g2 acc ! 0"
    "1 < length (tau_powers_g2 acc) \<Longrightarrow> tau_powers_g2 acc' ! 1 = point_mul (g2_affine E) (tau_powers_g2 acc ! 1) (sk_tau sk)"
    "0 < length (alpha_tau_powers_g1 acc) \<Longrightarrow> alpha_tau_powers_g1 acc' ! 0 = point_mul (g1_affine E) (alpha_tau_powers_g1 acc ! 0) (sk_alpha sk)"
    "0 < length (beta_tau_powers_g1 acc) \<Longrightarrow> beta_tau_powers_g1 acc' ! 0 = point_mul (g1_affine E) (beta_tau_powers_g1 acc ! 0) (sk_beta sk)"
    by (simp_all only: acc' contribute_elements_def AccumulatorElements.simps scale_points_simps w l p)
qed

lemma verify_initial_ok:
  assumes laws: "pairing_laws E" and i: "holds_elements E cin ci ps i acc" and s: "holds_elements E cout co ps s acc'"
    and valid: "elements_valid E CheckNo acc" and acc': "acc' = contribute_elements E ps sk acc" and first: "first_element ps = 0"
    and lens: "2 \<le> length (tau_powers_g1 acc)" "2 \<le> length (tau_powers_g2 acc)" "0 < length (alpha_tau_powers_g1 acc)"
    and gens: "tau_powers_g1 acc ! 0 = prime_subgroup_generator (g1_affine E)" "tau_powers_g2 acc ! 0 = prime_subgroup_generator (g2_affine E)"
    and key: "pk_tau_g1 pk = (p1, point_mul (g1_affine E) p1 (sk_tau sk))" "pk_tau_g2 pk = point_mul (g2_affine E) t (sk_tau sk)"
      "pk_alpha_g1 pk = (p2, point_mul (g1_affine E) p2 (sk_alpha sk))" "pk_alpha_g2 pk = point_mul (g2_affine E) a (sk_alpha sk)"
      "pk_beta_g1 pk = (p3, point_mul (g1_affine E) p3 (sk_beta sk))" "pk_beta_g2 pk = point_mul (g2_affine E) b (sk_beta sk)"
    and sub: "in_subgroup (g1_affine E) p1" "in_subgroup (g1_affine E) p2" "in_subgroup (g1_affine E) p3"
      "in_subgroup (g2_affine E) t" "in_subgroup (g2_affine E) a" "in_subgroup (g2_affine E) b"
  shows "verify_initial_elements E pk (t, a, b) (cin, ci) (cout, co) ps i s = Inr ()"
proof -
  note el = pairing_lawsD(3) [OF laws]
  note l = engine_lawsD [OF el] and ri = i [unfolded holds_elements_def] and rs = s [unfolded holds_elements_def]
    and ratio = same_ratio_scaled [OF laws] and c = contributed_elements [OF el valid acc' first]
  have lens': "length (tau_powers_g1 acc') = length (tau_powers_g1 acc)" "length (tau_powers_g2 acc') = length (tau_powers_g2 acc)"
    "length (alpha_tau_powers_g1 acc') = length (alpha_tau_powers_g1 acc)" "length (beta_tau_powers_g1 acc') = length (beta_tau_powers_g1 acc)"
    by (simp_all add: acc' contribute_elements_def)
  have p: "in_subgroup (g1_affine E) (tau_powers_g1 acc ! 1)" "in_subgroup (g2_affine E) (tau_powers_g2 acc ! 1)"
    "in_subgroup (g1_affine E) (alpha_tau_powers_g1 acc ! 0)" "0 < length (beta_tau_powers_g1 acc) \<Longrightarrow> in_subgroup (g1_affine E) (beta_tau_powers_g1 acc ! 0)"
    "in_subgroup (g2_affine E) (acc_beta_g2 acc)"
    using valid lens by (auto simp: elements_valid_def valid_points_def)
  have n: "0 < length (tau_powers_g1 acc)" "1 < length (tau_powers_g1 acc)" "0 < length (tau_powers_g2 acc)" "1 < length (tau_powers_g2 acc)"
    using lens by linarith+
  note e = c(1) [OF n(1)] c(2) [OF n(2)] c(3) [OF n(3)] c(4) [OF n(4)] c(5) [OF lens(3)]
  have k: "check_key_ratios E pk (t, a, b) = Inr ()" using ratio sub by (simp add: check_key_ratios_def key)
  have t1: "check_tau_g1 E (tau_g1 i, cin, ci) (tau_g1 s, cout, co) (t, pk_tau_g2 pk) = Inr (take 2 (tau_powers_g1 acc), take 2 (tau_powers_g1 acc'))"
    using read_initial_ok [OF l(1), of cin ci "tau_g1 i" "tau_powers_g1 acc"] read_initial_ok [OF l(1), of cout co "tau_g1 s" "tau_powers_g1 acc'"]
      ri rs lens lens' gens e(1,2) ratio [OF p(1) sub(4)] by (simp add: check_tau_g1_def key)
  have t2: "check_tau_g2 E (tau_g2 i, cin, ci) (tau_g2 s, cout, co) (pk_tau_g1 pk) = Inr ()"
    using read_initial_ok [OF l(2), of cin ci "tau_g2 i" "tau_powers_g2 acc"] read_initial_ok [OF l(2), of cout co "tau_g2 s" "tau_powers_g2 acc'"]
      ri rs lens lens' gens e(3,4) ratio [OF sub(1) p(2)] by (simp add: check_tau_g2_def key)
  let ?v = "(take 2 (tau_powers_g1 acc), take 2 (tau_powers_g1 acc'))"
  have v: "0 < length (fst ?v)" "0 < length (snd ?v)" using n(1) lens'(1) by auto
  have alpha': "0 < length (alpha_tau_powers_g1 acc')" using lens(3) lens'(3) by (simp only:)
  obtain v1 where v1: "check_first_element E (cin, ci) (cout, co) (alpha_g1 i, alpha_g1 s, a, pk_alpha_g2 pk) ?v = Inr v1" "0 < length (fst v1)" "0 < length (snd v1)"
    by (rule first_element_ok [OF l(1) _ lens(3) _ alpha' v, of cin ci "alpha_g1 i" cout co "alpha_g1 s"])
      (use ri rs e(5) ratio [OF p(3) sub(5)] in \<open>simp_all add: key\<close>)
  show ?thesis
  proof (cases "p1_proving_system ps")
    case Groth16
    have "length (beta_tau_powers_g1 acc) = length (alpha_tau_powers_g1 acc)" using ri by (simp add: elements_shape_def other_elements_def Groth16)
    then have bl: "0 < length (beta_tau_powers_g1 acc)" "0 < length (beta_tau_powers_g1 acc')" using lens(3) lens'(4) by (simp_all only:)
    obtain v2 where v2: "check_first_element E (cin, ci) (cout, co) (beta_g1 i, beta_g1 s, b, pk_beta_g2 pk) v1 = Inr v2"
      by (rule first_element_ok [OF l(1) _ bl(1) _ bl(2) v1(2,3), of cin ci "beta_g1 i" cout co "beta_g1 s"])
        (use ri rs c(6) [OF bl(1)] ratio [OF p(4) [OF bl(1)] sub(6)] in \<open>simp_all add: key\<close>)
    have "acc_beta_g2 acc' = point_mul (g2_affine E) (acc_beta_g2 acc) (sk_beta sk)" by (simp add: acc' contribute_elements_def Groth16)
    then have "check_beta_g2 E (beta_g2 i, cin, ci) (beta_g2 s, cout, co) (pk_beta_g1 pk) = Inr ()"
      using ri rs ratio [OF sub(3) p(5)] by (simp add: check_beta_g2_def key Groth16)
    with k t1 t2 v1(1) v2 show ?thesis by (simp add: verify_initial_elements_def Groth16 Let_def)
  next
    case Marlin
    with k t1 t2 v1(1) show ?thesis by (simp add: verify_initial_elements_def Let_def)
  qed
qed

lemma contribute_nonzero:
  assumes laws: "pairing_laws E" and valid: "elements_valid E CheckFull acc"
    and sk: "sk_tau sk \<noteq> 0" "sk_alpha sk \<noteq> 0" "sk_beta sk \<noteq> 0"
  shows "elements_valid E CheckFull (contribute_elements E ps sk acc)"
proof -
  have scaled: "valid_points C CheckFull (scale_points C w xs)" if "subgroup_laws C" "valid_points C CheckFull xs" "\<And>i. w i \<noteq> 0"
    for C :: "('a, 'x::ab_group_add) AffineCurve" and w xs
    using that by (auto simp: valid_points_def accepted_def scale_points_def point_mul_eq_0 curve_lawsD(2) [OF subgroup_lawsD(1) [OF that(1)]])
  have w: "power_weight ps sk i \<noteq> 0" "tau_g2_weight ps sk i \<noteq> 0" "alpha_weight ps sk i \<noteq> 0" "beta_weight ps sk i \<noteq> 0" for i
    using sk by (simp_all add: power_weight_def tau_g2_weight_def alpha_weight_def beta_weight_def split: ProvingSystem.splits)
  note l = pairing_lawsD(1,2) [OF laws]
  have "valid_points (g2_affine E) CheckFull [point_mul (g2_affine E) (acc_beta_g2 acc) (sk_beta sk)]"
    using valid sk(3) l(2) by (auto simp: elements_valid_def valid_points_def accepted_def point_mul_eq_0 curve_lawsD(2) [OF subgroup_lawsD(1) [OF l(2)]])
  then show ?thesis
    using valid w scaled [OF l(1)] scaled [OF l(2)] by (auto simp: elements_valid_def contribute_elements_def split: ProvingSystem.splits)
qed

text \<open>What an honest contributor to a chunk starts from.\<close>

definition honest_setting ::
  "('f::field, 'g::ab_group_add, 'h::ab_group_add, 't) PairingEngine \<Rightarrow> 'h HashOps \<Rightarrow> ('f, 'g) KeyDraws \<Rightarrow> usize \<Rightarrow>
   ('g, 'h) AccumulatorElements \<Rightarrow> bool" where
  "honest_setting E ops rng index acc \<longleftrightarrow>
     pairing_laws E \<and> (\<forall>p. in_subgroup (g2_affine E) (mul_by_cofactor ops p)) \<and>
     in_subgroup (g1_affine E) (draw_tau_s rng) \<and> in_subgroup (g1_affine E) (draw_alpha_s rng) \<and> in_subgroup (g1_affine E) (draw_beta_s rng) \<and>
     draw_tau rng \<noteq> 0 \<and> draw_alpha rng \<noteq> 0 \<and> draw_beta rng \<noteq> 0 \<and> elements_valid E CheckFull acc \<and>
     (index = 0 \<longrightarrow> tau_powers_g1 acc ! 0 = prime_subgroup_generator (g1_affine E) \<and> tau_powers_g2 acc ! 0 = prime_subgroup_generator (g2_affine E))"

lemma key_generation_secrets:
  "key_generation E ops rng digest = Some (Inr (pk, sk)) \<Longrightarrow> sk_tau sk = draw_tau rng \<and> sk_alpha sk = draw_alpha rng \<and> sk_beta sk = draw_beta rng"
  by (auto simp: key_generation_def run_bind_ok_iff split: if_splits)

lemma honest_verification:
  assumes honest: "honest_setting E ops rng index acc" and ps: "ps = parameters_new mode index sz (curve_parameters_new E) system log2 batch"
    and inside: "first_element ps < total_size_in_g1 system log2" and batch: "2 \<le> batch"
    and chunk: "mode = ModeFull \<longrightarrow> index = 0" "mode = Chunked \<longrightarrow> 0 < sz"
      "index = 0 \<longrightarrow> 1 \<le> log2 \<and> 2 \<le> g1_chunk_size ps \<and> (system = Marlin \<longrightarrow> 3 + 3 * log2 \<le> batch)"
    and key: "key_generation E ops rng digest = Some (Inr (pk, sk))"
    and input: "deserialize E input cin check_in ps = Inr acc" and out: "get_length ps cout \<le> length outbuf"
    and run: "computation E input outbuf cin cout check_in sk ps = Inr output'"
  shows "verification E ops input output' pk digest cin cout check_in check_out ps = Some (Inr ())"
proof -
  have laws: "pairing_laws E" and cof: "\<forall>p. in_subgroup (g2_affine E) (mul_by_cofactor ops p)" and valid: "elements_valid E CheckFull acc"
    using honest by (simp_all add: honest_setting_def)
  note el = pairing_lawsD(3) [OF laws]
  have sk: "sk_tau sk \<noteq> 0" "sk_alpha sk \<noteq> 0" "sk_beta sk \<noteq> 0"
    using key_generation_secrets [OF key] honest by (auto simp: honest_setting_def)
  let ?acc' = "contribute_elements E ps sk acc"
  have valid': "elements_valid E CheckFull ?acc'" by (rule contribute_nonzero [OF laws valid sk])
  obtain i where i: "split E input ps cin = Inr i" "holds_elements E cin check_in ps i acc" by (rule deserialize_holds [OF el input])
  obtain s0 where s0: "split_mut E outbuf ps cout = Inr s0" using split_mut_exists [OF ps out] by blast
  have shape: "elements_shape E ps acc" using i(2) by (simp add: holds_elements_def)
  have o: "output' = join (encoded_parts E ps cout ?acc' s0)"
    using computation_stored [OF el ps inside batch i valid s0] run by simp
  have "deserialize E output' cout CheckFull ps = Inr ?acc'"
    using stored_read_back(2) [OF el contribute_shape [OF shape] valid' s0 split_nonempty [OF i(1)]]
    by (simp add: o AccumulatorElements.truncate_def)
  then obtain s where s: "split E output' ps cout = Inr s" "holds_elements E cout CheckFull ps s ?acc'" by (rule deserialize_holds [OF el])
  have first: "first_element ps = 0 \<longleftrightarrow> index = 0" using chunk(1,2) by (cases mode) (auto simp: ps first_element_def)
  have batches: "iter_chunk ps (verify_batch E cout ps s) () = Inr ()"
    by (rule verify_batches_ok [OF laws ps inside batch _ s(2) valid']) (use chunk(3) first in auto)
  obtain t a b where k: "compute_g2_s_key E ops pk digest = Some (Inr (t, a, b))"
    "pk_tau_g1 pk = (draw_tau_s rng, point_mul (g1_affine E) (draw_tau_s rng) (sk_tau sk))" "pk_tau_g2 pk = point_mul (g2_affine E) t (sk_tau sk)"
    "pk_alpha_g1 pk = (draw_alpha_s rng, point_mul (g1_affine E) (draw_alpha_s rng) (sk_alpha sk))" "pk_alpha_g2 pk = point_mul (g2_affine E) a (sk_alpha sk)"
    "pk_beta_g1 pk = (draw_beta_s rng, point_mul (g1_affine E) (draw_beta_s rng) (sk_beta sk))" "pk_beta_g2 pk = point_mul (g2_affine E) b (sk_beta sk)"
    by (rule honest_key [OF key])
  have "verify_initial_elements E pk (t, a, b) (cin, check_in) (cout, check_out) ps i s = Inr ()" if "index = 0"
  proof (rule verify_initial_ok [OF laws i(2) holds_any_check [OF s(2)] _ refl _ _ _ _ _ _ k(2-7)])
    have ps0: "ps = parameters_new mode 0 sz (curve_parameters_new E) system log2 batch" using ps that by simp
    show "0 < length (alpha_tau_powers_g1 acc)" by (rule first_chunk_alpha [OF ps0 shape split_nonempty [OF i(1)]])
    show "first_element ps = 0" using first that by simp
    have g1: "2 \<le> g1_chunk_size ps" "2 \<le> powers_length ps"
      using chunk(3) that power_increasing [of 1 log2 "2 :: nat"] by (auto simp: ps)
    then show "2 \<le> length (tau_powers_g1 acc)" using shape by (auto simp: elements_shape_def Let_def split: prod.splits)
    show "2 \<le> length (tau_powers_g2 acc)"
    proof (cases system)
      case Groth16
      then have "other_chunk_size ps = min (g1_chunk_size ps) (powers_length ps)"
        using chunk_extent(2) [OF ps inside] \<open>first_element ps = 0\<close> by (simp add: ps)
      moreover have "length (tau_powers_g2 acc) = other_chunk_size ps" using shape by (simp add: elements_shape_def other_elements_def ps Groth16)
      ultimately show ?thesis using g1 by simp
    next
      case Marlin
      then show ?thesis using shape by (simp add: elements_shape_def other_elements_def ps marlin_sizes_def that)
    qed
  qed (use honest that compute_g2_s_key_points [OF k(1) cof] valid in
      \<open>auto simp: honest_setting_def elements_valid_def valid_points_unchecked\<close>)
  then show ?thesis
    using i(1) s(1) k(1) batches chunk(1) by (auto simp: verification_def ps)
qed

text \<open>
  C10. An honest contribution is accepted. For a key pair from key generation with nonzero secrets, and an input
  accumulator of nonzero points of the subgroups that starts with the generators, the output of computation
  passes verification against the public key and the digest that key generation used: in both proving systems,
  for every chunk within the powers, in each of the compressions, and whatever the checks on input and output.
  The first chunk must hold two powers, and with Marlin a batch must hold the elements of the first chunk.\<close>

theorem honest_contribution_verifies:
  assumes "honest_setting E ops rng index acc" "ps = parameters_new mode index sz (curve_parameters_new E) system log2 batch"
    and "first_element ps < total_size_in_g1 system log2" "2 \<le> batch"
    and "mode = ModeFull \<longrightarrow> index = 0" "mode = Chunked \<longrightarrow> 0 < sz"
    and "index = 0 \<longrightarrow> 1 \<le> log2 \<and> 2 \<le> g1_chunk_size ps \<and> (system = Marlin \<longrightarrow> 3 + 3 * log2 \<le> batch)"
    and "key_generation E ops rng digest = Some (Inr (pk, sk))"
    and "deserialize E input cin check_in ps = Inr acc" "get_length ps cout \<le> length outbuf"
  shows "case computation E input outbuf cin cout check_in sk ps of
      Inl e \<Rightarrow> False
    | Inr output' \<Rightarrow> verification E ops input output' pk digest cin cout check_in check_out ps = Some (Inr ())"
proof -
  have "engine_laws E" "elements_valid E CheckFull acc" using assms(1) by (auto simp: honest_setting_def dest: pairing_lawsD(3))
  then have v: "engine_laws E" "elements_valid E CheckNo acc" by (auto simp: elements_valid_def valid_points_unchecked)
  obtain output' where "computation E input outbuf cin cout check_in sk ps = Inr output'"
    by (rule computation_ok [OF v(1) assms(2-4,10,9) v(2)])
  with honest_verification [OF assms this] show ?thesis by simp
qed

section \<open>An instance\<close>

definition example_hash_ops :: "GF3 HashOps" where
  "example_hash_ops = \<lparr>blake2b = (\<lambda>_. replicate 64 0), chacha_byte = (\<lambda>_ _. 1), from_random_bytes = (\<lambda>_. Some One3), mul_by_cofactor = id\<rparr>"

definition example_draws :: "GF3 \<Rightarrow> (GF3, GF3) KeyDraws" where
  "example_draws beta_s = \<lparr>draw_tau = Two3, draw_alpha = One3, draw_beta = Two3, draw_tau_s = One3, draw_alpha_s = Two3, draw_beta_s = beta_s\<rparr>"

definition honest_public_key :: "GF3 \<Rightarrow> (GF3, GF3) PublicKey" where
  "honest_public_key beta_s = \<lparr>pk_tau_g1 = (One3, Two3), pk_alpha_g1 = (Two3, Two3), pk_beta_g1 = (beta_s, beta_s * Two3),
     pk_tau_g2 = Two3, pk_alpha_g2 = One3, pk_beta_g2 = Two3\<rparr>"

lemma example_key_generation:
  "key_generation example_engine example_hash_ops (example_draws beta_s) (replicate 64 0) = Some (Inr (honest_public_key beta_s, example_key))"
proof -
  have "hash_to_g2_loop example_hash_ops n seed k = Some One3" for n seed k
    by (subst hash_to_g2_loop.simps) (simp add: draw_point_def example_hash_ops_def zero_GF3_def)
  then have "hash_to_g2 example_engine example_hash_ops (replicate 64 0) = Some (Inr One3)"
    by (simp add: hash_to_g2_def from_slice_def)
  then have "compute_g2_s example_engine example_hash_ops digest p q u = Some (Inr One3)" for digest p q u
    by (simp add: compute_g2_s_def Let_def write_element_def example_engine_def example_curve_def example_hash_ops_def)
  then show ?thesis
    by (simp add: key_generation_def key_op_def Let_def example_draws_def honest_public_key_def example_key_def)
      (simp add: example_engine_def example_curve_def)
qed

lemma example_honest: "honest_setting example_engine example_hash_ops (example_draws beta_s) 0 example_elements"
  using example_pairing_laws example_elements_ok(2)
  by (simp add: honest_setting_def) (simp add: example_engine_def example_curve_def in_subgroup_def example_draws_def
      example_elements_def zero_GF3_def one_GF3_def)

lemma example_sizes: "g1_chunk_size (example_parameters Groth16) = 3"
  by (simp add: example_parameters_def chunk_sizes_def Let_def)

theorem honest_contribution_verifies_witness:
  "case computation example_engine (example_buffer Yes) (replicate 100 0) Yes No CheckFull example_key (example_parameters Groth16) of
      Inl e \<Rightarrow> False
    | Inr output' \<Rightarrow> verification example_engine example_hash_ops (example_buffer Yes) output' (honest_public_key One3) (replicate 64 0)
        Yes No CheckFull CheckFull (example_parameters Groth16) = Some (Inr ())"
  by (rule honest_contribution_verifies [OF example_honest example_parameters_def example_chunk(1) _ _ _ _ example_key_generation
      example_buffer_elements]) (simp_all add: example_sizes example_elements_ok(4))

definition example_output :: bytes where
  "example_output = join (encoded_parts example_engine (example_parameters Groth16) No
     (contribute_elements example_engine (example_parameters Groth16) example_key example_elements)
     \<lparr>sb_hash = replicate 64 0, tau_g1 = replicate 6 0, tau_g2 = replicate 4 0, alpha_g1 = replicate 4 0, beta_g1 = replicate 4 0,
       beta_g2 = replicate 2 0, sb_rest = []\<rparr>)"

lemma example_output_verified:
  "verification example_engine example_hash_ops (example_buffer Yes) example_output (honest_public_key beta_s) (replicate 64 0)
     Yes No CheckFull CheckFull (example_parameters Groth16) = Some (Inr ())"
  "deserialize example_engine example_output No CheckNo (example_parameters Groth16) =
     Inr (contribute_elements example_engine (example_parameters Groth16) example_key example_elements)"
proof -
  let ?s = "\<lparr>sb_hash = replicate 64 0, tau_g1 = replicate 6 0, tau_g2 = replicate 4 0, alpha_g1 = replicate 4 0, beta_g1 = replicate 4 0,
       beta_g2 = replicate 2 0, sb_rest = []\<rparr> :: bytes SplitBuf"
  let ?ps = "example_parameters Groth16"
  have s: "split_mut example_engine (join ?s) ?ps No = Inr ?s"
    by (simp add: split_mut_iff split_shape_def example_simps buffer_size_def Let_def)
  obtain i where i: "split example_engine (example_buffer Yes) ?ps Yes = Inr i" "holds_elements example_engine Yes CheckFull ?ps i example_elements"
    by (rule deserialize_holds [OF example_engine_laws example_buffer_elements])
  have run: "computation example_engine (example_buffer Yes) (join ?s) Yes No CheckFull example_key ?ps = Inr example_output"
    unfolding example_output_def
    by (rule computation_stored [OF example_engine_laws example_parameters_def example_chunk(1) _ i example_elements_ok(2) s]) simp
  have "length (join ?s) = 84" by (simp add: join_def)
  moreover have "get_length ?ps No = 84" by (simp add: example_simps Let_def)
  ultimately have len: "get_length ?ps No \<le> length (join ?s)" by (simp only:)
  show "verification example_engine example_hash_ops (example_buffer Yes) example_output (honest_public_key beta_s) (replicate 64 0)
     Yes No CheckFull CheckFull ?ps = Some (Inr ())"
    by (rule honest_verification [OF example_honest example_parameters_def example_chunk(1) _ _ _ _ example_key_generation
      example_buffer_elements len run]) (simp_all add: example_sizes)
  have "AccumulatorElements.truncate (contribute_elements example_engine ?ps example_key example_elements) = contribute_elements example_engine ?ps example_key example_elements"
    by (simp add: AccumulatorElements.truncate_def)
  then show "deserialize example_engine example_output No CheckNo ?ps = Inr (contribute_elements example_engine ?ps example_key example_elements)"
    using stored_read_back(2) [OF example_engine_laws contribute_shape [OF example_elements_ok(1)]
        contribute_valid [OF example_engine_laws example_elements_ok(2)] s example_elements_ok(3)]
    by (simp add: example_output_def)
qed

theorem verification_checks_elements_witness:
  "let acc = contribute_elements example_engine (example_parameters Groth16) example_key example_elements in
    valid_points (g1_affine example_engine) CheckFull (tau_powers_g1 acc) \<and> valid_points (g2_affine example_engine) CheckFull (tau_powers_g2 acc) \<and>
    valid_points (g1_affine example_engine) CheckFull (alpha_tau_powers_g1 acc) \<and> valid_points (g1_affine example_engine) CheckFull (beta_tau_powers_g1 acc)"
  unfolding Let_def
  by (rule verification_checks_elements [OF example_engine_laws example_parameters_def example_chunk(1) _ example_output_verified]) simp


section \<open>Keys with the identity\<close>

lemma identity_ratio:
  assumes "pairing_laws E" "in_subgroup (g2_affine E) q" "in_subgroup (g2_affine E) q'"
  shows "check_same_ratio E (0, 0) (q, q') err = Inr ()"
proof -
  note l = pairing_lawsD(1,2) [OF assms(1)]
  have "pairing E 0 r = pairing E 0 0" if "in_subgroup (g2_affine E) r" for r
    using pairing_lawsD(4) [OF assms(1) subgroup_lawsD(3) [OF l(1)] that, of 0] point_mul_zero [OF l(1)] point_mul_zero(1) [OF l(2) that] by simp
  then have "pairing E 0 q' = pairing E 0 q" using assms(2,3) by metis
  then show ?thesis by (simp add: check_same_ratio_def)
qed

lemma verify_batch_beta_g2 [simp]: "verify_batch E c ps (s\<lparr>beta_g2 := bs\<rparr>) = verify_batch E c ps s"
  by (intro ext) (simp add: verify_batch_def verify_groth16_batch_def verify_marlin_batch_def Let_def split: ProvingSystem.splits)

lemma verify_initial_beta_g2:
  assumes "pairing_laws E" "pk_beta_g1 key = (0, 0)"
    and "verify_initial_elements E key g2_s cin cout ps i s = Inr ()"
    and "read_element (g2_affine E) (fst cin) (snd cin) (beta_g2 i) = Inr q" "in_subgroup (g2_affine E) q"
    and "read_element (g2_affine E) (fst cout) (snd cout) bs = Inr q'" "in_subgroup (g2_affine E) q'"
  shows "verify_initial_elements E key g2_s cin cout ps i (s\<lparr>beta_g2 := bs\<rparr>) = Inr ()"
proof -
  have "check_beta_g2 E (beta_g2 i, cin) (bs, cout) (pk_beta_g1 key) = Inr ()"
    using assms(4,6) identity_ratio [OF assms(1,5,7)] by (simp add: check_beta_g2_def assms(2) split_beta)
  then show ?thesis
    using assms(3) by (cases "p1_proving_system ps")
      (auto simp: verify_initial_elements_def Let_def result_bind_ok_iff split: prod.splits)
qed

text \<open>
  Verification does not notice an identity in the public key: with a key whose pair for beta is twice the
  identity, an accepted output of the first chunk of Groth16 is still accepted after its \<^verbatim>\<open>beta_g2\<close> is replaced by
  any point of the subgroup that passes the check on the output. The element in G2 is then not bound to the beta
  of the elements in G1.\<close>

theorem identity_key_leaves_beta_g2_free:
  assumes laws: "pairing_laws E" and ps: "ps = parameters_new mode 0 sz cv Groth16 log2 batch" and key: "pk_beta_g1 key = (0, 0)"
    and ok: "verification E ops input output key digest cin cout check_in check_out ps = Some (Inr ())" "split E output ps cout = Inr s"
    and acc: "deserialize E input cin check_in ps = Inr acc" "elements_valid E CheckNo acc"
    and q: "in_subgroup (g2_affine E) q" "accepted check_out q"
  shows "verification E ops input (join (s\<lparr>beta_g2 := to_bytes (g2_affine E) cout q\<rparr>)) key digest cin cout check_in check_out ps = Some (Inr ())"
proof -
  note el = pairing_lawsD(3) [OF laws]
  have sys: "p1_proving_system ps = Groth16" "chunk_index ps = 0" by (simp_all add: ps)
  let ?bs = "to_bytes (g2_affine E) cout q" and ?s = "s\<lparr>beta_g2 := to_bytes (g2_affine E) cout q\<rparr>"
  obtain i where i: "split E input ps cin = Inr i" "holds_elements E cin check_in ps i acc" by (rule deserialize_holds [OF el acc(1)])
  have b: "read_element (g2_affine E) cin check_in (beta_g2 i) = Inr (acc_beta_g2 acc)" "in_subgroup (g2_affine E) (acc_beta_g2 acc)"
    using i(2) acc(2) sys by (simp_all add: holds_elements_def elements_valid_def valid_points_def)
  have bs: "read_element (g2_affine E) cout check_out ?bs = Inr q"
    using q by (intro read_element_encoded [OF engine_lawsD(2) [OF el]]) (simp add: valid_points_def)
  have s: "split E (join ?s) ps cout = Inr ?s"
    using ok(2) curve_lawsD(6) [OF engine_lawsD(2) [OF el] q(1)]
    by (auto simp: split_iff split_shape_def other_elements_def sys Let_def)
  from ok i(1) obtain g2_s where g: "compute_g2_s_key E ops key digest = Some (Inr g2_s)"
    "verify_initial_elements E key g2_s (cin, check_in) (cout, check_out) ps i s = Inr ()" "iter_chunk ps (verify_batch E cout ps s) () = Inr ()"
    by (auto simp: verification_def run_bind_ok_iff sys)
  have "verify_initial_elements E key g2_s (cin, check_in) (cout, check_out) ps i ?s = Inr ()"
    by (rule verify_initial_beta_g2 [OF laws key g(2) _ b(2) _ q(1)]) (simp_all add: b(1) bs)
  then show ?thesis using i(1) s g by (simp add: verification_def sys)
qed

theorem identity_key_leaves_beta_g2_free_witness:
  "\<exists>s. split example_engine example_output (example_parameters Groth16) No = Inr s \<and>
     verification example_engine example_hash_ops (example_buffer Yes) (join (s\<lparr>beta_g2 := to_bytes (g2_affine example_engine) No Two3\<rparr>))
       (honest_public_key 0) (replicate 64 0) Yes No CheckFull CheckFull (example_parameters Groth16) = Some (Inr ())"
proof -
  obtain s where s: "split example_engine example_output (example_parameters Groth16) No = Inr s"
    by (rule deserialize_holds [OF example_engine_laws example_output_verified(2)])
  have "pk_beta_g1 (honest_public_key 0) = (0, 0)" by (simp add: honest_public_key_def)
  moreover have "in_subgroup (g2_affine example_engine) Two3" "accepted CheckFull Two3"
    by (simp_all add: in_subgroup_def example_engine_def example_curve_def accepted_def zero_GF3_def)
  ultimately show ?thesis
    using s identity_key_leaves_beta_g2_free [OF example_pairing_laws example_parameters_def _ example_output_verified(1) s
        example_buffer_elements example_chunk(2)] by blast
qed

end
