(* ===== verification/Phase1_Aggregation.thy ===== *)
theory Phase1_Aggregation
  imports Phase1_Computation
begin

text \<open>
  \<^verbatim>\<open>phase1/src/aggregation.rs\<close> and \<^verbatim>\<open>split_at_chunk_mut\<close> of \<^verbatim>\<open>helpers/buffers.rs\<close>: the chunks of a round are
  copied into the accumulator of the whole round. A mutable slice of a part of the buffer is given by
  its bounds in the part.
\<close>

definition buffer_to_chunk :: "Phase1Parameters \<Rightarrow> bytes \<Rightarrow> usize \<Rightarrow> bool \<Rightarrow> (usize \<times> usize) or_error" where
  "buffer_to_chunk ps buffer element_size is_other =
     (if is_other \<and> other_chunk_size ps = 0 then Inr (0, 0)
      else
        (case (p1_proving_system ps, is_other) of
           (Marlin, True) \<Rightarrow> Inr (0, 0)
         | _ \<Rightarrow>
             (let size = (if is_other then other_chunk_size ps else g1_chunk_size ps);
                  start = chunk_index ps * p1_chunk_size ps * element_size;
                  end' = start + size * element_size
              in if end' \<le> length buffer then Inr (start, end') else Inl Panic)))"

definition split_at_chunk_mut ::
  "('f, 'g, 'h, 't) PairingEngine \<Rightarrow> bytes \<Rightarrow> Phase1Parameters \<Rightarrow> UseCompression \<Rightarrow>
   (bytes SplitBuf \<times> (usize \<times> usize) \<times> (usize \<times> usize) \<times> (usize \<times> usize) \<times> (usize \<times> usize)) or_error" where
  "split_at_chunk_mut E buffer ps compressed =
     (let g1 = buffer_size (g1_affine E) compressed; g2 = buffer_size (g2_affine E) compressed in
      case p1_proving_system ps of
        Groth16 \<Rightarrow>
          result_bind (split_at buffer (hash_size ps)) (\<lambda>(hash, others).
          result_bind (split_at others (g1 * powers_g1_length ps)) (\<lambda>(tau1, others).
          result_bind (split_at others (g2 * powers_length ps)) (\<lambda>(tau2, others).
          result_bind (split_at others (g1 * powers_length ps)) (\<lambda>(alpha1, others).
          result_bind (split_at others (g1 * powers_length ps)) (\<lambda>(beta1, others).
          result_bind (buffer_to_chunk ps tau1 g1 False) (\<lambda>r1.
          result_bind (buffer_to_chunk ps tau2 g2 True) (\<lambda>r2.
          result_bind (buffer_to_chunk ps alpha1 g1 True) (\<lambda>ra.
          result_bind (buffer_to_chunk ps beta1 g1 True) (\<lambda>rb.
          result_bind (split_at others g2) (\<lambda>(beta2, rest).
            Inr (\<lparr>sb_hash = hash, tau_g1 = tau1, tau_g2 = tau2, alpha_g1 = alpha1, beta_g1 = beta1,
                  beta_g2 = beta2, sb_rest = rest\<rparr>, r1, r2, ra, rb)))))))))))
      | Marlin \<Rightarrow>
          (let (g2_chunk_size, alpha_chunk_size) = marlin_sizes ps in
           result_bind (split_at buffer (hash_size ps)) (\<lambda>(hash, others).
           result_bind (split_at others (g1 * powers_length ps)) (\<lambda>(tau1, others).
           result_bind (split_at others (g2 * g2_chunk_size)) (\<lambda>(tau2, others).
           result_bind (split_at others (g1 * alpha_chunk_size)) (\<lambda>(alpha1, rest).
           result_bind (buffer_to_chunk ps tau1 g1 False) (\<lambda>r1.
             Inr (\<lparr>sb_hash = hash, tau_g1 = tau1, tau_g2 = tau2, alpha_g1 = alpha1, beta_g1 = [],
                   beta_g2 = [], sb_rest = rest\<rparr>, r1, (0, length tau2), (0, length alpha1), 0, 0))))))))"

text \<open>The elements of a part of a chunk are read and written to their place in the output.\<close>

definition copy_batch ::
  "('f, 'g::ab_group_add) AffineCurve \<Rightarrow> bytes \<times> UseCompression \<Rightarrow> UseCompression \<Rightarrow> usize \<times> usize \<Rightarrow> bytes \<Rightarrow>
   bytes or_error" where
  "copy_batch C input compressed_output bounds part =
     (let (start, end') = bounds in
      result_bind (expect_ok (read_batch C (snd input) CheckNo (fst input))) (\<lambda>elements.
      result_bind (expect_ok (write_batch C compressed_output elements (take (end' - start) (drop start part)))) (\<lambda>written.
        Inr (take start part @ written @ drop end' part))))"

definition aggregate_groth16 ::
  "('f, 'g::ab_group_add, 'h::ab_group_add, 't) PairingEngine \<Rightarrow> UseCompression \<Rightarrow> UseCompression \<Rightarrow> Phase1Parameters \<Rightarrow>
   bytes SplitBuf \<Rightarrow> bytes SplitBuf \<Rightarrow>
   (usize \<times> usize) \<times> (usize \<times> usize) \<times> (usize \<times> usize) \<times> (usize \<times> usize) \<Rightarrow> bytes SplitBuf or_error" where
  "aggregate_groth16 E cin cout ps i s ranges =
     (let C1 = g1_affine E; C2 = g2_affine E; (r1, r2, ra, rb) = ranges;
          start = chunk_index ps * p1_chunk_size ps
      in
      result_bind (copy_batch C1 (tau_g1 i, cin) cout r1 (tau_g1 s)) (\<lambda>tau1.
      result_bind
        (if start < powers_length ps then
           result_bind (copy_batch C2 (tau_g2 i, cin) cout r2 (tau_g2 s)) (\<lambda>tau2.
           result_bind (copy_batch C1 (alpha_g1 i, cin) cout ra (alpha_g1 s)) (\<lambda>alpha1.
           result_bind (copy_batch C1 (beta_g1 i, cin) cout rb (beta_g1 s)) (\<lambda>beta1.
             Inr (s\<lparr>tau_g1 := tau1, tau_g2 := tau2, alpha_g1 := alpha1, beta_g1 := beta1\<rparr>))))
         else Inr (s\<lparr>tau_g1 := tau1\<rparr>)) (\<lambda>s.
      if chunk_index ps = 0 then
        result_bind (expect_ok (read_element C2 cin CheckNo (beta_g2 i))) (\<lambda>element.
        result_bind (expect_ok (write_element C2 cout element (beta_g2 s))) (\<lambda>beta2.
          Inr (s\<lparr>beta_g2 := beta2\<rparr>)))
      else Inr s)))"

definition aggregate_marlin ::
  "('f, 'g::ab_group_add, 'h::ab_group_add, 't) PairingEngine \<Rightarrow> UseCompression \<Rightarrow> UseCompression \<Rightarrow> Phase1Parameters \<Rightarrow>
   bytes SplitBuf \<Rightarrow> bytes SplitBuf \<Rightarrow>
   (usize \<times> usize) \<times> (usize \<times> usize) \<times> (usize \<times> usize) \<times> (usize \<times> usize) \<Rightarrow> bytes SplitBuf or_error" where
  "aggregate_marlin E cin cout ps i s ranges =
     (let C1 = g1_affine E; C2 = g2_affine E; (r1, r2, ra, rb) = ranges;
          start = chunk_index ps * p1_chunk_size ps
      in
      result_bind (copy_batch C1 (tau_g1 i, cin) cout r1 (tau_g1 s)) (\<lambda>tau1.
      result_bind
        (if start < 2 + total_size_in_log2 ps then copy_batch C2 (tau_g2 i, cin) cout r2 (tau_g2 s)
         else Inr (tau_g2 s)) (\<lambda>tau2.
      result_bind
        (if start < 3 + 3 * total_size_in_log2 ps then copy_batch C1 (alpha_g1 i, cin) cout ra (alpha_g1 s)
         else Inr (alpha_g1 s)) (\<lambda>alpha1.
        Inr (s\<lparr>tau_g1 := tau1, tau_g2 := tau2, alpha_g1 := alpha1\<rparr>)))))"

definition aggregate_chunk ::
  "('f, 'g::ab_group_add, 'h::ab_group_add, 't) PairingEngine \<Rightarrow> UseCompression \<Rightarrow> Phase1Parameters \<Rightarrow>
   nat \<times> bytes \<times> UseCompression \<Rightarrow> bytes \<Rightarrow> bytes or_error" where
  "aggregate_chunk E cout ps chunk output =
     (let (index, input, cin) = chunk;
          chunk_parameters = into_chunk_parameters ps (p1_contribution_mode ps) index (p1_chunk_size ps)
      in
      result_bind (split E input chunk_parameters cin) (\<lambda>i.
      result_bind (split_at_chunk_mut E output chunk_parameters cout) (\<lambda>(s, ranges).
      result_bind
        (case p1_proving_system ps of
           Groth16 \<Rightarrow> aggregate_groth16 E cin cout chunk_parameters i s ranges
         | Marlin \<Rightarrow> aggregate_marlin E cin cout chunk_parameters i s ranges) (\<lambda>s.
        Inr (join s)))))"

definition aggregation ::
  "('f, 'g::ab_group_add, 'h::ab_group_add, 't) PairingEngine \<Rightarrow> (bytes \<times> UseCompression) list \<Rightarrow>
   bytes \<times> UseCompression \<Rightarrow> Phase1Parameters \<Rightarrow> bytes or_error" where
  "aggregation E inputs output ps =
     fold_results (aggregate_chunk E (snd output) ps) (enumerate 0 inputs) (fst output)"

section \<open>Parts that are filled from the front\<close>

definition filled :: "('f, 'g) AffineCurve \<Rightarrow> UseCompression \<Rightarrow> nat \<Rightarrow> bytes \<Rightarrow> 'g list \<Rightarrow> bool" where
  "filled C c n buf xs \<longleftrightarrow> length buf = n * buffer_size C c \<and> (\<exists>rest. buf = encode C c xs @ rest)"

lemma encode_append [simp]: "encode C c (xs @ ys) = encode C c xs @ encode C c ys"
  by (simp add: encode_def)

lemma filled_Nil [simp]: "filled C c n buf [] \<longleftrightarrow> length buf = n * buffer_size C c"
  by (simp add: filled_def)

lemma filled_all:
  assumes "curve_laws C" "valid_points C check xs" "filled C c n buf xs" "length xs = n"
  shows "buf = encode C c xs"
  using assms(3,4) length_encode [OF assms(1,2), of c] by (auto simp: filled_def)

lemma copy_batch_filled:
  assumes laws: "curve_laws C" and inp: "reads C cin CheckNo inp xs" and valid: "valid_points C check xs" "valid_points C check' ys"
    and part: "filled C c n part ys" and fits: "length ys + length xs \<le> n"
    and bounds: "xs = [] \<and> start = end' \<or> start = length ys * buffer_size C c \<and> end' = start + length xs * buffer_size C c"
  shows "\<exists>part'. copy_batch C (inp, cin) c (start, end') part = Inr part' \<and> filled C c n part' (ys @ xs)"
proof -
  let ?n = "buffer_size C c"
  obtain rest where rest: "part = encode C c ys @ rest" using part by (auto simp: filled_def)
  have read: "read_batch C cin CheckNo inp = Inr xs"
    using inp read_batch_reads [OF curve_lawsD(5) [OF laws], of inp "length xs" cin CheckNo xs] by (simp add: reads_def)
  show ?thesis
  proof (cases "xs = []")
    case True
    with bounds have "start = end'" by auto
    then have "write_batch C c xs (take (end' - start) (drop start part)) = Inr []"
      using True by (simp add: write_batch_def chunks_of_def)
    with True \<open>start = end'\<close> part show ?thesis by (simp add: copy_batch_def read)
  next
    case False
    then have b: "start = length ys * ?n" "end' = start + length xs * ?n" using bounds by auto
    have ly: "length (encode C c ys) = length ys * ?n" by (rule length_encode [OF laws valid(2)])
    have "(length ys + length xs) * ?n \<le> n * ?n" using fits by (rule mult_right_mono) simp
    moreover have "length part = n * ?n" using part by (simp add: filled_def)
    ultimately have len: "length xs * ?n \<le> length rest" using rest ly by (simp add: algebra_simps)
    have mid: "drop start part = rest" "take start part = encode C c ys" using rest ly b(1) by simp_all
    have "write_batch C c xs (take (length xs * ?n) rest) = Inr (encode C c xs)"
      by (rule write_encoded [OF laws valid(1)]) (use len in simp)
    moreover have "drop end' part = drop (length xs * ?n) rest" using rest ly b by simp
    ultimately have "copy_batch C (inp, cin) c (start, end') part = Inr (encode C c ys @ encode C c xs @ drop (length xs * ?n) rest)"
      using b(2) by (simp add: copy_batch_def read mid)
    moreover have "length (encode C c ys @ encode C c xs @ drop (length xs * ?n) rest) = n * ?n"
      using \<open>length part = n * ?n\<close> rest len length_encode [OF laws valid(1), of c] by simp
    ultimately show ?thesis by (auto simp: filled_def)
  qed
qed

section \<open>One chunk\<close>

text \<open>
  The chunks lie one behind the other: a part with \<open>n\<close> elements is cut into pieces of \<open>sz\<close>, the last
  of which may be shorter or empty.
\<close>

definition piece_bounds :: "nat \<Rightarrow> nat \<Rightarrow> nat \<Rightarrow> nat \<Rightarrow> usize \<times> usize" where
  "piece_bounds k sz n w =
     (if min sz (n - k * sz) = 0 then (0, 0) else (k * sz * w, k * sz * w + min sz (n - k * sz) * w))"

lemma piece_fits: "min (k * sz) n + min sz (n - k * sz) \<le> (n :: nat)"
  by linarith

lemma copy_piece:
  assumes "curve_laws C" "reads C cin CheckNo inp xs" "valid_points C check xs" "valid_points C check' ys"
    and "filled C c n part ys" "length ys = min (k * sz) n" "length xs = min sz (n - k * sz)"
  shows "\<exists>part'. copy_batch C (inp, cin) c (piece_bounds k sz n (buffer_size C c)) part = Inr part' \<and>
    filled C c n part' (ys @ xs)"
proof -
  obtain start end' where se: "piece_bounds k sz n (buffer_size C c) = (start, end')" by fastforce
  then have "xs = [] \<and> start = end' \<or>
    start = length ys * buffer_size C c \<and> end' = start + length xs * buffer_size C c"
    using assms(6,7) by (auto simp: piece_bounds_def split: if_splits)
  moreover have "length ys + length xs \<le> n" using assms(6,7) piece_fits by simp
  ultimately show ?thesis using copy_batch_filled [OF assms(1-5)] unfolding se by blast
qed

lemma buffer_to_chunk_piece:
  assumes ps: "ps = parameters_new Chunked k sz cv system log2 batch" and "k * sz < total_size_in_g1 system log2"
  shows "length part = total_size_in_g1 system log2 * w \<Longrightarrow> 0 < sz \<Longrightarrow>
      buffer_to_chunk ps part w False = Inr (piece_bounds k sz (total_size_in_g1 system log2) w)"
    "system = Groth16 \<Longrightarrow> length part = 2 ^ log2 * w \<Longrightarrow>
      buffer_to_chunk ps part w True = Inr (piece_bounds k sz (2 ^ log2) w)"
proof -
  have sizes: "chunk_sizes Chunked k sz system log2 =
    (min sz (total_size_in_g1 system log2 - k * sz), case system of Groth16 \<Rightarrow> min sz (2 ^ log2 - k * sz) | Marlin \<Rightarrow> 0)"
    by (rule chunk_sizes_chunked) (use assms(2) in simp)
  have le: "k * sz * w + min sz (n - k * sz) * w \<le> n * w" if "k * sz < n" for n
  proof -
    have "k * sz + min sz (n - k * sz) \<le> n" using that by linarith
    then have "(k * sz + min sz (n - k * sz)) * w \<le> n * w" by (rule mult_right_mono) simp
    then show ?thesis by (simp only: add_mult_distrib)
  qed
  show "buffer_to_chunk ps part w False = Inr (piece_bounds k sz (total_size_in_g1 system log2) w)"
    if "length part = total_size_in_g1 system log2 * w" "0 < sz"
  proof -
    define n where "n = total_size_in_g1 system log2"
    have n: "k * sz < n" "g1_chunk_size ps = min sz (n - k * sz)" "length part = n * w"
      "chunk_index ps = k" "p1_chunk_size ps = sz" "min sz (n - k * sz) \<noteq> 0"
      using assms(2) that by (simp_all add: n_def ps sizes)
    then have "buffer_to_chunk ps part w False = Inr (piece_bounds k sz n w)"
      using le [OF n(1)] by (cases "p1_proving_system ps") (auto simp: buffer_to_chunk_def piece_bounds_def Let_def min_def)
    then show ?thesis by (simp only: n_def)
  qed
  show "buffer_to_chunk ps part w True = Inr (piece_bounds k sz (2 ^ log2) w)"
    if "system = Groth16" "length part = 2 ^ log2 * w"
  proof -
    have "other_chunk_size ps = min sz (2 ^ log2 - k * sz)" "p1_proving_system ps = Groth16" "chunk_index ps = k" "p1_chunk_size ps = sz"
      using that(1) by (simp_all add: ps sizes [unfolded that(1)])
    then show ?thesis
      using that(2) le [of "2 ^ log2"] by (auto simp: buffer_to_chunk_def piece_bounds_def Let_def)
  qed
qed

lemma full_sizes:
  "chunk_sizes ModeFull index sz system log2 =
     (total_size_in_g1 system log2, case system of Groth16 \<Rightarrow> 2 ^ log2 | Marlin \<Rightarrow> 0)"
proof -
  have "(2 :: nat) ^ log2 \<le> 2 ^ log2 * 2 - 1" by simp
  then show ?thesis by (cases system) (auto simp: chunk_sizes_def Let_def)
qed

text \<open>The accumulators of the chunks one behind the other.\<close>

definition aggregated :: "('g, 'h) AccumulatorElements list \<Rightarrow> ('g, 'h) AccumulatorElements" where
  "aggregated accs =
     \<lparr>tau_powers_g1 = concat (map tau_powers_g1 accs), tau_powers_g2 = concat (map tau_powers_g2 accs),
      alpha_tau_powers_g1 = concat (map alpha_tau_powers_g1 accs),
      beta_tau_powers_g1 = concat (map beta_tau_powers_g1 accs), acc_beta_g2 = acc_beta_g2 (hd accs)\<rparr>"

text \<open>The output after the first chunks.\<close>

definition aggregated_upto ::
  "('f, 'g::ab_group_add, 'h::ab_group_add, 't) PairingEngine \<Rightarrow> UseCompression \<Rightarrow> Phase1Parameters \<Rightarrow>
   ('g, 'h) AccumulatorElements list \<Rightarrow> bytes SplitBuf \<Rightarrow> bool" where
  "aggregated_upto E c ps accs s \<longleftrightarrow>
     (let C1 = g1_affine E; C2 = g2_affine E; (n2, na, nb, nb2) = other_elements ps in
      length (sb_hash s) = hash_size ps \<and>
      filled C1 c (g1_chunk_size ps) (tau_g1 s) (tau_powers_g1 (aggregated accs)) \<and>
      filled C2 c n2 (tau_g2 s) (tau_powers_g2 (aggregated accs)) \<and>
      filled C1 c na (alpha_g1 s) (alpha_tau_powers_g1 (aggregated accs)) \<and>
      filled C1 c nb (beta_g1 s) (beta_tau_powers_g1 (aggregated accs)) \<and>
      filled C2 c nb2 (beta_g2 s) (if accs = [] then [] else beta_elements ps (aggregated accs)))"

lemma split_at_append: "n = length a \<Longrightarrow> split_at (a @ b) n = Inr (a, b)"
  by (simp add: split_at_def)

lemma split_at_chunk_groth16:
  assumes ps: "ps = parameters_new Chunked k sz cv Groth16 log2 batch" "k * sz < total_size_in_g1 Groth16 log2" "0 < sz"
    and fps: "fps = parameters_new ModeFull 0 sz' cv Groth16 log2 batch" and s: "split_shape E fps c s"
  defines "g1 \<equiv> buffer_size (g1_affine E) c" and "g2 \<equiv> buffer_size (g2_affine E) c"
  shows "split_at_chunk_mut E (join s) ps c =
    Inr (s, piece_bounds k sz (total_size_in_g1 Groth16 log2) g1, piece_bounds k sz (2 ^ log2) g2,
      piece_bounds k sz (2 ^ log2) g1, piece_bounds k sz (2 ^ log2) g1)"
proof -
  have len: "length (sb_hash s) = 64" "length (tau_g1 s) = total_size_in_g1 Groth16 log2 * g1" "length (tau_g2 s) = 2 ^ log2 * g2"
    "length (alpha_g1 s) = 2 ^ log2 * g1" "length (beta_g1 s) = 2 ^ log2 * g1" "length (beta_g2 s) = g2"
    using s by (simp_all add: split_shape_def other_elements_def fps full_sizes g1_def g2_def Let_def)
  note r = buffer_to_chunk_piece(1) [OF ps(1,2) len(2) ps(3)] buffer_to_chunk_piece(2) [OF ps(1,2) refl len(3)]
    buffer_to_chunk_piece(2) [OF ps(1,2) refl len(4)] buffer_to_chunk_piece(2) [OF ps(1,2) refl len(5)]
  have total: "(2 ^ log2 * 2 - 1) = total_size_in_g1 Groth16 log2" by simp
  have sel: "p1_proving_system ps = Groth16" "hash_size ps = 64" "powers_length ps = 2 ^ log2"
    "powers_g1_length ps = total_size_in_g1 Groth16 log2"
    unfolding ps(1) parameters_new_sel total by simp_all
  have parts: "join s = sb_hash s @ tau_g1 s @ tau_g2 s @ alpha_g1 s @ beta_g1 s @ beta_g2 s @ sb_rest s" by (simp add: join_def)
  have "split_at (join s) 64 = Inr (sb_hash s, tau_g1 s @ tau_g2 s @ alpha_g1 s @ beta_g1 s @ beta_g2 s @ sb_rest s)"
    unfolding parts by (rule split_at_append) (simp add: len)
  moreover have "split_at (tau_g1 s @ tau_g2 s @ alpha_g1 s @ beta_g1 s @ beta_g2 s @ sb_rest s) (g1 * total_size_in_g1 Groth16 log2) =
      Inr (tau_g1 s, tau_g2 s @ alpha_g1 s @ beta_g1 s @ beta_g2 s @ sb_rest s)"
    by (rule split_at_append) (simp only: len mult.commute)
  moreover have "split_at (tau_g2 s @ alpha_g1 s @ beta_g1 s @ beta_g2 s @ sb_rest s) (g2 * 2 ^ log2) =
      Inr (tau_g2 s, alpha_g1 s @ beta_g1 s @ beta_g2 s @ sb_rest s)"
    by (rule split_at_append) (simp add: len)
  moreover have "split_at (alpha_g1 s @ beta_g1 s @ beta_g2 s @ sb_rest s) (g1 * 2 ^ log2) =
      Inr (alpha_g1 s, beta_g1 s @ beta_g2 s @ sb_rest s)"
    by (rule split_at_append) (simp add: len)
  moreover have "split_at (beta_g1 s @ beta_g2 s @ sb_rest s) (g1 * 2 ^ log2) = Inr (beta_g1 s, beta_g2 s @ sb_rest s)"
    by (rule split_at_append) (simp add: len)
  moreover have "split_at (beta_g2 s @ sb_rest s) g2 = Inr (beta_g2 s, sb_rest s)"
    by (rule split_at_append) (simp add: len)
  ultimately show ?thesis
    by (simp only: split_at_chunk_mut_def Let_def sel ProvingSystem.case result_bind_simps prod.case r flip: g1_def g2_def) simp
qed

text \<open>With Marlin the elements of the first chunk only are behind the powers.\<close>

lemma split_at_chunk_marlin:
  assumes ps: "ps = parameters_new Chunked k sz cv Marlin log2 batch" "k * sz < total_size_in_g1 Marlin log2" "0 < sz"
    and fps: "fps = parameters_new ModeFull 0 sz' cv Marlin log2 batch" and s: "split_shape E fps c s"
  defines "s' \<equiv> if k = 0 then s else s\<lparr>tau_g2 := [], alpha_g1 := [], sb_rest := tau_g2 s @ alpha_g1 s @ sb_rest s\<rparr>"
  shows "split_at_chunk_mut E (join s) ps c =
    Inr (s', piece_bounds k sz (total_size_in_g1 Marlin log2) (buffer_size (g1_affine E) c), (0, length (tau_g2 s')),
      (0, length (alpha_g1 s')), 0, 0)"
proof -
  let ?g1 = "buffer_size (g1_affine E) c" and ?g2 = "buffer_size (g2_affine E) c"
  have len: "length (sb_hash s) = 64" "length (tau_g1 s) = total_size_in_g1 Marlin log2 * ?g1"
    "length (tau_g2 s) = (log2 + 2) * ?g2" "length (alpha_g1 s) = (3 + 3 * log2) * ?g1" "beta_g1 s = []" "beta_g2 s = []"
    using s by (simp_all add: split_shape_def other_elements_def marlin_sizes_def fps full_sizes Let_def)
  note r = buffer_to_chunk_piece(1) [OF ps(1,2) len(2) ps(3)]
  obtain n2 na where n: "marlin_sizes ps = (n2, na)" by fastforce
  have s': "sb_hash s' = sb_hash s" "tau_g1 s' = tau_g1 s" "length (tau_g2 s') = n2 * ?g2" "length (alpha_g1 s') = na * ?g1"
    "beta_g1 s' = []" "beta_g2 s' = []" "join s' = join s"
    using n len by (auto simp: s'_def marlin_sizes_def ps(1) join_def)
  have sel: "p1_proving_system ps = Marlin" "hash_size ps = 64" "powers_length ps = 2 ^ log2" by (simp_all add: ps(1))
  have parts: "join s = sb_hash s @ tau_g1 s @ tau_g2 s' @ alpha_g1 s' @ sb_rest s'"
    unfolding s'(7) [symmetric] by (simp add: join_def s' del: s'(7))
  have "split_at (join s) 64 = Inr (sb_hash s, tau_g1 s @ tau_g2 s' @ alpha_g1 s' @ sb_rest s')"
    unfolding parts by (rule split_at_append) (simp add: len)
  moreover have "split_at (tau_g1 s @ tau_g2 s' @ alpha_g1 s' @ sb_rest s') (?g1 * 2 ^ log2) =
      Inr (tau_g1 s, tau_g2 s' @ alpha_g1 s' @ sb_rest s')"
    by (rule split_at_append) (simp add: len)
  moreover have "split_at (tau_g2 s' @ alpha_g1 s' @ sb_rest s') (?g2 * n2) = Inr (tau_g2 s', alpha_g1 s' @ sb_rest s')"
    by (rule split_at_append) (simp add: s')
  moreover have "split_at (alpha_g1 s' @ sb_rest s') (?g1 * na) = Inr (alpha_g1 s', sb_rest s')"
    by (rule split_at_append) (simp add: s')
  moreover have "\<lparr>sb_hash = sb_hash s, tau_g1 = tau_g1 s, tau_g2 = tau_g2 s', alpha_g1 = alpha_g1 s', beta_g1 = [], beta_g2 = [],
      sb_rest = sb_rest s'\<rparr> = s'"
    using s' by (cases s') simp
  ultimately show ?thesis
    by (simp only: split_at_chunk_mut_def Let_def sel ProvingSystem.case n result_bind_simps prod.case r)
qed

lemma aggregated_snoc:
  "tau_powers_g1 (aggregated (accs @ [acc])) = tau_powers_g1 (aggregated accs) @ tau_powers_g1 acc"
  "tau_powers_g2 (aggregated (accs @ [acc])) = tau_powers_g2 (aggregated accs) @ tau_powers_g2 acc"
  "alpha_tau_powers_g1 (aggregated (accs @ [acc])) = alpha_tau_powers_g1 (aggregated accs) @ alpha_tau_powers_g1 acc"
  "beta_tau_powers_g1 (aggregated (accs @ [acc])) = beta_tau_powers_g1 (aggregated accs) @ beta_tau_powers_g1 acc"
  "acc_beta_g2 (aggregated accs) = acc_beta_g2 (hd accs)"
  by (simp_all add: aggregated_def)

lemma valid_points_append [simp]: "valid_points C check (xs @ ys) \<longleftrightarrow> valid_points C check xs \<and> valid_points C check ys"
  by (auto simp: valid_points_def)

lemma valid_points_concat: "valid_points C check (concat xss) \<longleftrightarrow> (\<forall>xs\<in>set xss. valid_points C check xs)"
  by (auto simp: valid_points_def)

lemma aggregated_valid:
  assumes "\<forall>acc\<in>set accs. elements_valid E check acc" "accs \<noteq> []"
  shows "elements_valid E check (aggregated accs)"
  using assms by (auto simp: elements_valid_def aggregated_def valid_points_concat)

text \<open>The chunks of a round and the sizes of their parts.\<close>

definition chunk_accumulators ::
  "('f, 'g::ab_group_add, 'h::ab_group_add, 't) PairingEngine \<Rightarrow> usize \<Rightarrow> ProvingSystem \<Rightarrow> usize \<Rightarrow>
   ('g, 'h) AccumulatorElements list \<Rightarrow> bool" where
  "chunk_accumulators E sz system log2 accs \<longleftrightarrow>
     (\<forall>i<length accs. i * sz < total_size_in_g1 system log2 \<and>
        elements_shape E (parameters_new Chunked i sz (curve_parameters_new E) system log2 2) (accs ! i) \<and>
        elements_valid E CheckNo (accs ! i))"

lemma shape_batch:
  "elements_shape E (parameters_new mode i sz cv system log2 batch) acc \<longleftrightarrow>
   elements_shape E (parameters_new mode i sz cv' system log2 batch') acc"
  by (simp add: elements_shape_def other_elements_def marlin_sizes_def split: ProvingSystem.splits)

lemma chunk_lengths:
  assumes "chunk_accumulators E sz system log2 accs" "i < length accs"
  shows "length (tau_powers_g1 (accs ! i)) = min sz (total_size_in_g1 system log2 - i * sz)"
    "system = Groth16 \<Longrightarrow> length (tau_powers_g2 (accs ! i)) = min sz (2 ^ log2 - i * sz) \<and>
       length (alpha_tau_powers_g1 (accs ! i)) = min sz (2 ^ log2 - i * sz) \<and>
       length (beta_tau_powers_g1 (accs ! i)) = min sz (2 ^ log2 - i * sz)"
    "system = Marlin \<Longrightarrow> length (tau_powers_g2 (accs ! i)) = (if i = 0 then log2 + 2 else 0) \<and>
       length (alpha_tau_powers_g1 (accs ! i)) = (if i = 0 then 3 + 3 * log2 else 0) \<and>
       beta_tau_powers_g1 (accs ! i) = [] \<and> acc_beta_g2 (accs ! i) = prime_subgroup_generator (g2_affine E)"
proof -
  have inside: "i * sz \<le> total_size_in_g1 system log2"
    and shape: "elements_shape E (parameters_new Chunked i sz (curve_parameters_new E) system log2 2) (accs ! i)"
    using assms by (auto simp: chunk_accumulators_def less_imp_le)
  note shape = shape [unfolded elements_shape_def other_elements_def parameters_new_sel chunk_sizes_chunked [OF inside]]
  show "length (tau_powers_g1 (accs ! i)) = min sz (total_size_in_g1 system log2 - i * sz)"
    using shape by (simp add: Let_def split: prod.splits)
  show "system = Groth16 \<Longrightarrow> length (tau_powers_g2 (accs ! i)) = min sz (2 ^ log2 - i * sz) \<and>
       length (alpha_tau_powers_g1 (accs ! i)) = min sz (2 ^ log2 - i * sz) \<and>
       length (beta_tau_powers_g1 (accs ! i)) = min sz (2 ^ log2 - i * sz)"
    using shape by (simp add: Let_def)
  show "system = Marlin \<Longrightarrow> length (tau_powers_g2 (accs ! i)) = (if i = 0 then log2 + 2 else 0) \<and>
       length (alpha_tau_powers_g1 (accs ! i)) = (if i = 0 then 3 + 3 * log2 else 0) \<and>
       beta_tau_powers_g1 (accs ! i) = [] \<and> acc_beta_g2 (accs ! i) = prime_subgroup_generator (g2_affine E)"
    using shape by (simp add: Let_def marlin_sizes_def)
qed

lemma length_concat_upto:
  assumes "\<And>i. i < length accs \<Longrightarrow> length (f (accs ! i)) = g i" "k \<le> length accs"
  shows "length (concat (map f (take k accs))) = (\<Sum>i<k. g i)"
  using assms(2)
proof (induction k)
  case (Suc k)
  then show ?case using assms(1) by (simp add: take_Suc_conv_app_nth)
qed simp

lemma aggregated_parts_valid:
  assumes "\<forall>acc\<in>set accs. elements_valid E check acc"
  shows "valid_points (g1_affine E) check (tau_powers_g1 (aggregated accs))"
    "valid_points (g2_affine E) check (tau_powers_g2 (aggregated accs))"
    "valid_points (g1_affine E) check (alpha_tau_powers_g1 (aggregated accs))"
    "valid_points (g1_affine E) check (beta_tau_powers_g1 (aggregated accs))"
  using assms by (auto simp: aggregated_def valid_points_concat elements_valid_def)

lemma aggregated_upto_shape: "aggregated_upto E c ps accs s \<Longrightarrow> split_shape E ps c s"
  by (auto simp: aggregated_upto_def split_shape_def filled_def Let_def split: prod.splits)

lemma sum_of_pieces: "k * sz < n \<Longrightarrow> n \<le> (t :: nat) \<Longrightarrow> (\<Sum>i<k. min sz (t - i * sz)) = k * sz"
  by (simp add: sum_of_chunks)

lemma aggregated_lengths:
  assumes "chunk_accumulators E sz system log2 accs" "k \<le> length accs"
  shows "length (tau_powers_g1 (aggregated (take k accs))) = min (k * sz) (total_size_in_g1 system log2)"
    "system = Groth16 \<Longrightarrow> length (tau_powers_g2 (aggregated (take k accs))) = min (k * sz) (2 ^ log2)"
    "system = Groth16 \<Longrightarrow> length (alpha_tau_powers_g1 (aggregated (take k accs))) = min (k * sz) (2 ^ log2)"
    "system = Groth16 \<Longrightarrow> length (beta_tau_powers_g1 (aggregated (take k accs))) = min (k * sz) (2 ^ log2)"
  using length_concat_upto [of accs tau_powers_g1 "\<lambda>i. min sz (total_size_in_g1 system log2 - i * sz)", OF chunk_lengths(1) [OF assms(1)] assms(2)]
    length_concat_upto [of accs tau_powers_g2 "\<lambda>i. min sz (2 ^ log2 - i * sz)", OF _ assms(2)]
    length_concat_upto [of accs alpha_tau_powers_g1 "\<lambda>i. min sz (2 ^ log2 - i * sz)", OF _ assms(2)]
    length_concat_upto [of accs beta_tau_powers_g1 "\<lambda>i. min sz (2 ^ log2 - i * sz)", OF _ assms(2)]
    chunk_lengths(2) [OF assms(1)]
  by (simp_all add: aggregated_def sum_of_chunks)

lemma take_valid:
  "chunk_accumulators E sz system log2 accs \<Longrightarrow> \<forall>acc\<in>set (take k accs). elements_valid E CheckNo acc"
  by (auto simp: chunk_accumulators_def in_set_conv_nth)

lemma aggregate_groth16_step:
  assumes laws: "engine_laws E" and accs: "chunk_accumulators E sz Groth16 log2 accs" "k < length accs" "0 < sz"
    and ps: "ps = parameters_new Chunked k sz cv Groth16 log2 batch" "fps = parameters_new ModeFull 0 sz' cv' Groth16 log2 batch'"
    and i: "holds_elements E cin CheckNo ps i (accs ! k)" and s: "aggregated_upto E c fps (take k accs) s"
  defines "g1 \<equiv> buffer_size (g1_affine E) c" and "g2 \<equiv> buffer_size (g2_affine E) c"
  shows "\<exists>s'. aggregate_groth16 E cin c ps i s (piece_bounds k sz (total_size_in_g1 Groth16 log2) g1, piece_bounds k sz (2 ^ log2) g2,
      piece_bounds k sz (2 ^ log2) g1, piece_bounds k sz (2 ^ log2) g1) = Inr s' \<and>
    aggregated_upto E c fps (take (Suc k) accs) s' \<and> sb_rest s' = sb_rest s"
proof -
  note l = engine_lawsD [OF laws]
  let ?acc = "accs ! k" and ?old = "take k accs"
  have new: "take (Suc k) accs = ?old @ [?acc]" using accs(2) by (rule take_Suc_conv_app_nth)
  have valid: "elements_valid E CheckNo ?acc" using accs(1,2) by (simp add: chunk_accumulators_def)
  note vo = aggregated_parts_valid [OF take_valid [OF accs(1)], of k]
  note va = valid [unfolded elements_valid_def]
  have full: "other_elements fps = (2 ^ log2, 2 ^ log2, 2 ^ log2, 1)" "g1_chunk_size fps = total_size_in_g1 Groth16 log2"
    by (simp_all add: ps(2) other_elements_def full_sizes)
  note f = s [unfolded aggregated_upto_def full Let_def prod.case]
  note r = i [unfolded holds_elements_def]
  have le: "k \<le> length accs" using accs(2) by simp
  note lens = aggregated_lengths [OF accs(1) le] and cl = chunk_lengths [OF accs(1,2)]
  obtain tau1 where tau1: "copy_batch (g1_affine E) (tau_g1 i, cin) c (piece_bounds k sz (total_size_in_g1 Groth16 log2) g1) (tau_g1 s) = Inr tau1"
    "filled (g1_affine E) c (total_size_in_g1 Groth16 log2) tau1 (tau_powers_g1 (aggregated ?old) @ tau_powers_g1 ?acc)"
    using copy_piece [OF l(1) _ _ vo(1), of cin "tau_g1 i" "tau_powers_g1 ?acc" CheckNo c "total_size_in_g1 Groth16 log2" "tau_g1 s" k sz]
      f r va lens(1) cl(1) by (auto simp: g1_def)
  obtain tau2 where tau2: "copy_batch (g2_affine E) (tau_g2 i, cin) c (piece_bounds k sz (2 ^ log2) g2) (tau_g2 s) = Inr tau2"
    "filled (g2_affine E) c (2 ^ log2) tau2 (tau_powers_g2 (aggregated ?old) @ tau_powers_g2 ?acc)"
    using copy_piece [OF l(2) _ _ vo(2), of cin "tau_g2 i" "tau_powers_g2 ?acc" CheckNo c "2 ^ log2" "tau_g2 s" k sz]
      f r va lens(2) cl(2) by (auto simp: g2_def)
  obtain alpha1 where alpha1: "copy_batch (g1_affine E) (alpha_g1 i, cin) c (piece_bounds k sz (2 ^ log2) g1) (alpha_g1 s) = Inr alpha1"
    "filled (g1_affine E) c (2 ^ log2) alpha1 (alpha_tau_powers_g1 (aggregated ?old) @ alpha_tau_powers_g1 ?acc)"
    using copy_piece [OF l(1) _ _ vo(3), of cin "alpha_g1 i" "alpha_tau_powers_g1 ?acc" CheckNo c "2 ^ log2" "alpha_g1 s" k sz]
      f r va lens(3) cl(2) by (auto simp: g1_def)
  obtain beta1 where beta1: "copy_batch (g1_affine E) (beta_g1 i, cin) c (piece_bounds k sz (2 ^ log2) g1) (beta_g1 s) = Inr beta1"
    "filled (g1_affine E) c (2 ^ log2) beta1 (beta_tau_powers_g1 (aggregated ?old) @ beta_tau_powers_g1 ?acc)"
    using copy_piece [OF l(1) _ _ vo(4), of cin "beta_g1 i" "beta_tau_powers_g1 ?acc" CheckNo c "2 ^ log2" "beta_g1 s" k sz]
      f r va lens(4) cl(2) by (auto simp: g1_def)
  let ?s1 = "if k * sz < 2 ^ log2 then s\<lparr>tau_g1 := tau1, tau_g2 := tau2, alpha_g1 := alpha1, beta_g1 := beta1\<rparr> else s\<lparr>tau_g1 := tau1\<rparr>"
  let ?s2 = "if k = 0 then ?s1\<lparr>beta_g2 := to_bytes (g2_affine E) c (acc_beta_g2 ?acc)\<rparr> else ?s1"
  have "read_element (g2_affine E) cin CheckNo (beta_g2 i) = Inr (acc_beta_g2 ?acc)" using r by (simp add: ps(1))
  moreover have "write_element (g2_affine E) c (acc_beta_g2 ?acc) (beta_g2 s) = Inr (to_bytes (g2_affine E) c (acc_beta_g2 ?acc))"
    using va f by (simp add: write_element_def Let_def valid_points_def curve_lawsD(6) [OF l(2)] filled_def)
  ultimately have "aggregate_groth16 E cin c ps i s (piece_bounds k sz (total_size_in_g1 Groth16 log2) g1, piece_bounds k sz (2 ^ log2) g2,
      piece_bounds k sz (2 ^ log2) g1, piece_bounds k sz (2 ^ log2) g1) = Inr ?s2"
    using tau1(1) tau2(1) alpha1(1) beta1(1) by (cases "k = 0") (simp_all add: aggregate_groth16_def ps(1) Let_def del: total_size_in_g1.simps)
  moreover have "aggregated_upto E c fps (take (Suc k) accs) ?s2"
  proof -
    have "tau_powers_g2 ?acc = [] \<and> alpha_tau_powers_g1 ?acc = [] \<and> beta_tau_powers_g1 ?acc = []" if "\<not> k * sz < 2 ^ log2"
      using cl(2) that by simp
    then have others: "filled (g2_affine E) c (2 ^ log2) (tau_g2 ?s2) (tau_powers_g2 (aggregated ?old) @ tau_powers_g2 ?acc)"
      "filled (g1_affine E) c (2 ^ log2) (alpha_g1 ?s2) (alpha_tau_powers_g1 (aggregated ?old) @ alpha_tau_powers_g1 ?acc)"
      "filled (g1_affine E) c (2 ^ log2) (beta_g1 ?s2) (beta_tau_powers_g1 (aggregated ?old) @ beta_tau_powers_g1 ?acc)"
      using tau2(2) alpha1(2) beta1(2) f by auto
    have "length (to_bytes (g2_affine E) c (acc_beta_g2 ?acc)) = g2"
      using va by (simp add: valid_points_def curve_lawsD(6) [OF l(2)] g2_def)
    then have "filled (g2_affine E) c 1 (beta_g2 ?s2) (beta_elements fps (aggregated (?old @ [?acc])))"
      using f accs(2) by (cases "k = 0") (auto simp: beta_elements_def ps(2) aggregated_snoc filled_def g2_def)
    with others tau1(2) f show ?thesis
      unfolding aggregated_upto_def full Let_def prod.case new by (auto simp: aggregated_snoc)
  qed
  ultimately show ?thesis by auto
qed

lemma copy_whole:
  assumes "curve_laws C" "reads C cin CheckNo inp xs" "valid_points C check xs" "length part = length xs * buffer_size C c"
  shows "copy_batch C (inp, cin) c (0, length part) part = Inr (encode C c xs)"
proof -
  have "read_batch C cin CheckNo inp = Inr xs"
    using assms(2) read_batch_reads [OF curve_lawsD(5) [OF assms(1)], of inp "length xs" cin CheckNo xs] by (simp add: reads_def)
  then show ?thesis by (simp add: copy_batch_def write_encoded [OF assms(1,3,4)])
qed

lemma marlin_others:
  assumes "chunk_accumulators E sz Marlin log2 accs" "0 < k" "k \<le> length accs"
  shows "tau_powers_g2 (aggregated (take k accs)) = tau_powers_g2 (accs ! 0) \<and>
    alpha_tau_powers_g1 (aggregated (take k accs)) = alpha_tau_powers_g1 (accs ! 0) \<and>
    beta_tau_powers_g1 (aggregated (take k accs)) = []"
  using assms(2,3)
proof (induction k)
  case (Suc k)
  have k: "k < length accs" using Suc.prems by simp
  have new: "take (Suc k) accs = take k accs @ [accs ! k]" using k by (rule take_Suc_conv_app_nth)
  show ?case
    unfolding new aggregated_snoc using Suc.IH chunk_lengths(3) [OF assms(1) k refl] k
    by (cases "k = 0") (simp_all add: aggregated_def)
qed simp

lemma aggregate_marlin_step:
  assumes laws: "engine_laws E" and accs: "chunk_accumulators E sz Marlin log2 accs" "k < length accs" "0 < sz"
    and ps: "ps = parameters_new Chunked k sz cv Marlin log2 batch" "fps = parameters_new ModeFull 0 sz' cv' Marlin log2 batch'"
    and i: "holds_elements E cin CheckNo ps i (accs ! k)" and s: "aggregated_upto E c fps (take k accs) s"
  defines "s' \<equiv> if k = 0 then s else s\<lparr>tau_g2 := [], alpha_g1 := [], sb_rest := tau_g2 s @ alpha_g1 s @ sb_rest s\<rparr>"
  shows "\<exists>s2 s3. aggregate_marlin E cin c ps i s' (piece_bounds k sz (total_size_in_g1 Marlin log2) (buffer_size (g1_affine E) c),
      (0, length (tau_g2 s')), (0, length (alpha_g1 s')), 0, 0) = Inr s2 \<and> join s2 = join s3 \<and>
    aggregated_upto E c fps (take (Suc k) accs) s3 \<and> sb_rest s3 = sb_rest s"
proof -
  note l = engine_lawsD [OF laws]
  let ?acc = "accs ! k" and ?old = "take k accs"
  have new: "take (Suc k) accs = ?old @ [?acc]" using accs(2) by (rule take_Suc_conv_app_nth)
  have valid: "elements_valid E CheckNo ?acc" using accs(1,2) by (simp add: chunk_accumulators_def)
  note vo = aggregated_parts_valid [OF take_valid [OF accs(1)], of k]
  note va = valid [unfolded elements_valid_def]
  have full: "other_elements fps = (log2 + 2, 3 + 3 * log2, 0, 0)" "g1_chunk_size fps = total_size_in_g1 Marlin log2"
    by (simp_all add: ps(2) other_elements_def marlin_sizes_def full_sizes)
  note f = s [unfolded aggregated_upto_def full Let_def prod.case]
  note r = i [unfolded holds_elements_def]
  have le: "k \<le> length accs" using accs(2) by simp
  note lens = aggregated_lengths(1) [OF accs(1) le] and cl = chunk_lengths(1) [OF accs(1,2)] chunk_lengths(3) [OF accs(1,2) refl]
  have s': "tau_g1 s' = tau_g1 s" by (simp add: s'_def)
  obtain tau1 where tau1: "copy_batch (g1_affine E) (tau_g1 i, cin) c
      (piece_bounds k sz (total_size_in_g1 Marlin log2) (buffer_size (g1_affine E) c)) (tau_g1 s) = Inr tau1"
    "filled (g1_affine E) c (total_size_in_g1 Marlin log2) tau1 (tau_powers_g1 (aggregated ?old) @ tau_powers_g1 ?acc)"
    using copy_piece [OF l(1) _ _ vo(1), of cin "tau_g1 i" "tau_powers_g1 ?acc" CheckNo c "total_size_in_g1 Marlin log2" "tau_g1 s" k sz]
      f r va lens cl(1) by auto
  have parts: "length (tau_g2 s') = length (tau_powers_g2 ?acc) * buffer_size (g2_affine E) c"
    "length (alpha_g1 s') = length (alpha_tau_powers_g1 ?acc) * buffer_size (g1_affine E) c"
    using f cl(2) by (auto simp: s'_def filled_def)
  have c2: "copy_batch (g2_affine E) (tau_g2 i, cin) c (0, length (tau_g2 s')) (tau_g2 s') = Inr (encode (g2_affine E) c (tau_powers_g2 ?acc))"
    using r va by (intro copy_whole [OF l(2) _ _ parts(1), of _ _ CheckNo]) simp_all
  have ca: "copy_batch (g1_affine E) (alpha_g1 i, cin) c (0, length (alpha_g1 s')) (alpha_g1 s') = Inr (encode (g1_affine E) c (alpha_tau_powers_g1 ?acc))"
    using r va by (intro copy_whole [OF l(1) _ _ parts(2), of _ _ CheckNo]) simp_all
  have empty: "tau_g2 s' = encode (g2_affine E) c (tau_powers_g2 ?acc)" "alpha_g1 s' = encode (g1_affine E) c (alpha_tau_powers_g1 ?acc)"
    if "k \<noteq> 0" using that cl(2) by (simp_all add: s'_def)
  let ?s2 = "s'\<lparr>tau_g1 := tau1, tau_g2 := encode (g2_affine E) c (tau_powers_g2 ?acc), alpha_g1 := encode (g1_affine E) c (alpha_tau_powers_g1 ?acc)\<rparr>"
  let ?s3 = "if k = 0 then ?s2 else s\<lparr>tau_g1 := tau1\<rparr>"
  have "aggregate_marlin E cin c ps i s' (piece_bounds k sz (total_size_in_g1 Marlin log2) (buffer_size (g1_affine E) c),
      (0, length (tau_g2 s')), (0, length (alpha_g1 s')), 0, 0) = Inr ?s2"
    using tau1(1) c2 ca empty by (cases "k = 0") (simp_all add: aggregate_marlin_def ps(1) s' Let_def)
  moreover have "join ?s2 = join ?s3" "sb_rest ?s3 = sb_rest s"
    using cl(2) f by (auto simp: join_def s'_def filled_def)
  moreover have "aggregated_upto E c fps (take (Suc k) accs) ?s3"
  proof -
    have "length (encode (g2_affine E) c (tau_powers_g2 ?acc)) = length (tau_powers_g2 ?acc) * buffer_size (g2_affine E) c"
      "length (encode (g1_affine E) c (alpha_tau_powers_g1 ?acc)) = length (alpha_tau_powers_g1 ?acc) * buffer_size (g1_affine E) c"
      using va by (auto intro!: length_encode [OF l(1)] length_encode [OF l(2)])
    then have "filled (g2_affine E) c (log2 + 2) (tau_g2 ?s3) (tau_powers_g2 (aggregated ?old) @ tau_powers_g2 ?acc)"
      "filled (g1_affine E) c (3 + 3 * log2) (alpha_g1 ?s3) (alpha_tau_powers_g1 (aggregated ?old) @ alpha_tau_powers_g1 ?acc)"
      using f cl(2) by (cases "k = 0"; auto simp: filled_def aggregated_def)+
    moreover have "filled (g1_affine E) c 0 (beta_g1 ?s3) (beta_tau_powers_g1 (aggregated ?old) @ beta_tau_powers_g1 ?acc)"
      "filled (g2_affine E) c 0 (beta_g2 ?s3) (beta_elements fps (aggregated (?old @ [?acc])))"
      using f cl(2) by (auto simp: s'_def filled_def beta_elements_def ps(2))
    ultimately show ?thesis
      using tau1(2) f unfolding aggregated_upto_def full Let_def prod.case new by (auto simp: aggregated_snoc s'_def)
  qed
  ultimately show ?thesis by blast
qed

section \<open>All chunks\<close>

lemma p1_curve_new [simp]: "p1_curve (parameters_new mode index sz cv system log2 batch) = cv"
  by (simp add: parameters_new_def Let_def split: prod.splits)

lemma aggregate_chunk_step:
  assumes laws: "engine_laws E" and accs: "chunk_accumulators E sz system log2 accs" "k < length accs" "0 < sz"
    and ps: "ps = parameters_new Chunked index sz cv system log2 batch" "fps = parameters_new ModeFull 0 sz' cv system log2 batch"
    and inp: "deserialize E inp cin CheckNo (parameters_new Chunked k sz cv system log2 batch) = Inr (accs ! k)"
    and s: "aggregated_upto E c fps (take k accs) s"
  shows "\<exists>s'. aggregate_chunk E c ps (k, inp, cin) (join s) = Inr (join s') \<and>
    aggregated_upto E c fps (take (Suc k) accs) s' \<and> sb_rest s' = sb_rest s"
proof -
  let ?ps = "parameters_new Chunked k sz cv system log2 batch"
  have inside: "k * sz < total_size_in_g1 system log2" using accs(1,2) by (simp add: chunk_accumulators_def)
  obtain i where i: "split E inp ?ps cin = Inr i" "holds_elements E cin CheckNo ?ps i (accs ! k)"
    by (rule deserialize_holds [OF laws inp])
  have chunk: "into_chunk_parameters ps (p1_contribution_mode ps) k (p1_chunk_size ps) = ?ps"
    by (simp add: into_chunk_parameters_def ps(1))
  have sys: "p1_proving_system ps = system" by (simp add: ps(1))
  note shape = aggregated_upto_shape [OF s]
  define q where "q = ?ps"
  note chunk = chunk [folded q_def] and i = i [folded q_def]
  show ?thesis
  proof (cases system)
    case Groth16
    have q: "q = parameters_new Chunked k sz cv Groth16 log2 batch" by (simp add: q_def Groth16)
    from aggregate_groth16_step [OF laws accs [unfolded Groth16] q ps(2) [unfolded Groth16] i(2) s]
      split_at_chunk_groth16 [OF q inside [unfolded Groth16] accs(3) ps(2) [unfolded Groth16] shape] i(1)
    show ?thesis
      by (auto simp: aggregate_chunk_def Let_def chunk sys Groth16 simp del: total_size_in_g1.simps)
  next
    case Marlin
    have q: "q = parameters_new Chunked k sz cv Marlin log2 batch" by (simp add: q_def Marlin)
    from aggregate_marlin_step [OF laws accs [unfolded Marlin] q ps(2) [unfolded Marlin] i(2) s]
      split_at_chunk_marlin [OF q inside [unfolded Marlin] accs(3) ps(2) [unfolded Marlin] shape] i(1)
    show ?thesis
      by (auto simp: aggregate_chunk_def Let_def chunk sys Marlin simp del: total_size_in_g1.simps)
  qed
qed

lemma aggregated_shape:
  assumes "chunk_accumulators E sz system log2 accs" "0 < length accs" "total_size_in_g1 system log2 \<le> length accs * sz"
  shows "elements_shape E (parameters_new ModeFull 0 sz' cv system log2 batch) (aggregated accs)"
proof (cases system)
  case Groth16
  have "(2 :: nat) ^ log2 \<le> total_size_in_g1 Groth16 log2" by simp
  also have "\<dots> \<le> length accs * sz" using assms(3) by (simp add: Groth16)
  finally have "2 ^ log2 \<le> length accs * sz" .
  then show ?thesis
    using aggregated_lengths [OF assms(1) order.refl] assms(3)
    by (simp add: elements_shape_def other_elements_def full_sizes Groth16)
next
  case Marlin
  note c = chunk_lengths(3) [OF assms(1,2) Marlin] marlin_others [OF assms(1) [unfolded Marlin] assms(2) order.refl]
  have "acc_beta_g2 (hd accs) = prime_subgroup_generator (g2_affine E)"
    using c(1) assms(2) by (simp add: hd_conv_nth)
  then show ?thesis
    using aggregated_lengths(1) [OF assms(1) order.refl] assms(3) c
    by (simp add: elements_shape_def other_elements_def full_sizes marlin_sizes_def Marlin aggregated_snoc(5))
qed

lemma aggregation_stored:
  assumes laws: "engine_laws E" and accs: "chunk_accumulators E sz system log2 accs" "0 < length accs" "0 < sz"
    and cover: "total_size_in_g1 system log2 \<le> length accs * sz"
    and ps: "ps = parameters_new Chunked index sz cv system log2 batch" "fps = parameters_new ModeFull 0 sz' cv system log2 batch"
    and inputs: "length inputs = length accs" "\<And>k. k < length accs \<Longrightarrow>
      deserialize E (fst (inputs ! k)) (snd (inputs ! k)) CheckNo (parameters_new Chunked k sz cv system log2 batch) = Inr (accs ! k)"
    and s: "split_mut E buf fps c = Inr s"
  shows "\<exists>s'. aggregation E inputs (buf, c) ps = Inr (join (encoded_parts E fps c (aggregated accs) s')) \<and>
    length (sb_hash s') = hash_size fps \<and> sb_rest s' = sb_rest s"
proof -
  let ?P = "\<lambda>k out. \<exists>s'. out = join s' \<and> aggregated_upto E c fps (take k accs) s' \<and> sb_rest s' = sb_rest s"
  have "?P 0 buf"
    using s by (auto simp: split_mut_iff split_shape_def aggregated_upto_def filled_def aggregated_def Let_def split: prod.splits)
  moreover have "\<exists>out'. aggregate_chunk E c ps (enumerate 0 inputs ! k) out = Inr out' \<and> ?P (Suc k) out'"
    if k: "k < length inputs" and out: "?P k out" for k out
  proof -
    obtain inp cin where ic: "inputs ! k = (inp, cin)" by fastforce
    have e: "enumerate 0 inputs ! k = (k, inp, cin)" using k ic by (simp add: nth_enumerate_eq)
    from out obtain s' where "out = join s'" "aggregated_upto E c fps (take k accs) s'" "sb_rest s' = sb_rest s" by blast
    with aggregate_chunk_step [OF laws accs(1) _ accs(3) ps, of k inp cin c s'] inputs(2) [of k] k inputs(1) ic
    show ?thesis unfolding e by auto
  qed
  ultimately have "\<exists>out. fold_results (aggregate_chunk E c ps) (enumerate 0 inputs) buf = Inr out \<and> ?P (length inputs) out"
    by (rule fold_results_invariant [where n = "length inputs"]) (simp_all add: length_enumerate)
  then obtain s' where s': "aggregation E inputs (buf, c) ps = Inr (join s')" "aggregated_upto E c fps accs s'" "sb_rest s' = sb_rest s"
    using inputs(1) by (auto simp: aggregation_def)
  have valid: "elements_valid E CheckNo (aggregated accs)"
    using accs(1,2) by (intro aggregated_valid) (auto simp: chunk_accumulators_def in_set_conv_nth)
  have shape: "elements_shape E fps (aggregated accs)" unfolding ps(2) by (rule aggregated_shape [OF accs(1,2) cover])
  note l = engine_lawsD [OF laws]
  obtain n2 na nb nb2 where n: "other_elements fps = (n2, na, nb, nb2)" by (cases "other_elements fps")
  have nb2: "nb2 = length (beta_elements fps (aggregated accs))" using length_beta_elements [of fps "aggregated accs"] n by simp
  note v = valid [unfolded elements_valid_def] and sh = shape [unfolded elements_shape_def n Let_def prod.case]
  note u = s'(2) [unfolded aggregated_upto_def n Let_def prod.case]
  have vb: "valid_points (g2_affine E) CheckNo (beta_elements fps (aggregated accs))"
    using v by (intro valid_beta_elements) simp
  have parts: "tau_g1 s' = encode (g1_affine E) c (tau_powers_g1 (aggregated accs))"
    "tau_g2 s' = encode (g2_affine E) c (tau_powers_g2 (aggregated accs))"
    "alpha_g1 s' = encode (g1_affine E) c (alpha_tau_powers_g1 (aggregated accs))"
    "beta_g1 s' = encode (g1_affine E) c (beta_tau_powers_g1 (aggregated accs))"
    using v sh u by (auto intro: filled_all [OF l(1)] filled_all [OF l(2)])
  have "beta_g2 s' = encode (g2_affine E) c (beta_elements fps (aggregated accs))"
    using u accs(2) nb2 by (intro filled_all [OF l(2) vb]) auto
  with parts have "encoded_parts E fps c (aggregated accs) s' = s'" by (simp add: encoded_parts_def)
  with s' u show ?thesis by (intro exI [of _ s']) simp
qed

lemma aggregation_ok:
  assumes laws: "engine_laws E" and ps: "ps = parameters_new Chunked index sz (curve_parameters_new E) system log2 batch" "0 < sz"
    and n: "length inputs = (total_size_in_g1 system log2 + sz - 1) div sz" "length accs = length inputs"
    and inputs: "\<And>k. k < length inputs \<Longrightarrow> deserialize E (fst (inputs ! k)) (snd (inputs ! k)) CheckNo
        (into_chunk_parameters ps Chunked k sz) = Inr (accs ! k) \<and> elements_valid E CheckNo (accs ! k)"
    and out: "get_length (new_full (curve_parameters_new E) system log2 batch) c \<le> length buf"
  obtains buf' where "aggregation E inputs (buf, c) ps = Inr buf'" "length buf' = length buf"
    "deserialize E buf' c CheckNo (new_full (curve_parameters_new E) system log2 batch) = Inr (aggregated accs)"
proof -
  let ?fps = "new_full (curve_parameters_new E) system log2 batch" and ?t = "total_size_in_g1 system log2"
  have chunk: "into_chunk_parameters ps Chunked k sz = parameters_new Chunked k sz (curve_parameters_new E) system log2 batch" for k
    by (simp add: into_chunk_parameters_def ps(1))
  have cover: "(length accs - 1) * sz < ?t" "?t \<le> length accs * sz"
    using ceiling_division [OF ps(2) total_size_pos, of system log2] n by simp_all
  then have some: "0 < length accs" using total_size_pos [of system log2] by (cases accs) auto
  have inside: "k * sz < ?t" if "k < length accs" for k
  proof -
    have "k * sz \<le> (length accs - 1) * sz" using that by (intro mult_right_mono) simp_all
    then show ?thesis using cover(1) by (rule le_less_trans)
  qed
  have shape: "elements_shape E (into_chunk_parameters ps Chunked k sz) (accs ! k)" if k: "k < length accs" for k
  proof -
    have "deserialize E (fst (inputs ! k)) (snd (inputs ! k)) CheckNo (into_chunk_parameters ps Chunked k sz) = Inr (accs ! k)"
      using inputs k n(2) by simp
    then show ?thesis by (rule deserialize_holds [OF laws]) (simp add: holds_elements_def)
  qed
  have accs: "chunk_accumulators E sz system log2 accs"
    using inside inputs n(2) shape [unfolded chunk, THEN iffD1 [OF shape_batch]] by (auto simp: chunk_accumulators_def)
  have fps: "?fps = parameters_new ModeFull 0 0 (curve_parameters_new E) system log2 batch" by (simp add: new_full_def)
  obtain s where s: "split_mut E buf ?fps c = Inr s" using split_mut_exists [OF fps out] by blast
  obtain s' where s': "aggregation E inputs (buf, c) ps = Inr (join (encoded_parts E ?fps c (aggregated accs) s'))"
    "length (sb_hash s') = hash_size ?fps" "sb_rest s' = sb_rest s"
    using aggregation_stored [OF laws accs some ps(2) cover(2) ps(1) fps n(2) [symmetric] _ s] inputs n(2) chunk by auto
  have valid: "elements_valid E CheckNo (aggregated accs)"
    using inputs n(2) some by (intro aggregated_valid) (auto simp: in_set_conv_nth)
  have shape': "elements_shape E ?fps (aggregated accs)" unfolding fps by (rule aggregated_shape [OF accs some cover(2)])
  have "0 < g1_chunk_size ?fps" using total_size_pos [of system log2] by (simp add: fps full_sizes)
  from deserialize_stored [OF laws shape' valid s'(2) this]
  have "deserialize E (join (encoded_parts E ?fps c (aggregated accs) s')) c CheckNo ?fps = Inr (aggregated accs)"
    by (simp add: AccumulatorElements.truncate_def)
  moreover have "length (join (encoded_parts E ?fps c (aggregated accs) s')) = length buf"
    using s s'(3) length_join_updated [OF _ encoded_parts_shape [OF laws shape' valid s'(2)], of c s] by (simp add: split_mut_iff)
  ultimately show ?thesis using s'(1) that by blast
qed

text \<open>
  Aggregation joins the chunks of a round. When there are as many input buffers as the powers have chunks
  and each is read as an accumulator of points of the subgroups of its chunk, in any compression, aggregation
  succeeds, and its output is read as the full accumulator in which the elements of the chunks follow each
  other, in both proving systems.\<close>

theorem aggregation_joins_chunks:
  assumes "engine_laws E" "ps = parameters_new Chunked index sz (curve_parameters_new E) system log2 batch" "0 < sz"
    and "length inputs = (total_size_in_g1 system log2 + sz - 1) div sz" "length accs = length inputs"
    and "\<And>k. k < length inputs \<Longrightarrow> deserialize E (fst (inputs ! k)) (snd (inputs ! k)) CheckNo
        (into_chunk_parameters ps Chunked k sz) = Inr (accs ! k) \<and> elements_valid E CheckNo (accs ! k)"
    and "get_length (new_full (curve_parameters_new E) system log2 batch) c \<le> length output"
  shows "case aggregation E inputs (output, c) ps of
      Inl e \<Rightarrow> False
    | Inr output' \<Rightarrow> length output' = length output \<and>
        deserialize E output' c CheckNo (new_full (curve_parameters_new E) system log2 batch) = Inr (aggregated accs)"
proof -
  obtain buf' where "aggregation E inputs (output, c) ps = Inr buf'" "length buf' = length output"
    "deserialize E buf' c CheckNo (new_full (curve_parameters_new E) system log2 batch) = Inr (aggregated accs)"
    by (rule aggregation_ok [OF assms])
  then show ?thesis by simp
qed

section \<open>A ceremony in chunks\<close>

lemma concat_pieces:
  "concat (map (\<lambda>k. map (\<lambda>i. f (k * sz + i)) [0..<min sz (t - k * sz)]) [0..<n]) = map f [0..<min (n * sz) t]"
proof (induction n)
  case (Suc n)
  have "map (\<lambda>i. f (n * sz + i)) [0..<min sz (t - n * sz)] = map f [n * sz..<n * sz + min sz (t - n * sz)]"
    by (intro nth_equalityI) simp_all
  moreover have "[0..<min (Suc n * sz) t] = [0..<min (n * sz) t] @ [n * sz..<n * sz + min sz (t - n * sz)]"
  proof (cases "n * sz < t")
    case True
    then have "min (Suc n * sz) t = n * sz + min sz (t - n * sz)" "min (n * sz) t = n * sz" by auto
    then show ?thesis by (metis upt_add_eq_append zero_le)
  qed auto
  ultimately show ?case using Suc by simp
qed simp

lemma concat_first:
  assumes "0 < n" "\<And>k. 0 < k \<Longrightarrow> f k = []"
  shows "concat (map f [0..<n]) = f 0"
  using assms(1)
proof (induction n)
  case (Suc n)
  then show ?case using assms(2) [of n] by (cases "n = 0") simp_all
qed simp

lemma concat_pieces_eq:
  assumes "\<And>k. k < n \<Longrightarrow> h k = map (\<lambda>i. f (k * sz + i)) [0..<min sz (t - k * sz)]" "t \<le> n * sz"
  shows "concat (map h [0..<n]) = map f [0..<t]"
proof -
  have "concat (map h [0..<n]) = concat (map (\<lambda>k. map (\<lambda>i. f (k * sz + i)) [0..<min sz (t - k * sz)]) [0..<n])"
    using assms(1) by (intro arg_cong [where f = concat] map_cong) simp_all
  also have "\<dots> = map f [0..<t]" using assms(2) by (simp add: concat_pieces)
  finally show ?thesis .
qed

lemma aggregated_accumulator:
  fixes E :: "('f::field, 'g, 'h, 't) PairingEngine"
  assumes "0 < n" "total_size_in_g1 system log2 \<le> n * sz" "\<And>k. k < n \<Longrightarrow> k * sz < total_size_in_g1 system log2"
  shows "aggregated (map (\<lambda>k. accumulator_of E (parameters_new Chunked k sz cv system log2 batch) key) [0..<n]) =
    accumulator_of E (parameters_new ModeFull 0 sz' cv system log2 batch) key"
proof -
  let ?t = "total_size_in_g1 system log2" and ?c = "\<lambda>k. parameters_new Chunked k sz cv system log2 batch"
  let ?full = "parameters_new ModeFull 0 sz' cv system log2 batch"
  have sizes: "chunk_sizes Chunked k sz system log2 = (min sz (?t - k * sz), case system of Groth16 \<Rightarrow> min sz (2 ^ log2 - k * sz) | Marlin \<Rightarrow> 0)"
    if "k < n" for k by (rule chunk_sizes_chunked) (use assms(3) [OF that] in simp)
  have first: "first_element (?c k) = k * sz" "first_element ?full = 0" for k by (simp_all add: first_element_def)
  note defs = accumulator_of_def other_elements_def Let_def full_sizes power_weight_def tau_g2_weight_def alpha_weight_def
    beta_weight_def first
  have hd: "hd [0..<n] = 0" using assms(1) by (simp add: upt_conv_Cons)
  have tau1: "concat (map (\<lambda>k. tau_powers_g1 (accumulator_of E (?c k) key)) [0..<n]) = tau_powers_g1 (accumulator_of E ?full key)"
    using sizes
    by (subst concat_pieces_eq [OF _ assms(2), where f = "\<lambda>i. point_mul (g1_affine E) (prime_subgroup_generator (g1_affine E)) (sk_tau key ^ i)"])
      (simp_all add: defs split: prod.splits)
  have "concat (map (\<lambda>k. tau_powers_g2 (accumulator_of E (?c k) key)) [0..<n]) = tau_powers_g2 (accumulator_of E ?full key) \<and>
    concat (map (\<lambda>k. alpha_tau_powers_g1 (accumulator_of E (?c k) key)) [0..<n]) = alpha_tau_powers_g1 (accumulator_of E ?full key) \<and>
    concat (map (\<lambda>k. beta_tau_powers_g1 (accumulator_of E (?c k) key)) [0..<n]) = beta_tau_powers_g1 (accumulator_of E ?full key)"
  proof (cases system)
    case Groth16
    have "(2 :: nat) ^ log2 \<le> ?t" by (simp add: Groth16)
    then have le: "2 ^ log2 \<le> n * sz" using assms(2) by (rule le_trans)
    let ?g1 = "prime_subgroup_generator (g1_affine E)" and ?g2 = "prime_subgroup_generator (g2_affine E)"
    note g = sizes [unfolded Groth16] and d = defs [unfolded Groth16]
    show ?thesis
    proof (intro conjI)
      show "concat (map (\<lambda>k. tau_powers_g2 (accumulator_of E (?c k) key)) [0..<n]) = tau_powers_g2 (accumulator_of E ?full key)"
        by (subst concat_pieces_eq [OF _ le, where f = "\<lambda>i. point_mul (g2_affine E) ?g2 (sk_tau key ^ i)"])
          (simp_all add: Groth16 g d)
      show "concat (map (\<lambda>k. alpha_tau_powers_g1 (accumulator_of E (?c k) key)) [0..<n]) = alpha_tau_powers_g1 (accumulator_of E ?full key)"
        by (subst concat_pieces_eq [OF _ le, where f = "\<lambda>i. point_mul (g1_affine E) ?g1 (sk_tau key ^ i * sk_alpha key)"])
          (simp_all add: Groth16 g d)
      show "concat (map (\<lambda>k. beta_tau_powers_g1 (accumulator_of E (?c k) key)) [0..<n]) = beta_tau_powers_g1 (accumulator_of E ?full key)"
        by (subst concat_pieces_eq [OF _ le, where f = "\<lambda>i. point_mul (g1_affine E) ?g1 (sk_tau key ^ i * sk_beta key)"])
          (simp_all add: Groth16 g d)
    qed
  next
    case Marlin
    show ?thesis
      by (simp add: concat_first [OF assms(1)] defs Marlin marlin_sizes_def degree_bound_def)
  qed
  moreover have "acc_beta_g2 (accumulator_of E (?c 0) key) = acc_beta_g2 (accumulator_of E ?full key)"
    by (simp add: accumulator_of_def Let_def split: prod.splits)
  ultimately show ?thesis
    using tau1 assms(1) hd by (simp add: aggregated_def comp_def hd_map)
qed

text \<open>
  Every chunk is initialized, all contributors contribute to it one after the other, and the results are
  aggregated.
\<close>

definition number_of_pieces :: "Phase1Parameters \<Rightarrow> nat" where
  "number_of_pieces ps =
     (total_size_in_g1 (p1_proving_system ps) (total_size_in_log2 ps) + p1_chunk_size ps - 1) div p1_chunk_size ps"

definition chunk_ceremony ::
  "('f::field, 'g::ab_group_add, 'h::ab_group_add, 't) PairingEngine \<Rightarrow> UseCompression \<Rightarrow> 'f PrivateKey list \<Rightarrow>
   Phase1Parameters \<Rightarrow> bytes or_error" where
  "chunk_ceremony E c keys ps =
     result_bind (initialization E (replicate (get_length ps c) 0) c ps) (contributions E c ps keys)"

definition ceremony ::
  "('f::field, 'g::ab_group_add, 'h::ab_group_add, 't) PairingEngine \<Rightarrow> UseCompression \<Rightarrow> UseCompression \<Rightarrow>
   'f PrivateKey list \<Rightarrow> Phase1Parameters \<Rightarrow> bytes or_error" where
  "ceremony E c cout keys ps =
     (let full = new_full (p1_curve ps) (p1_proving_system ps) (total_size_in_log2 ps) (p1_batch_size ps) in
      result_bind (collect_results
          (\<lambda>k. chunk_ceremony E c keys (into_chunk_parameters ps Chunked k (p1_chunk_size ps))) [0..<number_of_pieces ps])
        (\<lambda>outputs. aggregation E (map (\<lambda>content. (content, c)) outputs) (replicate (get_length full cout) 0, cout) ps))"

lemma pieces_cover:
  assumes "ps = parameters_new Chunked index sz cv system log2 batch" "0 < sz"
  shows "0 < number_of_pieces ps" "total_size_in_g1 system log2 \<le> number_of_pieces ps * sz"
    "k < number_of_pieces ps \<Longrightarrow> k * sz < total_size_in_g1 system log2"
proof -
  have n: "number_of_pieces ps = (total_size_in_g1 system log2 + sz - 1) div sz" by (simp add: number_of_pieces_def assms(1))
  show up: "total_size_in_g1 system log2 \<le> number_of_pieces ps * sz"
    unfolding n by (rule ceiling_division(2) [OF assms(2) total_size_pos])
  then show "0 < number_of_pieces ps" using total_size_pos [of system log2] by (cases "number_of_pieces ps") auto
  show "k * sz < total_size_in_g1 system log2" if "k < number_of_pieces ps"
    using that unfolding n by (rule below_ceiling [OF assms(2)])
qed

lemma chunk_ceremony_ok:
  assumes "engine_laws E" "ps = parameters_new Chunked index sz (curve_parameters_new E) system log2 batch" "0 < sz" "2 \<le> batch"
    and "k < number_of_pieces ps"
  obtains content where "chunk_ceremony E c keys (into_chunk_parameters ps Chunked k sz) = Inr content"
    "deserialize E content c CheckNo (into_chunk_parameters ps Chunked k sz) =
       Inr (accumulator_of E (into_chunk_parameters ps Chunked k sz) (foldl key_mult key_one keys))"
proof -
  have q: "into_chunk_parameters ps Chunked k sz = parameters_new Chunked k sz (curve_parameters_new E) system log2 batch"
    by (simp add: into_chunk_parameters_def assms(2))
  have inside: "k * sz < total_size_in_g1 system log2" by (rule pieces_cover(3) [OF assms(2,3,5)])
  then have "first_element (into_chunk_parameters ps Chunked k sz) < total_size_in_g1 system log2"
    "0 < g1_chunk_size (into_chunk_parameters ps Chunked k sz)"
    using assms(3) chunk_sizes_chunked [of k sz system log2] by (simp_all add: q first_element_def)
  from ceremony_ok [OF assms(1) q this assms(4)] that show ?thesis unfolding chunk_ceremony_def by metis
qed

lemma ceremony_aggregates:
  assumes laws: "engine_laws E" and ps: "ps = parameters_new Chunked index sz (curve_parameters_new E) system log2 batch"
    and sz: "0 < sz" "2 \<le> batch"
  obtains content where "ceremony E c cout keys ps = Inr content"
    "deserialize E content cout CheckNo (new_full (curve_parameters_new E) system log2 batch) =
       Inr (accumulator_of E (new_full (curve_parameters_new E) system log2 batch) (foldl key_mult key_one keys))"
proof -
  let ?n = "number_of_pieces ps" and ?key = "foldl key_mult key_one keys" and ?q = "\<lambda>k. into_chunk_parameters ps Chunked k sz"
  let ?full = "new_full (curve_parameters_new E) system log2 batch"
  have q: "?q k = parameters_new Chunked k sz (curve_parameters_new E) system log2 batch" for k
    by (simp add: into_chunk_parameters_def ps)
  have "\<forall>k<?n. \<exists>content. chunk_ceremony E c keys (?q k) = Inr content \<and> deserialize E content c CheckNo (?q k) = Inr (accumulator_of E (?q k) ?key)"
    using chunk_ceremony_ok [OF laws ps sz] by metis
  then obtain f where f: "chunk_ceremony E c keys (?q k) = Inr (f k)" "deserialize E (f k) c CheckNo (?q k) = Inr (accumulator_of E (?q k) ?key)"
    if "k < ?n" for k by metis
  let ?inputs = "map (\<lambda>content. (content, c)) (map f [0..<?n])" and ?accs = "map (\<lambda>k. accumulator_of E (?q k) ?key) [0..<?n]"
  have "collect_results (\<lambda>k. chunk_ceremony E c keys (?q k)) [0..<?n] = Inr (map f [0..<?n])"
    using f(1) by (simp add: collect_results_nth)
  moreover obtain buf where "aggregation E ?inputs (replicate (get_length ?full cout) 0, cout) ps = Inr buf"
    "deserialize E buf cout CheckNo ?full = Inr (aggregated ?accs)"
  proof (rule aggregation_ok [OF laws ps sz(1), of ?inputs ?accs cout "replicate (get_length ?full cout) 0"])
    show "length ?inputs = (total_size_in_g1 system log2 + sz - 1) div sz" by (simp add: number_of_pieces_def ps)
    show "deserialize E (fst (?inputs ! k)) (snd (?inputs ! k)) CheckNo (?q k) = Inr (?accs ! k) \<and> elements_valid E CheckNo (?accs ! k)"
      if "k < length ?inputs" for k
      using that f(2) accumulator_of_valid [OF laws] by simp
  qed simp_all
  moreover have "aggregated ?accs = accumulator_of E ?full ?key"
    unfolding q new_full_def by (rule aggregated_accumulator [OF pieces_cover [OF ps sz(1)]])
  ultimately show ?thesis using that by (simp add: ceremony_def Let_def ps [symmetric]) (simp add: ps)
qed

text \<open>
  C6. A ceremony in chunks computes the powers of the product of all secrets. For any number of contributors,
  any positive chunk size and any batch size of at least two, in both proving systems and in each of the
  compressions: when every chunk is initialized and all contributors contribute to it, and the chunks are
  aggregated, every step succeeds, and the aggregate is read as the full accumulator of the product of the
  secrets, the same as without chunks.\<close>

theorem chunked_ceremony_aggregates:
  assumes "engine_laws E" "ps = parameters_new Chunked index sz (curve_parameters_new E) system log2 batch"
    and "0 < sz" "2 \<le> batch"
  shows "case ceremony E c cout keys ps of
      Inl e \<Rightarrow> False
    | Inr content \<Rightarrow> deserialize E content cout CheckNo (new_full (curve_parameters_new E) system log2 batch) =
        Inr (accumulator_of E (new_full (curve_parameters_new E) system log2 batch) (foldl key_mult key_one keys))"
proof -
  obtain content where "ceremony E c cout keys ps = Inr content"
    "deserialize E content cout CheckNo (new_full (curve_parameters_new E) system log2 batch) =
       Inr (accumulator_of E (new_full (curve_parameters_new E) system log2 batch) (foldl key_mult key_one keys))"
    by (rule ceremony_aggregates [OF assms])
  then show ?thesis by simp
qed

section \<open>Examples\<close>

definition example_chunks :: "ProvingSystem \<Rightarrow> Phase1Parameters" where
  "example_chunks system = parameters_new Chunked 0 2 (curve_parameters_new example_engine) system 2 2"

theorem chunked_ceremony_aggregates_witness:
  "case ceremony example_engine Yes No [example_key, example_key] (example_chunks Groth16) of
      Inl e \<Rightarrow> False
    | Inr content \<Rightarrow> deserialize example_engine content No CheckNo (new_full (curve_parameters_new example_engine) Groth16 2 2) =
        Inr (accumulator_of example_engine (new_full (curve_parameters_new example_engine) Groth16 2 2)
          (foldl key_mult key_one [example_key, example_key]))"
  by (rule chunked_ceremony_aggregates [OF example_engine_laws example_chunks_def]) simp_all

theorem aggregation_joins_chunks_witness:
  "\<exists>inputs. length inputs = 2 \<and> (case aggregation example_engine inputs (replicate 200 0, Yes) (example_chunks Marlin) of
      Inl e \<Rightarrow> False
    | Inr output' \<Rightarrow> length output' = 200 \<and>
        deserialize example_engine output' Yes CheckNo (new_full (curve_parameters_new example_engine) Marlin 2 2) =
          Inr (aggregated (map (\<lambda>k. accumulator_of example_engine (into_chunk_parameters (example_chunks Marlin) Chunked k 2) example_key) [0, 1])))"
proof -
  let ?q = "\<lambda>k. into_chunk_parameters (example_chunks Marlin) Chunked k 2"
  have n: "number_of_pieces (example_chunks Marlin) = 2" by (simp add: number_of_pieces_def example_chunks_def)
  have key: "foldl key_mult key_one [example_key] = example_key"
    by (simp add: key_mult_def key_one_def)
  obtain a where a: "deserialize example_engine a No CheckNo (?q 0) = Inr (accumulator_of example_engine (?q 0) example_key)"
    by (rule chunk_ceremony_ok [OF example_engine_laws example_chunks_def, of 0 Marlin No "[example_key]"]) (use n key in simp_all)
  obtain b where b: "deserialize example_engine b Yes CheckNo (?q 1) = Inr (accumulator_of example_engine (?q 1) example_key)"
    by (rule chunk_ceremony_ok [OF example_engine_laws example_chunks_def, of 1 Marlin Yes "[example_key]"]) (use n key in simp_all)
  let ?accs = "map (\<lambda>k. accumulator_of example_engine (?q k) example_key) [0, 1]"
  have len: "get_length (new_full (curve_parameters_new example_engine) Marlin 2 2) Yes \<le> 200"
    by (simp add: new_full_def parameters_new_def get_length_def chunk_sizes_def Let_def curve_parameters_new_def example_engine_def
        example_curve_def)
  have "case aggregation example_engine [(a, No), (b, Yes)] (replicate 200 0, Yes) (example_chunks Marlin) of
      Inl e \<Rightarrow> False
    | Inr output' \<Rightarrow> length output' = length (replicate 200 (0 :: u8)) \<and>
        deserialize example_engine output' Yes CheckNo (new_full (curve_parameters_new example_engine) Marlin 2 2) = Inr (aggregated ?accs)"
    by (rule aggregation_joins_chunks [OF example_engine_laws example_chunks_def])
      (use a b len accumulator_of_valid [OF example_engine_laws] in \<open>auto simp: less_Suc_eq\<close>)
  then show ?thesis by (intro exI [of _ "[(a, No), (b, Yes)]"]) (simp split: sum.splits)
qed

end
