(* ===== verification/Phase1_Aggregate_Verification.thy ===== *)
theory Phase1_Aggregate_Verification
  imports Phase1_Verification Phase1_Aggregation
begin

text \<open>
  \<^verbatim>\<open>phase1/src/verification.rs\<close>, \<^verbatim>\<open>aggregate_verification\<close>: the ratios of all elements of an aggregated
  accumulator. The random scalars are an argument: \<open>rng kind start\<close> are the draws for the elements of a kind
  in the batch that starts at \<open>start\<close>.
\<close>

section \<open>The checks\<close>

type_synonym 'f draws = "ElementType \<Rightarrow> usize \<Rightarrow> nat \<Rightarrow> 'f"

definition aggregate_verify_groth16 ::
  "('f, 'g::ab_group_add, 'h::ab_group_add, 't) PairingEngine \<Rightarrow> 'f ScalarOps \<Rightarrow> 'f draws \<Rightarrow>
   UseCompression \<times> CheckForCorrectness \<Rightarrow> Phase1Parameters \<Rightarrow> bytes SplitBuf \<Rightarrow> 'g \<times> 'g \<Rightarrow> 'h \<times> 'h \<Rightarrow>
   usize \<Rightarrow> usize \<Rightarrow> unit \<Rightarrow> unit or_error" where
  "aggregate_verify_groth16 E S rng cout ps s g1_check g2_check start end' u =
     (let g1 = replicate (p1_batch_size ps) 0; g2 = replicate (p1_batch_size ps) 0 in
      result_bind (expect_ok (check_power_ratios E S (rng TauG1 start) (tau_g1 s, cout) (start, end') g1 g2_check)) (\<lambda>_.
      if start < powers_length ps then
        (let end' = (if powers_length ps < start + p1_batch_size ps then powers_length ps else end') in
         result_bind (expect_ok (check_power_ratios_g2 E S (rng TauG2 start) (tau_g2 s, cout) (start, end') g2 g1_check)) (\<lambda>_.
         result_bind (expect_ok (check_power_ratios E S (rng AlphaG1 start) (alpha_g1 s, cout) (start, end') g1 g2_check)) (\<lambda>_.
           expect_ok (check_power_ratios E S (rng BetaG1 start) (beta_g1 s, cout) (start, end') g1 g2_check))))
      else Inr ()))"

definition powers_of_two_in_range :: "Phase1Parameters \<Rightarrow> usize \<Rightarrow> usize \<Rightarrow> (usize \<times> usize) list" where
  "powers_of_two_in_range ps start end' =
     filter (\<lambda>(_, p). start \<le> p \<and> p < end') (map (\<lambda>i. (i, degree_bound ps i)) [0..<total_size_in_log2 ps])"

definition check_degree_bound ::
  "('f, 'g::ab_group_add, 'h::ab_group_add, 't) PairingEngine \<Rightarrow> UseCompression \<times> CheckForCorrectness \<Rightarrow>
   bytes SplitBuf \<Rightarrow> 'h \<times> 'h \<Rightarrow> 'g \<times> 'g \<Rightarrow> usize \<times> usize \<Rightarrow> unit or_error" where
  "check_degree_bound E cout s g2_check g1_alpha_check bound =
     (let C1 = g1_affine E; C2 = g2_affine E; (i, p) = bound; (c, check) = cout;
          n1 = buffer_size C1 c; n2 = buffer_size C2 c
      in
      result_bind (slice (tau_g1 s) (p * n1) ((p + 1) * n1)) (\<lambda>buf.
      result_bind (expect_ok (read_element C1 c check buf)) (\<lambda>g1.
      result_bind (slice (tau_g2 s) ((2 + i) * n2) ((2 + i + 1) * n2)) (\<lambda>buf.
      result_bind (expect_ok (read_element C2 c check buf)) (\<lambda>g2.
      result_bind (expect_ok (check_same_ratio E (g1, prime_subgroup_generator C1) (prime_subgroup_generator C2, g2) ''G1<>G2'')) (\<lambda>_.
      result_bind (slice (alpha_g1 s) ((3 + 3 * i) * n1) ((3 + 3 * i + 3) * n1)) (\<lambda>buf.
      result_bind (expect_ok (read_batch_preallocated C1 c check buf [0, 0, 0])) (\<lambda>alpha.
      result_bind (expect_ok (check_same_ratio E (alpha ! 0, alpha ! 1) g2_check ''alpha_g1 ratio 1'')) (\<lambda>_.
      result_bind (expect_ok (check_same_ratio E (alpha ! 1, alpha ! 2) g2_check ''alpha_g1 ratio 2'')) (\<lambda>_.
        expect_ok (check_same_ratio E (alpha ! 0, fst g1_alpha_check) (prime_subgroup_generator C2, g2) ''alpha consistent'')))))))))))"

definition aggregate_verify_marlin ::
  "('f, 'g::ab_group_add, 'h::ab_group_add, 't) PairingEngine \<Rightarrow> 'f ScalarOps \<Rightarrow> 'f draws \<Rightarrow>
   UseCompression \<times> CheckForCorrectness \<Rightarrow> Phase1Parameters \<Rightarrow> bytes SplitBuf \<Rightarrow> 'g \<times> 'g \<Rightarrow> 'h \<times> 'h \<Rightarrow> 'g \<times> 'g \<Rightarrow>
   usize \<Rightarrow> usize \<Rightarrow> unit \<Rightarrow> unit or_error" where
  "aggregate_verify_marlin E S rng cout ps s g1_check g2_check g1_alpha_check start end' u =
     (let g1 = replicate (p1_batch_size ps) 0 in
      result_bind (expect_ok (check_power_ratios E S (rng TauG1 start) (tau_g1 s, cout) (start, end') g1 g2_check)) (\<lambda>_.
      result_bind (fold_results (\<lambda>bound _. check_degree_bound E cout s g2_check g1_alpha_check bound)
          (powers_of_two_in_range ps start end') ()) (\<lambda>_.
      if start = 0 then
        result_bind (expect_ok (check_power_ratios E S (rng AlphaG1 start) (alpha_g1 s, cout) (0, 3) [0, 0, 0] g2_check)) (\<lambda>_.
          expect_ok (check_power_ratios_g2 E S (rng TauG2 start) (tau_g2 s, cout) (0, 2) [0, 0, 0] g1_check))
      else Inr ())))"

definition aggregate_verification ::
  "('f, 'g::ab_group_add, 'h::ab_group_add, 't) PairingEngine \<Rightarrow> 'f ScalarOps \<Rightarrow> 'f draws \<Rightarrow>
   bytes \<times> UseCompression \<times> CheckForCorrectness \<Rightarrow> Phase1Parameters \<Rightarrow> unit or_error" where
  "aggregate_verification E S rng input ps =
     (let (output, c, check) = input in
      result_bind (split E output ps c) (\<lambda>s.
      result_bind (read_initial_elements (g1_affine E) (tau_g1 s) c check) (\<lambda>after_g1.
      result_bind (read_initial_elements (g2_affine E) (tau_g2 s) c check) (\<lambda>after_g2.
      result_bind (read_initial_elements (g1_affine E) (alpha_g1 s) c check) (\<lambda>after_alpha_g1.
        let g1_check = (after_g1 ! 0, after_g1 ! 1); g2_check = (after_g2 ! 0, after_g2 ! 1);
            g1_alpha_check = (after_alpha_g1 ! 0, after_alpha_g1 ! 1)
        in case p1_proving_system ps of
             Groth16 \<Rightarrow> iter_chunk ps (aggregate_verify_groth16 E S rng (c, check) ps s g1_check g2_check) ()
           | Marlin \<Rightarrow> iter_chunk ps (aggregate_verify_marlin E S rng (c, check) ps s g1_check g2_check g1_alpha_check) ())))))"

section \<open>Random combinations\<close>

text \<open>What the multi-exponentiation relies on: the integer of a scalar multiplies as the scalar.\<close>

definition scalar_laws :: "('f::field, 'g::ab_group_add, 'h::ab_group_add, 't) PairingEngine \<Rightarrow> 'f ScalarOps \<Rightarrow> bool" where
  "scalar_laws E S \<longleftrightarrow>
     (\<forall>a. to_repr S a < 2 ^ size_in_bits S) \<and>
     (\<forall>n. 32 \<le> n \<longrightarrow> n < 2 ^ 32 \<longrightarrow> 0 < ln_ceil S n \<and> ln_ceil S n \<le> 64) \<and>
     (\<forall>p a. in_subgroup (g1_affine E) p \<longrightarrow> nmul (to_repr S a) p = point_mul (g1_affine E) p a) \<and>
     (\<forall>p a. in_subgroup (g2_affine E) p \<longrightarrow> nmul (to_repr S a) p = point_mul (g2_affine E) p a)"

definition combination :: "('f, 'g::ab_group_add) AffineCurve \<Rightarrow> (nat \<Rightarrow> 'f) \<Rightarrow> 'g list \<Rightarrow> 'g" where
  "combination C r v = (\<Sum>i<length v. point_mul C (v ! i) (r i))"

definition ratio_holds :: "('f, 'g::ab_group_add) AffineCurve \<Rightarrow> (nat \<Rightarrow> 'f) \<Rightarrow> 'f \<Rightarrow> 'g list \<Rightarrow> bool" where
  "ratio_holds C r x v \<longleftrightarrow> combination C r (drop 1 v) = point_mul C (combination C r (take (length v - 1) v)) x"

definition powers_of :: "('f, 'g) AffineCurve \<Rightarrow> 'f \<Rightarrow> 'g list \<Rightarrow> bool" where
  "powers_of C x v \<longleftrightarrow> (\<forall>i. Suc i < length v \<longrightarrow> v ! Suc i = point_mul C (v ! i) x)"

lemma combination_subgroup:
  assumes "subgroup_laws C" "\<And>i. i < n \<Longrightarrow> in_subgroup C (f i)"
  shows "in_subgroup C (\<Sum>i<(n :: nat). f i)"
  using assms(2) by (induction n) (simp_all add: subgroup_lawsD [OF assms(1)])

lemma point_mul_sum:
  assumes "subgroup_laws C" "\<And>i. i < n \<Longrightarrow> in_subgroup C (f i)"
  shows "point_mul C (\<Sum>i<(n :: nat). f i) x = (\<Sum>i<n. point_mul C (f i) x)"
  using assms(2)
proof (induction n)
  case 0
  then show ?case by (simp add: point_mul_zero [OF assms(1)])
next
  case (Suc n)
  have "in_subgroup C (\<Sum>i<n. f i)" using Suc.prems by (intro combination_subgroup [OF assms(1)]) simp
  with Suc show ?case by (simp add: subgroup_lawsD(5) [OF assms(1)])
qed

lemma point_mul_diff:
  assumes "subgroup_laws C" "in_subgroup C p"
  shows "point_mul C p (a - b) = point_mul C p a - point_mul C p b"
  using subgroup_lawsD(6) [OF assms, of "a - b" b] by simp

lemma combination_mult:
  assumes laws: "subgroup_laws C" and v: "valid_points C check v" "length v' = length v" "\<And>i. i < length v \<Longrightarrow> v' ! i = point_mul C (v ! i) x"
  shows "combination C r v' = point_mul C (combination C r v) x"
proof -
  note c = curve_lawsD [OF subgroup_lawsD(1) [OF laws]]
  have sub: "in_subgroup C (v ! i)" if "i < length v" for i using v(1) that by (simp add: valid_points_def)
  have "combination C r v' = (\<Sum>i<length v. point_mul C (point_mul C (v ! i) (r i)) x)"
    unfolding combination_def v(2) using v(3) sub by (intro sum.cong refl) (simp add: c(4) mult.commute)
  also have "\<dots> = point_mul C (\<Sum>i<length v. point_mul C (v ! i) (r i)) x"
    using sub by (intro point_mul_sum [OF laws, symmetric]) (simp add: c(2))
  finally show ?thesis by (simp add: combination_def)
qed

lemma ratio_holds_powers:
  assumes "subgroup_laws C" "valid_points C check v" "powers_of C x v"
  shows "ratio_holds C r x v"
  unfolding ratio_holds_def
  by (rule combination_mult [OF assms(1), of check])
    (use assms(2,3) in \<open>auto simp: powers_of_def valid_points_def dest: in_set_takeD\<close>)

text \<open>A wrong ratio at one place is accepted for at most one value of the scalar at that place.\<close>

lemma sum_change_one:
  fixes f :: "nat \<Rightarrow> 'a \<Rightarrow> 'g::ab_group_add"
  assumes "j < n"
  shows "(\<Sum>i<n. f i ((r(j := a)) i)) - (\<Sum>i<n. f i ((r(j := b)) i)) = f j a - f j b"
proof -
  have "(\<Sum>i<n. f i ((r(j := c)) i)) = f j c + (\<Sum>i\<in>{..<n} - {j}. f i (r i))" for c
    using assms by (simp add: sum.remove [of _ j])
  then show ?thesis by simp
qed

lemma combination_unique:
  assumes laws: "subgroup_laws C" and v: "valid_points C check v" "valid_points C check v'" "length v' = length v" and j: "j < length v"
    and r: "combination C (r(j := a)) v' = point_mul C (combination C (r(j := a)) v) x"
      "combination C (r(j := b)) v' = point_mul C (combination C (r(j := b)) v) x" "a \<noteq> b"
  shows "v' ! j = point_mul C (v ! j) x"
proof -
  note c = curve_lawsD [OF subgroup_lawsD(1) [OF laws]]
  let ?n = "length v"
  have sub: "in_subgroup C (v ! i)" "in_subgroup C (v' ! i)" if "i < length v" for i using v that by (simp_all add: valid_points_def)
  note sj = sub [OF j]
  have eq: "(\<Sum>i<?n. point_mul C (v' ! i) (r i)) = (\<Sum>i<?n. point_mul C (v ! i) (r i * x))"
    if "combination C r v' = point_mul C (combination C r v) x" for r
    using that sub point_mul_sum [OF laws, of ?n "\<lambda>i. point_mul C (v ! i) (r i)" x] v(3) by (simp add: combination_def c(2,4))
  from sum_change_one [OF j, of "\<lambda>i y. point_mul C (v' ! i) y" r a b]
    sum_change_one [OF j, of "\<lambda>i y. point_mul C (v ! i) (y * x)" r a b]
  have "point_mul C (v' ! j) (a - b) = point_mul C (v ! j) ((a - b) * x)"
    using eq [OF r(1)] eq [OF r(2)] by (simp add: point_mul_diff [OF laws sj(1)] point_mul_diff [OF laws sj(2)] left_diff_distrib)
  then have "point_mul C (point_mul C (v' ! j) (a - b)) (inverse (a - b)) = point_mul C (point_mul C (v ! j) ((a - b) * x)) (inverse (a - b))"
    by simp
  moreover have "(a - b) * x * inverse (a - b) = x" using r(3) by simp
  ultimately show ?thesis using r(3) sj by (simp add: c(3,4))
qed

lemma ratio_holds_unique:
  assumes laws: "subgroup_laws C" and v: "valid_points C check v" and j: "Suc j < length v"
    and r: "ratio_holds C (r(j := a)) x v" "ratio_holds C (r(j := b)) x v" "a \<noteq> b"
  shows "v ! Suc j = point_mul C (v ! j) x"
proof -
  have "valid_points C check (take (length v - 1) v)" "valid_points C check (drop 1 v)"
    using v by (auto simp: valid_points_def dest: in_set_takeD in_set_dropD)
  from combination_unique [OF laws this, of j r a x b] r j show ?thesis by (simp add: ratio_holds_def)
qed

section \<open>What a check of ratios decides\<close>

lemma multiexp_combination:
  assumes "\<And>p a. in_subgroup C p \<Longrightarrow> nmul (to_repr S a) p = point_mul C p a" "valid_points C check v"
  shows "multiexp v (map (\<lambda>i. to_repr S (r i)) [0..<length v]) = combination C r v"
  using assms(2)
proof (induction v rule: rev_induct)
  case (snoc p v)
  then have "in_subgroup C p" by (simp add: valid_points_def)
  with snoc show ?case by (simp add: multiexp_append combination_def nth_append assms(1))
qed (simp add: combination_def)

lemma merge_pairs_value:
  assumes law: "\<And>p a. in_subgroup C p \<Longrightarrow> nmul (to_repr S a) p = point_mul C p a"
    and S: "\<And>a. to_repr S a < 2 ^ size_in_bits S" "\<And>n. 32 \<le> n \<Longrightarrow> n < 2 ^ 32 \<Longrightarrow> 0 < ln_ceil S n \<and> ln_ceil S n \<le> 64"
    and v: "valid_points C check v" "valid_points C check v'" "length v' = length v" "length v < 2 ^ 32"
  shows "merge_pairs S r v v' = Inr (combination C r v, combination C r v')"
proof -
  have "dense_multiexp (num_cpus S) (size_in_bits S) (ln_ceil S) w (map (\<lambda>i. to_repr S (r i)) [0..<length w]) = Some (combination C r w)"
    if w: "valid_points C check w" "length w < 2 ^ 32" for w
  proof -
    have "dense_multiexp (num_cpus S) (size_in_bits S) (ln_ceil S) w (map (\<lambda>i. to_repr S (r i)) [0..<length w]) =
        Some (multiexp w (map (\<lambda>i. to_repr S (r i)) [0..<length w]))"
      by (rule dense_multiexp_value) (use S w(2) in auto)
    then show ?thesis using multiexp_combination [OF law w(1), of r] by simp
  qed
  from this [OF v(1,4)] this [OF v(2)] v(3,4) show ?thesis by (simp add: merge_pairs_def Let_def)
qed

lemma power_pairs_value:
  assumes law: "\<And>p a. in_subgroup C p \<Longrightarrow> nmul (to_repr S a) p = point_mul C p a"
    and S: "\<And>a. to_repr S a < 2 ^ size_in_bits S" "\<And>n. 32 \<le> n \<Longrightarrow> n < 2 ^ 32 \<Longrightarrow> 0 < ln_ceil S n \<and> ln_ceil S n \<le> 64"
    and v: "valid_points C check v" "0 < length v" "length v \<le> 2 ^ 32"
  shows "power_pairs S r v = Inr (combination C r (take (length v - 1) v), combination C r (drop 1 v))"
proof -
  have "valid_points C check (take (length v - 1) v)" "valid_points C check (drop 1 v)"
    using v(1) by (auto simp: valid_points_def dest: in_set_takeD in_set_dropD)
  then have "merge_pairs S r (take (length v - 1) v) (drop 1 v) = Inr (combination C r (take (length v - 1) v), combination C r (drop 1 v))"
    by (intro merge_pairs_value [where check = check, OF law S]) (use v(2,3) in auto)
  then show ?thesis using v(2) by (simp add: power_pairs_def)
qed

lemma read_range_ok:
  assumes laws: "curve_laws C" and read: "reads C c check buf xs" and b: "s \<le> e" "e \<le> length xs" "e - s \<le> length els"
  shows "read_batch_range C (buf, c, check) (s, e) els = Inr (take (e - s) (drop s xs) @ drop (e - s) els)"
  unfolding read_batch_range_iff [OF curve_lawsD(5) [OF laws] conjunct1 [OF read [unfolded reads_def]] b(1,2)]
  using b read by (intro conjI exI [of _ "take (e - s) (drop s xs)"]) (auto simp: reads_def add.commute)

definition segment :: "'a list \<Rightarrow> nat \<Rightarrow> nat \<Rightarrow> 'a list" where
  "segment xs a b = take (b - a) (drop a xs)"

lemma segment_simps [simp]:
  "b \<le> length xs \<Longrightarrow> length (segment xs a b) = b - a"
  "b \<le> length xs \<Longrightarrow> i < b - a \<Longrightarrow> segment xs a b ! i = xs ! (a + i)"
  by (simp_all add: segment_def)

lemma segment_valid: "valid_points C check xs \<Longrightarrow> valid_points C check (segment xs a b)"
  by (auto simp: valid_points_def segment_def dest: in_set_takeD in_set_dropD)

lemma segment_powers: "powers_of C x xs \<Longrightarrow> b \<le> length xs \<Longrightarrow> powers_of C x (segment xs a b)"
  by (auto simp: powers_of_def)

lemma check_power_ratios_iff:
  assumes laws: "pairing_laws E" "scalar_laws E S" and read: "reads (g1_affine E) c check buf xs" "valid_points (g1_affine E) check' xs"
    and b: "a < b" "b \<le> length xs" "b - a \<le> length els" "b - a \<le> 2 ^ 32" and q: "in_subgroup (g2_affine E) q" "q \<noteq> 0"
  shows "check_power_ratios E S r (buf, c, check) (a, b) els (q, point_mul (g2_affine E) q x) = Inr () \<longleftrightarrow>
    ratio_holds (g1_affine E) r x (segment xs a b)"
proof -
  let ?C = "g1_affine E" and ?v = "segment xs a b"
  note l = pairing_lawsD(1) [OF laws(1)] and v = segment_valid [OF read(2), of a b]
  have sub: "in_subgroup ?C (combination ?C r w)" if "valid_points ?C check' w" for w
    using that unfolding combination_def
    by (intro combination_subgroup [OF l]) (auto simp: valid_points_def curve_lawsD(2) [OF subgroup_lawsD(1) [OF l]])
  have w: "valid_points ?C check' (take (b - a - 1) ?v)" "valid_points ?C check' (drop 1 ?v)"
    using v by (auto simp: valid_points_def dest: in_set_takeD in_set_dropD)
  have "power_pairs S r ?v = Inr (combination ?C r (take (length ?v - 1) ?v), combination ?C r (drop 1 ?v))"
    using laws(2) b by (intro power_pairs_value [OF _ _ _ v]) (auto simp: scalar_laws_def)
  moreover have "read_batch_range ?C (buf, c, check) (a, b) els = Inr (?v @ drop (b - a) els)"
    using read_range_ok [OF subgroup_lawsD(1) [OF l] read(1), of a b els] b by (simp add: segment_def)
  ultimately show ?thesis
    using b same_ratio_left [OF laws(1) sub [OF w(1)] sub [OF w(2)] q, of x]
    by (simp add: check_power_ratios_def ratio_holds_def)
qed

lemma check_power_ratios_g2_iff:
  assumes laws: "pairing_laws E" "scalar_laws E S" and read: "reads (g2_affine E) c check buf xs" "valid_points (g2_affine E) check' xs"
    and b: "a < b" "b \<le> length xs" "b - a \<le> length els" "b - a \<le> 2 ^ 32" and q: "in_subgroup (g1_affine E) q" "q \<noteq> 0"
  shows "check_power_ratios_g2 E S r (buf, c, check) (a, b) els (q, point_mul (g1_affine E) q x) = Inr () \<longleftrightarrow>
    ratio_holds (g2_affine E) r x (segment xs a b)"
proof -
  let ?C = "g2_affine E" and ?v = "segment xs a b"
  note l = pairing_lawsD(2) [OF laws(1)] and v = segment_valid [OF read(2), of a b]
  have sub: "in_subgroup ?C (combination ?C r w)" if "valid_points ?C check' w" for w
    using that unfolding combination_def
    by (intro combination_subgroup [OF l]) (auto simp: valid_points_def curve_lawsD(2) [OF subgroup_lawsD(1) [OF l]])
  have w: "valid_points ?C check' (take (b - a - 1) ?v)" "valid_points ?C check' (drop 1 ?v)"
    using v by (auto simp: valid_points_def dest: in_set_takeD in_set_dropD)
  have "power_pairs S r ?v = Inr (combination ?C r (take (length ?v - 1) ?v), combination ?C r (drop 1 ?v))"
    using laws(2) b by (intro power_pairs_value [OF _ _ _ v]) (auto simp: scalar_laws_def)
  moreover have "read_batch_range ?C (buf, c, check) (a, b) els = Inr (?v @ drop (b - a) els)"
    using read_range_ok [OF subgroup_lawsD(1) [OF l] read(1), of a b els] b by (simp add: segment_def)
  ultimately show ?thesis
    using b same_ratio_right [OF laws(1) sub [OF w(1)] sub [OF w(2)] q, of x]
    by (simp add: check_power_ratios_g2_def ratio_holds_def)
qed

section \<open>What a batch decides\<close>

text \<open>The elements that \<^verbatim>\<open>verification\<close> has checked to be nonzero points of the subgroups.\<close>

definition powers_valid ::
  "('f, 'g::ab_group_add, 'h::ab_group_add, 't) PairingEngine \<Rightarrow> ('g, 'h) AccumulatorElements \<Rightarrow> bool" where
  "powers_valid E acc \<longleftrightarrow>
     valid_points (g1_affine E) CheckFull (tau_powers_g1 acc) \<and> valid_points (g2_affine E) CheckFull (tau_powers_g2 acc) \<and>
     valid_points (g1_affine E) CheckFull (alpha_tau_powers_g1 acc) \<and> valid_points (g1_affine E) CheckFull (beta_tau_powers_g1 acc)"

definition degree_ratios ::
  "('f, 'g::ab_group_add, 'h::ab_group_add, 't) PairingEngine \<Rightarrow> ('g, 'h) AccumulatorElements \<Rightarrow> usize \<times> usize \<Rightarrow> bool" where
  "degree_ratios E acc bound \<longleftrightarrow>
     (let (i, p) = bound; g2 = tau_powers_g2 acc ! (2 + i); alpha = (\<lambda>k. alpha_tau_powers_g1 acc ! (3 + 3 * i + k));
          one_g2 = prime_subgroup_generator (g2_affine E); g2_check = (tau_powers_g2 acc ! 0, tau_powers_g2 acc ! 1)
      in same_ratio E (tau_powers_g1 acc ! p, prime_subgroup_generator (g1_affine E)) (one_g2, g2) \<and>
         same_ratio E (alpha 0, alpha 1) g2_check \<and> same_ratio E (alpha 1, alpha 2) g2_check \<and>
         same_ratio E (alpha 0, alpha_tau_powers_g1 acc ! 0) (one_g2, g2))"

definition batch_ratios ::
  "('f, 'g::ab_group_add, 'h::ab_group_add, 't) PairingEngine \<Rightarrow> 'f draws \<Rightarrow> Phase1Parameters \<Rightarrow>
   ('g, 'h) AccumulatorElements \<Rightarrow> 'f \<Rightarrow> 'f \<Rightarrow> usize \<times> usize \<Rightarrow> bool" where
  "batch_ratios E rng ps acc x y bounds \<longleftrightarrow>
     (let (a, b) = bounds; C1 = g1_affine E; C2 = g2_affine E; e = min (powers_length ps) (a + p1_batch_size ps) in
      ratio_holds C1 (rng TauG1 a) x (segment (tau_powers_g1 acc) a b) \<and>
      (case p1_proving_system ps of
         Groth16 \<Rightarrow> a < powers_length ps \<longrightarrow>
           ratio_holds C2 (rng TauG2 a) y (segment (tau_powers_g2 acc) a e) \<and>
           ratio_holds C1 (rng AlphaG1 a) x (segment (alpha_tau_powers_g1 acc) a e) \<and>
           ratio_holds C1 (rng BetaG1 a) x (segment (beta_tau_powers_g1 acc) a e)
       | Marlin \<Rightarrow>
           (\<forall>i<total_size_in_log2 ps. a \<le> degree_bound ps i \<and> degree_bound ps i < b \<longrightarrow> degree_ratios E acc (i, degree_bound ps i)) \<and>
           (a = 0 \<longrightarrow>
             ratio_holds C1 (rng AlphaG1 a) x (segment (alpha_tau_powers_g1 acc) 0 3) \<and>
             ratio_holds C2 (rng TauG2 a) y (segment (tau_powers_g2 acc) 0 2))))"

lemma expect_unit_iff: "result_bind (expect_ok m) f = Inr v \<longleftrightarrow> (\<exists>x. m = Inr x \<and> f x = Inr v)"
  by (cases m) simp_all

lemma full_parameters:
  assumes "ps = new_full cv system log2 batch"
  shows "ps = parameters_new ModeFull 0 0 cv system log2 batch" "iter_bounds ps = (0, total_size_in_g1 system log2)"
    "g1_chunk_size ps = total_size_in_g1 system log2" "powers_length ps = 2 ^ log2" "p1_batch_size ps = batch"
    "total_size_in_log2 ps = log2" "p1_proving_system ps = system"
    "other_elements ps = (case system of Groth16 \<Rightarrow> (2 ^ log2, 2 ^ log2, 2 ^ log2, 1) | Marlin \<Rightarrow> (log2 + 2, 3 + 3 * log2, 0, 0))"
  using assms
  by (cases system; simp add: new_full_def iter_bounds_def full_sizes other_elements_def marlin_sizes_def Let_def)+

lemma full_lengths:
  assumes "ps = new_full cv system log2 batch" "elements_shape E ps acc"
  shows "length (tau_powers_g1 acc) = total_size_in_g1 system log2"
    "system = Groth16 \<Longrightarrow> length (tau_powers_g2 acc) = 2 ^ log2 \<and> length (alpha_tau_powers_g1 acc) = 2 ^ log2 \<and>
       length (beta_tau_powers_g1 acc) = 2 ^ log2"
    "system = Marlin \<Longrightarrow> length (tau_powers_g2 acc) = log2 + 2 \<and> length (alpha_tau_powers_g1 acc) = 3 + 3 * log2"
  using assms(2) by (auto simp: elements_shape_def full_parameters(3,8) [OF assms(1)] split: ProvingSystem.splits)

lemma check_same_ratio_iff: "check_same_ratio E p q err = Inr () \<longleftrightarrow> same_ratio E p q"
  by (simp add: check_same_ratio_def same_ratio_def)

lemma groth16_batch_iff:
  assumes laws: "pairing_laws E" "scalar_laws E S" and ps: "ps = new_full cv Groth16 log2 batch" "batch \<le> 2 ^ 32"
    and s: "holds_elements E c check ps s acc" "powers_valid E acc"
    and x: "tau_powers_g2 acc ! 1 = point_mul (g2_affine E) (tau_powers_g2 acc ! 0) x"
    and y: "tau_powers_g1 acc ! 1 = point_mul (g1_affine E) (tau_powers_g1 acc ! 0) y"
    and ab: "a < b" "b = min (total_size_in_g1 Groth16 log2) (a + batch)"
  shows "aggregate_verify_groth16 E S rng (c, check) ps s (tau_powers_g1 acc ! 0, tau_powers_g1 acc ! 1)
      (tau_powers_g2 acc ! 0, tau_powers_g2 acc ! 1) a b u = Inr () \<longleftrightarrow> batch_ratios E rng ps acc x y (a, b)"
proof -
  note p = full_parameters [OF ps(1)] and r = s(1) [unfolded holds_elements_def] and v = s(2) [unfolded powers_valid_def]
  have shape: "elements_shape E ps acc" using r by simp
  note len = full_lengths [OF ps(1) shape]
  let ?P = "2 ^ log2 :: nat" and ?e = "min (2 ^ log2) (a + batch)"
  have PT: "?P \<le> total_size_in_g1 Groth16 log2" by simp
  have some: "0 < length (tau_powers_g1 acc)" "0 < length (tau_powers_g2 acc)" using len(1,2) total_size_pos [of Groth16 log2] by simp_all
  have q2: "in_subgroup (g2_affine E) (tau_powers_g2 acc ! 0)" "tau_powers_g2 acc ! 0 \<noteq> 0"
    and q1: "in_subgroup (g1_affine E) (tau_powers_g1 acc ! 0)" "tau_powers_g1 acc ! 0 \<noteq> 0"
    using v nth_mem [OF some(1)] nth_mem [OF some(2)] by (auto simp: valid_points_def accepted_def)
  have e: "(if ?P < a + batch then ?P else b) = ?e" using ab(2) PT by (auto simp: min_def)
  have w: "b - a \<le> batch" "b \<le> length (tau_powers_g1 acc)" "b - a \<le> 2 ^ 32" using ab len(1) ps(2) by simp_all
  note i1 = check_power_ratios_iff [OF laws _ _ _ _ _ _ q2, of c check _ _ CheckFull _ _ "replicate batch 0" _ x]
  note i2 = check_power_ratios_g2_iff [OF laws _ _ _ _ _ _ q1, of c check _ _ CheckFull _ _ "replicate batch 0" _ y]
  have t1: "check_power_ratios E S (rng TauG1 a) (tau_g1 s, c, check) (a, b) (replicate batch 0)
      (tau_powers_g2 acc ! 0, point_mul (g2_affine E) (tau_powers_g2 acc ! 0) x) = Inr () \<longleftrightarrow>
    ratio_holds (g1_affine E) (rng TauG1 a) x (segment (tau_powers_g1 acc) a b)"
    by (rule i1) (use r v w ab in simp_all)
  show ?thesis
  proof (cases "a < ?P")
    case True
    then have we: "a < ?e" "?e - a \<le> batch" "?e \<le> ?P" "?e - a \<le> 2 ^ 32" using ab ps(2) by auto
    have "check_power_ratios_g2 E S (rng TauG2 a) (tau_g2 s, c, check) (a, ?e) (replicate batch 0)
        (tau_powers_g1 acc ! 0, point_mul (g1_affine E) (tau_powers_g1 acc ! 0) y) = Inr () \<longleftrightarrow>
      ratio_holds (g2_affine E) (rng TauG2 a) y (segment (tau_powers_g2 acc) a ?e)"
      by (rule i2) (use r v we len(2) in simp_all)
    moreover have "check_power_ratios E S (rng AlphaG1 a) (alpha_g1 s, c, check) (a, ?e) (replicate batch 0)
        (tau_powers_g2 acc ! 0, point_mul (g2_affine E) (tau_powers_g2 acc ! 0) x) = Inr () \<longleftrightarrow>
      ratio_holds (g1_affine E) (rng AlphaG1 a) x (segment (alpha_tau_powers_g1 acc) a ?e)"
      by (rule i1) (use r v we len(2) in simp_all)
    moreover have "check_power_ratios E S (rng BetaG1 a) (beta_g1 s, c, check) (a, ?e) (replicate batch 0)
        (tau_powers_g2 acc ! 0, point_mul (g2_affine E) (tau_powers_g2 acc ! 0) x) = Inr () \<longleftrightarrow>
      ratio_holds (g1_affine E) (rng BetaG1 a) x (segment (beta_tau_powers_g1 acc) a ?e)"
      by (rule i1) (use r v we len(2) in simp_all)
    ultimately show ?thesis
      using t1 True unfolding aggregate_verify_groth16_def batch_ratios_def Let_def prod.case p(4-7) x y e
      by (simp add: expect_unit_iff)
  next
    case False
    then show ?thesis
      using t1 unfolding aggregate_verify_groth16_def batch_ratios_def Let_def prod.case p(4-7) x y
      by (simp add: expect_unit_iff)
  qed
qed

lemma slice_cell:
  assumes "reads C c check buf xs" "p < length xs"
  shows "slice buf (p * buffer_size C c) ((p + 1) * buffer_size C c) = Inr (cell (buffer_size C c) buf p)"
    "read_element C c check (cell (buffer_size C c) buf p) = Inr (xs ! p)"
proof -
  have "Suc p * buffer_size C c \<le> length xs * buffer_size C c" using assms(2) by (intro mult_right_mono) simp_all
  with assms(1) show "slice buf (p * buffer_size C c) ((p + 1) * buffer_size C c) = Inr (cell (buffer_size C c) buf p)"
    by (simp add: slice_def cell_def reads_def)
  show "read_element C c check (cell (buffer_size C c) buf p) = Inr (xs ! p)" using assms by (simp add: reads_def)
qed

lemma read_three:
  assumes laws: "curve_laws C" and read: "reads C c check buf xs" "k + 3 \<le> length xs"
  shows "\<exists>content. slice buf (k * buffer_size C c) ((k + 3) * buffer_size C c) = Inr content \<and>
    read_batch_preallocated C c check content [0, 0, 0] = Inr [xs ! (k + 0), xs ! (k + 1), xs ! (k + 2)]"
proof -
  let ?n = "buffer_size C c" and ?content = "take (3 * buffer_size C c) (drop (k * buffer_size C c) buf)"
  have le: "(k + 3) * ?n \<le> length buf" using read by (simp add: reads_def mult_right_mono)
  have l: "length ?content = 3 * ?n" using le by (simp add: add_mult_distrib)
  have "chunks_of ?n ?content = map (\<lambda>i. cell ?n buf (k + i)) [0..<3]"
    unfolding chunks_of_cells [OF curve_lawsD(5) [OF laws] l] by (intro map_cong refl) (simp add: cell_of_slice)
  then have "chunks_of ?n ?content = [cell ?n buf (k + 0), cell ?n buf (k + 1), cell ?n buf (k + 2)]" by (simp add: upt_rec)
  moreover have "slice buf (k * ?n) ((k + 3) * ?n) = Inr ?content" using le by (simp add: slice_def add_mult_distrib)
  ultimately show ?thesis
    using read by (simp add: read_batch_preallocated_def reads_def)
qed

lemma check_degree_bound_iff:
  assumes laws: "pairing_laws E"
    and s: "reads (g1_affine E) c check (tau_g1 s) (tau_powers_g1 acc)" "reads (g2_affine E) c check (tau_g2 s) (tau_powers_g2 acc)"
      "reads (g1_affine E) c check (alpha_g1 s) (alpha_tau_powers_g1 acc)"
    and i: "p < length (tau_powers_g1 acc)" "2 + i < length (tau_powers_g2 acc)" "3 + 3 * i + 3 \<le> length (alpha_tau_powers_g1 acc)"
  shows "check_degree_bound E (c, check) s (tau_powers_g2 acc ! 0, tau_powers_g2 acc ! 1) (alpha_tau_powers_g1 acc ! 0, a1) (i, p) = Inr () \<longleftrightarrow>
    degree_ratios E acc (i, p)"
proof -
  obtain content where content: "slice (alpha_g1 s) ((3 + 3 * i) * buffer_size (g1_affine E) c) ((3 + 3 * i + 3) * buffer_size (g1_affine E) c) = Inr content"
    "read_batch_preallocated (g1_affine E) c check content [0, 0, 0] =
       Inr [alpha_tau_powers_g1 acc ! (3 + 3 * i + 0), alpha_tau_powers_g1 acc ! (3 + 3 * i + 1), alpha_tau_powers_g1 acc ! (3 + 3 * i + 2)]"
    using read_three [OF subgroup_lawsD(1) [OF pairing_lawsD(1) [OF laws]] s(3) i(3)] by blast
  have nth: "[a, b, d] ! 0 = a" "[a, b, d] ! 1 = b" "[a, b, d] ! 2 = d" for a b d :: 'b by simp_all
  show ?thesis
    unfolding check_degree_bound_def degree_ratios_def Let_def prod.case slice_cell(1) [OF s(1) i(1)] slice_cell(1) [OF s(2) i(2)] content(1)
      result_bind_simps slice_cell(2) [OF s(1) i(1)] slice_cell(2) [OF s(2) i(2)] content(2) expect_ok_simps expect_unit_iff expect_ok_iff fst_conv nth
    using check_same_ratio_iff [of E] by simp
qed

lemma fold_results_unit: "fold_results f xs () = Inr () \<longleftrightarrow> (\<forall>x\<in>set xs. f x () = Inr ())"
  by (induction xs) (auto simp: result_bind_ok_iff)

lemma degree_bound_full:
  assumes "ps = new_full cv system log2 batch" "i < log2"
  shows "degree_bound ps i + 2 ^ i = 2 ^ log2 + 1"
proof -
  have "(2 :: nat) ^ i < 2 ^ log2" using assms(2) by simp
  then have "(2 :: nat) ^ i \<le> 2 ^ log2 - 1" "1 \<le> (2 :: nat) ^ log2" by linarith+
  then have "degree_bound ps i = 2 ^ log2 - 1 - 2 ^ i + 2" by (simp add: degree_bound_def full_parameters(4) [OF assms(1)])
  with \<open>(2 :: nat) ^ i < 2 ^ log2\<close> show ?thesis by linarith
qed

lemma ball_powers_of_two:
  "(\<forall>x\<in>set (powers_of_two_in_range ps a b). Q x) \<longleftrightarrow>
     (\<forall>i<total_size_in_log2 ps. a \<le> degree_bound ps i \<and> degree_bound ps i < b \<longrightarrow> Q (i, degree_bound ps i))"
  by (auto simp: powers_of_two_in_range_def)

lemma marlin_batch_iff:
  assumes laws: "pairing_laws E" "scalar_laws E S" and ps: "ps = new_full cv Marlin log2 batch" "batch \<le> 2 ^ 32"
    and s: "holds_elements E c check ps s acc" "powers_valid E acc"
    and x: "tau_powers_g2 acc ! 1 = point_mul (g2_affine E) (tau_powers_g2 acc ! 0) x"
    and y: "tau_powers_g1 acc ! 1 = point_mul (g1_affine E) (tau_powers_g1 acc ! 0) y"
    and ab: "a < b" "b = min (total_size_in_g1 Marlin log2) (a + batch)"
  shows "aggregate_verify_marlin E S rng (c, check) ps s (tau_powers_g1 acc ! 0, tau_powers_g1 acc ! 1)
      (tau_powers_g2 acc ! 0, tau_powers_g2 acc ! 1) (alpha_tau_powers_g1 acc ! 0, a1) a b u = Inr () \<longleftrightarrow>
    batch_ratios E rng ps acc x y (a, b)"
proof -
  note p = full_parameters [OF ps(1)] and r = s(1) [unfolded holds_elements_def] and v = s(2) [unfolded powers_valid_def]
  have shape: "elements_shape E ps acc" using r by simp
  note len = full_lengths [OF ps(1) shape]
  have some: "0 < length (tau_powers_g1 acc)" "0 < length (tau_powers_g2 acc)"
    using len(1,3) total_size_pos [of Marlin log2] by simp_all
  have q2: "in_subgroup (g2_affine E) (tau_powers_g2 acc ! 0)" "tau_powers_g2 acc ! 0 \<noteq> 0"
    and q1: "in_subgroup (g1_affine E) (tau_powers_g1 acc ! 0)" "tau_powers_g1 acc ! 0 \<noteq> 0"
    using v nth_mem [OF some(1)] nth_mem [OF some(2)] by (auto simp: valid_points_def accepted_def)
  have w: "b - a \<le> batch" "b \<le> length (tau_powers_g1 acc)" "b - a \<le> 2 ^ 32" using ab len(1) ps(2) by simp_all
  note i1 = check_power_ratios_iff [OF laws _ _ _ _ _ _ q2, of c check _ _ CheckFull _ _ _ _ x]
  note i2 = check_power_ratios_g2_iff [OF laws _ _ _ _ _ _ q1, of c check _ _ CheckFull _ _ _ _ y]
  have bound: "check_degree_bound E (c, check) s (tau_powers_g2 acc ! 0, tau_powers_g2 acc ! 1) (alpha_tau_powers_g1 acc ! 0, a1) (i, degree_bound ps i) =
      Inr () \<longleftrightarrow> degree_ratios E acc (i, degree_bound ps i)" if "i < log2" "degree_bound ps i < b" for i
    by (rule check_degree_bound_iff [OF laws(1)]) (use r w(2) len(3) that in simp_all)
  have "check_power_ratios E S (rng TauG1 a) (tau_g1 s, c, check) (a, b) (replicate batch 0)
      (tau_powers_g2 acc ! 0, point_mul (g2_affine E) (tau_powers_g2 acc ! 0) x) = Inr () \<longleftrightarrow>
    ratio_holds (g1_affine E) (rng TauG1 a) x (segment (tau_powers_g1 acc) a b)"
    by (rule i1) (use r v w ab in simp_all)
  moreover have "check_power_ratios E S (rng AlphaG1 a) (alpha_g1 s, c, check) (0, 3) [0, 0, 0]
      (tau_powers_g2 acc ! 0, point_mul (g2_affine E) (tau_powers_g2 acc ! 0) x) = Inr () \<longleftrightarrow>
    ratio_holds (g1_affine E) (rng AlphaG1 a) x (segment (alpha_tau_powers_g1 acc) 0 3)"
    by (rule i1) (use r v len(3) in simp_all)
  moreover have "check_power_ratios_g2 E S (rng TauG2 a) (tau_g2 s, c, check) (0, 2) [0, 0, 0]
      (tau_powers_g1 acc ! 0, point_mul (g1_affine E) (tau_powers_g1 acc ! 0) y) = Inr () \<longleftrightarrow>
    ratio_holds (g2_affine E) (rng TauG2 a) y (segment (tau_powers_g2 acc) 0 2)"
    by (rule i2) (use r v len(3) in simp_all)
  moreover have "fold_results (\<lambda>bound _. check_degree_bound E (c, check) s (tau_powers_g2 acc ! 0, tau_powers_g2 acc ! 1) (alpha_tau_powers_g1 acc ! 0, a1) bound)
      (powers_of_two_in_range ps a b) () = Inr () \<longleftrightarrow>
    (\<forall>i<log2. a \<le> degree_bound ps i \<and> degree_bound ps i < b \<longrightarrow> degree_ratios E acc (i, degree_bound ps i))"
    using bound by (simp add: fold_results_unit ball_powers_of_two p(6))
  ultimately show ?thesis
    unfolding aggregate_verify_marlin_def batch_ratios_def Let_def prod.case p(4-7) x [symmetric] y [symmetric]
    by (auto simp: expect_unit_iff result_bind_ok_iff)
qed

section \<open>What the verification of an aggregate decides\<close>

definition aggregate_ratios ::
  "('f, 'g::ab_group_add, 'h::ab_group_add, 't) PairingEngine \<Rightarrow> 'f draws \<Rightarrow> Phase1Parameters \<Rightarrow>
   ('g, 'h) AccumulatorElements \<Rightarrow> 'f \<Rightarrow> 'f \<Rightarrow> bool" where
  "aggregate_ratios E rng ps acc x y \<longleftrightarrow> (\<forall>bounds\<in>set (batches ps). batch_ratios E rng ps acc x y bounds)"

lemma full_nonempty:
  assumes "ps = new_full cv system log2 batch" "1 \<le> log2" "elements_shape E ps acc"
  shows "2 \<le> length (tau_powers_g1 acc)" "2 \<le> length (tau_powers_g2 acc)" "2 \<le> length (alpha_tau_powers_g1 acc)"
proof -
  have "2 \<le> (2 :: nat) ^ log2" using power_increasing [OF assms(2), of "2 :: nat"] by simp
  then show "2 \<le> length (tau_powers_g1 acc)" "2 \<le> length (tau_powers_g2 acc)" "2 \<le> length (alpha_tau_powers_g1 acc)"
    using full_lengths [OF assms(1,3)] by (cases system; simp)+
qed

lemma batches_within:
  assumes "iter_bounds ps = (lower, upper)" "2 \<le> p1_batch_size ps" "(a, b) \<in> set (batches ps)"
  shows "lower \<le> a" "a < b" "b = min upper (a + p1_batch_size ps)" "b \<le> upper"
proof -
  obtain j where j: "j < length (batches ps)" "batches ps ! j = (a, b)" using assms(3) by (auto simp: in_set_conv_nth)
  from batches_nth [OF assms(1,2) j(1)] j(2)
  show "lower \<le> a" "a < b" "b = min upper (a + p1_batch_size ps)" "b \<le> upper" by simp_all
qed

lemma aggregate_verification_iff:
  assumes laws: "pairing_laws E" "scalar_laws E S"
    and ps: "ps = new_full cv system log2 batch" "1 \<le> log2" "2 \<le> batch" "batch \<le> 2 ^ 32"
    and acc: "deserialize E content c check ps = Inr acc" "powers_valid E acc"
    and x: "tau_powers_g2 acc ! 1 = point_mul (g2_affine E) (tau_powers_g2 acc ! 0) x"
    and y: "tau_powers_g1 acc ! 1 = point_mul (g1_affine E) (tau_powers_g1 acc ! 0) y"
  shows "aggregate_verification E S rng (content, c, check) ps = Inr () \<longleftrightarrow> aggregate_ratios E rng ps acc x y"
proof -
  note p = full_parameters [OF ps(1)] and el = pairing_lawsD(3) [OF laws(1)]
  obtain s where s: "split E content ps c = Inr s" "holds_elements E c check ps s acc" by (rule deserialize_holds [OF el acc(1)])
  note r = s(2) [unfolded holds_elements_def]
  have len: "2 \<le> length (tau_powers_g1 acc)" "2 \<le> length (tau_powers_g2 acc)" "2 \<le> length (alpha_tau_powers_g1 acc)"
    using full_nonempty [OF ps(1,2), of E acc] r by simp_all
  note initial = read_initial_ok [OF engine_lawsD(1) [OF el], of c check "tau_g1 s" "tau_powers_g1 acc"]
    read_initial_ok [OF engine_lawsD(2) [OF el], of c check "tau_g2 s" "tau_powers_g2 acc"]
    read_initial_ok [OF engine_lawsD(1) [OF el], of c check "alpha_g1 s" "alpha_tau_powers_g1 acc"]
  have bs: "a < b \<and> b = min (total_size_in_g1 system log2) (a + batch)" if "(a, b) \<in> set (batches ps)" for a b
    using batches_within [OF p(2), unfolded p(5), OF ps(3) that] by blast
  note fold = iter_chunk_batches [OF p(2), unfolded p(5), OF ps(3)]
  show ?thesis
  proof (cases system)
    case Groth16
    let ?f = "aggregate_verify_groth16 E S rng (c, check) ps s (tau_powers_g1 acc ! 0, tau_powers_g1 acc ! 1) (tau_powers_g2 acc ! 0, tau_powers_g2 acc ! 1)"
    have "?f a b () = Inr () \<longleftrightarrow> batch_ratios E rng ps acc x y (a, b)" if "(a, b) \<in> set (batches ps)" for a b
      using bs [OF that] unfolding Groth16
      by (intro groth16_batch_iff [OF laws ps(1) [unfolded Groth16] ps(4) s(2) acc(2) x y]) blast+
    then have "fold_results (\<lambda>(a, b). ?f a b) (batches ps) () = Inr () \<longleftrightarrow> aggregate_ratios E rng ps acc x y"
      unfolding fold_results_unit aggregate_ratios_def by fast
    then show ?thesis using r s(1) len initial Groth16 p(7) by (simp add: aggregate_verification_def Let_def fold)
  next
    case Marlin
    let ?f = "aggregate_verify_marlin E S rng (c, check) ps s (tau_powers_g1 acc ! 0, tau_powers_g1 acc ! 1)
      (tau_powers_g2 acc ! 0, tau_powers_g2 acc ! 1) (alpha_tau_powers_g1 acc ! 0, alpha_tau_powers_g1 acc ! 1)"
    have "?f a b () = Inr () \<longleftrightarrow> batch_ratios E rng ps acc x y (a, b)" if "(a, b) \<in> set (batches ps)" for a b
      using bs [OF that] unfolding Marlin
      by (intro marlin_batch_iff [OF laws ps(1) [unfolded Marlin] ps(4) s(2) acc(2) x y]) blast+
    then have "fold_results (\<lambda>(a, b). ?f a b) (batches ps) () = Inr () \<longleftrightarrow> aggregate_ratios E rng ps acc x y"
      unfolding fold_results_unit aggregate_ratios_def by fast
    then show ?thesis using r s(1) len initial Marlin p(7) by (simp add: aggregate_verification_def Let_def fold)
  qed
qed

section \<open>The accumulator of secrets is accepted\<close>

lemma powers_of_map:
  assumes "subgroup_laws C" "\<And>i. Suc i < n \<Longrightarrow> w (Suc i) = w i * x"
  shows "powers_of C x (map (\<lambda>i. point_mul C (prime_subgroup_generator C) (w i)) [0..<n])"
  using assms(2) by (simp add: powers_of_def curve_lawsD [OF subgroup_lawsD(1) [OF assms(1)]])

lemma power_weight_full: "power_weight (new_full cv system log2 batch) key i = sk_tau key ^ i"
  by (simp add: power_weight_def first_element_def new_full_def)

lemma accumulator_groth16:
  assumes "ps = new_full cv Groth16 log2 batch" "pairing_laws E"
  shows "powers_of (g1_affine E) (sk_tau key) (tau_powers_g1 (accumulator_of E ps key))"
    "powers_of (g2_affine E) (sk_tau key) (tau_powers_g2 (accumulator_of E ps key))"
    "powers_of (g1_affine E) (sk_tau key) (alpha_tau_powers_g1 (accumulator_of E ps key))"
    "powers_of (g1_affine E) (sk_tau key) (beta_tau_powers_g1 (accumulator_of E ps key))"
  using assms(1) full_parameters(7) [OF assms(1)]
  by (auto simp: accumulator_of_def Let_def power_weight_full tau_g2_weight_def alpha_weight_def beta_weight_def
      split: prod.splits intro!: powers_of_map pairing_lawsD(1,2) [OF assms(2)])

lemma accumulator_marlin:
  assumes ps: "ps = new_full cv Marlin log2 batch" and laws: "pairing_laws E"
  shows "powers_of (g1_affine E) (sk_tau key) (tau_powers_g1 (accumulator_of E ps key))"
    "powers_of (g2_affine E) (sk_tau key) (segment (tau_powers_g2 (accumulator_of E ps key)) 0 2)"
    "powers_of (g1_affine E) (sk_tau key) (segment (alpha_tau_powers_g1 (accumulator_of E ps key)) 0 3)"
    "i < log2 + 2 \<Longrightarrow> tau_powers_g2 (accumulator_of E ps key) ! i = point_mul (g2_affine E) (prime_subgroup_generator (g2_affine E))
       (if i < 2 then sk_tau key ^ i else inverse (sk_tau key ^ degree_bound ps (i - 2)))"
    "i < 3 \<Longrightarrow> alpha_tau_powers_g1 (accumulator_of E ps key) ! i = point_mul (g1_affine E) (prime_subgroup_generator (g1_affine E)) (sk_tau key ^ i * sk_alpha key)"
    "i < log2 \<Longrightarrow> k < 3 \<Longrightarrow> alpha_tau_powers_g1 (accumulator_of E ps key) ! (3 + 3 * i + k) =
       point_mul (g1_affine E) (prime_subgroup_generator (g1_affine E)) (sk_tau key ^ (degree_bound ps i + k) * sk_alpha key)"
proof -
  note p = full_parameters [OF ps] and c = curve_lawsD [OF subgroup_lawsD(1) [OF pairing_lawsD(1) [OF laws]]]
    curve_lawsD [OF subgroup_lawsD(1) [OF pairing_lawsD(2) [OF laws]]]
  have o: "other_elements ps = (log2 + 2, 3 + 3 * log2, 0, 0)" by (simp add: p(8))
  show "powers_of (g1_affine E) (sk_tau key) (tau_powers_g1 (accumulator_of E ps key))"
    using power_weight_full [of cv Marlin log2 batch key, folded ps]
    by (auto simp: accumulator_of_def o Let_def intro!: powers_of_map pairing_lawsD(1) [OF laws])
  show g2: "tau_powers_g2 (accumulator_of E ps key) ! i = point_mul (g2_affine E) (prime_subgroup_generator (g2_affine E))
      (if i < 2 then sk_tau key ^ i else inverse (sk_tau key ^ degree_bound ps (i - 2)))" if "i < log2 + 2" for i
    using that by (simp add: accumulator_of_def o Let_def tau_g2_weight_def p(7) del: upt_Suc)
  show alpha: "alpha_tau_powers_g1 (accumulator_of E ps key) ! i = point_mul (g1_affine E) (prime_subgroup_generator (g1_affine E)) (sk_tau key ^ i * sk_alpha key)"
    if "i < 3" for i
    using that by (simp add: accumulator_of_def o Let_def alpha_weight_def p(7) del: upt_Suc)
  show "alpha_tau_powers_g1 (accumulator_of E ps key) ! (3 + 3 * i + k) =
      point_mul (g1_affine E) (prime_subgroup_generator (g1_affine E)) (sk_tau key ^ (degree_bound ps i + k) * sk_alpha key)"
    if "i < log2" "k < 3" for i k
  proof -
    have "(3 + 3 * i + k - 3) div 3 = i" "(3 + 3 * i + k - 3) mod 3 = k" using that(2) by auto
    with that show ?thesis by (simp add: accumulator_of_def o Let_def alpha_weight_def p(7) del: upt_Suc)
  qed
  have len: "length (tau_powers_g2 (accumulator_of E ps key)) = log2 + 2" "length (alpha_tau_powers_g1 (accumulator_of E ps key)) = 3 + 3 * log2"
    by (simp_all add: accumulator_of_def o Let_def)
  have zero_one: "0 < log2 + 2" "1 < log2 + 2" by simp_all
  show "powers_of (g2_affine E) (sk_tau key) (segment (tau_powers_g2 (accumulator_of E ps key)) 0 2)"
    using len(1) g2 [OF zero_one(1)] g2 [OF zero_one(2)] by (simp add: powers_of_def less_Suc_eq numeral_eq_Suc c)
  show "powers_of (g1_affine E) (sk_tau key) (segment (alpha_tau_powers_g1 (accumulator_of E ps key)) 0 3)"
    using len(2) by (auto simp: powers_of_def less_Suc_eq numeral_eq_Suc alpha c mult_ac)
qed

lemma accumulator_degree_ratios:
  assumes ps: "ps = new_full cv Marlin log2 batch" and laws: "pairing_laws E" and tau: "sk_tau key \<noteq> 0"
    and i: "i < log2" "degree_bound ps i < total_size_in_g1 Marlin log2"
  shows "degree_ratios E (accumulator_of E ps key) (i, degree_bound ps i)"
proof -
  let ?acc = "accumulator_of E ps key" and ?g = "prime_subgroup_generator (g1_affine E)" and ?h = "prime_subgroup_generator (g2_affine E)"
    and ?t = "sk_tau key" and ?p = "degree_bound ps i"
  note m = accumulator_marlin [OF ps laws] and c = curve_lawsD [OF subgroup_lawsD(1) [OF pairing_lawsD(1) [OF laws]]]
    and d = curve_lawsD [OF subgroup_lawsD(1) [OF pairing_lawsD(2) [OF laws]]]
  have ratio: "same_ratio E (point_mul (g1_affine E) ?g a, point_mul (g1_affine E) ?g (a * x)) (?h, point_mul (g2_affine E) ?h x)" for a x
    using same_ratio_left [OF laws, of "point_mul (g1_affine E) ?g a" "point_mul (g1_affine E) ?g (a * x)" ?h x]
      subgroup_lawsD(2) [OF pairing_lawsD(2) [OF laws]] c d(1)
    by (simp add: check_same_ratio_iff)
  have tp: "tau_powers_g1 ?acc ! ?p = point_mul (g1_affine E) ?g (?t ^ ?p)"
    using i(2) power_weight_full [of cv Marlin log2 batch key, folded ps] full_parameters(3) [OF ps]
    by (simp add: accumulator_of_def Let_def split: prod.splits)
  have g2: "tau_powers_g2 ?acc ! 0 = ?h" "tau_powers_g2 ?acc ! 1 = point_mul (g2_affine E) ?h ?t"
    "tau_powers_g2 ?acc ! (2 + i) = point_mul (g2_affine E) ?h (inverse (?t ^ ?p))"
    using m(4) [of 0] m(4) [of 1] m(4) [of "2 + i"] i(1) d by simp_all
  have al: "alpha_tau_powers_g1 ?acc ! (3 + 3 * i + k) = point_mul (g1_affine E) ?g (?t ^ (?p + k) * sk_alpha key)" if "k < 3" for k
    by (rule m(6) [OF i(1) that])
  have a0: "alpha_tau_powers_g1 ?acc ! 0 = point_mul (g1_affine E) ?g (sk_alpha key)" using m(5) [of 0 key] by simp
  have first: "same_ratio E (point_mul (g1_affine E) ?g (?t ^ ?p), ?g) (?h, point_mul (g2_affine E) ?h (inverse (?t ^ ?p)))"
    using ratio [of "?t ^ ?p" "inverse (?t ^ ?p)"] tau c(1,3) by simp
  have next_power: "same_ratio E (point_mul (g1_affine E) ?g (?t ^ (?p + k) * sk_alpha key), point_mul (g1_affine E) ?g (?t ^ (?p + k') * sk_alpha key))
      (?h, point_mul (g2_affine E) ?h ?t)" if "k' = Suc k" for k k'
    using that ratio [of "?t ^ (?p + k) * sk_alpha key" ?t] by (simp add: mult_ac)
  have last: "same_ratio E (point_mul (g1_affine E) ?g (?t ^ ?p * sk_alpha key), point_mul (g1_affine E) ?g (sk_alpha key))
      (?h, point_mul (g2_affine E) ?h (inverse (?t ^ ?p)))"
    using ratio [of "?t ^ ?p * sk_alpha key" "inverse (?t ^ ?p)"] tau by (simp add: mult.commute [of "?t ^ ?p"] mult.assoc)
  have three: "(0 :: nat) < 3" "(1 :: nat) < 3" "(2 :: nat) < 3" by simp_all
  show ?thesis
    unfolding degree_ratios_def Let_def prod.case tp g2 a0 al [OF three(1)] al [OF three(2)] al [OF three(3)]
    using first next_power [of 1 0] next_power [of 2 1] last by simp
qed

lemma deserialize_any_check:
  assumes "deserialize E content c CheckNo ps = Inr acc" "elements_valid E CheckFull acc"
  shows "deserialize E content c check ps = Inr acc"
proof -
  have batch: "read_batch C c check buf = Inr xs" if "read_batch C c CheckNo buf = Inr xs" "valid_points C CheckFull xs"
    for C :: "('x, 'y::ab_group_add) AffineCurve" and buf xs
    using that nth_mem [of _ xs] unfolding read_batch_def collect_results_nth
    by (auto simp: read_element_accepted [of _ _ check] valid_points_def accepted_def)
  show ?thesis
    using assms unfolding deserialize_def
    by (cases acc) (auto simp: result_bind_ok_iff elements_valid_def batch read_element_accepted [of _ _ check] valid_points_def accepted_def
        split: ProvingSystem.splits)
qed

lemma accumulator_nonzero:
  assumes laws: "pairing_laws E" and key: "sk_tau key \<noteq> 0" "sk_alpha key \<noteq> 0" "sk_beta key \<noteq> 0"
  shows "elements_valid E CheckFull (accumulator_of E ps key)"
  unfolding contribute_initial [symmetric]
proof (rule contribute_nonzero [OF laws _ key])
  note l = pairing_lawsD(1,2) [OF laws]
  show "elements_valid E CheckFull (initial_elements E ps)"
    using subgroup_lawsD(2) [OF l(1)] subgroup_lawsD(2) [OF l(2)] initial_elements_valid [OF pairing_lawsD(3) [OF laws], of ps]
    by (auto simp: elements_valid_def valid_points_def accepted_def initial_elements_def Let_def split: prod.splits)
qed

lemma accumulator_accepted:
  assumes laws: "pairing_laws E" "scalar_laws E S"
    and ps: "ps = new_full cv system log2 batch" "1 \<le> log2" "2 \<le> batch" "batch \<le> 2 ^ 32"
    and key: "sk_tau key \<noteq> 0" "sk_alpha key \<noteq> 0" "sk_beta key \<noteq> 0"
    and acc: "deserialize E content c check ps = Inr (accumulator_of E ps key)"
  shows "aggregate_verification E S rng (content, c, check) ps = Inr ()"
proof -
  let ?acc = "accumulator_of E ps key" and ?C1 = "g1_affine E" and ?C2 = "g2_affine E" and ?t = "sk_tau key"
  note l = pairing_lawsD(1,2) [OF laws(1)] and p = full_parameters [OF ps(1)] and el = pairing_lawsD(3) [OF laws(1)]
  have "elements_valid E CheckFull ?acc" by (rule accumulator_nonzero [OF laws(1) key])
  then have valid: "powers_valid E ?acc" by (simp add: powers_valid_def elements_valid_def)
  have shape: "elements_shape E ps ?acc"
    unfolding contribute_initial [symmetric] by (intro contribute_shape initial_elements_shape)
  have two: "2 \<le> length (tau_powers_g1 ?acc)" "2 \<le> length (tau_powers_g2 ?acc)" using full_nonempty [OF ps(1,2) shape] by simp_all
  note len = full_lengths [OF ps(1) shape]
  note holds = ratio_holds_powers [OF l(1) segment_valid] ratio_holds_powers [OF l(2) segment_valid]
    and v = valid [unfolded powers_valid_def]
  show ?thesis
  proof (cases system)
    case Groth16
    note g = accumulator_groth16 [OF ps(1) [unfolded Groth16] laws(1), where key = key]
    have "batch_ratios E rng ps ?acc ?t ?t (a, b)" if "(a, b) \<in> set (batches ps)" for a b
      using that batches_within [OF p(2), of a b] ps(3) v g len(1) len(2) [OF Groth16]
      by (auto simp: batch_ratios_def Let_def p Groth16 intro!: holds segment_powers)
    moreover have "tau_powers_g1 ?acc ! 1 = point_mul ?C1 (tau_powers_g1 ?acc ! 0) ?t" "tau_powers_g2 ?acc ! 1 = point_mul ?C2 (tau_powers_g2 ?acc ! 0) ?t"
      using g(1,2) two by (simp_all add: powers_of_def)
    ultimately show ?thesis
      using aggregate_verification_iff [OF laws ps acc valid, of ?t ?t rng] by (auto simp: aggregate_ratios_def)
  next
    case Marlin
    note g = accumulator_marlin [OF ps(1) [unfolded Marlin] laws(1), where key = key]
    have "batch_ratios E rng ps ?acc ?t ?t (a, b)" if "(a, b) \<in> set (batches ps)" for a b
      using that batches_within [OF p(2), of a b] ps(3) v g(1-3) len(1) accumulator_degree_ratios [OF ps(1) [unfolded Marlin] laws(1) key(1)]
      by (auto simp: batch_ratios_def Let_def p Marlin intro!: holds segment_powers ratio_holds_powers [OF l(1)] ratio_holds_powers [OF l(2)] segment_valid)
    moreover have "tau_powers_g1 ?acc ! 1 = point_mul ?C1 (tau_powers_g1 ?acc ! 0) ?t"
      using g(1) two by (simp add: powers_of_def)
    moreover have "tau_powers_g2 ?acc ! 1 = point_mul ?C2 (tau_powers_g2 ?acc ! 0) ?t"
      using g(2) two by (simp add: powers_of_def)
    ultimately show ?thesis
      using aggregate_verification_iff [OF laws ps acc valid, of ?t ?t rng] by (auto simp: aggregate_ratios_def)
  qed
qed

lemma product_nonzero:
  assumes "\<forall>key\<in>set keys. sk_tau key \<noteq> 0 \<and> sk_alpha key \<noteq> 0 \<and> sk_beta key \<noteq> 0"
    and "sk_tau k \<noteq> 0" "sk_alpha k \<noteq> 0" "sk_beta k \<noteq> 0"
  shows "sk_tau (foldl key_mult k keys) \<noteq> 0" "sk_alpha (foldl key_mult k keys) \<noteq> 0" "sk_beta (foldl key_mult k keys) \<noteq> 0"
  using assms by (induction keys arbitrary: k) (simp_all add: key_mult_def)

text \<open>
  C8. The aggregate of an honest ceremony is accepted. In both proving systems, for any number of contributors
  with nonzero secrets, any positive chunk size and any batch size from two to two to the power of 32: the
  chunks are initialized, contributed to and aggregated without an error, and the verification of the aggregate
  succeeds, whatever scalars it draws and with each of the checks on the points that are read.\<close>

theorem ceremony_aggregate_verifies:
  assumes "pairing_laws E" "scalar_laws E S"
    and "ps = parameters_new Chunked index sz (curve_parameters_new E) system log2 batch" "0 < sz" "2 \<le> batch" "batch \<le> 2 ^ 32" "1 \<le> log2"
    and "\<forall>key\<in>set keys. sk_tau key \<noteq> 0 \<and> sk_alpha key \<noteq> 0 \<and> sk_beta key \<noteq> 0"
  shows "result_bind (ceremony E c cout keys ps) (\<lambda>content.
    aggregate_verification E S rng (content, cout, check) (new_full (curve_parameters_new E) system log2 batch)) = Inr ()"
proof -
  let ?full = "new_full (curve_parameters_new E) system log2 batch"
  obtain content where content: "ceremony E c cout keys ps = Inr content"
    "deserialize E content cout CheckNo ?full = Inr (accumulator_of E ?full (foldl key_mult key_one keys))"
    by (rule ceremony_aggregates [OF pairing_lawsD(3) [OF assms(1)] assms(3-5)])
  have key: "sk_tau (foldl key_mult key_one keys) \<noteq> 0" "sk_alpha (foldl key_mult key_one keys) \<noteq> 0"
    "sk_beta (foldl key_mult key_one keys) \<noteq> 0"
    using product_nonzero [OF assms(8), of key_one] by (simp_all add: key_one_def)
  have "aggregate_verification E S rng (content, cout, check) ?full = Inr ()"
    by (rule accumulator_accepted [OF assms(1,2) refl assms(7,5,6) key])
      (rule deserialize_any_check [OF content(2) accumulator_nonzero [OF assms(1) key]])
  with content(1) show ?thesis by simp
qed

section \<open>What an accepted aggregate holds\<close>

text \<open>Every pair of neighbours is inside a batch: the batches overlap in one element.\<close>

lemma batches_cover:
  assumes bounds: "iter_bounds ps = (0, upper)" and batch: "2 \<le> p1_batch_size ps" and i: "i < upper"
  obtains a b where "(a, b) \<in> set (batches ps)" "a \<le> i" "Suc i < a + p1_batch_size ps" "i < b"
proof -
  let ?n = "p1_batch_size ps - 1"
  let ?j = "i div ?n"
  have "i < length (batches ps) * ?n" using batches_reach [OF bounds batch] i by simp
  then have j: "?j < length (batches ps)" by (rule less_mult_imp_div_less)
  obtain a b where ab: "batches ps ! ?j = (a, b)" by (cases "batches ps ! ?j")
  have mem: "(a, b) \<in> set (batches ps)" using nth_mem [OF j] ab by simp
  have a: "a = ?j * ?n" using batches_nth(1) [OF bounds batch j] ab by simp
  have "?j * ?n \<le> i" by (rule div_times_less_eq_dividend)
  moreover have "i < ?n + ?j * ?n" using batch by (intro dividend_less_div_times) simp
  ultimately have "a \<le> i" "Suc i < a + p1_batch_size ps" using batch unfolding a by linarith+
  then show thesis using that [OF mem] batches_within(3) [OF bounds batch mem] i by simp
qed

lemma forced_powers:
  assumes laws: "subgroup_laws C" and v: "valid_points C check v" "length v \<le> upper"
    and ps: "iter_bounds ps = (0, upper)" "2 \<le> p1_batch_size ps"
    and two: "\<And>a b j. (a, b) \<in> set (batches ps) \<Longrightarrow> a < length v \<Longrightarrow> \<exists>f r r'. r \<noteq> r' \<and>
      ratio_holds C (f(j := r)) x (segment v a (min (length v) (a + p1_batch_size ps))) \<and>
      ratio_holds C (f(j := r')) x (segment v a (min (length v) (a + p1_batch_size ps)))"
  shows "powers_of C x v"
  unfolding powers_of_def
proof (intro allI impI)
  fix i assume i: "Suc i < length v"
  then have "i < upper" using v(2) by simp
  then obtain a b where ab: "(a, b) \<in> set (batches ps)" "a \<le> i" "Suc i < a + p1_batch_size ps" by (rule batches_cover [OF ps])
  let ?e = "min (length v) (a + p1_batch_size ps)"
  have e: "Suc i < ?e" "a < length v" using i ab by simp_all
  from two [OF ab(1) e(2), of "i - a"] obtain f r r' where
    "r \<noteq> r'" "ratio_holds C (f(i - a := r)) x (segment v a ?e)" "ratio_holds C (f(i - a := r')) x (segment v a ?e)" by blast
  moreover have "Suc (i - a) < length (segment v a ?e)"
    using e(1) ab(2) unfolding segment_simps(1) [OF min.cobounded1] by linarith
  ultimately have "segment v a ?e ! Suc (i - a) = point_mul C (segment v a ?e ! (i - a)) x"
    by (intro ratio_holds_unique [OF laws segment_valid [OF v(1)], of "i - a" a ?e f r x r']) simp_all
  then show "v ! Suc i = point_mul C (v ! i) x" using e ab(2) by (simp add: Suc_diff_le [symmetric])
qed

lemma powers_of_nth:
  assumes "curve_laws C" "powers_of C x v" "v ! 0 = point_mul C (prime_subgroup_generator C) a" "i < length v"
  shows "v ! i = point_mul C (prime_subgroup_generator C) (x ^ i * a)"
  using assms(4)
proof (induction i)
  case (Suc i)
  then have "v ! Suc i = point_mul C (v ! i) x" using assms(2) by (simp add: powers_of_def)
  with Suc show ?case by (simp add: curve_lawsD [OF assms(1)] mult_ac)
qed (simp add: assms(3))

text \<open>An accumulator that agrees with the one of a key, on the elements that the verification reads for its ratios.\<close>

definition agrees ::
  "('f::field, 'g, 'h, 't) PairingEngine \<Rightarrow> Phase1Parameters \<Rightarrow> 'f PrivateKey \<Rightarrow> ('g, 'h) AccumulatorElements \<Rightarrow> bool" where
  "agrees E ps key acc \<longleftrightarrow>
     (let acc' = accumulator_of E ps key in
      tau_powers_g1 acc = tau_powers_g1 acc' \<and>
      (case p1_proving_system ps of
         Groth16 \<Rightarrow> tau_powers_g2 acc = tau_powers_g2 acc' \<and> alpha_tau_powers_g1 acc = alpha_tau_powers_g1 acc' \<and>
           beta_tau_powers_g1 acc = beta_tau_powers_g1 acc'
       | Marlin \<Rightarrow> (\<forall>i<total_size_in_log2 ps + 2. i \<noteq> 2 \<longrightarrow> tau_powers_g2 acc ! i = tau_powers_g2 acc' ! i) \<and>
           (\<forall>i<3 + 3 * total_size_in_log2 ps. i \<notin> {3, 4, 5} \<longrightarrow> alpha_tau_powers_g1 acc ! i = alpha_tau_powers_g1 acc' ! i)))"

lemma groth16_agrees:
  assumes ps: "ps = new_full cv Groth16 log2 batch" and laws: "curve_laws (g1_affine E)" "curve_laws (g2_affine E)" and shape: "elements_shape E ps acc"
    and first: "tau_powers_g1 acc ! 0 = prime_subgroup_generator (g1_affine E)" "tau_powers_g2 acc ! 0 = prime_subgroup_generator (g2_affine E)"
      "alpha_tau_powers_g1 acc ! 0 = point_mul (g1_affine E) (prime_subgroup_generator (g1_affine E)) a"
      "beta_tau_powers_g1 acc ! 0 = point_mul (g1_affine E) (prime_subgroup_generator (g1_affine E)) b"
    and powers: "powers_of (g1_affine E) x (tau_powers_g1 acc)" "powers_of (g2_affine E) x (tau_powers_g2 acc)"
      "powers_of (g1_affine E) x (alpha_tau_powers_g1 acc)" "powers_of (g1_affine E) x (beta_tau_powers_g1 acc)"
  shows "agrees E ps \<lparr>sk_tau = x, sk_alpha = a, sk_beta = b\<rparr> acc"
proof -
  note p = full_parameters [OF ps] and len = full_lengths [OF ps shape]
  let ?key = "\<lparr>sk_tau = x, sk_alpha = a, sk_beta = b\<rparr>"
  have w: "power_weight ps ?key i = x ^ i" "tau_g2_weight ps ?key i = x ^ i" "alpha_weight ps ?key i = x ^ i * a" "beta_weight ps ?key i = x ^ i * b" for i
    using power_weight_full [of cv Groth16 log2 batch ?key i, folded ps]
    by (simp_all add: tau_g2_weight_def alpha_weight_def beta_weight_def p(7))
  have ones: "tau_powers_g1 acc ! 0 = point_mul (g1_affine E) (prime_subgroup_generator (g1_affine E)) 1"
    "tau_powers_g2 acc ! 0 = point_mul (g2_affine E) (prime_subgroup_generator (g2_affine E)) 1"
    using first by (simp_all add: curve_lawsD [OF laws(1)] curve_lawsD [OF laws(2)])
  note n = powers_of_nth [OF laws(1) powers(1) ones(1)] powers_of_nth [OF laws(2) powers(2) ones(2)]
    powers_of_nth [OF laws(1) powers(3) first(3)] powers_of_nth [OF laws(1) powers(4) first(4)]
  show ?thesis
    using len(1,2) n unfolding agrees_def Let_def accumulator_of_def p(3,7,8)
    by (auto simp: w intro!: nth_equalityI)
qed

lemma degree_ratios_force:
  assumes laws: "pairing_laws E" and v: "powers_valid E acc" and i: "p < length (tau_powers_g1 acc)" "2 + i < length (tau_powers_g2 acc)"
      "3 + 3 * i + 3 \<le> length (alpha_tau_powers_g1 acc)" and ok: "degree_ratios E acc (i, p)"
    and x: "x \<noteq> 0" "tau_powers_g2 acc ! 0 = prime_subgroup_generator (g2_affine E)"
      "tau_powers_g2 acc ! 1 = point_mul (g2_affine E) (prime_subgroup_generator (g2_affine E)) x"
      "tau_powers_g1 acc ! p = point_mul (g1_affine E) (prime_subgroup_generator (g1_affine E)) (x ^ p)"
      "alpha_tau_powers_g1 acc ! 0 = point_mul (g1_affine E) (prime_subgroup_generator (g1_affine E)) a"
  shows "tau_powers_g2 acc ! (2 + i) = point_mul (g2_affine E) (prime_subgroup_generator (g2_affine E)) (inverse (x ^ p))"
    "k < 3 \<Longrightarrow> alpha_tau_powers_g1 acc ! (3 + 3 * i + k) = point_mul (g1_affine E) (prime_subgroup_generator (g1_affine E)) (x ^ (p + k) * a)"
proof -
  let ?C1 = "g1_affine E" and ?C2 = "g2_affine E"
  let ?g = "prime_subgroup_generator ?C1" and ?h = "prime_subgroup_generator ?C2" and ?q = "tau_powers_g2 acc ! (2 + i)"
    and ?al = "\<lambda>k. alpha_tau_powers_g1 acc ! (3 + 3 * i + k)"
  note l = pairing_lawsD(1,2) [OF laws] and c = curve_lawsD [OF subgroup_lawsD(1) [OF l(1)]] and d = curve_lawsD [OF subgroup_lawsD(1) [OF l(2)]]
    and nz = subgroup_lawsD(2) [OF l(1)] subgroup_lawsD(2) [OF l(2)]
  have q: "in_subgroup ?C2 ?q" using v nth_mem [OF i(2)] by (simp add: powers_valid_def valid_points_def)
  have al: "in_subgroup ?C1 (?al k)" if "k < 3" for k
    using v nth_mem [of "3 + 3 * i + k" "alpha_tau_powers_g1 acc"] i(3) that by (simp add: powers_valid_def valid_points_def)
  obtain z where z: "?q = point_mul ?C2 ?h z" using subgroup_lawsD(7) [OF l(2) q] by blast
  have left: "same_ratio E (r, r') (?h, point_mul ?C2 ?h y) \<longleftrightarrow> r' = point_mul ?C1 r y" if "in_subgroup ?C1 r" "in_subgroup ?C1 r'" for r r' y
    using same_ratio_left [OF laws that d(1) nz(2)] by (simp add: check_same_ratio_iff)
  have ok': "same_ratio E (tau_powers_g1 acc ! p, ?g) (?h, ?q)" "same_ratio E (?al 0, ?al 1) (?h, point_mul ?C2 ?h x)"
    "same_ratio E (?al 1, ?al 2) (?h, point_mul ?C2 ?h x)" "same_ratio E (?al 0, alpha_tau_powers_g1 acc ! 0) (?h, ?q)"
    using ok by (simp_all add: degree_ratios_def Let_def x(2,3) [unfolded One_nat_def])
  have "?g = point_mul ?C1 ?g (x ^ p * z)" using ok'(1) unfolding z x(4) by (subst (asm) left) (simp_all add: c)
  then have "point_mul ?C1 ?g (x ^ p * z - 1) = 0" using point_mul_diff [OF l(1) c(1), of "x ^ p * z" 1] c(1,3) by simp
  then have "x ^ p * z = 1" using point_mul_eq_0 [OF l(1) c(1)] nz(1) by simp
  then have zi: "z = inverse (x ^ p)" using inverse_unique [of "x ^ p" z] by simp
  then show "?q = point_mul ?C2 ?h (inverse (x ^ p))" using z by simp
  have "alpha_tau_powers_g1 acc ! 0 = point_mul ?C1 (?al 0) z"
    using ok'(4) al [of 0] unfolding z x(5) by (subst (asm) left) (simp_all add: c)
  then have "point_mul ?C1 (point_mul ?C1 (?al 0) z) (x ^ p) = point_mul ?C1 (point_mul ?C1 ?g a) (x ^ p)" by (simp add: x(5))
  then have a0: "?al 0 = point_mul ?C1 ?g (x ^ p * a)" using al [of 0] x(1) by (simp add: c zi mult_ac)
  have a1: "?al 1 = point_mul ?C1 (?al 0) x" "?al 2 = point_mul ?C1 (?al 1) x"
    using ok'(2,3) al [of 0] al [of 1] al [of 2] by (simp_all add: left)
  have "?al 1 = point_mul ?C1 ?g (x ^ (p + 1) * a)" unfolding a1(1) a0 by (simp add: c mult_ac)
  moreover from this have "?al 2 = point_mul ?C1 ?g (x ^ (p + 2) * a)" unfolding a1(2) by (simp add: c mult_ac)
  ultimately show "?al k = point_mul ?C1 ?g (x ^ (p + k) * a)" if "k < 3"
    using that a0 by (auto simp: less_Suc_eq numeral_3_eq_3 numeral_2_eq_2)
qed

lemma marlin_agrees:
  assumes ps: "ps = new_full cv Marlin log2 batch" and laws: "pairing_laws E" and shape: "elements_shape E ps acc" and v: "powers_valid E acc" and x: "x \<noteq> 0"
    and first: "tau_powers_g1 acc ! 0 = prime_subgroup_generator (g1_affine E)" "tau_powers_g2 acc ! 0 = prime_subgroup_generator (g2_affine E)"
      "tau_powers_g2 acc ! 1 = point_mul (g2_affine E) (prime_subgroup_generator (g2_affine E)) x"
      "alpha_tau_powers_g1 acc ! 0 = point_mul (g1_affine E) (prime_subgroup_generator (g1_affine E)) a"
    and powers: "powers_of (g1_affine E) x (tau_powers_g1 acc)" "powers_of (g1_affine E) x (segment (alpha_tau_powers_g1 acc) 0 3)"
    and degree: "\<And>i. 0 < i \<Longrightarrow> i < log2 \<Longrightarrow> degree_ratios E acc (i, degree_bound ps i)"
  shows "agrees E ps \<lparr>sk_tau = x, sk_alpha = a, sk_beta = 1\<rparr> acc"
proof -
  note p = full_parameters [OF ps] and len = full_lengths [OF ps shape]
  let ?key = "\<lparr>sk_tau = x, sk_alpha = a, sk_beta = 1\<rparr>"
  note m = accumulator_marlin [OF ps laws, where key = ?key]
    and c = curve_lawsD [OF subgroup_lawsD(1) [OF pairing_lawsD(1) [OF laws]]]
  have one: "tau_powers_g1 acc ! 0 = point_mul (g1_affine E) (prime_subgroup_generator (g1_affine E)) 1"
    using first(1) by (simp add: c)
  have t1: "tau_powers_g1 acc ! i = point_mul (g1_affine E) (prime_subgroup_generator (g1_affine E)) (x ^ i)"
    if "i < length (tau_powers_g1 acc)" for i
    using powers_of_nth [OF subgroup_lawsD(1) [OF pairing_lawsD(1) [OF laws]] powers(1) one that] by simp
  have bound: "degree_bound ps i < length (tau_powers_g1 acc)" if "0 < i" "i < log2" for i
    using degree_bound_full [OF ps that(2)] that(1) one_less_power [of "2 :: nat" i] len(1) by simp
  have force: "tau_powers_g2 acc ! (2 + i) = point_mul (g2_affine E) (prime_subgroup_generator (g2_affine E)) (inverse (x ^ degree_bound ps i))"
    "k < 3 \<Longrightarrow> alpha_tau_powers_g1 acc ! (3 + 3 * i + k) = point_mul (g1_affine E) (prime_subgroup_generator (g1_affine E)) (x ^ (degree_bound ps i + k) * a)"
    if "0 < i" "i < log2" for i k
    using degree_ratios_force [OF laws v bound [OF that] _ _ degree [OF that] x first(2,3) t1 [OF bound [OF that]] first(4)] that(2) len(3) by simp_all
  have "tau_powers_g1 acc = tau_powers_g1 (accumulator_of E ps ?key)"
    using t1 len(1) power_weight_full [of cv Marlin log2 batch ?key, folded ps]
    by (auto simp: accumulator_of_def Let_def p(3) split: prod.splits intro!: nth_equalityI)
  moreover have "tau_powers_g2 acc ! i = tau_powers_g2 (accumulator_of E ps ?key) ! i" if "i < log2 + 2" "i \<noteq> 2" for i
  proof -
    note i = that
    consider "i = 0" | "i = 1" | "2 < i" using i(2) by linarith
    then show ?thesis
    proof cases
      case 3
      then have "0 < i - 2" "i - 2 < log2" "2 + (i - 2) = i" using i(1) by simp_all
      then show ?thesis using force(1) [of "i - 2"] 3 m(4) [OF i(1)] by simp
    qed (use m(4) [OF i(1)] first(2,3) curve_lawsD [OF subgroup_lawsD(1) [OF pairing_lawsD(2) [OF laws]]] in simp_all)
  qed
  moreover have "alpha_tau_powers_g1 acc ! i = alpha_tau_powers_g1 (accumulator_of E ps ?key) ! i" if "i < 3 + 3 * log2" "i \<notin> {3, 4, 5}" for i
  proof (cases "i < 3")
    case True
    have "segment (alpha_tau_powers_g1 acc) 0 3 ! 0 = point_mul (g1_affine E) (prime_subgroup_generator (g1_affine E)) a"
      using first(4) len(3) by simp
    from powers_of_nth [OF subgroup_lawsD(1) [OF pairing_lawsD(1) [OF laws]] powers(2) this, of i] True len(3) m(5) [OF True]
    show ?thesis by simp
  next
    case False
    define i' k where ik: "i' = (i - 3) div 3" "k = (i - 3) mod 3"
    have i: "i = 3 + 3 * i' + k" "k < 3" using False unfolding ik by simp_all
    then have "0 < i'" "i' < log2" using that by auto
    with force(2) [of i' k] m(6) [of i' k] i show ?thesis by simp
  qed
  ultimately show ?thesis by (simp add: agrees_def Let_def p(6,7))
qed

text \<open>The draws with the scalar at one place replaced.\<close>

definition redraw :: "'f draws \<Rightarrow> ElementType \<Rightarrow> usize \<Rightarrow> nat \<Rightarrow> 'f \<Rightarrow> 'f draws" where
  "redraw rng kind start j r = rng(kind := (rng kind)(start := (rng kind start)(j := r)))"

lemma redraw_same [simp]: "redraw rng kind start j r kind start = (rng kind start)(j := r)"
  by (simp add: redraw_def)

lemma point_mul_inject:
  assumes "subgroup_laws C" "point_mul C (prime_subgroup_generator C) a = point_mul C (prime_subgroup_generator C) b"
  shows "a = b"
proof -
  note g = curve_lawsD(1) [OF subgroup_lawsD(1) [OF assms(1)]]
  have "point_mul C (prime_subgroup_generator C) (a - b) = 0" using assms by (simp add: point_mul_diff [OF assms(1) g])
  then show ?thesis using point_mul_eq_0 [OF assms(1) g] subgroup_lawsD(2) [OF assms(1)] by simp
qed

lemma logarithm:
  assumes "subgroup_laws C" "valid_points C check xs" "i < length xs"
  obtains a where "xs ! i = point_mul C (prime_subgroup_generator C) a"
  using subgroup_lawsD(7) [OF assms(1), of "xs ! i"] assms(2,3) by (auto simp: valid_points_def)

lemma list_forced:
  assumes C: "subgroup_laws C" "valid_points C check v" "length v \<le> upper" and ps: "iter_bounds ps = (0, upper)" "2 \<le> p1_batch_size ps"
    and two: "\<And>start j. \<exists>rng r r'. r \<noteq> r' \<and> aggregate_ratios E (redraw rng kind start j r) ps acc x y \<and>
      aggregate_ratios E (redraw rng kind start j r') ps acc x y"
    and imp: "\<And>rng a b. (a, b) \<in> set (batches ps) \<Longrightarrow> a < length v \<Longrightarrow> batch_ratios E rng ps acc x y (a, b) \<Longrightarrow>
      ratio_holds C (rng kind a) z (segment v a (min (length v) (a + p1_batch_size ps)))"
  shows "powers_of C z v"
proof (rule forced_powers [OF C ps])
  fix a b j assume ab: "(a, b) \<in> set (batches ps)" "a < length v"
  from two [of a j] obtain rng r r' where "r \<noteq> r'"
    "batch_ratios E (redraw rng kind a j r) ps acc x y (a, b)" "batch_ratios E (redraw rng kind a j r') ps acc x y (a, b)"
    using ab(1) unfolding aggregate_ratios_def by blast
  with imp [OF ab] show "\<exists>f r r'. r \<noteq> r' \<and> ratio_holds C (f(j := r)) z (segment v a (min (length v) (a + p1_batch_size ps))) \<and>
      ratio_holds C (f(j := r')) z (segment v a (min (length v) (a + p1_batch_size ps)))"
    using redraw_same by metis
qed

lemma aggregate_forced:
  assumes laws: "pairing_laws E" and ps: "ps = new_full cv system log2 batch" "1 \<le> log2" "2 \<le> batch"
    and acc: "elements_shape E ps acc" "powers_valid E acc"
    and first: "tau_powers_g1 acc ! 0 = prime_subgroup_generator (g1_affine E)" "tau_powers_g2 acc ! 0 = prime_subgroup_generator (g2_affine E)"
    and x: "tau_powers_g2 acc ! 1 = point_mul (g2_affine E) (tau_powers_g2 acc ! 0) x"
    and two: "\<And>kind start j. \<exists>rng r r'. r \<noteq> r' \<and> aggregate_ratios E (redraw rng kind start j r) ps acc x y \<and>
      aggregate_ratios E (redraw rng kind start j r') ps acc x y"
  shows "\<exists>key. agrees E ps key acc"
proof -
  let ?C1 = "g1_affine E" and ?C2 = "g2_affine E"
  note l = pairing_lawsD(1,2) [OF laws] and p = full_parameters [OF ps(1)] and len = full_lengths [OF ps(1) acc(1)] and v = acc(2) [unfolded powers_valid_def]
  have batch: "2 \<le> p1_batch_size ps" using ps(3) p(5) by simp
  note within = batches_within [OF p(2) batch] and sz = full_nonempty [OF ps(1,2) acc(1)]
  have forced: "powers_of C z w" if "subgroup_laws C" "valid_points C CheckFull w" "length w \<le> total_size_in_g1 system log2"
      "\<And>rng a b. (a, b) \<in> set (batches ps) \<Longrightarrow> a < length w \<Longrightarrow> batch_ratios E rng ps acc x y (a, b) \<Longrightarrow>
        ratio_holds C (rng k a) z (segment w a (min (length w) (a + p1_batch_size ps)))" for C :: "('a, 'x::ab_group_add) AffineCurve" and z w k
    by (rule list_forced [OF that(1-3) p(2) batch two]) (rule that(4))
  have t1: "powers_of ?C1 x (tau_powers_g1 acc)"
    by (rule forced [of _ _ TauG1, OF l(1)]) (use v len(1) within(3) in \<open>auto simp: batch_ratios_def Let_def\<close>)
  obtain a where a: "alpha_tau_powers_g1 acc ! 0 = point_mul ?C1 (prime_subgroup_generator ?C1) a"
    by (rule logarithm [OF l(1), of CheckFull "alpha_tau_powers_g1 acc" 0]) (use v sz(3) in auto)
  show ?thesis
  proof (cases system)
    case Groth16
    have "powers_of ?C2 y (tau_powers_g2 acc)"
      by (rule forced [of _ _ TauG2, OF l(2)]) (use v len(2) p Groth16 in \<open>auto simp: batch_ratios_def Let_def\<close>)
    moreover have "powers_of ?C1 x (alpha_tau_powers_g1 acc)"
      by (rule forced [of _ _ AlphaG1, OF l(1)]) (use v len(2) p Groth16 in \<open>auto simp: batch_ratios_def Let_def\<close>)
    moreover have "powers_of ?C1 x (beta_tau_powers_g1 acc)"
      by (rule forced [of _ _ BetaG1, OF l(1)]) (use v len(2) p Groth16 in \<open>auto simp: batch_ratios_def Let_def\<close>)
    moreover have "y = x"
      using calculation(1) sz(2) x first(2) by (intro point_mul_inject [OF l(2)]) (simp add: powers_of_def)
    moreover obtain b where b: "beta_tau_powers_g1 acc ! 0 = point_mul ?C1 (prime_subgroup_generator ?C1) b"
      by (rule logarithm [OF l(1), of CheckFull "beta_tau_powers_g1 acc" 0]) (use v len(2) Groth16 in auto)
    ultimately show ?thesis
      using groth16_agrees [OF ps(1) [unfolded Groth16] subgroup_lawsD(1) [OF l(1)] subgroup_lawsD(1) [OF l(2)] acc(1) first a b t1] by blast
  next
    case Marlin
    obtain b where zero: "(0, b) \<in> set (batches ps)"
      by (rule batches_cover [OF p(2) batch, of 0]) (use total_size_pos [of system log2] in auto)
    have "x \<noteq> 0"
      using x v sz(2) nth_mem [of 1 "tau_powers_g2 acc"] point_mul_zero(1) [OF l(2)] first(2) curve_lawsD(1) [OF subgroup_lawsD(1) [OF l(2)]]
      by (auto simp: valid_points_def accepted_def)
    moreover have "powers_of ?C1 x (segment (alpha_tau_powers_g1 acc) 0 3)"
      unfolding powers_of_def
    proof (intro allI impI)
      fix j assume j: "Suc j < length (segment (alpha_tau_powers_g1 acc) 0 3)"
      from two [of AlphaG1 0 j] obtain rng r r' where "r \<noteq> r'" "ratio_holds ?C1 ((rng AlphaG1 0)(j := r)) x (segment (alpha_tau_powers_g1 acc) 0 3)"
        "ratio_holds ?C1 ((rng AlphaG1 0)(j := r')) x (segment (alpha_tau_powers_g1 acc) 0 3)"
        using zero Marlin p(7) by (fastforce simp: aggregate_ratios_def batch_ratios_def Let_def)
      then show "segment (alpha_tau_powers_g1 acc) 0 3 ! Suc j = point_mul ?C1 (segment (alpha_tau_powers_g1 acc) 0 3 ! j) x"
        using v by (intro ratio_holds_unique [OF l(1) segment_valid j]) auto
    qed
    moreover have "degree_ratios E acc (i, degree_bound ps i)" if i: "0 < i" "i < log2" for i
    proof -
      have "degree_bound ps i < total_size_in_g1 system log2"
        using degree_bound_full [OF ps(1) i(2)] one_less_power [of "2 :: nat" i] i(1) Marlin by simp
      then obtain a b where "(a, b) \<in> set (batches ps)" "a \<le> degree_bound ps i" "degree_bound ps i < b" by (rule batches_cover [OF p(2) batch])
      with two [of TauG1 0 0] i(2) p(6,7) Marlin show ?thesis by (fastforce simp: aggregate_ratios_def batch_ratios_def Let_def)
    qed
    ultimately show ?thesis
      using marlin_agrees [OF ps(1) [unfolded Marlin] laws acc _ first x [unfolded first(2)] a t1] by blast
  qed
qed

lemma ratio_factors:
  assumes laws: "pairing_laws E" and ps: "ps = new_full cv system log2 batch" "1 \<le> log2" and acc: "elements_shape E ps acc" "powers_valid E acc"
  obtains x y where "tau_powers_g2 acc ! 1 = point_mul (g2_affine E) (tau_powers_g2 acc ! 0) x"
    "tau_powers_g1 acc ! 1 = point_mul (g1_affine E) (tau_powers_g1 acc ! 0) y"
proof -
  have points: "in_subgroup C (v ! 0) \<and> v ! 0 \<noteq> 0 \<and> in_subgroup C (v ! 1)" if "valid_points C CheckFull v" "2 \<le> length v"
    for C :: "('x, 'y::ab_group_add) AffineCurve" and v
  proof -
    have "0 < length v" "1 < length v" using that(2) by linarith+
    then have "v ! 0 \<in> set v" "v ! 1 \<in> set v" by (simp_all only: nth_mem)
    with that(1) show ?thesis by (simp add: valid_points_def accepted_def)
  qed
  note p1 = points [of "g1_affine E" "tau_powers_g1 acc"] and p2 = points [of "g2_affine E" "tau_powers_g2 acc"]
    and sz = full_nonempty [OF ps acc(1)] and v = acc(2) [unfolded powers_valid_def]
  obtain x where "tau_powers_g2 acc ! 1 = point_mul (g2_affine E) (tau_powers_g2 acc ! 0) x"
    by (rule multiple_exists [OF pairing_lawsD(2) [OF laws], of "tau_powers_g2 acc ! 0" "tau_powers_g2 acc ! 1"]) (use p2 v sz in auto)
  moreover obtain y where "tau_powers_g1 acc ! 1 = point_mul (g1_affine E) (tau_powers_g1 acc ! 0) y"
    by (rule multiple_exists [OF pairing_lawsD(1) [OF laws], of "tau_powers_g1 acc ! 0" "tau_powers_g1 acc ! 1"]) (use p1 v sz in auto)
  ultimately show thesis by (rule that)
qed

text \<open>
  C7. An accepted aggregate holds the powers of one secret. Let the elements of an aggregate be nonzero points of
  the subgroups and its first powers the generators, as the verification of the chunks ensures. Then there are
  secrets whose accumulator it agrees with - in Groth16 on all elements but beta in the second group, in Marlin
  on all but the elements of the largest degree bound -, or there is one scalar among those drawn such that,
  whatever the others are, at most one value of it makes the verification accept.\<close>

theorem aggregate_verification_sound:
  assumes laws: "pairing_laws E" "scalar_laws E S"
    and ps: "ps = new_full cv system log2 batch" "1 \<le> log2" "2 \<le> batch" "batch \<le> 2 ^ 32"
    and acc: "deserialize E content c check ps = Inr acc" "powers_valid E acc"
      "tau_powers_g1 acc ! 0 = prime_subgroup_generator (g1_affine E)" "tau_powers_g2 acc ! 0 = prime_subgroup_generator (g2_affine E)"
  shows "(\<exists>key. agrees E ps key acc) \<or>
    (\<exists>kind start j. \<forall>rng r r'. aggregate_verification E S (redraw rng kind start j r) (content, c, check) ps = Inr () \<longrightarrow>
       aggregate_verification E S (redraw rng kind start j r') (content, c, check) ps = Inr () \<longrightarrow> r = r')"
proof -
  obtain s where "holds_elements E c check ps s acc" by (rule deserialize_holds [OF pairing_lawsD(3) [OF laws(1)] acc(1)])
  then have shape: "elements_shape E ps acc" by (simp add: holds_elements_def)
  obtain x y where xy: "tau_powers_g2 acc ! 1 = point_mul (g2_affine E) (tau_powers_g2 acc ! 0) x"
    "tau_powers_g1 acc ! 1 = point_mul (g1_affine E) (tau_powers_g1 acc ! 0) y"
    by (rule ratio_factors [OF laws(1) ps(1,2) shape acc(2)])
  show ?thesis
    using aggregate_forced [OF laws(1) ps(1-3) shape acc(2-4) xy(1), of y]
    unfolding aggregate_verification_iff [OF laws ps acc(1,2) xy] by blast
qed

section \<open>The elements that are not checked\<close>

text \<open>The bound of degree 0 has the power \<open>2 ^ log2\<close>, which is after the last one in the first group of Marlin.\<close>

definition replace_unchecked :: "Phase1Parameters \<Rightarrow> 'h \<Rightarrow> 'g list \<Rightarrow> ('g, 'h) AccumulatorElements \<Rightarrow> ('g, 'h) AccumulatorElements" where
  "replace_unchecked ps q ys acc =
     (case p1_proving_system ps of
        Groth16 \<Rightarrow> acc\<lparr>acc_beta_g2 := q\<rparr>
      | Marlin \<Rightarrow> acc\<lparr>tau_powers_g2 := (tau_powers_g2 acc)[2 := q],
          alpha_tau_powers_g1 := (alpha_tau_powers_g1 acc)[3 := ys ! 0, 4 := ys ! 1, 5 := ys ! 2]\<rparr>)"

lemma batch_ratios_unchecked:
  assumes ps: "ps = new_full cv system log2 batch" and b: "b \<le> total_size_in_g1 system log2"
  shows "batch_ratios E rng ps (replace_unchecked ps q ys acc) x y (a, b) \<longleftrightarrow> batch_ratios E rng ps acc x y (a, b)"
proof (cases system)
  case Groth16
  then show ?thesis by (simp add: batch_ratios_def replace_unchecked_def full_parameters(7) [OF ps] Let_def)
next
  case Marlin
  note p = full_parameters(6,7) [OF ps]
  let ?acc = "replace_unchecked ps q ys acc"
  have seg: "segment (tau_powers_g2 ?acc) 0 2 = segment (tau_powers_g2 acc) 0 2" "segment (alpha_tau_powers_g1 ?acc) 0 3 = segment (alpha_tau_powers_g1 acc) 0 3"
    using Marlin p by (simp_all add: replace_unchecked_def segment_def)
  have "degree_ratios E ?acc (i, degree_bound ps i) \<longleftrightarrow> degree_ratios E acc (i, degree_bound ps i)"
    if "i < log2" "degree_bound ps i < b" for i
  proof -
    have "i \<noteq> 0" using degree_bound_full [OF ps that(1)] that(2) b Marlin by (cases i) auto
    then show ?thesis using Marlin p by (simp add: degree_ratios_def replace_unchecked_def Let_def)
  qed
  moreover have "tau_powers_g1 ?acc = tau_powers_g1 acc" using Marlin p by (simp add: replace_unchecked_def)
  ultimately show ?thesis using Marlin p seg by (auto simp: batch_ratios_def Let_def)
qed

text \<open>
  C35. The verification of an aggregate does not depend on beta in the second group (Groth16) nor on the elements
  of the largest degree bound (Marlin): when they are replaced by any other points, the same draws are
  accepted.\<close>

theorem aggregate_verification_unchecked:
  assumes laws: "pairing_laws E" "scalar_laws E S"
    and ps: "ps = new_full cv system log2 batch" "1 \<le> log2" "2 \<le> batch" "batch \<le> 2 ^ 32"
    and acc: "deserialize E content c check ps = Inr acc" "powers_valid E acc"
    and acc': "deserialize E content' c' check' ps = Inr (replace_unchecked ps q ys acc)" "powers_valid E (replace_unchecked ps q ys acc)"
  shows "aggregate_verification E S rng (content', c', check') ps = Inr () \<longleftrightarrow> aggregate_verification E S rng (content, c, check) ps = Inr ()"
proof -
  note p = full_parameters [OF ps(1)]
  obtain s where "holds_elements E c check ps s acc" by (rule deserialize_holds [OF pairing_lawsD(3) [OF laws(1)] acc(1)])
  then have shape: "elements_shape E ps acc" by (simp add: holds_elements_def)
  obtain x y where xy: "tau_powers_g2 acc ! 1 = point_mul (g2_affine E) (tau_powers_g2 acc ! 0) x"
    "tau_powers_g1 acc ! 1 = point_mul (g1_affine E) (tau_powers_g1 acc ! 0) y"
    by (rule ratio_factors [OF laws(1) ps(1,2) shape acc(2)])
  let ?acc = "replace_unchecked ps q ys acc"
  have same: "tau_powers_g1 ?acc = tau_powers_g1 acc" "tau_powers_g2 ?acc ! 0 = tau_powers_g2 acc ! 0" "tau_powers_g2 ?acc ! 1 = tau_powers_g2 acc ! 1"
    by (simp_all add: replace_unchecked_def split: ProvingSystem.splits)
  have "aggregate_ratios E rng ps ?acc x y \<longleftrightarrow> aggregate_ratios E rng ps acc x y"
    using batch_ratios_unchecked [OF ps(1)] batches_within(4) [OF p(2), unfolded p(5), OF ps(3)] by (fastforce simp: aggregate_ratios_def)
  then show ?thesis
    using aggregate_verification_iff [OF laws ps acc xy, of rng] aggregate_verification_iff [OF laws ps acc', of x y rng] xy same by simp
qed

section \<open>Examples\<close>

definition example_scalars :: "GF3 ScalarOps" where
  "example_scalars = \<lparr>to_repr = encode_GF3, size_in_bits = 2, num_cpus = 4, ln_ceil = (\<lambda>n. 3)\<rparr>"

lemma example_scalar_laws: "scalar_laws example_engine example_scalars"
proof -
  have products: "\<forall>p. p * Zero3 = 0" "\<forall>p. p * One3 = p" "\<forall>p. p * Two3 = p + p"
    by (simp_all only: all_GF3 zero_GF3_def times_GF3.simps plus_GF3.simps uminus_GF3.simps simp_thms)
  have "nmul (encode_GF3 a) p = p * a" for a p
    by (cases a) (simp_all only: products [rule_format] encode_GF3.simps nmul_simps numeral_2_eq_2 One_nat_def add_0_right)
  moreover have "encode_GF3 a < 4" for a by (cases a) simp_all
  ultimately show ?thesis by (simp add: scalar_laws_def example_scalars_def example_engine_def example_curve_def)
qed

definition example_full :: "ProvingSystem \<Rightarrow> Phase1Parameters" where
  "example_full system = new_full (curve_parameters_new example_engine) system 2 3"

lemma stored_exists:
  assumes "ps = new_full (curve_parameters_new E) system log2 batch" "engine_laws E" "elements_shape E ps acc" "elements_valid E check acc"
  obtains content where "deserialize E content c check ps = Inr acc"
proof -
  obtain s where s: "split_mut E (replicate (get_length ps c) 0) ps c = Inr s"
    using split_mut_exists [OF full_parameters(1) [OF assms(1)], of c "replicate (get_length ps c) 0"] by auto
  have "0 < g1_chunk_size ps" using full_parameters(3) [OF assms(1)] total_size_pos [of system log2] by simp
  moreover have "AccumulatorElements.truncate acc = acc" by (simp add: AccumulatorElements.truncate_def)
  ultimately show thesis using that stored_read_back(2) [OF assms(2-4) s] by simp
qed

theorem ceremony_aggregate_verifies_witness:
  "\<forall>rng. result_bind (ceremony example_engine Yes No [example_key, example_key] (example_chunks Marlin)) (\<lambda>content.
     aggregate_verification example_engine example_scalars rng (content, No, CheckFull)
       (new_full (curve_parameters_new example_engine) Marlin 2 2)) = Inr ()"
proof
  fix rng
  show "result_bind (ceremony example_engine Yes No [example_key, example_key] (example_chunks Marlin)) (\<lambda>content.
     aggregate_verification example_engine example_scalars rng (content, No, CheckFull)
       (new_full (curve_parameters_new example_engine) Marlin 2 2)) = Inr ()"
    by (rule ceremony_aggregate_verifies [OF example_pairing_laws example_scalar_laws example_chunks_def])
      (simp_all add: example_key_def zero_GF3_def)
qed

lemma example_accumulator:
  "elements_shape example_engine ps (accumulator_of example_engine ps example_key)"
  "elements_valid example_engine CheckFull (accumulator_of example_engine ps example_key)"
  "powers_valid example_engine (accumulator_of example_engine ps example_key)"
proof -
  show "elements_shape example_engine ps (accumulator_of example_engine ps example_key)"
    unfolding contribute_initial [symmetric] by (intro contribute_shape initial_elements_shape)
  show valid: "elements_valid example_engine CheckFull (accumulator_of example_engine ps example_key)"
    by (rule accumulator_nonzero [OF example_pairing_laws]) (simp_all add: example_key_def zero_GF3_def)
  then show "powers_valid example_engine (accumulator_of example_engine ps example_key)"
    by (simp add: powers_valid_def elements_valid_def)
qed

theorem aggregate_verification_sound_witness:
  "\<exists>content. deserialize example_engine content Yes CheckFull (example_full Groth16) =
      Inr (accumulator_of example_engine (example_full Groth16) example_key) \<and>
    ((\<exists>key. agrees example_engine (example_full Groth16) key (accumulator_of example_engine (example_full Groth16) example_key)) \<or>
     (\<exists>kind start j. \<forall>rng r r'.
       aggregate_verification example_engine example_scalars (redraw rng kind start j r) (content, Yes, CheckFull) (example_full Groth16) = Inr () \<longrightarrow>
       aggregate_verification example_engine example_scalars (redraw rng kind start j r') (content, Yes, CheckFull) (example_full Groth16) = Inr () \<longrightarrow>
       r = r'))"
proof -
  let ?ps = "example_full Groth16"
  obtain content where content: "deserialize example_engine content Yes CheckFull ?ps = Inr (accumulator_of example_engine ?ps example_key)"
    by (rule stored_exists [OF example_full_def example_engine_laws example_accumulator(1,2)])
  have first: "tau_powers_g1 (accumulator_of example_engine ?ps example_key) ! 0 = prime_subgroup_generator (g1_affine example_engine)"
    "tau_powers_g2 (accumulator_of example_engine ?ps example_key) ! 0 = prime_subgroup_generator (g2_affine example_engine)"
    by (simp_all add: accumulator_of_def example_full_def new_full_def parameters_new_def chunk_sizes_def other_elements_def
        power_weight_def tau_g2_weight_def first_element_def Let_def example_engine_def example_curve_def)
  show ?thesis
    using content aggregate_verification_sound [OF example_pairing_laws example_scalar_laws example_full_def _ _ _ content example_accumulator(3) first]
    by (intro exI [of _ content] conjI) simp_all
qed

lemma valid_points_update:
  "valid_points C check xs \<Longrightarrow> in_subgroup C p \<Longrightarrow> accepted check p \<Longrightarrow> valid_points C check (xs[i := p])"
  using set_update_subset_insert [of xs i p] by (auto simp: valid_points_def)

theorem aggregate_verification_unchecked_witness:
  "\<exists>content. deserialize example_engine content No CheckFull (example_full Marlin) =
      Inr (replace_unchecked (example_full Marlin) Two3 [Two3, Two3, Two3] (accumulator_of example_engine (example_full Marlin) example_key)) \<and>
    tau_powers_g2 (accumulator_of example_engine (example_full Marlin) example_key) ! 2 = One3 \<and>
    (\<forall>rng. aggregate_verification example_engine example_scalars rng (content, No, CheckFull) (example_full Marlin) = Inr ())"
proof -
  let ?ps = "example_full Marlin" and ?acc = "accumulator_of example_engine (example_full Marlin) example_key"
  let ?acc' = "replace_unchecked ?ps Two3 [Two3, Two3, Two3] ?acc"
  have system: "p1_proving_system ?ps = Marlin" by (rule full_parameters(7) [OF example_full_def])
  have point: "in_subgroup (g1_affine example_engine) Two3" "in_subgroup (g2_affine example_engine) Two3" "accepted CheckFull Two3"
    by (simp_all add: in_subgroup_def example_engine_def example_curve_def accepted_def zero_GF3_def)
  have valid: "elements_valid example_engine CheckFull ?acc'"
    using example_accumulator(2) [of ?ps] point
    by (auto simp: replace_unchecked_def system elements_valid_def numeral_2_eq_2 intro!: valid_points_update)
  moreover have "elements_shape example_engine ?ps ?acc'"
    using example_accumulator(1) [of ?ps] by (simp add: replace_unchecked_def system elements_shape_def Let_def split: prod.splits)
  ultimately obtain content' where content': "deserialize example_engine content' No CheckFull ?ps = Inr ?acc'"
    using stored_exists [OF example_full_def example_engine_laws, of Marlin ?acc' CheckFull No] by blast
  obtain content where content: "deserialize example_engine content No CheckFull ?ps = Inr ?acc"
    by (rule stored_exists [OF example_full_def example_engine_laws example_accumulator(1,2)])
  have "aggregate_verification example_engine example_scalars rng (content, No, CheckFull) ?ps = Inr ()" for rng
    by (rule accumulator_accepted [OF example_pairing_laws example_scalar_laws example_full_def _ _ _ _ _ _ content])
      (simp_all add: example_key_def zero_GF3_def)
  moreover have "powers_valid example_engine ?acc'" using valid by (simp add: powers_valid_def elements_valid_def)
  ultimately have "aggregate_verification example_engine example_scalars rng (content', No, CheckFull) ?ps = Inr ()" for rng
    using aggregate_verification_unchecked [OF example_pairing_laws example_scalar_laws example_full_def _ _ _ content example_accumulator(3) content', of rng]
    by simp
  moreover have "tau_powers_g2 ?acc ! 2 = One3"
    using accumulator_marlin(4) [OF example_full_def example_pairing_laws, of 2 example_key] degree_bound_full [OF example_full_def, of 0 Marlin]
    by (simp add: example_key_def example_engine_def example_curve_def inverse_GF3_def one_GF3_def numeral_eq_Suc)
  ultimately show ?thesis using content' by blast
qed

end
