(* ===== verification/Phase2_Keys.thy ===== *)
theory Phase2_Keys
  imports Phase1_Aggregate_Verification
begin

text \<open>
  \<^verbatim>\<open>phase2/src/keypair.rs\<close>: the key pairs of phase 2, their stored form and the hash of the transcript
  that a public key is bound to. A reader is the bytes that are left; the hash of what is written
  (\<^verbatim>\<open>HashWriter\<close>, BLAKE2b), hexadecimal coding and hashing to the curve are parameters.
\<close>

record 'h Phase2Ops =
  hash_writer :: "bytes \<Rightarrow> bytes"
  hex_of :: "bytes \<Rightarrow> string"
  hash_to_curve :: "string \<Rightarrow> 'h"

record ('g, 'h) Phase2PublicKey =
  delta_after :: 'g
  key_s :: 'g
  s_delta :: 'g
  r_delta :: 'h
  transcript :: bytes

section \<open>Writing and reading\<close>

definition phase2_key_bytes :: "('f, 'g, 'h, 't) PairingEngine \<Rightarrow> ('g, 'h) Phase2PublicKey \<Rightarrow> bytes" where
  "phase2_key_bytes E key =
     to_bytes (g1_affine E) No (delta_after key) @ to_bytes (g1_affine E) No (key_s key) @
     to_bytes (g1_affine E) No (s_delta key) @ to_bytes (g2_affine E) No (r_delta key) @ transcript key"

definition phase2_key_hash :: "('f, 'g, 'h, 't) PairingEngine \<Rightarrow> 'h Phase2Ops \<Rightarrow> ('g, 'h) Phase2PublicKey \<Rightarrow> bytes" where
  "phase2_key_hash E ops key = hash_writer ops (phase2_key_bytes E key)"

definition phase2_key_size :: "('f, 'g, 'h, 't) PairingEngine \<Rightarrow> usize" where
  "phase2_key_size E = 3 * uncompressed_size (g1_affine E) + uncompressed_size (g2_affine E) + 64"

text \<open>\<^verbatim>\<open>write_u32::<BigEndian>(n as u32)\<close>: the cast keeps the lowest 32 bits.\<close>

definition u32_bytes :: "nat \<Rightarrow> bytes" where
  "u32_bytes n = [n div 2 ^ 24 mod 256, n div 2 ^ 16 mod 256, n div 2 ^ 8 mod 256, n mod 256]"

definition read_u32 :: "bytes \<Rightarrow> (nat \<times> bytes) or_error" where
  "read_u32 r =
     (case r of a # b # c # d # rest \<Rightarrow> Inr (a * 2 ^ 24 + b * 2 ^ 16 + c * 2 ^ 8 + d, rest) | _ \<Rightarrow> Inl IoError)"

definition write_keys :: "('f, 'g, 'h, 't) PairingEngine \<Rightarrow> ('g, 'h) Phase2PublicKey list \<Rightarrow> bytes" where
  "write_keys E keys = u32_bytes (length keys) @ concat (map (phase2_key_bytes E) keys)"

definition read_point ::
  "('f, 'g::ab_group_add) AffineCurve \<Rightarrow> UseCompression \<Rightarrow> CheckForCorrectness \<Rightarrow> bytes \<Rightarrow> ('g \<times> bytes) or_error" where
  "read_point C c check r = result_bind (read_element C c check r) (\<lambda>p. Inr (p, drop (buffer_size C c) r))"

definition read_exact :: "nat \<Rightarrow> bytes \<Rightarrow> (bytes \<times> bytes) or_error" where
  "read_exact n r = (if length r < n then Inl IoError else Inr (take n r, drop n r))"

definition phase2_key_read ::
  "('f, 'g::ab_group_add, 'h::ab_group_add, 't) PairingEngine \<Rightarrow> bytes \<Rightarrow> (('g, 'h) Phase2PublicKey \<times> bytes) or_error" where
  "phase2_key_read E r =
     result_bind (read_point (g1_affine E) No CheckFull r) (\<lambda>(d, r).
     result_bind (read_point (g1_affine E) No CheckFull r) (\<lambda>(s, r).
     result_bind (read_point (g1_affine E) No CheckFull r) (\<lambda>(sd, r).
     result_bind (read_point (g2_affine E) No CheckFull r) (\<lambda>(rd, r).
     result_bind (read_exact 64 r) (\<lambda>(t, r).
       Inr (\<lparr>delta_after = d, key_s = s, s_delta = sd, r_delta = rd, transcript = t\<rparr>, r))))))"

fun read_keys_loop ::
  "('f, 'g::ab_group_add, 'h::ab_group_add, 't) PairingEngine \<Rightarrow> nat \<Rightarrow> bytes \<Rightarrow> (('g, 'h) Phase2PublicKey list \<times> bytes) or_error" where
  "read_keys_loop E 0 r = Inr ([], r)"
| "read_keys_loop E (Suc n) r =
     result_bind (phase2_key_read E r) (\<lambda>(key, r).
     result_bind (read_keys_loop E n r) (\<lambda>(keys, r). Inr (key # keys, r)))"

definition read_keys ::
  "('f, 'g::ab_group_add, 'h::ab_group_add, 't) PairingEngine \<Rightarrow> bytes \<Rightarrow> (('g, 'h) Phase2PublicKey list \<times> bytes) or_error" where
  "read_keys E r = result_bind (read_u32 r) (\<lambda>(n, r). read_keys_loop E n r)"

section \<open>Key pairs\<close>

definition hash_cs_pubkeys ::
  "('f, 'g, 'h, 't) PairingEngine \<Rightarrow> 'h Phase2Ops \<Rightarrow> bytes \<Rightarrow> ('g, 'h) Phase2PublicKey list \<Rightarrow> 'g \<Rightarrow> 'g \<Rightarrow> bytes" where
  "hash_cs_pubkeys E ops cs_hash keys s sd =
     hash_writer ops (cs_hash @ concat (map (phase2_key_bytes E) keys) @
       to_bytes (g1_affine E) Yes s @ to_bytes (g1_affine E) Yes sd)"

text \<open>The point in G2 that a transcript is hashed to.\<close>

definition transcript_point :: "'h Phase2Ops \<Rightarrow> bytes \<Rightarrow> 'h" where
  "transcript_point ops hash = hash_to_curve ops (hex_of ops hash)"

text \<open>The secret and the point \<open>s\<close> are drawn at random; the private key is the secret.\<close>

definition keypair_new ::
  "('f, 'g, 'h, 't) PairingEngine \<Rightarrow> 'h Phase2Ops \<Rightarrow> 'g \<Rightarrow> bytes \<Rightarrow> ('g, 'h) Phase2PublicKey list \<Rightarrow> 'f \<times> 'g \<Rightarrow>
   ('g, 'h) Phase2PublicKey \<times> 'f" where
  "keypair_new E ops delta_g1 cs_hash keys draws =
     (let (delta, s) = draws;
          sd = point_mul (g1_affine E) s delta;
          t = hash_cs_pubkeys E ops cs_hash keys s sd;
          r = transcript_point ops t
      in (\<lparr>delta_after = point_mul (g1_affine E) delta_g1 delta, key_s = s, s_delta = sd,
           r_delta = point_mul (g2_affine E) r delta, transcript = t\<rparr>, delta))"

section \<open>Keys are read back\<close>

definition key_valid ::
  "('f, 'g::ab_group_add, 'h::ab_group_add, 't) PairingEngine \<Rightarrow> ('g, 'h) Phase2PublicKey \<Rightarrow> bool" where
  "key_valid E key \<longleftrightarrow>
     valid_points (g1_affine E) CheckFull [delta_after key, key_s key, s_delta key] \<and>
     valid_points (g2_affine E) CheckFull [r_delta key] \<and> length (transcript key) = 64"

lemma read_point_written:
  assumes "curve_laws C" "valid_points C check [p]"
  shows "read_point C c check (to_bytes C c p @ rest) = Inr (p, rest)"
proof -
  have "read_element C c check (to_bytes C c p @ rest) = Inr p"
    unfolding read_element_accepted [of _ _ check] using assms read_element_written [OF assms(1), of p c rest] by (simp add: valid_points_def)
  then show ?thesis using assms by (simp add: read_point_def valid_points_def curve_lawsD)
qed

lemma phase2_key_written:
  assumes "engine_laws E" "key_valid E key"
  shows "phase2_key_read E (phase2_key_bytes E key @ rest) = Inr (key, rest)"
  using assms
  by (auto simp: phase2_key_read_def phase2_key_bytes_def key_valid_def read_exact_def valid_points_def
      read_point_written [OF engine_lawsD(1) [OF assms(1)]] read_point_written [OF engine_lawsD(2) [OF assms(1)]])

lemma read_keys_written:
  assumes "engine_laws E" "\<forall>key\<in>set keys. key_valid E key"
  shows "read_keys_loop E (length keys) (concat (map (phase2_key_bytes E) keys) @ rest) = Inr (keys, rest)"
  using assms(2) by (induction keys) (simp_all add: phase2_key_written [OF assms(1)])

lemma u32_read:
  assumes "n < 2 ^ 32"
  shows "read_u32 (u32_bytes n @ rest) = Inr (n, rest)"
proof -
  have "n div 16777216 < 256" using assms by (simp add: less_mult_imp_div_less)
  moreover have "n = n div 256 * 256 + n mod 256" "n div 256 = n div 65536 * 256 + n div 256 mod 256"
    "n div 65536 = n div 16777216 * 256 + n div 65536 mod 256"
    using div_mult_mod_eq [of n 256] div_mult_mod_eq [of "n div 256" 256] div_mult_mod_eq [of "n div 65536" 256]
    by (simp_all add: div_mult2_eq [symmetric])
  moreover define a b c d where "a = n div 16777216" "b = n div 65536 mod 256" "c = n div 256 mod 256" "d = n mod 256"
  ultimately have "a < 256" "n = ((a * 256 + b) * 256 + c) * 256 + d" by simp_all
  then have "n div 16777216 mod 256 * 16777216 + n div 65536 mod 256 * 65536 + n div 256 mod 256 * 256 + n mod 256 = n"
    unfolding a_b_c_d_def(1) [symmetric] a_b_c_d_def(2) [symmetric] a_b_c_d_def(3) [symmetric] a_b_c_d_def(4) [symmetric] by simp
  moreover have "n div 16777216 mod 256 = n div 16777216" using \<open>n div 16777216 < 256\<close> by simp
  ultimately show ?thesis by (simp add: read_u32_def u32_bytes_def)
qed

text \<open>
  The list of public keys at the end of the parameters is read back: for fewer than two to the power of 32
  keys with nonzero points of the subgroups, and whatever bytes follow.\<close>

lemma keys_read_back:
  assumes "engine_laws E" "\<forall>key\<in>set keys. key_valid E key" "length keys < 2 ^ 32"
  shows "read_keys E (write_keys E keys @ rest) = Inr (keys, rest)"
  using assms by (simp add: read_keys_def write_keys_def u32_read read_keys_written)

end
