(* ===== verification/Groth16_Params.thy ===== *)
theory Groth16_Params
  imports Phase2_Keys
begin

text \<open>
  \<^verbatim>\<open>setup-utils/src/groth16_utils.rs\<close>: the powers of tau of phase 1 as Lagrange coefficients for phase 2, and
  their stored form. The evaluation domain and its inverse Fourier transform are those of a third-party crate,
  here the record \<open>Domains\<close>; \<open>domain_laws\<close> states what they compute. A thread of a scope that panics makes the
  join fail with \<open>CrossBeamError\<close>.
\<close>

record ('f, 'g, 'h) Domains =
  domain_size :: "usize \<Rightarrow> usize option"
  domain_root :: "usize \<Rightarrow> 'f"
  ifft_g1 :: "usize \<Rightarrow> 'g list \<Rightarrow> 'g list"
  ifft_g2 :: "usize \<Rightarrow> 'h list \<Rightarrow> 'h list"

record ('g, 'h) Groth16Params =
  gp_alpha_g1 :: 'g
  gp_beta_g1 :: 'g
  gp_beta_g2 :: 'h
  coeffs_g1 :: "'g list"
  coeffs_g2 :: "'h list"
  alpha_coeffs_g1 :: "'g list"
  beta_coeffs_g1 :: "'g list"
  h_g1 :: "'g list"

section \<open>From powers to coefficients\<close>

text \<open>\<^verbatim>\<open>handle.join()?\<close> on a spawned thread.\<close>

definition joined :: "'a or_error \<Rightarrow> 'a or_error" where
  "joined r = (case r of Inl Panic \<Rightarrow> Inl CrossBeamError | _ \<Rightarrow> r)"

lemma joined_simps [simp]: "joined (Inr a) = Inr a" "joined (Inl Panic) = Inl CrossBeamError"
  by (simp_all add: joined_def)

text \<open>Affine points are unique, so that the conversions to and from projective points change nothing.\<close>

definition to_coeffs :: "('g list \<Rightarrow> 'g list) \<Rightarrow> 'g list \<Rightarrow> 'g list" where
  "to_coeffs ifft coeffs = ifft coeffs"

definition h_query_groth16 :: "'g::ab_group_add list \<Rightarrow> usize \<Rightarrow> 'g list or_error" where
  "h_query_groth16 powers degree =
     (if degree = 0 then Inl Panic
      else collect_results (\<lambda>i. if i + degree < length powers then Inr (powers ! (i + degree) + - (powers ! i)) else Inl Panic)
        [0..<degree - 1])"

definition groth16_params_new ::
  "('f, 'g::ab_group_add, 'h) Domains \<Rightarrow> usize \<Rightarrow> 'g list \<Rightarrow> 'h list \<Rightarrow> 'g list \<Rightarrow> 'g list \<Rightarrow> 'h \<Rightarrow>
   ('g, 'h) Groth16Params or_error" where
  "groth16_params_new D phase2_size tau1 tau2 alpha1 beta1 beta2 =
     (case domain_size D phase2_size of
        None \<Rightarrow> Inl Panic
      | Some domain \<Rightarrow>
          (let coeffs = (\<lambda>ifft xs. joined (result_bind (slice xs 0 phase2_size) (\<lambda>ys. Inr (to_coeffs (ifft domain) ys)))) in
           result_bind (coeffs (ifft_g1 D) tau1) (\<lambda>c1.
           result_bind (joined (result_bind (slice tau2 0 phase2_size) (\<lambda>ys. Inr (to_coeffs (ifft_g2 D domain) ys)))) (\<lambda>c2.
           result_bind (coeffs (ifft_g1 D) alpha1) (\<lambda>ca.
           result_bind (coeffs (ifft_g1 D) beta1) (\<lambda>cb.
           result_bind (joined (h_query_groth16 tau1 phase2_size)) (\<lambda>h.
             if alpha1 = [] \<or> beta1 = [] then Inl Panic
             else Inr \<lparr>gp_alpha_g1 = alpha1 ! 0, gp_beta_g1 = beta1 ! 0, gp_beta_g2 = beta2, coeffs_g1 = c1, coeffs_g2 = c2,
                       alpha_coeffs_g1 = ca, beta_coeffs_g1 = cb, h_g1 = h\<rparr>)))))))"

section \<open>Writing and reading\<close>

definition groth16_params_write ::
  "('f, 'g, 'h, 't) PairingEngine \<Rightarrow> ('g, 'h) Groth16Params \<Rightarrow> UseCompression \<Rightarrow> bytes" where
  "groth16_params_write E p c =
     to_bytes (g1_affine E) c (gp_alpha_g1 p) @ to_bytes (g1_affine E) c (gp_beta_g1 p) @ to_bytes (g2_affine E) c (gp_beta_g2 p) @
     encode (g1_affine E) c (coeffs_g1 p) @ encode (g2_affine E) c (coeffs_g2 p) @
     encode (g1_affine E) c (alpha_coeffs_g1 p) @ encode (g1_affine E) c (beta_coeffs_g1 p) @ encode (g1_affine E) c (h_g1 p)"

text \<open>\<^verbatim>\<open>split_transcript\<close>: a difference of sizes below zero is a panic, or wraps to a size after every buffer.\<close>

definition groth16_split_transcript ::
  "('f, 'g, 'h, 't) PairingEngine \<Rightarrow> bytes \<Rightarrow> usize \<Rightarrow> usize \<Rightarrow> UseCompression \<Rightarrow>
   (bytes \<times> bytes \<times> bytes \<times> bytes \<times> bytes) or_error" where
  "groth16_split_transcript E input phase1_size n c =
     (let g1 = buffer_size (g1_affine E) c; g2 = buffer_size (g2_affine E) c in
      result_bind (split_at input (g1 * n)) (\<lambda>(c1, others).
      if phase1_size < n then Inl Panic else
      result_bind (split_at others ((phase1_size - n) * g1)) (\<lambda>(_, others).
      result_bind (split_at others (g2 * n)) (\<lambda>(c2, others).
      result_bind (split_at others ((phase1_size - n) * g2)) (\<lambda>(_, others).
      result_bind (split_at others (g1 * n)) (\<lambda>(ca, others).
      result_bind (split_at others ((phase1_size - n) * g1)) (\<lambda>(_, others).
      result_bind (split_at others (g1 * n)) (\<lambda>(cb, others).
      result_bind (split_at others ((phase1_size - n) * g1)) (\<lambda>(_, others).
      if n = 0 then Inl Panic else
      result_bind (split_at others (g1 * (n - 1))) (\<lambda>(h, _).
        Inr (c1, c2, ca, cb, h)))))))))))"

definition groth16_params_read ::
  "('f, 'g::ab_group_add, 'h::ab_group_add, 't) PairingEngine \<Rightarrow> bytes \<Rightarrow> UseCompression \<Rightarrow> CheckForCorrectness \<Rightarrow> usize \<Rightarrow> usize \<Rightarrow>
   ('g, 'h) Groth16Params or_error" where
  "groth16_params_read E r c check phase1_size num_constraints =
     result_bind (read_point (g1_affine E) c check r) (\<lambda>(alpha, r).
     result_bind (read_point (g1_affine E) c check r) (\<lambda>(beta1, r).
     result_bind (read_point (g2_affine E) c check r) (\<lambda>(beta2, r).
     result_bind (groth16_split_transcript E r phase1_size num_constraints c) (\<lambda>(in1, in2, in_alpha, in_beta, in_h).
     result_bind (joined (read_batch (g1_affine E) c check in1)) (\<lambda>c1.
     result_bind (joined (read_batch (g2_affine E) c check in2)) (\<lambda>c2.
     result_bind (joined (read_batch (g1_affine E) c check in_alpha)) (\<lambda>ca.
     result_bind (joined (read_batch (g1_affine E) c check in_beta)) (\<lambda>cb.
     result_bind (joined (read_batch (g1_affine E) c check in_h)) (\<lambda>h.
       Inr \<lparr>gp_alpha_g1 = alpha, gp_beta_g1 = beta1, gp_beta_g2 = beta2, coeffs_g1 = c1, coeffs_g2 = c2,
            alpha_coeffs_g1 = ca, beta_coeffs_g1 = cb, h_g1 = h\<rparr>)))))))))"

section \<open>The first coefficients are read back\<close>

definition params_valid ::
  "('f, 'g::ab_group_add, 'h::ab_group_add, 't) PairingEngine \<Rightarrow> CheckForCorrectness \<Rightarrow> ('g, 'h) Groth16Params \<Rightarrow> bool" where
  "params_valid E check p \<longleftrightarrow>
     valid_points (g1_affine E) check ([gp_alpha_g1 p, gp_beta_g1 p] @ coeffs_g1 p @ alpha_coeffs_g1 p @ beta_coeffs_g1 p @ h_g1 p) \<and>
     valid_points (g2_affine E) check (gp_beta_g2 p # coeffs_g2 p)"

definition params_size :: "usize \<Rightarrow> ('g, 'h) Groth16Params \<Rightarrow> bool" where
  "params_size n p \<longleftrightarrow>
     length (coeffs_g1 p) = n \<and> length (coeffs_g2 p) = n \<and> length (alpha_coeffs_g1 p) = n \<and> length (beta_coeffs_g1 p) = n \<and>
     length (h_g1 p) = n - 1"

definition params_take :: "usize \<Rightarrow> ('g, 'h) Groth16Params \<Rightarrow> ('g, 'h) Groth16Params" where
  "params_take n p =
     p\<lparr>coeffs_g1 := take n (coeffs_g1 p), coeffs_g2 := take n (coeffs_g2 p), alpha_coeffs_g1 := take n (alpha_coeffs_g1 p),
       beta_coeffs_g1 := take n (beta_coeffs_g1 p), h_g1 := take (n - 1) (h_g1 p)\<rparr>"

lemma split_encoded:
  assumes "curve_laws C" "valid_points C check xs" "n \<le> length xs"
  shows "split_at (encode C c xs @ rest) (buffer_size C c * n) = Inr (encode C c (take n xs), encode C c (drop n xs) @ rest)"
    "split_at (encode C c (drop n xs) @ rest) ((length xs - n) * buffer_size C c) = Inr (encode C c (drop n xs), rest)"
proof -
  have v: "valid_points C check (take n xs)" "valid_points C check (drop n xs)"
    using assms(2) by (auto simp: valid_points_def dest: in_set_takeD in_set_dropD)
  have "encode C c xs @ rest = encode C c (take n xs) @ encode C c (drop n xs) @ rest"
    using encode_append [of C c "take n xs" "drop n xs"] by simp
  moreover have "length (encode C c (take n xs)) = buffer_size C c * n" using length_encode [OF assms(1) v(1)] assms(3) by simp
  ultimately show "split_at (encode C c xs @ rest) (buffer_size C c * n) = Inr (encode C c (take n xs), encode C c (drop n xs) @ rest)"
    by (simp add: split_at_append)
  show "split_at (encode C c (drop n xs) @ rest) ((length xs - n) * buffer_size C c) = Inr (encode C c (drop n xs), rest)"
    by (rule split_at_append) (use length_encode [OF assms(1) v(2)] in simp)
qed

lemma transcript_split:
  assumes laws: "engine_laws E" and p: "params_valid E check p" "params_size m p" and n: "0 < n" "n \<le> m"
  shows "groth16_split_transcript E (encode (g1_affine E) c (coeffs_g1 p) @ encode (g2_affine E) c (coeffs_g2 p) @
      encode (g1_affine E) c (alpha_coeffs_g1 p) @ encode (g1_affine E) c (beta_coeffs_g1 p) @ encode (g1_affine E) c (h_g1 p) @ rest) m n c =
    Inr (encode (g1_affine E) c (take n (coeffs_g1 p)), encode (g2_affine E) c (take n (coeffs_g2 p)),
      encode (g1_affine E) c (take n (alpha_coeffs_g1 p)), encode (g1_affine E) c (take n (beta_coeffs_g1 p)),
      encode (g1_affine E) c (take (n - 1) (h_g1 p)))"
proof -
  have v: "valid_points (g1_affine E) check (coeffs_g1 p)" "valid_points (g2_affine E) check (coeffs_g2 p)"
    "valid_points (g1_affine E) check (alpha_coeffs_g1 p)" "valid_points (g1_affine E) check (beta_coeffs_g1 p)"
    "valid_points (g1_affine E) check (h_g1 p)"
    using p(1) by (auto simp: params_valid_def valid_points_def)
  note l = engine_lawsD [OF laws] and len = p(2) [unfolded params_size_def]
  note s = split_encoded [OF l(1) v(1)] split_encoded [OF l(2) v(2)] split_encoded [OF l(1) v(3)] split_encoded [OF l(1) v(4)] split_encoded [OF l(1) v(5)]
  have "\<not> m < n" "n \<noteq> 0" "n - 1 \<le> m - 1" using n by simp_all
  then show ?thesis
    using n(2) len s(1) [of n] s(2) [of n] s(3) [of n] s(4) [of n] s(5) [of n] s(6) [of n] s(7) [of n] s(8) [of n] s(9) [of "n - 1"]
    unfolding groth16_split_transcript_def Let_def by simp
qed

text \<open>
  The processed powers of tau are read back: reading the first coefficients, one or more, of parameters
  that were written for a larger or equal size gives the three single points and the first ones of every
  list, in either compression, with every check that the points satisfy and whatever bytes follow.\<close>

theorem groth16_params_roundtrip:
  assumes laws: "engine_laws E" and p: "params_valid E check p" "params_size m p" and n: "0 < n" "n \<le> m"
  shows "groth16_params_read E (groth16_params_write E p c @ rest) c check m n = Inr (params_take n p)"
proof -
  note l = engine_lawsD [OF laws]
  have single: "valid_points (g1_affine E) check [gp_alpha_g1 p]" "valid_points (g1_affine E) check [gp_beta_g1 p]" "valid_points (g2_affine E) check [gp_beta_g2 p]"
    using p(1) by (auto simp: params_valid_def valid_points_def)
  have v: "valid_points (g1_affine E) check (take n (coeffs_g1 p))" "valid_points (g2_affine E) check (take n (coeffs_g2 p))"
    "valid_points (g1_affine E) check (take n (alpha_coeffs_g1 p))" "valid_points (g1_affine E) check (take n (beta_coeffs_g1 p))"
    "valid_points (g1_affine E) check (take (n - 1) (h_g1 p))"
    using p(1) by (auto simp: params_valid_def valid_points_def dest: in_set_takeD)
  show ?thesis
    unfolding groth16_params_read_def groth16_params_write_def append_assoc
    by (simp add: read_point_written [OF l(1) single(1)] read_point_written [OF l(1) single(2)] read_point_written [OF l(2) single(3)]
        transcript_split [OF laws p n] read_encoded [OF l(1) v(1)] read_encoded [OF l(2) v(2)] read_encoded [OF l(1) v(3)]
        read_encoded [OF l(1) v(4)] read_encoded [OF l(1) v(5), unfolded One_nat_def] params_take_def)
qed

section \<open>The coefficients are those of Lagrange\<close>

text \<open>The domain of size \<open>m\<close> are the powers of a primitive root of unity, and the transform is the inverse one.\<close>

definition inverse_transform :: "('f::field, 'g::ab_group_add) AffineCurve \<Rightarrow> 'f \<Rightarrow> usize \<Rightarrow> 'g list \<Rightarrow> 'g list" where
  "inverse_transform C w m xs =
     map (\<lambda>i. \<Sum>j<length xs. point_mul C (xs ! j) (inverse (of_nat m) * inverse (w ^ (i * j)))) [0..<m]"

definition domain_laws :: "('f::field, 'g::ab_group_add, 'h::ab_group_add, 't) PairingEngine \<Rightarrow> ('f, 'g, 'h) Domains \<Rightarrow> bool" where
  "domain_laws E D \<longleftrightarrow>
     (\<forall>n m. domain_size D n = Some m \<longrightarrow>
        of_nat m \<noteq> (0 :: 'f) \<and> domain_root D m ^ m = 1 \<and> (\<forall>k. 0 < k \<longrightarrow> k < m \<longrightarrow> domain_root D m ^ k \<noteq> 1) \<and>
        (\<forall>xs. length xs \<le> m \<longrightarrow> valid_points (g1_affine E) CheckNo xs \<longrightarrow>
           ifft_g1 D m xs = inverse_transform (g1_affine E) (domain_root D m) m xs) \<and>
        (\<forall>xs. length xs \<le> m \<longrightarrow> valid_points (g2_affine E) CheckNo xs \<longrightarrow>
           ifft_g2 D m xs = inverse_transform (g2_affine E) (domain_root D m) m xs))"

definition lagrange :: "'f::field \<Rightarrow> nat \<Rightarrow> nat \<Rightarrow> 'f \<Rightarrow> 'f" where
  "lagrange w m i x = (\<Sum>j<m. inverse (of_nat m) * inverse (w ^ (i * j)) * x ^ j)"

definition poly_at :: "'f::field list \<Rightarrow> 'f \<Rightarrow> 'f" where
  "poly_at c x = (\<Sum>k<length c. c ! k * x ^ k)"

lemma roots_orthogonal:
  fixes w :: "'f::field"
  assumes root: "w ^ m = 1" "\<And>k. 0 < k \<Longrightarrow> k < m \<Longrightarrow> w ^ k \<noteq> 1" and jk: "j < m" "k < m"
  shows "(\<Sum>i<m. (w ^ i) ^ k * inverse (w ^ (i * j))) = (if j = k then of_nat m else 0)"
proof -
  have nz: "w \<noteq> 0" using root(1) jk(1) by (metis gr_implies_not_zero power_0_left zero_neq_one)
  define z where "z = w ^ k * inverse (w ^ j)"
  have "(\<Sum>i<m. (w ^ i) ^ k * inverse (w ^ (i * j))) = (\<Sum>i<m. z ^ i)"
    by (intro sum.cong refl) (simp add: z_def power_mult_distrib power_inverse [symmetric] power_mult [symmetric] mult.commute)
  also have "\<dots> = (if j = k then of_nat m else 0)"
  proof (cases "j = k")
    case True
    then have "z = 1" using nz by (simp add: z_def)
    then show ?thesis using True by simp
  next
    case False
    have "z \<noteq> 1"
    proof
      assume "z = 1"
      then have eq: "w ^ k = w ^ j" using nz by (simp add: z_def field_simps)
      have "w ^ (b - a) = 1" if "w ^ a = w ^ b" "a < b" for a b
        using that nz by (simp add: power_diff)
      with eq False root(2) [of "k - j"] root(2) [of "j - k"] jk show False
        by (metis less_imp_diff_less linorder_neqE_nat zero_less_diff)
    qed
    moreover have "z ^ m = (w ^ m) ^ k * inverse ((w ^ m) ^ j)"
      by (simp add: z_def power_mult_distrib power_inverse [symmetric] power_mult [symmetric] mult.commute)
    then have "z ^ m = 1" by (simp add: root(1))
    ultimately show ?thesis using False geometric_sum [of z m] by simp
  qed
  finally show ?thesis .
qed

lemma lagrange_interpolates:
  fixes w :: "'f::field"
  assumes root: "w ^ m = 1" "\<And>k. 0 < k \<Longrightarrow> k < m \<Longrightarrow> w ^ k \<noteq> 1" and m: "of_nat m \<noteq> (0 :: 'f)" and c: "length c \<le> m"
  shows "(\<Sum>i<m. poly_at c (w ^ i) * lagrange w m i x) = poly_at c x"
proof -
  let ?t = "\<lambda>i k j. c ! k * (x ^ j * inverse (of_nat m)) * ((w ^ i) ^ k * inverse (w ^ (i * j)))"
  have "(\<Sum>i<m. poly_at c (w ^ i) * lagrange w m i x) = (\<Sum>i<m. \<Sum>k<length c. \<Sum>j<m. ?t i k j)"
    unfolding poly_at_def lagrange_def sum_product by (intro sum.cong refl) (simp add: mult_ac)
  also have "\<dots> = (\<Sum>k<length c. \<Sum>j<m. \<Sum>i<m. ?t i k j)"
    by (subst sum.swap) (intro sum.cong refl sum.swap)
  also have "\<dots> = (\<Sum>k<length c. \<Sum>j<m. c ! k * (x ^ j * inverse (of_nat m)) * (if j = k then of_nat m else 0))"
    using c by (intro sum.cong refl) (simp add: sum_distrib_left [symmetric] roots_orthogonal [OF root])
  also have "\<dots> = (\<Sum>k<length c. c ! k * x ^ k)"
  proof (intro sum.cong refl)
    fix k assume "k \<in> {..<length c}"
    then have "k < m" using c by simp
    then have "(\<Sum>j<m. c ! k * (x ^ j * inverse (of_nat m)) * (if j = k then of_nat m else 0)) = c ! k * (x ^ k * inverse (of_nat m)) * of_nat m"
      by (subst sum.remove [of _ k]) (auto intro!: sum.neutral)
    then show "(\<Sum>j<m. c ! k * (x ^ j * inverse (of_nat m)) * (if j = k then of_nat m else 0)) = c ! k * x ^ k"
      using m by simp
  qed
  finally show ?thesis by (simp add: poly_at_def)
qed

lemma transform_powers:
  assumes laws: "subgroup_laws C" and m: "0 < m"
  shows "inverse_transform C w m (map (\<lambda>j. point_mul C (prime_subgroup_generator C) (x ^ j * a)) [0..<m]) =
    map (\<lambda>i. point_mul C (prime_subgroup_generator C) (lagrange w m i x * a)) [0..<m]"
  unfolding inverse_transform_def length_map length_upt diff_zero
proof (intro map_cong refl)
  note c = curve_lawsD [OF subgroup_lawsD(1) [OF laws]]
  fix i
  let ?g = "prime_subgroup_generator C" and ?f = "\<lambda>j. inverse (of_nat m) * inverse (w ^ (i * j)) * x ^ j * a"
  have sum: "(\<Sum>j<n. point_mul C ?g (?f j)) = point_mul C ?g (\<Sum>j<n. ?f j)" for n
    by (induction n) (simp_all add: point_mul_zero(1) [OF laws c(1)] subgroup_lawsD(6) [OF laws c(1)])
  have "(\<Sum>j<m. point_mul C (map (\<lambda>j. point_mul C ?g (x ^ j * a)) [0..<m] ! j) (inverse (of_nat m) * inverse (w ^ (i * j)))) =
      (\<Sum>j<m. point_mul C ?g (?f j))"
    by (intro sum.cong refl) (simp add: c mult_ac)
  then show "(\<Sum>j<m. point_mul C (map (\<lambda>j. point_mul C ?g (x ^ j * a)) [0..<m] ! j) (inverse (of_nat m) * inverse (w ^ (i * j)))) =
      point_mul C ?g (lagrange w m i x * a)"
    by (simp add: sum lagrange_def sum_distrib_right)
qed

definition lagrange_params ::
  "('f::field, 'g::ab_group_add, 'h::ab_group_add, 't) PairingEngine \<Rightarrow> 'f \<Rightarrow> usize \<Rightarrow> 'f PrivateKey \<Rightarrow> ('g, 'h) Groth16Params" where
  "lagrange_params E w n key =
     (let g = point_mul (g1_affine E) (prime_subgroup_generator (g1_affine E));
          h = point_mul (g2_affine E) (prime_subgroup_generator (g2_affine E)); l = (\<lambda>i. lagrange w n i (sk_tau key))
      in \<lparr>gp_alpha_g1 = g (sk_alpha key), gp_beta_g1 = g (sk_beta key), gp_beta_g2 = h (sk_beta key),
          coeffs_g1 = map (\<lambda>i. g (l i)) [0..<n], coeffs_g2 = map (\<lambda>i. h (l i)) [0..<n],
          alpha_coeffs_g1 = map (\<lambda>i. g (l i * sk_alpha key)) [0..<n], beta_coeffs_g1 = map (\<lambda>i. g (l i * sk_beta key)) [0..<n],
          h_g1 = map (\<lambda>i. g (sk_tau key ^ i * (sk_tau key ^ n - 1))) [0..<n - 1]\<rparr>)"

lemma h_query_value:
  assumes laws: "subgroup_laws C" and n: "0 < n" "2 * n - 1 \<le> m"
  shows "h_query_groth16 (map (\<lambda>j. point_mul C (prime_subgroup_generator C) (x ^ j)) [0..<m]) n =
    Inr (map (\<lambda>i. point_mul C (prime_subgroup_generator C) (x ^ i * (x ^ n - 1))) [0..<n - 1])"
proof -
  note g = curve_lawsD(1) [OF subgroup_lawsD(1) [OF laws]]
  have "point_mul C (prime_subgroup_generator C) (x ^ (i + n)) + - point_mul C (prime_subgroup_generator C) (x ^ i) =
      point_mul C (prime_subgroup_generator C) (x ^ i * (x ^ n - 1))" for i
    by (simp add: point_mul_diff [OF laws g, symmetric] power_add right_diff_distrib)
  then show ?thesis using n by (auto simp: h_query_groth16_def collect_results_nth)
qed

lemma powers_to_coeffs:
  assumes laws: "subgroup_laws C" and n: "0 < n" "n \<le> m" and v: "\<And>xs. length xs \<le> n \<Longrightarrow> valid_points C CheckNo xs \<Longrightarrow> ifft xs = inverse_transform C w n xs"
  shows "joined (result_bind (slice (map (\<lambda>j. point_mul C (prime_subgroup_generator C) (x ^ j * a)) [0..<m]) 0 n) (\<lambda>ys. Inr (to_coeffs ifft ys))) =
    Inr (map (\<lambda>i. point_mul C (prime_subgroup_generator C) (lagrange w n i x * a)) [0..<n])"
proof -
  let ?ys = "map (\<lambda>j. point_mul C (prime_subgroup_generator C) (x ^ j * a)) [0..<n]"
  have "slice (map (\<lambda>j. point_mul C (prime_subgroup_generator C) (x ^ j * a)) [0..<m]) 0 n = Inr ?ys"
    using n(2) by (simp add: slice_def take_map)
  moreover have "valid_points C CheckNo ?ys"
    by (auto simp: valid_points_def curve_lawsD [OF subgroup_lawsD(1) [OF laws]])
  ultimately show ?thesis
    using v [of ?ys] transform_powers [OF laws n(1), of w x a] by (simp add: to_coeffs_def)
qed

lemma params_lagrange:
  assumes laws: "pairing_laws E" "domain_laws E D" and n: "domain_size D n = Some n" "0 < n" "n \<le> 2 ^ log2"
    and acc: "acc = accumulator_of E (new_full cv Groth16 log2 batch) key"
  shows "groth16_params_new D n (tau_powers_g1 acc) (tau_powers_g2 acc) (alpha_tau_powers_g1 acc) (beta_tau_powers_g1 acc) (acc_beta_g2 acc) =
      Inr (lagrange_params E (domain_root D n) n key)"
    "length c \<le> n \<Longrightarrow> (\<Sum>i<n. poly_at c (domain_root D n ^ i) * lagrange (domain_root D n) n i (sk_tau key)) = poly_at c (sk_tau key)"
proof -
  let ?ps = "new_full cv Groth16 log2 batch"
  note l = pairing_lawsD(1,2) [OF laws(1)] and p = full_parameters [of ?ps, OF refl]
  have d: "of_nat n \<noteq> (0 :: 'a)" "domain_root D n ^ n = 1" "\<And>k. 0 < k \<Longrightarrow> k < n \<Longrightarrow> domain_root D n ^ k \<noteq> 1"
    "\<And>xs. length xs \<le> n \<Longrightarrow> valid_points (g1_affine E) CheckNo xs \<Longrightarrow> ifft_g1 D n xs = inverse_transform (g1_affine E) (domain_root D n) n xs"
    "\<And>xs. length xs \<le> n \<Longrightarrow> valid_points (g2_affine E) CheckNo xs \<Longrightarrow> ifft_g2 D n xs = inverse_transform (g2_affine E) (domain_root D n) n xs"
    using laws(2) n(1) unfolding domain_laws_def by blast+
  have w: "power_weight ?ps key i = sk_tau key ^ i" "tau_g2_weight ?ps key i = sk_tau key ^ i" "alpha_weight ?ps key i = sk_tau key ^ i * sk_alpha key"
    "beta_weight ?ps key i = sk_tau key ^ i * sk_beta key" for i
    by (simp_all add: tau_g2_weight_def alpha_weight_def beta_weight_def power_weight_full p(7))
  let ?g = "\<lambda>a m. map (\<lambda>j. point_mul (g1_affine E) (prime_subgroup_generator (g1_affine E)) (sk_tau key ^ j * a)) [0..<m]"
    and ?h = "\<lambda>a m. map (\<lambda>j. point_mul (g2_affine E) (prime_subgroup_generator (g2_affine E)) (sk_tau key ^ j * a)) [0..<m]"
  have a: "tau_powers_g1 acc = ?g 1 (2 * 2 ^ log2 - 1)" "tau_powers_g2 acc = ?h 1 (2 ^ log2)" "alpha_tau_powers_g1 acc = ?g (sk_alpha key) (2 ^ log2)"
    "beta_tau_powers_g1 acc = ?g (sk_beta key) (2 ^ log2)" "acc_beta_g2 acc = point_mul (g2_affine E) (prime_subgroup_generator (g2_affine E)) (sk_beta key)"
    using p(3,7,8) by (simp_all add: acc accumulator_of_def Let_def w)
  have m: "n \<le> 2 * 2 ^ log2 - 1" "2 * n - 1 \<le> 2 * 2 ^ log2 - 1" using n(2,3) by linarith+
  have h: "h_query_groth16 (?g 1 (2 * 2 ^ log2 - 1)) n =
      Inr (map (\<lambda>i. point_mul (g1_affine E) (prime_subgroup_generator (g1_affine E)) (sk_tau key ^ i * (sk_tau key ^ n - 1))) [0..<n - 1])"
    using h_query_value [OF l(1) n(2) m(2), of "sk_tau key"] by simp
  have first: "?g a (2 ^ log2) \<noteq> []" "?g a (2 ^ log2) ! 0 = point_mul (g1_affine E) (prime_subgroup_generator (g1_affine E)) a" for a by simp_all
  have c1: "joined (result_bind (slice (?g a k) 0 n) (\<lambda>ys. Inr (to_coeffs (ifft_g1 D n) ys))) =
      Inr (map (\<lambda>i. point_mul (g1_affine E) (prime_subgroup_generator (g1_affine E)) (lagrange (domain_root D n) n i (sk_tau key) * a)) [0..<n])" if "n \<le> k" for a k
    by (rule powers_to_coeffs [OF l(1) n(2) that]) (rule d(4))
  have c2: "joined (result_bind (slice (?h 1 (2 ^ log2)) 0 n) (\<lambda>ys. Inr (to_coeffs (ifft_g2 D n) ys))) =
      Inr (map (\<lambda>i. point_mul (g2_affine E) (prime_subgroup_generator (g2_affine E)) (lagrange (domain_root D n) n i (sk_tau key) * 1)) [0..<n])"
    by (rule powers_to_coeffs [OF l(2) n(2,3)]) (rule d(5))
  show "groth16_params_new D n (tau_powers_g1 acc) (tau_powers_g2 acc) (alpha_tau_powers_g1 acc) (beta_tau_powers_g1 acc) (acc_beta_g2 acc) =
      Inr (lagrange_params E (domain_root D n) n key)"
    unfolding groth16_params_new_def n(1) option.case Let_def a c1 [OF m(1)] c1 [OF n(3)] c2 result_bind_simps h joined_simps
    by (simp add: lagrange_params_def Let_def)
  show "(\<Sum>i<n. poly_at c (domain_root D n ^ i) * lagrange (domain_root D n) n i (sk_tau key)) = poly_at c (sk_tau key)" if "length c \<le> n"
    by (rule lagrange_interpolates [OF d(2,3,1) that])
qed

text \<open>
  C19. From the accumulator of phase 1 the setup computes the Lagrange coefficients of its secrets. For the
  accumulator of secrets tau, alpha and beta and a domain of size n, at most the number of powers: the result
  holds the values at tau of the Lagrange polynomials of the domain in both groups, multiplied by alpha and by
  beta, and the powers of tau times the vanishing polynomial; and with these values every polynomial of degree
  below n is evaluated at tau from its values on the domain.\<close>

theorem groth16_params_lagrange:
  assumes "pairing_laws E" "domain_laws E D" "domain_size D n = Some n" "0 < n" "n \<le> 2 ^ log2"
    and "acc = accumulator_of E (new_full cv Groth16 log2 batch) key"
  shows "groth16_params_new D n (tau_powers_g1 acc) (tau_powers_g2 acc) (alpha_tau_powers_g1 acc) (beta_tau_powers_g1 acc) (acc_beta_g2 acc) =
      Inr (lagrange_params E (domain_root D n) n key) \<and>
    (\<forall>c. length c \<le> n \<longrightarrow>
      (\<Sum>i<n. poly_at c (domain_root D n ^ i) * lagrange (domain_root D n) n i (sk_tau key)) = poly_at c (sk_tau key))"
  using params_lagrange [OF assms] by blast

text \<open>When a list is shorter than the size, the thread that slices it panics, and the caller gets an error.\<close>

lemma groth16_params_short:
  assumes "domain_size D n = Some m" "length tau1 < n \<or> length tau2 < n \<or> length alpha1 < n \<or> length beta1 < n"
  shows "groth16_params_new D n tau1 tau2 alpha1 beta1 beta2 = Inl CrossBeamError"
  using assms by (auto simp: groth16_params_new_def slice_def Let_def)

section \<open>An example\<close>

definition example_domains :: "(GF3, GF3, GF3) Domains" where
  "example_domains =
     \<lparr>domain_size = (\<lambda>n. if n = 2 then Some 2 else None), domain_root = (\<lambda>_. Two3),
      ifft_g1 = inverse_transform example_curve Two3, ifft_g2 = inverse_transform example_curve Two3\<rparr>"

lemma example_domain_laws: "domain_laws example_engine example_domains"
proof -
  have "Two3 ^ k \<noteq> 1" if "0 < k" "k < 2" for k using that by (simp add: one_GF3_def less_2_cases_iff)
  then show ?thesis
    by (auto simp: domain_laws_def example_domains_def example_engine_def one_GF3_def zero_GF3_def numeral_eq_Suc split: if_splits)
qed

theorem groth16_params_lagrange_witness:
  "(let acc = accumulator_of example_engine (example_full Groth16) example_key in
     groth16_params_new example_domains 2 (tau_powers_g1 acc) (tau_powers_g2 acc) (alpha_tau_powers_g1 acc) (beta_tau_powers_g1 acc) (acc_beta_g2 acc) =
     Inr (lagrange_params example_engine Two3 2 example_key)) \<and>
   (\<Sum>i<2. poly_at [One3, Two3] (Two3 ^ i) * lagrange Two3 2 i (sk_tau example_key)) = poly_at [One3, Two3] (sk_tau example_key)"
  using groth16_params_lagrange [OF example_pairing_laws example_domain_laws, of 2 2
      "accumulator_of example_engine (example_full Groth16) example_key" "curve_parameters_new example_engine" 3 example_key]
  by (auto simp: example_full_def example_domains_def dest: spec [of _ "[One3, Two3]"])

end
