(* ===== verification/Phase2_Parameters.thy ===== *)
theory Phase2_Parameters
  imports Groth16_Params
begin

text \<open>
  \<^verbatim>\<open>phase2/src/polynomial.rs\<close> and \<^verbatim>\<open>parameters.rs\<close>: the evaluation of the polynomials of a circuit at the
  coefficients of phase 1, and the parameters of phase 2 with their contributions. The proving and the verifying
  key, the indices of variables and the assembled circuit are types of a third-party crate, of which the fields that
  the code uses are kept; the encoding of a proving key is a parameter.
\<close>

section \<open>Evaluation of the circuit\<close>

datatype Index = Public usize | Private usize

type_synonym 'f row = "('f \<times> Index) list"

definition variable_index :: "usize \<Rightarrow> Index \<Rightarrow> usize" where
  "variable_index num_inputs lag = (case lag of Public i \<Rightarrow> i | Private i \<Rightarrow> num_inputs + i)"

definition dot_product :: "('f, 'g::ab_group_add) AffineCurve \<Rightarrow> 'f row \<Rightarrow> 'g list \<Rightarrow> usize \<Rightarrow> 'g or_error" where
  "dot_product C input coeffs num_inputs =
     fold_results (\<lambda>(coeff, lag) sum.
       let ind = variable_index num_inputs lag in
       if ind < length coeffs then Inr (sum + point_mul C (coeffs ! ind) coeff) else Inl Panic) input 0"

definition dot_product_vec ::
  "('f, 'g::ab_group_add) AffineCurve \<Rightarrow> 'f row list \<Rightarrow> 'g list \<Rightarrow> usize \<Rightarrow> 'g list or_error" where
  "dot_product_vec C input coeffs num_inputs = collect_results (\<lambda>row. dot_product C row coeffs num_inputs) input"

definition dot_product_ext ::
  "('f, 'g::ab_group_add) AffineCurve \<Rightarrow> 'f row list \<times> 'g list \<Rightarrow> 'f row list \<times> 'g list \<Rightarrow> 'f row list \<times> 'g list \<Rightarrow> usize \<Rightarrow>
   'g list or_error" where
  "dot_product_ext C a_part b_part c_part num_inputs =
     (let (rows_a, beta_coeffs) = a_part; (rows_b, alpha_coeffs) = b_part; (rows_c, coeffs) = c_part in
      collect_results (\<lambda>(a, b, c).
        result_bind (dot_product C a beta_coeffs num_inputs) (\<lambda>x.
        result_bind (dot_product C b alpha_coeffs num_inputs) (\<lambda>y.
        result_bind (dot_product C c coeffs num_inputs) (\<lambda>z. Inr (x + y + z))))) (zip rows_a (zip rows_b rows_c)))"

definition eval_qap ::
  "('f, 'g::ab_group_add, 'h::ab_group_add, 't) PairingEngine \<Rightarrow> 'g list \<Rightarrow> 'h list \<Rightarrow> 'g list \<Rightarrow> 'g list \<Rightarrow>
   'f row list \<Rightarrow> 'f row list \<Rightarrow> 'f row list \<Rightarrow> usize \<Rightarrow> ('g list \<times> 'g list \<times> 'h list \<times> 'g list \<times> 'g list) or_error" where
  "eval_qap E c1 c2 alpha_c1 beta_c1 rows_a rows_b rows_c num_inputs =
     result_bind (dot_product_vec (g1_affine E) rows_a c1 num_inputs) (\<lambda>a_g1.
     result_bind (dot_product_vec (g1_affine E) rows_b c1 num_inputs) (\<lambda>b_g1.
     result_bind (dot_product_vec (g2_affine E) rows_b c2 num_inputs) (\<lambda>b_g2.
     result_bind (dot_product_ext (g1_affine E) (rows_a, beta_c1) (rows_b, alpha_c1) (rows_c, c1) num_inputs) (\<lambda>ext.
     result_bind (split_at ext num_inputs) (\<lambda>(gamma_abc_g1, l).
       Inr (a_g1, b_g1, b_g2, gamma_abc_g1, l))))))"

section \<open>The parameters\<close>

record ('g, 'h) VerifyingKey =
  vk_alpha_g1 :: 'g
  vk_beta_g2 :: 'h
  vk_gamma_g2 :: 'h
  vk_delta_g2 :: 'h
  vk_gamma_abc_g1 :: "'g list"

record ('g, 'h) ProvingKey =
  vk :: "('g, 'h) VerifyingKey"
  key_beta_g1 :: 'g
  key_delta_g1 :: 'g
  a_query :: "'g list"
  b_g1_query :: "'g list"
  b_g2_query :: "'h list"
  h_query :: "'g list"
  l_query :: "'g list"

record 'f KeypairAssembly =
  num_public_variables :: usize
  qap_at :: "'f row list"
  qap_bt :: "'f row list"
  qap_ct :: "'f row list"

record ('g, 'h) KeyCodec =
  key_to_bytes :: "('g, 'h) ProvingKey \<Rightarrow> bytes"
  key_of_bytes :: "bytes \<Rightarrow> (('g, 'h) ProvingKey \<times> bytes) option"

record ('g, 'h) MPCParameters =
  mpc_params :: "('g, 'h) ProvingKey"
  cs_hash :: bytes
  mpc_contributions :: "('g, 'h) Phase2PublicKey list"

definition hash_params :: "('g, 'h) KeyCodec \<Rightarrow> 'h Phase2Ops \<Rightarrow> ('g, 'h) ProvingKey \<Rightarrow> bytes" where
  "hash_params codec ops params = hash_writer ops (key_to_bytes codec params)"

definition mpc_new ::
  "('f, 'g::ab_group_add, 'h::ab_group_add, 't) PairingEngine \<Rightarrow> 'h Phase2Ops \<Rightarrow> ('g, 'h) KeyCodec \<Rightarrow> 'f KeypairAssembly \<Rightarrow>
   ('g, 'h) Groth16Params \<Rightarrow> ('g, 'h) MPCParameters or_error" where
  "mpc_new E ops codec assembly params =
     result_bind (eval_qap E (coeffs_g1 params) (coeffs_g2 params) (alpha_coeffs_g1 params) (beta_coeffs_g1 params)
         (qap_at assembly) (qap_bt assembly) (qap_ct assembly) (num_public_variables assembly))
       (\<lambda>(a_g1, b_g1, b_g2, gamma_abc_g1, l).
         if \<exists>e\<in>set l. e = 0 then Inl SynthesisFailed
         else
           (let key = \<lparr>vk = \<lparr>vk_alpha_g1 = gp_alpha_g1 params, vk_beta_g2 = gp_beta_g2 params,
                              vk_gamma_g2 = prime_subgroup_generator (g2_affine E), vk_delta_g2 = prime_subgroup_generator (g2_affine E),
                              vk_gamma_abc_g1 = gamma_abc_g1\<rparr>,
                       key_beta_g1 = gp_beta_g1 params, key_delta_g1 = prime_subgroup_generator (g1_affine E), a_query = a_g1,
                       b_g1_query = b_g1, b_g2_query = b_g2, h_query = h_g1 params, l_query = l\<rparr>
            in Inr \<lparr>mpc_params = key, cs_hash = hash_params codec ops key, mpc_contributions = []\<rparr>))"

definition batch_mul :: "('f, 'g) AffineCurve \<Rightarrow> 'g list \<Rightarrow> 'f \<Rightarrow> 'g list" where
  "batch_mul C bases coeff = map (\<lambda>base. point_mul C base coeff) bases"

text \<open>The secret is drawn at random; the inverse of zero is a panic.\<close>

definition mpc_contribute ::
  "('f::field, 'g, 'h, 't) PairingEngine \<Rightarrow> 'h Phase2Ops \<Rightarrow> ('g, 'h) MPCParameters \<Rightarrow> 'f \<times> 'g \<Rightarrow>
   (('g, 'h) MPCParameters \<times> bytes) or_error" where
  "mpc_contribute E ops self draws =
     (let params = mpc_params self;
          (public_key, delta) = keypair_new E ops (key_delta_g1 params) (cs_hash self) (mpc_contributions self) draws
      in if delta = 0 then Inl Panic
         else
           (let delta_inv = inverse delta;
                params = params\<lparr>l_query := batch_mul (g1_affine E) (l_query params) delta_inv\<rparr>;
                params = params\<lparr>h_query := batch_mul (g1_affine E) (h_query params) delta_inv\<rparr>;
                params = params\<lparr>vk := (vk params)\<lparr>vk_delta_g2 := point_mul (g2_affine E) (vk_delta_g2 (vk params)) delta\<rparr>\<rparr>;
                params = params\<lparr>key_delta_g1 := point_mul (g1_affine E) (key_delta_g1 params) delta\<rparr>
            in Inr (self\<lparr>mpc_params := params, mpc_contributions := mpc_contributions self @ [public_key]\<rparr>,
                    phase2_key_hash E ops public_key)))"

section \<open>Verification\<close>

definition ensure_same_length :: "'a list \<Rightarrow> 'b list \<Rightarrow> unit or_error" where
  "ensure_same_length a b = (if length a \<noteq> length b then Inl (Phase2Failed InvalidLength_phase2) else Inr ())"

definition ensure_unchanged :: "'a \<Rightarrow> 'a \<Rightarrow> InvariantKind \<Rightarrow> unit or_error" where
  "ensure_unchanged before after kind = (if before \<noteq> after then Inl (Phase2Failed (BrokenInvariant kind)) else Inr ())"

definition ensure_unchanged_vec :: "'a list \<Rightarrow> 'a list \<Rightarrow> InvariantKind \<Rightarrow> unit or_error" where
  "ensure_unchanged_vec before after kind =
     (if length before \<noteq> length after then Inl (Phase2Failed InvalidLength_phase2)
      else fold_results (\<lambda>(b, a) _. ensure_unchanged b a kind) (zip before after) ())"

fun verify_transcript_loop ::
  "('f, 'g, 'h, 't) PairingEngine \<Rightarrow> 'h Phase2Ops \<Rightarrow> bytes \<Rightarrow> ('g, 'h) Phase2PublicKey list \<Rightarrow> 'g \<Rightarrow>
   ('g, 'h) Phase2PublicKey list \<Rightarrow> bytes list or_error" where
  "verify_transcript_loop E ops hash previous old_delta [] = Inr []"
| "verify_transcript_loop E ops hash previous old_delta (pubkey # keys) =
     (let h = hash_cs_pubkeys E ops hash previous (key_s pubkey) (s_delta pubkey) in
      result_bind (ensure_unchanged (transcript pubkey) h Transcript) (\<lambda>_.
      let r = transcript_point ops h in
      result_bind (check_same_ratio E (key_s pubkey, s_delta pubkey) (r, r_delta pubkey) ''Incorrect signature of knowledge'') (\<lambda>_.
      result_bind (check_same_ratio E (old_delta, delta_after pubkey) (r, r_delta pubkey) ''Inconsistent G1 Delta'') (\<lambda>_.
      result_bind (verify_transcript_loop E ops hash (previous @ [pubkey]) (delta_after pubkey) keys) (\<lambda>hashes.
        Inr (phase2_key_hash E ops pubkey # hashes))))))"

definition verify_transcript ::
  "('f, 'g, 'h, 't) PairingEngine \<Rightarrow> 'h Phase2Ops \<Rightarrow> bytes \<Rightarrow> ('g, 'h) Phase2PublicKey list \<Rightarrow> bytes list or_error" where
  "verify_transcript E ops hash keys = verify_transcript_loop E ops hash [] (prime_subgroup_generator (g1_affine E)) keys"

definition check_query_ratio ::
  "('f, 'g::ab_group_add, 'h, 't) PairingEngine \<Rightarrow> 'f ScalarOps \<Rightarrow> (nat \<Rightarrow> 'f) \<Rightarrow> 'g list \<Rightarrow> 'g list \<Rightarrow> 'h \<times> 'h \<Rightarrow> string \<Rightarrow>
   unit or_error" where
  "check_query_ratio E S rng before after deltas err =
     result_bind (merge_pairs S rng before after) (\<lambda>pairs. check_same_ratio E pairs deltas err)"

definition mpc_verify ::
  "('f, 'g::ab_group_add, 'h::ab_group_add, 't) PairingEngine \<Rightarrow> 'h Phase2Ops \<Rightarrow> 'f ScalarOps \<Rightarrow> (nat \<Rightarrow> 'f) \<times> (nat \<Rightarrow> 'f) \<Rightarrow>
   ('g, 'h) MPCParameters \<Rightarrow> ('g, 'h) MPCParameters \<Rightarrow> bytes list or_error" where
  "mpc_verify E ops S rng self after' =
     (let before = mpc_params self; after = mpc_params after' in
      if mpc_contributions after' = [] then Inl (Phase2Failed NoContributions)
      else
        (let pubkey = last (mpc_contributions after') in
         result_bind (ensure_unchanged (delta_after pubkey) (key_delta_g1 after) DeltaG1) (\<lambda>_.
         result_bind (check_same_ratio E (prime_subgroup_generator (g1_affine E), delta_after pubkey)
           (prime_subgroup_generator (g2_affine E), vk_delta_g2 (vk after)) ''Inconsistent G2 Delta'') (\<lambda>_.
         result_bind (slice (mpc_contributions after') 0 (length (mpc_contributions self))) (\<lambda>previous.
         result_bind (ensure_unchanged (mpc_contributions self) previous Contributions_kind) (\<lambda>_.
         result_bind (ensure_unchanged (cs_hash self) (cs_hash after') CsHash) (\<lambda>_.
         result_bind (ensure_same_length (h_query before) (h_query after)) (\<lambda>_.
         result_bind (ensure_same_length (l_query before) (l_query after)) (\<lambda>_.
         result_bind (ensure_unchanged (vk_alpha_g1 (vk before)) (vk_alpha_g1 (vk after)) AlphaG1_kind) (\<lambda>_.
         result_bind (ensure_unchanged (key_beta_g1 before) (key_beta_g1 after) BetaG1_kind) (\<lambda>_.
         result_bind (ensure_unchanged (vk_beta_g2 (vk before)) (vk_beta_g2 (vk after)) BetaG2_kind) (\<lambda>_.
         result_bind (ensure_unchanged (vk_gamma_g2 (vk before)) (vk_gamma_g2 (vk after)) GammaG2) (\<lambda>_.
         result_bind (ensure_unchanged_vec (vk_gamma_abc_g1 (vk before)) (vk_gamma_abc_g1 (vk after)) GammaAbcG1) (\<lambda>_.
         result_bind (ensure_unchanged_vec (a_query before) (a_query after) AlphaG1Query) (\<lambda>_.
         result_bind (ensure_unchanged_vec (b_g1_query before) (b_g1_query after) BetaG1Query) (\<lambda>_.
         result_bind (ensure_unchanged_vec (b_g2_query before) (b_g2_query after) BetaG2Query) (\<lambda>_.
         result_bind (check_query_ratio E S (fst rng) (h_query before) (h_query after)
           (vk_delta_g2 (vk after), vk_delta_g2 (vk before)) ''H_query ratio check failed'') (\<lambda>_.
         result_bind (check_query_ratio E S (snd rng) (l_query before) (l_query after)
           (vk_delta_g2 (vk after), vk_delta_g2 (vk before)) ''L_query ratio check failed'') (\<lambda>_.
           verify_transcript E ops (cs_hash self) (mpc_contributions after'))))))))))))))))))))"

section \<open>Storage\<close>

definition mpc_write :: "('f, 'g, 'h, 't) PairingEngine \<Rightarrow> ('g, 'h) KeyCodec \<Rightarrow> ('g, 'h) MPCParameters \<Rightarrow> bytes" where
  "mpc_write E codec self = key_to_bytes codec (mpc_params self) @ cs_hash self @ write_keys E (mpc_contributions self)"

definition mpc_read ::
  "('f, 'g::ab_group_add, 'h::ab_group_add, 't) PairingEngine \<Rightarrow> ('g, 'h) KeyCodec \<Rightarrow> bytes \<Rightarrow> ('g, 'h) MPCParameters or_error" where
  "mpc_read E codec r =
     (case key_of_bytes codec r of
        None \<Rightarrow> Inl ZexeSerializationError
      | Some (params, r) \<Rightarrow>
          result_bind (read_exact 64 r) (\<lambda>(hash, r).
          result_bind (read_keys E r) (\<lambda>(keys, _).
            Inr \<lparr>mpc_params = params, cs_hash = hash, mpc_contributions = keys\<rparr>)))"

definition contains_contribution :: "bytes list \<Rightarrow> bytes \<Rightarrow> bool" where
  "contains_contribution hashes my_contribution = (\<exists>contrib\<in>set hashes. contrib = my_contribution)"

section \<open>What the circuit is evaluated to\<close>

definition row_value :: "usize \<Rightarrow> (nat \<Rightarrow> 'f::field) \<Rightarrow> 'f row \<Rightarrow> 'f" where
  "row_value num_inputs l row =
     (\<Sum>(coeff, lag)\<leftarrow>row. (case lag of Public i \<Rightarrow> l i | Private i \<Rightarrow> l (num_inputs + i)) * coeff)"

definition rows_within :: "usize \<Rightarrow> usize \<Rightarrow> 'f row list \<Rightarrow> bool" where
  "rows_within num_inputs n rows \<longleftrightarrow> (\<forall>row\<in>set rows. \<forall>(coeff, lag)\<in>set row. variable_index num_inputs lag < n)"

lemma rows_withinD: "rows_within k n rows \<Longrightarrow> i < length rows \<Longrightarrow> \<forall>(coeff, lag)\<in>set (rows ! i). variable_index k lag < n"
  using nth_mem [of i rows] by (auto simp: rows_within_def)

lemma dot_product_value:
  assumes laws: "subgroup_laws C" and row: "\<forall>(coeff, lag)\<in>set row. variable_index k lag < n"
  shows "dot_product C row (map (\<lambda>i. point_mul C (prime_subgroup_generator C) (l i)) [0..<n]) k =
    Inr (point_mul C (prime_subgroup_generator C) (row_value k l row))"
proof -
  note c = curve_lawsD [OF subgroup_lawsD(1) [OF laws]] and add = subgroup_lawsD(6) [OF laws curve_lawsD(1) [OF subgroup_lawsD(1) [OF laws]], symmetric]
  let ?cs = "map (\<lambda>i. point_mul C (prime_subgroup_generator C) (l i)) [0..<n]"
  have "fold_results (\<lambda>(coeff, lag) sum. let ind = variable_index k lag in
        if ind < length ?cs then Inr (sum + point_mul C (?cs ! ind) coeff) else Inl Panic) row (point_mul C (prime_subgroup_generator C) s) =
      Inr (point_mul C (prime_subgroup_generator C) (s + row_value k l row))" for s
    using row by (induction row arbitrary: s) (auto simp: row_value_def variable_index_def Let_def c add add.assoc split: Index.splits)
  from this [of 0] show ?thesis by (simp add: dot_product_def point_mul_zero(1) [OF laws c(1)])
qed

lemma dot_product_vec_value:
  assumes laws: "subgroup_laws C" and rows: "rows_within k n rows"
  shows "dot_product_vec C rows (map (\<lambda>i. point_mul C (prime_subgroup_generator C) (l i)) [0..<n]) k =
    Inr (map (\<lambda>row. point_mul C (prime_subgroup_generator C) (row_value k l row)) rows)"
  unfolding dot_product_vec_def collect_results_nth by (simp add: dot_product_value [OF laws rows_withinD [OF rows]])

definition qap_value :: "'f::field KeypairAssembly \<Rightarrow> (nat \<Rightarrow> 'f) \<Rightarrow> 'f PrivateKey \<Rightarrow> nat \<Rightarrow> 'f" where
  "qap_value assembly l key i =
     (let k = num_public_variables assembly in
      row_value k l (qap_at assembly ! i) * sk_beta key + row_value k l (qap_bt assembly ! i) * sk_alpha key + row_value k l (qap_ct assembly ! i))"

lemma row_value_mult: "row_value k (\<lambda>i. l i * a) row = row_value k l row * a"
  by (induction row) (auto simp: row_value_def algebra_simps split: Index.splits)

lemma dot_product_ext_value:
  assumes laws: "subgroup_laws C" and rows: "rows_within k n rows_a" "rows_within k n rows_b" "rows_within k n rows_c"
    and len: "length rows_b = length rows_a" "length rows_c = length rows_a"
  shows "dot_product_ext C (rows_a, map (\<lambda>i. point_mul C (prime_subgroup_generator C) (l i * b)) [0..<n])
      (rows_b, map (\<lambda>i. point_mul C (prime_subgroup_generator C) (l i * a)) [0..<n])
      (rows_c, map (\<lambda>i. point_mul C (prime_subgroup_generator C) (l i)) [0..<n]) k =
    Inr (map (\<lambda>i. point_mul C (prime_subgroup_generator C)
      (row_value k l (rows_a ! i) * b + row_value k l (rows_b ! i) * a + row_value k l (rows_c ! i))) [0..<length rows_a])"
proof -
  note add = subgroup_lawsD(6) [OF laws curve_lawsD(1) [OF subgroup_lawsD(1) [OF laws]], symmetric]
  show ?thesis
    unfolding dot_product_ext_def Let_def prod.case collect_results_nth
    using len by (auto simp: dot_product_value [OF laws rows_withinD [OF rows(1)]] dot_product_value [OF laws rows_withinD [OF rows(2)]]
        dot_product_value [OF laws rows_withinD [OF rows(3)]] row_value_mult add)
qed

definition circuit_key ::
  "('f::field, 'g::ab_group_add, 'h::ab_group_add, 't) PairingEngine \<Rightarrow> 'f KeypairAssembly \<Rightarrow> 'f \<Rightarrow> usize \<Rightarrow> 'f PrivateKey \<Rightarrow> ('g, 'h) ProvingKey" where
  "circuit_key E assembly w n key =
     (let g = point_mul (g1_affine E) (prime_subgroup_generator (g1_affine E)); h = point_mul (g2_affine E) (prime_subgroup_generator (g2_affine E));
          k = num_public_variables assembly; l = (\<lambda>i. lagrange w n i (sk_tau key)); m = length (qap_at assembly)
      in \<lparr>vk = \<lparr>vk_alpha_g1 = g (sk_alpha key), vk_beta_g2 = h (sk_beta key), vk_gamma_g2 = h 1, vk_delta_g2 = h 1,
                vk_gamma_abc_g1 = map (\<lambda>i. g (qap_value assembly l key i)) [0..<k]\<rparr>,
          key_beta_g1 = g (sk_beta key), key_delta_g1 = g 1,
          a_query = map (\<lambda>row. g (row_value k l row)) (qap_at assembly), b_g1_query = map (\<lambda>row. g (row_value k l row)) (qap_bt assembly),
          b_g2_query = map (\<lambda>row. h (row_value k l row)) (qap_bt assembly),
          h_query = map (\<lambda>i. g (sk_tau key ^ i * (sk_tau key ^ n - 1))) [0..<n - 1],
          l_query = map (\<lambda>i. g (qap_value assembly l key i)) [k..<m]\<rparr>)"

lemma mpc_new_value:
  assumes laws: "pairing_laws E" and rows: "rows_within (num_public_variables assembly) n (qap_at assembly)"
      "rows_within (num_public_variables assembly) n (qap_bt assembly)" "rows_within (num_public_variables assembly) n (qap_ct assembly)"
    and len: "length (qap_bt assembly) = length (qap_at assembly)" "length (qap_ct assembly) = length (qap_at assembly)"
      "num_public_variables assembly \<le> length (qap_at assembly)"
  shows "mpc_new E ops codec assembly (lagrange_params E w n key) =
    (if \<exists>i. num_public_variables assembly \<le> i \<and> i < length (qap_at assembly) \<and> qap_value assembly (\<lambda>i. lagrange w n i (sk_tau key)) key i = 0
     then Inl SynthesisFailed
     else Inr \<lparr>mpc_params = circuit_key E assembly w n key, cs_hash = hash_params codec ops (circuit_key E assembly w n key), mpc_contributions = []\<rparr>)"
proof -
  let ?C1 = "g1_affine E" and ?C2 = "g2_affine E" and ?k = "num_public_variables assembly" and ?l = "\<lambda>i. lagrange w n i (sk_tau key)"
    and ?m = "length (qap_at assembly)"
  note l = pairing_lawsD(1,2) [OF laws] and c1 = curve_lawsD [OF subgroup_lawsD(1) [OF pairing_lawsD(1) [OF laws]]]
    and c2 = curve_lawsD [OF subgroup_lawsD(1) [OF pairing_lawsD(2) [OF laws]]]
  let ?g = "point_mul ?C1 (prime_subgroup_generator ?C1)"
  let ?ext = "map (\<lambda>i. ?g (qap_value assembly ?l key i)) [0..<?m]"
  have split: "take ?k ?ext = map (\<lambda>i. ?g (qap_value assembly ?l key i)) [0..<?k]" "drop ?k ?ext = map (\<lambda>i. ?g (qap_value assembly ?l key i)) [?k..<?m]"
    using len(3) by (simp_all add: take_map drop_map)
  have ext: "dot_product_ext ?C1 (qap_at assembly, beta_coeffs_g1 (lagrange_params E w n key)) (qap_bt assembly, alpha_coeffs_g1 (lagrange_params E w n key))
      (qap_ct assembly, coeffs_g1 (lagrange_params E w n key)) ?k = Inr ?ext"
    using dot_product_ext_value [OF l(1) rows len(1,2), of ?l "sk_beta key" "sk_alpha key"] by (simp add: lagrange_params_def qap_value_def Let_def)
  have vecs: "dot_product_vec ?C1 rows (coeffs_g1 (lagrange_params E w n key)) ?k = Inr (map (\<lambda>row. ?g (row_value ?k ?l row)) rows)"
    "dot_product_vec ?C2 rows (coeffs_g2 (lagrange_params E w n key)) ?k = Inr (map (\<lambda>row. point_mul ?C2 (prime_subgroup_generator ?C2) (row_value ?k ?l row)) rows)"
    if "rows_within ?k n rows" for rows
    using dot_product_vec_value [OF l(1) that, of ?l] dot_product_vec_value [OF l(2) that, of ?l] by (simp_all add: lagrange_params_def Let_def)
  have zero: "(\<exists>e\<in>set (map (\<lambda>i. ?g (qap_value assembly ?l key i)) [?k..<?m]). e = 0) \<longleftrightarrow> (\<exists>i. ?k \<le> i \<and> i < ?m \<and> qap_value assembly ?l key i = 0)"
    using subgroup_lawsD(2) [OF l(1)] by (auto simp: point_mul_eq_0 [OF l(1) c1(1)])
  have eval: "eval_qap E (coeffs_g1 (lagrange_params E w n key)) (coeffs_g2 (lagrange_params E w n key)) (alpha_coeffs_g1 (lagrange_params E w n key))
      (beta_coeffs_g1 (lagrange_params E w n key)) (qap_at assembly) (qap_bt assembly) (qap_ct assembly) ?k =
    Inr (a_query (circuit_key E assembly w n key), b_g1_query (circuit_key E assembly w n key), b_g2_query (circuit_key E assembly w n key), take ?k ?ext, drop ?k ?ext)"
    unfolding eval_qap_def vecs(1) [OF rows(1)] vecs(1) [OF rows(2)] vecs(2) [OF rows(2)] ext result_bind_simps
    using len(3) by (simp add: split_at_def circuit_key_def Let_def)
  show ?thesis
    unfolding mpc_new_def eval result_bind_simps prod.case split zero
    by (auto simp: circuit_key_def lagrange_params_def Let_def c1(1,3) c2(1,3))
qed

text \<open>
  C18. The initial parameters of phase 2 are those of the circuit. On the Lagrange coefficients of secrets tau,
  alpha and beta, and for a circuit whose variables are within the domain: the parameters are rejected exactly
  when a private variable evaluates to zero; otherwise the queries hold the polynomials A and B of all variables
  at tau, the verifying key and the last query beta A + alpha B + C of the public and of the private variables,
  and the hash of the key is stored with no contributions.\<close>

theorem mpc_new_evaluates_circuit:
  assumes laws: "pairing_laws E" and rows: "rows_within (num_public_variables assembly) n (qap_at assembly)"
      "rows_within (num_public_variables assembly) n (qap_bt assembly)" "rows_within (num_public_variables assembly) n (qap_ct assembly)"
    and len: "length (qap_bt assembly) = length (qap_at assembly)" "length (qap_ct assembly) = length (qap_at assembly)"
      "num_public_variables assembly \<le> length (qap_at assembly)"
  shows "mpc_new E ops codec assembly (lagrange_params E w n key) =
    (if \<exists>i. num_public_variables assembly \<le> i \<and> i < length (qap_at assembly) \<and> qap_value assembly (\<lambda>i. lagrange w n i (sk_tau key)) key i = 0
     then Inl SynthesisFailed
     else Inr \<lparr>mpc_params = circuit_key E assembly w n key, cs_hash = hash_params codec ops (circuit_key E assembly w n key), mpc_contributions = []\<rparr>)"
  by (rule mpc_new_value [OF assms])

section \<open>Contributions multiply delta\<close>

definition scale_delta :: "('f::field, 'g, 'h, 't) PairingEngine \<Rightarrow> 'f \<Rightarrow> ('g, 'h) ProvingKey \<Rightarrow> ('g, 'h) ProvingKey" where
  "scale_delta E d key =
     key\<lparr>vk := (vk key)\<lparr>vk_delta_g2 := point_mul (g2_affine E) (vk_delta_g2 (vk key)) d\<rparr>,
         key_delta_g1 := point_mul (g1_affine E) (key_delta_g1 key) d,
         h_query := batch_mul (g1_affine E) (h_query key) (inverse d), l_query := batch_mul (g1_affine E) (l_query key) (inverse d)\<rparr>"

definition query_points :: "('f, 'g::ab_group_add, 'h::ab_group_add, 't) PairingEngine \<Rightarrow> ('g, 'h) ProvingKey \<Rightarrow> bool" where
  "query_points E key \<longleftrightarrow>
     valid_points (g1_affine E) CheckNo (key_delta_g1 key # h_query key @ l_query key) \<and> in_subgroup (g2_affine E) (vk_delta_g2 (vk key))"

fun mpc_contribute_all ::
  "('f::field, 'g, 'h, 't) PairingEngine \<Rightarrow> 'h Phase2Ops \<Rightarrow> ('g, 'h) MPCParameters \<Rightarrow> ('f \<times> 'g) list \<Rightarrow> ('g, 'h) MPCParameters or_error" where
  "mpc_contribute_all E ops self [] = Inr self"
| "mpc_contribute_all E ops self (draws # rest) =
     result_bind (mpc_contribute E ops self draws) (\<lambda>(self', _). mpc_contribute_all E ops self' rest)"

definition new_key ::
  "('f, 'g, 'h, 't) PairingEngine \<Rightarrow> 'h Phase2Ops \<Rightarrow> ('g, 'h) MPCParameters \<Rightarrow> 'f \<times> 'g \<Rightarrow> ('g, 'h) Phase2PublicKey" where
  "new_key E ops self draws = fst (keypair_new E ops (key_delta_g1 (mpc_params self)) (cs_hash self) (mpc_contributions self) draws)"

lemma mpc_contribute_ok:
  "mpc_contribute E ops self draws =
    (if fst draws = 0 then Inl Panic
     else Inr (self\<lparr>mpc_params := scale_delta E (fst draws) (mpc_params self), mpc_contributions := mpc_contributions self @ [new_key E ops self draws]\<rparr>,
       phase2_key_hash E ops (new_key E ops self draws)))"
  by (simp add: mpc_contribute_def new_key_def keypair_new_def scale_delta_def Let_def split: prod.splits)

lemma batch_mul_mult:
  "curve_laws C \<Longrightarrow> valid_points C check xs \<Longrightarrow> batch_mul C (batch_mul C xs a) b = batch_mul C xs (a * b)"
  by (auto simp: batch_mul_def valid_points_def curve_lawsD)

lemma batch_mul_valid: "curve_laws C \<Longrightarrow> valid_points C check xs \<Longrightarrow> valid_points C CheckNo (batch_mul C xs a)"
  by (auto simp: batch_mul_def valid_points_def curve_lawsD)

lemma length_batch_mul [simp]: "length (batch_mul C xs a) = length xs"
  by (simp add: batch_mul_def)

lemma scale_delta_points:
  assumes "engine_laws E" "query_points E key"
  shows "query_points E (scale_delta E d key)"
  using assms batch_mul_valid [OF engine_lawsD(1) [OF assms(1)], of CheckNo "h_query key"]
    batch_mul_valid [OF engine_lawsD(1) [OF assms(1)], of CheckNo "l_query key"]
  by (auto simp: query_points_def scale_delta_def valid_points_def curve_lawsD [OF engine_lawsD(1) [OF assms(1)]] curve_lawsD [OF engine_lawsD(2) [OF assms(1)]])

lemma scale_delta_mult:
  assumes "engine_laws E" "query_points E key"
  shows "scale_delta E b (scale_delta E a key) = scale_delta E (a * b) key"
proof -
  have v: "valid_points (g1_affine E) CheckNo (h_query key)" "valid_points (g1_affine E) CheckNo (l_query key)"
    using assms(2) by (simp_all add: query_points_def valid_points_def)
  show ?thesis
    using assms(2) batch_mul_mult [OF engine_lawsD(1) [OF assms(1)] v(1)] batch_mul_mult [OF engine_lawsD(1) [OF assms(1)] v(2)]
    by (simp add: scale_delta_def query_points_def valid_points_def curve_lawsD [OF engine_lawsD(1) [OF assms(1)]] curve_lawsD [OF engine_lawsD(2) [OF assms(1)]])
qed

lemma scale_delta_one:
  assumes "engine_laws E" "query_points E key"
  shows "scale_delta E 1 key = key"
proof -
  have "batch_mul (g1_affine E) (h_query key) 1 = h_query key" "batch_mul (g1_affine E) (l_query key) 1 = l_query key"
    using assms(2) by (auto simp: query_points_def valid_points_def batch_mul_def curve_lawsD [OF engine_lawsD(1) [OF assms(1)]] intro!: map_idI)
  then show ?thesis
    using assms(2) by (simp add: scale_delta_def query_points_def valid_points_def
        curve_lawsD [OF engine_lawsD(1) [OF assms(1)]] curve_lawsD [OF engine_lawsD(2) [OF assms(1)]])
qed

lemma contribute_all_params:
  assumes "engine_laws E" "query_points E (mpc_params self)" "\<forall>draws\<in>set rest. fst draws \<noteq> 0"
  shows "case mpc_contribute_all E ops self rest of
      Inl e \<Rightarrow> False
    | Inr after \<Rightarrow> mpc_params after = scale_delta E (prod_list (map fst rest)) (mpc_params self) \<and> cs_hash after = cs_hash self \<and>
        length (mpc_contributions after) = length (mpc_contributions self) + length rest"
  using assms(2,3)
proof (induction rest arbitrary: self)
  case Nil
  then show ?case using assms(1) by (simp add: scale_delta_one)
next
  case (Cons draws rest)
  let ?self = "self\<lparr>mpc_params := scale_delta E (fst draws) (mpc_params self), mpc_contributions := mpc_contributions self @ [new_key E ops self draws]\<rparr>"
  have "query_points E (mpc_params ?self)" using scale_delta_points [OF assms(1) Cons.prems(1)] by simp
  with Cons.IH [of ?self] Cons.prems show ?case
    by (auto simp: mpc_contribute_ok scale_delta_mult [OF assms(1)] split: sum.splits)
qed

text \<open>
  A sequence of contributions to phase 2 multiplies delta by the product of the secrets: with any number of
  contributors with nonzero secrets, delta is multiplied in both groups, the queries for H and L are divided by
  the product, everything else of the proving key and the hash stay the same, and each contributor adds one
  public key.\<close>

theorem phase2_contributions_multiply:
  assumes "engine_laws E" "query_points E (mpc_params self)" "\<forall>draws\<in>set rest. fst draws \<noteq> 0"
  shows "case mpc_contribute_all E ops self rest of
      Inl e \<Rightarrow> False
    | Inr after \<Rightarrow> mpc_params after = scale_delta E (prod_list (map fst rest)) (mpc_params self) \<and> cs_hash after = cs_hash self \<and>
        length (mpc_contributions after) = length (mpc_contributions self) + length rest"
  by (rule contribute_all_params [OF assms])

section \<open>What the verification decides\<close>

lemma ensure_iff [simp]:
  "ensure_unchanged a b kind = Inr () \<longleftrightarrow> a = b" "ensure_same_length xs ys = Inr () \<longleftrightarrow> length xs = length ys"
  by (simp_all add: ensure_unchanged_def ensure_same_length_def)

lemma ensure_unchanged_vec_iff [simp]: "ensure_unchanged_vec xs ys kind = Inr () \<longleftrightarrow> xs = ys"
  by (auto simp: ensure_unchanged_vec_def fold_results_unit list_eq_iff_zip_eq)

lemma unit_bind_iff: "result_bind (m :: unit or_error) f = Inr v \<longleftrightarrow> m = Inr () \<and> f () = Inr v"
  by (cases m) simp_all

definition last_delta :: "('f, 'g, 'h, 't) PairingEngine \<Rightarrow> ('g, 'h) Phase2PublicKey list \<Rightarrow> 'g" where
  "last_delta E keys = (if keys = [] then prime_subgroup_generator (g1_affine E) else delta_after (last keys))"

text \<open>What a contribution may not change.\<close>

definition same_circuit :: "('g, 'h) ProvingKey \<Rightarrow> ('g, 'h) ProvingKey \<Rightarrow> bool" where
  "same_circuit before after \<longleftrightarrow>
     vk_alpha_g1 (vk after) = vk_alpha_g1 (vk before) \<and> vk_beta_g2 (vk after) = vk_beta_g2 (vk before) \<and>
     vk_gamma_g2 (vk after) = vk_gamma_g2 (vk before) \<and> vk_gamma_abc_g1 (vk after) = vk_gamma_abc_g1 (vk before) \<and>
     key_beta_g1 after = key_beta_g1 before \<and> a_query after = a_query before \<and> b_g1_query after = b_g1_query before \<and>
     b_g2_query after = b_g2_query before \<and> length (h_query after) = length (h_query before) \<and> length (l_query after) = length (l_query before)"

lemma mpc_verify_iff:
  "mpc_verify E ops S rng self after = Inr hashes \<longleftrightarrow>
    mpc_contributions after \<noteq> [] \<and> key_delta_g1 (mpc_params after) = last_delta E (mpc_contributions after) \<and>
    same_ratio E (prime_subgroup_generator (g1_affine E), last_delta E (mpc_contributions after))
      (prime_subgroup_generator (g2_affine E), vk_delta_g2 (vk (mpc_params after))) \<and>
    length (mpc_contributions self) \<le> length (mpc_contributions after) \<and>
    mpc_contributions self = take (length (mpc_contributions self)) (mpc_contributions after) \<and>
    cs_hash after = cs_hash self \<and> same_circuit (mpc_params self) (mpc_params after) \<and>
    check_query_ratio E S (fst rng) (h_query (mpc_params self)) (h_query (mpc_params after))
      (vk_delta_g2 (vk (mpc_params after)), vk_delta_g2 (vk (mpc_params self))) ''H_query ratio check failed'' = Inr () \<and>
    check_query_ratio E S (snd rng) (l_query (mpc_params self)) (l_query (mpc_params after))
      (vk_delta_g2 (vk (mpc_params after)), vk_delta_g2 (vk (mpc_params self))) ''L_query ratio check failed'' = Inr () \<and>
    verify_transcript E ops (cs_hash self) (mpc_contributions after) = Inr hashes"
  unfolding mpc_verify_def Let_def
  by (auto simp: unit_bind_iff result_bind_ok_iff slice_def same_circuit_def last_delta_def check_same_ratio_iff split: if_splits)

lemma check_query_ratio_iff:
  assumes laws: "pairing_laws E" "scalar_laws E S" and v: "valid_points (g1_affine E) CheckNo xs" "valid_points (g1_affine E) CheckNo ys"
      "length ys = length xs" "length xs < 2 ^ 32" and q: "in_subgroup (g2_affine E) q" "q \<noteq> 0"
  shows "check_query_ratio E S r xs ys (q, point_mul (g2_affine E) q x) err = Inr () \<longleftrightarrow>
    combination (g1_affine E) r ys = point_mul (g1_affine E) (combination (g1_affine E) r xs) x"
proof -
  note l = pairing_lawsD(1) [OF laws(1)]
  have sub: "in_subgroup (g1_affine E) (combination (g1_affine E) r w)" if "valid_points (g1_affine E) CheckNo w" for w
    using that unfolding combination_def
    by (intro combination_subgroup [OF l]) (auto simp: valid_points_def curve_lawsD(2) [OF subgroup_lawsD(1) [OF l]])
  have "merge_pairs S r xs ys = Inr (combination (g1_affine E) r xs, combination (g1_affine E) r ys)"
    using laws(2) by (intro merge_pairs_value [where check = CheckNo, OF _ _ _ v]) (auto simp: scalar_laws_def)
  then show ?thesis using same_ratio_left [OF laws(1) sub [OF v(1)] sub [OF v(2)] q] by (simp add: check_query_ratio_def)
qed

lemma scaled_ratio:
  assumes laws: "pairing_laws E" "scalar_laws E S" and v: "valid_points (g1_affine E) CheckNo xs" "length xs < 2 ^ 32"
    and q: "in_subgroup (g2_affine E) q" "q \<noteq> 0"
  shows "check_query_ratio E S r xs (batch_mul (g1_affine E) xs x) (q, point_mul (g2_affine E) q x) err = Inr ()"
  unfolding check_query_ratio_iff [OF laws v(1) batch_mul_valid [OF engine_lawsD(1) [OF pairing_lawsD(3) [OF laws(1)]] v(1)] length_batch_mul v(2) q]
  by (rule combination_mult [OF pairing_lawsD(1) [OF laws(1)] v(1)]) (simp_all add: batch_mul_def)

lemma result_bind_assoc: "result_bind (result_bind m f) g = result_bind m (\<lambda>x. result_bind (f x) g)"
  by (cases m) simp_all

lemma transcript_Cons:
  "verify_transcript_loop E ops hash previous old (key # keys) =
     result_bind (verify_transcript_loop E ops hash previous old [key]) (\<lambda>new.
     result_bind (verify_transcript_loop E ops hash (previous @ [key]) (delta_after key) keys) (\<lambda>hashes. Inr (new @ hashes)))"
  by (simp add: Let_def result_bind_assoc)

lemma transcript_snoc:
  "verify_transcript_loop E ops hash previous old (keys @ [key]) =
     result_bind (verify_transcript_loop E ops hash previous old keys) (\<lambda>hashes.
     result_bind (verify_transcript_loop E ops hash (previous @ keys) (if keys = [] then old else delta_after (last keys)) [key]) (\<lambda>new.
       Inr (hashes @ new)))"
proof (induction keys arbitrary: previous old)
  case Nil
  show ?case by (simp add: Let_def result_bind_assoc)
next
  case (Cons k keys)
  have "verify_transcript_loop E ops hash previous old ((k # keys) @ [key]) =
      result_bind (verify_transcript_loop E ops hash previous old [k]) (\<lambda>new.
      result_bind (verify_transcript_loop E ops hash (previous @ [k]) (delta_after k) (keys @ [key])) (\<lambda>hashes. Inr (new @ hashes)))"
    unfolding append_Cons by (rule transcript_Cons)
  also have "\<dots> = result_bind (verify_transcript_loop E ops hash previous old (k # keys)) (\<lambda>hashes.
     result_bind (verify_transcript_loop E ops hash (previous @ k # keys) (delta_after (last (k # keys))) [key]) (\<lambda>new. Inr (hashes @ new)))"
    unfolding Cons transcript_Cons [of E ops hash previous old k keys] result_bind_assoc by (simp del: verify_transcript_loop.simps)
  finally show ?case by (simp del: verify_transcript_loop.simps)
qed

section \<open>Honest contributions are accepted\<close>

definition mpc_consistent ::
  "('f::field, 'g::ab_group_add, 'h::ab_group_add, 't) PairingEngine \<Rightarrow> 'h Phase2Ops \<Rightarrow> ('g, 'h) MPCParameters \<Rightarrow> bool" where
  "mpc_consistent E ops self \<longleftrightarrow>
     query_points E (mpc_params self) \<and> length (h_query (mpc_params self)) < 2 ^ 32 \<and> length (l_query (mpc_params self)) < 2 ^ 32 \<and>
     (\<exists>d. d \<noteq> 0 \<and> key_delta_g1 (mpc_params self) = point_mul (g1_affine E) (prime_subgroup_generator (g1_affine E)) d \<and>
        vk_delta_g2 (vk (mpc_params self)) = point_mul (g2_affine E) (prime_subgroup_generator (g2_affine E)) d) \<and>
     key_delta_g1 (mpc_params self) = last_delta E (mpc_contributions self) \<and>
     verify_transcript E ops (cs_hash self) (mpc_contributions self) = Inr (map (phase2_key_hash E ops) (mpc_contributions self))"

lemma new_key_verifies:
  assumes laws: "pairing_laws E" and hash: "in_subgroup (g2_affine E) (transcript_point ops (transcript (new_key E ops self draws)))"
    and d: "in_subgroup (g1_affine E) (key_delta_g1 (mpc_params self))" "in_subgroup (g1_affine E) (snd draws)"
  shows "verify_transcript_loop E ops (cs_hash self) (mpc_contributions self) (key_delta_g1 (mpc_params self)) [new_key E ops self draws] =
    Inr [phase2_key_hash E ops (new_key E ops self draws)]"
  using hash d
  by (simp add: new_key_def keypair_new_def Let_def ensure_unchanged_def same_ratio_scaled [OF laws] split: prod.splits)

lemma contribute_consistent:
  assumes laws: "pairing_laws E" and hash: "\<forall>t. in_subgroup (g2_affine E) (transcript_point ops t)" and self: "mpc_consistent E ops self"
    and draws: "fst draws \<noteq> 0" "in_subgroup (g1_affine E) (snd draws)"
    and after: "mpc_contribute E ops self draws = Inr (after, h)"
  shows "mpc_consistent E ops after" "verify_transcript E ops (cs_hash self) (mpc_contributions after) = Inr (map (phase2_key_hash E ops) (mpc_contributions self) @ [h])"
proof -
  note el = pairing_lawsD(3) [OF laws]
  note c1 = curve_lawsD [OF engine_lawsD(1) [OF el]] and c2 = curve_lawsD [OF engine_lawsD(2) [OF el]]
  let ?key = "new_key E ops self draws"
  have a: "after = self\<lparr>mpc_params := scale_delta E (fst draws) (mpc_params self), mpc_contributions := mpc_contributions self @ [?key]\<rparr>"
    "h = phase2_key_hash E ops ?key"
    using after draws(1) by (simp_all add: mpc_contribute_ok)
  from self obtain d where d: "d \<noteq> 0" "key_delta_g1 (mpc_params self) = point_mul (g1_affine E) (prime_subgroup_generator (g1_affine E)) d"
    "vk_delta_g2 (vk (mpc_params self)) = point_mul (g2_affine E) (prime_subgroup_generator (g2_affine E)) d"
    and s: "query_points E (mpc_params self)" "length (h_query (mpc_params self)) < 2 ^ 32" "length (l_query (mpc_params self)) < 2 ^ 32"
      "key_delta_g1 (mpc_params self) = last_delta E (mpc_contributions self)"
      "verify_transcript E ops (cs_hash self) (mpc_contributions self) = Inr (map (phase2_key_hash E ops) (mpc_contributions self))"
    by (auto simp: mpc_consistent_def)
  have "verify_transcript_loop E ops (cs_hash self) (mpc_contributions self) (key_delta_g1 (mpc_params self)) [?key] = Inr [h]"
    unfolding a(2) by (rule new_key_verifies [OF laws]) (use hash d c1 draws(2) in auto)
  then show t: "verify_transcript E ops (cs_hash self) (mpc_contributions after) = Inr (map (phase2_key_hash E ops) (mpc_contributions self) @ [h])"
    using s(4,5) by (simp add: verify_transcript_def transcript_snoc a(1) last_delta_def del: verify_transcript_loop.simps)
  have "key_delta_g1 (mpc_params after) = point_mul (g1_affine E) (prime_subgroup_generator (g1_affine E)) (d * fst draws)"
    "vk_delta_g2 (vk (mpc_params after)) = point_mul (g2_affine E) (prime_subgroup_generator (g2_affine E)) (d * fst draws)"
    by (simp_all add: a(1) scale_delta_def d(2,3) c1 c2)
  moreover have "d * fst draws \<noteq> 0" using d(1) draws(1) by simp
  moreover have "key_delta_g1 (mpc_params after) = delta_after ?key"
    by (simp add: a(1) scale_delta_def new_key_def keypair_new_def Let_def split: prod.splits)
  moreover have "query_points E (mpc_params after)" using scale_delta_points [OF el s(1)] by (simp add: a(1))
  moreover have "length (h_query (mpc_params after)) < 2 ^ 32" "length (l_query (mpc_params after)) < 2 ^ 32"
    using s(2,3) by (simp_all add: a(1) scale_delta_def)
  moreover have "cs_hash after = cs_hash self" "mpc_contributions after = mpc_contributions self @ [?key]" by (simp_all add: a(1))
  ultimately show "mpc_consistent E ops after"
    using t by (auto simp: mpc_consistent_def last_delta_def a(2) intro!: exI [of _ "d * fst draws"])
qed

lemma scaled_verifies:
  assumes laws: "pairing_laws E" "scalar_laws E S" and con: "mpc_consistent E ops self" "mpc_consistent E ops after"
    and a: "mpc_params after = scale_delta E x (mpc_params self)" "x \<noteq> 0" "mpc_contributions after = mpc_contributions self @ new"
      "mpc_contributions after \<noteq> []" "cs_hash after = cs_hash self"
  shows "mpc_verify E ops S rng self after = Inr (map (phase2_key_hash E ops) (mpc_contributions after))"
proof -
  note el = pairing_lawsD(3) [OF laws(1)]
  note c1 = curve_lawsD [OF engine_lawsD(1) [OF el]] and c2 = curve_lawsD [OF engine_lawsD(2) [OF el]]
  from con(1) have points: "valid_points (g1_affine E) CheckNo (h_query (mpc_params self))" "valid_points (g1_affine E) CheckNo (l_query (mpc_params self))"
    and len: "length (h_query (mpc_params self)) < 2 ^ 32" "length (l_query (mpc_params self)) < 2 ^ 32"
    by (auto simp: mpc_consistent_def query_points_def valid_points_def)
  from con(1) obtain d where d: "d \<noteq> 0" "vk_delta_g2 (vk (mpc_params self)) = point_mul (g2_affine E) (prime_subgroup_generator (g2_affine E)) d"
    by (auto simp: mpc_consistent_def)
  let ?q = "vk_delta_g2 (vk (mpc_params after))"
  have q: "in_subgroup (g2_affine E) ?q" "?q \<noteq> 0" "vk_delta_g2 (vk (mpc_params self)) = point_mul (g2_affine E) ?q (inverse x)"
    using d a(2) subgroup_lawsD(2) [OF pairing_lawsD(2) [OF laws(1)]]
    by (simp_all add: a(1) scale_delta_def c2 point_mul_eq_0 [OF pairing_lawsD(2) [OF laws(1)]] mult.assoc)
  have ratio: "check_query_ratio E S r xs (batch_mul (g1_affine E) xs (inverse x)) (?q, vk_delta_g2 (vk (mpc_params self))) err = Inr ()"
    if "valid_points (g1_affine E) CheckNo xs" "length xs < 2 ^ 32" for r xs err
    unfolding q(3) by (rule scaled_ratio [OF laws that q(1,2)])
  from con(2) obtain d' where d': "key_delta_g1 (mpc_params after) = point_mul (g1_affine E) (prime_subgroup_generator (g1_affine E)) d'"
    "?q = point_mul (g2_affine E) (prime_subgroup_generator (g2_affine E)) d'" "key_delta_g1 (mpc_params after) = last_delta E (mpc_contributions after)"
    "verify_transcript E ops (cs_hash after) (mpc_contributions after) = Inr (map (phase2_key_hash E ops) (mpc_contributions after))"
    unfolding mpc_consistent_def by blast
  show ?thesis
    unfolding mpc_verify_iff
    using d' a(4) ratio [OF points(1) len(1)] ratio [OF points(2) len(2)] same_ratio_scaled [OF laws(1) c1(1) c2(1), of d']
    by (simp add: a(1,3,5) scale_delta_def same_circuit_def check_same_ratio_iff)
qed

text \<open>
  An honest contribution to phase 2 is accepted. From consistent parameters and with a nonzero secret a
  contribution succeeds and leaves consistent parameters again, and verifying them against those before
  succeeds, whatever scalars are drawn, and returns one hash for every contribution, among them the one that
  the contributor was given.\<close>

theorem honest_phase2_verifies:
  assumes laws: "pairing_laws E" "scalar_laws E S" and hash: "\<forall>t. in_subgroup (g2_affine E) (transcript_point ops t)"
    and self: "mpc_consistent E ops self" and draws: "fst draws \<noteq> 0" "in_subgroup (g1_affine E) (snd draws)"
  shows "case mpc_contribute E ops self draws of
      Inl e \<Rightarrow> False
    | Inr (after, h) \<Rightarrow> mpc_consistent E ops after \<and>
        (case mpc_verify E ops S rng self after of
           Inl e \<Rightarrow> False
         | Inr hashes \<Rightarrow> length hashes = length (mpc_contributions after) \<and> contains_contribution hashes h)"
proof -
  obtain after h where after: "mpc_contribute E ops self draws = Inr (after, h)" using draws(1) by (auto simp: mpc_contribute_ok)
  have a: "mpc_params after = scale_delta E (fst draws) (mpc_params self)" "mpc_contributions after = mpc_contributions self @ [new_key E ops self draws]"
    "cs_hash after = cs_hash self" "h = phase2_key_hash E ops (new_key E ops self draws)"
    using after draws(1) by (auto simp: mpc_contribute_ok)
  note con = contribute_consistent(1) [OF laws(1) hash self draws after]
  from scaled_verifies [OF laws self con a(1) draws(1) a(2) _ a(3), of rng] after con show ?thesis
    by (simp add: a(2,4) contains_contribution_def)
qed

lemma contribute_all_consistent:
  assumes laws: "pairing_laws E" and hash: "\<forall>t. in_subgroup (g2_affine E) (transcript_point ops t)"
  shows "mpc_consistent E ops self \<Longrightarrow> \<forall>draws\<in>set rest. fst draws \<noteq> 0 \<and> in_subgroup (g1_affine E) (snd draws) \<Longrightarrow>
    mpc_contribute_all E ops self rest = Inr after \<Longrightarrow> mpc_consistent E ops after \<and> (\<exists>new. mpc_contributions after = mpc_contributions self @ new)"
proof (induction rest arbitrary: self)
  case (Cons draws rest)
  from Cons.prems(3) obtain self' h where c: "mpc_contribute E ops self draws = Inr (self', h)" "mpc_contribute_all E ops self' rest = Inr after"
    by (auto simp: result_bind_ok_iff)
  have "mpc_consistent E ops self'" using contribute_consistent(1) [OF laws hash Cons.prems(1) _ _ c(1)] Cons.prems(2) by simp
  with Cons.IH [OF this _ c(2)] Cons.prems(2) c(1) show ?case by (auto simp: mpc_contribute_ok split: if_splits)
qed auto

section \<open>What an accepted contribution proves\<close>

definition proves_delta ::
  "('f, 'g, 'h, 't) PairingEngine \<Rightarrow> 'h Phase2Ops \<Rightarrow> bytes \<Rightarrow> ('g, 'h) Phase2PublicKey list \<Rightarrow> nat \<Rightarrow> 'f \<Rightarrow> bool" where
  "proves_delta E ops hash keys i d \<longleftrightarrow>
     (let key = keys ! i in
      transcript key = hash_cs_pubkeys E ops hash (take i keys) (key_s key) (s_delta key) \<and>
      s_delta key = point_mul (g1_affine E) (key_s key) d \<and>
      r_delta key = point_mul (g2_affine E) (transcript_point ops (transcript key)) d \<and>
      delta_after key = point_mul (g1_affine E) (last_delta E (take i keys)) d)"

lemma transcript_proves:
  assumes laws: "pairing_laws E" and hash: "\<forall>t. in_subgroup (g2_affine E) (transcript_point ops t) \<and> transcript_point ops t \<noteq> 0"
    and keys: "\<forall>key\<in>set keys. key_valid E key"
  shows "verify_transcript E ops h keys = Inr hashes \<Longrightarrow>
    hashes = map (phase2_key_hash E ops) keys \<and>
    (\<exists>ds. length ds = length keys \<and> 0 \<notin> set ds \<and> (\<forall>i<length keys. proves_delta E ops h keys i (ds ! i)) \<and>
       last_delta E keys = point_mul (g1_affine E) (prime_subgroup_generator (g1_affine E)) (prod_list ds))"
  using keys unfolding verify_transcript_def
proof (induction keys arbitrary: hashes rule: rev_induct)
  case Nil
  then show ?case using curve_lawsD(1,3) [OF subgroup_lawsD(1) [OF pairing_lawsD(1) [OF laws]]] by (simp add: last_delta_def)
next
  case (snoc key keys)
  note l = pairing_lawsD(1,2) [OF laws] and c1 = curve_lawsD [OF subgroup_lawsD(1) [OF pairing_lawsD(1) [OF laws]]]
  have old: "(if keys = [] then prime_subgroup_generator (g1_affine E) else delta_after (last keys)) = last_delta E keys" by (simp add: last_delta_def)
  from snoc.prems(1) obtain hs where hs: "verify_transcript_loop E ops h [] (prime_subgroup_generator (g1_affine E)) keys = Inr hs"
    and key: "transcript key = hash_cs_pubkeys E ops h keys (key_s key) (s_delta key)"
      "same_ratio E (key_s key, s_delta key) (transcript_point ops (transcript key), r_delta key)"
      "same_ratio E (last_delta E keys, delta_after key) (transcript_point ops (transcript key), r_delta key)"
    and hashes: "hashes = hs @ [phase2_key_hash E ops key]"
    unfolding transcript_snoc old by (auto simp: result_bind_ok_iff unit_bind_iff Let_def check_same_ratio_iff)
  obtain ds where ds: "hs = map (phase2_key_hash E ops) keys" "length ds = length keys" "0 \<notin> set ds"
    "\<forall>i<length keys. proves_delta E ops h keys i (ds ! i)"
    "last_delta E keys = point_mul (g1_affine E) (prime_subgroup_generator (g1_affine E)) (prod_list ds)"
    using snoc.IH [OF hs] snoc.prems(2) by auto
  let ?r = "transcript_point ops (transcript key)"
  have r: "in_subgroup (g2_affine E) ?r" "?r \<noteq> 0" using hash by simp_all
  have valid: "in_subgroup (g1_affine E) (key_s key)" "in_subgroup (g1_affine E) (s_delta key)" "in_subgroup (g1_affine E) (delta_after key)"
    "in_subgroup (g2_affine E) (r_delta key)" "r_delta key \<noteq> 0"
    using snoc.prems(2) by (auto simp: key_valid_def valid_points_def accepted_def)
  obtain d where d: "r_delta key = point_mul (g2_affine E) ?r d" by (rule multiple_exists [OF l(2) r valid(4)])
  have "d \<noteq> 0" using valid(5) d point_mul_zero(1) [OF l(2) r(1)] by auto
  moreover have "s_delta key = point_mul (g1_affine E) (key_s key) d"
    using key(2) same_ratio_left [OF laws valid(1,2) r, of d] by (simp add: d check_same_ratio_iff)
  moreover have last: "in_subgroup (g1_affine E) (last_delta E keys)" using ds(5) c1 by simp
  moreover have "delta_after key = point_mul (g1_affine E) (last_delta E keys) d"
    using key(3) same_ratio_left [OF laws last valid(3) r, of d] by (simp add: d check_same_ratio_iff)
  moreover have "proves_delta E ops h (keys @ [key]) i x \<longleftrightarrow> proves_delta E ops h keys i x" if "i < length keys" for i x
    using that by (simp add: proves_delta_def nth_append Let_def)
  ultimately show ?case
    using ds d key(1) hashes c1
    by (intro conjI exI [of _ "ds @ [d]"]) (auto simp: less_Suc_eq nth_append proves_delta_def last_delta_def Let_def)
qed

text \<open>
  C14. Accepted parameters of phase 2 come with a proof of every secret. If the verification accepts, and the
  public keys hold nonzero points of the subgroups (as the reader checks): the contributions before are the
  first of those after, nothing of the circuit has changed, the returned hashes are those of all contributions,
  and there is a nonzero secret for each contribution, which its public key proves for the transcript before it,
  such that delta is the product of all of them in both groups.\<close>

theorem phase2_verification_sound:
  assumes laws: "pairing_laws E" and hash: "\<forall>t. in_subgroup (g2_affine E) (transcript_point ops t) \<and> transcript_point ops t \<noteq> 0"
    and keys: "\<forall>key\<in>set (mpc_contributions after). key_valid E key" and delta: "in_subgroup (g2_affine E) (vk_delta_g2 (vk (mpc_params after)))"
    and ok: "mpc_verify E ops S rng self after = Inr hashes"
  shows "hashes = map (phase2_key_hash E ops) (mpc_contributions after) \<and> hashes \<noteq> [] \<and>
    take (length (mpc_contributions self)) (mpc_contributions after) = mpc_contributions self \<and>
    cs_hash after = cs_hash self \<and> same_circuit (mpc_params self) (mpc_params after) \<and>
    (\<exists>ds. length ds = length (mpc_contributions after) \<and> 0 \<notin> set ds \<and>
       (\<forall>i<length ds. proves_delta E ops (cs_hash self) (mpc_contributions after) i (ds ! i)) \<and>
       key_delta_g1 (mpc_params after) = point_mul (g1_affine E) (prime_subgroup_generator (g1_affine E)) (prod_list ds) \<and>
       vk_delta_g2 (vk (mpc_params after)) = point_mul (g2_affine E) (prime_subgroup_generator (g2_affine E)) (prod_list ds))"
proof -
  note l = pairing_lawsD(1,2) [OF laws] and c1 = curve_lawsD [OF subgroup_lawsD(1) [OF pairing_lawsD(1) [OF laws]]]
    and c2 = curve_lawsD [OF subgroup_lawsD(1) [OF pairing_lawsD(2) [OF laws]]]
  note v = ok [unfolded mpc_verify_iff]
  obtain ds where ds: "hashes = map (phase2_key_hash E ops) (mpc_contributions after)" "length ds = length (mpc_contributions after)" "0 \<notin> set ds"
    "\<forall>i<length (mpc_contributions after). proves_delta E ops (cs_hash self) (mpc_contributions after) i (ds ! i)"
    "last_delta E (mpc_contributions after) = point_mul (g1_affine E) (prime_subgroup_generator (g1_affine E)) (prod_list ds)"
    using transcript_proves [OF laws hash keys] v by blast
  have "vk_delta_g2 (vk (mpc_params after)) = point_mul (g2_affine E) (prime_subgroup_generator (g2_affine E)) (prod_list ds)"
    using v same_ratio_right [OF laws c2(1) delta c1(1) subgroup_lawsD(2) [OF l(1)], of "prod_list ds"] by (simp add: ds(5) check_same_ratio_iff)
  with ds v show ?thesis by auto
qed

text \<open>Two draws that differ in one scalar and are both accepted force the element that the scalar belongs to.\<close>

lemma query_forced:
  assumes laws: "pairing_laws E" "scalar_laws E S"
    and xs: "valid_points (g1_affine E) CheckNo xs" "valid_points (g1_affine E) CheckNo ys" "length ys = length xs" "length xs < 2 ^ 32"
    and q: "in_subgroup (g2_affine E) q" "q \<noteq> 0" "q' = point_mul (g2_affine E) q x"
    and two: "\<forall>j. \<exists>f r r'. r \<noteq> r' \<and> check_query_ratio E S (f(j := r)) xs ys (q, q') err = Inr () \<and> check_query_ratio E S (f(j := r')) xs ys (q, q') err = Inr ()"
  shows "ys = batch_mul (g1_affine E) xs x"
proof (rule nth_equalityI)
  fix j assume "j < length ys"
  then have j: "j < length xs" using xs(3) by simp
  from two [rule_format, of j] have "ys ! j = point_mul (g1_affine E) (xs ! j) x"
    unfolding q(3) check_query_ratio_iff [OF laws xs q(1,2)] using combination_unique [OF pairing_lawsD(1) [OF laws(1)] xs(1-3) j] by blast
  then show "ys ! j = batch_mul (g1_affine E) xs x ! j" using j by (simp add: batch_mul_def)
qed (simp add: xs(3))

text \<open>
  C17. Accepted parameters of phase 2 have divided the queries by the new secrets. Let delta be a nonzero multiple
  of the generator before and after, and the queries hold points of the subgroup. Either every element of the
  queries for H and L is the one before times the quotient of the deltas, or there is a scalar among those that
  the verification draws such that, whatever the others are, at most one value of it makes it accept.\<close>

theorem phase2_queries_sound:
  assumes laws: "pairing_laws E" "scalar_laws E S" and q: "query_points E (mpc_params self)" "query_points E (mpc_params after)"
    and len: "length (h_query (mpc_params self)) < 2 ^ 32" "length (l_query (mpc_params self)) < 2 ^ 32"
    and d: "vk_delta_g2 (vk (mpc_params self)) = point_mul (g2_affine E) (prime_subgroup_generator (g2_affine E)) d"
      "vk_delta_g2 (vk (mpc_params after)) = point_mul (g2_affine E) (prime_subgroup_generator (g2_affine E)) d'" "d' \<noteq> 0"
  shows "(h_query (mpc_params after) = batch_mul (g1_affine E) (h_query (mpc_params self)) (d / d') \<and>
      l_query (mpc_params after) = batch_mul (g1_affine E) (l_query (mpc_params self)) (d / d')) \<or>
    (\<exists>j. (\<forall>rh rl r r' hashes hashes'. mpc_verify E ops S (rh(j := r), rl) self after = Inr hashes \<longrightarrow>
           mpc_verify E ops S (rh(j := r'), rl) self after = Inr hashes' \<longrightarrow> r = r') \<or>
         (\<forall>rh rl r r' hashes hashes'. mpc_verify E ops S (rh, rl(j := r)) self after = Inr hashes \<longrightarrow>
           mpc_verify E ops S (rh, rl(j := r')) self after = Inr hashes' \<longrightarrow> r = r'))"
proof -
  note l = pairing_lawsD(1,2) [OF laws(1)] and c2 = curve_lawsD [OF subgroup_lawsD(1) [OF pairing_lawsD(2) [OF laws(1)]]]
  let ?q = "vk_delta_g2 (vk (mpc_params after))"
  have p: "in_subgroup (g2_affine E) ?q" "?q \<noteq> 0" "vk_delta_g2 (vk (mpc_params self)) = point_mul (g2_affine E) ?q (d / d')"
    using d subgroup_lawsD(2) [OF l(2)] by (simp_all add: c2 point_mul_eq_0 [OF l(2)])
  have v: "valid_points (g1_affine E) CheckNo (h_query (mpc_params key))" "valid_points (g1_affine E) CheckNo (l_query (mpc_params key))"
    if "query_points E (mpc_params key)" for key :: "('b, 'c) MPCParameters" using that by (simp_all add: query_points_def valid_points_def)
  note forced = query_forced [OF laws _ _ _ _ p]
  show ?thesis
  proof (rule disjCI)
    assume "\<not> (\<exists>j. (\<forall>rh rl r r' hashes hashes'. mpc_verify E ops S (rh(j := r), rl) self after = Inr hashes \<longrightarrow>
           mpc_verify E ops S (rh(j := r'), rl) self after = Inr hashes' \<longrightarrow> r = r') \<or>
         (\<forall>rh rl r r' hashes hashes'. mpc_verify E ops S (rh, rl(j := r)) self after = Inr hashes \<longrightarrow>
           mpc_verify E ops S (rh, rl(j := r')) self after = Inr hashes' \<longrightarrow> r = r'))"
    then have h: "\<forall>j. \<exists>rh rl r r' hashes hashes'. r \<noteq> r' \<and> mpc_verify E ops S (rh(j := r), rl) self after = Inr hashes \<and>
        mpc_verify E ops S (rh(j := r'), rl) self after = Inr hashes'"
      and l: "\<forall>j. \<exists>rh rl r r' hashes hashes'. r \<noteq> r' \<and> mpc_verify E ops S (rh, rl(j := r)) self after = Inr hashes \<and>
        mpc_verify E ops S (rh, rl(j := r')) self after = Inr hashes'" by blast+
    from h have same: "same_circuit (mpc_params self) (mpc_params after)" unfolding mpc_verify_iff by blast
    have ratios: "check_query_ratio E S rh (h_query (mpc_params self)) (h_query (mpc_params after)) (?q, vk_delta_g2 (vk (mpc_params self))) ''H_query ratio check failed'' = Inr ()"
      "check_query_ratio E S rl (l_query (mpc_params self)) (l_query (mpc_params after)) (?q, vk_delta_g2 (vk (mpc_params self))) ''L_query ratio check failed'' = Inr ()"
      if "mpc_verify E ops S (rh, rl) self after = Inr hashes" for rh rl hashes
      using that by (simp_all add: mpc_verify_iff)
    have "h_query (mpc_params after) = batch_mul (g1_affine E) (h_query (mpc_params self)) (d / d')"
    proof (rule forced [OF v(1) [OF q(1)] v(1) [OF q(2)] _ len(1), of "''H_query ratio check failed''"], goal_cases)
      case 1
      then show ?case using same by (simp add: same_circuit_def)
    next
      case 2
      then show ?case using h ratios(1) by blast
    qed
    moreover have "l_query (mpc_params after) = batch_mul (g1_affine E) (l_query (mpc_params self)) (d / d')"
    proof (rule forced [OF v(2) [OF q(1)] v(2) [OF q(2)] _ len(2), of "''L_query ratio check failed''"], goal_cases)
      case 1
      then show ?case using same by (simp add: same_circuit_def)
    next
      case 2
      then show ?case using l ratios(2) by blast
    qed
    ultimately show "h_query (mpc_params after) = batch_mul (g1_affine E) (h_query (mpc_params self)) (d / d') \<and>
        l_query (mpc_params after) = batch_mul (g1_affine E) (l_query (mpc_params self)) (d / d')" by blast
  qed
qed

section \<open>The ceremony of phase 2\<close>

lemma circuit_key_consistent:
  assumes laws: "pairing_laws E" and len: "n \<le> 2 ^ 32" "length (qap_at assembly) < 2 ^ 32"
  shows "mpc_consistent E ops \<lparr>mpc_params = circuit_key E assembly w n key, cs_hash = h, mpc_contributions = []\<rparr>"
proof -
  note c1 = curve_lawsD [OF subgroup_lawsD(1) [OF pairing_lawsD(1) [OF laws]]] and c2 = curve_lawsD [OF subgroup_lawsD(1) [OF pairing_lawsD(2) [OF laws]]]
  have "query_points E (circuit_key E assembly w n key)"
    by (auto simp: query_points_def circuit_key_def valid_points_def Let_def c1 c2)
  moreover have "length (h_query (circuit_key E assembly w n key)) < 2 ^ 32" "length (l_query (circuit_key E assembly w n key)) < 2 ^ 32"
    using len by (auto simp: circuit_key_def Let_def)
  ultimately show ?thesis
    by (auto simp: mpc_consistent_def last_delta_def verify_transcript_def circuit_key_def Let_def c1 intro!: exI [of _ 1])
qed

text \<open>
  C13. Phase 2 works on what phase 1 has computed. From the accumulator of secrets of phase 1, for a domain of size n
  within its powers and a circuit whose variables are within the domain and whose private variables do not
  evaluate to zero: the coefficients and the initial parameters are computed, any number of contributors with
  nonzero secrets contribute, and the verification of the result against the initial parameters succeeds and
  returns one hash for each of them.\<close>

theorem phase2_ceremony_verifies:
  assumes laws: "pairing_laws E" "scalar_laws E S" "domain_laws E D" and hash: "\<forall>t. in_subgroup (g2_affine E) (transcript_point ops t)"
    and n: "domain_size D n = Some n" "0 < n" "n \<le> 2 ^ log2" "log2 \<le> 32" and acc: "acc = accumulator_of E (new_full cv Groth16 log2 batch) key"
    and rows: "rows_within (num_public_variables assembly) n (qap_at assembly)" "rows_within (num_public_variables assembly) n (qap_bt assembly)"
      "rows_within (num_public_variables assembly) n (qap_ct assembly)"
    and len: "length (qap_bt assembly) = length (qap_at assembly)" "length (qap_ct assembly) = length (qap_at assembly)"
      "num_public_variables assembly \<le> length (qap_at assembly)" "length (qap_at assembly) < 2 ^ 32"
    and constrained: "\<forall>i. num_public_variables assembly \<le> i \<longrightarrow> i < length (qap_at assembly) \<longrightarrow>
      qap_value assembly (\<lambda>i. lagrange (domain_root D n) n i (sk_tau key)) key i \<noteq> 0"
    and draws: "rest \<noteq> []" "\<forall>draws\<in>set rest. fst draws \<noteq> 0 \<and> in_subgroup (g1_affine E) (snd draws)"
  shows "case result_bind (groth16_params_new D n (tau_powers_g1 acc) (tau_powers_g2 acc) (alpha_tau_powers_g1 acc) (beta_tau_powers_g1 acc) (acc_beta_g2 acc))
      (\<lambda>params. result_bind (mpc_new E ops codec assembly params)
      (\<lambda>self. result_bind (mpc_contribute_all E ops self rest) (\<lambda>after. mpc_verify E ops S rng self after))) of
      Inl e \<Rightarrow> False
    | Inr hashes \<Rightarrow> length hashes = length rest"
proof -
  let ?self = "\<lparr>mpc_params = circuit_key E assembly (domain_root D n) n key, cs_hash = hash_params codec ops (circuit_key E assembly (domain_root D n) n key),
    mpc_contributions = []\<rparr>"
  have "(2 :: nat) ^ log2 \<le> 2 ^ 32" using n(4) by (rule power_increasing) simp
  with n(3) have n32: "n \<le> 2 ^ 32" by (rule order.trans)
  have new: "mpc_new E ops codec assembly (lagrange_params E (domain_root D n) n key) = Inr ?self"
    using mpc_new_value [OF laws(1) rows len(1-3), of ops codec "domain_root D n" key] constrained by auto
  have con: "mpc_consistent E ops ?self" by (rule circuit_key_consistent [OF laws(1) n32 len(4)])
  then have points: "query_points E (mpc_params ?self)" by (simp add: mpc_consistent_def)
  have nz: "prod_list (map fst rest) \<noteq> 0" using draws(2) by (auto simp: prod_list_zero_iff)
  obtain after where after: "mpc_contribute_all E ops ?self rest = Inr after" "mpc_params after = scale_delta E (prod_list (map fst rest)) (mpc_params ?self)"
    "cs_hash after = cs_hash ?self" "length (mpc_contributions after) = length rest"
    using contribute_all_params [OF pairing_lawsD(3) [OF laws(1)] points, of rest ops] draws(2) by (auto split: sum.splits)
  have "mpc_consistent E ops after" using contribute_all_consistent [OF laws(1) hash con draws(2) after(1)] by simp
  moreover have "mpc_contributions after \<noteq> []" using after(4) draws(1) by auto
  ultimately have "mpc_verify E ops S rng ?self after = Inr (map (phase2_key_hash E ops) (mpc_contributions after))"
    using scaled_verifies [OF laws(1,2) con _ after(2) nz _ _ after(3), of "mpc_contributions after" rng] by simp
  then show ?thesis
    unfolding params_lagrange(1) [OF laws(1,3) n(1-3) acc] result_bind_simps new after(1) by (simp add: after(4))
qed

section \<open>Parameters without a new contribution\<close>

text \<open>
  C40. The verification of phase 2 does not ask for a new contribution: parameters that were contributed to at
  least once are accepted against themselves, whatever scalars are drawn.\<close>

theorem phase2_accepts_unchanged:
  assumes "pairing_laws E" "scalar_laws E S" "mpc_consistent E ops self" "mpc_contributions self \<noteq> []"
  shows "mpc_verify E ops S rng self self = Inr (map (phase2_key_hash E ops) (mpc_contributions self))"
  using scale_delta_one [OF pairing_lawsD(3) [OF assms(1)], of "mpc_params self"] assms(3,4)
  by (intro scaled_verifies [OF assms(1,2,3,3), of 1 "[]"]) (simp_all add: mpc_consistent_def)

text \<open>Parameters with fewer contributions than before make the verification panic, not return an error.\<close>

lemma phase2_missing_contributions:
  assumes "mpc_contributions after \<noteq> []" "key_delta_g1 (mpc_params after) = last_delta E (mpc_contributions after)"
    and "same_ratio E (prime_subgroup_generator (g1_affine E), last_delta E (mpc_contributions after))
      (prime_subgroup_generator (g2_affine E), vk_delta_g2 (vk (mpc_params after)))"
    and "length (mpc_contributions after) < length (mpc_contributions self)"
  shows "mpc_verify E ops S rng self after = Inl Panic"
  using assms by (simp add: mpc_verify_def last_delta_def ensure_unchanged_def check_same_ratio_def same_ratio_def slice_def Let_def)

section \<open>Parameters are read back\<close>

text \<open>
  Parameters of phase 2 that are written are read back: the proving key (by its codec), the hash of 64 bytes
  and all public keys, if there are fewer than two to the power of 32 and they hold nonzero points of the
  subgroups.\<close>

theorem mpc_roundtrip:
  assumes "engine_laws E" "\<forall>key r. key_of_bytes codec (key_to_bytes codec key @ r) = Some (key, r)" "length (cs_hash self) = 64"
    and "\<forall>key\<in>set (mpc_contributions self). key_valid E key" "length (mpc_contributions self) < 2 ^ 32"
  shows "mpc_read E codec (mpc_write E codec self) = Inr self"
proof -
  have "read_keys E (write_keys E (mpc_contributions self)) = Inr (mpc_contributions self, [])"
    using keys_read_back [OF assms(1,4,5), of "[]"] by simp
  with assms(2,3) show ?thesis by (simp add: mpc_read_def mpc_write_def read_exact_def)
qed

section \<open>An example\<close>

definition example_ops :: "GF3 Phase2Ops" where
  "example_ops = \<lparr>hash_writer = (\<lambda>_. replicate 64 0), hex_of = (\<lambda>_. []), hash_to_curve = (\<lambda>_. One3)\<rparr>"

definition example_codec :: "(GF3, GF3) KeyCodec" where
  "example_codec = \<lparr>key_to_bytes = (\<lambda>_. []), key_of_bytes = (\<lambda>_. None)\<rparr>"

definition example_assembly :: "GF3 KeypairAssembly" where
  "example_assembly =
     \<lparr>num_public_variables = 1, qap_at = [[(One3, Public 0)], [(One3, Private 0)]], qap_bt = [[], [(One3, Private 0)]],
      qap_ct = [[], [(One3, Private 0)]]\<rparr>"

definition example_mpc :: "(GF3, GF3) MPCParameters" where
  "example_mpc = \<lparr>mpc_params = circuit_key example_engine example_assembly Two3 2 example_key, cs_hash = replicate 64 0, mpc_contributions = []\<rparr>"

definition example_contributed :: "(GF3, GF3) MPCParameters" where
  "example_contributed =
     example_mpc\<lparr>mpc_params := scale_delta example_engine Two3 (mpc_params example_mpc),
       mpc_contributions := [new_key example_engine example_ops example_mpc (Two3, One3)]\<rparr>"

lemma example_points [simp]: "in_subgroup (g1_affine example_engine) p" "in_subgroup (g2_affine example_engine) p"
  by (simp_all add: in_subgroup_def example_engine_def example_curve_def zero_GF3_def [symmetric])

lemma example_rows:
  "rows_within (num_public_variables example_assembly) 2 (qap_at example_assembly)" "rows_within (num_public_variables example_assembly) 2 (qap_bt example_assembly)"
  "rows_within (num_public_variables example_assembly) 2 (qap_ct example_assembly)"
  by (simp_all add: rows_within_def example_assembly_def variable_index_def)

lemma example_circuit_sizes:
  "length (qap_bt example_assembly) = length (qap_at example_assembly)" "length (qap_ct example_assembly) = length (qap_at example_assembly)"
  "num_public_variables example_assembly \<le> length (qap_at example_assembly)" "length (qap_at example_assembly) < 2 ^ 32"
  by (simp_all add: example_assembly_def)

lemma example_lagrange: "lagrange Two3 2 1 Two3 = One3"
proof -
  have "of_nat 2 = Two3" by (simp add: numeral_eq_Suc one_GF3_def zero_GF3_def)
  then show ?thesis by (simp add: lagrange_def numeral_eq_Suc inverse_GF3_def one_GF3_def zero_GF3_def)
qed

lemma example_constrained:
  assumes "num_public_variables example_assembly \<le> i" "i < length (qap_at example_assembly)"
  shows "qap_value example_assembly (\<lambda>i. lagrange Two3 2 i (sk_tau example_key)) example_key i \<noteq> 0"
proof -
  have "i = 1" using assms by (simp add: example_assembly_def)
  moreover have "row_value 1 (\<lambda>i. lagrange Two3 2 i Two3) [(One3, Private 0)] = One3"
    using example_lagrange by (simp add: row_value_def zero_GF3_def)
  ultimately show ?thesis by (simp add: qap_value_def example_assembly_def example_key_def zero_GF3_def)
qed

lemma example_transcript: "transcript_point example_ops t = One3" "length (hash_writer example_ops t) = 64"
  by (simp_all add: transcript_point_def example_ops_def)

lemma example_consistent: "mpc_consistent example_engine example_ops example_mpc" "mpc_consistent example_engine example_ops example_contributed"
proof -
  show self: "mpc_consistent example_engine example_ops example_mpc"
    unfolding example_mpc_def by (rule circuit_key_consistent [OF example_pairing_laws]) (simp_all add: example_assembly_def)
  have "mpc_contribute example_engine example_ops example_mpc (Two3, One3) =
      Inr (example_contributed, phase2_key_hash example_engine example_ops (new_key example_engine example_ops example_mpc (Two3, One3)))"
    by (simp add: mpc_contribute_ok example_contributed_def zero_GF3_def) (simp add: example_mpc_def)
  from contribute_consistent(1) [OF example_pairing_laws _ self _ _ this]
  show "mpc_consistent example_engine example_ops example_contributed" by (simp add: zero_GF3_def)
qed

lemma example_verifies:
  "mpc_verify example_engine example_ops example_scalars rng example_mpc example_contributed =
     Inr (map (phase2_key_hash example_engine example_ops) (mpc_contributions example_contributed))"
  by (rule scaled_verifies [OF example_pairing_laws example_scalar_laws example_consistent, of Two3])
    (simp_all add: example_contributed_def example_mpc_def zero_GF3_def)

theorem mpc_new_evaluates_circuit_witness:
  "mpc_new example_engine example_ops example_codec example_assembly (lagrange_params example_engine Two3 2 example_key) = Inr example_mpc"
  using mpc_new_evaluates_circuit [OF example_pairing_laws example_rows example_circuit_sizes(1-3), of example_ops example_codec Two3 example_key] example_constrained
  by (auto simp: example_mpc_def hash_params_def example_ops_def)

theorem phase2_verification_sound_witness:
  "mpc_verify example_engine example_ops example_scalars (\<lambda>_. One3, \<lambda>_. Two3) example_mpc example_contributed =
     Inr (map (phase2_key_hash example_engine example_ops) (mpc_contributions example_contributed)) \<and>
   (\<exists>ds. length ds = 1 \<and> 0 \<notin> set ds \<and> key_delta_g1 (mpc_params example_contributed) = prod_list ds)"
proof -
  have "key_valid example_engine key" if "key \<in> set (mpc_contributions example_contributed)" for key
    using that by (simp add: example_contributed_def key_valid_def valid_points_def accepted_def new_key_def keypair_new_def hash_cs_pubkeys_def
        example_transcript Let_def) (simp add: example_mpc_def circuit_key_def Let_def example_engine_def example_curve_def zero_GF3_def one_GF3_def)
  then show ?thesis
    using phase2_verification_sound [OF example_pairing_laws, of example_ops example_contributed example_scalars "(\<lambda>_. One3, \<lambda>_. Two3)" example_mpc]
      example_verifies [of "(\<lambda>_. One3, \<lambda>_. Two3)"]
    by (auto simp: example_transcript zero_GF3_def) (auto simp: example_contributed_def example_engine_def example_curve_def)
qed

theorem phase2_queries_sound_witness:
  "h_query (mpc_params example_contributed) = batch_mul example_curve (h_query (mpc_params example_mpc)) Two3 \<and>
   l_query (mpc_params example_contributed) = batch_mul example_curve (l_query (mpc_params example_mpc)) Two3"
proof -
  have points: "query_points example_engine (mpc_params example_mpc)" "query_points example_engine (mpc_params example_contributed)"
    "length (h_query (mpc_params example_mpc)) < 2 ^ 32" "length (l_query (mpc_params example_mpc)) < 2 ^ 32"
    using example_consistent by (simp_all add: mpc_consistent_def)
  have "\<not> (\<exists>j. (\<forall>rh rl r r' hashes hashes'. mpc_verify example_engine example_ops example_scalars (rh(j := r), rl) example_mpc example_contributed = Inr hashes \<longrightarrow>
           mpc_verify example_engine example_ops example_scalars (rh(j := r'), rl) example_mpc example_contributed = Inr hashes' \<longrightarrow> r = r') \<or>
         (\<forall>rh rl r r' hashes hashes'. mpc_verify example_engine example_ops example_scalars (rh, rl(j := r)) example_mpc example_contributed = Inr hashes \<longrightarrow>
           mpc_verify example_engine example_ops example_scalars (rh, rl(j := r')) example_mpc example_contributed = Inr hashes' \<longrightarrow> r = r'))"
    unfolding example_verifies by (auto intro: exI [of _ Zero3] exI [of _ One3])
  moreover have "vk_delta_g2 (vk (mpc_params example_mpc)) = point_mul (g2_affine example_engine) (prime_subgroup_generator (g2_affine example_engine)) One3"
    by (simp add: example_mpc_def circuit_key_def Let_def one_GF3_def)
  moreover from this have "vk_delta_g2 (vk (mpc_params example_contributed)) = point_mul (g2_affine example_engine) (prime_subgroup_generator (g2_affine example_engine)) Two3"
    by (simp add: example_contributed_def scale_delta_def) (simp add: example_engine_def example_curve_def one_GF3_def)
  ultimately have "h_query (mpc_params example_contributed) = batch_mul (g1_affine example_engine) (h_query (mpc_params example_mpc)) (One3 / Two3) \<and>
      l_query (mpc_params example_contributed) = batch_mul (g1_affine example_engine) (l_query (mpc_params example_mpc)) (One3 / Two3)"
    using phase2_queries_sound [OF example_pairing_laws example_scalar_laws points, of One3 Two3 example_ops] by (simp only: zero_GF3_def) blast
  then show ?thesis by (simp add: example_engine_def divide_GF3_def)
qed

theorem phase2_ceremony_verifies_witness:
  "case result_bind (groth16_params_new example_domains 2 (tau_powers_g1 (accumulator_of example_engine (example_full Groth16) example_key))
        (tau_powers_g2 (accumulator_of example_engine (example_full Groth16) example_key))
        (alpha_tau_powers_g1 (accumulator_of example_engine (example_full Groth16) example_key))
        (beta_tau_powers_g1 (accumulator_of example_engine (example_full Groth16) example_key))
        (acc_beta_g2 (accumulator_of example_engine (example_full Groth16) example_key)))
      (\<lambda>params. result_bind (mpc_new example_engine example_ops example_codec example_assembly params)
      (\<lambda>self. result_bind (mpc_contribute_all example_engine example_ops self [(Two3, One3), (One3, Two3)])
      (\<lambda>after. mpc_verify example_engine example_ops example_scalars (\<lambda>_. One3, \<lambda>_. Two3) self after))) of
      Inl e \<Rightarrow> False
    | Inr hashes \<Rightarrow> length hashes = length [(Two3, One3), (One3, Two3)]"
proof (rule phase2_ceremony_verifies [OF example_pairing_laws example_scalar_laws example_domain_laws _ _ _ _ _ _ example_rows example_circuit_sizes])
  show "\<forall>i. num_public_variables example_assembly \<le> i \<longrightarrow> i < length (qap_at example_assembly) \<longrightarrow>
      qap_value example_assembly (\<lambda>i. lagrange (domain_root example_domains 2) 2 i (sk_tau example_key)) example_key i \<noteq> 0"
    using example_constrained by (simp add: example_domains_def)
  show "accumulator_of example_engine (example_full Groth16) example_key =
      accumulator_of example_engine (new_full (curve_parameters_new example_engine) Groth16 2 3) example_key"
    by (simp add: example_full_def)
qed (simp_all add: example_domains_def zero_GF3_def)

theorem phase2_accepts_unchanged_witness:
  "\<exists>hashes. mpc_verify example_engine example_ops example_scalars (\<lambda>_. One3, \<lambda>_. Two3) example_contributed example_contributed = Inr hashes"
  using phase2_accepts_unchanged [OF example_pairing_laws example_scalar_laws example_consistent(2), of "(\<lambda>_. One3, \<lambda>_. Two3)"]
  by (simp add: example_contributed_def)

end
