(* ===== verification/Phase2_Chunked.thy ===== *)
theory Phase2_Chunked
  imports Phase2_Parameters
begin

text \<open>
  \<^verbatim>\<open>phase2/src/chunked_groth16.rs\<close>: contributing to and verifying parameters of phase 2 in their buffers, a batch of
  elements at a time. A cursor is a position in the buffer, or the bytes before and after it. The encoding of a
  verifying key and of a length is that of a third-party crate, here the record \<open>KeyLayout\<close>. The threads are run
  one after the other; one that panics makes its join fail.
\<close>

record ('g, 'h) KeyLayout =
  vk_to_bytes :: "('g, 'h) VerifyingKey \<Rightarrow> bytes"
  vk_of_bytes :: "bytes \<Rightarrow> (('g, 'h) VerifyingKey \<times> bytes) option"
  u64_to_bytes :: "nat \<Rightarrow> bytes"
  u64_of_bytes :: "bytes \<Rightarrow> nat"
  u64_size :: usize

section \<open>Batches\<close>

definition read_vk :: "('g, 'h) KeyLayout \<Rightarrow> bytes \<Rightarrow> (('g, 'h) VerifyingKey \<times> bytes) or_error" where
  "read_vk L r = (case vk_of_bytes L r of None \<Rightarrow> Inl ZexeSerializationError | Some v \<Rightarrow> Inr v)"

definition read_u64 :: "('g, 'h) KeyLayout \<Rightarrow> bytes \<Rightarrow> (nat \<times> bytes) or_error" where
  "read_u64 L r =
     (if length r < u64_size L then Inl ZexeSerializationError else Inr (u64_of_bytes L (take (u64_size L) r), drop (u64_size L) r))"

definition write_at :: "SetupError \<Rightarrow> bytes \<Rightarrow> usize \<Rightarrow> bytes \<Rightarrow> bytes or_error" where
  "write_at err buffer pos content =
     (if pos + length content \<le> length buffer then Inr (take pos buffer @ content @ drop (pos + length content) buffer) else Inl err)"

definition skip_vec :: "('f, 'x) AffineCurve \<Rightarrow> ('g, 'h) KeyLayout \<Rightarrow> bytes \<Rightarrow> usize \<Rightarrow> usize or_error" where
  "skip_vec C L buffer pos =
     result_bind (read_u64 L (drop pos buffer)) (\<lambda>(len, _). Inr (pos + u64_size L + len * serialized_size C))"

text \<open>The sizes of the batches; a batch size of zero is a division by zero.\<close>

definition batch_sizes :: "usize \<Rightarrow> usize \<Rightarrow> usize list or_error" where
  "batch_sizes len batch =
     (if batch = 0 then Inl Panic
      else Inr (replicate (len div batch) batch @ (if 0 < len mod batch then [len mod batch] else [])))"

definition mul_query ::
  "('f, 'g::ab_group_add) AffineCurve \<Rightarrow> 'f \<Rightarrow> usize \<Rightarrow> bytes \<times> bytes \<Rightarrow> (bytes \<times> bytes) or_error" where
  "mul_query C element num_els cursor =
     (let (done, r) = cursor in
      result_bind (read_elements_exact C num_els r) (\<lambda>(query, _).
        let content = encode C Yes (batch_mul C query element) in
        if length content \<le> length r then Inr (done @ content, drop (length content) r) else Inl ZexeSerializationError))"

definition chunked_mul_queries ::
  "('f, 'g::ab_group_add) AffineCurve \<Rightarrow> bytes \<Rightarrow> usize \<Rightarrow> 'f \<Rightarrow> usize \<Rightarrow> bytes or_error" where
  "chunked_mul_queries C buffer query_len element batch =
     result_bind (batch_sizes query_len batch) (\<lambda>sizes.
     result_bind (fold_results (mul_query C element) sizes ([], buffer)) (\<lambda>(done, r). Inr (done @ r)))"

definition read_pair_batch ::
  "('f, 'g::ab_group_add) AffineCurve \<Rightarrow> bytes \<Rightarrow> bytes \<Rightarrow> usize \<Rightarrow> ('g list \<times> 'g list \<times> bytes \<times> bytes) or_error" where
  "read_pair_batch C before after n =
     result_bind (read_elements_exact C n before) (\<lambda>(els_before, before).
     result_bind (read_elements_exact C n after) (\<lambda>(els_after, after).
       Inr (els_before, els_after, before, after)))"

definition chunked_ensure_unchanged_vec ::
  "('f, 'g::ab_group_add) AffineCurve \<Rightarrow> bytes \<Rightarrow> bytes \<Rightarrow> usize \<Rightarrow> InvariantKind \<Rightarrow> unit or_error" where
  "chunked_ensure_unchanged_vec C before after batch kind =
     (let len_before = length before div serialized_size C; len_after = length after div serialized_size C in
      result_bind (ensure_unchanged len_before len_after kind) (\<lambda>_.
      result_bind (batch_sizes len_before batch) (\<lambda>sizes.
      result_bind (fold_results (\<lambda>n (before, after).
          result_bind (read_pair_batch C before after n) (\<lambda>(els_before, els_after, before, after).
          result_bind (ensure_unchanged_vec els_before els_after kind) (\<lambda>_. Inr (before, after)))) sizes (before, after))
        (\<lambda>_. Inr ()))))"

text \<open>The scalars are drawn for each batch, given by its number.\<close>

definition chunked_check_ratio ::
  "('f, 'g::ab_group_add, 'h, 't) PairingEngine \<Rightarrow> 'f ScalarOps \<Rightarrow> (nat \<Rightarrow> nat \<Rightarrow> 'f) \<Rightarrow> bytes \<Rightarrow> 'h \<Rightarrow> bytes \<Rightarrow> 'h \<Rightarrow> usize \<Rightarrow> string \<Rightarrow>
   unit or_error" where
  "chunked_check_ratio E S rng before before_delta_g2 after after_delta_g2 batch err =
     (let C = g1_affine E; len_before = length before div serialized_size C; len_after = length after div serialized_size C in
      if len_before \<noteq> len_after then Inl (Phase2Failed InvalidLength_phase2)
      else
        result_bind (batch_sizes len_before batch) (\<lambda>sizes.
        result_bind (fold_results (\<lambda>(i, n) (before, after).
            result_bind (read_pair_batch C before after n) (\<lambda>(els_before, els_after, before, after).
            result_bind (check_query_ratio E S (rng i) els_before els_after (after_delta_g2, before_delta_g2) err) (\<lambda>_.
              Inr (before, after)))) (enumerate 0 sizes) (before, after))
          (\<lambda>_. Inr ())))"

text \<open>One vector behind its length: its elements, and the rest.\<close>

definition split_vec :: "('f, 'x) AffineCurve \<Rightarrow> ('g, 'h) KeyLayout \<Rightarrow> bytes \<Rightarrow> (bytes \<times> bytes) or_error" where
  "split_vec C L input =
     result_bind (read_u64 L input) (\<lambda>(len, others). split_at others (len * serialized_size C))"

definition phase2_split_transcript ::
  "('f, 'g, 'h, 't) PairingEngine \<Rightarrow> ('g, 'h) KeyLayout \<Rightarrow> bytes \<Rightarrow> (bytes \<times> bytes \<times> bytes \<times> bytes \<times> bytes) or_error" where
  "phase2_split_transcript E L input =
     result_bind (split_vec (g1_affine E) L input) (\<lambda>(a, others).
     result_bind (split_vec (g1_affine E) L others) (\<lambda>(b1, others).
     result_bind (split_vec (g2_affine E) L others) (\<lambda>(b2, others).
     result_bind (split_vec (g1_affine E) L others) (\<lambda>(h, others).
     result_bind (split_vec (g1_affine E) L others) (\<lambda>(l, _).
       Inr (a, b1, b2, h, l))))))"

section \<open>Contributing in the buffer\<close>

text \<open>The part that writes, from the updated key and delta, and the part before it that reads.\<close>

definition contribute_write ::
  "('f, 'g::ab_group_add, 'h, 't) PairingEngine \<Rightarrow> ('g, 'h) KeyLayout \<Rightarrow> bytes \<Rightarrow> ('g, 'h) VerifyingKey \<Rightarrow> 'g \<Rightarrow> 'f \<Rightarrow> usize \<Rightarrow>
   ('g, 'h) Phase2PublicKey \<Rightarrow> usize \<Rightarrow> bytes or_error" where
  "contribute_write E L buffer key delta_g1 delta_inv num_keys public_key batch =
     (let C1 = g1_affine E; C2 = g2_affine E; n1 = serialized_size C1;
          vk_bytes = vk_to_bytes L key; delta_bytes = to_bytes C1 Yes delta_g1
      in
      result_bind (write_at ZexeSerializationError buffer 0 vk_bytes) (\<lambda>buffer.
      result_bind (write_at ZexeSerializationError buffer (length vk_bytes + n1) delta_bytes) (\<lambda>buffer.
      result_bind (skip_vec C1 L buffer (length vk_bytes + n1 + length delta_bytes)) (\<lambda>pos.
      result_bind (skip_vec C1 L buffer pos) (\<lambda>pos.
      result_bind (skip_vec C2 L buffer pos) (\<lambda>pos.
      result_bind (read_u64 L (drop pos buffer)) (\<lambda>(h_query_len, remaining).
      let position = pos + u64_size L in
      result_bind (split_at remaining (h_query_len * n1)) (\<lambda>(h, l).
      result_bind (read_u64 L l) (\<lambda>(l_query_len, l_rest).
      result_bind (joined (chunked_mul_queries C1 h h_query_len delta_inv batch)) (\<lambda>h.
      result_bind (joined (chunked_mul_queries C1 l_rest l_query_len delta_inv batch)) (\<lambda>l_rest.
      let buffer = take position buffer @ h @ take (u64_size L) l @ l_rest;
          pos = position + (l_query_len + h_query_len) * n1 + u64_size L + 64
      in
      result_bind (write_at IoError buffer pos (u32_bytes (num_keys + 1))) (\<lambda>buffer.
        write_at ZexeSerializationError buffer (pos + 4 + phase2_key_size E * num_keys) (phase2_key_bytes E public_key)))))))))))))"

definition chunked_contribute ::
  "('f::field, 'g::ab_group_add, 'h::ab_group_add, 't) PairingEngine \<Rightarrow> 'h Phase2Ops \<Rightarrow> ('g, 'h) KeyLayout \<Rightarrow> bytes \<Rightarrow> 'f \<times> 'g \<Rightarrow>
   usize \<Rightarrow> (bytes \<times> bytes) or_error" where
  "chunked_contribute E ops L buffer draws batch =
     (let C1 = g1_affine E; C2 = g2_affine E; n1 = serialized_size C1 in
      result_bind (read_vk L buffer) (\<lambda>(key, r).
      let pos = length buffer - length r + n1 in
      result_bind (read_point C1 Yes CheckNo (drop pos buffer)) (\<lambda>(delta_g1, _).
      result_bind (skip_vec C1 L buffer (pos + n1)) (\<lambda>pos.
      result_bind (skip_vec C1 L buffer pos) (\<lambda>pos.
      result_bind (skip_vec C2 L buffer pos) (\<lambda>pos.
      result_bind (skip_vec C1 L buffer pos) (\<lambda>pos.
      result_bind (skip_vec C1 L buffer pos) (\<lambda>pos.
      result_bind (read_exact 64 (drop pos buffer)) (\<lambda>(cs, r).
      result_bind (read_keys E r) (\<lambda>(keys, _).
      let (public_key, delta) = keypair_new E ops delta_g1 cs keys draws in
      if delta = 0 then Inl Panic
      else
        (let delta_inv = inverse delta;
             delta_g1 = point_mul C1 delta_g1 delta;
             key = key\<lparr>vk_delta_g2 := point_mul C2 (vk_delta_g2 key) delta\<rparr>
         in
         result_bind (contribute_write E L buffer key delta_g1 delta_inv (length keys) public_key batch) (\<lambda>buffer.
           Inr (buffer, phase2_key_hash E ops public_key)))))))))))))"

section \<open>Verifying in the buffers\<close>

definition chunked_verify ::
  "('f, 'g::ab_group_add, 'h::ab_group_add, 't) PairingEngine \<Rightarrow> 'h Phase2Ops \<Rightarrow> 'f ScalarOps \<Rightarrow> ('g, 'h) KeyLayout \<Rightarrow>
   (nat \<Rightarrow> nat \<Rightarrow> 'f) \<times> (nat \<Rightarrow> nat \<Rightarrow> 'f) \<Rightarrow> bytes \<Rightarrow> bytes \<Rightarrow> usize \<Rightarrow> bytes list or_error" where
  "chunked_verify E ops S L rng before after batch =
     (let C1 = g1_affine E; C2 = g2_affine E; n1 = serialized_size C1 in
      result_bind (read_vk L before) (\<lambda>(vk_before, rb).
      result_bind (read_point C1 Yes CheckNo rb) (\<lambda>(beta_before, rb).
      result_bind (read_vk L after) (\<lambda>(vk_after, ra).
      result_bind (read_point C1 Yes CheckNo ra) (\<lambda>(beta_after, ra).
      result_bind (read_point C1 Yes CheckNo ra) (\<lambda>(delta_after', ra).
      result_bind (ensure_unchanged (vk_alpha_g1 vk_before) (vk_alpha_g1 vk_after) AlphaG1_kind) (\<lambda>_.
      result_bind (ensure_unchanged beta_before beta_after BetaG1_kind) (\<lambda>_.
      result_bind (ensure_unchanged (vk_beta_g2 vk_before) (vk_beta_g2 vk_after) BetaG2_kind) (\<lambda>_.
      result_bind (ensure_unchanged (vk_gamma_g2 vk_before) (vk_gamma_g2 vk_after) GammaG2) (\<lambda>_.
      result_bind (ensure_unchanged_vec (vk_gamma_abc_g1 vk_before) (vk_gamma_abc_g1 vk_after) GammaAbcG1) (\<lambda>_.
      result_bind (if length rb < n1 then Inl Panic else phase2_split_transcript E L (drop n1 rb)) (\<lambda>(a, b1, b2, h, l).
      result_bind (phase2_split_transcript E L ra) (\<lambda>(a', b1', b2', h', l').
      let pos = length after - length ra + 5 * u64_size L + length a + length b1 + length b2 + length h + length l in
      result_bind (joined (chunked_ensure_unchanged_vec C1 a a' batch AlphaG1Query)) (\<lambda>_.
      result_bind (joined (chunked_ensure_unchanged_vec C1 b1 b1' batch BetaG1Query)) (\<lambda>_.
      result_bind (joined (chunked_ensure_unchanged_vec C2 b2 b2' batch BetaG2Query)) (\<lambda>_.
      result_bind (joined (chunked_check_ratio E S (fst rng) h (vk_delta_g2 vk_before) h' (vk_delta_g2 vk_after) batch
        ''H_query ratio check failed'')) (\<lambda>_.
      result_bind (joined (chunked_check_ratio E S (snd rng) l (vk_delta_g2 vk_before) l' (vk_delta_g2 vk_after) batch
        ''L_query ratio check failed'')) (\<lambda>_.
      result_bind (read_exact 64 (drop pos before)) (\<lambda>(cs_before, rb).
      result_bind (read_exact 64 (drop pos after)) (\<lambda>(cs_after, ra).
      result_bind (ensure_unchanged cs_before cs_after CsHash) (\<lambda>_.
      result_bind (read_keys E rb) (\<lambda>(keys_before, _).
      result_bind (read_keys E ra) (\<lambda>(keys_after, _).
      result_bind (slice keys_after 0 (length keys_before)) (\<lambda>previous.
      result_bind (ensure_unchanged keys_before previous Contributions_kind) (\<lambda>_.
      if keys_after = [] then Inl (Phase2Failed NoContributions)
      else
        (let pubkey = last keys_after in
         result_bind (ensure_unchanged (delta_after pubkey) delta_after' DeltaG1) (\<lambda>_.
         result_bind (check_same_ratio E (prime_subgroup_generator C1, delta_after pubkey) (prime_subgroup_generator C2, vk_delta_g2 vk_after)
           ''Inconsistent G2 Delta'') (\<lambda>_.
           verify_transcript E ops cs_before keys_after))))))))))))))))))))))))))))"

section \<open>The layout of the buffer\<close>

definition vec_bytes :: "('f, 'x) AffineCurve \<Rightarrow> ('g, 'h) KeyLayout \<Rightarrow> 'x list \<Rightarrow> bytes" where
  "vec_bytes C L xs = u64_to_bytes L (length xs) @ encode C Yes xs"

definition layout_key :: "('f, 'g, 'h, 't) PairingEngine \<Rightarrow> ('g, 'h) KeyLayout \<Rightarrow> ('g, 'h) ProvingKey \<Rightarrow> bytes" where
  "layout_key E L key =
     vk_to_bytes L (vk key) @ to_bytes (g1_affine E) Yes (key_beta_g1 key) @ to_bytes (g1_affine E) Yes (key_delta_g1 key) @
     vec_bytes (g1_affine E) L (a_query key) @ vec_bytes (g1_affine E) L (b_g1_query key) @ vec_bytes (g2_affine E) L (b_g2_query key) @
     vec_bytes (g1_affine E) L (h_query key) @ vec_bytes (g1_affine E) L (l_query key)"

text \<open>What is relied on: keys and lengths are read back, and a new delta does not change the size of a key.\<close>

definition vk_points :: "('f, 'g::ab_group_add, 'h::ab_group_add, 't) PairingEngine \<Rightarrow> ('g, 'h) VerifyingKey \<Rightarrow> bool" where
  "vk_points E v \<longleftrightarrow>
     valid_points (g1_affine E) CheckNo (vk_alpha_g1 v # vk_gamma_abc_g1 v) \<and>
     valid_points (g2_affine E) CheckNo [vk_beta_g2 v, vk_gamma_g2 v, vk_delta_g2 v] \<and> length (vk_gamma_abc_g1 v) < 2 ^ 64"

definition layout_laws :: "('f, 'g::ab_group_add, 'h::ab_group_add, 't) PairingEngine \<Rightarrow> ('g, 'h) KeyLayout \<Rightarrow> bool" where
  "layout_laws E L \<longleftrightarrow>
     (\<forall>v r. vk_points E v \<longrightarrow> vk_of_bytes L (vk_to_bytes L v @ r) = Some (v, r)) \<and>
     (\<forall>v q. vk_points E v \<longrightarrow> in_subgroup (g2_affine E) q \<longrightarrow> length (vk_to_bytes L (v\<lparr>vk_delta_g2 := q\<rparr>)) = length (vk_to_bytes L v)) \<and>
     (\<forall>n<2 ^ 64. length (u64_to_bytes L n) = u64_size L \<and> u64_of_bytes L (u64_to_bytes L n) = n)"

definition key_points :: "('f, 'g::ab_group_add, 'h::ab_group_add, 't) PairingEngine \<Rightarrow> ('g, 'h) ProvingKey \<Rightarrow> bool" where
  "key_points E key \<longleftrightarrow>
     vk_points E (vk key) \<and>
     valid_points (g1_affine E) CheckNo ([key_beta_g1 key, key_delta_g1 key] @ a_query key @ b_g1_query key @ h_query key @ l_query key) \<and>
     valid_points (g2_affine E) CheckNo (b_g2_query key) \<and>
     length (a_query key) < 2 ^ 64 \<and> length (b_g1_query key) < 2 ^ 64 \<and> length (b_g2_query key) < 2 ^ 64 \<and>
     length (h_query key) < 2 ^ 64 \<and> length (l_query key) < 2 ^ 64"

lemma layout_lawsD:
  assumes "layout_laws E L"
  shows "vk_points E v \<Longrightarrow> vk_of_bytes L (vk_to_bytes L v @ r) = Some (v, r)"
    "vk_points E v \<Longrightarrow> in_subgroup (g2_affine E) q \<Longrightarrow> length (vk_to_bytes L (v\<lparr>vk_delta_g2 := q\<rparr>)) = length (vk_to_bytes L v)"
    "n < 2 ^ 64 \<Longrightarrow> length (u64_to_bytes L n) = u64_size L" "n < 2 ^ 64 \<Longrightarrow> u64_of_bytes L (u64_to_bytes L n) = n"
  using assms by (simp_all add: layout_laws_def)

lemma buffer_size_Yes [simp]: "buffer_size C Yes = serialized_size C"
  by (simp add: buffer_size_def)

lemma u64_read: "layout_laws E L \<Longrightarrow> n < 2 ^ 64 \<Longrightarrow> read_u64 L (u64_to_bytes L n @ r) = Inr (n, r)"
  by (simp add: read_u64_def layout_lawsD)

lemma length_vec_bytes:
  "curve_laws C \<Longrightarrow> layout_laws E L \<Longrightarrow> valid_points C check xs \<Longrightarrow> length xs < 2 ^ 64 \<Longrightarrow>
    length (vec_bytes C L xs) = u64_size L + length xs * serialized_size C"
  by (simp add: vec_bytes_def layout_lawsD length_encode)

lemma skip_vec_at:
  assumes "curve_laws C" "layout_laws E L" "valid_points C check xs" "length xs < 2 ^ 64"
  shows "skip_vec C L (pre @ vec_bytes C L xs @ r) (length pre) = Inr (length (pre @ vec_bytes C L xs))"
proof -
  have "read_u64 L (drop (length pre) (pre @ vec_bytes C L xs @ r)) = Inr (length xs, encode C Yes xs @ r)"
    using u64_read [OF assms(2,4), of "encode C Yes xs @ r"] by (simp add: vec_bytes_def)
  then show ?thesis by (simp add: skip_vec_def length_vec_bytes [OF assms])
qed

lemma write_at_append: "length new = length old \<Longrightarrow> write_at err (pre @ old @ r) (length pre) new = Inr (pre @ new @ r)"
  by (simp add: write_at_def)

section \<open>Batches make no difference\<close>

lemma batch_sizes_sum: "0 < b \<Longrightarrow> \<exists>sizes. batch_sizes n b = Inr sizes \<and> sum_list sizes = n"
  using div_mult_mod_eq [of n b] by (auto simp: batch_sizes_def sum_list_replicate)

lemma read_prefix_written:
  assumes laws: "curve_laws C" and v: "valid_points C CheckNo xs" and n: "n \<le> length xs"
  shows "read_elements_exact C n (encode C Yes xs @ r) = Inr (take n xs, encode C Yes (drop n xs) @ r)"
proof -
  have t: "valid_points C CheckNo (take n xs)" using v by (auto simp: valid_points_def dest: in_set_takeD)
  have e: "encode C Yes xs @ r = encode C Yes (take n xs) @ encode C Yes (drop n xs) @ r"
    using encode_append [of C Yes "take n xs" "drop n xs"] by simp
  show ?thesis using read_elements_exact_encoded [OF laws t, of "encode C Yes (drop n xs) @ r"] unfolding e length_take min_absorb2 [OF n] .
qed

lemma mul_query_step:
  assumes laws: "curve_laws C" and v: "valid_points C CheckNo xs" and n: "n \<le> length xs"
  shows "mul_query C e n (pre, encode C Yes xs @ r) = Inr (pre @ encode C Yes (batch_mul C (take n xs) e), encode C Yes (drop n xs) @ r)"
proof -
  have t: "valid_points C CheckNo (take n xs)" using v by (auto simp: valid_points_def dest: in_set_takeD)
  have e: "encode C Yes xs @ r = encode C Yes (take n xs) @ encode C Yes (drop n xs) @ r"
    using encode_append [of C Yes "take n xs" "drop n xs"] by simp
  have "length (encode C Yes (batch_mul C (take n xs) e)) = length (encode C Yes (take n xs))"
    using length_encode [OF laws t] length_encode [OF laws batch_mul_valid [OF laws t]] by simp
  then show ?thesis unfolding mul_query_def Let_def prod.case read_prefix_written [OF assms] result_bind_simps by (simp add: e)
qed

lemma mul_query_batches:
  assumes laws: "curve_laws C"
  shows "valid_points C CheckNo xs \<Longrightarrow> sum_list sizes = length xs \<Longrightarrow>
    fold_results (mul_query C e) sizes (pre, encode C Yes xs @ r) = Inr (pre @ encode C Yes (batch_mul C xs e), r)"
proof (induction sizes arbitrary: xs pre)
  case (Cons n sizes)
  have n: "n \<le> length xs" using Cons.prems(2) by simp
  have v: "valid_points C CheckNo (drop n xs)" using Cons.prems(1) by (auto simp: valid_points_def dest: in_set_dropD)
  have "batch_mul C xs e = batch_mul C (take n xs) e @ batch_mul C (drop n xs) e"
    unfolding batch_mul_def map_append [symmetric] by simp
  with Cons.IH [OF v, of "pre @ encode C Yes (batch_mul C (take n xs) e)"] Cons.prems(2)
  show ?case by (simp add: mul_query_step [OF laws Cons.prems(1) n])
qed (simp add: batch_mul_def)

lemma chunked_mul_queries_value:
  assumes "curve_laws C" "valid_points C CheckNo xs" "0 < b"
  shows "chunked_mul_queries C (encode C Yes xs @ r) (length xs) e b = Inr (encode C Yes (batch_mul C xs e) @ r)"
proof -
  obtain sizes where "batch_sizes (length xs) b = Inr sizes" "sum_list sizes = length xs" using batch_sizes_sum [OF assms(3)] by blast
  then show ?thesis using mul_query_batches [OF assms(1,2), of sizes e "[]" r] by (simp add: chunked_mul_queries_def)
qed

section \<open>Contributing in the buffer is contributing\<close>

definition unchanged_queries :: "('f, 'g, 'h, 't) PairingEngine \<Rightarrow> ('g, 'h) KeyLayout \<Rightarrow> ('g, 'h) ProvingKey \<Rightarrow> bytes" where
  "unchanged_queries E L key =
     vec_bytes (g1_affine E) L (a_query key) @ vec_bytes (g1_affine E) L (b_g1_query key) @ vec_bytes (g2_affine E) L (b_g2_query key)"

lemma key_pointsD:
  assumes "key_points E key"
  shows "vk_points E (vk key)" "in_subgroup (g1_affine E) (key_beta_g1 key)" "in_subgroup (g1_affine E) (key_delta_g1 key)"
    "valid_points (g1_affine E) CheckNo (a_query key)" "valid_points (g1_affine E) CheckNo (b_g1_query key)"
    "valid_points (g2_affine E) CheckNo (b_g2_query key)" "valid_points (g1_affine E) CheckNo (h_query key)"
    "valid_points (g1_affine E) CheckNo (l_query key)" "in_subgroup (g2_affine E) (vk_delta_g2 (vk key))"
    "length (a_query key) < 2 ^ 64" "length (b_g1_query key) < 2 ^ 64" "length (b_g2_query key) < 2 ^ 64"
    "length (h_query key) < 2 ^ 64" "length (l_query key) < 2 ^ 64"
  using assms by (simp_all add: key_points_def vk_points_def valid_points_def)

lemma skip_unchanged:
  assumes laws: "engine_laws E" "layout_laws E L" and key: "key_points E key" and B: "B = pre @ unchanged_queries E L key @ r"
    and pos: "pos = length pre"
  shows "result_bind (skip_vec (g1_affine E) L B pos) (\<lambda>pos. result_bind (skip_vec (g1_affine E) L B pos)
      (\<lambda>pos. result_bind (skip_vec (g2_affine E) L B pos) f)) = f (length (pre @ unchanged_queries E L key))"
proof -
  note c = engine_lawsD [OF laws(1)] and k = key_pointsD [OF key]
  let ?a = "vec_bytes (g1_affine E) L (a_query key)" and ?b = "vec_bytes (g1_affine E) L (b_g1_query key)" and ?b2 = "vec_bytes (g2_affine E) L (b_g2_query key)"
  have "skip_vec (g1_affine E) L B pos = Inr (length (pre @ ?a))"
    using skip_vec_at [OF c(1) laws(2) k(4,10), of pre "?b @ ?b2 @ r"] by (simp add: B pos unchanged_queries_def)
  moreover have "skip_vec (g1_affine E) L B (length (pre @ ?a)) = Inr (length ((pre @ ?a) @ ?b))"
    using skip_vec_at [OF c(1) laws(2) k(5,11), of "pre @ ?a" "?b2 @ r"] by (simp add: B unchanged_queries_def)
  moreover have "skip_vec (g2_affine E) L B (length ((pre @ ?a) @ ?b)) = Inr (length (((pre @ ?a) @ ?b) @ ?b2))"
    using skip_vec_at [OF c(2) laws(2) k(6,12), of "(pre @ ?a) @ ?b" r] by (simp add: B unchanged_queries_def)
  ultimately show ?thesis by (simp add: unchanged_queries_def add.assoc)
qed

lemma length_key_bytes:
  assumes "engine_laws E" "in_subgroup (g1_affine E) (delta_after k)" "in_subgroup (g1_affine E) (key_s k)" "in_subgroup (g1_affine E) (s_delta k)"
    "in_subgroup (g2_affine E) (r_delta k)" "length (transcript k) = 64"
  shows "length (phase2_key_bytes E k) = phase2_key_size E"
  using assms by (simp add: phase2_key_bytes_def phase2_key_size_def buffer_size_def curve_lawsD [OF engine_lawsD(1)] curve_lawsD [OF engine_lawsD(2)])

lemma length_keys_bytes:
  assumes "engine_laws E" "\<forall>key\<in>set keys. key_valid E key"
  shows "length (concat (map (phase2_key_bytes E) keys)) = phase2_key_size E * length keys"
  using assms(2) by (induction keys) (simp_all add: length_key_bytes [OF assms(1)] key_valid_def valid_points_def)

text \<open>The steps on a buffer, for a key, the queries that change and what comes after the key.\<close>

lemma contribute_header:
  assumes laws: "engine_laws E" "layout_laws E L" and key: "key_points E key" and B: "B = layout_key E L key @ tail"
  shows "read_vk L B = Inr (vk key, drop (length (vk_to_bytes L (vk key))) B)"
    "read_point (g1_affine E) Yes CheckNo (drop (length (vk_to_bytes L (vk key)) + serialized_size (g1_affine E)) B) =
      Inr (key_delta_g1 key, drop (length (vk_to_bytes L (vk key)) + 2 * serialized_size (g1_affine E)) B)"
proof -
  note c = curve_lawsD [OF engine_lawsD(1) [OF laws(1)]] and k = key_pointsD [OF key]
  let ?n = "serialized_size (g1_affine E)" and ?V = "vk_to_bytes L (vk key)"
  have len: "length (to_bytes (g1_affine E) Yes (key_beta_g1 key)) = ?n" "length (to_bytes (g1_affine E) Yes (key_delta_g1 key)) = ?n"
    using c(6) [OF k(2), of Yes] c(6) [OF k(3), of Yes] by simp_all
  show "read_vk L B = Inr (vk key, drop (length ?V) B)"
    by (simp add: read_vk_def B layout_key_def layout_lawsD(1) [OF laws(2) k(1)])
  show "read_point (g1_affine E) Yes CheckNo (drop (length ?V + ?n) B) = Inr (key_delta_g1 key, drop (length ?V + 2 * ?n) B)"
    using read_point_written [OF engine_lawsD(1) [OF laws(1)], of CheckNo "key_delta_g1 key"] k(3)
    by (simp add: B layout_key_def len valid_points_def)
qed

lemma contribute_keys:
  assumes laws: "engine_laws E" and cs: "length cs = 64" and keys: "\<forall>key\<in>set keys. key_valid E key" "length keys < 2 ^ 32"
  shows "read_exact 64 (cs @ write_keys E keys @ slack) = Inr (cs, write_keys E keys @ slack)"
    "read_keys E (write_keys E keys @ slack) = Inr (keys, slack)"
  using cs keys_read_back [OF laws keys] by (simp_all add: read_exact_def)

lemma contribute_append:
  assumes "engine_laws E" "\<forall>key\<in>set keys. key_valid E key" "length (phase2_key_bytes E new) = phase2_key_size E" "phase2_key_size E \<le> length slack"
    and pos: "pos = length pre"
  shows "result_bind (write_at IoError (pre @ write_keys E keys @ slack) pos (u32_bytes (length keys + 1)))
      (\<lambda>buffer. write_at err buffer (pos + 4 + phase2_key_size E * length keys) (phase2_key_bytes E new)) =
    Inr (pre @ write_keys E (keys @ [new]) @ drop (phase2_key_size E) slack)"
proof -
  let ?n = "phase2_key_size E" and ?K = "concat (map (phase2_key_bytes E) keys)" and ?u = "u32_bytes (length keys + 1)"
  have "write_at IoError (pre @ u32_bytes (length keys) @ ?K @ slack) pos ?u = Inr (pre @ ?u @ ?K @ slack)"
    unfolding pos by (rule write_at_append) (simp add: u32_bytes_def)
  moreover have "write_at err ((pre @ ?u @ ?K) @ take ?n slack @ drop ?n slack) (length (pre @ ?u @ ?K)) (phase2_key_bytes E new) =
      Inr ((pre @ ?u @ ?K) @ phase2_key_bytes E new @ drop ?n slack)"
    using assms(3,4) by (intro write_at_append) simp
  moreover have "length (pre @ ?u @ ?K) = pos + 4 + ?n * length keys"
    using length_keys_bytes [OF assms(1,2)] by (simp add: pos u32_bytes_def)
  ultimately show ?thesis by (simp add: write_keys_def)
qed

lemma contribute_deltas:
  assumes laws: "engine_laws E" "layout_laws E L" and key: "key_points E key" and V: "V = vk_to_bytes L ((vk key)\<lparr>vk_delta_g2 := point_mul (g2_affine E) (vk_delta_g2 (vk key)) d\<rparr>)"
    and D: "D = to_bytes (g1_affine E) Yes (point_mul (g1_affine E) (key_delta_g1 key) d)"
  shows "result_bind (write_at err (layout_key E L key @ tail) 0 V) (\<lambda>buffer. result_bind (write_at err buffer (length V + serialized_size (g1_affine E)) D) f) =
    f (V @ to_bytes (g1_affine E) Yes (key_beta_g1 key) @ D @ unchanged_queries E L key @
       vec_bytes (g1_affine E) L (h_query key) @ vec_bytes (g1_affine E) L (l_query key) @ tail)"
proof -
  note c = curve_lawsD [OF engine_lawsD(1) [OF laws(1)]] and k = key_pointsD [OF key]
  let ?b = "to_bytes (g1_affine E) Yes (key_beta_g1 key)" and ?d = "to_bytes (g1_affine E) Yes (key_delta_g1 key)"
    and ?r = "unchanged_queries E L key @ vec_bytes (g1_affine E) L (h_query key) @ vec_bytes (g1_affine E) L (l_query key) @ tail"
  have B: "layout_key E L key @ tail = vk_to_bytes L (vk key) @ ?b @ ?d @ ?r" by (simp add: layout_key_def unchanged_queries_def)
  have "length V = length (vk_to_bytes L (vk key))"
    unfolding V by (intro layout_lawsD(2) [OF laws(2) k(1)] curve_lawsD(2) [OF engine_lawsD(2) [OF laws(1)]] k(9))
  then have "write_at err (layout_key E L key @ tail) 0 V = Inr (V @ ?b @ ?d @ ?r)"
    using write_at_append [of V "vk_to_bytes L (vk key)" err "[]" "?b @ ?d @ ?r"] by (simp add: B)
  moreover have "length D = length ?d" using c(6) [OF k(3)] c(6) [OF c(2) [OF k(3)]] by (simp add: D)
  then have "write_at err ((V @ ?b) @ ?d @ ?r) (length (V @ ?b)) D = Inr ((V @ ?b) @ D @ ?r)" by (rule write_at_append)
  ultimately show ?thesis using c(6) [OF k(2), of Yes] by simp
qed

lemma contribute_skips:
  assumes laws: "engine_laws E" "layout_laws E L" and key: "key_points E key" and B: "B = layout_key E L key @ tail"
    and pos: "pos = length (vk_to_bytes L (vk key)) + 2 * serialized_size (g1_affine E)"
  shows "result_bind (skip_vec (g1_affine E) L B pos) (\<lambda>pos. result_bind (skip_vec (g1_affine E) L B pos) (\<lambda>pos. result_bind (skip_vec (g2_affine E) L B pos)
      (\<lambda>pos. result_bind (skip_vec (g1_affine E) L B pos) (\<lambda>pos. result_bind (skip_vec (g1_affine E) L B pos) f)))) = f (length (layout_key E L key))"
proof -
  note c = engine_lawsD [OF laws(1)] and k = key_pointsD [OF key]
  let ?h = "vec_bytes (g1_affine E) L (h_query key)" and ?l = "vec_bytes (g1_affine E) L (l_query key)"
  let ?pre = "vk_to_bytes L (vk key) @ to_bytes (g1_affine E) Yes (key_beta_g1 key) @ to_bytes (g1_affine E) Yes (key_delta_g1 key)"
  let ?u = "?pre @ unchanged_queries E L key"
  have layout: "layout_key E L key = (?u @ ?h) @ ?l" by (simp add: layout_key_def unchanged_queries_def)
  have p: "pos = length ?pre" using curve_lawsD(6) [OF c(1) k(2), of Yes] curve_lawsD(6) [OF c(1) k(3), of Yes] by (simp add: pos)
  have "skip_vec (g1_affine E) L B (length ?u) = Inr (length (?u @ ?h))"
    using skip_vec_at [OF c(1) laws(2) k(7,13), of ?u "?l @ tail"] by (simp add: B layout)
  moreover have "skip_vec (g1_affine E) L B (length (?u @ ?h)) = Inr (length ((?u @ ?h) @ ?l))"
    using skip_vec_at [OF c(1) laws(2) k(8,14), of "?u @ ?h" tail] by (simp add: B layout)
  moreover have "B = ?pre @ unchanged_queries E L key @ ?h @ ?l @ tail" by (simp add: B layout)
  ultimately show ?thesis unfolding skip_unchanged [OF laws key \<open>B = ?pre @ _\<close> p] by (simp only: result_bind_simps layout)
qed

lemma contribute_queries:
  assumes laws: "engine_laws E" "layout_laws E L" and key: "key_points E key" and b: "0 < b"
    and B: "B = pre @ vec_bytes (g1_affine E) L (h_query key) @ vec_bytes (g1_affine E) L (l_query key) @ tail"
  shows "read_u64 L (drop (length pre) B) = Inr (length (h_query key), drop (length pre + u64_size L) B)"
    "split_at (drop (length pre + u64_size L) B) (length (h_query key) * serialized_size (g1_affine E)) =
      Inr (encode (g1_affine E) Yes (h_query key), vec_bytes (g1_affine E) L (l_query key) @ tail)"
    "read_u64 L (vec_bytes (g1_affine E) L (l_query key) @ tail) = Inr (length (l_query key), encode (g1_affine E) Yes (l_query key) @ tail)"
    "chunked_mul_queries (g1_affine E) (encode (g1_affine E) Yes (h_query key)) (length (h_query key)) e b =
      Inr (encode (g1_affine E) Yes (batch_mul (g1_affine E) (h_query key) e))"
    "chunked_mul_queries (g1_affine E) (encode (g1_affine E) Yes (l_query key) @ tail) (length (l_query key)) e b =
      Inr (encode (g1_affine E) Yes (batch_mul (g1_affine E) (l_query key) e) @ tail)"
    "take (length pre + u64_size L) B @ encode (g1_affine E) Yes (batch_mul (g1_affine E) (h_query key) e) @
      take (u64_size L) (vec_bytes (g1_affine E) L (l_query key) @ tail) @ encode (g1_affine E) Yes (batch_mul (g1_affine E) (l_query key) e) @ tail =
      pre @ vec_bytes (g1_affine E) L (batch_mul (g1_affine E) (h_query key) e) @ vec_bytes (g1_affine E) L (batch_mul (g1_affine E) (l_query key) e) @ tail"
  using chunked_mul_queries_value [OF engine_lawsD(1) [OF laws(1)] key_pointsD(7) [OF key] b, of "[]" e]
    chunked_mul_queries_value [OF engine_lawsD(1) [OF laws(1)] key_pointsD(8) [OF key] b, of tail e]
    length_encode [OF engine_lawsD(1) [OF laws(1)] key_pointsD(7) [OF key], of Yes] u64_read [OF laws(2) key_pointsD(13) [OF key]]
    u64_read [OF laws(2) key_pointsD(14) [OF key]] layout_lawsD(3) [OF laws(2) key_pointsD(13) [OF key]] layout_lawsD(3) [OF laws(2) key_pointsD(14) [OF key]]
  by (simp_all add: B vec_bytes_def split_at_def)

lemma length_changed_queries:
  assumes "engine_laws E" "layout_laws E L" "key_points E key"
  shows "length (vec_bytes (g1_affine E) L (batch_mul (g1_affine E) (h_query key) e) @ vec_bytes (g1_affine E) L (batch_mul (g1_affine E) (l_query key) e)) =
    2 * u64_size L + (length (h_query key) + length (l_query key)) * serialized_size (g1_affine E)"
  using key_pointsD [OF assms(3)] batch_mul_valid [OF engine_lawsD(1) [OF assms(1)], of CheckNo]
  by (simp add: length_vec_bytes [OF engine_lawsD(1) [OF assms(1)] assms(2), of CheckNo] algebra_simps)

lemma new_key_bytes:
  assumes "engine_laws E" "in_subgroup (g1_affine E) (key_delta_g1 (mpc_params self))" "in_subgroup (g1_affine E) (snd draws)"
    and "\<forall>t. in_subgroup (g2_affine E) (transcript_point ops t)" "\<forall>t. length (hash_writer ops t) = 64"
  shows "length (phase2_key_bytes E (new_key E ops self draws)) = phase2_key_size E"
  using assms
  by (intro length_key_bytes) (simp_all add: new_key_def keypair_new_def hash_cs_pubkeys_def Let_def split_beta
      curve_lawsD(2) [OF engine_lawsD(1)] curve_lawsD(2) [OF engine_lawsD(2)])

lemma contribute_write_value:
  assumes laws: "engine_laws E" "layout_laws E L" and key: "key_points E key" and cs: "length cs = 64"
    and keys: "\<forall>k\<in>set keys. key_valid E k" and new: "length (phase2_key_bytes E new) = phase2_key_size E"
    and b: "0 < batch" and slack: "phase2_key_size E \<le> length slack"
  shows "contribute_write E L (layout_key E L key @ cs @ write_keys E keys @ slack) (vk (scale_delta E d key)) (key_delta_g1 (scale_delta E d key))
      (inverse d) (length keys) new batch =
    Inr (layout_key E L (scale_delta E d key) @ cs @ write_keys E (keys @ [new]) @ drop (phase2_key_size E) slack)"
proof -
  let ?C = "g1_affine E" and ?tail = "cs @ write_keys E keys @ slack" and ?n = "serialized_size (g1_affine E)" and ?i = "inverse d"
  define V where "V = vk_to_bytes L ((vk key)\<lparr>vk_delta_g2 := point_mul (g2_affine E) (vk_delta_g2 (vk key)) d\<rparr>)"
  define D where "D = to_bytes ?C Yes (point_mul ?C (key_delta_g1 key) d)"
  define pre where "pre = V @ to_bytes ?C Yes (key_beta_g1 key) @ D"
  define P where "P = pre @ unchanged_queries E L key"
  define B where "B = P @ vec_bytes ?C L (h_query key) @ vec_bytes ?C L (l_query key) @ ?tail"
  define R where "R = P @ vec_bytes ?C L (batch_mul ?C (h_query key) ?i) @ vec_bytes ?C L (batch_mul ?C (l_query key) ?i) @ cs"
  note c = curve_lawsD [OF engine_lawsD(1) [OF laws(1)]] and k = key_pointsD [OF key]
  have scaled: "vk (scale_delta E d key) = (vk key)\<lparr>vk_delta_g2 := point_mul (g2_affine E) (vk_delta_g2 (vk key)) d\<rparr>"
    "key_delta_g1 (scale_delta E d key) = point_mul ?C (key_delta_g1 key) d" by (simp_all add: scale_delta_def)
  have pos: "length V + ?n + length D = length pre"
    using c(6) [OF k(2), of Yes] c(6) [OF c(2) [OF k(3)], of Yes] by (simp add: pre_def D_def)
  have B: "V @ to_bytes ?C Yes (key_beta_g1 key) @ D @ unchanged_queries E L key @ vec_bytes ?C L (h_query key) @ vec_bytes ?C L (l_query key) @ ?tail = B"
    "B = pre @ unchanged_queries E L key @ vec_bytes ?C L (h_query key) @ vec_bytes ?C L (l_query key) @ ?tail"
    by (simp_all add: B_def P_def pre_def)
  have poskeys: "length P + u64_size L + (length (l_query key) + length (h_query key)) * ?n + u64_size L + 64 = length R"
    using length_changed_queries [OF laws key, of ?i] by (simp add: R_def cs algebra_simps)
  have after: "layout_key E L (scale_delta E d key) @ cs = R"
    by (simp add: R_def P_def pre_def V_def D_def layout_key_def scale_delta_def unchanged_queries_def)
  show ?thesis
    unfolding contribute_write_def scaled Let_def V_def [symmetric] D_def [symmetric] contribute_deltas [OF laws key V_def D_def] B(1)
      skip_unchanged [OF laws key B(2) pos] P_def [symmetric] contribute_queries [OF laws key b B_def] result_bind_simps prod.case joined_simps
    using contribute_append [OF laws(1) keys new slack poskeys, of ZexeSerializationError] after by (simp add: R_def)
qed

lemma contribute_reads:
  assumes laws: "engine_laws E" "layout_laws E L" and codec: "key_to_bytes codec = layout_key E L"
    and key: "key_points E (mpc_params self)" and cs: "length (cs_hash self) = 64"
    and keys: "\<forall>key\<in>set (mpc_contributions self). key_valid E key" "length (mpc_contributions self) < 2 ^ 32"
  shows "chunked_contribute E ops L (mpc_write E codec self @ slack) draws batch =
    (if fst draws = 0 then Inl Panic
     else result_bind (contribute_write E L (mpc_write E codec self @ slack) (vk (scale_delta E (fst draws) (mpc_params self)))
       (key_delta_g1 (scale_delta E (fst draws) (mpc_params self))) (inverse (fst draws)) (length (mpc_contributions self)) (new_key E ops self draws) batch)
       (\<lambda>buffer. Inr (buffer, phase2_key_hash E ops (new_key E ops self draws))))"
proof -
  let ?key = "mpc_params self" and ?C = "g1_affine E"
  let ?tail = "cs_hash self @ write_keys E (mpc_contributions self) @ slack" and ?n = "serialized_size ?C" and ?V = "vk_to_bytes L (vk ?key)"
  define B where "B = layout_key E L ?key @ ?tail"
  have new: "keypair_new E ops (key_delta_g1 ?key) (cs_hash self) (mpc_contributions self) draws = (new_key E ops self draws, fst draws)"
    by (simp add: new_key_def keypair_new_def Let_def split_beta)
  have two: "length ?V + ?n + ?n = length ?V + 2 * ?n" by simp
  have pos: "length B - length (drop (length ?V) B) = length ?V" "drop (length (layout_key E L ?key)) B = ?tail" by (simp_all add: B_def layout_key_def)
  show ?thesis
    unfolding mpc_write_def codec append_assoc B_def [symmetric] chunked_contribute_def Let_def contribute_header [OF laws key B_def] result_bind_simps prod.case pos
      contribute_skips [OF laws key B_def two] contribute_keys [OF laws(1) cs keys, of slack] new
    by (simp add: scale_delta_def)
qed

lemma chunked_contribute_value:
  assumes laws: "engine_laws E" "layout_laws E L" and codec: "key_to_bytes codec = layout_key E L"
    and key: "key_points E (mpc_params self)" and cs: "length (cs_hash self) = 64"
    and keys: "\<forall>key\<in>set (mpc_contributions self). key_valid E key" "length (mpc_contributions self) < 2 ^ 32"
    and s: "in_subgroup (g1_affine E) (snd draws)" and hash: "\<forall>t. in_subgroup (g2_affine E) (transcript_point ops t)" "\<forall>t. length (hash_writer ops t) = 64"
    and b: "0 < batch" and slack: "phase2_key_size E \<le> length slack"
  shows "chunked_contribute E ops L (mpc_write E codec self @ slack) draws batch =
    result_bind (mpc_contribute E ops self draws) (\<lambda>(after, h). Inr (mpc_write E codec after @ drop (phase2_key_size E) slack, h))"
proof -
  have "contribute_write E L (mpc_write E codec self @ slack) (vk (scale_delta E (fst draws) (mpc_params self)))
      (key_delta_g1 (scale_delta E (fst draws) (mpc_params self))) (inverse (fst draws)) (length (mpc_contributions self)) (new_key E ops self draws) batch =
    Inr (layout_key E L (scale_delta E (fst draws) (mpc_params self)) @ cs_hash self @
      write_keys E (mpc_contributions self @ [new_key E ops self draws]) @ drop (phase2_key_size E) slack)"
    unfolding mpc_write_def codec append_assoc
    by (rule contribute_write_value [OF laws key cs keys(1) new_key_bytes [OF laws(1) key_pointsD(3) [OF key] s hash] b slack])
  then show ?thesis unfolding contribute_reads [OF laws codec key cs keys] by (simp add: mpc_contribute_ok mpc_write_def codec)
qed

text \<open>
  C15. Contributing in the buffer is contributing to the parameters. For parameters of points of the subgroups, stored
  in front of free space for one more public key, every batch size other than zero and every secret: the buffer then
  holds the parameters that the contribution computes from the whole of them, followed by what is left of the space,
  and the same hash is returned; a secret of zero is the same panic.\<close>

theorem chunked_contribute_equiv:
  assumes laws: "engine_laws E" "layout_laws E L" and codec: "key_to_bytes codec = layout_key E L"
    and key: "key_points E (mpc_params self)" and cs: "length (cs_hash self) = 64"
    and keys: "\<forall>key\<in>set (mpc_contributions self). key_valid E key" "length (mpc_contributions self) < 2 ^ 32"
    and s: "in_subgroup (g1_affine E) (snd draws)" and hash: "\<forall>t. in_subgroup (g2_affine E) (transcript_point ops t)" "\<forall>t. length (hash_writer ops t) = 64"
    and b: "0 < batch" and slack: "phase2_key_size E \<le> length slack"
  shows "chunked_contribute E ops L (mpc_write E codec self @ slack) draws batch =
    result_bind (mpc_contribute E ops self draws) (\<lambda>(after, h). Inr (mpc_write E codec after @ drop (phase2_key_size E) slack, h))"
  by (rule chunked_contribute_value [OF assms])

section \<open>Verifying in the buffers is verifying\<close>

fun split_batches :: "nat list \<Rightarrow> 'a list \<Rightarrow> 'a list list" where
  "split_batches [] xs = []"
| "split_batches (n # ns) xs = take n xs # split_batches ns (drop n xs)"

lemma split_batches_nth: "i < length ns \<Longrightarrow> split_batches ns xs ! i = take (ns ! i) (drop (sum_list (take i ns)) xs)"
  by (induction ns arbitrary: i xs) (auto simp: nth_Cons' take_Cons' add.commute)

lemma batch_index:
  assumes b: "0 < b" and sizes: "batch_sizes n b = Inr sizes"
  shows "i < length sizes \<longleftrightarrow> i * b < n"
proof -
  let ?q = "n div b" and ?m = "n mod b"
  have s: "sizes = replicate ?q b @ (if 0 < ?m then [?m] else [])" using sizes b by (simp add: batch_sizes_def)
  have split: "?q * b + ?m = n" by simp
  have less: "i < ?q \<Longrightarrow> i * b < ?q * b" and more: "?q < i \<Longrightarrow> ?q * b + b \<le> i * b"
    using b mult_le_mono1 [of "Suc ?q" i b] by simp_all
  have "i < ?q \<Longrightarrow> i * b < n" using less split by linarith
  moreover have "?q * b < n \<longleftrightarrow> 0 < ?m" using split by linarith
  moreover have "?q < i \<Longrightarrow> \<not> i * b < n" using more split mod_less_divisor [OF b, of n] by linarith
  ultimately show ?thesis by (cases i ?q rule: linorder_cases) (auto simp: s)
qed

lemma split_batches_take:
  assumes b: "0 < b" and sizes: "batch_sizes (length xs) b = Inr sizes" and i: "i < length sizes"
  shows "split_batches sizes xs ! i = take b (drop (i * b) xs)"
proof -
  let ?q = "length xs div b" and ?m = "length xs mod b"
  have s: "sizes = replicate ?q b @ (if 0 < ?m then [?m] else [])" using sizes b by (simp add: batch_sizes_def)
  show ?thesis
  proof (cases "i < ?q")
    case False
    then have "i = ?q" "0 < ?m" using i by (auto simp: s split: if_splits)
    moreover have "length (drop (?q * b) xs) = ?m" by (simp add: minus_div_mult_eq_mod)
    then have "take ?m (drop (?q * b) xs) = take b (drop (?q * b) xs)" using mod_less_divisor [OF b, of "length xs"] by (simp only: take_all)
    ultimately show ?thesis by (simp add: split_batches_nth s nth_append sum_list_replicate)
  qed (simp add: split_batches_nth s nth_append sum_list_replicate)
qed

lemma all_batches:
  assumes b: "0 < b" and sizes: "batch_sizes (length xs) b = Inr sizes" and ys: "length ys = length xs"
  shows "(\<forall>i<length sizes. P i (split_batches sizes xs ! i) (split_batches sizes ys ! i)) \<longleftrightarrow>
    (\<forall>i. i * b < length xs \<longrightarrow> P i (take b (drop (i * b) xs)) (take b (drop (i * b) ys)))"
  using split_batches_take [OF b sizes] split_batches_take [OF b, of ys sizes] sizes ys by (simp add: batch_index [OF b sizes])

lemma read_pair_written:
  assumes laws: "curve_laws C" and v: "valid_points C CheckNo xs" "valid_points C CheckNo ys" and n: "n \<le> length xs" "n \<le> length ys"
  shows "read_pair_batch C (encode C Yes xs) (encode C Yes ys) n =
    Inr (take n xs, take n ys, encode C Yes (drop n xs), encode C Yes (drop n ys))"
  using read_prefix_written [OF laws v(1) n(1), of "[]"] read_prefix_written [OF laws v(2) n(2), of "[]"] by (simp add: read_pair_batch_def)

lemma fold_batches:
  assumes laws: "curve_laws C"
  shows "valid_points C CheckNo xs \<Longrightarrow> valid_points C CheckNo ys \<Longrightarrow> sum_list sizes = length xs \<Longrightarrow> length ys = length xs \<Longrightarrow>
    is_ok (fold_results (\<lambda>(i, n) (before, after). result_bind (read_pair_batch C before after n)
        (\<lambda>(els_before, els_after, before, after). result_bind (f i els_before els_after :: unit or_error) (\<lambda>_. Inr (before, after))))
      (enumerate k sizes) (encode C Yes xs, encode C Yes ys)) \<longleftrightarrow>
    (\<forall>i<length sizes. f (k + i) (split_batches sizes xs ! i) (split_batches sizes ys ! i) = Inr ())"
proof (induction sizes arbitrary: xs ys k)
  case (Cons n sizes)
  have n: "n \<le> length xs" "n \<le> length ys" using Cons.prems(3,4) by simp_all
  have v: "valid_points C CheckNo (drop n xs)" "valid_points C CheckNo (drop n ys)"
    using Cons.prems(1,2) by (auto simp: valid_points_def dest: in_set_dropD)
  have "sum_list sizes = length (drop n xs)" "length (drop n ys) = length (drop n xs)" using Cons.prems(3,4) by simp_all
  note IH = Cons.IH [OF v this, of "Suc k"]
  show ?case
  proof (cases "f k (take n xs) (take n ys)")
    case (Inr u)
    then show ?thesis using IH by (simp add: read_pair_written [OF laws Cons.prems(1,2) n] All_less_Suc2)
  qed (auto simp: read_pair_written [OF laws Cons.prems(1,2) n] All_less_Suc2)
qed simp

lemma is_ok_unit: "is_ok m \<longleftrightarrow> result_bind m (\<lambda>_. Inr ()) = Inr ()"
  by (cases m) simp_all

lemma encoded_count:
  assumes "curve_laws C" "valid_points C CheckNo xs"
  shows "length (encode C Yes xs) div serialized_size C = length xs"
  using length_encode [OF assms, of Yes] curve_lawsD(5) [OF assms(1), of Yes] by simp

lemma eq_batches:
  assumes "0 < b" "length ys = length xs" "\<forall>i. i * b < length xs \<longrightarrow> take b (drop (i * b) xs) = take b (drop (i * b) ys)"
  shows "xs = ys"
proof (rule nth_equalityI)
  fix j assume j: "j < length xs"
  have "j div b * b \<le> j" "j - j div b * b < b" using assms(1) by (simp_all add: minus_div_mult_eq_mod)
  then have nth: "take b (drop (j div b * b) zs) ! (j - j div b * b) = zs ! j" if "length zs = length xs" for zs :: "'a list"
    using that j nth_drop [of "j div b * b" zs "j - j div b * b"] by (simp only: nth_take le_add_diff_inverse)
  have "take b (drop (j div b * b) xs) = take b (drop (j div b * b) ys)"
    using assms(3) le_less_trans [OF \<open>j div b * b \<le> j\<close> j] by simp
  with nth [of xs] nth [of ys] assms(2) show "xs ! j = ys ! j" by simp
qed (simp add: assms(2))

lemma joined_ok [simp]: "joined m = Inr v \<longleftrightarrow> m = Inr v"
  by (auto simp: joined_def split: sum.splits SetupError.splits)

lemma chunked_unchanged_iff:
  assumes laws: "curve_laws C" and v: "valid_points C CheckNo xs" "valid_points C CheckNo ys" and b: "0 < b"
  shows "chunked_ensure_unchanged_vec C (encode C Yes xs) (encode C Yes ys) b kind = Inr () \<longleftrightarrow> xs = ys"
proof (cases "length ys = length xs")
  case True
  obtain sizes where s: "batch_sizes (length xs) b = Inr sizes" "sum_list sizes = length xs" using batch_sizes_sum [OF b] by blast
  have "fold_results (\<lambda>n (before, after). result_bind (read_pair_batch C before after n)
        (\<lambda>(els_before, els_after, before, after). result_bind (ensure_unchanged_vec els_before els_after kind) (\<lambda>_. Inr (before, after)))) sizes st =
      fold_results (\<lambda>(i, n) (before, after). result_bind (read_pair_batch C before after n)
        (\<lambda>(els_before, els_after, before, after). result_bind (ensure_unchanged_vec els_before els_after kind) (\<lambda>_. Inr (before, after)))) (enumerate 0 sizes) st" for st
    using fold_results_map [of _ snd "enumerate 0 sizes"] by (simp add: case_prod_beta')
  then have "chunked_ensure_unchanged_vec C (encode C Yes xs) (encode C Yes ys) b kind = Inr () \<longleftrightarrow> (\<forall>i<length sizes. split_batches sizes xs ! i = split_batches sizes ys ! i)"
    using fold_batches [OF laws v s(2) True, where f = "\<lambda>_ els_before els_after. ensure_unchanged_vec els_before els_after kind" and k = 0] s(1)
    unfolding chunked_ensure_unchanged_vec_def Let_def encoded_count [OF laws v(1)] encoded_count [OF laws v(2)] True unit_bind_iff is_ok_unit by simp
  then show ?thesis
    unfolding all_batches [OF b s(1) True, where P = "\<lambda>_ els_before els_after. els_before = els_after"] using eq_batches [OF b True] by auto
qed (auto simp: chunked_ensure_unchanged_vec_def encoded_count [OF laws v(1)] encoded_count [OF laws v(2)] Let_def unit_bind_iff)

text \<open>The ratio is checked in each batch.\<close>

definition ratio_in_batches ::
  "('f, 'g::ab_group_add, 'h, 't) PairingEngine \<Rightarrow> 'f ScalarOps \<Rightarrow> (nat \<Rightarrow> nat \<Rightarrow> 'f) \<Rightarrow> usize \<Rightarrow> 'g list \<Rightarrow> 'g list \<Rightarrow> 'h \<times> 'h \<Rightarrow> string \<Rightarrow> bool" where
  "ratio_in_batches E S rng b xs ys deltas err \<longleftrightarrow>
     (\<forall>i. i * b < length xs \<longrightarrow> check_query_ratio E S (rng i) (take b (drop (i * b) xs)) (take b (drop (i * b) ys)) deltas err = Inr ())"

lemma chunked_ratio_iff:
  assumes laws: "engine_laws E" and v: "valid_points (g1_affine E) CheckNo xs" "valid_points (g1_affine E) CheckNo ys" and b: "0 < b"
  shows "chunked_check_ratio E S rng (encode (g1_affine E) Yes xs) q (encode (g1_affine E) Yes ys) q' b err = Inr () \<longleftrightarrow>
    length ys = length xs \<and> ratio_in_batches E S rng b xs ys (q', q) err"
proof (cases "length ys = length xs")
  case True
  note c = engine_lawsD(1) [OF laws]
  obtain sizes where s: "batch_sizes (length xs) b = Inr sizes" "sum_list sizes = length xs" using batch_sizes_sum [OF b] by blast
  show ?thesis
    using fold_batches [OF c v s(2) True, where f = "\<lambda>i els_before els_after. check_query_ratio E S (rng i) els_before els_after (q', q) err" and k = 0]
      all_batches [OF b s(1) True, where P = "\<lambda>i els_before els_after. check_query_ratio E S (rng i) els_before els_after (q', q) err = Inr ()"] True
    by (simp add: chunked_check_ratio_def encoded_count [OF c v(1)] encoded_count [OF c v(2)] s(1) is_ok_unit ratio_in_batches_def Let_def)
qed (auto simp: chunked_check_ratio_def encoded_count [OF engine_lawsD(1) [OF laws] v(1)] encoded_count [OF engine_lawsD(1) [OF laws] v(2)] Let_def)

lemma split_vec_written:
  assumes "curve_laws C" "layout_laws E L" "valid_points C CheckNo xs" "length xs < 2 ^ 64"
  shows "split_vec C L (vec_bytes C L xs @ r) = Inr (encode C Yes xs, r)"
  using u64_read [OF assms(2,4), of "encode C Yes xs @ r"] length_encode [OF assms(1,3), of Yes]
  by (simp add: split_vec_def vec_bytes_def split_at_def)

lemma split_transcript_written:
  assumes laws: "engine_laws E" "layout_laws E L" and key: "key_points E key"
  shows "phase2_split_transcript E L (unchanged_queries E L key @ vec_bytes (g1_affine E) L (h_query key) @ vec_bytes (g1_affine E) L (l_query key) @ tail) =
    Inr (encode (g1_affine E) Yes (a_query key), encode (g1_affine E) Yes (b_g1_query key), encode (g2_affine E) Yes (b_g2_query key),
      encode (g1_affine E) Yes (h_query key), encode (g1_affine E) Yes (l_query key))"
  using key_pointsD [OF key]
  by (simp add: phase2_split_transcript_def unchanged_queries_def split_vec_written [OF engine_lawsD(1) [OF laws(1)] laws(2)]
      split_vec_written [OF engine_lawsD(2) [OF laws(1)] laws(2)])

lemma verify_header:
  assumes laws: "engine_laws E" "layout_laws E L" and key: "key_points E key"
    and U: "U = unchanged_queries E L key @ vec_bytes (g1_affine E) L (h_query key) @ vec_bytes (g1_affine E) L (l_query key) @ tail"
    and D: "D = to_bytes (g1_affine E) Yes (key_delta_g1 key)" and b: "b = to_bytes (g1_affine E) Yes (key_beta_g1 key)"
  shows "read_vk L (layout_key E L key @ tail) = Inr (vk key, b @ D @ U)"
    "read_point (g1_affine E) Yes CheckNo (b @ D @ U) = Inr (key_beta_g1 key, D @ U)" "read_point (g1_affine E) Yes CheckNo (D @ U) = Inr (key_delta_g1 key, U)"
    "length D = serialized_size (g1_affine E)" "drop (serialized_size (g1_affine E)) (D @ U) = U"
proof -
  note k = key_pointsD [OF key] and c = engine_lawsD(1) [OF laws(1)]
  show "read_vk L (layout_key E L key @ tail) = Inr (vk key, b @ D @ U)"
    by (simp add: read_vk_def layout_key_def layout_lawsD(1) [OF laws(2) k(1)] U D b unchanged_queries_def)
  show "read_point (g1_affine E) Yes CheckNo (b @ D @ U) = Inr (key_beta_g1 key, D @ U)" "read_point (g1_affine E) Yes CheckNo (D @ U) = Inr (key_delta_g1 key, U)"
    using k(2,3) unfolding b D by (simp_all add: read_point_written [OF c] valid_points_def)
  show len: "length D = serialized_size (g1_affine E)" using curve_lawsD(6) [OF c k(3), of Yes] by (simp add: D)
  show "drop (serialized_size (g1_affine E)) (D @ U) = U" using len by simp
qed

lemma verify_position:
  assumes laws: "engine_laws E" "layout_laws E L" and key: "key_points E key"
    and U: "U = unchanged_queries E L key @ vec_bytes (g1_affine E) L (h_query key) @ vec_bytes (g1_affine E) L (l_query key) @ tail"
  shows "length (layout_key E L key @ tail) - length U + 5 * u64_size L + length (encode (g1_affine E) Yes (a_query key)) + length (encode (g1_affine E) Yes (b_g1_query key)) +
      length (encode (g2_affine E) Yes (b_g2_query key)) + length (encode (g1_affine E) Yes (h_query key)) + length (encode (g1_affine E) Yes (l_query key)) =
    length (layout_key E L key)"
  using layout_lawsD(3) [OF laws(2)] key_pointsD(10-14) [OF key] by (simp add: U layout_key_def unchanged_queries_def vec_bytes_def)

text \<open>The layouts of two keys for the same circuit have the same length.\<close>

lemma layout_length:
  assumes laws: "engine_laws E" "layout_laws E L" and key: "key_points E key" "key_points E key'" and same: "same_circuit key key'"
  shows "length (layout_key E L key') = length (layout_key E L key)"
proof -
  note c = engine_lawsD [OF laws(1)] and k = key_pointsD [OF key(1)] and k' = key_pointsD [OF key(2)]
  have "vk key' = (vk key)\<lparr>vk_delta_g2 := vk_delta_g2 (vk key')\<rparr>" using same by (simp add: same_circuit_def)
  then have "length (vk_to_bytes L (vk key')) = length (vk_to_bytes L (vk key))" using layout_lawsD(2) [OF laws(2) k(1) k'(9)] by simp
  moreover have "length (vec_bytes (g1_affine E) L (h_query key')) = length (vec_bytes (g1_affine E) L (h_query key))"
    "length (vec_bytes (g1_affine E) L (l_query key')) = length (vec_bytes (g1_affine E) L (l_query key))"
    using same k k' by (simp_all add: length_vec_bytes [OF c(1) laws(2), of CheckNo] same_circuit_def)
  ultimately show ?thesis
    using same curve_lawsD(6) [OF c(1) k(3), of Yes] curve_lawsD(6) [OF c(1) k'(3), of Yes] by (simp add: layout_key_def same_circuit_def)
qed

text \<open>What is read behind the keys, and the checks on it.\<close>

lemma verify_keys_iff:
  assumes laws: "engine_laws E" and cs: "length (cs_hash self) = 64" "length (cs_hash after) = 64"
    and keys: "\<forall>key\<in>set (mpc_contributions self). key_valid E key" "length (mpc_contributions self) < 2 ^ 32"
      "\<forall>key\<in>set (mpc_contributions after). key_valid E key" "length (mpc_contributions after) < 2 ^ 32"
    and rb: "rb = cs_hash self @ write_keys E (mpc_contributions self) @ slack" and ra: "ra = cs_hash after @ write_keys E (mpc_contributions after) @ slack'"
  shows "result_bind (read_exact 64 rb) (\<lambda>(cs_before, rb).
      result_bind (read_exact 64 ra) (\<lambda>(cs_after, ra).
      result_bind (ensure_unchanged cs_before cs_after CsHash) (\<lambda>_.
      result_bind (read_keys E rb) (\<lambda>(keys_before, _).
      result_bind (read_keys E ra) (\<lambda>(keys_after, _).
      result_bind (slice keys_after 0 (length keys_before)) (\<lambda>previous.
      result_bind (ensure_unchanged keys_before previous Contributions_kind) (\<lambda>_.
      if keys_after = [] then Inl (Phase2Failed NoContributions)
      else
        result_bind (ensure_unchanged (delta_after (last keys_after)) d DeltaG1) (\<lambda>_.
        result_bind (check_same_ratio E (prime_subgroup_generator (g1_affine E), delta_after (last keys_after))
           (prime_subgroup_generator (g2_affine E), q) ''Inconsistent G2 Delta'') (\<lambda>_.
        verify_transcript E ops cs_before keys_after))))))))) = Inr hashes \<longleftrightarrow>
    cs_hash after = cs_hash self \<and> length (mpc_contributions self) \<le> length (mpc_contributions after) \<and>
    mpc_contributions self = take (length (mpc_contributions self)) (mpc_contributions after) \<and> mpc_contributions after \<noteq> [] \<and>
    d = last_delta E (mpc_contributions after) \<and>
    same_ratio E (prime_subgroup_generator (g1_affine E), last_delta E (mpc_contributions after)) (prime_subgroup_generator (g2_affine E), q) \<and>
    verify_transcript E ops (cs_hash self) (mpc_contributions after) = Inr hashes"
  unfolding rb ra contribute_keys [OF laws cs(1) keys(1,2)] contribute_keys [OF laws cs(2) keys(3,4)] result_bind_simps prod.case
  by (auto simp: unit_bind_iff result_bind_ok_iff slice_def last_delta_def check_same_ratio_iff split: if_splits)

lemma chunked_verify_value:
  assumes laws: "engine_laws E" "layout_laws E L" and codec: "key_to_bytes codec = layout_key E L"
    and key: "key_points E (mpc_params self)" "key_points E (mpc_params after)" and cs: "length (cs_hash self) = 64" "length (cs_hash after) = 64"
    and keys: "\<forall>key\<in>set (mpc_contributions self). key_valid E key" "length (mpc_contributions self) < 2 ^ 32"
      "\<forall>key\<in>set (mpc_contributions after). key_valid E key" "length (mpc_contributions after) < 2 ^ 32" and b: "0 < batch"
  shows "chunked_verify E ops S L rng (mpc_write E codec self @ slack) (mpc_write E codec after @ slack') batch = Inr hashes \<longleftrightarrow>
    same_circuit (mpc_params self) (mpc_params after) \<and>
    ratio_in_batches E S (fst rng) batch (h_query (mpc_params self)) (h_query (mpc_params after))
      (vk_delta_g2 (vk (mpc_params after)), vk_delta_g2 (vk (mpc_params self))) ''H_query ratio check failed'' \<and>
    ratio_in_batches E S (snd rng) batch (l_query (mpc_params self)) (l_query (mpc_params after))
      (vk_delta_g2 (vk (mpc_params after)), vk_delta_g2 (vk (mpc_params self))) ''L_query ratio check failed'' \<and>
    cs_hash after = cs_hash self \<and> length (mpc_contributions self) \<le> length (mpc_contributions after) \<and>
    mpc_contributions self = take (length (mpc_contributions self)) (mpc_contributions after) \<and> mpc_contributions after \<noteq> [] \<and>
    key_delta_g1 (mpc_params after) = last_delta E (mpc_contributions after) \<and>
    same_ratio E (prime_subgroup_generator (g1_affine E), last_delta E (mpc_contributions after))
      (prime_subgroup_generator (g2_affine E), vk_delta_g2 (vk (mpc_params after))) \<and>
    verify_transcript E ops (cs_hash self) (mpc_contributions after) = Inr hashes"
proof -
  let ?k = "mpc_params self" and ?k' = "mpc_params after" and ?C1 = "g1_affine E" and ?C2 = "g2_affine E"
  define t where "t = cs_hash self @ write_keys E (mpc_contributions self) @ slack"
  define t' where "t' = cs_hash after @ write_keys E (mpc_contributions after) @ slack'"
  define U where "U = unchanged_queries E L ?k @ vec_bytes ?C1 L (h_query ?k) @ vec_bytes ?C1 L (l_query ?k) @ t"
  define U' where "U' = unchanged_queries E L ?k' @ vec_bytes ?C1 L (h_query ?k') @ vec_bytes ?C1 L (l_query ?k') @ t'"
  note c = engine_lawsD [OF laws(1)] and v = key_pointsD(4-8) [OF key(1)] and v' = key_pointsD(4-8) [OF key(2)]
  note iffs = chunked_unchanged_iff [OF c(1) v(1) v'(1) b] chunked_unchanged_iff [OF c(1) v(2) v'(2) b] chunked_unchanged_iff [OF c(2) v(3) v'(3) b]
    chunked_ratio_iff [OF laws(1) v(4) v'(4) b] chunked_ratio_iff [OF laws(1) v(5) v'(5) b]
  note split = split_transcript_written [OF laws key(1), of t, folded U_def] split_transcript_written [OF laws key(2), of t', folded U'_def]
  note header = verify_header [OF laws key(1) U_def refl refl] verify_header [OF laws key(2) U'_def refl refl]
  define pos where "pos = length (layout_key E L ?k' @ t') - length U' + 5 * u64_size L + length (encode ?C1 Yes (a_query ?k)) + length (encode ?C1 Yes (b_g1_query ?k)) +
    length (encode ?C2 Yes (b_g2_query ?k)) + length (encode ?C1 Yes (h_query ?k)) + length (encode ?C1 Yes (l_query ?k))"
  have drops: "drop pos (layout_key E L ?k @ t) = t" "drop pos (layout_key E L ?k' @ t') = t'" if same: "same_circuit ?k ?k'"
  proof -
    have "pos = length (layout_key E L ?k')"
      using same verify_position [OF laws key(2) U'_def] length_encode [OF c(1) v(4), of Yes] length_encode [OF c(1) v'(4), of Yes]
        length_encode [OF c(1) v(5), of Yes] length_encode [OF c(1) v'(5), of Yes] by (simp add: pos_def same_circuit_def)
    then show "drop pos (layout_key E L ?k @ t) = t" "drop pos (layout_key E L ?k' @ t') = t'" using layout_length [OF laws key same] by simp_all
  qed
  have nl: "\<not> length (to_bytes ?C1 Yes (key_delta_g1 ?k) @ U) < serialized_size ?C1" using header(4) by simp
  note steps = mpc_write_def codec append_assoc t_def [symmetric] t'_def [symmetric] chunked_verify_def Let_def header(1-3,5-8) result_bind_simps prod.case
    if_not_P [OF nl] split unit_bind_iff ensure_iff ensure_unchanged_vec_iff joined_ok iffs pos_def [symmetric]
  show ?thesis
  proof (cases "same_circuit ?k ?k'")
    case True
    show ?thesis unfolding steps drops [OF True] verify_keys_iff [OF laws(1) cs keys t_def t'_def] using True by (auto simp: same_circuit_def)
  next
    case False
    show ?thesis unfolding steps using False by (auto simp: same_circuit_def)
  qed
qed

lemma ratio_all_iff:
  assumes laws: "pairing_laws E" "scalar_laws E S" and v: "valid_points (g1_affine E) CheckNo xs" "valid_points (g1_affine E) CheckNo ys"
      "length ys = length xs" "length xs < 2 ^ 32" and q: "in_subgroup (g2_affine E) q" "q \<noteq> 0"
  shows "(\<forall>r. check_query_ratio E S r xs ys (q, point_mul (g2_affine E) q x) err = Inr ()) \<longleftrightarrow> ys = batch_mul (g1_affine E) xs x"
proof
  assume all: "\<forall>r. check_query_ratio E S r xs ys (q, point_mul (g2_affine E) q x) err = Inr ()"
  show "ys = batch_mul (g1_affine E) xs x"
  proof (rule nth_equalityI)
    fix j assume "j < length ys"
    then have j: "j < length xs" using v(3) by simp
    from all have "combination (g1_affine E) r ys = point_mul (g1_affine E) (combination (g1_affine E) r xs) x" for r
      unfolding check_query_ratio_iff [OF laws v q] by blast
    from combination_unique [OF pairing_lawsD(1) [OF laws(1)] v(1-3) j this this, of 0 1] show "ys ! j = batch_mul (g1_affine E) xs x ! j"
      using j by (simp add: batch_mul_def)
  qed (simp add: v(3))
qed (use scaled_ratio [OF laws v(1,4) q] in simp)

lemma all_families: "(\<forall>r i. A i \<longrightarrow> P i (r i)) \<longleftrightarrow> (\<forall>i y. A i \<longrightarrow> P i y)"
proof (intro iffI allI impI)
  fix i y assume "\<forall>r i. A i \<longrightarrow> P i (r i)" "A i"
  from this(1) [rule_format, of i "\<lambda>_. y", OF this(2)] show "P i y" .
qed blast

lemma ratio_in_batches_all_iff:
  assumes laws: "pairing_laws E" "scalar_laws E S" and v: "valid_points (g1_affine E) CheckNo xs" "valid_points (g1_affine E) CheckNo ys"
      "length ys = length xs" "length xs < 2 ^ 32" and q: "in_subgroup (g2_affine E) q" "q \<noteq> 0" and b: "0 < b"
  shows "(\<forall>r. ratio_in_batches E S r b xs ys (q, point_mul (g2_affine E) q x) err) \<longleftrightarrow> ys = batch_mul (g1_affine E) xs x"
proof -
  let ?x = "\<lambda>i. take b (drop (i * b) xs)" and ?y = "\<lambda>i. take b (drop (i * b) ys)" and ?q = "(q, point_mul (g2_affine E) q x)"
  have v': "valid_points (g1_affine E) CheckNo (?x i)" "valid_points (g1_affine E) CheckNo (?y i)" "length (?y i) = length (?x i)" "length (?x i) < 2 ^ 32" for i
    using v by (auto simp: valid_points_def dest!: in_set_takeD in_set_dropD)
  have map: "batch_mul (g1_affine E) (?x i) x = take b (drop (i * b) (batch_mul (g1_affine E) xs x))" for i
    by (simp add: batch_mul_def take_map drop_map)
  have "(\<forall>r. ratio_in_batches E S r b xs ys ?q err) \<longleftrightarrow> (\<forall>i. i * b < length xs \<longrightarrow> (\<forall>r. check_query_ratio E S r (?x i) (?y i) ?q err = Inr ()))"
    unfolding ratio_in_batches_def using all_families [of "\<lambda>i. i * b < length xs" "\<lambda>i r. check_query_ratio E S r (?x i) (?y i) ?q err = Inr ()"] by blast
  also have "\<dots> \<longleftrightarrow> (\<forall>i. i * b < length ys \<longrightarrow> ?y i = take b (drop (i * b) (batch_mul (g1_affine E) xs x)))"
    unfolding ratio_all_iff [OF laws v' q] map v(3) ..
  also have "\<dots> \<longleftrightarrow> ys = batch_mul (g1_affine E) xs x" using eq_batches [OF b, of "batch_mul (g1_affine E) xs x" ys] v(3) by auto
  finally show ?thesis .
qed

lemma chunked_verify_iff_verify:
  assumes laws: "pairing_laws E" "scalar_laws E S" "layout_laws E L" and codec: "key_to_bytes codec = layout_key E L"
    and key: "key_points E (mpc_params self)" "key_points E (mpc_params after)" and cs: "length (cs_hash self) = 64" "length (cs_hash after) = 64"
    and keys: "\<forall>key\<in>set (mpc_contributions self). key_valid E key" "length (mpc_contributions self) < 2 ^ 32"
      "\<forall>key\<in>set (mpc_contributions after). key_valid E key" "length (mpc_contributions after) < 2 ^ 32"
    and len: "length (h_query (mpc_params self)) < 2 ^ 32" "length (l_query (mpc_params self)) < 2 ^ 32"
    and d: "vk_delta_g2 (vk (mpc_params self)) = point_mul (g2_affine E) (prime_subgroup_generator (g2_affine E)) d"
      "vk_delta_g2 (vk (mpc_params after)) = point_mul (g2_affine E) (prime_subgroup_generator (g2_affine E)) d'" "d' \<noteq> 0"
    and b: "0 < batch"
  shows "(\<forall>rng. chunked_verify E ops S L rng (mpc_write E codec self @ slack) (mpc_write E codec after @ slack') batch = Inr hashes) \<longleftrightarrow>
    (\<forall>rng. mpc_verify E ops S rng self after = Inr hashes)"
proof (cases "same_circuit (mpc_params self) (mpc_params after)")
  case True
  let ?k = "mpc_params self" and ?k' = "mpc_params after"
  note l = pairing_lawsD(2) [OF laws(1)] and c2 = curve_lawsD [OF subgroup_lawsD(1) [OF pairing_lawsD(2) [OF laws(1)]]]
  have q: "in_subgroup (g2_affine E) (vk_delta_g2 (vk ?k'))" "vk_delta_g2 (vk ?k') \<noteq> 0" "vk_delta_g2 (vk ?k) = point_mul (g2_affine E) (vk_delta_g2 (vk ?k')) (d / d')"
    using d subgroup_lawsD(2) [OF l] by (simp_all add: c2 point_mul_eq_0 [OF l])
  have lens: "length (h_query ?k') = length (h_query ?k)" "length (l_query ?k') = length (l_query ?k)" using True by (simp_all add: same_circuit_def)
  note whole = ratio_all_iff [OF laws(1,2) key_pointsD(7) [OF key(1)] key_pointsD(7) [OF key(2)] lens(1) len(1) q(1,2), of "d / d'", folded q(3)]
      ratio_all_iff [OF laws(1,2) key_pointsD(8) [OF key(1)] key_pointsD(8) [OF key(2)] lens(2) len(2) q(1,2), of "d / d'", folded q(3)]
    and parts = ratio_in_batches_all_iff [OF laws(1,2) key_pointsD(7) [OF key(1)] key_pointsD(7) [OF key(2)] lens(1) len(1) q(1,2) b, of "d / d'", folded q(3)]
      ratio_in_batches_all_iff [OF laws(1,2) key_pointsD(8) [OF key(1)] key_pointsD(8) [OF key(2)] lens(2) len(2) q(1,2) b, of "d / d'", folded q(3)]
  show ?thesis
    unfolding chunked_verify_value [OF pairing_lawsD(3) [OF laws(1)] laws(3) codec key cs keys b] mpc_verify_iff split_paired_All fst_conv snd_conv all_conj_distrib
    using whole parts by (simp add: conj_ac)
next
  case False
  then show ?thesis unfolding chunked_verify_value [OF pairing_lawsD(3) [OF laws(1)] laws(3) codec key cs keys b] mpc_verify_iff by blast
qed

text \<open>
  C16. Verifying in the buffers is verifying. For parameters of points of the subgroups whose deltas in G2 are nonzero
  multiples of the generator, stored in two buffers, and every batch size other than zero: the verification in the
  buffers accepts with some hashes, whatever scalars it draws for the batches, exactly when the verification of the
  whole parameters does, whatever scalars it draws.\<close>

theorem chunked_verify_equiv:
  assumes laws: "pairing_laws E" "scalar_laws E S" "layout_laws E L" and codec: "key_to_bytes codec = layout_key E L"
    and key: "key_points E (mpc_params self)" "key_points E (mpc_params after)" and cs: "length (cs_hash self) = 64" "length (cs_hash after) = 64"
    and keys: "\<forall>key\<in>set (mpc_contributions self). key_valid E key" "length (mpc_contributions self) < 2 ^ 32"
      "\<forall>key\<in>set (mpc_contributions after). key_valid E key" "length (mpc_contributions after) < 2 ^ 32"
    and len: "length (h_query (mpc_params self)) < 2 ^ 32" "length (l_query (mpc_params self)) < 2 ^ 32"
    and d: "vk_delta_g2 (vk (mpc_params self)) = point_mul (g2_affine E) (prime_subgroup_generator (g2_affine E)) d"
      "vk_delta_g2 (vk (mpc_params after)) = point_mul (g2_affine E) (prime_subgroup_generator (g2_affine E)) d'" "d' \<noteq> 0"
    and b: "0 < batch"
  shows "(\<forall>rng. chunked_verify E ops S L rng (mpc_write E codec self @ slack) (mpc_write E codec after @ slack') batch = Inr hashes) \<longleftrightarrow>
    (\<forall>rng. mpc_verify E ops S rng self after = Inr hashes)"
  by (rule chunked_verify_iff_verify [OF assms])

section \<open>A ceremony in the buffers\<close>

lemma new_key_valid:
  assumes laws: "pairing_laws E" and self: "mpc_consistent E ops self" and hash: "\<forall>t. length (hash_writer ops t) = 64"
      "\<forall>t. in_subgroup (g2_affine E) (transcript_point ops t) \<and> transcript_point ops t \<noteq> 0"
    and draws: "fst draws \<noteq> 0" "in_subgroup (g1_affine E) (snd draws)" "snd draws \<noteq> 0"
  shows "key_valid E (new_key E ops self draws)"
proof -
  note l = pairing_lawsD(1,2) [OF laws] and c1 = curve_lawsD [OF engine_lawsD(1) [OF pairing_lawsD(3) [OF laws]]]
    and c2 = curve_lawsD [OF engine_lawsD(2) [OF pairing_lawsD(3) [OF laws]]]
  obtain d where d: "d \<noteq> 0" "key_delta_g1 (mpc_params self) = point_mul (g1_affine E) (prime_subgroup_generator (g1_affine E)) d"
    using self by (auto simp: mpc_consistent_def)
  show ?thesis
    using hash draws d(1) subgroup_lawsD(2) [OF l(1)]
    by (simp add: key_valid_def valid_points_def accepted_def new_key_def keypair_new_def hash_cs_pubkeys_def Let_def split_beta d(2) c1 c2
        point_mul_eq_0 [OF l(1)] point_mul_eq_0 [OF l(2)])
qed

lemma scale_delta_key_points:
  assumes "engine_laws E" "key_points E key"
  shows "key_points E (scale_delta E d key)"
  using assms(2) batch_mul_valid [OF engine_lawsD(1) [OF assms(1)], of CheckNo "h_query key"] batch_mul_valid [OF engine_lawsD(1) [OF assms(1)], of CheckNo "l_query key"]
  by (auto simp: key_points_def vk_points_def scale_delta_def valid_points_def curve_lawsD(2) [OF engine_lawsD(1) [OF assms(1)]]
      curve_lawsD(2) [OF engine_lawsD(2) [OF assms(1)]])

text \<open>
  C20. A contribution made in the buffer is accepted by the verification in the buffers. From consistent parameters of
  points of the subgroups, stored in front of free space for a public key, with a nonzero secret and for all batch
  sizes other than zero: contributing in the buffer succeeds, and verifying the new buffer against the old one succeeds,
  whatever scalars are drawn, and returns the hashes of all contributions, the contributor's own as the last.\<close>

theorem chunked_ceremony_verifies:
  assumes laws: "pairing_laws E" "scalar_laws E S" "layout_laws E L" and codec: "key_to_bytes codec = layout_key E L"
    and self: "mpc_consistent E ops self" "key_points E (mpc_params self)" "length (cs_hash self) = 64"
    and keys: "\<forall>key\<in>set (mpc_contributions self). key_valid E key" "length (mpc_contributions self) + 1 < 2 ^ 32"
    and hash: "\<forall>t. length (hash_writer ops t) = 64" "\<forall>t. in_subgroup (g2_affine E) (transcript_point ops t) \<and> transcript_point ops t \<noteq> 0"
    and draws: "fst draws \<noteq> 0" "in_subgroup (g1_affine E) (snd draws)" "snd draws \<noteq> 0"
    and b: "0 < batch" "0 < batch'" and slack: "phase2_key_size E \<le> length slack"
  shows "case chunked_contribute E ops L (mpc_write E codec self @ slack) draws batch of
      Inl e \<Rightarrow> False
    | Inr (buffer, h) \<Rightarrow> chunked_verify E ops S L rng (mpc_write E codec self @ slack) buffer batch' =
        Inr (map (phase2_key_hash E ops) (mpc_contributions self) @ [h])"
proof -
  note el = pairing_lawsD(3) [OF laws(1)]
  obtain after h where after: "mpc_contribute E ops self draws = Inr (after, h)" using draws(1) by (auto simp: mpc_contribute_ok)
  have a: "mpc_params after = scale_delta E (fst draws) (mpc_params self)" "mpc_contributions after = mpc_contributions self @ [new_key E ops self draws]"
    "cs_hash after = cs_hash self" "h = phase2_key_hash E ops (new_key E ops self draws)"
    using after draws(1) by (auto simp: mpc_contribute_ok)
  have sub: "\<forall>t. in_subgroup (g2_affine E) (transcript_point ops t)" using hash(2) by simp
  note con = contribute_consistent [OF laws(1) sub self(1) draws(1,2) after]
  have n: "length (mpc_contributions self) < 2 ^ 32" using keys(2) by simp
  have valid: "\<forall>key\<in>set (mpc_contributions after). key_valid E key" using keys(1) new_key_valid [OF laws(1) self(1) hash draws] by (simp add: a(2))
  have contributed: "chunked_contribute E ops L (mpc_write E codec self @ slack) draws batch = Inr (mpc_write E codec after @ drop (phase2_key_size E) slack, h)"
    using chunked_contribute_value [OF el laws(3) codec self(2,3) keys(1) n draws(2) sub hash(1) b(1) slack] after by simp
  obtain d where d: "d \<noteq> 0" "vk_delta_g2 (vk (mpc_params self)) = point_mul (g2_affine E) (prime_subgroup_generator (g2_affine E)) d"
    using self(1) by (auto simp: mpc_consistent_def)
  note whole = scaled_verifies [OF laws(1,2) self(1) con(1) a(1) draws(1) a(2) _ a(3)]
  have points: "key_points E (mpc_params after)" using scale_delta_key_points [OF el self(2)] by (simp add: a(1))
  have d': "vk_delta_g2 (vk (mpc_params after)) = point_mul (g2_affine E) (prime_subgroup_generator (g2_affine E)) (d * fst draws)" "d * fst draws \<noteq> 0"
    using d draws(1) curve_lawsD [OF engine_lawsD(2) [OF el]] by (simp_all add: a(1) scale_delta_def)
  have "\<forall>rng. chunked_verify E ops S L rng (mpc_write E codec self @ slack) (mpc_write E codec after @ drop (phase2_key_size E) slack) batch' =
      Inr (map (phase2_key_hash E ops) (mpc_contributions after))"
    using self whole keys(2) by (subst chunked_verify_iff_verify [OF laws codec self(2) points self(3) _ keys(1) n valid _ _ _ d(2) d' b(2)])
      (simp_all add: a(2,3) mpc_consistent_def)
  from this [rule_format, of rng] show ?thesis by (simp add: contributed a(2,4))
qed

section \<open>An example\<close>

definition u64_digits :: "nat \<Rightarrow> bytes" where
  "u64_digits n = map (\<lambda>i. n div 256 ^ i mod 256) [0..<8]"

definition u64_value :: "bytes \<Rightarrow> nat" where
  "u64_value bs = (\<Sum>i<8. bs ! i * 256 ^ i)"

definition GF3_of :: "nat \<Rightarrow> GF3" where
  "GF3_of b = (case decode_GF3 b of None \<Rightarrow> Zero3 | Some p \<Rightarrow> p)"

definition example_layout :: "(GF3, GF3) KeyLayout" where
  "example_layout =
     \<lparr>vk_to_bytes = (\<lambda>v. map encode_GF3 [vk_alpha_g1 v, vk_beta_g2 v, vk_gamma_g2 v, vk_delta_g2 v] @
        u64_digits (length (vk_gamma_abc_g1 v)) @ map encode_GF3 (vk_gamma_abc_g1 v)),
      vk_of_bytes = (\<lambda>r. if length r < 12 then None
        else let n = u64_value (take 8 (drop 4 r)) in
          Some (\<lparr>vk_alpha_g1 = GF3_of (r ! 0), vk_beta_g2 = GF3_of (r ! 1), vk_gamma_g2 = GF3_of (r ! 2), vk_delta_g2 = GF3_of (r ! 3),
                 vk_gamma_abc_g1 = map GF3_of (take n (drop 12 r))\<rparr>, drop (12 + n) r)),
      u64_to_bytes = u64_digits, u64_of_bytes = u64_value, u64_size = 8\<rparr>"

lemma digits_sum: "(\<Sum>i<k. n div b ^ i mod b * b ^ i) = n mod b ^ k" for n b :: nat
proof (induction k)
  case (Suc k)
  then show ?case using mod_mult2_eq [of n "b ^ k" b] by (simp add: mult.commute)
qed simp

lemma u64_digits_value: "length (u64_digits n) = 8" "n < 2 ^ 64 \<Longrightarrow> u64_value (u64_digits n) = n"
proof -
  show "length (u64_digits n) = 8" by (simp add: u64_digits_def)
  have "u64_value (u64_digits n) = n mod 256 ^ 8" by (simp only: u64_value_def u64_digits_def digits_sum [symmetric]) (rule sum.cong, simp_all)
  then show "n < 2 ^ 64 \<Longrightarrow> u64_value (u64_digits n) = n" by simp
qed

lemma GF3_of_encode: "GF3_of (encode_GF3 p) = p"
  by (simp add: GF3_of_def)

lemma example_layout_laws: "layout_laws example_engine example_layout"
proof -
  have "vk_of_bytes example_layout (vk_to_bytes example_layout v @ r) = Some (v, r)" if "vk_points example_engine v" for v r
  proof -
    let ?n = "length (vk_gamma_abc_g1 v)" and ?four = "map encode_GF3 [vk_alpha_g1 v, vk_beta_g2 v, vk_gamma_g2 v, vk_delta_g2 v]"
    have "length (?four @ u64_digits ?n @ map encode_GF3 (vk_gamma_abc_g1 v)) = 12 + ?n" by (simp add: u64_digits_value)
    then have "drop (12 + ?n) ((?four @ u64_digits ?n @ map encode_GF3 (vk_gamma_abc_g1 v)) @ r) = r" by (metis append_eq_conv_conj)
    then show ?thesis using that by (simp add: example_layout_def vk_points_def u64_digits_value GF3_of_encode comp_def Let_def)
  qed
  then show ?thesis by (simp add: layout_laws_def) (simp add: example_layout_def u64_digits_value)
qed

definition layout_codec :: "(GF3, GF3) KeyCodec" where
  "layout_codec = \<lparr>key_to_bytes = layout_key example_engine example_layout, key_of_bytes = (\<lambda>_. None)\<rparr>"

lemma example_key_points: "key_points example_engine (mpc_params example_mpc)" "key_points example_engine (mpc_params example_contributed)"
proof -
  show points: "key_points example_engine (mpc_params example_mpc)"
    by (simp add: key_points_def vk_points_def valid_points_def) (simp add: example_mpc_def circuit_key_def example_assembly_def Let_def)
  show "key_points example_engine (mpc_params example_contributed)"
    using scale_delta_key_points [OF pairing_lawsD(3) [OF example_pairing_laws] points] by (simp add: example_contributed_def)
qed

lemma example_keys:
  "length (cs_hash example_mpc) = 64" "length (cs_hash example_contributed) = 64" "mpc_contributions example_mpc = []"
  "\<forall>key\<in>set (mpc_contributions example_contributed). key_valid example_engine key" "length (mpc_contributions example_contributed) = 1"
  "key_to_bytes layout_codec = layout_key example_engine example_layout"
  using new_key_valid [OF example_pairing_laws example_consistent(1), of "(Two3, One3)"]
  by (simp_all add: example_contributed_def example_transcript zero_GF3_def layout_codec_def) (simp_all add: example_mpc_def)

lemma example_key_size: "phase2_key_size example_engine = 72"
  by (simp add: phase2_key_size_def example_engine_def example_curve_def)

theorem chunked_contribute_equiv_witness:
  "chunked_contribute example_engine example_ops example_layout (mpc_write example_engine layout_codec example_mpc @ replicate 72 0) (Two3, One3) 2 =
     result_bind (mpc_contribute example_engine example_ops example_mpc (Two3, One3))
       (\<lambda>(after, h). Inr (mpc_write example_engine layout_codec after, h))"
  using chunked_contribute_equiv [OF pairing_lawsD(3) [OF example_pairing_laws] example_layout_laws example_keys(6) example_key_points(1) example_keys(1),
      of "(Two3, One3)" example_ops 2 "replicate 72 0"]
  by (simp add: example_keys example_transcript example_key_size)

theorem chunked_verify_equiv_witness:
  "\<forall>rng. chunked_verify example_engine example_ops example_scalars example_layout rng (mpc_write example_engine layout_codec example_mpc)
     (mpc_write example_engine layout_codec example_contributed) 1 = Inr (map (phase2_key_hash example_engine example_ops) (mpc_contributions example_contributed))"
proof -
  have d: "vk_delta_g2 (vk (mpc_params example_mpc)) = point_mul (g2_affine example_engine) (prime_subgroup_generator (g2_affine example_engine)) One3"
    by (simp add: example_mpc_def circuit_key_def Let_def one_GF3_def)
  then have d': "vk_delta_g2 (vk (mpc_params example_contributed)) = point_mul (g2_affine example_engine) (prime_subgroup_generator (g2_affine example_engine)) Two3"
    by (simp add: example_contributed_def scale_delta_def) (simp add: example_engine_def example_curve_def one_GF3_def)
  have len: "length (h_query (mpc_params example_mpc)) < 2 ^ 32" "length (l_query (mpc_params example_mpc)) < 2 ^ 32"
    using example_consistent(1) by (simp_all add: mpc_consistent_def)
  show ?thesis
    using chunked_verify_equiv [OF example_pairing_laws example_scalar_laws example_layout_laws example_keys(6) example_key_points example_keys(1,2) _ _ example_keys(4) _ len d d',
        of 1 example_ops "[]" "[]"] example_verifies
    by (simp add: example_keys zero_GF3_def)
qed

theorem chunked_ceremony_verifies_witness:
  "\<forall>rng. case chunked_contribute example_engine example_ops example_layout (mpc_write example_engine layout_codec example_mpc @ replicate 72 0) (Two3, One3) 1 of
      Inl e \<Rightarrow> False
    | Inr (buffer, h) \<Rightarrow> chunked_verify example_engine example_ops example_scalars example_layout rng
        (mpc_write example_engine layout_codec example_mpc @ replicate 72 0) buffer 2 = Inr [h]"
proof
  fix rng
  show "case chunked_contribute example_engine example_ops example_layout (mpc_write example_engine layout_codec example_mpc @ replicate 72 0) (Two3, One3) 1 of
      Inl e \<Rightarrow> False
    | Inr (buffer, h) \<Rightarrow> chunked_verify example_engine example_ops example_scalars example_layout rng
        (mpc_write example_engine layout_codec example_mpc @ replicate 72 0) buffer 2 = Inr [h]"
    using chunked_ceremony_verifies [OF example_pairing_laws example_scalar_laws example_layout_laws example_keys(6) example_consistent(1) example_key_points(1)
        example_keys(1), of "(Two3, One3)" 1 2 "replicate 72 0" rng]
    by (auto simp: example_keys example_transcript zero_GF3_def example_key_size split: sum.splits)
qed

end
