(* ===== verification/Spec2Isabelle.thy ===== *)
theory Spec2Isabelle
  imports Tasks_U64 Chunks Round_Invariant Coordinator_Advance Phase2_Chunked
begin

text \<open>
  A verification of the trusted setup ceremony: its phase 1 coordinator (\<^verbatim>\<open>src/phase1-coordinator\<close>)
  and the cryptography of its two phases (\<^verbatim>\<open>src/phase1\<close>, \<^verbatim>\<open>src/phase2\<close>, with \<^verbatim>\<open>src/setup-utils\<close>).

  The program. A ceremony runs in rounds. The powers of tau are cut into chunks, and in a round
  every contributor contributes once to every chunk; on each chunk the contributions are made one
  after the other, and each is verified before the next one. The coordinator keeps a queue of
  contributors that wait, assigns them to rounds, gives each contributor of a round a list of
  tasks (a chunk and the number of the contribution on it), follows who has locked which chunk,
  which contribution waits for verification, and who has finished, replaces contributors that
  disappear by contributors of its own, and closes the round by an aggregation. All of this is
  the state in \<^verbatim>\<open>coordinator_state.rs\<close>; the objects under \<^verbatim>\<open>objects/\<close> hold the tasks, the
  participants, and the chunks of a round with their contributions. The round with its chunks, the
  files of the contributions and their signatures are on disk (\<^verbatim>\<open>storage/\<close>), and the handlers of
  \<^verbatim>\<open>coordinator.rs\<close> change state, round and files together: a contributor locks a chunk, uploads
  a response to the challenge of the chunk and adds it, a verifier uploads the next challenge and
  adds that, until the round is aggregated and the next one starts. What is contributed is computed
  and checked in \<^verbatim>\<open>phase1\<close>: an accumulator holds the powers of tau in two groups, multiples of them by
  alpha and beta, and for Marlin some elements for degree bounds; a contribution multiplies them by
  its own secrets, and publishes a key against which the new accumulator is verified with pairings. At
  the end of phase 1 the chunks are aggregated into the full accumulator. For phase 2 its powers are turned into
  Lagrange coefficients (\<^verbatim>\<open>setup-utils/src/groth16_utils.rs\<close>), at which a circuit is evaluated; the
  contributors to \<^verbatim>\<open>phase2\<close> multiply delta by their secrets and divide two queries by them, on the parameters as
  a whole or in place in a buffer.

  The model. All numbers that the code keeps in u64 are natural numbers, except in
  \<^verbatim>\<open>Tasks_U64\<close>, where the assignment of tasks runs on 64-bit words and is shown to agree.
  Times are integers in nanoseconds; an operation that reads the clock takes the time as an
  argument \<open>now\<close>, one reading per call. Hash maps and hash sets are association lists and
  lists whose order stands for the order of iteration; the theorems hold for every order.
  A fallible operation on \<open>&mut self\<close> returns its result, \<open>Inl\<close> an error or \<open>Inr\<close> a value,
  together with the state it leaves, also after an error. Log messages are left out.
  A disk is a map from paths to contents with the set of its directories, which only the coordinator
  changes; reading and writing a file succeeds when the file exists, and a mapped file holds
  what was written to it. Code of other crates is a parameter of the definitions: \<open>Crypto\<close>
  (hexadecimal coding, BLAKE2b, the JSON text of a signed state), \<open>Externals\<close> (this, the
  sizes of curve elements and the JSON codecs of the stored objects), \<open>Signature\<close> (the scheme,
  with the dummy scheme of the tests as an instance) and \<open>Phase1Ops\<close> (the operations on powers of
  tau, each on whole buffers). In the theories on \<^verbatim>\<open>phase1\<close> the groups, their encoding and the
  pairing are the record \<open>PairingEngine\<close>, over a scalar field that is a type; what the theorems
  rely on is stated as \<open>engine_laws\<close> (a module over the field, encodings of fixed size that are read
  back) and \<open>pairing_laws\<close> (cyclic subgroups, a bilinear pairing that is not degenerate), and
  \<^verbatim>\<open>Example_Engine\<close> has an instance with three elements, on which the theorems are applied. In the theories on
  \<^verbatim>\<open>phase2\<close> the evaluation domains and their Fourier transform are the record \<open>Domains\<close> with \<open>domain_laws\<close>, hashing
  is \<open>Phase2Ops\<close>, and the encoding of keys is \<open>KeyCodec\<close> or, where the code works on its parts, \<open>KeyLayout\<close> with
  \<open>layout_laws\<close>. Random draws are arguments. A panic is the error \<open>Panic\<close>; threads that a scope spawns are run one after the
  other, since they write to different slices. No theorem assumes more of these parameters than it states.

  The theories, in the order of the code they rest on:
  \<^item> \<^verbatim>\<open>Aleo_Prelude\<close>: results, the maps and sets of the standard library, shared facts, and
    the locale \<open>invariant_system\<close> of runs that keep an invariant. \<^verbatim>\<open>Rust_Strings\<close>: splitting,
    joining and decimal numbers, as \<^verbatim>\<open>serde\<close> and \<^verbatim>\<open>Display\<close> use them.
  \<^item> \<^verbatim>\<open>Participants\<close> (\<^verbatim>\<open>objects/participant.rs\<close>) and \<^verbatim>\<open>Tasks\<close> (\<^verbatim>\<open>objects/task.rs\<close>): the
    serialised forms with their round trips, and \<^verbatim>\<open>initialize_tasks\<close>: its counting loop equals
    a closed form, the lists of all contributors partition all contributions, and the schedule
    never deadlocks. \<^verbatim>\<open>Tasks_U64\<close>: no overflow below 2^63 chunks.
  \<^item> \<^verbatim>\<open>Coordinator_Error\<close>: the errors of \<^verbatim>\<open>coordinator.rs\<close>.
  \<^item> \<^verbatim>\<open>Contributions\<close>, \<^verbatim>\<open>Chunks\<close> (\<^verbatim>\<open>objects/contribution.rs\<close>, \<^verbatim>\<open>objects/chunk.rs\<close>): locking,
    contributing and verifying refine an abstract protocol of a chunk; well-formedness is kept;
    what a complete chunk guarantees.
  \<^item> \<^verbatim>\<open>Environments\<close> (\<^verbatim>\<open>environment.rs\<close>, \<^verbatim>\<open>phase1/src/macros.rs\<close>): the parameter presets, the
    number of chunks, the default environments and what they permit.
  \<^item> \<^verbatim>\<open>Participant_Info\<close> (\<^verbatim>\<open>ParticipantInfo\<close>): tasks are conserved on the way from assigned
    over pending to completed; a finished contributor has completed all of them, and can finish.
  \<^item> \<^verbatim>\<open>Coordinator_State\<close> (the state, its queries, the queue), \<^verbatim>\<open>Coordinator_Tasks\<close> (tasks,
    verification, timers, metrics, aggregation flags), \<^verbatim>\<open>Coordinator_Rounds\<close> (precommit, commit,
    rollback, reset), \<^verbatim>\<open>Coordinator_Drops\<close> (drops, replacements, timeouts, bans): the operations
    of \<^verbatim>\<open>CoordinatorState\<close>, each with what it does on success and on error.
  \<^item> \<^verbatim>\<open>Round_Invariant\<close>: the steps of a running round as a relation (every operation of the state but
    resets and the commit of the next round, with their errors, and with drops in favour of whatever
    replacement the code picks), its invariant, what a replacement that is in the round already costs,
    and a round of two contributors on three chunks that the examples use.
  \<^item> \<^verbatim>\<open>Phase1_Parameters\<close> (\<^verbatim>\<open>phase1/src/objects/parameters.rs\<close>, \<^verbatim>\<open>macros.rs\<close>): the elements and
    the file sizes of a chunk; the chunks tile the powers of tau.
  \<^item> \<^verbatim>\<open>Locators\<close>, \<^verbatim>\<open>Disk_Storage\<close>, \<^verbatim>\<open>Object_Storage\<close> (\<^verbatim>\<open>storage/storage.rs\<close>, \<^verbatim>\<open>storage/disk.rs\<close>):
    locators and their paths with the round trip, the files, what each operation touches, and which
    files a cleared round loses.
  \<^item> \<^verbatim>\<open>Rounds\<close> (\<^verbatim>\<open>objects/round.rs\<close>): every operation of the round object on its chunks and files; the
    rounds that can be reached are sound, and well formed when replacements are new to the round and the
    lists that come with a drop are complete; locking is atomic, what a complete and a reset round hold, and what the removal of a dropped contributor does to the files of others.
  \<^item> \<^verbatim>\<open>File_Signatures\<close> (\<^verbatim>\<open>objects/contribution_file_signature.rs\<close>, \<^verbatim>\<open>authentication/\<close>) and
    \<^verbatim>\<open>Commands\<close> (\<^verbatim>\<open>commands/\<close>): signed hashes, and the initialization, computation, verification
    and aggregation on files.
  \<^item> \<^verbatim>\<open>Coordinator_Contributions\<close> (\<^verbatim>\<open>coordinator.rs\<close>, loading, queue, locks, contributions and
    verifications): locking is all or nothing over state, round and files, unless the round cannot be
    loaded; only a contribution that is chained by its hashes and signed is added or verified.
  \<^item> \<^verbatim>\<open>Coordinator_Advance\<close> (\<^verbatim>\<open>coordinator.rs\<close>, the rest): the initialization, the aggregation,
    the advance to the next round, drops and resets in storage and the update loop; what each
    of the first three and a reset have written when they succeed, and that they fail cleanly.
  \<^item> \<^verbatim>\<open>Curve_Elements\<close> (\<^verbatim>\<open>setup-utils/src/io\<close>, \<^verbatim>\<open>helpers.rs\<close>), \<^verbatim>\<open>Phase1_Buffers\<close>
    (\<^verbatim>\<open>phase1/src/helpers/buffers.rs\<close>) and \<^verbatim>\<open>Phase1_Accumulator\<close> (\<^verbatim>\<open>helpers/accumulator.rs\<close>,
    \<^verbatim>\<open>serialization.rs\<close>, \<^verbatim>\<open>initialization.rs\<close>): elements in buffers, the overlapping batches, which cover the
    chunk, and the accumulator with its round trips.
  \<^item> \<^verbatim>\<open>Phase1_Computation\<close> (\<^verbatim>\<open>computation.rs\<close>): a contribution multiplies every element by its power of the
    secrets, and a sequence of contributions by that of the product of all secrets.
  \<^item> \<^verbatim>\<open>Multiexp\<close> (\<^verbatim>\<open>dense_multiexp\<close>): the algorithm by buckets equals the sum of multiples.
  \<^item> \<^verbatim>\<open>Phase1_Keys\<close> (\<^verbatim>\<open>key_generation.rs\<close>, \<^verbatim>\<open>objects/public_key.rs\<close>, hashing to G2) and
    \<^verbatim>\<open>Phase1_Verification\<close> (\<^verbatim>\<open>verification.rs\<close>): an honest contribution is accepted, and what is accepted has
    valid elements, the first of which are multiplied by the secrets of its public key.
  \<^item> \<^verbatim>\<open>Phase1_Aggregation\<close> (\<^verbatim>\<open>aggregation.rs\<close>) and \<^verbatim>\<open>Phase1_Aggregate_Verification\<close> (\<^verbatim>\<open>aggregate_verification\<close>): the
    aggregate of a ceremony in chunks is the accumulator of the product of all secrets and is accepted; what an accepted
    aggregate holds, up to an unlucky draw, and which of its elements are not checked.
  \<^item> \<^verbatim>\<open>Groth16_Params\<close> (\<^verbatim>\<open>setup-utils/src/groth16_utils.rs\<close>): the accumulator of phase 1 becomes the values of the
    Lagrange polynomials at its secrets; the stored coefficients are read back.
  \<^item> \<^verbatim>\<open>Phase2_Keys\<close> (\<^verbatim>\<open>phase2/src/keypair.rs\<close>) and \<^verbatim>\<open>Phase2_Parameters\<close> (\<^verbatim>\<open>polynomial.rs\<close>, \<^verbatim>\<open>parameters.rs\<close>): the initial
    parameters are those of the circuit, contributions multiply delta, honest ones are accepted, and accepted ones prove
    the secrets of all contributors; parameters are read back.
  \<^item> \<^verbatim>\<open>Phase2_Chunked\<close> (\<^verbatim>\<open>chunked_groth16.rs\<close>): contributing and verifying in buffers, in batches of any size, is the
    same as on the whole parameters.
  \<^item> This theory: what holds of a round from its precommit to its end.

  Bounds. No function needs fuel: loops are structural recursions over lists, and the two loops that
  need not end (\<^verbatim>\<open>hash_to_g2\<close>, and the recursion of \<^verbatim>\<open>dense_multiexp\<close>) are partial functions, which are shown to
  return. The sizes in the
  examples (three chunks, two contributors) are those of the default testing environment.

  Not modelled: the status report and the getters that only read a field; the synthesis of a circuit and of its
  matrices, which \<^verbatim>\<open>phase2\<close> leaves to the constraint system of another crate; the bindings for the browser; sources of
  randomness and timing; and the command line tools and network clients, which are loops over requests, files and
  processes around the operations modelled here. The file system fails only as the storage checks it: a full disk and
  files changed by others are not modelled. Sizes and positions of buffers are natural numbers, so that a length
  in a buffer that overflows when it is multiplied by the size of an element is not modelled either, nor
  that of a shift \<^verbatim>\<open>1 << total_size_in_log2\<close> by 63 or more in the parameters of phase 1.
\<close>

section \<open>The round as a whole\<close>

text \<open>
  C1. The books of a round balance. In an environment whose coordinator contributors are
  contributors, as its builder demands, after the precommit and the commit of a round and any
  operations of its contributors and verifiers, of the queue, the timers and the operator,
  errors, drops, bans and replacements included, until the round is reset or the next one is
  committed (a contributor's task being rolled back only while it is pending, and contributors
  being dropped only where there are coordinator contributors, since the round is reset
  otherwise): no contribution of a chunk is in the books of two contributors of the round,
  current or finished. Every contribution is in the books of exactly one of them as long as
  the round has as many participants as were committed, and it has so many as long as every
  replacement was free, that is, not yet in the round. The code does not ask whether it is.
\<close>

theorem round_books_balanced:
  assumes "hm_wf (queue s0)" and "list_all is_contributor (coordinator_contributors (environment s0))"
    and "precommit_next_round s0 next_height now = (Inr out, s1)"
    and "round_step\<^sup>*\<^sup>* (commit_next_round s1) s"
    and "c < number_of_chunks (environment s0)" and "1 \<le> i" and "i \<le> length out"
  shows "(\<forall>p info q info'. (p, info) \<in> set (current_contributors s @ finished_in_round s next_height) \<longrightarrow>
      (q, info') \<in> set (current_contributors s @ finished_in_round s next_height) \<longrightarrow>
      new_task c i \<in> set (open_tasks info) \<longrightarrow> new_task c i \<in> set (open_tasks info') \<longrightarrow> p = q \<and> info = info') \<and>
    (length (round_participants s) = length out \<longrightarrow>
      (\<exists>!p. \<exists>info. hm_get (current_contributors s @ finished_in_round s next_height) p = Some info \<and>
        new_task c i \<in> set (open_tasks info))) \<and>
    (free_round_step\<^sup>*\<^sup>* (commit_next_round s1) s \<longrightarrow> length (round_participants s) = length out)"
proof -
  let ?n = "number_of_chunks (environment s0)" and ?C = "current_contributors s"
  obtain F where h: "round_height_or_zero s = next_height" and F: "finished_in_round s next_height = F"
    and ok: "books_ok ?n (length out) ?C F"
    by (rule running_round [OF assms(1-4)]) (rule that)
  have len: "length (round_participants s) = card (set (map fst (?C @ F)))"
    by (simp add: round_participants_def h F length_remdups_card_conv)
  also have "\<dots> \<le> length out" using card_length [of "map fst (?C @ F)"] books_ok_distinct(2) [OF ok] by simp
  finally have "free_round_step\<^sup>*\<^sup>* (commit_next_round s1) s \<longrightarrow> length (round_participants s) = length out"
    using free_run_participants [OF assms(1-3)] le_antisym by blast
  moreover have "length (round_participants s) = length out \<longrightarrow>
      (\<exists>!p. \<exists>info. hm_get (?C @ F) p = Some info \<and> new_task c i \<in> set (open_tasks info))"
    using books_full_unique_owner [OF _ assms(5-7)] ok by (simp only: books_full_def len) blast
  ultimately show ?thesis using books_ok_one_owner [OF ok] unfolding F by blast
qed

theorem round_books_balanced_witness:
  "\<exists>!p. \<exists>info. hm_get (current_contributors demo_dropped @ finished_in_round demo_dropped 1) p = Some info \<and>
     new_task 2 1 \<in> set (open_tasks info)"
proof -
  obtain s' where ok: "precommit_next_round demo_ready 1 40 = (Inr [Contributor ''a'', Contributor ''b''], s')"
    by (rule demo_precommit)
  then have start: "commit_next_round s' = demo_round" by (simp add: demo_round_def)
  have con: "list_all is_contributor (coordinator_contributors (environment demo_ready))" by code_simp
  have "coordinator_contributors (environment demo_round) \<noteq> []" by code_simp
  with round_step.drop [OF demo_drop(1)] have "round_step\<^sup>*\<^sup>* (commit_next_round s') demo_dropped" by (simp add: start)
  note books = round_books_balanced [OF demo_ready_facts(1) con ok this, of 2 1]
  have "length (round_participants demo_dropped) = 2" by code_simp
  with books show ?thesis by (simp add: demo_ready_facts)
qed

text \<open>
  C2. When a round is finished, so that no contributor is left in it and no verification is
  pending, every contribution of every chunk was completed by exactly one finished contributor
  of the round if and only if it has as many finished contributors as were committed, and it
  has so many when every replacement was free. The operations before are those of the theorem
  above. When a replacement was not free, fewer may have finished, and then the round counts as finished
  although contributions are missing.
\<close>

theorem finished_round_complete:
  assumes "hm_wf (queue s0)" and "list_all is_contributor (coordinator_contributors (environment s0))"
    and "precommit_next_round s0 next_height now = (Inr out, s1)"
    and "round_step\<^sup>*\<^sup>* (commit_next_round s1) s" and "is_current_round_finished s"
  shows "((\<forall>c i. c < number_of_chunks (environment s0) \<longrightarrow> 1 \<le> i \<longrightarrow> i \<le> length out \<longrightarrow>
      (\<exists>!p. \<exists>info. hm_get (finished_in_round s next_height) p = Some info \<and>
        new_task c i \<in> set (completed_tasks info))) \<longleftrightarrow>
    length (finished_in_round s next_height) = length out) \<and>
    (free_round_step\<^sup>*\<^sup>* (commit_next_round s1) s \<longrightarrow> length (finished_in_round s next_height) = length out)"
proof -
  obtain F where h: "round_height_or_zero s = next_height" and F: "finished_in_round s next_height = F"
    and ok: "books_ok (number_of_chunks (environment s0)) (length out) (current_contributors s) F"
    by (rule running_round [OF assms(1-4)]) (rule that)
  from assms(5) ok have ok: "books_ok (number_of_chunks (environment s0)) (length out) [] F"
    by (simp add: is_current_round_finished_def)
  have "length (round_participants s) = card (set (map fst F))"
    using assms(5) by (simp add: round_participants_def h F is_current_round_finished_def length_remdups_card_conv)
  also have "\<dots> \<le> length F" using card_length [of "map fst F"] by simp
  finally have "free_round_step\<^sup>*\<^sup>* (commit_next_round s1) s \<longrightarrow> length F = length out"
    using free_run_participants [OF assms(1-3)] books_ok_distinct(2) [OF ok] by fastforce
  then show ?thesis unfolding F using finished_books_full [OF ok] finished_books_complete [OF ok] by blast
qed

theorem finished_round_complete_witness:
  "\<exists>!p. \<exists>info. hm_get (finished_in_round demo_finished 1) p = Some info \<and>
     new_task 2 1 \<in> set (completed_tasks info)"
proof -
  obtain s' where ok: "precommit_next_round demo_ready 1 40 = (Inr [Contributor ''a'', Contributor ''b''], s')"
    by (rule demo_precommit)
  then have "commit_next_round s' = demo_round" by (simp add: demo_round_def)
  with demo_finished_steps have run: "round_step\<^sup>*\<^sup>* (commit_next_round s') demo_finished" by simp
  have con: "list_all is_contributor (coordinator_contributors (environment demo_ready))" by code_simp
  from finished_round_complete [OF demo_ready_facts(1) con ok run demo_finished_over(1)] demo_finished_over(2)
  show ?thesis by (simp add: demo_ready_facts)
qed

end
